(* ===== verification/Exchange_Prelude.thy ===== *)
theory Exchange_Prelude
  imports Complex_Main "HOL-Library.AList" "HOL-Library.Product_Lexorder"
begin

text \<open>
  The vocabulary every component of the exchange shares: identifiers, the exceptions the
  Python code raises, dynamically typed values, Python dictionaries as association lists in
  insertion order, the two binary searches of the standard module \<open>bisect\<close>, and the list
  facts that the component proofs rest on.

  Conventions. A Python \<open>int\<close> is an \<open>int\<close>. A Python float (clock readings, ages) is the
  rational number it denotes, with exact arithmetic. A \<open>str\<close> is a \<open>string\<close>, one \<open>char\<close>
  per code point below 256. A UUID is the number it stands for. A call that can raise returns
  \<open>py_error + 'a\<close>, the exception on the left.
\<close>

section \<open>Identifiers, exceptions, dynamic values\<close>

type_synonym uuid = nat
type_synonym symbol = string
type_synonym seconds = rat

datatype py_error =
    ValueError string
  | LookupError string
  | OrderNotFoundError uuid
  | KeyError
  | IndexError
  | TypeError string
  | AttributeError string
  | AssertionError string
  | RuntimeError string
  | OSError string
  | TimeoutError string
  | HTTPError int
  | URLError string
  | UnicodeDecodeError
  | JSONDecodeError
  | BackendApiError "int option" string
  | ConfigurationError string
  | InvalidTraderProfileError string
  | InvalidScenarioError string
  | RoutingError int string
  | KrxConfigurationError string
  | KrxApiError string
  | ValidationError string
  | NotFound string
  | PermissionDenied string
  | CommandError string
  | IntegrityError string
  | SystemExit string

text \<open>
  \<open>except ValueError\<close> also catches the subclasses of \<open>ValueError\<close>, and
  \<open>except OSError\<close> those of \<open>OSError\<close>: \<open>HTTPError\<close>, \<open>URLError\<close> and \<open>TimeoutError\<close>.
\<close>

fun is_value_error :: "py_error \<Rightarrow> bool" where
  "is_value_error (ValueError _) = True"
| "is_value_error UnicodeDecodeError = True"
| "is_value_error JSONDecodeError = True"
| "is_value_error (ConfigurationError _) = True"
| "is_value_error (InvalidTraderProfileError _) = True"
| "is_value_error (InvalidScenarioError _) = True"
| "is_value_error _ = False"

fun is_os_error :: "py_error \<Rightarrow> bool" where
  "is_os_error (OSError _) = True"
| "is_os_error (HTTPError _) = True"
| "is_os_error (URLError _) = True"
| "is_os_error (TimeoutError _) = True"
| "is_os_error _ = False"

text \<open>What \<open>json.loads\<close> returns, and what an unchecked constructor argument can be.\<close>

datatype py_value =
    PyNone
  | PyBool bool
  | PyInt int
  | PyFloat rat
  | PyStr string
  | PyList "py_value list"
  | PyDict "(string \<times> py_value) list"

named_theorems exchange_defs \<open>definitions that evaluate a model on a concrete input\<close>
named_theorems inv_intros \<open>introduction rules that establish a component's invariant\<close>

definition ebind :: "'e + 'a \<Rightarrow> ('a \<Rightarrow> 'e + 'b) \<Rightarrow> 'e + 'b" where
  "ebind m f = (case m of Inl e \<Rightarrow> Inl e | Inr x \<Rightarrow> f x)"

lemma ebind_simps [simp]:
  "ebind (Inl e) f = Inl e"
  "ebind (Inr x) f = f x"
  by (simp_all add: ebind_def)

lemma ebind_eq_Inr_iff: "ebind m f = Inr y \<longleftrightarrow> (\<exists>x. m = Inr x \<and> f x = Inr y)"
  by (cases m) auto

text \<open>\<open>if c: raise e\<close>, and a comprehension whose elements can raise: the first error wins.\<close>

definition raise_if :: "bool \<Rightarrow> 'e \<Rightarrow> 'e + unit" where
  "raise_if c e = (if c then Inl e else Inr ())"

lemma raise_if_simps [simp]: "raise_if True e = Inl e" "raise_if False e = Inr ()"
  by (simp_all add: raise_if_def)

lemma raise_if_eq_Inr_iff: "raise_if c e = Inr u \<longleftrightarrow> \<not> c"
  by (simp add: raise_if_def)

fun those_ok :: "('e + 'a) list \<Rightarrow> 'e + 'a list" where
  "those_ok [] = Inr []"
| "those_ok (x # xs) = ebind x (\<lambda>y. ebind (those_ok xs) (\<lambda>ys. Inr (y # ys)))"

lemma those_ok_Inr_iff: "those_ok xs = Inr ys \<longleftrightarrow> xs = map Inr ys"
  by (induction xs arbitrary: ys) (auto simp: ebind_eq_Inr_iff)

lemma those_ok_map: "(\<And>x. x \<in> set xs \<Longrightarrow> f x = Inr (g x)) \<Longrightarrow> those_ok (map f xs) = Inr (map g xs)"
  by (induction xs) auto

lemmas err_iffs = ebind_eq_Inr_iff raise_if_eq_Inr_iff

definition is_ok :: "'e + 'a \<Rightarrow> bool" where
  "is_ok m = (case m of Inl _ \<Rightarrow> False | Inr _ \<Rightarrow> True)"

lemma is_ok_simps [simp]: "\<not> is_ok (Inl e)" "is_ok (Inr x)"
  by (simp_all add: is_ok_def)

section \<open>Calls on mutable state\<close>

text \<open>
  A method that mutates its object and may raise is a function from the state to the new
  state and a result. An exception keeps the changes made before it. \<open>seq_call\<close> is the
  sequencing of two such statements.
\<close>

type_synonym ('s, 'a) action = "'s \<Rightarrow> 's \<times> (py_error + 'a)"

definition seq_call :: "('s, 'a) action \<Rightarrow> ('a \<Rightarrow> ('s, 'b) action) \<Rightarrow> ('s, 'b) action" where
  "seq_call m f s = (case m s of (s', Inl e) \<Rightarrow> (s', Inl e) | (s', Inr x) \<Rightarrow> f x s')"

lemma seq_call_ok: "m s = (s', Inr x) \<Longrightarrow> seq_call m f s = f x s'"
  by (simp add: seq_call_def)

lemma seq_call_err: "m s = (s', Inl e) \<Longrightarrow> seq_call m f s = (s', Inl e)"
  by (simp add: seq_call_def)

lemma seq_call_Inr_iff:
  "seq_call m f s = (s', Inr y) \<longleftrightarrow> (\<exists>t x. m s = (t, Inr x) \<and> f x t = (s', Inr y))"
  by (auto simp: seq_call_def split: prod.splits sum.splits)

section \<open>Dictionaries\<close>

text \<open>
  A Python dict keeps its keys in insertion order. Assigning to a present key keeps its
  place, which is what \<open>AList.update\<close> does; \<open>AList.delete\<close> is \<open>del d[k]\<close> and
  \<open>d.pop(k, None)\<close>; \<open>map_of\<close> is \<open>d.get(k)\<close>; the number of entries is \<open>len(d)\<close>.
\<close>

type_synonym ('k, 'v) dict = "('k \<times> 'v) list"

abbreviation dict_get :: "('k, 'v) dict \<Rightarrow> 'k \<Rightarrow> 'v option" where
  "dict_get d k \<equiv> map_of d k"

abbreviation dict_set :: "('k, 'v) dict \<Rightarrow> 'k \<Rightarrow> 'v \<Rightarrow> ('k, 'v) dict" where
  "dict_set d k v \<equiv> AList.update k v d"

abbreviation dict_pop :: "('k, 'v) dict \<Rightarrow> 'k \<Rightarrow> ('k, 'v) dict" where
  "dict_pop d k \<equiv> AList.delete k d"

abbreviation dict_keys :: "('k, 'v) dict \<Rightarrow> 'k list" where
  "dict_keys d \<equiv> map fst d"

abbreviation dict_ok :: "('k, 'v) dict \<Rightarrow> bool" where
  "dict_ok d \<equiv> distinct (map fst d)"

lemmas dict_simps = AList.update_conv' AList.delete_conv'

lemma dict_ok_set: "dict_ok d \<Longrightarrow> dict_ok (dict_set d k v)"
  by (rule AList.distinct_update)

lemma dict_ok_pop: "dict_ok d \<Longrightarrow> dict_ok (dict_pop d k)"
  by (rule AList.distinct_delete)

lemma dict_len_card: "dict_ok d \<Longrightarrow> length d = card (dom (map_of d))"
  by (metis distinct_card dom_map_of_conv_image_fst length_map list.set_map)

lemma dict_set_new: "dict_get d k = None \<Longrightarrow> dict_set d k v = d @ [(k, v)]"
  by (induction d) (auto split: if_splits)

lemma dict_set_set [simp]: "dict_set (dict_set d k v) k w = dict_set d k w"
  by (induction d) auto

lemma dict_keys_set_old: "dict_get d k = Some w \<Longrightarrow> dict_keys (dict_set d k v) = dict_keys d"
  by (induction d) (auto split: if_splits)

lemma dict_keys_dom: "set (dict_keys d) = dom (map_of d)"
  by (simp add: dom_map_of_conv_image_fst)

section \<open>Bisection\<close>

text \<open>
  \<open>bisect.bisect_left\<close> and \<open>bisect.bisect_right\<close> as the library computes them, and
  \<open>bisect.insort\<close>, which inserts at \<open>bisect_right\<close>.
\<close>

function bisect_left_loop :: "'a::linorder list \<Rightarrow> 'a \<Rightarrow> nat \<Rightarrow> nat \<Rightarrow> nat" where
  "bisect_left_loop xs x lo hi =
     (if lo < hi then
        (let mid = (lo + hi) div 2
         in if xs ! mid < x then bisect_left_loop xs x (Suc mid) hi
            else bisect_left_loop xs x lo mid)
      else lo)"
  by pat_completeness auto
termination
  by (relation "measure (\<lambda>(xs, x, lo, hi). hi - lo)") auto

function bisect_right_loop :: "'a::linorder list \<Rightarrow> 'a \<Rightarrow> nat \<Rightarrow> nat \<Rightarrow> nat" where
  "bisect_right_loop xs x lo hi =
     (if lo < hi then
        (let mid = (lo + hi) div 2
         in if x < xs ! mid then bisect_right_loop xs x lo mid
            else bisect_right_loop xs x (Suc mid) hi)
      else lo)"
  by pat_completeness auto
termination
  by (relation "measure (\<lambda>(xs, x, lo, hi). hi - lo)") auto

declare bisect_left_loop.simps [simp del] bisect_right_loop.simps [simp del]

definition bisect_left :: "'a::linorder list \<Rightarrow> 'a \<Rightarrow> nat" where
  "bisect_left xs x = bisect_left_loop xs x 0 (length xs)"

definition bisect_right :: "'a::linorder list \<Rightarrow> 'a \<Rightarrow> nat" where
  "bisect_right xs x = bisect_right_loop xs x 0 (length xs)"

definition insort_py :: "'a::linorder list \<Rightarrow> 'a \<Rightarrow> 'a list" where
  "insort_py xs x = (let i = bisect_right xs x in take i xs @ [x] @ drop i xs)"

text \<open>On a sorted list the two loops find the boundaries they are meant to find.\<close>

lemma bisect_left_loop_bounds:
  assumes "lo \<le> hi" "hi \<le> length xs" "sorted xs"
    and "\<forall>i<lo. xs ! i < x" "\<forall>i<length xs. hi \<le> i \<longrightarrow> x \<le> xs ! i"
  shows "let r = bisect_left_loop xs x lo hi
    in r \<le> length xs \<and> (\<forall>i<r. xs ! i < x) \<and> (\<forall>i<length xs. r \<le> i \<longrightarrow> x \<le> xs ! i)"
  using assms
proof (induction xs x lo hi rule: bisect_left_loop.induct)
  case (1 xs x lo hi)
  define mid where "mid = (lo + hi) div 2"
  show ?case
  proof (cases "lo < hi")
    case False
    then have "bisect_left_loop xs x lo hi = lo" by (simp add: bisect_left_loop.simps)
    with 1 False show ?thesis by simp
  next
    case lo: True
    then have mid: "lo \<le> mid" "mid < hi" by (auto simp: mid_def)
    show ?thesis
    proof (cases "xs ! mid < x")
      case True
      have "\<forall>i<Suc mid. xs ! i < x"
        using True "1.prems"(2,3) mid
        by (meson le_less_trans less_Suc_eq_le less_le_trans sorted_nth_mono)
      with "1.IH"(1) [OF lo mid_def] True mid "1.prems" show ?thesis
        by (simp add: bisect_left_loop.simps [of xs x lo hi] lo Let_def mid_def [symmetric])
    next
      case False
      have "\<forall>i<length xs. mid \<le> i \<longrightarrow> x \<le> xs ! i"
        using False "1.prems"(3) by (meson leI order_trans sorted_nth_mono)
      with "1.IH"(2) [OF lo mid_def] False mid "1.prems" show ?thesis
        by (simp add: bisect_left_loop.simps [of xs x lo hi] lo Let_def mid_def [symmetric])
    qed
  qed
qed

lemma bisect_left_bounds:
  assumes "sorted xs"
  shows "bisect_left xs x \<le> length xs"
    and "i < bisect_left xs x \<Longrightarrow> xs ! i < x"
    and "bisect_left xs x \<le> i \<Longrightarrow> i < length xs \<Longrightarrow> x \<le> xs ! i"
  using bisect_left_loop_bounds [of 0 "length xs" xs x] assms
  by (auto simp: bisect_left_def Let_def)

lemma bisect_right_loop_bounds:
  assumes "lo \<le> hi" "hi \<le> length xs" "sorted xs"
    and "\<forall>i<lo. xs ! i \<le> x" "\<forall>i<length xs. hi \<le> i \<longrightarrow> x < xs ! i"
  shows "let r = bisect_right_loop xs x lo hi
    in r \<le> length xs \<and> (\<forall>i<r. xs ! i \<le> x) \<and> (\<forall>i<length xs. r \<le> i \<longrightarrow> x < xs ! i)"
  using assms
proof (induction xs x lo hi rule: bisect_right_loop.induct)
  case (1 xs x lo hi)
  define mid where "mid = (lo + hi) div 2"
  show ?case
  proof (cases "lo < hi")
    case False
    then have "bisect_right_loop xs x lo hi = lo" by (simp add: bisect_right_loop.simps)
    with 1 False show ?thesis by simp
  next
    case lo: True
    then have mid: "lo \<le> mid" "mid < hi" by (auto simp: mid_def)
    show ?thesis
    proof (cases "x < xs ! mid")
      case True
      have "\<forall>i<length xs. mid \<le> i \<longrightarrow> x < xs ! i"
        using True "1.prems"(3) by (meson less_le_trans sorted_nth_mono)
      with "1.IH"(1) [OF lo mid_def] True mid "1.prems" show ?thesis
        by (simp add: bisect_right_loop.simps [of xs x lo hi] lo Let_def mid_def [symmetric])
    next
      case False
      have "\<forall>i<Suc mid. xs ! i \<le> x"
        using False "1.prems"(2,3) mid
        by (meson leI less_Suc_eq_le less_le_trans order_trans sorted_nth_mono)
      with "1.IH"(2) [OF lo mid_def] False mid "1.prems" show ?thesis
        by (simp add: bisect_right_loop.simps [of xs x lo hi] lo Let_def mid_def [symmetric])
    qed
  qed
qed

lemma bisect_right_bounds:
  assumes "sorted xs"
  shows "bisect_right xs x \<le> length xs"
    and "i < bisect_right xs x \<Longrightarrow> xs ! i \<le> x"
    and "bisect_right xs x \<le> i \<Longrightarrow> i < length xs \<Longrightarrow> x < xs ! i"
  using bisect_right_loop_bounds [of 0 "length xs" xs x] assms
  by (auto simp: bisect_right_def Let_def)

text \<open>In a strictly sorted list a present key is found, and an absent key is inserted in place.\<close>

lemma bisect_left_split:
  assumes "sorted_wrt (<) xs" "x \<in> set xs"
  obtains ys zs where "xs = ys @ x # zs" "bisect_left xs x = length ys"
proof -
  let ?b = "bisect_left xs x"
  have s: "sorted xs" using assms(1) by (simp add: strict_sorted_iff)
  from assms(2) obtain i where i: "i < length xs" "xs ! i = x" by (auto simp: in_set_conv_nth)
  have "?b \<le> i" using bisect_left_bounds(2) [OF s, of i x] i by (meson leI less_irrefl)
  then have b: "?b < length xs" using i by simp
  have "x \<le> xs ! ?b" using bisect_left_bounds(3) [OF s order_refl b] .
  moreover have "xs ! ?b \<le> x" using s i \<open>?b \<le> i\<close> by (auto intro: sorted_nth_mono)
  ultimately have "xs ! ?b = x" by simp
  then have "xs = take ?b xs @ x # drop (Suc ?b) xs" using id_take_nth_drop [OF b] by simp
  moreover have "length (take ?b xs) = ?b" using b by simp
  ultimately show ?thesis using that by metis
qed

lemma insort_py_split:
  assumes "sorted_wrt (<) xs" "x \<notin> set xs"
  obtains ys zs where "xs = ys @ zs" "insort_py xs x = ys @ x # zs"
    "\<forall>y\<in>set ys. y < x" "\<forall>z\<in>set zs. x < z"
proof -
  let ?b = "bisect_right xs x"
  have s: "sorted xs" using assms(1) by (simp add: strict_sorted_iff)
  note b = bisect_right_bounds [OF s, where x = x]
  have "\<forall>y\<in>set (take ?b xs). y < x"
  proof
    fix y assume "y \<in> set (take ?b xs)"
    then obtain i where "i < ?b" "i < length xs" "y = xs ! i" by (auto simp: in_set_conv_nth)
    with b(2) assms(2) show "y < x" by (metis nth_mem order_le_less)
  qed
  moreover have "\<forall>z\<in>set (drop ?b xs). x < z"
    using b(1,3) by (auto simp: in_set_conv_nth)
  ultimately show ?thesis
    using that [of "take ?b xs" "drop ?b xs"] by (simp add: insort_py_def Let_def)
qed

lemma insort_py_sorted:
  assumes "sorted_wrt (<) xs" "x \<notin> set xs"
  shows "sorted_wrt (<) (insort_py xs x)" "set (insort_py xs x) = insert x (set xs)"
proof -
  obtain ys zs where "xs = ys @ zs" "insort_py xs x = ys @ x # zs"
    "\<forall>y\<in>set ys. y < x" "\<forall>z\<in>set zs. x < z"
    by (rule insort_py_split [OF assms])
  with assms(1) show "sorted_wrt (<) (insort_py xs x)" "set (insort_py xs x) = insert x (set xs)"
    by (auto simp: sorted_wrt_append)
qed

section \<open>Lists\<close>

text \<open>Two lists sorted by a key that tells their elements apart are equal when they hold the same elements.\<close>

lemma sorted_by_key_unique:
  fixes f :: "'a \<Rightarrow> 'b::linorder"
  assumes "sorted_wrt (\<lambda>x y. f x < f y) xs" "sorted_wrt (\<lambda>x y. f x < f y) ys" "set xs = set ys"
  shows "xs = ys"
proof (rule map_sorted_distinct_set_unique [of f])
  have m: "sorted_wrt (<) (map f xs)" "sorted_wrt (<) (map f ys)"
    using assms(1,2) by (simp_all add: sorted_wrt_map)
  then show "sorted (map f xs)" "distinct (map f xs)" "sorted (map f ys)" "distinct (map f ys)"
    by (simp_all add: strict_sorted_iff)
  then show "inj_on f (set xs \<union> set ys)" using assms(3) by (simp add: distinct_map)
qed (rule assms(3))

lemma sorted_wrt_filter: "sorted_wrt P xs \<Longrightarrow> sorted_wrt P (filter Q xs)"
  by (induction xs) auto

lemma sorted_wrt_distinct: "sorted_wrt R xs \<Longrightarrow> (\<And>x. \<not> R x x) \<Longrightarrow> distinct xs"
  by (induction xs) auto

lemma sort_key_strict:
  fixes f :: "'a \<Rightarrow> 'b::linorder"
  assumes "distinct (map f xs)"
  shows "sorted_wrt (\<lambda>x y. f x < f y) (sort_key f xs)"
proof -
  have "sorted (map f (sort_key f xs))" by simp
  moreover have "distinct (map f (sort_key f xs))"
    using assms by (simp add: distinct_map)
  ultimately show ?thesis by (metis sorted_wrt_map strict_sorted_iff)
qed

lemma filter_neq_split:
  assumes "distinct (xs @ x # ys)"
  shows "filter (\<lambda>y. y \<noteq> x) (xs @ x # ys) = xs @ ys"
proof -
  have "\<forall>y\<in>set xs \<union> set ys. y \<noteq> x" using assms by auto
  then have "filter (\<lambda>y. y \<noteq> x) xs = xs" "filter (\<lambda>y. y \<noteq> x) ys = ys"
    by (simp_all add: filter_id_conv)
  then show ?thesis by simp
qed

lemma sum_list_filter_split:
  "sum_list (map f (filter P xs)) + sum_list (map f (filter (\<lambda>x. \<not> P x) xs)) = sum_list (map f xs)"
  for f :: "'a \<Rightarrow> int"
  by (induction xs) auto

end
