(* ===== verification/Py_Strings.thy ===== *)
theory Py_Strings
  imports Exchange_Prelude
begin

text \<open>
  The methods of Python's \<open>str\<close> that the source calls, on strings whose code points are
  below 256: \<open>strip\<close>, \<open>rstrip\<close> of one character, \<open>startswith\<close>, \<open>find\<close> and
  \<open>count\<close> of one character, \<open>split\<close> at one character, \<open>isdigit\<close>, and the decimal
  rendering of an integer. The lemmas say which strings are blank and that stripping is
  idempotent.
\<close>

section \<open>White space\<close>

definition py_isspace :: "char \<Rightarrow> bool" where
  "py_isspace c \<longleftrightarrow> (of_char c :: nat) \<in> {9, 10, 11, 12, 13, 28, 29, 30, 31, 32, 133, 160}"

definition py_lstrip :: "string \<Rightarrow> string" where
  "py_lstrip s = dropWhile py_isspace s"

definition py_strip :: "string \<Rightarrow> string" where
  "py_strip s = rev (dropWhile py_isspace (rev (py_lstrip s)))"

text \<open>\<open>not s.strip()\<close>.\<close>

definition blank :: "string \<Rightarrow> bool" where
  "blank s \<longleftrightarrow> py_strip s = []"

lemma blank_iff: "blank s \<longleftrightarrow> (\<forall>c\<in>set s. py_isspace c)"
  by (auto simp: blank_def py_strip_def py_lstrip_def dropWhile_eq_Nil_conv
      dest: set_dropWhileD) (metis dropWhile_eq_Nil_conv hd_dropWhile hd_in_set)

lemma dropWhile_id: "xs = [] \<or> \<not> P (hd xs) \<Longrightarrow> dropWhile P xs = xs"
  by (cases xs) auto

lemma py_strip_nonspace:
  assumes "s \<noteq> []" "\<not> py_isspace (hd s)" "\<not> py_isspace (last s)"
  shows "py_strip s = s"
  using assms by (simp add: py_strip_def py_lstrip_def dropWhile_id hd_rev)

lemma py_strip_idem: "py_strip (py_strip s) = py_strip s"
proof -
  let ?a = "py_lstrip s"
  let ?b = "dropWhile py_isspace (rev ?a)"
  have b: "?b = [] \<or> \<not> py_isspace (hd ?b)" by (metis hd_dropWhile)
  have "rev ?b = [] \<or> \<not> py_isspace (hd (rev ?b))"
  proof (cases "?b = []")
    case False
    have "rev ?a = takeWhile py_isspace (rev ?a) @ ?b" by simp
    then have "?a = rev ?b @ rev (takeWhile py_isspace (rev ?a))" by (metis rev_append rev_rev_ident)
    then have "hd ?a = hd (rev ?b)" "?a \<noteq> []" using False by (metis hd_append rev_is_Nil_conv, auto)
    then show ?thesis by (metis hd_dropWhile py_lstrip_def)
  qed simp
  then have "py_lstrip (rev ?b) = rev ?b" unfolding py_lstrip_def by (rule dropWhile_id)
  then show ?thesis unfolding py_strip_def using b by (simp add: dropWhile_id)
qed

text \<open>What a required text field of at most \<open>n\<close> characters accepts, after trimming.\<close>

definition text_field :: "nat \<Rightarrow> string \<Rightarrow> bool" where
  "text_field n s \<longleftrightarrow> s \<noteq> [] \<and> py_strip s = s \<and> length s \<le> n"

lemma text_field_not_blank: "text_field n s \<Longrightarrow> \<not> blank s"
  by (auto simp: text_field_def blank_def)

lemma blank_py_strip [simp]: "blank (py_strip s) \<longleftrightarrow> blank s"
  by (simp add: blank_def py_strip_idem)

section \<open>Searching and splitting\<close>

definition py_startswith :: "string \<Rightarrow> string \<Rightarrow> bool" where
  "py_startswith s p \<longleftrightarrow> take (length p) s = p"

text \<open>\<open>s.find(c)\<close>, with \<open>None\<close> for the result \<open>-1\<close>.\<close>

fun py_find :: "string \<Rightarrow> char \<Rightarrow> nat option" where
  "py_find [] c = None"
| "py_find (x # s) c = (if x = c then Some 0 else map_option Suc (py_find s c))"

definition py_count :: "string \<Rightarrow> char \<Rightarrow> nat" where
  "py_count s c = count_list s c"

fun py_split :: "string \<Rightarrow> char \<Rightarrow> string list" where
  "py_split [] c = [[]]"
| "py_split (x # s) c =
     (if x = c then [] # py_split s c
      else (case py_split s c of [] \<Rightarrow> [[x]] | p # ps \<Rightarrow> (x # p) # ps))"

text \<open>\<open>s.rstrip(c)\<close> for a single character.\<close>

definition py_rstrip_char :: "string \<Rightarrow> char \<Rightarrow> string" where
  "py_rstrip_char s c = rev (dropWhile (\<lambda>x. x = c) (rev s))"

definition is_digit :: "char \<Rightarrow> bool" where
  "is_digit c \<longleftrightarrow> 48 \<le> (of_char c :: nat) \<and> (of_char c :: nat) \<le> 57"

text \<open>\<open>s.isdigit()\<close> also accepts the superscripts one, two and three.\<close>

definition py_isdigit :: "string \<Rightarrow> bool" where
  "py_isdigit s \<longleftrightarrow> s \<noteq> [] \<and> list_all (\<lambda>c. is_digit c \<or> (of_char c :: nat) \<in> {178, 179, 185}) s"

lemma py_split_nonempty: "py_split s c \<noteq> []"
  by (induction s) (auto split: list.splits)

lemma py_find_SomeD: "py_find s c = Some i \<Longrightarrow> i < length s \<and> s ! i = c \<and> c \<notin> set (take i s)"
  by (induction s arbitrary: i) (auto split: if_splits)

lemma py_find_None_iff: "py_find s c = None \<longleftrightarrow> c \<notin> set s"
  by (induction s) auto

text \<open>Joining the pieces with the separator gives the string back.\<close>

fun py_join :: "char \<Rightarrow> string list \<Rightarrow> string" where
  "py_join c [] = []"
| "py_join c [s] = s"
| "py_join c (s # t # ts) = s @ c # py_join c (t # ts)"

lemma py_join_split: "py_join c (py_split s c) = s"
proof (induction s)
  case (Cons x s)
  obtain p ps where ps: "py_split s c = p # ps"
    using py_split_nonempty by (metis neq_Nil_conv)
  with Cons show ?case by (cases ps) auto
qed simp

lemma py_split_no_sep: "\<forall>p\<in>set (py_split s c). c \<notin> set p"
  by (induction s) (auto split: list.splits)

section \<open>Decimal numbers\<close>

text \<open>\<open>str(n)\<close> for \<open>n >= 0\<close>, and for any integer.\<close>

definition digit_char :: "nat \<Rightarrow> char" where
  "digit_char d = char_of (48 + d)"

fun str_nat :: "nat \<Rightarrow> string" where
  "str_nat n = (if n < 10 then [digit_char n] else str_nat (n div 10) @ [digit_char (n mod 10)])"

declare str_nat.simps [simp del]

lemma str_nat_eval:
  "n < 10 \<Longrightarrow> str_nat n = [digit_char n]"
  "10 \<le> n \<Longrightarrow> str_nat n = str_nat (n div 10) @ [digit_char (n mod 10)]"
  by (subst str_nat.simps, simp)+

lemma digit_char_eval:
  "digit_char 0 = CHR ''0''" "digit_char 1 = CHR ''1''" "digit_char (Suc 0) = CHR ''1''"
  "digit_char 2 = CHR ''2''" "digit_char 3 = CHR ''3''" "digit_char 4 = CHR ''4''"
  "digit_char 5 = CHR ''5''" "digit_char 6 = CHR ''6''" "digit_char 7 = CHR ''7''"
  "digit_char 8 = CHR ''8''" "digit_char 9 = CHR ''9''"
  by code_simp+

lemmas str_eval = str_nat_eval digit_char_eval

definition str_int :: "int \<Rightarrow> string" where
  "str_int i = (if i < 0 then CHR ''-'' # str_nat (nat (- i)) else str_nat (nat i))"

text \<open>\<open>int(s)\<close> on a string of ASCII digits.\<close>

definition digits_value :: "string \<Rightarrow> nat" where
  "digits_value s = foldl (\<lambda>n c. 10 * n + (of_char c - 48)) 0 s"

lemma of_char_digit: "d < 10 \<Longrightarrow> (of_char (digit_char d) :: nat) = 48 + d"
  by (simp add: digit_char_def)

lemma str_nat_digits: "s = str_nat n \<Longrightarrow> s \<noteq> [] \<and> (\<forall>c\<in>set s. is_digit c)"
proof (induction n arbitrary: s rule: str_nat.induct)
  case (1 n)
  have d: "is_digit (digit_char (n mod 10))" by (simp add: is_digit_def of_char_digit)
  show ?case
  proof (cases "n < 10")
    case True
    with d 1(2) show ?thesis by (simp add: str_nat.simps [of n])
  next
    case False
    with d 1 show ?thesis by (simp add: str_nat.simps [of n])
  qed
qed

theorem digits_value_str_nat: "digits_value (str_nat n) = n"
proof (induction n rule: str_nat.induct)
  case (1 n)
  show ?case
  proof (cases "n < 10")
    case True
    then show ?thesis by (simp add: str_nat.simps [of n] digits_value_def of_char_digit)
  next
    case False
    with 1 show ?thesis
      by (simp add: str_nat.simps [of n] digits_value_def of_char_digit)
  qed
qed

lemma str_nat_inject: "str_nat m = str_nat n \<longleftrightarrow> m = n"
  by (metis digits_value_str_nat)

end
