(* ===== verification/Order_Types.thy ===== *)
theory Order_Types
  imports Py_Strings
begin

text \<open>
  \<open>backend/exchange/orderbook/types.py\<close>: orders, trades, match results, open orders and
  book snapshots, with the checks that the constructor of an order makes.
\<close>

section \<open>Sides\<close>

datatype order_side = BUY | SELL

definition side_value :: "order_side \<Rightarrow> string" where
  "side_value s = (case s of BUY \<Rightarrow> ''BUY'' | SELL \<Rightarrow> ''SELL'')"

text \<open>\<open>OrderSide(value)\<close>: the member with this value, or \<open>ValueError\<close>.\<close>

definition order_side_of :: "string \<Rightarrow> py_error + order_side" where
  "order_side_of v =
     (if v = ''BUY'' then Inr BUY else if v = ''SELL'' then Inr SELL
      else Inl (ValueError ''not a valid OrderSide''))"

fun opposite :: "order_side \<Rightarrow> order_side" where
  "opposite BUY = SELL"
| "opposite SELL = BUY"

lemma opposite_neq [simp]: "opposite s \<noteq> s" "s \<noteq> opposite s"
  by (cases s; simp)+

lemma opposite_opposite [simp]: "opposite (opposite s) = s"
  by (cases s) auto

lemma side_neq_iff: "s \<noteq> t \<longleftrightarrow> s = opposite t"
  by (cases s; cases t) auto

text \<open>The enumeration's values compare as strings, so \<open>BUY\<close> comes first.\<close>

instantiation order_side :: linorder
begin

definition less_eq_order_side :: "order_side \<Rightarrow> order_side \<Rightarrow> bool" where
  "less_eq_order_side s t \<longleftrightarrow> s = BUY \<or> t = SELL"

definition less_order_side :: "order_side \<Rightarrow> order_side \<Rightarrow> bool" where
  "less_order_side s t \<longleftrightarrow> s = BUY \<and> t = SELL"

instance
proof
  fix s t u :: order_side
  show "s < t \<longleftrightarrow> s \<le> t \<and> \<not> t \<le> s"
    by (cases s; cases t) (simp_all add: less_eq_order_side_def less_order_side_def)
  show "s \<le> s" by (cases s) (simp_all add: less_eq_order_side_def)
  show "s \<le> u" if "s \<le> t" "t \<le> u"
    using that by (cases s; cases t; cases u) (simp_all add: less_eq_order_side_def)
  show "s = t" if "s \<le> t" "t \<le> s"
    using that by (cases s; cases t) (simp_all add: less_eq_order_side_def)
  show "s \<le> t \<or> t \<le> s" by (cases s; cases t) (simp_all add: less_eq_order_side_def)
qed

end

lemma order_side_of_value [simp]: "order_side_of (side_value s) = Inr s"
  by (cases s) (simp_all add: order_side_of_def side_value_def)

section \<open>Orders\<close>

record order =
  user_id :: string
  order_symbol :: symbol
  side :: order_side
  price :: int
  quantity :: int
  order_id :: uuid

text \<open>
  \<open>Order(...)\<close> with the checks of \<open>__post_init__\<close>, in their order. The arguments are
  dynamically typed: a side that is no \<open>OrderSide\<close> is \<open>None\<close>, and \<open>type(x) is not int\<close>
  refuses every \<open>py_value\<close> but a \<open>PyInt\<close>, a \<open>PyBool\<close> included. The identifier is drawn by
  the caller (\<open>uuid4\<close>).
\<close>

fun positive_int :: "py_value \<Rightarrow> int option" where
  "positive_int (PyInt i) = (if 0 < i then Some i else None)"
| "positive_int _ = None"

definition make_order ::
  "string \<Rightarrow> symbol \<Rightarrow> order_side option \<Rightarrow> py_value \<Rightarrow> py_value \<Rightarrow> uuid \<Rightarrow> py_error + order" where
  "make_order uid sy sd pr qty oid =
     (if blank uid then Inl (ValueError ''user_id must not be blank'')
      else if blank sy then Inl (ValueError ''symbol must not be blank'')
      else (case sd of None \<Rightarrow> Inl (ValueError ''side must be BUY or SELL'')
      | Some s \<Rightarrow> (case positive_int pr of
          None \<Rightarrow> Inl (ValueError ''price must be a positive integer'')
        | Some p \<Rightarrow> (case positive_int qty of
            None \<Rightarrow> Inl (ValueError ''quantity must be a positive integer'')
          | Some q \<Rightarrow>
              Inr \<lparr>user_id = uid, order_symbol = sy, side = s, price = p,
                    quantity = q, order_id = oid\<rparr>))))"

text \<open>What a constructed order satisfies.\<close>

definition valid_order :: "order \<Rightarrow> bool" where
  "valid_order ord \<longleftrightarrow> \<not> blank (user_id ord) \<and> \<not> blank (order_symbol ord)
     \<and> 0 < price ord \<and> 0 < quantity ord"

lemma make_order_Inr_iff:
  "make_order uid sy sd pr qty oid = Inr ord \<longleftrightarrow>
     valid_order ord \<and> user_id ord = uid \<and> order_symbol ord = sy \<and> sd = Some (side ord)
     \<and> pr = PyInt (price ord) \<and> qty = PyInt (quantity ord) \<and> order_id ord = oid"
  by (cases pr; cases qty) (auto simp: make_order_def valid_order_def split: option.splits if_splits)

section \<open>Trades, results, snapshots\<close>

text \<open>
  A trade's identifier and time come from \<open>uuid4\<close> and the wall clock: the environment's
  stamp for it.
\<close>

record stamp =
  stamp_id :: uuid
  stamp_time :: seconds

record trade =
  trade_symbol :: symbol
  trade_price :: int
  trade_quantity :: int
  buy_order_id :: uuid
  sell_order_id :: uuid
  trade_id :: uuid
  executed_at :: seconds

record match_result =
  result_order_id :: uuid
  result_trades :: "trade list"
  result_remaining :: int

record open_order =
  oo_order :: order
  oo_remaining :: int
  oo_sequence :: int

record book_level =
  level_price :: int
  level_quantity :: int

record book_snapshot =
  snap_symbol :: symbol
  snap_bids :: "book_level list"
  snap_asks :: "book_level list"

text \<open>
  Prices as sort keys: the price itself on the ask side, its negation on the bid side, so
  that a smaller key is a better price. \<open>side_price\<close> inverts it.
\<close>

definition side_key :: "order_side \<Rightarrow> int \<Rightarrow> int" where
  "side_key s p = (case s of BUY \<Rightarrow> - p | SELL \<Rightarrow> p)"

definition side_price :: "order_side \<Rightarrow> int \<Rightarrow> int" where
  "side_price s k = (case s of BUY \<Rightarrow> - k | SELL \<Rightarrow> k)"

lemma side_price_key [simp]: "side_price s (side_key s p) = p" "side_key s (side_price s k) = k"
  by (cases s; simp add: side_price_def side_key_def)+

lemma side_key_inject [simp]: "side_key s p = side_key s q \<longleftrightarrow> p = q"
  by (metis side_price_key(1))

text \<open>An incoming order meets a resting one when the prices cross.\<close>

definition crosses :: "order \<Rightarrow> order \<Rightarrow> bool" where
  "crosses incoming resting =
     (if side incoming = BUY then price resting \<le> price incoming else price incoming \<le> price resting)"

definition trade_orders :: "order \<Rightarrow> order \<Rightarrow> order \<times> order" where
  "trade_orders incoming resting =
     (if side incoming = BUY then (incoming, resting) else (resting, incoming))"

definition make_trade :: "symbol \<Rightarrow> order \<Rightarrow> order \<Rightarrow> int \<Rightarrow> stamp \<Rightarrow> trade" where
  "make_trade sy incoming resting q st =
     (let (buy, sell) = trade_orders incoming resting
      in \<lparr>trade_symbol = sy, trade_price = price resting, trade_quantity = q,
          buy_order_id = order_id buy, sell_order_id = order_id sell,
          trade_id = stamp_id st, executed_at = stamp_time st\<rparr>)"

lemma make_trade_sel [simp]:
  "trade_price (make_trade sy a b q st) = price b"
  "trade_quantity (make_trade sy a b q st) = q"
  "trade_symbol (make_trade sy a b q st) = sy"
  "buy_order_id (make_trade sy a b q st) = (if side a = BUY then order_id a else order_id b)"
  "sell_order_id (make_trade sy a b q st) = (if side a = BUY then order_id b else order_id a)"
  by (simp_all add: make_trade_def trade_orders_def)

text \<open>
  The bounded tape of executions, \<open>deque(maxlen=capacity)\<close>: extending it keeps the last
  \<open>capacity\<close> entries. \<open>newest\<close> is \<open>tuple(reversed(tuple(tape)[-limit:]))\<close>.
\<close>

definition tape_extend :: "int \<Rightarrow> trade list \<Rightarrow> trade list \<Rightarrow> trade list" where
  "tape_extend cap tape ts = (let all = tape @ ts in drop (length all - nat cap) all)"

definition newest :: "trade list \<Rightarrow> int \<Rightarrow> trade list" where
  "newest tape limit = rev (drop (length tape - nat limit) tape)"

lemma tape_extend_length: "0 \<le> cap \<Longrightarrow> int (length (tape_extend cap tape ts)) \<le> cap"
  by (simp add: tape_extend_def Let_def)

end
