(* ===== verification/Order_Book.thy ===== *)
theory Order_Book
  imports Reference_Book
begin

text \<open>
  \<open>backend/exchange/orderbook/book.py\<close>: the production order book. An \<open>_Entry\<close> object is
  shared by its price level's queue, by the order-ID index and by the arrivals queue, and
  is mutated in place, so the model keeps an explicit store: a reference is a number, the
  store maps references to entries, and the three containers hold references. A deque is a
  list with its left end first, a dict an association list, and the two \<open>_Side\<close> objects a
  function of the side.

  Python's internal failures are branches of the model: a missing price level is
  \<open>KeyError\<close>, \<open>popleft\<close> of an empty deque and \<open>del keys[i]\<close> out of range are
  \<open>IndexError\<close>. The invariant of \<open>Book_Invariant\<close> shows that they never happen.

  The clock and the stamps of trades are inputs of each call. The callbacks \<open>on_rest\<close> and
  \<open>on_close\<close> run under the book lock, after the change they report; each call returns the
  list of callbacks it made, in order.
\<close>

section \<open>State\<close>

type_synonym ref = nat

record entry =
  e_order :: order
  e_remaining :: int
  e_sequence :: int
  e_rested_at :: seconds
  e_alive :: bool

type_synonym store = "ref \<Rightarrow> entry"

definition as_open_order :: "entry \<Rightarrow> open_order" where
  "as_open_order e =
     \<lparr>oo_order = e_order e, oo_remaining = e_remaining e, oo_sequence = e_sequence e\<rparr>"

record level =
  lv_queue :: "ref list"
  lv_quantity :: int
  lv_dead :: int

definition new_level :: level where
  "new_level = \<lparr>lv_queue = [], lv_quantity = 0, lv_dead = 0\<rparr>"

record book_side =
  bs_side :: order_side
  bs_keys :: "int list"
  bs_levels :: "(int, level) dict"
  bs_total :: int

definition new_side :: "order_side \<Rightarrow> book_side" where
  "new_side s = \<lparr>bs_side = s, bs_keys = [], bs_levels = [], bs_total = 0\<rparr>"

definition compact_min_dead :: int where
  "compact_min_dead = 64"

definition bs_key :: "book_side \<Rightarrow> int \<Rightarrow> int" where
  "bs_key sd p = side_key (bs_side sd) p"

definition bs_price :: "book_side \<Rightarrow> int \<Rightarrow> int" where
  "bs_price sd k = side_price (bs_side sd) k"

section \<open>Operations of one side\<close>

text \<open>\<open>_Side.add\<close>: append to the queue of the price, creating the level when there is none.\<close>

definition side_add :: "store \<Rightarrow> ref \<Rightarrow> book_side \<Rightarrow> book_side" where
  "side_add H r sd =
     (let p = price (e_order (H r));
          (sd, L) = (case dict_get (bs_levels sd) p of
              Some L \<Rightarrow> (sd, L)
            | None \<Rightarrow> (sd\<lparr>bs_levels := dict_set (bs_levels sd) p new_level,
                          bs_keys := insort_py (bs_keys sd) (bs_key sd p)\<rparr>, new_level));
          L = L\<lparr>lv_queue := lv_queue L @ [r], lv_quantity := lv_quantity L + e_remaining (H r)\<rparr>
      in sd\<lparr>bs_levels := dict_set (bs_levels sd) p L, bs_total := bs_total sd + e_remaining (H r)\<rparr>)"

text \<open>\<open>_Side._drop_level\<close>.\<close>

definition drop_level :: "int \<Rightarrow> book_side \<Rightarrow> py_error + book_side" where
  "drop_level p sd =
     (if dict_get (bs_levels sd) p = None then Inl KeyError
      else
        (let i = bisect_left (bs_keys sd) (bs_key sd p)
         in if i < length (bs_keys sd)
            then Inr (sd\<lparr>bs_levels := dict_pop (bs_levels sd) p,
                         bs_keys := take i (bs_keys sd) @ drop (Suc i) (bs_keys sd)\<rparr>)
            else Inl IndexError))"

text \<open>The inner loop of \<open>_Side.best\<close>: canceled entries leave the front of a level.\<close>

fun pop_dead :: "store \<Rightarrow> ref list \<Rightarrow> int \<Rightarrow> ref list \<times> int" where
  "pop_dead H [] d = ([], d)"
| "pop_dead H (r # q) d = (if e_alive (H r) then (r # q, d) else pop_dead H q (d - 1))"

lemma drop_level_keys: "drop_level p sd = Inr sd' \<Longrightarrow> length (bs_keys sd') < length (bs_keys sd)"
  by (auto simp: drop_level_def Let_def split: if_splits)

text \<open>\<open>_Side.best\<close>: the oldest live order at the best price.\<close>

function side_best :: "store \<Rightarrow> book_side \<Rightarrow> py_error + (ref option \<times> book_side)" where
  "side_best H sd =
     (case bs_keys sd of
        [] \<Rightarrow> Inr (None, sd)
      | k # _ \<Rightarrow>
          (let p = bs_price sd k
           in case dict_get (bs_levels sd) p of
                None \<Rightarrow> Inl KeyError
              | Some L \<Rightarrow>
                  (let (q, d) = pop_dead H (lv_queue L) (lv_dead L);
                       sd1 = sd\<lparr>bs_levels :=
                          dict_set (bs_levels sd) p (L\<lparr>lv_queue := q, lv_dead := d\<rparr>)\<rparr>
                   in case q of
                        r # _ \<Rightarrow> Inr (Some r, sd1)
                      | [] \<Rightarrow> (case drop_level p sd1 of
                            Inl e \<Rightarrow> Inl e
                          | Inr sd2 \<Rightarrow> side_best H sd2))))"
  by pat_completeness auto
termination
  by (relation "measure (\<lambda>(H, sd). length (bs_keys sd))") (auto dest!: drop_level_keys)

declare side_best.simps [simp del]

text \<open>\<open>_Side.fill_best\<close>: reduce the front order; \<open>True\<close> when it is fully filled.\<close>

definition fill_best ::
  "store \<Rightarrow> ref \<Rightarrow> int \<Rightarrow> book_side \<Rightarrow> py_error + (bool \<times> store \<times> book_side)" where
  "fill_best H r qty sd =
     (let p = price (e_order (H r))
      in case dict_get (bs_levels sd) p of
           None \<Rightarrow> Inl KeyError
         | Some L \<Rightarrow>
             (let H = H(r := (H r)\<lparr>e_remaining := e_remaining (H r) - qty\<rparr>);
                  L = L\<lparr>lv_quantity := lv_quantity L - qty\<rparr>;
                  sd = sd\<lparr>bs_levels := dict_set (bs_levels sd) p L, bs_total := bs_total sd - qty\<rparr>
              in if e_remaining (H r) \<noteq> 0 then Inr (False, H, sd)
                 else
                   (let H = H(r := (H r)\<lparr>e_alive := False\<rparr>)
                    in case lv_queue L of
                         [] \<Rightarrow> Inl IndexError
                       | _ # q \<Rightarrow>
                           (let sd = sd\<lparr>bs_levels :=
                                  dict_set (bs_levels sd) p (L\<lparr>lv_queue := q\<rparr>)\<rparr>
                            in if lv_quantity L = 0
                               then ebind (drop_level p sd) (\<lambda>sd. Inr (True, H, sd))
                               else Inr (True, H, sd)))))"

text \<open>\<open>_Side.remove\<close>: cancel or expire a live order anywhere in the queue, lazily.\<close>

definition side_remove :: "store \<Rightarrow> ref \<Rightarrow> book_side \<Rightarrow> py_error + (store \<times> book_side)" where
  "side_remove H r sd =
     (let p = price (e_order (H r))
      in case dict_get (bs_levels sd) p of
           None \<Rightarrow> Inl KeyError
         | Some L \<Rightarrow>
             (let H = H(r := (H r)\<lparr>e_alive := False\<rparr>);
                  L = L\<lparr>lv_quantity := lv_quantity L - e_remaining (H r)\<rparr>;
                  sd = sd\<lparr>bs_levels := dict_set (bs_levels sd) p L,
                          bs_total := bs_total sd - e_remaining (H r)\<rparr>
              in if lv_quantity L = 0 then ebind (drop_level p sd) (\<lambda>sd. Inr (H, sd))
                 else
                   (let L = L\<lparr>lv_dead := lv_dead L + 1\<rparr>;
                        L = (if compact_min_dead < lv_dead L \<and> int (length (lv_queue L)) < lv_dead L * 2
                             then L\<lparr>lv_queue := filter (\<lambda>r. e_alive (H r)) (lv_queue L), lv_dead := 0\<rparr>
                             else L)
                    in Inr (H, sd\<lparr>bs_levels := dict_set (bs_levels sd) p L\<rparr>))))"

text \<open>\<open>_Side.live_entries\<close> and \<open>_Side.book_levels\<close>, with the level of a key looked up.\<close>

definition level_at :: "book_side \<Rightarrow> int \<Rightarrow> level option" where
  "level_at sd k = dict_get (bs_levels sd) (bs_price sd k)"

fun gather :: "('k \<Rightarrow> py_error + 'a) \<Rightarrow> 'k list \<Rightarrow> py_error + 'a list" where
  "gather f [] = Inr []"
| "gather f (k # ks) = ebind (f k) (\<lambda>x. ebind (gather f ks) (\<lambda>xs. Inr (x # xs)))"

definition live_entries :: "store \<Rightarrow> book_side \<Rightarrow> py_error + ref list" where
  "live_entries H sd =
     ebind (gather (\<lambda>k. case level_at sd k of
                None \<Rightarrow> Inl KeyError
              | Some L \<Rightarrow> Inr (filter (\<lambda>r. e_alive (H r)) (lv_queue L))) (bs_keys sd))
       (\<lambda>rss. Inr (concat rss))"

definition book_levels :: "book_side \<Rightarrow> py_error + book_level list" where
  "book_levels sd =
     gather (\<lambda>k. case level_at sd k of
                None \<Rightarrow> Inl KeyError
              | Some L \<Rightarrow> Inr \<lparr>level_price = bs_price sd k, level_quantity = lv_quantity L\<rparr>)
       (bs_keys sd)"

section \<open>The book\<close>

datatype close_reason = Filled | Expired

text \<open>What the callbacks report: \<open>on_rest(order_id)\<close> and \<open>on_close(order_id, reason)\<close>.\<close>

datatype book_event = Rested uuid | Closed uuid close_reason

record book =
  bk_symbol :: symbol
  bk_sides :: "order_side \<Rightarrow> book_side"
  bk_index :: "(uuid, ref) dict"
  bk_recent :: "trade list"
  bk_capacity :: int
  bk_sequence :: int
  bk_max_age :: seconds
  bk_arrivals :: "ref list"
  bk_expired :: int
  bk_store :: store
  bk_next :: ref

text \<open>The environment of a \<open>submit\<close>: two clock readings and a stamp for each trade.\<close>

record submit_env =
  expire_clock :: seconds
  rest_clock :: seconds
  stamps :: "nat \<Rightarrow> stamp"

text \<open>A call returns the book, the callbacks it made, and its result or exception.\<close>

type_synonym 'a call = "book \<times> book_event list \<times> (py_error + 'a)"

text \<open>Memory that no entry occupies yet.\<close>

definition no_entry :: entry where
  "no_entry = \<lparr>e_order = \<lparr>user_id = [], order_symbol = [], side = BUY, price = 0, quantity = 0,
                 order_id = 0\<rparr>,
     e_remaining = 0, e_sequence = 0, e_rested_at = 0, e_alive = False\<rparr>"

definition make_book :: "symbol \<Rightarrow> int \<Rightarrow> seconds \<Rightarrow> py_error + book" where
  "make_book sy cap max_age =
     (if blank sy then Inl (ValueError ''symbol must not be blank'')
      else if cap < 1 then Inl (ValueError ''recent_trade_capacity must be at least 1'')
      else if max_age < 0 then Inl (ValueError ''max_age_seconds must not be negative'')
      else Inr \<lparr>bk_symbol = sy, bk_sides = new_side, bk_index = [], bk_recent = [],
                bk_capacity = cap, bk_sequence = 0, bk_max_age = max_age, bk_arrivals = [],
                bk_expired = 0, bk_store = (\<lambda>_. no_entry), bk_next = 0\<rparr>)"

definition set_side :: "book \<Rightarrow> order_side \<Rightarrow> book_side \<Rightarrow> book" where
  "set_side b s sd = b\<lparr>bk_sides := (bk_sides b)(s := sd)\<rparr>"

text \<open>\<open>_close\<close>: the entry leaves the index; the event says why.\<close>

definition book_close :: "book \<Rightarrow> ref \<Rightarrow> book" where
  "book_close b r = b\<lparr>bk_index := dict_pop (bk_index b) (order_id (e_order (bk_store b r)))\<rparr>"

text \<open>The loop of \<open>_expire\<close> over the arrivals, oldest first.\<close>

fun expire_loop ::
  "seconds \<Rightarrow> ref list \<Rightarrow> book \<Rightarrow> book_event list \<Rightarrow> py_error + (book \<times> book_event list)" where
  "expire_loop deadline [] b ev = Inr (b\<lparr>bk_arrivals := []\<rparr>, ev)"
| "expire_loop deadline (r # rs) b ev =
     (let e = bk_store b r
      in if e_alive e \<and> deadline < e_rested_at e then Inr (b\<lparr>bk_arrivals := r # rs\<rparr>, ev)
         else if \<not> e_alive e then expire_loop deadline rs b ev
         else (case side_remove (bk_store b) r (bk_sides b (side (e_order e))) of
                 Inl x \<Rightarrow> Inl x
               | Inr (H, sd) \<Rightarrow>
                   expire_loop deadline rs
                     (book_close (set_side b (side (e_order e)) sd
                        \<lparr>bk_store := H, bk_expired := bk_expired b + 1\<rparr>) r)
                     (ev @ [Closed (order_id (e_order e)) Expired])))"

definition book_expire :: "seconds \<Rightarrow> book \<Rightarrow> py_error + (book \<times> book_event list)" where
  "book_expire now b =
     (if bk_max_age b = 0 then Inr (b, [])
      else expire_loop (now - bk_max_age b) (bk_arrivals b) b [])"

text \<open>\<open>_rest\<close>: a new entry in the store, its queue, the index and, with expiry on, the arrivals.\<close>

definition book_rest :: "seconds \<Rightarrow> order \<Rightarrow> int \<Rightarrow> book \<Rightarrow> book" where
  "book_rest now ord rem b =
     (let n = bk_sequence b + 1;
          r = bk_next b;
          e = \<lparr>e_order = ord, e_remaining = rem, e_sequence = n,
               e_rested_at = (if bk_max_age b \<noteq> 0 then now else 0), e_alive = True\<rparr>;
          b = b\<lparr>bk_sequence := n, bk_store := (bk_store b)(r := e), bk_next := Suc r\<rparr>;
          b = set_side b (side ord) (side_add (bk_store b) r (bk_sides b (side ord)));
          b = b\<lparr>bk_index := dict_set (bk_index b) (order_id ord) r\<rparr>
      in if bk_max_age b \<noteq> 0 then b\<lparr>bk_arrivals := bk_arrivals b @ [r]\<rparr> else b)"

text \<open>
  The matching loop of \<open>submit\<close>. It always ends: an iteration pops an entry of the opposing
  side's queues or leaves nothing to fill, whatever the state of the book.
\<close>

definition queued :: "book_side \<Rightarrow> nat" where
  "queued sd = sum_list (map (\<lambda>(p, L). length (lv_queue L)) (bs_levels sd))"

lemma queued_set:
  "dict_get d p = Some L \<Longrightarrow>
   sum_list (map (\<lambda>(p, L). length (lv_queue L)) (dict_set d p L')) + length (lv_queue L) =
   sum_list (map (\<lambda>(p, L). length (lv_queue L)) d) + length (lv_queue L')"
  by (induction d) (auto split: if_splits)

lemma queued_pop:
  "sum_list (map (\<lambda>(p, L). length (lv_queue L)) (dict_pop d p)) \<le>
   sum_list (map (\<lambda>(p, L). length (lv_queue L)) d)"
  by (induction d) auto

lemma queued_drop_level: "drop_level p sd = Inr sd' \<Longrightarrow> queued sd' \<le> queued sd"
  using queued_pop [of p "bs_levels sd"]
  by (auto simp: drop_level_def queued_def Let_def split: if_splits)

lemma pop_dead_length: "length (fst (pop_dead H q d)) \<le> length q"
  by (induction q arbitrary: d) (auto simp: le_SucI)

lemma side_best_queued: "side_best H sd = Inr (x, sd') \<Longrightarrow> queued sd' \<le> queued sd"
proof (induction H sd arbitrary: x sd' rule: side_best.induct)
  case (1 H sd)
  show ?case
  proof (cases "bs_keys sd")
    case Nil
    with "1.prems" show ?thesis by (simp add: side_best.simps [of H sd])
  next
    case (Cons k ks)
    define p where "p = bs_price sd k"
    with "1.prems" Cons obtain L where L: "dict_get (bs_levels sd) p = Some L"
      by (auto simp: side_best.simps [of H sd] Let_def split: option.splits)
    obtain q d where q: "pop_dead H (lv_queue L) (lv_dead L) = (q, d)" by fastforce
    let ?L = "L\<lparr>lv_queue := q, lv_dead := d\<rparr>"
    define sd1 where "sd1 = sd\<lparr>bs_levels := dict_set (bs_levels sd) p ?L\<rparr>"
    have "length q \<le> length (lv_queue L)" using pop_dead_length [of H "lv_queue L" "lv_dead L"] q by simp
    with queued_set [OF L, of ?L] have le: "queued sd1 \<le> queued sd" by (simp add: queued_def sd1_def)
    show ?thesis
    proof (cases q)
      case Nil
      with "1.prems" Cons L q obtain sd2 where sd2: "drop_level p sd1 = Inr sd2" "side_best H sd2 = Inr (x, sd')"
        by (auto simp: side_best.simps [of H sd] Let_def p_def sd1_def split: sum.splits)
      have "queued sd' \<le> queued sd2"
        using "1.IH" [OF Cons p_def L q [symmetric] _ _ Nil _ sd2(2)] sd2(1) by (simp add: sd1_def)
      also have "\<dots> \<le> queued sd1" using sd2(1) by (rule queued_drop_level)
      finally show ?thesis using le by simp
    next
      case (Cons r rs)
      with "1.prems" \<open>bs_keys sd = k # ks\<close> L q le show ?thesis
        by (auto simp: side_best.simps [of H sd] Let_def p_def [symmetric] sd1_def)
    qed
  qed
qed

lemma fill_best_queued:
  assumes "fill_best H r q sd = Inr (filled, H', sd')"
  shows "queued sd' \<le> queued sd" and "filled \<Longrightarrow> queued sd' < queued sd"
    and "\<not> filled \<Longrightarrow> e_remaining (H r) \<noteq> q"
proof -
  define p where "p = price (e_order (H r))"
  from assms obtain L where L: "dict_get (bs_levels sd) p = Some L"
    by (auto simp: fill_best_def p_def Let_def split: option.splits)
  let ?L = "L\<lparr>lv_quantity := lv_quantity L - q\<rparr>"
  let ?sd = "sd\<lparr>bs_levels := dict_set (bs_levels sd) p ?L, bs_total := bs_total sd - q\<rparr>"
  have le: "queued ?sd = queued sd" using queued_set [OF L, of ?L] by (simp add: queued_def)
  show part: "\<not> filled \<Longrightarrow> e_remaining (H r) \<noteq> q"
    using assms L by (auto simp: fill_best_def p_def [symmetric] Let_def ebind_eq_Inr_iff
        split: if_splits list.splits)
  have full: "queued sd' < queued sd" if "filled"
  proof -
    from assms that L obtain s qs where qs: "lv_queue L = s # qs"
      and sd': "sd' = ?sd\<lparr>bs_levels := dict_set (bs_levels ?sd) p (?L\<lparr>lv_queue := qs\<rparr>)\<rparr>
        \<or> drop_level p (?sd\<lparr>bs_levels := dict_set (bs_levels ?sd) p (?L\<lparr>lv_queue := qs\<rparr>)\<rparr>) = Inr sd'"
      by (auto simp: fill_best_def p_def [symmetric] Let_def ebind_eq_Inr_iff split: if_splits list.splits)
    have "dict_get (bs_levels ?sd) p = Some ?L" by (simp add: dict_simps)
    from queued_set [OF this, of "?L\<lparr>lv_queue := qs\<rparr>"] qs le
    have "queued (?sd\<lparr>bs_levels := dict_set (bs_levels ?sd) p (?L\<lparr>lv_queue := qs\<rparr>)\<rparr>) < queued sd"
      by (simp add: queued_def)
    with sd' show ?thesis using queued_drop_level le_less_trans by blast
  qed
  show "queued sd' \<le> queued sd"
  proof (cases filled)
    case False
    with assms L have "sd' = ?sd"
      by (auto simp: fill_best_def p_def [symmetric] Let_def ebind_eq_Inr_iff split: if_splits list.splits)
    with le show ?thesis by simp
  qed (use full in simp)
  show "filled \<Longrightarrow> queued sd' < queued sd" by (rule full)
qed

function match_loop ::
  "(nat \<Rightarrow> stamp) \<Rightarrow> order \<Rightarrow> int \<Rightarrow> trade list \<Rightarrow> book \<Rightarrow> book_event list
    \<Rightarrow> py_error + (int \<times> trade list \<times> book \<times> book_event list)" where
  "match_loop st ord rem ts b ev =
     (if rem = 0 then Inr (rem, ts, b, ev)
      else
        (let opp = opposite (side ord)
         in case side_best (bk_store b) (bk_sides b opp) of
              Inl x \<Rightarrow> Inl x
            | Inr (resting, sd) \<Rightarrow>
                (let b1 = set_side b opp sd
                 in case resting of
                      None \<Rightarrow> Inr (rem, ts, b1, ev)
                    | Some r \<Rightarrow>
                        if \<not> crosses ord (e_order (bk_store b r)) then Inr (rem, ts, b1, ev)
                        else
                          (let q = min rem (e_remaining (bk_store b r));
                               t = make_trade (bk_symbol b) ord (e_order (bk_store b r)) q (st (length ts))
                           in case fill_best (bk_store b) r q sd of
                                Inl x \<Rightarrow> Inl x
                              | Inr (filled, H, sd2) \<Rightarrow>
                                  (let b2 = (set_side b1 opp sd2)\<lparr>bk_store := H\<rparr>
                                   in if filled
                                      then match_loop st ord (rem - q) (ts @ [t]) (book_close b2 r)
                                             (ev @ [Closed (order_id (e_order (H r))) Filled])
                                      else match_loop st ord (rem - q) (ts @ [t]) b2 ev)))))"
  by pat_completeness auto
termination
proof (relation "measure (\<lambda>(st, ord, rem, ts, b, ev).
    2 * queued (bk_sides b (opposite (side ord))) + (if rem = 0 then 0 else 1))", goal_cases)
  case 1
  show ?case by simp
next
  case (2 st ord rem ts b ev opp best resting sd b1 r q t res filled rest H sd2 b2)
  have sb: "side_best (bk_store b) (bk_sides b opp) = Inr (resting, sd)" using 2(3,4) by simp
  have fb: "fill_best (bk_store b) r q sd = Inr (filled, H, sd2)" using 2(10,11,12) by simp
  have "queued sd2 < queued sd" using fb 2(14) by (rule fill_best_queued(2))
  also have "\<dots> \<le> queued (bk_sides b opp)" using sb by (rule side_best_queued)
  finally have "queued (bk_sides (book_close b2 r) opp) < queued (bk_sides b opp)"
    by (simp add: 2(13) set_side_def book_close_def)
  then show ?case using 2(1,2) by simp
next
  case (3 st ord rem ts b ev opp best resting sd b1 r q t res filled rest H sd2 b2)
  have sb: "side_best (bk_store b) (bk_sides b opp) = Inr (resting, sd)" using 3(3,4) by simp
  have fb: "fill_best (bk_store b) r q sd = Inr (filled, H, sd2)" using 3(10,11,12) by simp
  have "queued sd2 \<le> queued sd" using fb by (rule fill_best_queued(1))
  also have "\<dots> \<le> queued (bk_sides b opp)" using sb by (rule side_best_queued)
  finally have "queued (bk_sides b2 opp) \<le> queued (bk_sides b opp)"
    by (simp add: 3(13) set_side_def)
  moreover have "rem - q = 0"
    using fill_best_queued(3) [OF fb 3(14)] 3(8) by (simp add: min_def split: if_splits)
  ultimately show ?case using 3(1,2) by simp
qed

declare match_loop.simps [simp del]

section \<open>Calls on the book\<close>

text \<open>
  Every call but \<open>recent_trades\<close> and \<open>open_order_count\<close> expires old orders first, with a
  clock reading \<open>now\<close>. An exception the code raises on purpose leaves what expiry did in
  place; after an internal failure the model gives the book back as it was before the call.
\<close>

definition after_expiry ::
  "seconds \<Rightarrow> book \<Rightarrow> (book \<Rightarrow> book_event list \<Rightarrow> 'a call) \<Rightarrow> 'a call" where
  "after_expiry now b f =
     (case book_expire now b of Inl x \<Rightarrow> (b, [], Inl x) | Inr (b1, ev) \<Rightarrow> f b1 ev)"

definition book_submit :: "submit_env \<Rightarrow> order \<Rightarrow> book \<Rightarrow> match_result call" where
  "book_submit env ord b =
     (if order_symbol ord \<noteq> bk_symbol b
      then (b, [], Inl (ValueError (''order symbol must be '' @ bk_symbol b)))
      else after_expiry (expire_clock env) b (\<lambda>b1 ev1.
        (case match_loop (stamps env) ord (quantity ord) [] b1 ev1 of
           Inl x \<Rightarrow> (b, [], Inl x)
         | Inr (rem, ts, b2, ev) \<Rightarrow>
             (let (b2, ev) = (if rem \<noteq> 0
                    then (book_rest (rest_clock env) ord rem b2, ev @ [Rested (order_id ord)])
                    else (b2, ev));
                  b2 = b2\<lparr>bk_recent := tape_extend (bk_capacity b2) (bk_recent b2) ts\<rparr>
              in (b2, ev, Inr \<lparr>result_order_id = order_id ord, result_trades = ts,
                               result_remaining = rem\<rparr>)))))"

definition book_recent_trades :: "book \<Rightarrow> int \<Rightarrow> py_error + trade list" where
  "book_recent_trades b limit =
     (if limit < 1 then Inl (ValueError ''limit must be at least 1'')
      else Inr (newest (bk_recent b) limit))"

definition book_open_orders :: "seconds \<Rightarrow> order_side \<Rightarrow> book \<Rightarrow> open_order list call" where
  "book_open_orders now s b = after_expiry now b (\<lambda>b1 ev.
     (b1, ev, ebind (live_entries (bk_store b1) (bk_sides b1 s))
                (\<lambda>rs. Inr (map (\<lambda>r. as_open_order (bk_store b1 r)) rs))))"

definition book_cancel :: "seconds \<Rightarrow> uuid \<Rightarrow> book \<Rightarrow> open_order call" where
  "book_cancel now oid b = after_expiry now b (\<lambda>b1 ev.
     (case dict_get (bk_index b1) oid of
        None \<Rightarrow> (b1, ev, Inl (OrderNotFoundError oid))
      | Some r \<Rightarrow>
          (let b2 = b1\<lparr>bk_index := dict_pop (bk_index b1) oid\<rparr>;
               e = bk_store b2 r;
               s = side (e_order e)
           in case side_remove (bk_store b2) r (bk_sides b2 s) of
                Inl x \<Rightarrow> (b, [], Inl x)
              | Inr (H, sd) \<Rightarrow> ((set_side b2 s sd)\<lparr>bk_store := H\<rparr>, ev, Inr (as_open_order e)))))"

definition book_get_open_order :: "seconds \<Rightarrow> uuid \<Rightarrow> book \<Rightarrow> open_order option call" where
  "book_get_open_order now oid b = after_expiry now b (\<lambda>b1 ev.
     (b1, ev, Inr (map_option (\<lambda>r. as_open_order (bk_store b1 r)) (dict_get (bk_index b1) oid))))"

definition book_snapshot_call :: "seconds \<Rightarrow> book \<Rightarrow> book_snapshot call" where
  "book_snapshot_call now b = after_expiry now b (\<lambda>b1 ev.
     (b1, ev, ebind (book_levels (bk_sides b1 BUY)) (\<lambda>bids.
              ebind (book_levels (bk_sides b1 SELL)) (\<lambda>asks.
              Inr \<lparr>snap_symbol = bk_symbol b1, snap_bids = bids, snap_asks = asks\<rparr>))))"

definition book_total_quantity :: "seconds \<Rightarrow> order_side \<Rightarrow> book \<Rightarrow> int call" where
  "book_total_quantity now s b = after_expiry now b (\<lambda>b1 ev.
     (b1, ev, Inr (bs_total (bk_sides b1 s))))"

text \<open>\<open>best_price\<close> goes through \<open>_Side.best\<close>, which tidies the side it looks at.\<close>

definition book_best_price :: "seconds \<Rightarrow> order_side \<Rightarrow> book \<Rightarrow> int option call" where
  "book_best_price now s b = after_expiry now b (\<lambda>b1 ev.
     (case side_best (bk_store b1) (bk_sides b1 s) of
        Inl x \<Rightarrow> (b, [], Inl x)
      | Inr (best, sd) \<Rightarrow>
          (set_side b1 s sd, ev,
           Inr (map_option (\<lambda>r. price (e_order (bk_store b1 r))) best))))"

definition book_open_order_count :: "book \<Rightarrow> nat" where
  "book_open_order_count b = length (bk_index b)"

end
