(* ===== verification/Book_Invariant.thy ===== *)
theory Book_Invariant
  imports Order_Book
begin

text \<open>
  The representation invariant of one side of the production book and the effect of each
  \<open>_Side\<close> operation on it. \<open>side_refs\<close> is the side's queue entries in priority order and
  \<open>side_live\<close> the live ones among them, the list that the book stands for.

  A level of a well-formed side has a live entry, its running quantity is what its live
  entries have left, its counter is the number of dead ones, and its queue is in arrival
  order; the keys are strictly sorted and are those of the levels; the running total is what
  all live entries have left. Under the invariant no operation fails with \<open>KeyError\<close> or
  \<open>IndexError\<close>.
\<close>

section \<open>Definitions\<close>

definition live :: "store \<Rightarrow> ref list \<Rightarrow> ref list" where
  "live H rs = filter (\<lambda>r. e_alive (H r)) rs"

definition total_of :: "store \<Rightarrow> ref list \<Rightarrow> int" where
  "total_of H rs = sum_list (map (\<lambda>r. e_remaining (H r)) rs)"

definition queue_at :: "book_side \<Rightarrow> int \<Rightarrow> ref list" where
  "queue_at sd k = (case level_at sd k of None \<Rightarrow> [] | Some L \<Rightarrow> lv_queue L)"

definition side_refs :: "book_side \<Rightarrow> ref list" where
  "side_refs sd = concat (map (queue_at sd) (bs_keys sd))"

abbreviation side_live :: "store \<Rightarrow> book_side \<Rightarrow> ref list" where
  "side_live H sd \<equiv> live H (side_refs sd)"

definition level_ok :: "store \<Rightarrow> order_side \<Rightarrow> int \<Rightarrow> level \<Rightarrow> bool" where
  "level_ok H s p L \<longleftrightarrow>
     lv_quantity L = total_of H (live H (lv_queue L))
     \<and> live H (lv_queue L) \<noteq> []
     \<and> lv_dead L = int (length (filter (\<lambda>r. \<not> e_alive (H r)) (lv_queue L)))
     \<and> (\<forall>r\<in>set (lv_queue L). price (e_order (H r)) = p \<and> side (e_order (H r)) = s)
     \<and> (\<forall>r\<in>set (live H (lv_queue L)). 0 < e_remaining (H r))
     \<and> sorted_wrt (\<lambda>a b. e_sequence (H a) < e_sequence (H b)) (lv_queue L)"

definition side_ok :: "store \<Rightarrow> order_side \<Rightarrow> book_side \<Rightarrow> bool" where
  "side_ok H s sd \<longleftrightarrow>
     bs_side sd = s
     \<and> sorted_wrt (<) (bs_keys sd)
     \<and> (\<forall>p. dict_get (bs_levels sd) p \<noteq> None \<longleftrightarrow> side_key s p \<in> set (bs_keys sd))
     \<and> (\<forall>p L. dict_get (bs_levels sd) p = Some L \<longrightarrow> level_ok H s p L)
     \<and> bs_total sd = total_of H (side_live H sd)"

definition ref_key :: "store \<Rightarrow> order_side \<Rightarrow> ref \<Rightarrow> int \<times> int" where
  "ref_key H s r = (side_key s (price (e_order (H r))), e_sequence (H r))"

section \<open>Lists of references\<close>

lemma live_simps [simp]:
  "live H [] = []"
  "live H (r # rs) = (if e_alive (H r) then r # live H rs else live H rs)"
  "live H (xs @ ys) = live H xs @ live H ys"
  "set (live H rs) = {r \<in> set rs. e_alive (H r)}"
  by (auto simp: live_def)

lemma total_simps [simp]:
  "total_of H [] = 0"
  "total_of H (r # rs) = e_remaining (H r) + total_of H rs"
  "total_of H (xs @ ys) = total_of H xs + total_of H ys"
  by (simp_all add: total_of_def)

lemma live_cong: "(\<And>r. r \<in> set rs \<Longrightarrow> e_alive (H' r) = e_alive (H r)) \<Longrightarrow> live H' rs = live H rs"
  unfolding live_def by (rule filter_cong) auto

lemma total_cong: "(\<And>r. r \<in> set rs \<Longrightarrow> e_remaining (H' r) = e_remaining (H r)) \<Longrightarrow> total_of H' rs = total_of H rs"
  by (induction rs) auto

lemma total_pos: "rs \<noteq> [] \<Longrightarrow> \<forall>r\<in>set rs. 0 < e_remaining (H r) \<Longrightarrow> 0 < total_of H rs"
proof (induction rs)
  case (Cons r rs)
  then show ?case by (cases "rs = []") auto
qed simp

lemma live_kill: "live (H(r := (H r)\<lparr>e_alive := False\<rparr>)) rs = filter (\<lambda>x. x \<noteq> r) (live H rs)"
  by (induction rs) auto

lemma total_remove:
  "distinct rs \<Longrightarrow> r \<in> set rs \<Longrightarrow> total_of H (filter (\<lambda>x. x \<noteq> r) rs) = total_of H rs - e_remaining (H r)"
proof (induction rs)
  case (Cons x rs)
  show ?case
  proof (cases "x = r")
    case True
    then have "filter (\<lambda>y. y \<noteq> r) rs = rs" using Cons.prems(1) by (auto simp: filter_id_conv)
    with True show ?thesis by simp
  qed (use Cons in auto)
qed simp

lemma level_ok_distinct: "level_ok H s p L \<Longrightarrow> distinct (lv_queue L)"
  unfolding level_ok_def by (elim conjE) (erule sorted_wrt_distinct, simp)

lemma level_ok_quantity_pos: "level_ok H s p L \<Longrightarrow> 0 < lv_quantity L"
  unfolding level_ok_def by (elim conjE, drule total_pos, assumption) (simp only:)

lemma level_ok_cong:
  assumes "\<And>r. r \<in> set (lv_queue L) \<Longrightarrow> H' r = H r"
  shows "level_ok H' s p L = level_ok H s p L"
proof -
  have l: "live H' (lv_queue L) = live H (lv_queue L)" by (rule live_cong) (simp add: assms)
  have t: "total_of H' (live H (lv_queue L)) = total_of H (live H (lv_queue L))"
    by (rule total_cong) (simp add: assms)
  have d: "filter (\<lambda>r. \<not> e_alive (H' r)) (lv_queue L) = filter (\<lambda>r. \<not> e_alive (H r)) (lv_queue L)"
    by (rule filter_cong) (simp_all add: assms)
  have w: "sorted_wrt (\<lambda>a b. e_sequence (H' a) < e_sequence (H' b)) (lv_queue L) =
      sorted_wrt (\<lambda>a b. e_sequence (H a) < e_sequence (H b)) (lv_queue L)"
    by (rule iffI; erule sorted_wrt_mono_rel [rotated]; simp add: assms)
  have b: "(\<forall>r\<in>set (lv_queue L). price (e_order (H' r)) = p \<and> side (e_order (H' r)) = s) =
      (\<forall>r\<in>set (lv_queue L). price (e_order (H r)) = p \<and> side (e_order (H r)) = s)"
    "(\<forall>r\<in>set (live H (lv_queue L)). 0 < e_remaining (H' r)) =
      (\<forall>r\<in>set (live H (lv_queue L)). 0 < e_remaining (H r))"
    by (rule ball_cong; simp add: assms)+
  show ?thesis unfolding level_ok_def l t d w b ..
qed

section \<open>The queues of a side\<close>

lemma queue_at_set:
  "queue_at (sd\<lparr>bs_levels := dict_set (bs_levels sd) p L\<rparr>) k =
     (if k = side_key (bs_side sd) p then lv_queue L else queue_at sd k)"
  by (auto simp: queue_at_def level_at_def bs_price_def dict_simps)

lemma queue_at_pop:
  "k \<noteq> side_key (bs_side sd) p \<Longrightarrow>
   queue_at (sd\<lparr>bs_levels := dict_pop (bs_levels sd) p\<rparr>) k = queue_at sd k"
  by (auto simp: queue_at_def level_at_def bs_price_def dict_simps)

lemma queue_at_get: "dict_get (bs_levels sd) p = Some L \<Longrightarrow> queue_at sd (side_key (bs_side sd) p) = lv_queue L"
  by (simp add: queue_at_def level_at_def bs_price_def)

lemma mem_queue_at:
  "r \<in> set (queue_at sd k) \<longleftrightarrow>
     (\<exists>L. dict_get (bs_levels sd) (side_price (bs_side sd) k) = Some L \<and> r \<in> set (lv_queue L))"
  by (cases "dict_get (bs_levels sd) (side_price (bs_side sd) k)")
    (simp_all add: queue_at_def level_at_def bs_price_def)

lemma queue_at_frame [simp]:
  "queue_at (sd\<lparr>bs_total := t\<rparr>) = queue_at sd"
  "queue_at (sd\<lparr>bs_keys := ks\<rparr>) = queue_at sd"
  by (auto simp: queue_at_def level_at_def bs_price_def fun_eq_iff)

lemma side_refs_frame [simp]: "side_refs (sd\<lparr>bs_total := t\<rparr>) = side_refs sd"
  by (simp add: side_refs_def)

lemma side_okD:
  assumes "side_ok H s sd"
  shows "bs_side sd = s" "sorted_wrt (<) (bs_keys sd)"
    "dict_get (bs_levels sd) p = Some L \<Longrightarrow> level_ok H s p L"
    "dict_get (bs_levels sd) p = Some L \<Longrightarrow> side_key s p \<in> set (bs_keys sd)"
    "k \<in> set (bs_keys sd) \<Longrightarrow> \<exists>L. dict_get (bs_levels sd) (side_price s k) = Some L"
    "bs_total sd = total_of H (side_live H sd)"
  using assms unfolding side_ok_def by (blast, blast, blast, metis option.distinct(1), metis option.exhaust side_price_key(2), blast)

lemma mem_side_refs:
  assumes "side_ok H s sd"
  shows "r \<in> set (side_refs sd) \<longleftrightarrow> (\<exists>p L. dict_get (bs_levels sd) p = Some L \<and> r \<in> set (lv_queue L))"
proof
  assume "r \<in> set (side_refs sd)"
  then obtain k where "k \<in> set (bs_keys sd)" "r \<in> set (queue_at sd k)" by (auto simp: side_refs_def)
  then show "\<exists>p L. dict_get (bs_levels sd) p = Some L \<and> r \<in> set (lv_queue L)"
    by (auto simp: mem_queue_at)
next
  assume "\<exists>p L. dict_get (bs_levels sd) p = Some L \<and> r \<in> set (lv_queue L)"
  then obtain p L where "dict_get (bs_levels sd) p = Some L" "r \<in> set (lv_queue L)" by blast
  moreover from this have "side_key s p \<in> set (bs_keys sd)" using side_okD(4) [OF assms] by blast
  moreover from calculation have "r \<in> set (queue_at sd (side_key s p))"
    using queue_at_get [of sd p] side_okD(1) [OF assms] by auto
  ultimately show "r \<in> set (side_refs sd)" by (auto simp: side_refs_def)
qed

lemma side_ref_facts:
  assumes "side_ok H s sd" "r \<in> set (side_refs sd)"
  shows "side (e_order (H r)) = s"
    and "\<exists>L. dict_get (bs_levels sd) (price (e_order (H r))) = Some L \<and> r \<in> set (lv_queue L)"
    and "e_alive (H r) \<Longrightarrow> 0 < e_remaining (H r)"
proof -
  from assms obtain p L where L: "dict_get (bs_levels sd) p = Some L" "r \<in> set (lv_queue L)"
    by (auto simp: mem_side_refs)
  with side_okD(3) [OF assms(1) L(1)]
  show "side (e_order (H r)) = s"
    "\<exists>L. dict_get (bs_levels sd) (price (e_order (H r))) = Some L \<and> r \<in> set (lv_queue L)"
    "e_alive (H r) \<Longrightarrow> 0 < e_remaining (H r)"
    by (auto simp: level_ok_def)
qed

text \<open>A level's queue is one block of the side's references.\<close>

lemma level_split:
  assumes ok: "side_ok H s sd" and L: "dict_get (bs_levels sd) p = Some L"
  obtains ks1 ks2 where "bs_keys sd = ks1 @ side_key s p # ks2"
    "bisect_left (bs_keys sd) (bs_key sd p) = length ks1"
    "side_refs sd = concat (map (queue_at sd) ks1) @ lv_queue L @ concat (map (queue_at sd) ks2)"
    "\<And>L' t. side_refs (sd\<lparr>bs_levels := dict_set (bs_levels sd) p L', bs_total := t\<rparr>) =
       concat (map (queue_at sd) ks1) @ lv_queue L' @ concat (map (queue_at sd) ks2)"
    "\<And>r. r \<in> set (concat (map (queue_at sd) ks1)) \<union> set (concat (map (queue_at sd) ks2)) \<Longrightarrow> r \<notin> set (lv_queue L)"
    "side_key s p \<notin> set ks1" "side_key s p \<notin> set ks2"
proof -
  note s = side_okD(1) [OF ok]
  note keys = side_okD(2) [OF ok]
  from side_okD(4) [OF ok L] have "side_key s p \<in> set (bs_keys sd)" .
  from bisect_left_split [OF keys this] obtain ks1 ks2
    where ks: "bs_keys sd = ks1 @ side_key s p # ks2" "bisect_left (bs_keys sd) (side_key s p) = length ks1" .
  have nin: "side_key s p \<notin> set ks1" "side_key s p \<notin> set ks2"
    using keys unfolding ks(1) by (auto simp: sorted_wrt_append)
  have q: "map (queue_at (sd\<lparr>bs_levels := dict_set (bs_levels sd) p L'\<rparr>)) ks = map (queue_at sd) ks"
    if "side_key s p \<notin> set ks" for L' ks
    using that queue_at_set [where sd = sd and p = p and L = L'] s by (intro map_cong) auto
  have disj: "r \<notin> set (lv_queue L)" if k: "k \<noteq> side_key s p" "r \<in> set (queue_at sd k)" for r k
  proof -
    from k(2) obtain L' where L': "dict_get (bs_levels sd) (side_price s k) = Some L'" "r \<in> set (lv_queue L')"
      by (auto simp: mem_queue_at s)
    from side_okD(3) [OF ok L'(1)] L'(2) have "price (e_order (H r)) = side_price s k" by (auto simp: level_ok_def)
    moreover have "r \<in> set (lv_queue L) \<Longrightarrow> price (e_order (H r)) = p"
      using side_okD(3) [OF ok L] by (auto simp: level_ok_def)
    ultimately show ?thesis using k(1) by (metis side_price_key(2))
  qed
  show ?thesis
  proof (rule that [OF ks(1) _ _ _ _ nin])
    show "bisect_left (bs_keys sd) (bs_key sd p) = length ks1" using ks(2) s by (simp add: bs_key_def)
    show "side_refs sd = concat (map (queue_at sd) ks1) @ lv_queue L @ concat (map (queue_at sd) ks2)"
      using ks(1) queue_at_get [OF L] s by (simp add: side_refs_def)
    show "side_refs (sd\<lparr>bs_levels := dict_set (bs_levels sd) p L', bs_total := t\<rparr>) =
       concat (map (queue_at sd) ks1) @ lv_queue L' @ concat (map (queue_at sd) ks2)" for L' t
    proof -
      have "queue_at (sd\<lparr>bs_levels := dict_set (bs_levels sd) p L'\<rparr>) (side_key s p) = lv_queue L'"
        using queue_at_set [where sd = sd and p = p and L = L'] s by simp
      then show ?thesis by (simp add: side_refs_def ks(1) q [OF nin(1)] q [OF nin(2)])
    qed
    show "r \<notin> set (lv_queue L)"
      if "r \<in> set (concat (map (queue_at sd) ks1)) \<union> set (concat (map (queue_at sd) ks2))" for r
      using that disj nin by (auto, metis, metis)
  qed
qed

section \<open>Replacing and dropping a level\<close>

lemma level_ok_other:
  assumes ok: "side_ok H s sd" and L: "dict_get (bs_levels sd) p = Some L"
    and L2: "dict_get (bs_levels sd) p2 = Some L2" and ne: "p2 \<noteq> p"
    and frame: "\<And>r. r \<notin> set (lv_queue L) \<Longrightarrow> H' r = H r"
  shows "level_ok H' s p2 L2"
proof -
  have "r \<notin> set (lv_queue L)" if "r \<in> set (lv_queue L2)" for r
    using side_okD(3) [OF ok L] side_okD(3) [OF ok L2] that ne by (auto simp: level_ok_def)
  then have "level_ok H' s p2 L2 = level_ok H s p2 L2" by (intro level_ok_cong) (simp add: frame)
  then show ?thesis using side_okD(3) [OF ok L2] by simp
qed

lemma side_ok_set_level:
  assumes ok: "side_ok H s sd" and L: "dict_get (bs_levels sd) p = Some L"
    and L': "level_ok H' s p L'"
    and frame: "\<And>r. r \<notin> set (lv_queue L) \<Longrightarrow> H' r = H r"
    and t: "t = bs_total sd - lv_quantity L + lv_quantity L'"
  defines "sd' \<equiv> sd\<lparr>bs_levels := dict_set (bs_levels sd) p L', bs_total := t\<rparr>"
  obtains A B where "side_ok H' s sd'"
    "side_refs sd = A @ lv_queue L @ B" "side_refs sd' = A @ lv_queue L' @ B"
    "live H' A = live H A" "live H' B = live H B"
    "set A \<inter> set (lv_queue L) = {}" "set B \<inter> set (lv_queue L) = {}"
proof -
  obtain ks1 ks2 where ks: "bs_keys sd = ks1 @ side_key s p # ks2"
    and refs: "side_refs sd = concat (map (queue_at sd) ks1) @ lv_queue L @ concat (map (queue_at sd) ks2)"
    and refs': "\<And>L' t. side_refs (sd\<lparr>bs_levels := dict_set (bs_levels sd) p L', bs_total := t\<rparr>) =
       concat (map (queue_at sd) ks1) @ lv_queue L' @ concat (map (queue_at sd) ks2)"
    and disj: "\<And>r. r \<in> set (concat (map (queue_at sd) ks1)) \<union> set (concat (map (queue_at sd) ks2))
       \<Longrightarrow> r \<notin> set (lv_queue L)"
    by (rule level_split [OF ok L]) blast
  define A where "A = concat (map (queue_at sd) ks1)"
  define B where "B = concat (map (queue_at sd) ks2)"
  have AB: "set A \<inter> set (lv_queue L) = {}" "set B \<inter> set (lv_queue L) = {}"
    using disj unfolding A_def B_def by blast+
  have same: "H' r = H r" if "r \<in> set A \<union> set B" for r using frame AB that by blast
  have lAB: "live H' A = live H A" "live H' B = live H B" by (rule live_cong; simp add: same)+
  have tAB: "total_of H' (live H A) = total_of H (live H A)" "total_of H' (live H B) = total_of H (live H B)"
    by (rule total_cong; simp add: same)+
  have q: "lv_quantity L = total_of H (live H (lv_queue L))" "lv_quantity L' = total_of H' (live H' (lv_queue L'))"
    using side_okD(3) [OF ok L] L' by (simp_all add: level_ok_def)
  have refs_sd': "side_refs sd' = A @ lv_queue L' @ B" using refs' by (simp add: sd'_def A_def B_def)
  have "side_ok H' s sd'"
    unfolding side_ok_def
  proof (intro conjI allI impI)
    show "bs_side sd' = s" "sorted_wrt (<) (bs_keys sd')"
      using side_okD(1,2) [OF ok] by (simp_all add: sd'_def)
    show "(dict_get (bs_levels sd') p2 \<noteq> None) = (side_key s p2 \<in> set (bs_keys sd'))" for p2
      using ok L by (auto simp: sd'_def side_ok_def dict_simps)
    show "level_ok H' s p2 L2" if "dict_get (bs_levels sd') p2 = Some L2" for p2 L2
      using that L' level_ok_other [OF ok L _ _ frame] by (auto simp: sd'_def dict_simps split: if_splits)
    show "bs_total sd' = total_of H' (side_live H' sd')"
      using side_okD(6) [OF ok] refs q t
      by (simp add: refs_sd' lAB tAB A_def [symmetric] B_def [symmetric]) (simp add: sd'_def)
  qed
  then show ?thesis using that refs refs_sd' lAB AB unfolding A_def B_def by blast
qed

lemma side_ok_drop:
  assumes ok: "side_ok H s sd" and L: "dict_get (bs_levels sd) p = Some L"
    and frame: "\<And>r. r \<notin> set (lv_queue L) \<Longrightarrow> H' r = H r"
    and t: "t = bs_total sd - lv_quantity L"
  obtains sd' A B where
    "\<And>L'. drop_level p (sd\<lparr>bs_levels := dict_set (bs_levels sd) p L', bs_total := t\<rparr>) = Inr sd'"
    "side_ok H' s sd'"
    "side_refs sd = A @ lv_queue L @ B" "side_refs sd' = A @ B"
    "live H' A = live H A" "live H' B = live H B"
    "set A \<inter> set (lv_queue L) = {}" "set B \<inter> set (lv_queue L) = {}"
proof -
  obtain ks1 ks2 where ks: "bs_keys sd = ks1 @ side_key s p # ks2"
    and bis: "bisect_left (bs_keys sd) (bs_key sd p) = length ks1"
    and refs: "side_refs sd = concat (map (queue_at sd) ks1) @ lv_queue L @ concat (map (queue_at sd) ks2)"
    and disj: "\<And>r. r \<in> set (concat (map (queue_at sd) ks1)) \<union> set (concat (map (queue_at sd) ks2))
       \<Longrightarrow> r \<notin> set (lv_queue L)"
    and nin: "side_key s p \<notin> set ks1" "side_key s p \<notin> set ks2"
    by (rule level_split [OF ok L]) blast
  define A where "A = concat (map (queue_at sd) ks1)"
  define B where "B = concat (map (queue_at sd) ks2)"
  define sd' where "sd' = sd\<lparr>bs_levels := dict_pop (bs_levels sd) p, bs_keys := ks1 @ ks2, bs_total := t\<rparr>"
  have AB: "set A \<inter> set (lv_queue L) = {}" "set B \<inter> set (lv_queue L) = {}"
    using disj unfolding A_def B_def by blast+
  have same: "H' r = H r" if "r \<in> set A \<union> set B" for r using frame AB that by blast
  have lAB: "live H' A = live H A" "live H' B = live H B" by (rule live_cong; simp add: same)+
  have tAB: "total_of H' (live H A) = total_of H (live H A)" "total_of H' (live H B) = total_of H (live H B)"
    by (rule total_cong; simp add: same)+
  have q: "lv_quantity L = total_of H (live H (lv_queue L))"
    using side_okD(3) [OF ok L] by (simp add: level_ok_def)
  note s = side_okD(1) [OF ok]
  have m: "map (queue_at (sd\<lparr>bs_levels := dict_pop (bs_levels sd) p\<rparr>)) ks = map (queue_at sd) ks"
    if "side_key s p \<notin> set ks" for ks
    using that s by (intro map_cong) (auto intro: queue_at_pop)
  have refs_sd': "side_refs sd' = A @ B"
    by (simp add: side_refs_def sd'_def A_def B_def m [OF nin(1)] m [OF nin(2)])
  have drop: "drop_level p (sd\<lparr>bs_levels := dict_set (bs_levels sd) p L', bs_total := t\<rparr>) = Inr sd'" for L'
    using bis ks by (simp add: drop_level_def dict_simps sd'_def AList.delete_update_same bs_key_def)
  have "side_ok H' s sd'"
    unfolding side_ok_def
  proof (intro conjI allI impI)
    show "bs_side sd' = s" using s by (simp add: sd'_def)
    show "sorted_wrt (<) (bs_keys sd')"
      using side_okD(2) [OF ok] by (simp add: sd'_def ks sorted_wrt_append)
    show "(dict_get (bs_levels sd') p2 \<noteq> None) = (side_key s p2 \<in> set (bs_keys sd'))" for p2
    proof (cases "p2 = p")
      case True
      then show ?thesis using nin by (simp add: sd'_def dict_simps)
    next
      case False
      then have "side_key s p2 \<noteq> side_key s p" by simp
      then show ?thesis using ok False unfolding side_ok_def by (simp add: sd'_def dict_simps ks)
    qed
    show "level_ok H' s p2 L2" if "dict_get (bs_levels sd') p2 = Some L2" for p2 L2
      using that level_ok_other [OF ok L _ _ frame] by (auto simp: sd'_def dict_simps split: if_splits)
    show "bs_total sd' = total_of H' (side_live H' sd')"
      using side_okD(6) [OF ok] refs q t
      by (simp add: refs_sd' lAB tAB A_def [symmetric] B_def [symmetric]) (simp add: sd'_def)
  qed
  then show ?thesis using that drop refs refs_sd' lAB AB unfolding A_def B_def by blast
qed

section \<open>The order of a side\<close>

text \<open>The references of a side are in strict price-time order, so no reference occurs twice.\<close>

lemma side_refs_sorted:
  assumes ok: "side_ok H s sd"
  shows "sorted_wrt (\<lambda>a b. ref_key H s a < ref_key H s b) (side_refs sd)"
proof -
  have "sorted_wrt (\<lambda>a b. ref_key H s a < ref_key H s b) (concat (map (queue_at sd) ks))"
    if "sorted_wrt (<) ks" "set ks \<subseteq> set (bs_keys sd)" for ks
    using that
  proof (induction ks)
    case (Cons k ks)
    have keys: "fst (ref_key H s r) = j" if "j \<in> set (bs_keys sd)" "r \<in> set (queue_at sd j)" for r j
    proof -
      from that side_okD(1) [OF ok] obtain L where
        "dict_get (bs_levels sd) (side_price s j) = Some L" "r \<in> set (lv_queue L)"
        by (auto simp: mem_queue_at)
      then show ?thesis using side_okD(3) [OF ok] by (auto simp: level_ok_def ref_key_def)
    qed
    from Cons.prems(2) side_okD(1,5) [OF ok] obtain L where
      L: "dict_get (bs_levels sd) (side_price s k) = Some L" "queue_at sd k = lv_queue L"
      using queue_at_get [of sd "side_price s k"] by fastforce
    have "sorted_wrt (\<lambda>a b. ref_key H s a < ref_key H s b) (lv_queue L)"
      using side_okD(3) [OF ok L(1)] unfolding level_ok_def
      by (elim conjE, rule_tac sorted_wrt_mono_rel) (auto simp: ref_key_def less_prod_def)
    moreover have "ref_key H s a < ref_key H s b"
      if "a \<in> set (queue_at sd k)" "b \<in> set (concat (map (queue_at sd) ks))" for a b
    proof -
      from that(2) obtain j where j: "j \<in> set ks" "b \<in> set (queue_at sd j)" by auto
      with that keys Cons.prems have "fst (ref_key H s a) = k" "fst (ref_key H s b) = j" "k < j" by auto
      then show ?thesis by (simp add: less_prod_def)
    qed
    ultimately show ?case using Cons L by (simp add: sorted_wrt_append)
  qed simp
  then show ?thesis unfolding side_refs_def using side_okD(2) [OF ok] by blast
qed

lemma side_refs_distinct: "side_ok H s sd \<Longrightarrow> distinct (side_refs sd)"
  by (rule sorted_wrt_distinct [OF side_refs_sorted]) auto

lemma side_live_distinct: "side_ok H s sd \<Longrightarrow> distinct (side_live H sd)"
  by (simp add: live_def side_refs_distinct)

lemma side_ok_cong:
  assumes ok: "side_ok H s sd" and same: "\<And>r. r \<in> set (side_refs sd) \<Longrightarrow> H' r = H r"
  shows "side_ok H' s sd" and "side_live H' sd = side_live H sd"
proof -
  show l: "side_live H' sd = side_live H sd" by (rule live_cong) (simp add: same)
  have t: "total_of H' (side_live H sd) = total_of H (side_live H sd)" by (rule total_cong) (simp add: same)
  have "level_ok H' s p L" if "dict_get (bs_levels sd) p = Some L" for p L
  proof -
    have "r \<in> set (side_refs sd)" if "r \<in> set (lv_queue L)" for r
      using that \<open>dict_get (bs_levels sd) p = Some L\<close> mem_side_refs [OF ok] by blast
    then have "level_ok H' s p L = level_ok H s p L" by (intro level_ok_cong) (simp add: same)
    then show ?thesis using side_okD(3) [OF ok that] by simp
  qed
  then show "side_ok H' s sd" using ok unfolding side_ok_def l t by blast
qed

section \<open>best\<close>

lemma pop_dead_spec:
  "live H q \<noteq> [] \<Longrightarrow>
   \<exists>dead r q'. pop_dead H q d = (r # q', d - int (length dead)) \<and> q = dead @ r # q'
     \<and> e_alive (H r) \<and> (\<forall>x\<in>set dead. \<not> e_alive (H x))"
proof (induction q arbitrary: d)
  case (Cons x q)
  show ?case
  proof (cases "e_alive (H x)")
    case True
    then show ?thesis by (intro exI [of _ "[]"]) simp
  next
    case False
    with Cons.prems have "live H q \<noteq> []" by simp
    from Cons.IH [OF this, of "d - 1"] obtain dead r q' where
      "pop_dead H q (d - 1) = (r # q', d - 1 - int (length dead))" "q = dead @ r # q'"
      "e_alive (H r)" "\<forall>x\<in>set dead. \<not> e_alive (H x)" by blast
    with False show ?thesis by (intro exI [of _ "x # dead"] exI [of _ r] exI [of _ q']) simp
  qed
qed simp

lemma live_dead: "\<forall>x\<in>set rs. \<not> e_alive (H x) \<Longrightarrow> live H rs = []"
  by (simp add: live_def filter_empty_conv)

text \<open>The front of a well-formed side: its first level's queue loses only dead entries.\<close>

lemma side_best_spec:
  assumes ok: "side_ok H s sd"
  shows "side_live H sd = [] \<Longrightarrow> side_best H sd = Inr (None, sd)"
    and "side_live H sd = r # rest \<Longrightarrow>
      \<exists>sd' L. side_best H sd = Inr (Some r, sd') \<and> side_ok H s sd' \<and> side_live H sd' = r # rest
        \<and> set (side_refs sd') \<subseteq> set (side_refs sd)
        \<and> dict_get (bs_levels sd') (price (e_order (H r))) = Some L \<and> hd (lv_queue L) = r"
proof -
  have split: "\<exists>L r' q dead sd'. dict_get (bs_levels sd) (side_price s k) = Some L
      \<and> side_best H sd = Inr (Some r', sd') \<and> lv_queue L = dead @ r' # q
      \<and> e_alive (H r') \<and> (\<forall>x\<in>set dead. \<not> e_alive (H x))
      \<and> sd' = sd\<lparr>bs_levels := dict_set (bs_levels sd) (side_price s k)
                 (L\<lparr>lv_queue := r' # q, lv_dead := lv_dead L - int (length dead)\<rparr>)\<rparr>"
    if k: "bs_keys sd = k # ks" for k ks
  proof -
    from k side_okD(5) [OF ok, of k] obtain L where L: "dict_get (bs_levels sd) (side_price s k) = Some L" by auto
    then have "live H (lv_queue L) \<noteq> []" using side_okD(3) [OF ok L] by (simp add: level_ok_def)
    from pop_dead_spec [OF this, of "lv_dead L"] obtain dead r' q where
      "pop_dead H (lv_queue L) (lv_dead L) = (r' # q, lv_dead L - int (length dead))"
      "lv_queue L = dead @ r' # q" "e_alive (H r')" "\<forall>x\<in>set dead. \<not> e_alive (H x)" by blast
    with L k side_okD(1) [OF ok] show ?thesis
      by (intro exI [of _ L] exI [of _ r'] exI [of _ q] exI [of _ dead] exI [of _
        "sd\<lparr>bs_levels := dict_set (bs_levels sd) (side_price s k)
           (L\<lparr>lv_queue := r' # q, lv_dead := lv_dead L - int (length dead)\<rparr>)\<rparr>"])
        (simp add: side_best.simps [of H sd] bs_price_def Let_def)
  qed
  show "side_best H sd = Inr (None, sd)" if "side_live H sd = []"
  proof (cases "bs_keys sd")
    case (Cons k ks)
    from split [OF this] obtain L r' q dead where L: "dict_get (bs_levels sd) (side_price s k) = Some L"
      "lv_queue L = dead @ r' # q" "e_alive (H r')" by blast
    then have "r' \<in> set (lv_queue L)" by simp
    with L(1) have "r' \<in> set (side_refs sd)" using mem_side_refs [OF ok] by blast
    with L(3) have "r' \<in> set (side_live H sd)" by simp
    then show ?thesis using that by simp
  qed (simp add: side_best.simps)
  assume rest: "side_live H sd = r # rest"
  then obtain k ks where k: "bs_keys sd = k # ks" by (cases "bs_keys sd") (auto simp: side_refs_def)
  from split [OF this] obtain L r' q dead sd' where L: "dict_get (bs_levels sd) (side_price s k) = Some L"
    and best: "side_best H sd = Inr (Some r', sd')" and q: "lv_queue L = dead @ r' # q"
    and alive: "e_alive (H r')" and dead: "\<forall>x\<in>set dead. \<not> e_alive (H x)"
    and sd': "sd' = sd\<lparr>bs_levels := dict_set (bs_levels sd) (side_price s k)
                 (L\<lparr>lv_queue := r' # q, lv_dead := lv_dead L - int (length dead)\<rparr>)\<rparr>" by blast
  let ?L = "L\<lparr>lv_queue := r' # q, lv_dead := lv_dead L - int (length dead)\<rparr>"
  have lq: "live H (lv_queue L) = live H (lv_queue ?L)" using q dead alive by (simp add: live_dead)
  have "filter (\<lambda>r. \<not> e_alive (H r)) dead = dead" using dead by (simp add: filter_id_conv)
  then have lok: "level_ok H s (side_price s k) ?L"
    using side_okD(3) [OF ok L] q dead alive unfolding level_ok_def
    by (auto simp: live_dead sorted_wrt_append)
  have "sd = sd\<lparr>bs_total := bs_total sd\<rparr>" by simp
  then have sd'': "sd' = sd\<lparr>bs_levels := dict_set (bs_levels sd) (side_price s k) ?L, bs_total := bs_total sd\<rparr>"
    by (simp add: sd')
  obtain A B where AB: "side_ok H s sd'" "side_refs sd = A @ lv_queue L @ B" "side_refs sd' = A @ lv_queue ?L @ B"
    by (rule side_ok_set_level [OF ok L lok, of "bs_total sd"]) (auto simp: sd'')
  have "side_live H sd' = side_live H sd" using AB(2,3) lq by simp
  moreover have "hd (side_live H sd) = r'"
  proof -
    have "queue_at sd k = lv_queue L"
      using queue_at_get [of sd "side_price s k" L] L side_okD(1) [OF ok] by simp
    then show ?thesis using alive dead by (simp add: side_refs_def k q live_dead)
  qed
  moreover have "price (e_order (H r')) = side_price s k"
    using side_okD(3) [OF ok L] q by (auto simp: level_ok_def)
  ultimately show "\<exists>sd' L. side_best H sd = Inr (Some r, sd') \<and> side_ok H s sd' \<and> side_live H sd' = r # rest
        \<and> set (side_refs sd') \<subseteq> set (side_refs sd)
        \<and> dict_get (bs_levels sd') (price (e_order (H r))) = Some L \<and> hd (lv_queue L) = r"
    using best AB rest q by (intro exI [of _ sd'] exI [of _ ?L]) (auto simp: sd' dict_simps)
qed

section \<open>fill_best\<close>

lemma fill_best_part:
  assumes ok: "side_ok H s sd" and live: "r \<in> set (side_live H sd)"
    and q: "0 < q" "q < e_remaining (H r)"
  shows "\<exists>sd'. fill_best H r q sd =
            Inr (False, H(r := (H r)\<lparr>e_remaining := e_remaining (H r) - q\<rparr>), sd')
          \<and> side_ok (H(r := (H r)\<lparr>e_remaining := e_remaining (H r) - q\<rparr>)) s sd'
          \<and> side_refs sd' = side_refs sd"
proof -
  define p where "p = price (e_order (H r))"
  define H' where "H' = H(r := (H r)\<lparr>e_remaining := e_remaining (H r) - q\<rparr>)"
  from live have r: "r \<in> set (side_refs sd)" "e_alive (H r)" by simp_all
  from side_ref_facts(2) [OF ok r(1)] obtain L
    where L: "dict_get (bs_levels sd) p = Some L" "r \<in> set (lv_queue L)" by (auto simp: p_def)
  let ?L = "L\<lparr>lv_quantity := lv_quantity L - q\<rparr>"
  note lok = side_okD(3) [OF ok L(1)]
  have alive: "e_alive (H' x) = e_alive (H x)" and ord: "e_order (H' x) = e_order (H x)"
    and seq: "e_sequence (H' x) = e_sequence (H x)" for x by (simp_all add: H'_def)
  have live_eq: "live H' rs = live H rs" for rs by (rule live_cong) (rule alive)
  have "total_of H' rs = total_of H rs - q" if "distinct rs" "r \<in> set rs" for rs
    using that
  proof (induction rs)
    case (Cons x rs)
    show ?case
    proof (cases "x = r")
      case True
      with Cons.prems have t: "total_of H' rs = total_of H rs" by (intro total_cong) (auto simp: H'_def)
      have "e_remaining (H' r) = e_remaining (H r) - q" by (simp add: H'_def)
      with True t show ?thesis by simp
    qed (use Cons in \<open>auto simp: H'_def\<close>)
  qed simp
  then have "total_of H' (live H (lv_queue L)) = total_of H (live H (lv_queue L)) - q"
    using level_ok_distinct [OF lok] L(2) r(2) by (simp add: live_def)
  moreover have "0 < e_remaining (H' x)" if "0 < e_remaining (H x)" for x
    using that q by (simp add: H'_def)
  ultimately have lok': "level_ok H' s p ?L"
    using lok unfolding level_ok_def by (simp add: live_eq alive ord seq)
  let ?sd = "sd\<lparr>bs_levels := dict_set (bs_levels sd) p ?L, bs_total := bs_total sd - q\<rparr>"
  have "fill_best H r q sd = Inr (False, H', ?sd)"
    using L q by (simp add: fill_best_def p_def [symmetric] H'_def Let_def)
  moreover have "side_ok H' s ?sd \<and> side_refs ?sd = side_refs sd"
    by (rule side_ok_set_level [OF ok L(1) lok', of "bs_total sd - q"]) (use L(2) in \<open>auto simp: H'_def\<close>)
  ultimately show ?thesis unfolding H'_def by blast
qed

lemma live_upd_kill: "live (H(r := (H r)\<lparr>e_remaining := m, e_alive := False\<rparr>)) rs = filter (\<lambda>x. x \<noteq> r) (live H rs)"
  by (induction rs) auto

text \<open>
  Killing a live entry and giving its level a smaller queue with the same other live entries:
  the shared core of a full fill, of a cancel and of an expiry.
\<close>

lemma side_kill:
  assumes ok: "side_ok H s sd" and L: "dict_get (bs_levels sd) p = Some L"
    and r: "r \<in> set (lv_queue L)" "e_alive (H r)"
    and H': "H' = H(r := (H r)\<lparr>e_remaining := m, e_alive := False\<rparr>)"
  defines "rest \<equiv> filter (\<lambda>x. x \<noteq> r) (live H (lv_queue L))"
  shows "live H' rs = filter (\<lambda>x. x \<noteq> r) (live H rs)"
    and "lv_quantity L - e_remaining (H r) = total_of H' rest"
    and "lv_quantity L - e_remaining (H r) = 0 \<longleftrightarrow> rest = []"
    and "rest = [] \<Longrightarrow> t = bs_total sd - e_remaining (H r) \<Longrightarrow> \<exists>sd'.
          (\<forall>L'. drop_level p (sd\<lparr>bs_levels := dict_set (bs_levels sd) p L', bs_total := t\<rparr>) = Inr sd')
          \<and> side_ok H' s sd' \<and> side_live H' sd' = filter (\<lambda>x. x \<noteq> r) (side_live H sd)
          \<and> set (side_refs sd') \<subseteq> set (side_refs sd)"
    and "level_ok H' s p L' \<Longrightarrow> live H' (lv_queue L') = rest \<Longrightarrow> set (lv_queue L') \<subseteq> set (lv_queue L)
          \<Longrightarrow> t = bs_total sd - e_remaining (H r)
          \<Longrightarrow> sd' = sd\<lparr>bs_levels := dict_set (bs_levels sd) p L', bs_total := t\<rparr>
          \<Longrightarrow> side_ok H' s sd' \<and> side_live H' sd' = filter (\<lambda>x. x \<noteq> r) (side_live H sd)
            \<and> set (side_refs sd') \<subseteq> set (side_refs sd)"
proof -
  note lok = side_okD(3) [OF ok L]
  have qty: "lv_quantity L = total_of H (live H (lv_queue L))" using lok by (simp add: level_ok_def)
  have dist: "distinct (live H (lv_queue L))" using level_ok_distinct [OF lok] by (simp add: live_def)
  have pos: "\<forall>x\<in>set rest. 0 < e_remaining (H' x)"
    using lok unfolding level_ok_def rest_def H' by auto
  show lv: "live H' rs = filter (\<lambda>x. x \<noteq> r) (live H rs)" for rs unfolding H' by (rule live_upd_kill)
  have "total_of H' rest = total_of H rest" unfolding rest_def H' by (rule total_cong) auto
  also have "\<dots> = total_of H (live H (lv_queue L)) - e_remaining (H r)"
    unfolding rest_def using dist r by (intro total_remove) auto
  finally show tot: "lv_quantity L - e_remaining (H r) = total_of H' rest" using qty by simp
  show "lv_quantity L - e_remaining (H r) = 0 \<longleftrightarrow> rest = []"
    using tot total_pos [OF _ pos] by (cases "rest = []") auto
  have fr: "H' x = H x" if "x \<notin> set (lv_queue L)" for x using that r(1) by (auto simp: H')
  have out: "filter (\<lambda>x. x \<noteq> r) (live H C) = live H C" if "set C \<inter> set (lv_queue L) = {}" for C
    using that r(1) by (auto simp: filter_id_conv)
  show "\<exists>sd'. (\<forall>L'. drop_level p (sd\<lparr>bs_levels := dict_set (bs_levels sd) p L', bs_total := t\<rparr>) = Inr sd')
      \<and> side_ok H' s sd' \<and> side_live H' sd' = filter (\<lambda>x. x \<noteq> r) (side_live H sd)
      \<and> set (side_refs sd') \<subseteq> set (side_refs sd)" if "rest = []" "t = bs_total sd - e_remaining (H r)"
  proof -
    have "lv_quantity L = e_remaining (H r)" using tot that(1) by simp
    with that(2) have t: "t = bs_total sd - lv_quantity L" by simp
    obtain sd' A B where d: "\<And>L'. drop_level p (sd\<lparr>bs_levels := dict_set (bs_levels sd) p L', bs_total := t\<rparr>) = Inr sd'"
      "side_ok H' s sd'" "side_refs sd = A @ lv_queue L @ B" "side_refs sd' = A @ B"
      "live H' A = live H A" "live H' B = live H B"
      "set A \<inter> set (lv_queue L) = {}" "set B \<inter> set (lv_queue L) = {}"
      by (rule side_ok_drop [OF ok L _ t]) (erule fr, rule that)
    have "side_live H' sd' = filter (\<lambda>x. x \<noteq> r) (side_live H sd)"
      using that(1) unfolding d(3,4) rest_def by (simp add: d(5,6) out [OF d(7)] out [OF d(8)])
    then show ?thesis using d by (intro exI [of _ sd']) auto
  qed
  assume lok': "level_ok H' s p L'" and lL': "live H' (lv_queue L') = rest"
    and sub: "set (lv_queue L') \<subseteq> set (lv_queue L)" and t: "t = bs_total sd - e_remaining (H r)"
    and sd': "sd' = sd\<lparr>bs_levels := dict_set (bs_levels sd) p L', bs_total := t\<rparr>"
  have t': "t = bs_total sd - lv_quantity L + lv_quantity L'"
    using tot lok' lL' t by (simp add: level_ok_def)
  obtain A B where d: "side_ok H' s sd'"
    "side_refs sd = A @ lv_queue L @ B" "side_refs sd' = A @ lv_queue L' @ B"
    "live H' A = live H A" "live H' B = live H B"
    "set A \<inter> set (lv_queue L) = {}" "set B \<inter> set (lv_queue L) = {}"
    unfolding sd' by (rule side_ok_set_level [OF ok L lok' fr t'])
  have "side_live H' sd' = filter (\<lambda>x. x \<noteq> r) (side_live H sd)"
    unfolding d(2,3) using lL' by (simp add: d(4,5) out [OF d(6)] out [OF d(7)] rest_def)
  then show "side_ok H' s sd' \<and> side_live H' sd' = filter (\<lambda>x. x \<noteq> r) (side_live H sd)
      \<and> set (side_refs sd') \<subseteq> set (side_refs sd)" using d(1,2,3) sub by auto
qed

text \<open>A level stays well-formed when a live entry dies in place, is popped, or is compacted away.\<close>

lemma level_ok_kill:
  assumes lok: "level_ok H s p L" and r: "r \<in> set (lv_queue L)" "e_alive (H r)"
    and H': "H' = H(r := (H r)\<lparr>e_remaining := m, e_alive := False\<rparr>)"
    and rest: "filter (\<lambda>x. x \<noteq> r) (live H (lv_queue L)) \<noteq> []"
    and qty: "qty = total_of H' (filter (\<lambda>x. x \<noteq> r) (live H (lv_queue L)))"
  shows "level_ok H' s p (L\<lparr>lv_quantity := qty, lv_dead := lv_dead L + 1\<rparr>)"
    and "lv_queue L = r # q \<Longrightarrow> level_ok H' s p (L\<lparr>lv_quantity := qty, lv_queue := q\<rparr>)"
    and "level_ok H' s p (L\<lparr>lv_quantity := qty, lv_dead := 0, lv_queue := filter (\<lambda>x. e_alive (H' x)) (lv_queue L)\<rparr>)"
proof -
  have lv: "live H' rs = filter (\<lambda>x. x \<noteq> r) (live H rs)" for rs unfolding H' by (rule live_upd_kill)
  have ord: "e_order (H' x) = e_order (H x)" and seq: "e_sequence (H' x) = e_sequence (H x)"
    and rem: "x \<noteq> r \<Longrightarrow> e_remaining (H' x) = e_remaining (H x)"
    and al: "e_alive (H' x) \<longleftrightarrow> x \<noteq> r \<and> e_alive (H x)" for x by (simp_all add: H')
  have dist: "distinct (lv_queue L)" using lok by (rule level_ok_distinct)
  have dead: "int (length (filter (\<lambda>x. \<not> e_alive (H' x)) (lv_queue L)))
      = int (length (filter (\<lambda>x. \<not> e_alive (H x)) (lv_queue L))) + 1"
  proof -
    have "int (length (filter (\<lambda>x. \<not> e_alive (H' x)) qs)) = int (length (filter (\<lambda>x. \<not> e_alive (H x)) qs)) + (if r \<in> set qs then 1 else 0)"
      if "distinct qs" for qs using that by (induction qs) (auto simp: al r(2))
    with dist r(1) show ?thesis by simp
  qed
  show "level_ok H' s p (L\<lparr>lv_quantity := qty, lv_dead := lv_dead L + 1\<rparr>)"
    using lok rest qty unfolding level_ok_def by (simp add: lv dead ord seq rem)
  have ll: "live H' (live H' qs) = live H' qs" for qs by (simp add: live_def)
  show "level_ok H' s p (L\<lparr>lv_quantity := qty, lv_dead := 0, lv_queue := filter (\<lambda>x. e_alive (H' x)) (lv_queue L)\<rparr>)"
    using lok rest qty unfolding level_ok_def live_def [of H', symmetric]
    by (simp add: ll) (simp add: lv ord seq rem sorted_wrt_filter live_def al conj_comms)
  assume q: "lv_queue L = r # q"
  then have out: "filter (\<lambda>x. x \<noteq> r) (live H q) = live H q" using dist by (auto simp: filter_id_conv)
  have nq: "r \<notin> set q" using dist q by simp
  have remq: "e_remaining (H' x) = e_remaining (H x)" if "x \<in> set q" for x
    using nq that by (intro rem) auto
  from nq have "filter (\<lambda>x. \<not> e_alive (H' x)) q = filter (\<lambda>x. \<not> e_alive (H x)) q"
    by (intro filter_cong) (auto simp: al)
  then show "level_ok H' s p (L\<lparr>lv_quantity := qty, lv_queue := q\<rparr>)"
    using lok rest qty q r(2) nq unfolding level_ok_def by (auto simp: lv out ord seq remq)
qed

lemma fill_best_full:
  assumes ok: "side_ok H s sd" and L: "dict_get (bs_levels sd) (price (e_order (H r))) = Some L"
    and front: "lv_queue L = r # q" and alive: "e_alive (H r)"
  defines "H' \<equiv> H(r := (H r)\<lparr>e_remaining := 0, e_alive := False\<rparr>)"
  shows "\<exists>sd'. fill_best H r (e_remaining (H r)) sd = Inr (True, H', sd') \<and> side_ok H' s sd'
          \<and> side_live H' sd' = filter (\<lambda>x. x \<noteq> r) (side_live H sd)
          \<and> set (side_refs sd') \<subseteq> set (side_refs sd)"
proof -
  define p where "p = price (e_order (H r))"
  note L = L [folded p_def]
  define m where "m = e_remaining (H r)"
  have r: "r \<in> set (lv_queue L)" using front by simp
  note kill = side_kill [OF ok L r alive H'_def [THEN meta_eq_to_obj_eq]]
  let ?rest = "filter (\<lambda>x. x \<noteq> r) (live H (lv_queue L))"
  let ?L = "L\<lparr>lv_quantity := lv_quantity L - m, lv_queue := q\<rparr>"
  let ?sd = "sd\<lparr>bs_levels := dict_set (bs_levels sd) p ?L, bs_total := bs_total sd - m\<rparr>"
  have H'': "H(r := H r\<lparr>e_remaining := 0, e_alive := False\<rparr>) = H'" by (simp add: H'_def)
  have nr: "r \<notin> set q" using level_ok_distinct [OF side_okD(3) [OF ok L]] front by simp
  show ?thesis
  proof (cases "?rest = []")
    case True
    then have q0: "lv_quantity L - m = 0" using kill(3) by (simp add: m_def)
    from kill(4) [OF True, of "bs_total sd - m"] obtain sd' where
      d: "drop_level p (sd\<lparr>bs_levels := dict_set (bs_levels sd) p L', bs_total := bs_total sd - m\<rparr>) = Inr sd'"
      and sd': "side_ok H' s sd'" "side_live H' sd' = filter (\<lambda>x. x \<noteq> r) (side_live H sd)"
        "set (side_refs sd') \<subseteq> set (side_refs sd)" for L' unfolding m_def by blast
    have swap: "sd\<lparr>bs_total := t, bs_levels := d\<rparr> = sd\<lparr>bs_levels := d, bs_total := t\<rparr>" for t d by simp
    have "fill_best H r m sd = Inr (True, H', sd')"
      using L front q0 d [of ?L]
      by (simp add: fill_best_def p_def [symmetric] m_def [symmetric] Let_def dict_simps H'' swap)
    then show ?thesis using sd' by (auto simp: m_def)
  next
    case False
    then have q0: "lv_quantity L - m \<noteq> 0" using kill(3) by (simp add: m_def)
    have "level_ok H' s p ?L"
      by (rule level_ok_kill(2) [OF side_okD(3) [OF ok L] r alive _ False _ front])
        (use kill(2) in \<open>simp_all add: H'_def m_def\<close>)
    moreover have "live H' q = ?rest" using nr front by (simp add: kill(1) alive)
    ultimately have "side_ok H' s ?sd \<and> side_live H' ?sd = filter (\<lambda>x. x \<noteq> r) (side_live H sd)
        \<and> set (side_refs ?sd) \<subseteq> set (side_refs sd)"
      by (rule_tac kill(5) [of ?L]) (use front in \<open>auto simp: m_def\<close>)
    moreover have "fill_best H r m sd = Inr (True, H', ?sd)"
      using L front q0
      by (simp add: fill_best_def p_def [symmetric] m_def [symmetric] Let_def dict_simps H'')
    ultimately show ?thesis unfolding m_def by blast
  qed
qed

section \<open>remove\<close>

lemma side_remove_spec:
  assumes ok: "side_ok H s sd" and live: "r \<in> set (side_live H sd)"
  defines "H' \<equiv> H(r := (H r)\<lparr>e_alive := False\<rparr>)"
  shows "\<exists>sd'. side_remove H r sd = Inr (H', sd') \<and> side_ok H' s sd'
          \<and> side_live H' sd' = filter (\<lambda>x. x \<noteq> r) (side_live H sd)
          \<and> set (side_refs sd') \<subseteq> set (side_refs sd)"
proof -
  define p where "p = price (e_order (H r))"
  define m where "m = e_remaining (H r)"
  from live have r: "r \<in> set (side_refs sd)" "e_alive (H r)" by simp_all
  from side_ref_facts(2) [OF ok r(1)] obtain L
    where L: "dict_get (bs_levels sd) p = Some L" "r \<in> set (lv_queue L)" by (auto simp: p_def)
  have H': "H' = H(r := (H r)\<lparr>e_remaining := e_remaining (H r), e_alive := False\<rparr>)"
    by (simp add: H'_def)
  have m': "e_remaining (H' r) = m" by (simp add: H'_def m_def)
  note lok = side_okD(3) [OF ok L(1)]
  note kill = side_kill [OF ok L r(2) H']
  note lkill = level_ok_kill [OF lok L(2) r(2) H']
  let ?rest = "filter (\<lambda>x. x \<noteq> r) (live H (lv_queue L))"
  show ?thesis
  proof (cases "?rest = []")
    case True
    then have q0: "lv_quantity L - m = 0" using kill(3) by (simp add: m_def)
    from kill(4) [OF True, of "bs_total sd - m"] obtain sd' where
      d: "drop_level p (sd\<lparr>bs_levels := dict_set (bs_levels sd) p L', bs_total := bs_total sd - m\<rparr>) = Inr sd'"
      and sd': "side_ok H' s sd'" "side_live H' sd' = filter (\<lambda>x. x \<noteq> r) (side_live H sd)"
        "set (side_refs sd') \<subseteq> set (side_refs sd)" for L' unfolding m_def by blast
    have "side_remove H r sd = Inr (H', sd')"
      using L q0 d m' by (simp add: side_remove_def p_def [symmetric] H'_def [symmetric] Let_def)
    then show ?thesis using sd' by blast
  next
    case False
    then have q0: "lv_quantity L - m \<noteq> 0" using kill(3) by (simp add: m_def)
    define L1 where "L1 = L\<lparr>lv_quantity := lv_quantity L - m, lv_dead := lv_dead L + 1\<rparr>"
    define L2 where "L2 = (if compact_min_dead < lv_dead L1 \<and> int (length (lv_queue L1)) < lv_dead L1 * 2
        then L1\<lparr>lv_queue := filter (\<lambda>r. e_alive (H' r)) (lv_queue L1), lv_dead := 0\<rparr> else L1)"
    have qty: "lv_quantity L - m = total_of H' ?rest" using kill(2) by (simp add: m_def)
    have "level_ok H' s p L2 \<and> live H' (lv_queue L2) = ?rest \<and> set (lv_queue L2) \<subseteq> set (lv_queue L)"
    proof (cases "compact_min_dead < lv_dead L1 \<and> int (length (lv_queue L1)) < lv_dead L1 * 2")
      case True
      then have "L2 = L\<lparr>lv_quantity := lv_quantity L - m, lv_dead := 0,
          lv_queue := filter (\<lambda>x. e_alive (H' x)) (lv_queue L)\<rparr>" by (simp add: L2_def L1_def)
      moreover have "live H' (filter (\<lambda>x. e_alive (H' x)) (lv_queue L)) = live H' (lv_queue L)"
        by (simp add: live_def)
      ultimately show ?thesis using lkill(3) [OF False qty] kill(1) [of "lv_queue L"] by auto
    next
      case False
      then have "L2 = L1" unfolding L2_def by (rule if_not_P)
      then show ?thesis using lkill(1) [OF \<open>?rest \<noteq> []\<close> qty] kill(1) [of "lv_queue L"] by (simp add: L1_def)
    qed
    then have L2: "level_ok H' s p L2" "live H' (lv_queue L2) = ?rest" "set (lv_queue L2) \<subseteq> set (lv_queue L)"
      by blast+
    define sd' where "sd' = sd\<lparr>bs_levels := dict_set (bs_levels sd) p L2, bs_total := bs_total sd - m\<rparr>"
    have "side_remove H r sd = Inr (H', sd')"
      using L q0 m' unfolding side_remove_def p_def [symmetric]
      by (simp add: H'_def [symmetric] Let_def sd'_def L2_def L1_def)
    then show ?thesis
      using kill(5) [OF L2, of "bs_total sd - m" sd'] by (auto simp: m_def sd'_def)
  qed
qed

section \<open>add\<close>

lemma side_add_spec:
  assumes ok: "side_ok H s sd"
    and r: "side (e_order (H r)) = s" "e_alive (H r)" "0 < e_remaining (H r)"
    and newest: "\<And>x. x \<in> set (side_refs sd) \<Longrightarrow> e_sequence (H x) < e_sequence (H r)"
  shows "side_ok H s (side_add H r sd)" and "set (side_refs (side_add H r sd)) = insert r (set (side_refs sd))"
proof -
  define p where "p = price (e_order (H r))"
  define m where "m = e_remaining (H r)"
  have nin: "r \<notin> set (side_refs sd)" using newest by blast
  have "side_ok H s (side_add H r sd) \<and> set (side_refs (side_add H r sd)) = insert r (set (side_refs sd))"
  proof (cases "dict_get (bs_levels sd) p")
    case (Some L)
    let ?L = "L\<lparr>lv_queue := lv_queue L @ [r], lv_quantity := lv_quantity L + m\<rparr>"
    have sub: "x \<in> set (side_refs sd)" if "x \<in> set (lv_queue L)" for x
      using Some that mem_side_refs [OF ok] by blast
    have lok: "level_ok H s p ?L"
      using side_okD(3) [OF ok Some] r newest sub unfolding level_ok_def
      by (auto simp: m_def p_def sorted_wrt_append)
    have "side_add H r sd = sd\<lparr>bs_levels := dict_set (bs_levels sd) p ?L, bs_total := bs_total sd + m\<rparr>"
      using Some by (simp add: side_add_def Let_def p_def [symmetric] m_def)
    then show ?thesis
      by (rule_tac side_ok_set_level [OF ok Some lok, of "bs_total sd + m"]) auto
  next
    case None
    define ks where "ks = bs_keys sd"
    note s = side_okD(1) [OF ok]
    have nk: "side_key s p \<notin> set ks"
      using side_okD(5) [OF ok, of "side_key s p"] None by (auto simp: ks_def)
    obtain ks1 ks2 where ks: "ks = ks1 @ ks2" "insort_py ks (side_key s p) = ks1 @ side_key s p # ks2"
      by (rule insort_py_split [OF _ nk]) (use side_okD(2) [OF ok] in \<open>auto simp: ks_def\<close>)
    let ?L = "\<lparr>lv_queue = [r], lv_quantity = m, lv_dead = 0\<rparr>"
    define sd' where "sd' = sd\<lparr>bs_keys := ks1 @ side_key s p # ks2,
        bs_levels := dict_set (bs_levels sd) p ?L, bs_total := bs_total sd + m\<rparr>"
    have add: "side_add H r sd = sd'"
      using None ks s by (simp add: side_add_def Let_def p_def [symmetric] m_def new_level_def
          bs_key_def dict_simps sd'_def ks_def)
    have q: "map (queue_at (sd\<lparr>bs_levels := dict_set (bs_levels sd) p ?L\<rparr>)) js = map (queue_at sd) js"
      if "side_key s p \<notin> set js" for js
      using that queue_at_set [where sd = sd and p = p and L = ?L] s by (intro map_cong) auto
    have q1: "queue_at (sd\<lparr>bs_levels := dict_set (bs_levels sd) p ?L\<rparr>) (side_key s p) = [r]"
      using queue_at_set [where sd = sd and p = p and L = ?L] s by simp
    define A where "A = concat (map (queue_at sd) ks1)"
    define B where "B = concat (map (queue_at sd) ks2)"
    have refs: "side_refs sd = A @ B" using ks(1) by (simp add: side_refs_def ks_def A_def B_def)
    have frame: "queue_at sd' = queue_at (sd\<lparr>bs_levels := dict_set (bs_levels sd) p ?L\<rparr>)"
      by (auto simp: sd'_def queue_at_def level_at_def bs_price_def fun_eq_iff)
    have n12: "side_key s p \<notin> set ks1" "side_key s p \<notin> set ks2" using nk ks(1) by simp_all
    have "bs_keys sd' = ks1 @ side_key s p # ks2" by (simp add: sd'_def)
    then have refs': "side_refs sd' = A @ r # B"
      unfolding side_refs_def frame A_def B_def by (simp add: q1 q [OF n12(1)] q [OF n12(2)])
    have "sorted_wrt (<) (ks1 @ side_key s p # ks2)"
      using insort_py_sorted(1) [OF _ nk] side_okD(2) [OF ok] ks by (simp add: ks_def)
    moreover have "level_ok H s p ?L" using r by (simp add: level_ok_def p_def m_def)
    moreover have "(dict_get (bs_levels sd') p2 \<noteq> None) = (side_key s p2 \<in> set (bs_keys sd'))" for p2
      using ok ks(1) unfolding side_ok_def by (auto simp: sd'_def dict_simps ks_def [symmetric])
    ultimately have "side_ok H s sd'"
      unfolding side_ok_def
      using s side_okD(3,6) [OF ok] r refs refs'
      by (simp add: sd'_def dict_simps m_def)
    then show ?thesis using add refs refs' by auto
  qed
  then show "side_ok H s (side_add H r sd)" "set (side_refs (side_add H r sd)) = insert r (set (side_refs sd))"
    by blast+
qed

section \<open>Reading a side\<close>

lemma gather_map: "(\<And>k. k \<in> set ks \<Longrightarrow> f k = Inr (g k)) \<Longrightarrow> gather f ks = Inr (map g ks)"
  by (induction ks) simp_all

lemma live_entries_spec: "side_ok H s sd \<Longrightarrow> live_entries H sd = Inr (side_live H sd)"
proof -
  assume ok: "side_ok H s sd"
  have "gather (\<lambda>k. case level_at sd k of None \<Rightarrow> Inl KeyError
      | Some L \<Rightarrow> Inr (filter (\<lambda>r. e_alive (H r)) (lv_queue L))) (bs_keys sd)
    = Inr (map (\<lambda>k. live H (queue_at sd k)) (bs_keys sd))"
    using side_okD(1,5) [OF ok]
    by (intro gather_map) (fastforce simp: level_at_def bs_price_def queue_at_def live_def)
  moreover have "concat (map (\<lambda>k. live H (queue_at sd k)) ks) = live H (concat (map (queue_at sd) ks))" for ks
    by (induction ks) simp_all
  ultimately show ?thesis by (simp add: live_entries_def side_refs_def)
qed

lemma book_levels_spec:
  assumes ok: "side_ok H s sd"
  shows "book_levels sd = Inr (map (\<lambda>k. \<lparr>level_price = side_price s k,
           level_quantity = total_of H (live H (queue_at sd k))\<rparr>) (bs_keys sd))"
  unfolding book_levels_def
proof (rule gather_map)
  fix k assume "k \<in> set (bs_keys sd)"
  then obtain L where L: "dict_get (bs_levels sd) (side_price s k) = Some L" using side_okD(5) [OF ok] by blast
  then show "(case level_at sd k of None \<Rightarrow> Inl KeyError
      | Some L \<Rightarrow> Inr \<lparr>level_price = bs_price sd k, level_quantity = lv_quantity L\<rparr>)
    = Inr \<lparr>level_price = side_price s k, level_quantity = total_of H (live H (queue_at sd k))\<rparr>"
    using side_okD(1) [OF ok] side_okD(3) [OF ok L]
    by (simp add: level_at_def bs_price_def queue_at_def level_ok_def)
qed

lemma new_side_ok: "side_ok H s (new_side s)" "side_refs (new_side s) = []"
  by (simp_all add: side_ok_def new_side_def side_refs_def)

end
