(* ===== verification/Book_Refinement.thy ===== *)
theory Book_Refinement
  imports Book_Invariant
begin

text \<open>
  The production book implements the reference book. \<open>book_ok\<close> is the representation
  invariant of a whole book, \<open>abs_book\<close> the reference book that it stands for, and
  \<open>abs_at\<close> the one it stands for once a call has dropped the orders that are too old. Each
  call keeps the invariant, raises no internal error, and returns what the reference
  operation returns on \<open>abs_at\<close>.
\<close>

section \<open>Invariant and abstraction\<close>

definition alive_at :: "book \<Rightarrow> ref \<Rightarrow> bool" where
  "alive_at b r \<longleftrightarrow> r < bk_next b \<and> e_alive (bk_store b r)"

definition live_refs :: "book \<Rightarrow> order_side \<Rightarrow> ref list" where
  "live_refs b s = side_live (bk_store b) (bk_sides b s)"

definition open_of :: "book \<Rightarrow> ref list \<Rightarrow> open_order list" where
  "open_of b rs = map (\<lambda>r. as_open_order (bk_store b r)) rs"

text \<open>The parameter \<open>t\<close> is the latest reading of the book's clock.\<close>

definition arrivals_ok :: "seconds \<Rightarrow> book \<Rightarrow> bool" where
  "arrivals_ok t b \<longleftrightarrow> bk_max_age b = 0 \<or>
     (\<forall>r. alive_at b r \<longrightarrow> r \<in> set (bk_arrivals b))
     \<and> (\<forall>r\<in>set (bk_arrivals b). r < bk_next b \<and> e_rested_at (bk_store b r) \<le> t)
     \<and> sorted_wrt (\<lambda>x y. e_rested_at (bk_store b x) \<le> e_rested_at (bk_store b y)) (bk_arrivals b)"

definition book_ok :: "seconds \<Rightarrow> book \<Rightarrow> bool" where
  "book_ok t b \<longleftrightarrow>
     (\<forall>s. side_ok (bk_store b) s (bk_sides b s))
     \<and> (\<forall>s. \<forall>r\<in>set (side_refs (bk_sides b s)). r < bk_next b \<and> e_sequence (bk_store b r) \<le> bk_sequence b)
     \<and> (\<forall>r. alive_at b r \<longrightarrow> r \<in> set (side_refs (bk_sides b (side (e_order (bk_store b r))))))
     \<and> dict_ok (bk_index b)
     \<and> (\<forall>oid r. dict_get (bk_index b) oid = Some r \<longleftrightarrow>
          alive_at b r \<and> order_id (e_order (bk_store b r)) = oid)
     \<and> arrivals_ok t b
     \<and> 0 \<le> bk_max_age b \<and> 1 \<le> bk_capacity b"

definition abs_sides :: "book \<Rightarrow> (order_side \<Rightarrow> ref list) \<Rightarrow> ref_book" where
  "abs_sides b rs =
     \<lparr>rb_symbol = bk_symbol b, rb_bids = open_of b (rs BUY), rb_asks = open_of b (rs SELL),
      rb_recent = bk_recent b, rb_capacity = bk_capacity b, rb_sequence = bk_sequence b\<rparr>"

definition abs_book :: "book \<Rightarrow> ref_book" where
  "abs_book b = abs_sides b (live_refs b)"

text \<open>\<open>fresh_at\<close>: at time \<open>now\<close> the entry is younger than the maximal age.\<close>

definition fresh_at :: "seconds \<Rightarrow> book \<Rightarrow> ref \<Rightarrow> bool" where
  "fresh_at now b r \<longleftrightarrow> bk_max_age b = 0 \<or> now - bk_max_age b < e_rested_at (bk_store b r)"

definition abs_at :: "seconds \<Rightarrow> book \<Rightarrow> ref_book" where
  "abs_at now b = abs_sides b (\<lambda>s. filter (fresh_at now b) (live_refs b s))"

text \<open>The callbacks, applied to the set of identifiers of the open orders.\<close>

fun track :: "book_event list \<Rightarrow> uuid set \<Rightarrow> uuid set" where
  "track [] S = S"
| "track (Rested oid # es) S = track es (insert oid S)"
| "track (Closed oid why # es) S = track es (S - {oid})"

lemma track_append [simp]: "track (xs @ ys) S = track ys (track xs S)"
  by (induction xs S rule: track.induct) simp_all

definition event_ids :: "book_event list \<Rightarrow> uuid set" where
  "event_ids ev = {oid. Rested oid \<in> set ev \<or> (\<exists>why. Closed oid why \<in> set ev)}"

lemma event_ids_simps [simp]:
  "event_ids [] = {}" "event_ids (Rested oid # ev) = insert oid (event_ids ev)"
  "event_ids (Closed oid why # ev) = insert oid (event_ids ev)"
  "event_ids (xs @ ys) = event_ids xs \<union> event_ids ys"
  by (auto simp: event_ids_def)

definition open_ids :: "book \<Rightarrow> uuid set" where
  "open_ids b = set (dict_keys (bk_index b))"

text \<open>What no call but a rest changes.\<close>

definition same_frame :: "book \<Rightarrow> book \<Rightarrow> bool" where
  "same_frame b b' \<longleftrightarrow> bk_symbol b' = bk_symbol b \<and> bk_recent b' = bk_recent b
     \<and> bk_capacity b' = bk_capacity b \<and> bk_sequence b' = bk_sequence b
     \<and> bk_max_age b' = bk_max_age b \<and> bk_next b' = bk_next b"

lemma book_okD:
  assumes "book_ok t b"
  shows "side_ok (bk_store b) s (bk_sides b s)"
    "r \<in> set (side_refs (bk_sides b s)) \<Longrightarrow> r < bk_next b"
    "r \<in> set (side_refs (bk_sides b s)) \<Longrightarrow> e_sequence (bk_store b r) \<le> bk_sequence b"
    "alive_at b r \<Longrightarrow> r \<in> set (side_refs (bk_sides b (side (e_order (bk_store b r)))))"
    "dict_ok (bk_index b)"
    "dict_get (bk_index b) oid = Some r \<longleftrightarrow> alive_at b r \<and> order_id (e_order (bk_store b r)) = oid"
    "arrivals_ok t b" "0 \<le> bk_max_age b" "1 \<le> bk_capacity b"
  using assms unfolding book_ok_def by (blast, blast, blast, blast, blast, blast, blast, blast, blast)

lemma mem_live_refs:
  assumes "book_ok t b"
  shows "r \<in> set (live_refs b s) \<longleftrightarrow> alive_at b r \<and> side (e_order (bk_store b r)) = s"
proof
  assume "r \<in> set (live_refs b s)"
  then have "r \<in> set (side_refs (bk_sides b s))" "e_alive (bk_store b r)" by (simp_all add: live_refs_def)
  then show "alive_at b r \<and> side (e_order (bk_store b r)) = s"
    using book_okD(2) [OF assms] side_ref_facts(1) [OF book_okD(1) [OF assms]] by (auto simp: alive_at_def)
next
  assume "alive_at b r \<and> side (e_order (bk_store b r)) = s"
  then show "r \<in> set (live_refs b s)"
    using book_okD(4) [OF assms, of r] by (auto simp: live_refs_def alive_at_def)
qed

lemma open_ids_iff: "book_ok t b \<Longrightarrow> oid \<in> open_ids b \<longleftrightarrow> (\<exists>r. alive_at b r \<and> order_id (e_order (bk_store b r)) = oid)"
  unfolding open_ids_def dict_keys_dom by (auto simp: dom_def book_okD(6))

lemma alive_unique:
  assumes "book_ok t b" "alive_at b r" "alive_at b r'"
    "order_id (e_order (bk_store b r)) = order_id (e_order (bk_store b r'))"
  shows "r = r'"
  using book_okD(6) [OF assms(1)] assms(2-4) by (metis option.inject)

lemma live_refs_distinct: "book_ok t b \<Longrightarrow> distinct (live_refs b s)"
  unfolding live_refs_def by (rule side_live_distinct [OF book_okD(1)])

section \<open>One entry leaves the book\<close>

text \<open>
  The common step of a full fill, a cancel and an expiry: the entry is dead in the new
  store, its side has lost it, and its identifier has left the index.
\<close>

lemma book_ok_leave:
  assumes ok: "book_ok t b" and r: "alive_at b r"
    and s: "s = side (e_order (bk_store b r))"
    and sd: "side_ok H s sd" "side_live H sd = filter (\<lambda>x. x \<noteq> r) (live_refs b s)"
      "set (side_refs sd) \<subseteq> set (side_refs (bk_sides b s))"
    and H: "H = (bk_store b)(r := (bk_store b r)\<lparr>e_remaining := m, e_alive := False\<rparr>)"
    and b': "b' = (set_side b s sd)\<lparr>bk_store := H, bk_index := dict_pop (bk_index b) (order_id (e_order (bk_store b r))), bk_expired := n\<rparr>"
  shows "book_ok t b'" and "live_refs b' s' = filter (\<lambda>x. x \<noteq> r) (live_refs b s')"
    and "open_ids b' = open_ids b - {order_id (e_order (bk_store b r))}"
    and "same_frame b b'"
proof -
  have sides: "bk_sides b' = (bk_sides b)(s := sd)" "bk_store b' = H" "bk_next b' = bk_next b"
    "bk_sequence b' = bk_sequence b" "bk_arrivals b' = bk_arrivals b" "bk_max_age b' = bk_max_age b"
    "bk_capacity b' = bk_capacity b"
    and idx: "bk_index b' = dict_pop (bk_index b) (order_id (e_order (bk_store b r)))"
    by (simp_all add: b' set_side_def)
  have ord: "e_order (H x) = e_order (bk_store b x)" and seq: "e_sequence (H x) = e_sequence (bk_store b x)"
    and rst: "e_rested_at (H x) = e_rested_at (bk_store b x)" for x by (simp_all add: H)
  have al: "alive_at b' x \<longleftrightarrow> x \<noteq> r \<and> alive_at b x" for x by (simp add: alive_at_def sides H)
  have opp: "side_ok H (opposite s) (bk_sides b (opposite s))"
      "side_live H (bk_sides b (opposite s)) = side_live (bk_store b) (bk_sides b (opposite s))"
  proof -
    have "x \<noteq> r" if "x \<in> set (side_refs (bk_sides b (opposite s)))" for x
      using side_ref_facts(1) [OF book_okD(1) [OF ok] that] s by auto
    then have "H x = bk_store b x" if "x \<in> set (side_refs (bk_sides b (opposite s)))" for x using that by (simp add: H)
    from side_ok_cong [OF book_okD(1) [OF ok] this]
    show "side_ok H (opposite s) (bk_sides b (opposite s))"
      "side_live H (bk_sides b (opposite s)) = side_live (bk_store b) (bk_sides b (opposite s))" by simp_all
  qed
  show live': "live_refs b' s' = filter (\<lambda>x. x \<noteq> r) (live_refs b s')" for s'
  proof (cases "s' = s")
    case True
    then show ?thesis using sd(2) by (simp add: live_refs_def sides)
  next
    case False
    then have s': "s' = opposite s" by (simp add: side_neq_iff)
    have "r \<notin> set (live_refs b (opposite s))" using mem_live_refs [OF ok] s by simp
    then have "filter (\<lambda>x. x \<noteq> r) (live_refs b (opposite s)) = live_refs b (opposite s)"
      by (auto simp: filter_id_conv)
    then show ?thesis using s' opp(2) by (simp add: live_refs_def sides)
  qed
  have refs_sub: "set (side_refs (bk_sides b' s')) \<subseteq> set (side_refs (bk_sides b s'))" for s'
    using sd(3) by (auto simp: sides)
  have "side_ok (bk_store b') s' (bk_sides b' s')" for s'
    using sd(1) opp(1) by (cases "s' = s") (auto simp: sides side_neq_iff)
  moreover have "\<forall>x\<in>set (side_refs (bk_sides b' s')). x < bk_next b' \<and> e_sequence (bk_store b' x) \<le> bk_sequence b'" for s'
    using refs_sub [of s'] book_okD(2,3) [OF ok] by (auto simp: sides seq)
  moreover have "x \<in> set (side_refs (bk_sides b' (side (e_order (bk_store b' x)))))" if "alive_at b' x" for x
  proof -
    from that have "x \<in> set (live_refs b' (side (e_order (bk_store b x))))"
      by (simp add: live' al mem_live_refs [OF ok])
    then show ?thesis by (simp add: live_refs_def sides ord)
  qed
  moreover have "dict_ok (bk_index b')" using book_okD(5) [OF ok] by (simp add: idx dict_ok_pop)
  moreover have "dict_get (bk_index b') oid = Some x \<longleftrightarrow> alive_at b' x \<and> order_id (e_order (bk_store b' x)) = oid" for oid x
    using book_okD(6) [OF ok, of oid x] alive_unique [OF ok r, of x] r
    by (auto simp: idx dict_simps al sides ord)
  moreover have "arrivals_ok t b'"
    using book_okD(7) [OF ok] unfolding arrivals_ok_def al sides rst by blast
  ultimately show "book_ok t b'"
    using book_okD(8,9) [OF ok] unfolding book_ok_def by (simp add: sides)
  show "open_ids b' = open_ids b - {order_id (e_order (bk_store b r))}"
    unfolding open_ids_def idx dict_keys_dom by (auto simp: dict_simps dom_def split: if_splits)
  show "same_frame b b'" by (simp add: same_frame_def b' set_side_def)
qed

text \<open>A partial fill changes no list of references.\<close>

lemma book_ok_part:
  assumes ok: "book_ok t b" and r: "alive_at b r"
    and s: "s = side (e_order (bk_store b r))"
    and sd: "side_ok H s sd" "side_refs sd = side_refs (bk_sides b s)"
    and H: "H = (bk_store b)(r := (bk_store b r)\<lparr>e_remaining := m\<rparr>)"
    and b': "b' = (set_side b s sd)\<lparr>bk_store := H\<rparr>"
  shows "book_ok t b'" and "live_refs b' s' = live_refs b s'"
    and "bk_index b' = bk_index b" and "same_frame b b'"
proof -
  have sides: "bk_sides b' = (bk_sides b)(s := sd)" "bk_store b' = H" "bk_next b' = bk_next b"
    "bk_sequence b' = bk_sequence b" "bk_arrivals b' = bk_arrivals b" "bk_max_age b' = bk_max_age b"
    "bk_capacity b' = bk_capacity b" "bk_index b' = bk_index b"
    by (simp_all add: b' set_side_def)
  have ord: "e_order (H x) = e_order (bk_store b x)" and seq: "e_sequence (H x) = e_sequence (bk_store b x)"
    and rst: "e_rested_at (H x) = e_rested_at (bk_store b x)" and alv: "e_alive (H x) = e_alive (bk_store b x)"
    for x by (simp_all add: H)
  have al: "alive_at b' x = alive_at b x" for x by (simp add: alive_at_def sides alv)
  have refs: "side_refs (bk_sides b' s') = side_refs (bk_sides b s')" for s' by (simp add: sides sd(2))
  show "live_refs b' s' = live_refs b s'" for s'
    unfolding live_refs_def refs sides(2) by (rule live_cong) (rule alv)
  have "x \<noteq> r" if "x \<in> set (side_refs (bk_sides b (opposite s)))" for x
    using side_ref_facts(1) [OF book_okD(1) [OF ok] that] s by auto
  then have "H x = bk_store b x" if "x \<in> set (side_refs (bk_sides b (opposite s)))" for x using that by (simp add: H)
  from side_ok_cong(1) [OF book_okD(1) [OF ok] this]
  have opp: "side_ok H (opposite s) (bk_sides b (opposite s))" .
  have "side_ok (bk_store b') s' (bk_sides b' s')" for s'
    using sd(1) opp by (cases "s' = s") (auto simp: sides side_neq_iff)
  moreover have "arrivals_ok t b'"
    using book_okD(7) [OF ok] unfolding arrivals_ok_def al sides rst by blast
  ultimately show "book_ok t b'"
    using ok unfolding book_ok_def refs al by (simp add: sides ord seq)
  show "bk_index b' = bk_index b" by (simp add: sides)
  show "same_frame b b'" by (simp add: same_frame_def b' set_side_def)
qed

lemma same_frame_refl [simp]: "same_frame b b" by (simp add: same_frame_def)

lemma same_frame_trans: "same_frame a b \<Longrightarrow> same_frame b c \<Longrightarrow> same_frame a c"
  by (simp add: same_frame_def)

lemma book_remove_spec:
  assumes ok: "book_ok t b" and r: "alive_at b r"
  defines "e \<equiv> bk_store b r"
  obtains H sd where "side_remove (bk_store b) r (bk_sides b (side (e_order e))) = Inr (H, sd)"
    "H = (bk_store b)(r := e\<lparr>e_alive := False\<rparr>)"
    "\<And>b' n. b' = (set_side b (side (e_order e)) sd)\<lparr>bk_store := H,
         bk_index := dict_pop (bk_index b) (order_id (e_order e)), bk_expired := n\<rparr> \<Longrightarrow>
       book_ok t b' \<and> (\<forall>s. live_refs b' s = filter (\<lambda>x. x \<noteq> r) (live_refs b s))
       \<and> open_ids b' = open_ids b - {order_id (e_order e)} \<and> same_frame b b'"
proof -
  let ?s = "side (e_order e)"
  define H where "H = (bk_store b)(r := e\<lparr>e_alive := False\<rparr>)"
  have H': "H = (bk_store b)(r := (bk_store b r)\<lparr>e_remaining := e_remaining e, e_alive := False\<rparr>)"
    by (simp add: H_def e_def)
  have "r \<in> set (side_live (bk_store b) (bk_sides b ?s))"
    using mem_live_refs [OF ok, of r ?s] r by (simp add: live_refs_def e_def)
  from side_remove_spec [OF book_okD(1) [OF ok] this] obtain sd where
    sd: "side_remove (bk_store b) r (bk_sides b ?s) = Inr (H, sd)" "side_ok H ?s sd"
      "side_live H sd = filter (\<lambda>x. x \<noteq> r) (live_refs b ?s)"
      "set (side_refs sd) \<subseteq> set (side_refs (bk_sides b ?s))"
    by (auto simp: H_def e_def live_refs_def)
  show ?thesis
    by (rule that [OF sd(1) H_def])
      (use book_ok_leave [OF ok r _ sd(2-4) H'] in \<open>simp add: e_def [symmetric]\<close>)
qed

section \<open>Expiry\<close>

lemma side_ok_no_arrivals: "book_ok t b \<Longrightarrow> bk_max_age b = 0 \<Longrightarrow> book_ok t (b\<lparr>bk_arrivals := rs\<rparr>)"
  by (simp add: book_ok_def arrivals_ok_def alive_at_def)

lemma frame_upd [simp]:
  "live_refs (b\<lparr>bk_arrivals := rs\<rparr>) = live_refs b" "open_ids (b\<lparr>bk_arrivals := rs\<rparr>) = open_ids b"
  "same_frame a (b\<lparr>bk_arrivals := rs\<rparr>) = same_frame a b" "alive_at (b\<lparr>bk_arrivals := rs\<rparr>) = alive_at b"
  "same_frame (b\<lparr>bk_arrivals := rs\<rparr>) a = same_frame b a"
  by (simp_all add: live_refs_def open_ids_def same_frame_def alive_at_def fun_eq_iff)

lemma expire_loop_spec:
  assumes "book_ok t (b\<lparr>bk_arrivals := rs\<rparr>)" "bk_max_age b \<noteq> 0"
  shows "\<exists>b' ev'. expire_loop d rs b ev = Inr (b', ev @ ev') \<and> book_ok t b' \<and> same_frame b b'
    \<and> (\<forall>s. live_refs b' s = filter (\<lambda>r. d < e_rested_at (bk_store b r)) (live_refs b s))
    \<and> (\<forall>r. as_open_order (bk_store b' r) = as_open_order (bk_store b r))
    \<and> (\<forall>r. e_rested_at (bk_store b' r) = e_rested_at (bk_store b r))
    \<and> open_ids b' = track ev' (open_ids b) \<and> event_ids ev' \<subseteq> open_ids b"
  using assms
proof (induction rs arbitrary: b ev)
  case Nil
  have "\<not> alive_at b r" for r using book_okD(7) [OF Nil(1)] Nil(2) by (auto simp: arrivals_ok_def)
  then have "live_refs b s = []" for s using mem_live_refs [OF Nil(1)] by (intro equals0I [THEN set_empty [THEN iffD1]]) simp
  then show ?case using Nil by (intro exI [of _ "b\<lparr>bk_arrivals := []\<rparr>"] exI [of _ "[]"]) simp
next
  case (Cons r rs)
  let ?e = "bk_store b r"
  have arr: "(\<forall>x. alive_at b x \<longrightarrow> x \<in> set (r # rs))" "r < bk_next b"
    "\<forall>x\<in>set (r # rs). x < bk_next b \<and> e_rested_at (bk_store b x) \<le> t"
    "\<forall>x\<in>set rs. e_rested_at ?e \<le> e_rested_at (bk_store b x)"
    "sorted_wrt (\<lambda>x y. e_rested_at (bk_store b x) \<le> e_rested_at (bk_store b y)) rs"
    using book_okD(7) [OF Cons.prems(1)] Cons.prems(2) by (auto simp: arrivals_ok_def)
  have tail: "book_ok t (c\<lparr>bk_arrivals := rs\<rparr>)" if "book_ok t (c\<lparr>bk_arrivals := r # rs\<rparr>)"
    "\<not> alive_at c r" for c
    using that by (auto simp: book_ok_def arrivals_ok_def alive_at_def)
  consider (stop) "e_alive ?e" "d < e_rested_at ?e" | (dead) "\<not> e_alive ?e"
    | (old) "e_alive ?e" "e_rested_at ?e \<le> d" by fastforce
  then show ?case
  proof cases
    case stop
    have "d < e_rested_at (bk_store b x)" if "alive_at b x" for x using arr(1,4) that stop by fastforce
    then have "filter (\<lambda>r. d < e_rested_at (bk_store b r)) (live_refs b s) = live_refs b s" for s
      using mem_live_refs [OF Cons.prems(1)] by (auto simp: filter_id_conv)
    then show ?thesis using stop Cons.prems
      by (intro exI [of _ "b\<lparr>bk_arrivals := r # rs\<rparr>"] exI [of _ "[]"]) simp
  next
    case dead
    then have "\<not> alive_at b r" by (simp add: alive_at_def)
    from Cons.IH [OF tail [OF Cons.prems(1) this] Cons.prems(2), of ev] dead show ?thesis by simp
  next
    case old
    let ?b0 = "b\<lparr>bk_arrivals := r # rs\<rparr>"
    have al: "alive_at ?b0 r" using old arr(2) by (simp add: alive_at_def)
    obtain H sd where rm: "side_remove (bk_store ?b0) r (bk_sides ?b0 (side (e_order (bk_store ?b0 r)))) = Inr (H, sd)"
      and H: "H = (bk_store ?b0)(r := (bk_store ?b0 r)\<lparr>e_alive := False\<rparr>)"
      and post: "\<And>b' n. b' = (set_side ?b0 (side (e_order (bk_store ?b0 r))) sd)\<lparr>bk_store := H,
         bk_index := dict_pop (bk_index ?b0) (order_id (e_order (bk_store ?b0 r))), bk_expired := n\<rparr> \<Longrightarrow>
         book_ok t b' \<and> (\<forall>s. live_refs b' s = filter (\<lambda>x. x \<noteq> r) (live_refs ?b0 s))
         \<and> open_ids b' = open_ids ?b0 - {order_id (e_order (bk_store ?b0 r))} \<and> same_frame ?b0 b'"
      by (rule book_remove_spec [OF Cons.prems(1) al]) blast
    define c where "c = book_close (set_side b (side (e_order ?e)) sd\<lparr>bk_store := H, bk_expired := bk_expired b + 1\<rparr>) r"
    have Ho: "e_order (H r) = e_order ?e" by (simp add: H)
    have c: "c\<lparr>bk_arrivals := r # rs\<rparr> = (set_side ?b0 (side (e_order (bk_store ?b0 r))) sd)\<lparr>bk_store := H,
         bk_index := dict_pop (bk_index ?b0) (order_id (e_order (bk_store ?b0 r))), bk_expired := bk_expired b + 1\<rparr>"
      by (simp add: c_def book_close_def set_side_def Ho)
    note post = post [OF c]
    have cs: "bk_store c = H" "bk_max_age c = bk_max_age b" by (simp_all add: c_def book_close_def set_side_def)
    have "\<not> alive_at c r" by (simp add: alive_at_def cs H)
    with post have "book_ok t (c\<lparr>bk_arrivals := rs\<rparr>)" by (intro tail) simp_all
    from Cons.IH [OF this, of "ev @ [Closed (order_id (e_order ?e)) Expired]"] Cons.prems(2) obtain b' ev' where
      ih: "expire_loop d rs c (ev @ [Closed (order_id (e_order ?e)) Expired]) =
        Inr (b', (ev @ [Closed (order_id (e_order ?e)) Expired]) @ ev')"
        "book_ok t b'" "same_frame c b'"
        "\<And>s. live_refs b' s = filter (\<lambda>r. d < e_rested_at (bk_store c r)) (live_refs c s)"
        "\<And>r. as_open_order (bk_store b' r) = as_open_order (bk_store c r)"
        "\<And>r. e_rested_at (bk_store b' r) = e_rested_at (bk_store c r)"
        "open_ids b' = track ev' (open_ids c)" "event_ids ev' \<subseteq> open_ids c"
      by (auto simp: cs)
    have st: "as_open_order (bk_store c x) = as_open_order (bk_store b x)"
      "e_rested_at (bk_store c x) = e_rested_at (bk_store b x)" for x
      by (simp_all add: cs H as_open_order_def)
    have run: "expire_loop d (r # rs) b ev = Inr (b', ev @ (Closed (order_id (e_order ?e)) Expired # ev'))"
      using rm old ih(1) by (simp add: Let_def c_def)
    have lv: "live_refs b' s = filter (\<lambda>r. d < e_rested_at (bk_store b r)) (live_refs b s)" for s
      using post old unfolding ih(4) st by (auto intro!: filter_cong)
    have "order_id (e_order ?e) \<in> open_ids b"
      using open_ids_iff [OF Cons.prems(1), of "order_id (e_order ?e)"] al by auto
    moreover have "event_ids ev' \<subseteq> open_ids b" using ih(8) post by auto
    moreover have "same_frame b b'" using post ih(3) by (auto intro: same_frame_trans)
    ultimately show ?thesis using run ih(2,5,6,7) st lv post
      by (intro exI [of _ b'] exI [of _ "Closed (order_id (e_order ?e)) Expired # ev'"]) simp
  qed
qed

text \<open>Every expired order is counted and reported once, as expired.\<close>

lemma expire_loop_count:
  "expire_loop d rs b ev = Inr (b', ev') \<Longrightarrow>
   \<exists>oids. ev' = ev @ map (\<lambda>oid. Closed oid Expired) oids \<and> bk_expired b' = bk_expired b + int (length oids)"
proof (induction d rs b ev arbitrary: b' ev' rule: expire_loop.induct)
  case (1 deadline b ev)
  then show ?case by (intro exI [of _ "[]"]) auto
next
  case (2 deadline r rs b ev)
  let ?e = "bk_store b r"
  consider "e_alive ?e \<and> deadline < e_rested_at ?e" | "\<not> e_alive ?e" | "e_alive ?e" "\<not> deadline < e_rested_at ?e" by blast
  then show ?case
  proof cases
    case 1
    with "2.prems" show ?thesis by (intro exI [of _ "[]"]) (auto simp: Let_def)
  next
    case c: 2
    then show ?thesis using "2.IH"(1) [OF refl _ _, of b' ev'] "2.prems" by (auto simp: Let_def)
  next
    case 3
    with "2.prems" obtain H sd where rm: "side_remove (bk_store b) r (bk_sides b (side (e_order ?e))) = Inr (H, sd)"
      by (auto simp: Let_def split: sum.splits)
    from 3 have n: "\<not> (e_alive ?e \<and> deadline < e_rested_at ?e)" "\<not> \<not> e_alive ?e" by simp_all
    have "\<exists>oids. ev' = (ev @ [Closed (order_id (e_order ?e)) Expired]) @ map (\<lambda>oid. Closed oid Expired) oids
        \<and> bk_expired b' = bk_expired (book_close (set_side b (side (e_order ?e)) sd
             \<lparr>bk_store := H, bk_expired := bk_expired b + 1\<rparr>) r) + int (length oids)"
      by (rule "2.IH"(2) [OF refl n rm refl]) (use "2.prems" 3 rm in \<open>simp add: Let_def\<close>)
    then obtain oids where "ev' = (ev @ [Closed (order_id (e_order ?e)) Expired]) @ map (\<lambda>oid. Closed oid Expired) oids"
      "bk_expired b' = bk_expired b + 1 + int (length oids)" by (auto simp: book_close_def)
    then show ?thesis by (intro exI [of _ "order_id (e_order ?e) # oids"]) simp
  qed
qed

text \<open>Expiry turns the book into one that stands for \<open>abs_at\<close>.\<close>

lemma book_expire_spec:
  assumes ok: "book_ok t b" and now: "t \<le> now"
  shows "\<exists>b' ev. book_expire now b = Inr (b', ev) \<and> book_ok now b' \<and> same_frame b b'
    \<and> abs_book b' = abs_at now b \<and> (\<forall>s. live_refs b' s = filter (fresh_at now b) (live_refs b s))
    \<and> open_ids b' = track ev (open_ids b) \<and> open_ids b' \<subseteq> open_ids b \<and> event_ids ev \<subseteq> open_ids b"
proof -
  have late: "book_ok now c" if "book_ok t c" for c
    using that now unfolding book_ok_def arrivals_ok_def by (auto intro: order_trans)
  have sub: "open_ids b' \<subseteq> open_ids b"
    if h: "book_ok t b'" "same_frame b b'" "\<forall>s. set (live_refs b' s) \<subseteq> set (live_refs b s)"
      "\<forall>r. e_order (bk_store b' r) = e_order (bk_store b r)" for b'
  proof
    fix oid assume "oid \<in> open_ids b'"
    then obtain r where "alive_at b' r" "order_id (e_order (bk_store b' r)) = oid"
      using open_ids_iff [OF h(1)] by blast
    then have "r \<in> set (live_refs b (side (e_order (bk_store b r))))" "order_id (e_order (bk_store b r)) = oid"
      using h mem_live_refs [OF h(1)] by (metis subsetD, metis)
    then show "oid \<in> open_ids b" using open_ids_iff [OF ok] mem_live_refs [OF ok] by blast
  qed
  show ?thesis
  proof (cases "bk_max_age b = 0")
    case True
    then have "fresh_at now b = (\<lambda>r. True)" by (simp add: fresh_at_def fun_eq_iff)
    then show ?thesis using True late [OF ok]
      by (simp add: book_expire_def abs_at_def abs_book_def abs_sides_def)
  next
    case False
    have f: "fresh_at now b = (\<lambda>r. now - bk_max_age b < e_rested_at (bk_store b r))"
      using False by (simp add: fresh_at_def fun_eq_iff)
    from expire_loop_spec [where t = t and b = b and rs = "bk_arrivals b" and d = "now - bk_max_age b" and ev = "[]"] ok False obtain b' ev where
      run: "expire_loop (now - bk_max_age b) (bk_arrivals b) b [] = Inr (b', ev)" "book_ok t b'" "same_frame b b'"
        "\<And>s. live_refs b' s = filter (fresh_at now b) (live_refs b s)"
        "\<And>r. as_open_order (bk_store b' r) = as_open_order (bk_store b r)"
        "open_ids b' = track ev (open_ids b)" "event_ids ev \<subseteq> open_ids b"
      unfolding f by auto
    have "\<forall>r. e_order (bk_store b' r) = e_order (bk_store b r)"
      using run(5) by (metis as_open_order_def open_order.select_convs(1))
    then have "open_ids b' \<subseteq> open_ids b" using run by (intro sub) auto
    moreover have "abs_book b' = abs_at now b"
      using run by (simp add: abs_book_def abs_at_def abs_sides_def open_of_def same_frame_def)
    ultimately show ?thesis using False run late by (auto simp: book_expire_def)
  qed
qed

section \<open>Matching\<close>

lemma live_refs_facts:
  assumes "book_ok t b" "r \<in> set (live_refs b s)"
  shows "alive_at b r" "side (e_order (bk_store b r)) = s" "0 < e_remaining (bk_store b r)"
  using mem_live_refs [OF assms(1)] assms side_ref_facts(3) [OF book_okD(1) [OF assms(1)], of r s]
  by (auto simp: live_refs_def)

lemma open_of_simps [simp]:
  "open_of b [] = []" "open_of b (r # rs) = as_open_order (bk_store b r) # open_of b rs"
  by (simp_all add: open_of_def)

lemma open_of_cong: "(\<And>r. r \<in> set rs \<Longrightarrow> bk_store b' r = bk_store b r) \<Longrightarrow> open_of b' rs = open_of b rs"
  by (simp add: open_of_def)

lemma book_ok_best:
  assumes ok: "book_ok t b" and sd: "side_ok (bk_store b) s sd" "side_live (bk_store b) sd = live_refs b s"
    "set (side_refs sd) \<subseteq> set (side_refs (bk_sides b s))"
  shows "book_ok t (set_side b s sd)" "live_refs (set_side b s sd) = live_refs b"
    "same_frame b (set_side b s sd)" "bk_store (set_side b s sd) = bk_store b"
    "bk_index (set_side b s sd) = bk_index b" "alive_at (set_side b s sd) = alive_at b"
proof -
  show lv: "live_refs (set_side b s sd) = live_refs b"
    using sd(2) by (auto simp: live_refs_def set_side_def fun_eq_iff)
  show al: "alive_at (set_side b s sd) = alive_at b" by (simp add: alive_at_def set_side_def fun_eq_iff)
  have "x \<in> set (side_refs (bk_sides (set_side b s sd) (side (e_order (bk_store b x)))))" if "alive_at b x" for x
  proof -
    have "x \<in> set (live_refs (set_side b s sd) (side (e_order (bk_store b x))))"
      unfolding lv using that by (simp add: mem_live_refs [OF ok])
    then show ?thesis by (simp add: live_refs_def set_side_def)
  qed
  moreover have "arrivals_ok t (set_side b s sd)"
    using book_okD(7) [OF ok] unfolding arrivals_ok_def al by (simp add: set_side_def)
  ultimately show "book_ok t (set_side b s sd)"
    using ok sd(1,3) unfolding book_ok_def al by (auto simp: set_side_def)
qed (simp_all add: same_frame_def set_side_def)

text \<open>The production loop computes what the reference loop computes, and reports what it closes.\<close>

lemma match_loop_spec:
  assumes "book_ok t b" "0 \<le> rem"
    and "opp = open_of b (live_refs b (opposite (side ord)))"
  shows "\<exists>b' ev' rem' ts'. match_loop st ord rem ts b ev = Inr (rem', ts', b', ev @ ev')
    \<and> ref_match st (bk_symbol b) ord rem ts opp = (rem', ts', open_of b' (live_refs b' (opposite (side ord))))
    \<and> book_ok t b' \<and> same_frame b b' \<and> 0 \<le> rem'
    \<and> live_refs b' (side ord) = live_refs b (side ord)
    \<and> open_of b' (live_refs b (side ord)) = open_of b (live_refs b (side ord))
    \<and> open_ids b' = track ev' (open_ids b) \<and> open_ids b' \<subseteq> open_ids b \<and> event_ids ev' \<subseteq> open_ids b"
  using assms
proof (induction st "bk_symbol b" ord rem ts opp arbitrary: b ev rule: ref_match.induct)
  case (1 st ord rem ts opp b ev)
  note ok = "1.prems"(1)
  let ?o = "opposite (side ord)"
  let ?H = "bk_store b"
  note lf = live_refs_facts [OF ok]
  have stay: ?case if "match_loop st ord rem ts b ev = Inr (rem, ts, b1, ev)"
    "ref_match st (bk_symbol b) ord rem ts opp = (rem, ts, opp)" "book_ok t b1" "live_refs b1 = live_refs b"
    "same_frame b b1" "bk_store b1 = ?H" "bk_index b1 = bk_index b" for b1
    using that "1.prems"(2,3)
    by (intro exI [of _ b1] exI [of _ "[]"] exI [of _ rem] exI [of _ ts]) (simp add: open_of_def open_ids_def)
  show ?case
  proof (cases "rem = 0")
    case True
    have "match_loop st ord rem ts b ev = Inr (rem, ts, b, ev)" using True by (simp add: match_loop.simps [of st ord 0])
    moreover have "ref_match st (bk_symbol b) ord rem ts opp = (rem, ts, opp)"
      using True by (simp add: ref_match.simps [of st _ ord 0] split: list.splits)
    ultimately show ?thesis using ok by (intro stay [of b]) auto
  next
    case rem: False
    show ?thesis
    proof (cases "live_refs b ?o")
      case Nil
      then have "side_best ?H (bk_sides b ?o) = Inr (None, bk_sides b ?o)"
        using side_best_spec(1) [OF book_okD(1) [OF ok, of ?o]] by (simp add: live_refs_def)
      then have "match_loop st ord rem ts b ev = Inr (rem, ts, b, ev)"
        using rem by (simp add: match_loop.simps [of st ord rem] set_side_def)
      moreover have "ref_match st (bk_symbol b) ord rem ts opp = (rem, ts, opp)"
        using Nil "1.prems"(3) by (simp add: ref_match.simps [of st _ ord rem])
      ultimately show ?thesis using ok by (intro stay [of b]) auto
    next
      case (Cons r rs)
      let ?e = "?H r"
      from Cons have rin: "r \<in> set (live_refs b ?o)" by simp
      note r = lf [OF rin]
      from side_best_spec(2) [OF book_okD(1) [OF ok, of ?o], of r rs] Cons obtain sd L where
        best: "side_best ?H (bk_sides b ?o) = Inr (Some r, sd)" and sd: "side_ok ?H ?o sd"
          "side_live ?H sd = live_refs b ?o" "set (side_refs sd) \<subseteq> set (side_refs (bk_sides b ?o))"
        and L: "dict_get (bs_levels sd) (price (e_order ?e)) = Some L" "hd (lv_queue L) = r"
        by (auto simp: live_refs_def)
      define b1 where "b1 = set_side b ?o sd"
      note b1 = book_ok_best [OF ok sd, folded b1_def]
      have opp: "opp = as_open_order ?e # open_of b rs" using "1.prems"(3) Cons by simp
      have cr: "crosses ord (oo_order (as_open_order ?e)) = crosses ord (e_order ?e)"
        and om: "oo_remaining (as_open_order ?e) = e_remaining ?e" "oo_order (as_open_order ?e) = e_order ?e"
        by (simp_all add: as_open_order_def)
      show ?thesis
      proof (cases "crosses ord (e_order ?e)")
        case False
        have "match_loop st ord rem ts b ev = Inr (rem, ts, b1, ev)"
          using rem best False by (simp add: match_loop.simps [of st ord rem] b1_def)
        moreover have "ref_match st (bk_symbol b) ord rem ts opp = (rem, ts, opp)"
          using False opp cr by (simp add: ref_match.simps [of st _ ord rem])
        ultimately show ?thesis using b1 by (intro stay [of b1]) auto
      next
        case True
        define q where "q = min rem (e_remaining ?e)"
        have q: "0 < q" "q \<le> e_remaining ?e" "q \<le> rem"
          using r(3) rem "1.prems"(2) by (auto simp: q_def)
        define trd where "trd = make_trade (bk_symbol b) ord (e_order ?e) q (st (length ts))"
        have notr: "x \<noteq> r" if "x \<in> set (live_refs b (side ord))" for x
          using lf(2) [OF that] r(2) by (metis opposite_neq(2))
        have sym1: "bk_symbol b1 = bk_symbol b" using b1(3) by (simp add: same_frame_def)
        show ?thesis
        proof (cases "q = e_remaining ?e")
          case full: True
          define H where "H = ?H(r := ?e\<lparr>e_remaining := 0, e_alive := False\<rparr>)"
          have "\<exists>q. lv_queue L = r # q"
            using side_okD(3) [OF sd(1) L(1)] L(2) by (cases "lv_queue L") (auto simp: level_ok_def)
          moreover have alv: "e_alive ?e" using r(1) by (simp add: alive_at_def)
          ultimately obtain sd2 where fb: "fill_best ?H r q sd = Inr (True, H, sd2)" "side_ok H ?o sd2"
            "side_live H sd2 = filter (\<lambda>x. x \<noteq> r) (live_refs b1 ?o)" "set (side_refs sd2) \<subseteq> set (side_refs sd)"
            using fill_best_full [OF sd(1) L(1)] sd(2) full b1(2) unfolding H_def by (simp, metis)
          define b2 where "b2 = book_close ((set_side b1 ?o sd2)\<lparr>bk_store := H\<rparr>) r"
          have Ho: "e_order (H r) = e_order ?e" by (simp add: H_def)
          have b2': "b2 = (set_side b1 ?o sd2)\<lparr>bk_store := H,
              bk_index := dict_pop (bk_index b1) (order_id (e_order (bk_store b1 r))), bk_expired := bk_expired b1\<rparr>"
            by (simp add: b2_def book_close_def set_side_def Ho b1(4))
          have r1: "alive_at b1 r" using r(1) b1(6) by simp
          have sub1: "set (side_refs sd2) \<subseteq> set (side_refs (bk_sides b1 ?o))"
            using fb(4) by (simp add: b1_def set_side_def)
          have H1: "H = (bk_store b1)(r := (bk_store b1 r)\<lparr>e_remaining := 0, e_alive := False\<rparr>)"
            by (simp add: H_def b1(4))
          have s1: "?o = side (e_order (bk_store b1 r))" using r(2) b1(4) by simp
          note b2 = book_ok_leave [OF b1(1) r1 s1 fb(2,3) sub1 H1 b2']
          have st2: "bk_store b2 = H" by (simp add: b2')
          have sym2: "bk_symbol b = bk_symbol b2" using b2(4) sym1 by (simp add: same_frame_def)
          have rs: "live_refs b2 ?o = rs"
            using Cons live_refs_distinct [OF ok, of ?o] by (auto simp: b2(2) b1(2) filter_id_conv)
          have oth: "live_refs b2 (side ord) = live_refs b (side ord)"
            using notr by (auto simp: b2(2) b1(2) filter_id_conv)
          have or: "open_of b2 rs = open_of b rs"
            using Cons live_refs_distinct [OF ok, of ?o] by (intro open_of_cong) (auto simp: st2 H_def)
          have oo: "open_of b2 (live_refs b (side ord)) = open_of b (live_refs b (side ord))"
            using notr by (intro open_of_cong) (auto simp: st2 H_def)
          have step: "match_loop st ord rem ts b ev
              = match_loop st ord (rem - q) (ts @ [trd]) b2 (ev @ [Closed (order_id (e_order ?e)) Filled])"
            using rem best True fb(1)
            by (simp add: match_loop.simps [of st ord rem] q_def [symmetric] Let_def b2_def b1_def trd_def Ho)
          have step': "ref_match st (bk_symbol b) ord rem ts opp
              = ref_match st (bk_symbol b) ord (rem - q) (ts @ [trd]) (open_of b rs)"
            using rem True full
            by (simp add: ref_match.simps [of st _ ord rem] opp om q_def [symmetric] Let_def trd_def)
          have "\<exists>b' ev' rem' ts'. match_loop st ord (rem - q) (ts @ [trd]) b2 (ev @ [Closed (order_id (e_order ?e)) Filled])
                = Inr (rem', ts', b', (ev @ [Closed (order_id (e_order ?e)) Filled]) @ ev')
            \<and> ref_match st (bk_symbol b2) ord (rem - q) (ts @ [trd]) (open_of b rs) = (rem', ts', open_of b' (live_refs b' ?o))
            \<and> book_ok t b' \<and> same_frame b2 b' \<and> 0 \<le> rem'
            \<and> live_refs b' (side ord) = live_refs b2 (side ord)
            \<and> open_of b' (live_refs b2 (side ord)) = open_of b2 (live_refs b2 (side ord))
            \<and> open_ids b' = track ev' (open_ids b2) \<and> open_ids b' \<subseteq> open_ids b2 \<and> event_ids ev' \<subseteq> open_ids b2"
            by (rule "1.hyps"(1) [OF opp _ _ _ _ sym2])
              (use rem True full q b2(1) rs or in \<open>simp_all add: om q_def [symmetric] trd_def\<close>)
          then obtain b' ev' rem' ts' where ih:
            "match_loop st ord (rem - q) (ts @ [trd]) b2 (ev @ [Closed (order_id (e_order ?e)) Filled])
                = Inr (rem', ts', b', (ev @ [Closed (order_id (e_order ?e)) Filled]) @ ev')"
            "ref_match st (bk_symbol b2) ord (rem - q) (ts @ [trd]) (open_of b rs) = (rem', ts', open_of b' (live_refs b' ?o))"
            "book_ok t b'" "same_frame b2 b'" "0 \<le> rem'"
            "live_refs b' (side ord) = live_refs b2 (side ord)"
            "open_of b' (live_refs b2 (side ord)) = open_of b2 (live_refs b2 (side ord))"
            "open_ids b' = track ev' (open_ids b2)" "open_ids b' \<subseteq> open_ids b2" "event_ids ev' \<subseteq> open_ids b2" by blast
          have ids: "open_ids b2 = open_ids b - {order_id (e_order ?e)}"
            using b2(3) b1(4,5) by (simp add: open_ids_def)
          have "order_id (e_order ?e) \<in> open_ids b" using open_ids_iff [OF ok] r(1) by blast
          moreover have "same_frame b b'" using b1(3) b2(4) ih(4) by (blast intro: same_frame_trans)
          ultimately show ?thesis
            using step step' ih sym2 oth oo ids
            by (intro exI [of _ b'] exI [of _ "Closed (order_id (e_order ?e)) Filled # ev'"] exI [of _ rem'] exI [of _ ts']) auto
        next
          case part: False
          then have qr: "q < e_remaining ?e" "q = rem" using q by (auto simp: q_def min_def split: if_splits)
          define H where "H = ?H(r := ?e\<lparr>e_remaining := e_remaining ?e - q\<rparr>)"
          have "r \<in> set (side_live ?H sd)" using sd(2) rin by simp
          from fill_best_part [OF sd(1) this q(1) qr(1)] obtain sd2 where
            fb: "fill_best ?H r q sd = Inr (False, H, sd2)" "side_ok H ?o sd2" "side_refs sd2 = side_refs sd"
            unfolding H_def by blast
          define b2 where "b2 = (set_side b1 ?o sd2)\<lparr>bk_store := H\<rparr>"
          have r1: "alive_at b1 r" using r(1) b1(6) by simp
          have refs1: "side_refs sd2 = side_refs (bk_sides b1 ?o)"
            using fb(3) by (simp add: b1_def set_side_def)
          have H1: "H = (bk_store b1)(r := (bk_store b1 r)\<lparr>e_remaining := e_remaining ?e - q\<rparr>)"
            by (simp add: H_def b1(4))
          have s1: "?o = side (e_order (bk_store b1 r))" using r(2) b1(4) by simp
          note b2 = book_ok_part [OF b1(1) r1 s1 fb(2) refs1 H1 b2_def]
          have st2: "bk_store b2 = H" by (simp add: b2_def)
          have oo: "open_of b2 (live_refs b (side ord)) = open_of b (live_refs b (side ord))"
            using notr by (intro open_of_cong) (auto simp: st2 H_def)
          have or: "open_of b2 rs = open_of b rs"
            using Cons live_refs_distinct [OF ok, of ?o] by (intro open_of_cong) (auto simp: st2 H_def)
          have "match_loop st ord rem ts b ev = Inr (rem - q, ts @ [trd], b2, ev)"
            using rem best True fb(1) qr(2)
            by (simp add: match_loop.simps [of st ord rem] match_loop.simps [of st ord 0] q_def [symmetric] Let_def b2_def b1_def trd_def)
          moreover have "ref_match st (bk_symbol b) ord rem ts opp
              = (rem - q, ts @ [trd], (as_open_order ?e)\<lparr>oo_remaining := e_remaining ?e - q\<rparr> # open_of b rs)"
            using rem True part qr(2)
            by (simp add: ref_match.simps [of st _ ord rem] ref_match.simps [of st _ ord 0] opp om
                q_def [symmetric] Let_def trd_def)
          moreover have "open_of b2 (live_refs b2 ?o) = (as_open_order ?e)\<lparr>oo_remaining := e_remaining ?e - q\<rparr> # open_of b rs"
            by (simp add: b2(2) b1(2) Cons or) (simp add: st2 H_def as_open_order_def)
          ultimately show ?thesis
            using b2 b1 q oo same_frame_trans [OF b1(3) b2(4)]
            by (intro exI [of _ b2] exI [of _ "[]"] exI [of _ "rem - q"] exI [of _ "ts @ [trd]"]) (simp add: open_ids_def)
        qed
      qed
    qed
  qed
qed

end
