(* ===== verification/Book_Calls.thy ===== *)
theory Book_Calls
  imports Book_Refinement
begin

text \<open>
  Every call of the production book against the reference book: \<open>submit\<close>, \<open>cancel\<close>,
  \<open>get_open_order\<close>, \<open>open_orders\<close>, \<open>snapshot\<close>, \<open>total_quantity\<close>, \<open>best_price\<close>,
  \<open>recent_trades\<close> and \<open>open_order_count\<close>.
\<close>

section \<open>Resting\<close>

lemma open_of_append [simp]: "open_of b (xs @ ys) = open_of b xs @ open_of b ys"
  by (simp add: open_of_def)

lemma live_refs_sorted:
  assumes "book_ok t b"
  shows "sorted_wrt (\<lambda>x y. oo_key s x < oo_key s y) (open_of b (live_refs b s))"
proof -
  have "sorted_wrt (\<lambda>x y. ref_key (bk_store b) s x < ref_key (bk_store b) s y) (live_refs b s)"
    unfolding live_refs_def live_def by (rule sorted_wrt_filter [OF side_refs_sorted [OF book_okD(1) [OF assms]]])
  then show ?thesis
    by (simp add: open_of_def sorted_wrt_map oo_key_def ref_key_def as_open_order_def)
qed

lemma sort_key_oo:
  assumes "sorted_wrt (\<lambda>x y. oo_key s x < oo_key s y) ys" "set ys = insert x (set xs)"
    "sorted_wrt (\<lambda>x y. oo_key s x < oo_key s y) xs" "\<And>y. y \<in> set xs \<Longrightarrow> oo_sequence y < oo_sequence x"
  shows "sort_key (oo_key s) (xs @ [x]) = ys"
proof (rule sorted_by_key_unique [where f = "oo_key s"])
  have "distinct (map (oo_key s) xs)"
    using assms(3) by (intro sorted_wrt_distinct [where R = "(<)"]) (simp_all add: sorted_wrt_map)
  moreover have "oo_key s x \<notin> set (map (oo_key s) xs)"
    using assms(4) by (fastforce simp: oo_key_def)
  ultimately show "sorted_wrt (\<lambda>x y. oo_key s x < oo_key s y) (sort_key (oo_key s) (xs @ [x]))"
    by (intro sort_key_strict) simp
  show "set (sort_key (oo_key s) (xs @ [x])) = set ys" using assms(2) by simp
qed (rule assms(1))

lemma abs_sides_sel [simp]:
  "rb_symbol (abs_sides b f) = bk_symbol b" "rb_recent (abs_sides b f) = bk_recent b"
  "rb_capacity (abs_sides b f) = bk_capacity b" "rb_sequence (abs_sides b f) = bk_sequence b"
  "rb_side (abs_sides b f) s = open_of b (f s)"
  "rb_bids (abs_sides b f) = open_of b (f BUY)" "rb_asks (abs_sides b f) = open_of b (f SELL)"
  by (cases s; simp add: abs_sides_def rb_side_def)+

lemma book_rest_spec:
  assumes ok: "book_ok t b" and now: "t \<le> now" and rem: "0 < rem" and new: "order_id ord \<notin> open_ids b"
  shows "book_ok now (book_rest now ord rem b)"
    and "abs_book (book_rest now ord rem b) = ref_rest (abs_book b) ord rem"
    and "open_ids (book_rest now ord rem b) = insert (order_id ord) (open_ids b)"
proof -
  define b' where "b' = book_rest now ord rem b"
  define r where "r = bk_next b"
  define n where "n = bk_sequence b + 1"
  define s where "s = side ord"
  define e where "e = \<lparr>e_order = ord, e_remaining = rem, e_sequence = n,
               e_rested_at = (if bk_max_age b \<noteq> 0 then now else 0), e_alive = True\<rparr>"
  define H where "H = (bk_store b)(r := e)"
  define sd where "sd = side_add H r (bk_sides b s)"
  have b'_sel: "bk_symbol b' = bk_symbol b" "bk_recent b' = bk_recent b" "bk_capacity b' = bk_capacity b"
    "bk_max_age b' = bk_max_age b" "bk_sequence b' = n" "bk_store b' = H" "bk_next b' = Suc r"
    "bk_sides b' = (bk_sides b)(s := sd)" "bk_index b' = dict_set (bk_index b) (order_id ord) r"
    "bk_arrivals b' = (if bk_max_age b \<noteq> 0 then bk_arrivals b @ [r] else bk_arrivals b)"
    by (simp_all add: b'_def book_rest_def Let_def set_side_def r_def n_def H_def e_def sd_def s_def)
  have old: "H x = bk_store b x" if "x < bk_next b" for x using that by (simp add: H_def r_def)
  have Hr: "H r = e" by (simp add: H_def)
  have er: "e_order (H r) = ord" "e_alive (H r)" "e_remaining (H r) = rem" "e_sequence (H r) = n"
    by (simp_all add: Hr e_def)
  have al: "alive_at b' x \<longleftrightarrow> x = r \<or> alive_at b x" for x
    using old [of x] er by (auto simp: alive_at_def b'_sel r_def)
  have r0: "\<not> alive_at b r" by (simp add: alive_at_def r_def)
  have okH: "side_ok H s' (bk_sides b s')" "side_live H (bk_sides b s') = live_refs b s'" for s'
    using side_ok_cong [OF book_okD(1) [OF ok], of s' H] book_okD(2) [OF ok] old by (simp_all add: live_refs_def)
  have fresh: "e_sequence (H x) < e_sequence (H r)" if "x \<in> set (side_refs (bk_sides b s))" for x
    using that book_okD(2,3) [OF ok that] old by (simp add: er n_def)
  have sdok: "side_ok H s sd" "set (side_refs sd) = insert r (set (side_refs (bk_sides b s)))"
    using side_add_spec [OF okH(1) [of s], of r] er rem fresh by (auto simp: sd_def s_def)
  have sides: "side_ok (bk_store b') s' (bk_sides b' s')" for s' using sdok(1) okH by (simp add: b'_sel)
  have refs: "set (side_refs (bk_sides b' s')) = (if s' = s then {r} else {}) \<union> set (side_refs (bk_sides b s'))" for s'
    using sdok(2) by (simp add: b'_sel)
  have "x < bk_next b' \<and> e_sequence (bk_store b' x) \<le> bk_sequence b'" if "x \<in> set (side_refs (bk_sides b' s'))" for x s'
  proof (cases "x = r")
    case True
    then show ?thesis by (simp add: b'_sel er)
  next
    case False
    then have x: "x \<in> set (side_refs (bk_sides b s'))" using that refs by (simp split: if_splits)
    show ?thesis using book_okD(2,3) [OF ok x] old by (simp add: b'_sel r_def n_def)
  qed
  moreover have "x \<in> set (side_refs (bk_sides b' (side (e_order (bk_store b' x)))))" if "alive_at b' x" for x
  proof (cases "x = r")
    case True
    then show ?thesis using sdok(2) by (simp add: b'_sel er s_def [symmetric])
  next
    case False
    then have "alive_at b x" using that al by simp
    then show ?thesis using book_okD(4) [OF ok] old [of x] refs by (simp add: b'_sel alive_at_def)
  qed
  moreover have "dict_ok (bk_index b')" using book_okD(5) [OF ok] by (simp add: b'_sel dict_ok_set)
  moreover have "dict_get (bk_index b') oid = Some x \<longleftrightarrow> alive_at b' x \<and> order_id (e_order (bk_store b' x)) = oid" for oid x
  proof (cases "x = r")
    case True
    have "dict_get (bk_index b) oid \<noteq> Some r" using r0 book_okD(6) [OF ok] by blast
    then show ?thesis using True by (auto simp: b'_sel dict_simps al er)
  next
    case False
    have ne: "order_id (e_order (bk_store b x)) \<noteq> order_id ord" if "alive_at b x"
      using that new open_ids_iff [OF ok] by metis
    have st: "bk_store b' x = bk_store b x" if "alive_at b x"
      using that old by (simp add: b'_sel alive_at_def)
    have "dict_get (bk_index b') oid = Some x \<longleftrightarrow> oid \<noteq> order_id ord \<and> dict_get (bk_index b) oid = Some x"
      using False by (simp add: b'_sel(9) dict_simps)
    also have "\<dots> \<longleftrightarrow> alive_at b x \<and> order_id (e_order (bk_store b x)) = oid"
      unfolding book_okD(6) [OF ok] using ne by blast
    also have "\<dots> \<longleftrightarrow> alive_at b' x \<and> order_id (e_order (bk_store b' x)) = oid"
      using False st al by auto
    finally show ?thesis .
  qed
  moreover have "arrivals_ok now b'"
  proof (cases "bk_max_age b = 0")
    case True
    then show ?thesis by (simp add: arrivals_ok_def b'_sel)
  next
    case False
    have a: "\<And>x. alive_at b x \<Longrightarrow> x \<in> set (bk_arrivals b)"
      "\<And>x. x \<in> set (bk_arrivals b) \<Longrightarrow> x < bk_next b \<and> e_rested_at (bk_store b x) \<le> t"
      "sorted_wrt (\<lambda>x y. e_rested_at (bk_store b x) \<le> e_rested_at (bk_store b y)) (bk_arrivals b)"
      using book_okD(7) [OF ok] False by (auto simp: arrivals_ok_def)
    have "sorted_wrt (\<lambda>x y. e_rested_at (H x) \<le> e_rested_at (H y)) (bk_arrivals b)"
      using a(3) by (rule sorted_wrt_mono_rel [rotated]) (use a(2) old in auto)
    then show ?thesis
      using False a(1,2) old now unfolding arrivals_ok_def b'_sel al
      by (auto simp: sorted_wrt_append Hr e_def r_def [symmetric] less_SucI intro: order_trans)
  qed
  ultimately have ok': "book_ok now b'"
    using sides book_okD(8,9) [OF ok] unfolding book_ok_def by (simp add: b'_sel)
  then show "book_ok now (book_rest now ord rem b)" by (simp add: b'_def)
  have lv: "set (live_refs b' s') = (if s' = s then {r} else {}) \<union> set (live_refs b s')" for s'
  proof -
    have st: "bk_store b' x = bk_store b x" if "alive_at b x" for x
      using that old by (simp add: b'_sel alive_at_def)
    have sr: "side (e_order (bk_store b' r)) = s" by (simp add: b'_sel(6) er s_def)
    have "x \<in> set (live_refs b' s') \<longleftrightarrow> (x = r \<and> s' = s) \<or> x \<in> set (live_refs b s')" for x
    proof (cases "x = r")
      case True
      have "alive_at b x = False" using r0 True by simp
      then show ?thesis unfolding mem_live_refs [OF ok'] mem_live_refs [OF ok] al using sr True by auto
    next
      case False
      show ?thesis unfolding mem_live_refs [OF ok'] mem_live_refs [OF ok] al
        using st [of x] False by (cases "alive_at b x") (simp_all only: simp_thms)
    qed
    then show ?thesis by (intro set_eqI) (simp split: if_splits)
  qed
  have op: "open_of b' (live_refs b s') = open_of b (live_refs b s')" for s'
    using mem_live_refs [OF ok] old by (intro open_of_cong) (auto simp: b'_sel alive_at_def)
  have other: "live_refs b' s' = live_refs b s'" if "s' \<noteq> s" for s'
    using that okH(2) by (simp add: live_refs_def b'_sel)
  let ?x = "\<lparr>oo_order = ord, oo_remaining = rem, oo_sequence = n\<rparr>"
  have x: "as_open_order (bk_store b' r) = ?x" by (simp add: as_open_order_def b'_sel er)
  have "sort_key (oo_key s) (open_of b (live_refs b s) @ [?x]) = open_of b' (live_refs b' s)"
  proof (rule sort_key_oo [OF live_refs_sorted [OF ok'] _ live_refs_sorted [OF ok]])
    have "set (open_of b' (live_refs b' s)) = insert ?x (set (open_of b' (live_refs b s)))"
      using lv [of s] x by (auto simp: open_of_def)
    then show "set (open_of b' (live_refs b' s)) = insert ?x (set (open_of b (live_refs b s)))" by (simp add: op)
    show "oo_sequence y < oo_sequence ?x" if "y \<in> set (open_of b (live_refs b s))" for y
    proof -
      from that obtain z where z: "y = as_open_order (bk_store b z)" "z \<in> set (side_refs (bk_sides b s))"
        by (auto simp: open_of_def live_refs_def)
      then show ?thesis using book_okD(3) [OF ok z(2)] by (simp add: n_def as_open_order_def)
    qed
  qed
  then have "rb_side (abs_book b') s' = rb_side (ref_rest (abs_book b) ord rem) s'" for s'
    using other [of s'] op by (simp add: abs_book_def ref_rest_def Let_def s_def [symmetric] n_def)
  then show "abs_book (book_rest now ord rem b) = ref_rest (abs_book b) ord rem"
    unfolding b'_def [symmetric]
    by (intro ref_book_eqI) (simp_all add: abs_book_def ref_rest_def Let_def b'_sel n_def)
  show "open_ids (book_rest now ord rem b) = insert (order_id ord) (open_ids b)"
    unfolding b'_def [symmetric] open_ids_def b'_sel dict_keys_dom by (auto simp: dict_simps)
qed

section \<open>submit\<close>

lemma book_ok_recent [simp]: "book_ok t (b\<lparr>bk_recent := ts\<rparr>) = book_ok t b"
  by (simp add: book_ok_def arrivals_ok_def alive_at_def)

lemma recent_frame [simp]:
  "live_refs (b\<lparr>bk_recent := ts\<rparr>) = live_refs b" "open_ids (b\<lparr>bk_recent := ts\<rparr>) = open_ids b"
  "open_of (b\<lparr>bk_recent := ts\<rparr>) rs = open_of b rs"
  by (simp_all add: live_refs_def open_ids_def open_of_def fun_eq_iff)

lemma abs_recent: "abs_book (b\<lparr>bk_recent := ts\<rparr>) = (abs_book b)\<lparr>rb_recent := ts\<rparr>"
  by (simp add: abs_book_def abs_sides_def)

lemma abs_book_side [simp]: "rb_side (abs_book b) s = open_of b (live_refs b s)"
  by (simp add: abs_book_def)

lemma abs_book_sel [simp]:
  "rb_symbol (abs_book b) = bk_symbol b" "rb_recent (abs_book b) = bk_recent b"
  "rb_capacity (abs_book b) = bk_capacity b" "rb_sequence (abs_book b) = bk_sequence b"
  by (simp_all add: abs_book_def)

lemma abs_at_sel [simp]: "rb_symbol (abs_at now b) = bk_symbol b"
  by (simp add: abs_at_def)

lemma book_ok_later: "book_ok t b \<Longrightarrow> t \<le> t' \<Longrightarrow> book_ok t' b"
  unfolding book_ok_def arrivals_ok_def by (auto intro: order_trans)

lemma book_submit_spec:
  assumes ok: "book_ok t b" and clock: "t \<le> expire_clock env" "expire_clock env \<le> rest_clock env"
    and ord: "order_symbol ord = bk_symbol b" "0 < quantity ord" "order_id ord \<notin> open_ids b"
  shows "\<exists>b' ev res. book_submit env ord b = (b', ev, Inr res) \<and> book_ok (rest_clock env) b'
    \<and> ref_submit (stamps env) ord (abs_at (expire_clock env) b) = (abs_book b', Inr res)
    \<and> open_ids b' = track ev (open_ids b) \<and> open_ids b' \<subseteq> insert (order_id ord) (open_ids b)
    \<and> event_ids ev \<subseteq> insert (order_id ord) (open_ids b)
    \<and> bk_symbol b' = bk_symbol b \<and> bk_max_age b' = bk_max_age b"
proof -
  let ?st = "stamps env" and ?o = "opposite (side ord)"
  obtain b1 ev1 where b1: "book_expire (expire_clock env) b = Inr (b1, ev1)" "book_ok (expire_clock env) b1"
    "same_frame b b1" "abs_book b1 = abs_at (expire_clock env) b"
    "open_ids b1 = track ev1 (open_ids b)" "open_ids b1 \<subseteq> open_ids b" "event_ids ev1 \<subseteq> open_ids b"
    using book_expire_spec [OF ok clock(1)] by blast
  from match_loop_spec [OF b1(2), of "quantity ord" "open_of b1 (live_refs b1 ?o)" ord ?st "[]" ev1] ord(2)
  obtain b2 ev2 rem ts where
    m: "match_loop ?st ord (quantity ord) [] b1 ev1 = Inr (rem, ts, b2, ev1 @ ev2)"
      "ref_match ?st (bk_symbol b1) ord (quantity ord) [] (open_of b1 (live_refs b1 ?o))
        = (rem, ts, open_of b2 (live_refs b2 ?o))"
      "book_ok (expire_clock env) b2" "same_frame b1 b2" "0 \<le> rem"
      "live_refs b2 (side ord) = live_refs b1 (side ord)"
      "open_of b2 (live_refs b1 (side ord)) = open_of b1 (live_refs b1 (side ord))"
      "open_ids b2 = track ev2 (open_ids b1)" "open_ids b2 \<subseteq> open_ids b1" "event_ids ev2 \<subseteq> open_ids b1"
    by auto
  note fr = same_frame_trans [OF b1(3) m(4)]
  have sy: "bk_symbol b1 = bk_symbol b" using b1(3) by (simp add: same_frame_def)
  have abs2: "rb_set_side (abs_book b1) ?o (open_of b2 (live_refs b2 ?o)) = abs_book b2"
  proof (rule ref_book_eqI)
    show "rb_side (rb_set_side (abs_book b1) ?o (open_of b2 (live_refs b2 ?o))) s = rb_side (abs_book b2) s" for s
      using m(6,7) by (cases "s = ?o") (auto simp: side_neq_iff)
  qed (use m(4) in \<open>simp_all add: same_frame_def\<close>)
  define b3 where "b3 = (if rem \<noteq> 0 then book_rest (rest_clock env) ord rem b2 else b2)"
  define ev where "ev = ev1 @ ev2 @ (if rem \<noteq> 0 then [Rested (order_id ord)] else [])"
  have new: "order_id ord \<notin> open_ids b2" using ord(3) m(9) b1(6) by blast
  note rest = book_rest_spec [OF m(3) clock(2) _ new]
  have b3: "book_ok (rest_clock env) b3 \<and> abs_book b3 = (if rem \<noteq> 0 then ref_rest (abs_book b2) ord rem else abs_book b2)
      \<and> open_ids b3 = track ev (open_ids b)"
    using rest m(5,8) b1(5) book_ok_later [OF m(3) clock(2)] by (auto simp: b3_def ev_def)
  have idsub: "open_ids b3 \<subseteq> insert (order_id ord) (open_ids b)"
    using rest m(5,9) b1(6) by (auto simp: b3_def)
  have evsub: "event_ids ev \<subseteq> insert (order_id ord) (open_ids b)"
    using b1(6,7) m(10) by (auto simp: ev_def)
  have fr3: "bk_symbol b3 = bk_symbol b" "bk_capacity b3 = bk_capacity b" "bk_recent b3 = bk_recent b"
    "bk_max_age b3 = bk_max_age b"
    using fr by (simp_all add: b3_def book_rest_def Let_def set_side_def same_frame_def)
  define b4 where "b4 = b3\<lparr>bk_recent := tape_extend (bk_capacity b3) (bk_recent b3) ts\<rparr>"
  define res where "res = \<lparr>result_order_id = order_id ord, result_trades = ts, result_remaining = rem\<rparr>"
  have "book_submit env ord b = (b4, ev, Inr res)"
    using ord(1) b1(1) m(1) by (simp add: book_submit_def after_expiry_def b4_def b3_def ev_def res_def)
  moreover have "ref_submit ?st ord (abs_at (expire_clock env) b) = (abs_book b4, Inr res)"
    unfolding b1(4) [symmetric] ref_submit_def
    using ord(1) m(2) b3 sy by (simp add: abs2 b4_def abs_recent res_def) (metis abs_book_sel(2,3))
  ultimately show ?thesis using b3 idsub fr3 evsub by (auto simp: b4_def)
qed

lemma book_submit_wrong_symbol:
  "order_symbol ord \<noteq> bk_symbol b \<Longrightarrow>
   book_submit env ord b = (b, [], Inl (ValueError (''order symbol must be '' @ bk_symbol b)))"
  by (simp add: book_submit_def)

section \<open>cancel and get_open_order\<close>

lemma take_order_none:
  "(\<And>r. r \<in> set rs \<Longrightarrow> order_id (e_order (bk_store b r)) \<noteq> oid) \<Longrightarrow>
   take_order oid (open_of b rs) = None \<and> find_order oid (open_of b rs) = None"
  by (induction rs) (simp_all add: as_open_order_def)

lemma take_order_some:
  assumes "distinct rs" "r \<in> set rs" "order_id (e_order (bk_store b r)) = oid"
    "\<And>x. x \<in> set rs \<Longrightarrow> order_id (e_order (bk_store b x)) = oid \<Longrightarrow> x = r"
  shows "take_order oid (open_of b rs) = Some (as_open_order (bk_store b r), open_of b (filter (\<lambda>x. x \<noteq> r) rs))
      \<and> find_order oid (open_of b rs) = Some (as_open_order (bk_store b r))"
  using assms
proof (induction rs)
  case (Cons x rs)
  show ?case
  proof (cases "x = r")
    case True
    then have "filter (\<lambda>y. y \<noteq> r) rs = rs" using Cons.prems(1) by (auto simp: filter_id_conv)
    then show ?thesis using Cons.prems(3) True by (simp add: as_open_order_def)
  next
    case False
    then have "order_id (e_order (bk_store b x)) \<noteq> oid" using Cons.prems(4) [of x] by auto
    moreover have "take_order oid (open_of b rs) = Some (as_open_order (bk_store b r), open_of b (filter (\<lambda>x. x \<noteq> r) rs))
        \<and> find_order oid (open_of b rs) = Some (as_open_order (bk_store b r))"
      by (rule Cons.IH) (use Cons.prems False in simp_all)
    ultimately show ?thesis using False by (simp add: as_open_order_def)
  qed
qed simp

lemma side_index:
  assumes ok: "book_ok t b"
  shows "dict_get (bk_index b) oid = Some r \<Longrightarrow> s = side (e_order (bk_store b r)) \<Longrightarrow>
      take_order oid (open_of b (live_refs b s)) = Some (as_open_order (bk_store b r), open_of b (filter (\<lambda>x. x \<noteq> r) (live_refs b s)))
      \<and> find_order oid (open_of b (live_refs b s)) = Some (as_open_order (bk_store b r))"
    and "dict_get (bk_index b) oid = Some r \<Longrightarrow> s \<noteq> side (e_order (bk_store b r)) \<Longrightarrow>
      take_order oid (open_of b (live_refs b s)) = None \<and> find_order oid (open_of b (live_refs b s)) = None"
    and "dict_get (bk_index b) oid = None \<Longrightarrow>
      take_order oid (open_of b (live_refs b s)) = None \<and> find_order oid (open_of b (live_refs b s)) = None"
proof -
  have alive: "dict_get (bk_index b) (order_id (e_order (bk_store b x))) = Some x" if "x \<in> set (live_refs b s)" for x
    using that mem_live_refs [OF ok] book_okD(6) [OF ok] by blast
  show "take_order oid (open_of b (live_refs b s)) = Some (as_open_order (bk_store b r), open_of b (filter (\<lambda>x. x \<noteq> r) (live_refs b s)))
      \<and> find_order oid (open_of b (live_refs b s)) = Some (as_open_order (bk_store b r))"
    if "dict_get (bk_index b) oid = Some r" "s = side (e_order (bk_store b r))"
  proof (rule take_order_some [OF live_refs_distinct [OF ok]])
    show "r \<in> set (live_refs b s)" "order_id (e_order (bk_store b r)) = oid"
      using that book_okD(6) [OF ok] mem_live_refs [OF ok] by blast+
    show "x = r" if "x \<in> set (live_refs b s)" "order_id (e_order (bk_store b x)) = oid" for x
      using alive [OF that(1)] that(2) \<open>dict_get (bk_index b) oid = Some r\<close> by simp
  qed
  show "take_order oid (open_of b (live_refs b s)) = None \<and> find_order oid (open_of b (live_refs b s)) = None"
    if "dict_get (bk_index b) oid = Some r" "s \<noteq> side (e_order (bk_store b r))"
    by (rule take_order_none) (use that alive mem_live_refs [OF ok, of _ s] in auto)
  show "take_order oid (open_of b (live_refs b s)) = None \<and> find_order oid (open_of b (live_refs b s)) = None"
    if "dict_get (bk_index b) oid = None"
    by (rule take_order_none) (use that alive in auto)
qed

lemma abs_book_lists [simp]:
  "rb_bids (abs_book b) = open_of b (live_refs b BUY)" "rb_asks (abs_book b) = open_of b (live_refs b SELL)"
  by (simp_all add: abs_book_def)

lemma book_cancel_spec:
  assumes ok: "book_ok t b" and now: "t \<le> now"
  shows "\<exists>b' ev res. book_cancel now oid b = (b', ev, res) \<and> book_ok now b'
    \<and> ref_cancel oid (abs_at now b) = (abs_book b', res)
    \<and> open_ids b' = track ev (open_ids b) - {oid} \<and> open_ids b' \<subseteq> open_ids b \<and> event_ids ev \<subseteq> open_ids b
    \<and> (is_ok res \<longleftrightarrow> oid \<in> track ev (open_ids b))
    \<and> bk_symbol b' = bk_symbol b \<and> bk_max_age b' = bk_max_age b"
proof -
  obtain b1 ev where b1: "book_expire now b = Inr (b1, ev)" "book_ok now b1"
    "same_frame b b1" "abs_book b1 = abs_at now b"
    "open_ids b1 = track ev (open_ids b)" "open_ids b1 \<subseteq> open_ids b" "event_ids ev \<subseteq> open_ids b"
    using book_expire_spec [OF ok now] by blast
  have fr1: "bk_symbol b1 = bk_symbol b" "bk_max_age b1 = bk_max_age b" using b1(3) by (simp_all add: same_frame_def)
  note idx = side_index [OF b1(2), where oid = oid]
  show ?thesis
  proof (cases "dict_get (bk_index b1) oid")
    case None
    then have "oid \<notin> open_ids b1" unfolding open_ids_def dict_keys_dom by auto
    moreover have "book_cancel now oid b = (b1, ev, Inl (OrderNotFoundError oid))"
      using b1(1) None by (simp add: book_cancel_def after_expiry_def)
    moreover have "ref_cancel oid (abs_book b1) = (abs_book b1, Inl (OrderNotFoundError oid))"
      using idx(3) [OF None, of BUY] idx(3) [OF None, of SELL] by (simp add: ref_cancel_def)
    ultimately show ?thesis using b1 fr1
      by (intro exI [of _ b1] exI [of _ ev] exI [of _ "Inl (OrderNotFoundError oid)"]) simp
  next
    case (Some r)
    then have r: "alive_at b1 r" "order_id (e_order (bk_store b1 r)) = oid"
      using book_okD(6) [OF b1(2)] by blast+
    then have oid: "oid \<in> open_ids b1" using Some unfolding open_ids_def dict_keys_dom by auto
    let ?s = "side (e_order (bk_store b1 r))"
    obtain H sd where rm: "side_remove (bk_store b1) r (bk_sides b1 ?s) = Inr (H, sd)"
      "H = (bk_store b1)(r := (bk_store b1 r)\<lparr>e_alive := False\<rparr>)"
      and post: "\<And>b' n. b' = (set_side b1 ?s sd)\<lparr>bk_store := H,
         bk_index := dict_pop (bk_index b1) (order_id (e_order (bk_store b1 r))), bk_expired := n\<rparr> \<Longrightarrow>
       book_ok now b' \<and> (\<forall>s. live_refs b' s = filter (\<lambda>x. x \<noteq> r) (live_refs b1 s))
       \<and> open_ids b' = open_ids b1 - {order_id (e_order (bk_store b1 r))} \<and> same_frame b1 b'"
      by (rule book_remove_spec [OF b1(2) r(1)]) blast
    define b2 where "b2 = (set_side b1 ?s sd)\<lparr>bk_store := H,
         bk_index := dict_pop (bk_index b1) (order_id (e_order (bk_store b1 r))), bk_expired := bk_expired b1\<rparr>"
    note post = post [OF b2_def]
    have run: "book_cancel now oid b = (b2, ev, Inr (as_open_order (bk_store b1 r)))"
      using b1(1) Some rm(1) r(2)
      by (simp add: book_cancel_def after_expiry_def Let_def set_side_def b2_def)
    have ops: "open_of b2 rs = open_of b1 rs" for rs
      by (simp add: open_of_def b2_def rm(2) as_open_order_def)
    have other: "filter (\<lambda>x. x \<noteq> r) (live_refs b1 s) = live_refs b1 s" if "s \<noteq> ?s" for s
      using that mem_live_refs [OF b1(2)] by (auto simp: filter_id_conv)
    have "ref_cancel oid (abs_book b1) = (abs_book b2, Inr (as_open_order (bk_store b1 r)))"
    proof (cases ?s)
      case BUY
      then show ?thesis
        using idx(1) [OF Some, of BUY] post other [of SELL]
        by (simp add: ref_cancel_def abs_book_def abs_sides_def ops same_frame_def)
    next
      case SELL
      then show ?thesis
        using idx(1) [OF Some, of SELL] idx(2) [OF Some, of BUY] post other [of BUY]
        by (simp add: ref_cancel_def abs_book_def abs_sides_def ops same_frame_def)
    qed
    moreover have "bk_symbol b2 = bk_symbol b" "bk_max_age b2 = bk_max_age b"
      using post fr1 by (simp_all add: same_frame_def)
    ultimately show ?thesis using run post b1 r(2) oid
      by (intro exI [of _ b2] exI [of _ ev] exI [of _ "Inr (as_open_order (bk_store b1 r))"]) auto
  qed
qed

lemma book_get_spec:
  assumes ok: "book_ok t b" and now: "t \<le> now"
  shows "\<exists>b' ev. book_get_open_order now oid b = (b', ev, Inr (ref_get_open_order (abs_at now b) oid))
    \<and> book_ok now b' \<and> abs_book b' = abs_at now b \<and> open_ids b' = track ev (open_ids b) \<and> same_frame b b'"
proof -
  obtain b1 ev where b1: "book_expire now b = Inr (b1, ev)" "book_ok now b1"
    "same_frame b b1" "abs_book b1 = abs_at now b" "open_ids b1 = track ev (open_ids b)"
    using book_expire_spec [OF ok now] by blast
  note idx = side_index [OF b1(2), where oid = oid]
  have "map_option (\<lambda>r. as_open_order (bk_store b1 r)) (dict_get (bk_index b1) oid) = ref_get_open_order (abs_book b1) oid"
  proof (cases "dict_get (bk_index b1) oid")
    case None
    then show ?thesis using idx(3) [OF None, of BUY] idx(3) [OF None, of SELL] by (simp add: ref_get_open_order_def)
  next
    case (Some r)
    show ?thesis
      using Some idx(1) [OF Some, of "side (e_order (bk_store b1 r))"] idx(2) [OF Some, of BUY]
      by (cases "side (e_order (bk_store b1 r))") (simp_all add: ref_get_open_order_def)
  qed
  then show ?thesis using b1 by (simp add: book_get_open_order_def after_expiry_def)
qed

section \<open>Queries\<close>

lemma book_open_orders_spec:
  assumes ok: "book_ok t b" and now: "t \<le> now"
  shows "\<exists>b' ev. book_open_orders now s b = (b', ev, Inr (ref_open_orders (abs_at now b) s))
    \<and> book_ok now b' \<and> abs_book b' = abs_at now b \<and> open_ids b' = track ev (open_ids b) \<and> same_frame b b'"
proof -
  obtain b1 ev where b1: "book_expire now b = Inr (b1, ev)" "book_ok now b1"
    "same_frame b b1" "abs_book b1 = abs_at now b" "open_ids b1 = track ev (open_ids b)"
    using book_expire_spec [OF ok now] by blast
  have "live_entries (bk_store b1) (bk_sides b1 s) = Inr (live_refs b1 s)"
    using live_entries_spec [OF book_okD(1) [OF b1(2)]] by (simp add: live_refs_def)
  then have "book_open_orders now s b = (b1, ev, Inr (ref_open_orders (abs_book b1) s))"
    using b1(1) by (simp add: book_open_orders_def after_expiry_def ref_open_orders_def open_of_def)
  then show ?thesis using b1 by simp
qed

text \<open>The reference sums of a list that comes in blocks of one price each.\<close>

lemma level_sums_block:
  "xs \<noteq> [] \<Longrightarrow> (\<And>x. x \<in> set xs \<Longrightarrow> price (oo_order x) = p) \<Longrightarrow> p \<notin> set (dict_keys d) \<Longrightarrow>
   level_sums d (xs @ ys) = level_sums (d @ [(p, sum_list (map oo_remaining xs))]) ys"
proof -
  have more: "p \<notin> set (dict_keys d) \<Longrightarrow> (\<And>x. x \<in> set xs \<Longrightarrow> price (oo_order x) = p) \<Longrightarrow>
      level_sums (d @ [(p, q)]) (xs @ ys) = level_sums (d @ [(p, q + sum_list (map oo_remaining xs))]) ys" for xs q
  proof (induction xs arbitrary: q)
    case (Cons x xs)
    have "dict_get d p = None" using Cons.prems(1) by (simp add: map_of_eq_None_iff)
    then have "dict_get (d @ [(p, q)]) p = Some q" by (simp add: map_add_def)
    moreover have "dict_set (d @ [(p, q)]) p v = d @ [(p, v)]" for v
      using Cons.prems(1) by (induction d) auto
    ultimately show ?case using Cons by (simp add: Let_def algebra_simps)
  qed simp
  assume h: "xs \<noteq> []" "\<And>x. x \<in> set xs \<Longrightarrow> price (oo_order x) = p" "p \<notin> set (dict_keys d)"
  then obtain x xs' where xs: "xs = x # xs'" by (cases xs) auto
  have "dict_get d p = None" using h(3) by (simp add: map_of_eq_None_iff)
  then have "level_sums d (x # xs' @ ys) = level_sums (d @ [(p, oo_remaining x)]) (xs' @ ys)"
    using h(2) [of x] xs by (simp add: Let_def dict_set_new)
  then show ?thesis using more [OF h(3), of xs' "oo_remaining x"] h(2) xs by simp
qed

lemma level_sums_blocks:
  assumes "\<And>k. k \<in> set ks \<Longrightarrow> f k \<noteq> [] \<and> (\<forall>x\<in>set (f k). price (oo_order x) = g k)"
    "distinct (map g ks)" "set (map g ks) \<inter> set (dict_keys d) = {}"
  shows "level_sums d (concat (map f ks)) = d @ map (\<lambda>k. (g k, sum_list (map oo_remaining (f k)))) ks"
  using assms
proof (induction ks arbitrary: d)
  case (Cons k ks)
  have "level_sums d (f k @ concat (map f ks))
      = level_sums (d @ [(g k, sum_list (map oo_remaining (f k)))]) (concat (map f ks))"
    using Cons.prems(1) [of k] Cons.prems(3) by (intro level_sums_block) auto
  also have "\<dots> = (d @ [(g k, sum_list (map oo_remaining (f k)))]) @ map (\<lambda>k. (g k, sum_list (map oo_remaining (f k)))) ks"
    using Cons.prems by (intro Cons.IH) auto
  finally show ?case by simp
qed simp

lemma book_levels_ref:
  assumes ok: "book_ok t b"
  shows "book_levels (bk_sides b s) = Inr (ref_levels (open_of b (live_refs b s)))"
proof -
  let ?H = "bk_store b" and ?sd = "bk_sides b s"
  note sok = book_okD(1) [OF ok, of s]
  let ?f = "\<lambda>k. open_of b (live ?H (queue_at ?sd k))"
  have "open_of b (live ?H (concat (map (queue_at ?sd) ks))) = concat (map ?f ks)" for ks
    by (induction ks) simp_all
  then have "open_of b (live_refs b s) = concat (map ?f (bs_keys ?sd))"
    by (simp add: live_refs_def side_refs_def)
  moreover have "level_sums [] (concat (map ?f (bs_keys ?sd)))
      = [] @ map (\<lambda>k. (side_price s k, sum_list (map oo_remaining (?f k)))) (bs_keys ?sd)"
  proof (rule level_sums_blocks)
    fix k assume "k \<in> set (bs_keys ?sd)"
    then obtain L where L: "dict_get (bs_levels ?sd) (side_price s k) = Some L" using side_okD(5) [OF sok] by blast
    have q: "queue_at ?sd k = lv_queue L"
      using queue_at_get [OF L] side_okD(1) [OF sok] by simp
    have "live ?H (lv_queue L) \<noteq> []" "\<forall>r\<in>set (lv_queue L). price (e_order (?H r)) = side_price s k"
      using side_okD(3) [OF sok L] by (simp_all add: level_ok_def)
    then show "?f k \<noteq> [] \<and> (\<forall>x\<in>set (?f k). price (oo_order x) = side_price s k)"
      unfolding q by (auto simp: open_of_def as_open_order_def)
  next
    have "inj (side_price s)" by (metis injI side_price_key(2))
    then show "distinct (map (side_price s) (bs_keys ?sd))"
      using side_okD(2) [OF sok] by (simp add: distinct_map strict_sorted_iff inj_on_def inj_def)
  qed simp
  moreover have "sum_list (map oo_remaining (?f k)) = total_of ?H (live ?H (queue_at ?sd k))" for k
    by (simp add: open_of_def total_of_def as_open_order_def comp_def)
  ultimately show ?thesis by (simp add: book_levels_spec [OF sok] ref_levels_def)
qed

lemma book_levels_facts:
  assumes ok: "side_ok H s sd" and run: "book_levels sd = Inr ls"
  shows "sorted_wrt (\<lambda>x y. side_key s (level_price x) < side_key s (level_price y)) ls"
    and "l \<in> set ls \<Longrightarrow> 0 < level_quantity l \<and> (\<exists>r\<in>set (side_live H sd). price (e_order (H r)) = level_price l)"
    and "sum_list (map level_quantity ls) = bs_total sd"
proof -
  have ls: "ls = map (\<lambda>k. \<lparr>level_price = side_price s k,
      level_quantity = total_of H (live H (queue_at sd k))\<rparr>) (bs_keys sd)"
    using run book_levels_spec [OF ok] by simp
  show "sorted_wrt (\<lambda>x y. side_key s (level_price x) < side_key s (level_price y)) ls"
    using side_okD(2) [OF ok] by (simp add: ls sorted_wrt_map)
  have "total_of H (live H (concat (map (queue_at sd) ks))) = sum_list (map (\<lambda>k. total_of H (live H (queue_at sd k))) ks)" for ks
    by (induction ks) simp_all
  then show "sum_list (map level_quantity ls) = bs_total sd"
    by (simp add: ls side_okD(6) [OF ok] side_refs_def comp_def)
  assume "l \<in> set ls"
  then obtain k where k: "k \<in> set (bs_keys sd)" and l: "level_price l = side_price s k"
    "level_quantity l = total_of H (live H (queue_at sd k))" by (auto simp: ls)
  obtain L where L: "dict_get (bs_levels sd) (side_price s k) = Some L" using side_okD(5) [OF ok k] by blast
  note lok = side_okD(3) [OF ok L]
  have q: "queue_at sd k = lv_queue L" using queue_at_get [OF L] side_okD(1) [OF ok] by simp
  have "level_quantity l = lv_quantity L" using lok l(2) q by (simp add: level_ok_def)
  then have "0 < level_quantity l" using level_ok_quantity_pos [OF lok] by simp
  moreover have "live H (lv_queue L) \<noteq> []" using lok by (simp add: level_ok_def)
  then obtain r where r: "r \<in> set (live H (lv_queue L))" by (cases "live H (lv_queue L)") auto
  then have "price (e_order (H r)) = level_price l" using lok l(1) by (auto simp: level_ok_def)
  moreover have "r \<in> set (queue_at sd k)" using r q by simp
  then have "r \<in> set (side_live H sd)" using r k unfolding side_refs_def by auto
  ultimately show "0 < level_quantity l \<and> (\<exists>r\<in>set (side_live H sd). price (e_order (H r)) = level_price l)" by blast
qed

lemma book_snapshot_spec:
  assumes ok: "book_ok t b" and now: "t \<le> now"
  shows "\<exists>b' ev. book_snapshot_call now b = (b', ev, Inr (ref_snapshot (abs_at now b)))
    \<and> book_ok now b' \<and> abs_book b' = abs_at now b \<and> open_ids b' = track ev (open_ids b) \<and> same_frame b b'"
proof -
  obtain b1 ev where b1: "book_expire now b = Inr (b1, ev)" "book_ok now b1"
    "same_frame b b1" "abs_book b1 = abs_at now b" "open_ids b1 = track ev (open_ids b)"
    using book_expire_spec [OF ok now] by blast
  have "book_snapshot_call now b = (b1, ev, Inr (ref_snapshot (abs_book b1)))"
    using b1(1) book_levels_ref [OF b1(2)]
    by (simp add: book_snapshot_call_def after_expiry_def ref_snapshot_def)
  then show ?thesis using b1 by simp
qed

lemma book_total_spec:
  assumes ok: "book_ok t b" and now: "t \<le> now"
  shows "\<exists>b' ev. book_total_quantity now s b
      = (b', ev, Inr (sum_list (map oo_remaining (rb_side (abs_at now b) s))))
    \<and> book_ok now b' \<and> abs_book b' = abs_at now b \<and> open_ids b' = track ev (open_ids b) \<and> same_frame b b'"
proof -
  obtain b1 ev where b1: "book_expire now b = Inr (b1, ev)" "book_ok now b1"
    "same_frame b b1" "abs_book b1 = abs_at now b" "open_ids b1 = track ev (open_ids b)"
    using book_expire_spec [OF ok now] by blast
  have "bs_total (bk_sides b1 s) = sum_list (map oo_remaining (rb_side (abs_book b1) s))"
    using side_okD(6) [OF book_okD(1) [OF b1(2)]]
    by (simp add: total_of_def open_of_def live_refs_def as_open_order_def comp_def)
  then have "book_total_quantity now s b
      = (b1, ev, Inr (sum_list (map oo_remaining (rb_side (abs_book b1) s))))"
    using b1(1) by (simp add: book_total_quantity_def after_expiry_def)
  then show ?thesis using b1 by simp
qed

definition best_of :: "open_order list \<Rightarrow> int option" where
  "best_of xs = (case xs of [] \<Rightarrow> None | x # _ \<Rightarrow> Some (price (oo_order x)))"

lemma book_best_spec:
  assumes ok: "book_ok t b" and now: "t \<le> now"
  shows "\<exists>b' ev. book_best_price now s b = (b', ev, Inr (best_of (rb_side (abs_at now b) s)))
    \<and> book_ok now b' \<and> abs_book b' = abs_at now b \<and> open_ids b' = track ev (open_ids b) \<and> same_frame b b'"
proof -
  obtain b1 ev where b1: "book_expire now b = Inr (b1, ev)" "book_ok now b1"
    "same_frame b b1" "abs_book b1 = abs_at now b" "open_ids b1 = track ev (open_ids b)"
    using book_expire_spec [OF ok now] by blast
  note sok = book_okD(1) [OF b1(2), of s]
  show ?thesis
  proof (cases "live_refs b1 s")
    case Nil
    then have "side_best (bk_store b1) (bk_sides b1 s) = Inr (None, bk_sides b1 s)"
      using side_best_spec(1) [OF sok] by (simp add: live_refs_def)
    then have "book_best_price now s b = (b1, ev, Inr (best_of (rb_side (abs_book b1) s)))"
      using b1(1) Nil by (simp add: book_best_price_def after_expiry_def best_of_def set_side_def)
    then show ?thesis using b1 by simp
  next
    case (Cons r rs)
    from side_best_spec(2) [OF sok, of r rs] Cons obtain sd where
      best: "side_best (bk_store b1) (bk_sides b1 s) = Inr (Some r, sd)" and sd: "side_ok (bk_store b1) s sd"
        "side_live (bk_store b1) sd = live_refs b1 s" "set (side_refs sd) \<subseteq> set (side_refs (bk_sides b1 s))"
      by (auto simp: live_refs_def)
    note b2 = book_ok_best [OF b1(2) sd]
    have "abs_book (set_side b1 s sd) = abs_book b1"
      using b2(2,3,4) by (simp add: abs_book_def abs_sides_def open_of_def same_frame_def)
    moreover have "book_best_price now s b = (set_side b1 s sd, ev, Inr (best_of (rb_side (abs_book b1) s)))"
      using b1(1) best Cons by (simp add: book_best_price_def after_expiry_def best_of_def as_open_order_def)
    moreover have "open_ids (set_side b1 s sd) = open_ids b1" by (simp add: open_ids_def b2(5))
    ultimately show ?thesis using b1 b2 same_frame_trans [OF b1(3) b2(3)]
      by (intro exI [of _ "set_side b1 s sd"] exI [of _ ev]) simp
  qed
qed

lemma book_count_spec:
  assumes ok: "book_ok t b"
  shows "book_open_order_count b = length (live_refs b BUY) + length (live_refs b SELL)"
proof -
  define ids where "ids r = order_id (e_order (bk_store b r))" for r
  have "open_ids b = ids ` (set (live_refs b BUY) \<union> set (live_refs b SELL))"
  proof -
    have "alive_at b r \<longleftrightarrow> r \<in> set (live_refs b BUY) \<union> set (live_refs b SELL)" for r
      using mem_live_refs [OF ok] by (cases "side (e_order (bk_store b r))") auto
    then show ?thesis using open_ids_iff [OF ok] by (auto simp: ids_def)
  qed
  moreover have "inj_on ids (set (live_refs b BUY) \<union> set (live_refs b SELL))"
    using alive_unique [OF ok] mem_live_refs [OF ok] by (intro inj_onI) (auto simp: ids_def)
  moreover have "set (live_refs b BUY) \<inter> set (live_refs b SELL) = {}"
    using mem_live_refs [OF ok] by auto
  ultimately have "card (open_ids b) = card (set (live_refs b BUY)) + card (set (live_refs b SELL))"
    by (simp add: card_image card_Un_disjoint)
  then show ?thesis
    using live_refs_distinct [OF ok] book_okD(5) [OF ok]
    by (simp add: book_open_order_count_def open_ids_def distinct_card dict_len_card dict_keys_dom del: set_map)
qed

lemma book_recent_spec: "book_recent_trades b limit = ref_recent_trades (abs_book b) limit"
  by (simp add: book_recent_trades_def ref_recent_trades_def)

lemma make_book_spec:
  assumes "make_book sy cap age = Inr b"
  shows "book_ok t b" "open_ids b = {}" "bk_symbol b = sy" "bk_max_age b = age"
    "make_ref_book sy cap = Inr (abs_book b)" "live_refs b s = []"
  using assms
  by (auto simp: make_book_def make_ref_book_def book_ok_def new_side_ok alive_at_def no_entry_def
      arrivals_ok_def abs_book_def abs_sides_def live_refs_def open_of_def open_ids_def split: if_splits)

end
