(* ===== verification/Matching_Laws.thy ===== *)
theory Matching_Laws
  imports Reference_Book "HOL-Library.Multiset"
begin

text \<open>
  What matching does, stated on the reference book: the closed form of the loop, conservation
  of quantity, price-time priority, and the invariant of a book (each side in strict
  price-time order, nothing exhausted, no bid at or above an ask) under every operation.
\<close>

section \<open>Well-formed reference books\<close>

abbreviation qty_sum :: "open_order list \<Rightarrow> int" where
  "qty_sum xs \<equiv> sum_list (map oo_remaining xs)"

abbreviation traded :: "trade list \<Rightarrow> int" where
  "traded ts \<equiv> sum_list (map trade_quantity ts)"

definition side_list_ok :: "order_side \<Rightarrow> int \<Rightarrow> open_order list \<Rightarrow> bool" where
  "side_list_ok s n xs \<longleftrightarrow>
     sorted_wrt (\<lambda>x y. oo_key s x < oo_key s y) xs
     \<and> (\<forall>x\<in>set xs. side (oo_order x) = s \<and> 0 < oo_remaining x \<and> oo_sequence x \<le> n)"

definition uncrossed :: "ref_book \<Rightarrow> bool" where
  "uncrossed b \<longleftrightarrow> (\<forall>x\<in>set (rb_bids b). \<forall>y\<in>set (rb_asks b). price (oo_order x) < price (oo_order y))"

definition ref_ok :: "ref_book \<Rightarrow> bool" where
  "ref_ok b \<longleftrightarrow> (\<forall>s. side_list_ok s (rb_sequence b) (rb_side b s)) \<and> uncrossed b"

lemma crosses_key:
  "side y = opposite (side ord) \<Longrightarrow>
   crosses ord y \<longleftrightarrow> side_key (side y) (price y) \<le> side_key (side y) (price ord)"
  by (cases "side ord") (auto simp: crosses_def side_key_def)

lemma side_list_ok_filter: "side_list_ok s n xs \<Longrightarrow> side_list_ok s n (filter P xs)"
  by (auto simp: side_list_ok_def sorted_wrt_filter)

lemma side_list_ok_tl: "side_list_ok s n (x # xs) \<Longrightarrow> side_list_ok s n xs"
  by (simp add: side_list_ok_def)

lemma side_list_ok_part:
  "side_list_ok s n (x # xs) \<Longrightarrow> 0 < m \<Longrightarrow> side_list_ok s n (x\<lparr>oo_remaining := m\<rparr> # xs)"
  by (simp add: side_list_ok_def oo_key_def)

section \<open>The matching loop\<close>

text \<open>What the loop does to the opposing list when it must fill \<open>m\<close>.\<close>

fun consume :: "int \<Rightarrow> open_order list \<Rightarrow> open_order list" where
  "consume m [] = []"
| "consume m (x # xs) =
     (if m \<le> 0 then x # xs
      else if oo_remaining x \<le> m then consume (m - oo_remaining x) xs
      else x\<lparr>oo_remaining := oo_remaining x - m\<rparr> # xs)"

text \<open>The orders it meets, and how much it takes from each.\<close>

fun fills :: "int \<Rightarrow> open_order list \<Rightarrow> (order \<times> int) list" where
  "fills m [] = []"
| "fills m (x # xs) =
     (if m \<le> 0 then [] else (oo_order x, min m (oo_remaining x)) # fills (m - min m (oo_remaining x)) xs)"

definition crossing :: "order \<Rightarrow> open_order list \<Rightarrow> open_order list" where
  "crossing ord opp = takeWhile (\<lambda>x. crosses ord (oo_order x)) opp"

fun stamp_fills :: "(nat \<Rightarrow> stamp) \<Rightarrow> symbol \<Rightarrow> order \<Rightarrow> nat \<Rightarrow> (order \<times> int) list \<Rightarrow> trade list" where
  "stamp_fills st sy ord i [] = []"
| "stamp_fills st sy ord i ((x, q) # fs) = make_trade sy ord x q (st i) # stamp_fills st sy ord (Suc i) fs"

lemma fills_nonpos [simp]: "m \<le> 0 \<Longrightarrow> fills m xs = []"
  by (cases xs) auto

lemma consume_nonpos [simp]: "m \<le> 0 \<Longrightarrow> consume m xs = xs"
  by (cases xs) auto

lemma consume_sum: "\<forall>x\<in>set xs. 0 < oo_remaining x \<Longrightarrow> 0 \<le> m \<Longrightarrow> qty_sum (consume m xs) = max 0 (qty_sum xs - m)"
proof (induction m xs rule: consume.induct)
  case (2 m x xs)
  have "0 \<le> qty_sum xs" using 2(2) by (induction xs) (auto intro: add_nonneg_nonneg less_imp_le)
  with 2 show ?case by auto
qed simp

lemma fills_sum: "\<forall>x\<in>set xs. 0 < oo_remaining x \<Longrightarrow> 0 \<le> m \<Longrightarrow> sum_list (map snd (fills m xs)) = min m (qty_sum xs)"
proof (induction m xs rule: fills.induct)
  case (2 m x xs)
  have "0 \<le> qty_sum xs" using 2(2) by (induction xs) (auto intro: add_nonneg_nonneg less_imp_le)
  with 2 show ?case by (auto simp: min_def)
qed simp

lemma fills_prefix: "map fst (fills m xs) = map oo_order (take (length (fills m xs)) xs)"
  by (induction m xs rule: fills.induct) auto

lemma fills_bounds:
  "\<forall>x\<in>set xs. 0 < oo_remaining x \<Longrightarrow> i < length (fills m xs) \<Longrightarrow>
   0 < snd (fills m xs ! i) \<and> snd (fills m xs ! i) \<le> oo_remaining (xs ! i)
   \<and> (Suc i < length (fills m xs) \<longrightarrow> snd (fills m xs ! i) = oo_remaining (xs ! i))"
proof (induction m xs arbitrary: i rule: fills.induct)
  case (2 m x xs)
  show ?case
  proof (cases i)
    case 0
    with 2 show ?thesis by (auto simp: min_def split: if_splits)
  next
    case (Suc j)
    with 2 show ?thesis by (auto split: if_splits)
  qed
qed simp

lemma stamp_fills_map [simp]:
  "length (stamp_fills st sy ord i fs) = length fs"
  "map trade_quantity (stamp_fills st sy ord i fs) = map snd fs"
  "map trade_price (stamp_fills st sy ord i fs) = map (price \<circ> fst) fs"
  by (induction st sy ord i fs rule: stamp_fills.induct) auto

text \<open>
  The closed form: the loop fills as much as it can from the crossing prefix of the opposing
  list, in its order.
\<close>

lemma ref_match_closed:
  assumes "0 \<le> m" "\<forall>x\<in>set opp. 0 < oo_remaining x"
  shows "ref_match st sy ord m ts opp =
    (let cs = crossing ord opp
     in (max 0 (m - qty_sum cs),
         ts @ stamp_fills st sy ord (length ts) (fills m cs),
         consume m cs @ drop (length cs) opp))"
  using assms
proof (induction st sy ord m ts opp rule: ref_match.induct)
  case (1 st sy ord m ts opp)
  show ?case
  proof (cases opp)
    case Nil
    then show ?thesis using 1 by (simp add: ref_match.simps crossing_def)
  next
    case (Cons x xs)
    have tot: "0 \<le> qty_sum (crossing ord xs)"
      using "1.prems"(2) Cons
      by (fastforce simp: crossing_def intro!: sum_list_nonneg dest!: set_takeWhileD intro: less_imp_le)
    show ?thesis
    proof (cases "m \<noteq> 0 \<and> crosses ord (oo_order x)")
      case False
      then show ?thesis
        using "1.prems" Cons tot
        by (cases "crosses ord (oo_order x)") (auto simp: ref_match.simps [of st sy ord _ ts] crossing_def Let_def
          dropWhile_eq_drop [symmetric])
    next
      case True
      then have m: "0 < m" using "1.prems"(1) by simp
      have cs: "crossing ord (x # xs) = x # crossing ord xs" using True by (simp add: crossing_def)
      let ?q = "min m (oo_remaining x)"
      let ?t = "make_trade sy ord (oo_order x) ?q (st (length ts))"
      show ?thesis
      proof (cases "?q = oo_remaining x")
        case full: True
        have "ref_match st sy ord m ts opp = ref_match st sy ord (m - ?q) (ts @ [?t]) xs"
          using Cons True full by (simp add: ref_match.simps [of st sy ord m ts] Let_def)
        also have "\<dots> = (let cs = crossing ord xs in (max 0 (m - ?q - qty_sum cs),
            (ts @ [?t]) @ stamp_fills st sy ord (length (ts @ [?t])) (fills (m - ?q) cs),
            consume (m - ?q) cs @ drop (length cs) xs))"
          by (rule "1.IH"(1) [OF Cons True refl refl full]) (use "1.prems" Cons in auto)
        finally have run: "ref_match st sy ord m ts opp = \<dots>" .
        have le: "oo_remaining x \<le> m" using full by simp
        show ?thesis unfolding run using m le by (simp add: cs Cons Let_def diff_diff_eq)
      next
        case part: False
        then have q: "?q = m" "m < oo_remaining x" by (auto simp: min_def split: if_splits)
        have "ref_match st sy ord m ts opp = ref_match st sy ord 0 (ts @ [?t]) (x\<lparr>oo_remaining := oo_remaining x - m\<rparr> # xs)"
          using Cons True part q by (simp add: ref_match.simps [of st sy ord m ts] Let_def)
        also have "\<dots> = (0, ts @ [?t], x\<lparr>oo_remaining := oo_remaining x - m\<rparr> # xs)"
          by (simp add: ref_match.simps)
        finally have run: "ref_match st sy ord m ts opp = \<dots>" .
        show ?thesis unfolding run using m q tot True
          by (simp add: cs Cons Let_def max_def dropWhile_eq_drop [symmetric] crossing_def)
      qed
    qed
  qed
qed

section \<open>The invariant\<close>

lemma side_list_ok_consume:
  assumes "side_list_ok s n xs"
  shows "side_list_ok s n (consume m xs)"
  using assms
proof (induction m xs rule: consume.induct)
  case (2 m x xs)
  then show ?case by (auto intro: side_list_ok_tl side_list_ok_part)
qed simp

lemma consume_append:
  "qty_sum xs \<le> m \<Longrightarrow> \<forall>x\<in>set (xs @ ys). 0 < oo_remaining x \<Longrightarrow> consume m (xs @ ys) = consume (m - qty_sum xs) ys"
proof (induction xs arbitrary: m)
  case (Cons x xs)
  have "0 \<le> qty_sum xs" using Cons.prems(2) by (fastforce intro!: sum_list_nonneg intro: less_imp_le)
  with Cons show ?case by (auto simp: diff_diff_eq)
qed simp

text \<open>A consumed list is a suffix of the list, its first order possibly reduced.\<close>

lemma consume_cases:
  obtains (all) k where "consume m xs = drop k xs"
    | (part) k r where "k < length xs" "consume m xs = (xs ! k)\<lparr>oo_remaining := r\<rparr> # drop (Suc k) xs" "0 < r"
proof (induction m xs arbitrary: thesis rule: consume.induct)
  case (1 m)
  then show ?case by simp
next
  case (2 m x xs)
  consider "m \<le> 0" | "0 < m" "oo_remaining x \<le> m" | "0 < m" "m < oo_remaining x" by linarith
  then show ?case
  proof cases
    case 1
    then show ?thesis using 2(2) [of 0] by simp
  next
    case c: 2
    show ?thesis
    proof (rule "2.IH")
      fix k assume "consume (m - oo_remaining x) xs = drop k xs"
      then show ?thesis using "2.prems"(1) [of "Suc k"] c by simp
    next
      fix k r assume "k < length xs" "consume (m - oo_remaining x) xs = (xs ! k)\<lparr>oo_remaining := r\<rparr> # drop (Suc k) xs" "0 < r"
      then show ?thesis using "2.prems"(2) [of "Suc k" r] c by simp
    qed (use c in simp_all)
  next
    case 3
    then show ?thesis using "2.prems"(2) [of 0 "oo_remaining x - m"] by simp
  qed
qed

lemma consume_orders: "oo_order ` set (consume m xs) \<subseteq> oo_order ` set xs"
  by (induction m xs rule: consume.induct) auto

text \<open>What is left of the opposing list: a consumed list, and either nothing to fill or nothing that crosses.\<close>

lemma sorted_crossing:
  assumes "side_list_ok (opposite (side ord)) n opp" "x \<in> set (drop (length (crossing ord opp)) opp)"
  shows "\<not> crosses ord (oo_order x)"
proof -
  from assms(2) have d: "x \<in> set (dropWhile (\<lambda>x. crosses ord (oo_order x)) opp)"
    by (simp add: crossing_def dropWhile_eq_drop)
  then obtain y ys where y: "dropWhile (\<lambda>x. crosses ord (oo_order x)) opp = y # ys"
    by (cases "dropWhile (\<lambda>x. crosses ord (oo_order x)) opp") auto
  then have ny: "\<not> crosses ord (oo_order y)" by (metis hd_dropWhile list.sel(1) list.distinct(1))
  obtain A where A: "opp = A @ y # ys" using y by (metis takeWhile_dropWhile_id)
  with assms(1) have s: "sorted_wrt (\<lambda>x y. oo_key (opposite (side ord)) x < oo_key (opposite (side ord)) y) (A @ y # ys)"
    "\<forall>z\<in>set (y # ys). side (oo_order z) = opposite (side ord)"
    by (auto simp: side_list_ok_def)
  from s(1) have "sorted_wrt (\<lambda>x y. oo_key (opposite (side ord)) x < oo_key (opposite (side ord)) y) (y # ys)"
    unfolding sorted_wrt_append by blast
  then have "oo_key (opposite (side ord)) y \<le> oo_key (opposite (side ord)) x"
    using d y by (auto intro: less_imp_le)
  then have "side_key (opposite (side ord)) (price (oo_order y)) \<le> side_key (opposite (side ord)) (price (oo_order x))"
    by (auto simp: oo_key_def less_eq_prod_def)
  then show ?thesis
    using ny s(2) d y crosses_key [of "oo_order y" ord] crosses_key [of "oo_order x" ord] by auto
qed

lemma qty_sum_filter_crossing:
  assumes "side_list_ok (opposite (side ord)) n opp"
  shows "crossing ord opp = filter (\<lambda>x. crosses ord (oo_order x)) opp"
proof -
  have "\<forall>x\<in>set (drop (length (crossing ord opp)) opp). \<not> crosses ord (oo_order x)"
    using sorted_crossing [OF assms] by blast
  then have "filter (\<lambda>x. crosses ord (oo_order x)) (drop (length (crossing ord opp)) opp) = []"
    by (simp add: filter_empty_conv)
  moreover have "filter (\<lambda>x. crosses ord (oo_order x)) (crossing ord opp) = crossing ord opp"
    by (auto simp: crossing_def filter_id_conv dest: set_takeWhileD)
  moreover have "opp = crossing ord opp @ drop (length (crossing ord opp)) opp"
    by (simp add: crossing_def dropWhile_eq_drop [symmetric])
  ultimately show ?thesis by (metis append_Nil2 filter_append)
qed

lemma side_list_ok_D:
  assumes "side_list_ok s n xs"
  shows "x \<in> set xs \<Longrightarrow> side (oo_order x) = s" "x \<in> set xs \<Longrightarrow> 0 < oo_remaining x"
    "x \<in> set xs \<Longrightarrow> oo_sequence x \<le> n" "sorted_wrt (\<lambda>x y. oo_key s x < oo_key s y) xs"
  using assms by (auto simp: side_list_ok_def)

lemma match_opp_ok:
  assumes "0 \<le> m" "side_list_ok (opposite (side ord)) n opp"
    "ref_match st sy ord m ts opp = (m', ts', opp')"
  shows "side_list_ok (opposite (side ord)) n opp'"
    and "oo_order ` set opp' \<subseteq> oo_order ` set opp"
    and "m' \<noteq> 0 \<Longrightarrow> x \<in> set opp' \<Longrightarrow> \<not> crosses ord (oo_order x)"
    and "m' = max 0 (m - qty_sum (filter (\<lambda>x. crosses ord (oo_order x)) opp))"
    and "opp' = consume m (crossing ord opp) @ drop (length (crossing ord opp)) opp"
    and "ts' = ts @ stamp_fills st sy ord (length ts) (fills m (crossing ord opp))"
proof -
  let ?cs = "crossing ord opp" and ?rest = "drop (length (crossing ord opp)) opp"
  let ?s = "opposite (side ord)"
  have pos: "\<forall>x\<in>set opp. 0 < oo_remaining x" using assms(2) by (simp add: side_list_ok_def)
  have split: "opp = ?cs @ ?rest" by (simp add: crossing_def dropWhile_eq_drop [symmetric])
  from assms(3) ref_match_closed [OF assms(1) pos, of st sy ord ts]
  show m': "m' = max 0 (m - qty_sum (filter (\<lambda>x. crosses ord (oo_order x)) opp))"
    and opp': "opp' = consume m ?cs @ ?rest"
    and "ts' = ts @ stamp_fills st sy ord (length ts) (fills m ?cs)"
    by (simp_all add: Let_def qty_sum_filter_crossing [OF assms(2), symmetric])
  have cpos: "\<forall>x\<in>set ?cs. 0 < oo_remaining x" using pos split by (metis UnCI set_append)
  have none: "consume m ?cs = []" if "m' \<noteq> 0"
  proof -
    have le: "qty_sum ?cs \<le> m" using that m' qty_sum_filter_crossing [OF assms(2)] by (simp add: max_def split: if_splits)
    have "consume m (?cs @ []) = consume (m - qty_sum ?cs) []" by (rule consume_append [OF le]) (use cpos in simp)
    then show ?thesis by simp
  qed
  show "\<not> crosses ord (oo_order x)" if "m' \<noteq> 0" "x \<in> set opp'"
    using that none opp' sorted_crossing [OF assms(2)] by simp
  show "oo_order ` set opp' \<subseteq> oo_order ` set opp"
    using consume_orders [of m ?cs] split unfolding opp' by (metis image_Un set_append subset_refl Un_mono)
  have ck: "side_list_ok ?s n ?cs" "side_list_ok ?s n ?rest"
    "\<forall>x\<in>set ?cs. \<forall>y\<in>set ?rest. oo_key ?s x < oo_key ?s y"
    using assms(2) split unfolding side_list_ok_def
    by (metis sorted_wrt_append UnCI set_append)+
  have "\<exists>x'\<in>set ?cs. oo_key ?s x' = oo_key ?s x" if "x \<in> set (consume m ?cs)" for x
    by (rule consume_cases [of m ?cs]) (use that in \<open>auto dest: in_set_dropD simp: oo_key_def\<close>)
  then have "\<forall>x\<in>set (consume m ?cs). \<forall>y\<in>set ?rest. oo_key ?s x < oo_key ?s y" using ck(3) by metis
  then show "side_list_ok ?s n opp'"
    using side_list_ok_consume [OF ck(1), of m] ck(2) unfolding opp' side_list_ok_def
    by (auto simp: sorted_wrt_append)
qed

section \<open>Submissions\<close>

lemma ref_rest_side:
  assumes "side_list_ok (side ord) (rb_sequence b) (rb_side b (side ord))" "0 < m"
  shows "side_list_ok (side ord) (rb_sequence b + 1) (rb_side (ref_rest b ord m) (side ord))"
    and "set (rb_side (ref_rest b ord m) (side ord)) =
      insert \<lparr>oo_order = ord, oo_remaining = m, oo_sequence = rb_sequence b + 1\<rparr> (set (rb_side b (side ord)))"
    and "qty_sum (rb_side (ref_rest b ord m) (side ord)) = qty_sum (rb_side b (side ord)) + m"
proof -
  let ?s = "side ord" and ?xs = "rb_side b (side ord)"
  let ?x = "\<lparr>oo_order = ord, oo_remaining = m, oo_sequence = rb_sequence b + 1\<rparr>"
  have side': "rb_side (ref_rest b ord m) ?s = sort_key (oo_key ?s) (?xs @ [?x])"
    by (simp add: ref_rest_def Let_def)
  have "distinct (map (oo_key ?s) ?xs)"
    using side_list_ok_D(4) [OF assms(1)] by (intro sorted_wrt_distinct [where R = "(<)"]) (simp_all add: sorted_wrt_map)
  moreover have "oo_key ?s ?x \<notin> set (map (oo_key ?s) ?xs)"
    using side_list_ok_D(3) [OF assms(1)] by (fastforce simp: oo_key_def)
  ultimately have "sorted_wrt (\<lambda>x y. oo_key ?s x < oo_key ?s y) (sort_key (oo_key ?s) (?xs @ [?x]))"
    by (intro sort_key_strict) simp
  then show "side_list_ok ?s (rb_sequence b + 1) (rb_side (ref_rest b ord m) ?s)"
    using assms unfolding side' side_list_ok_def by (auto intro: order_trans)
  show "set (rb_side (ref_rest b ord m) ?s) = insert ?x (set ?xs)" by (simp add: side')
  have "mset (map oo_remaining (sort_key (oo_key ?s) (?xs @ [?x]))) = mset (map oo_remaining (?xs @ [?x]))"
    by (simp only: mset_map mset_sort)
  then have "qty_sum (sort_key (oo_key ?s) (?xs @ [?x])) = qty_sum (?xs @ [?x])"
    by (metis sum_mset_sum_list)
  then show "qty_sum (rb_side (ref_rest b ord m) ?s) = qty_sum ?xs + m" by (simp add: side')
qed

lemma ref_rest_frame [simp]:
  "s \<noteq> side ord \<Longrightarrow> rb_side (ref_rest b ord m) s = rb_side b s"
  "rb_symbol (ref_rest b ord m) = rb_symbol b" "rb_recent (ref_rest b ord m) = rb_recent b"
  "rb_capacity (ref_rest b ord m) = rb_capacity b" "rb_sequence (ref_rest b ord m) = rb_sequence b + 1"
  by (simp_all add: ref_rest_def Let_def)

lemma uncrossed_side:
  "uncrossed b \<longleftrightarrow> (\<forall>x\<in>set (rb_side b s). \<forall>y\<in>set (rb_side b (opposite s)).
     side_key s (price (oo_order y)) < side_key s (price (oo_order x)))"
  by (cases s) (auto simp: uncrossed_def rb_side_def side_key_def)

text \<open>What a submission does, in one statement.\<close>

lemma ref_submit_unfold:
  assumes ok: "ref_ok b" and q: "0 < quantity ord" and run: "ref_submit st ord b = (b', Inr res)"
  defines "opp \<equiv> rb_side b (opposite (side ord))"
  obtains bm where "result_order_id res = order_id ord"
    "result_trades res = stamp_fills st (rb_symbol b) ord 0 (fills (quantity ord) (crossing ord opp))"
    "result_remaining res = max 0 (quantity ord - qty_sum (filter (\<lambda>x. crosses ord (oo_order x)) opp))"
    "bm = rb_set_side b (opposite (side ord))
       (consume (quantity ord) (crossing ord opp) @ drop (length (crossing ord opp)) opp)"
    "b' = (if result_remaining res \<noteq> 0 then ref_rest bm ord (result_remaining res) else bm)
            \<lparr>rb_recent := tape_extend (rb_capacity b) (rb_recent b) (result_trades res)\<rparr>"
    "ref_ok bm"
    "\<And>x. result_remaining res \<noteq> 0 \<Longrightarrow> x \<in> set (rb_side bm (opposite (side ord))) \<Longrightarrow> \<not> crosses ord (oo_order x)"
proof -
  let ?o = "opposite (side ord)"
  have oppok: "side_list_ok ?o (rb_sequence b) opp" using ok by (simp add: ref_ok_def opp_def)
  obtain m ts opp' where m: "ref_match st (rb_symbol b) ord (quantity ord) [] opp = (m, ts, opp')"
    by (metis prod_cases3)
  note law = match_opp_ok [OF less_imp_le [OF q] oppok m]
  define bm where "bm = rb_set_side b ?o opp'"
  from run m have res: "res = \<lparr>result_order_id = order_id ord, result_trades = ts, result_remaining = m\<rparr>"
    "b' = (if m \<noteq> 0 then ref_rest bm ord m else bm)\<lparr>rb_recent := tape_extend (rb_capacity b) (rb_recent b) ts\<rparr>"
    unfolding ref_submit_def opp_def by (auto simp: Let_def bm_def split: if_splits)
  have "side_list_ok s (rb_sequence bm) (rb_side bm s)" for s
    using ok law(1) by (simp add: bm_def ref_ok_def)
  moreover have "uncrossed bm"
  proof -
    have u: "uncrossed b" using ok by (simp add: ref_ok_def)
    have "\<exists>z\<in>set opp. oo_order z = oo_order y" if "y \<in> set opp'" for y using law(2) that by force
    then show ?thesis
      using u unfolding uncrossed_side [where s = "side ord"] bm_def opp_def
      by (simp del: ball_simps) metis
  qed
  ultimately have "ref_ok bm" by (simp add: ref_ok_def)
  moreover have "\<not> crosses ord (oo_order x)" if "m \<noteq> 0" "x \<in> set (rb_side bm ?o)" for x
    using law(3) [OF that(1)] that(2) by (simp add: bm_def)
  ultimately show ?thesis
  proof (intro that [of bm])
    show "bm = rb_set_side b ?o (consume (quantity ord) (crossing ord opp) @ drop (length (crossing ord opp)) opp)"
      unfolding bm_def law(5) ..
    show "result_trades res = stamp_fills st (rb_symbol b) ord 0 (fills (quantity ord) (crossing ord opp))"
      using law(6) by (simp add: res(1))
    show "result_remaining res = max 0 (quantity ord - qty_sum (filter (\<lambda>x. crosses ord (oo_order x)) opp))"
      unfolding res(1) match_result.simps by (rule law(4))
  qed (use res in simp_all)
qed

lemma ref_ok_recent [simp]: "ref_ok (b\<lparr>rb_recent := ts\<rparr>) = ref_ok b"
  by (simp add: ref_ok_def uncrossed_def)

lemma ref_rest_ok:
  assumes ok: "ref_ok b" and m: "0 < m"
    and free: "\<And>x. x \<in> set (rb_side b (opposite (side ord))) \<Longrightarrow> \<not> crosses ord (oo_order x)"
  shows "ref_ok (ref_rest b ord m)"
proof -
  have s: "side_list_ok (side ord) (rb_sequence b) (rb_side b (side ord))"
    "side_list_ok (opposite (side ord)) (rb_sequence b) (rb_side b (opposite (side ord)))"
    using ok by (simp_all add: ref_ok_def)
  note rest = ref_rest_side [OF s(1) m]
  have "side_list_ok s' (rb_sequence (ref_rest b ord m)) (rb_side (ref_rest b ord m) s')" for s'
  proof (cases "s' = side ord")
    case False
    then show ?thesis using s(2) by (auto simp: side_neq_iff side_list_ok_def)
  qed (use rest(1) in simp)
  moreover have "uncrossed (ref_rest b ord m)"
  proof -
    have k: "side_key (side ord) (price (oo_order y)) < side_key (side ord) (price ord)"
      if y: "y \<in> set (rb_side b (opposite (side ord)))" for y
      using free [OF y] crosses_key [of "oo_order y" ord] side_list_ok_D(1) [OF s(2) y]
      by (cases "side ord") (simp_all add: side_key_def)
    have u: "\<forall>x\<in>set (rb_side b (side ord)). \<forall>y\<in>set (rb_side b (opposite (side ord))).
        side_key (side ord) (price (oo_order y)) < side_key (side ord) (price (oo_order x))"
      using ok uncrossed_side unfolding ref_ok_def by blast
    show ?thesis unfolding uncrossed_side [where s = "side ord"] rest(2) using u k by simp
  qed
  ultimately show ?thesis by (simp add: ref_ok_def)
qed

lemma ref_submit_ok:
  assumes "ref_ok b" "0 < quantity ord" "ref_submit st ord b = (b', Inr res)"
  shows "ref_ok b'"
proof (rule ref_submit_unfold [OF assms])
  fix bm
  assume h: "b' = (if result_remaining res \<noteq> 0 then ref_rest bm ord (result_remaining res) else bm)
            \<lparr>rb_recent := tape_extend (rb_capacity b) (rb_recent b) (result_trades res)\<rparr>"
    "ref_ok bm" "result_remaining res =
       max 0 (quantity ord - qty_sum (filter (\<lambda>x. crosses ord (oo_order x)) (rb_side b (opposite (side ord)))))"
    "\<And>x. result_remaining res \<noteq> 0 \<Longrightarrow> x \<in> set (rb_side bm (opposite (side ord))) \<Longrightarrow> \<not> crosses ord (oo_order x)"
  have "0 \<le> result_remaining res" unfolding h(3) by simp
  then show ?thesis using h(1,2) ref_rest_ok [OF h(2) _ h(4)] by auto
qed

text \<open>No quantity appears or disappears in a submission.\<close>

lemma ref_submit_conserves:
  assumes ok: "ref_ok b" and q: "0 < quantity ord" and run: "ref_submit st ord b = (b', Inr res)"
  shows "traded (result_trades res) + result_remaining res = quantity ord"
    and "qty_sum (rb_side b' (opposite (side ord))) = qty_sum (rb_side b (opposite (side ord))) - traded (result_trades res)"
    and "qty_sum (rb_side b' (side ord)) = qty_sum (rb_side b (side ord)) + result_remaining res"
proof -
  let ?o = "opposite (side ord)"
  let ?opp = "rb_side b ?o"
  obtain bm where h: "result_trades res = stamp_fills st (rb_symbol b) ord 0 (fills (quantity ord) (crossing ord ?opp))"
    "result_remaining res = max 0 (quantity ord - qty_sum (filter (\<lambda>x. crosses ord (oo_order x)) ?opp))"
    "bm = rb_set_side b ?o (consume (quantity ord) (crossing ord ?opp) @ drop (length (crossing ord ?opp)) ?opp)"
    "b' = (if result_remaining res \<noteq> 0 then ref_rest bm ord (result_remaining res) else bm)
            \<lparr>rb_recent := tape_extend (rb_capacity b) (rb_recent b) (result_trades res)\<rparr>"
    "ref_ok bm"
    by (rule ref_submit_unfold [OF ok q run]) blast
  have oppok: "side_list_ok ?o (rb_sequence b) ?opp" using ok by (simp add: ref_ok_def)
  define cs where "cs = crossing ord ?opp"
  have split: "qty_sum ?opp = qty_sum cs + qty_sum (drop (length cs) ?opp)"
  proof -
    have "?opp = cs @ drop (length cs) ?opp" by (simp add: cs_def crossing_def dropWhile_eq_drop [symmetric])
    then show ?thesis by (metis map_append sum_list_append)
  qed
  have cpos: "\<forall>x\<in>set cs. 0 < oo_remaining x"
    using side_list_ok_D(2) [OF oppok] by (auto simp: cs_def crossing_def dest: set_takeWhileD)
  have tr: "traded (result_trades res) = min (quantity ord) (qty_sum cs)"
    using fills_sum [OF cpos less_imp_le [OF q]] by (simp add: h(1) cs_def)
  have rem: "result_remaining res = max 0 (quantity ord - qty_sum cs)"
    using h(2) by (simp add: cs_def qty_sum_filter_crossing [OF oppok])
  show "traded (result_trades res) + result_remaining res = quantity ord" using tr rem by simp
  have opp': "rb_side b' ?o = consume (quantity ord) cs @ drop (length cs) ?opp"
    using h(3,4) by (simp add: cs_def)
  show "qty_sum (rb_side b' ?o) = qty_sum ?opp - traded (result_trades res)"
    using consume_sum [OF cpos less_imp_le [OF q]] split tr by (simp add: opp')
  have same: "rb_side bm (side ord) = rb_side b (side ord)" using h(3) by simp
  have "side_list_ok (side ord) (rb_sequence bm) (rb_side bm (side ord))" using h(5) by (simp add: ref_ok_def)
  note rest = ref_rest_side(3) [OF this]
  show "qty_sum (rb_side b' (side ord)) = qty_sum (rb_side b (side ord)) + result_remaining res"
    using h(4) same rest [of "result_remaining res"] rem by (cases "result_remaining res = 0") auto
qed

text \<open>The trades of a submission meet the best orders of the other side, in their order.\<close>

definition maker_id :: "order \<Rightarrow> trade \<Rightarrow> uuid" where
  "maker_id ord t = (if side ord = BUY then sell_order_id t else buy_order_id t)"

lemma stamp_fills_maker: "map (maker_id ord) (stamp_fills st sy ord i fs) = map (order_id \<circ> fst) fs"
  by (induction st sy ord i fs rule: stamp_fills.induct) (auto simp: maker_id_def)

lemma ref_submit_trades:
  assumes ok: "ref_ok b" and q: "0 < quantity ord" and run: "ref_submit st ord b = (b', Inr res)"
  defines "opp \<equiv> rb_side b (opposite (side ord))" and "k \<equiv> length (result_trades res)"
  shows "map (maker_id ord) (result_trades res) = map (order_id \<circ> oo_order) (take k opp)"
    and "map trade_price (result_trades res) = map (price \<circ> oo_order) (take k opp)"
    and "k \<le> length opp"
    and "i < k \<Longrightarrow> crosses ord (oo_order (opp ! i))"
    and "i < k \<Longrightarrow> 0 < trade_quantity (result_trades res ! i)
          \<and> trade_quantity (result_trades res ! i) \<le> oo_remaining (opp ! i)
          \<and> (Suc i < k \<longrightarrow> trade_quantity (result_trades res ! i) = oo_remaining (opp ! i))"
proof -
  define cs where "cs = crossing ord opp"
  define fs where "fs = fills (quantity ord) cs"
  have oppok: "side_list_ok (opposite (side ord)) (rb_sequence b) opp" using ok by (simp add: ref_ok_def opp_def)
  have cpos: "\<forall>x\<in>set cs. 0 < oo_remaining x"
    using side_list_ok_D(2) [OF oppok] by (auto simp: cs_def crossing_def dest: set_takeWhileD)
  have tr: "result_trades res = stamp_fills st (rb_symbol b) ord 0 fs"
    unfolding fs_def cs_def opp_def by (rule ref_submit_unfold [OF ok q run])
  then have k: "k = length fs" unfolding k_def by simp
  have pre: "map fst fs = map oo_order (take k cs)" unfolding k fs_def by (rule fills_prefix)
  have kc: "k \<le> length cs" using arg_cong [OF pre, of length] k by simp
  have cpre: "cs = take (length cs) opp" unfolding cs_def crossing_def by (rule takeWhile_eq_take)
  have kopp: "length cs \<le> length opp" unfolding cs_def crossing_def by (rule length_takeWhile_le)
  have tk: "take k cs = take k opp" using cpre kc by (metis min.absorb1 take_take)
  have nth: "opp ! i = cs ! i" if "i < k" for i using tk that by (metis nth_take)
  show "map (maker_id ord) (result_trades res) = map (order_id \<circ> oo_order) (take k opp)"
    unfolding tr stamp_fills_maker tk [symmetric] using arg_cong [OF pre, of "map order_id"] by simp
  show "map trade_price (result_trades res) = map (price \<circ> oo_order) (take k opp)"
    unfolding tr stamp_fills_map tk [symmetric] using arg_cong [OF pre, of "map price"] by simp
  show "k \<le> length opp" using kc kopp by simp
  show "crosses ord (oo_order (opp ! i))" if "i < k"
    using nth [OF that] that kc set_takeWhileD [of "cs ! i" "\<lambda>x. crosses ord (oo_order x)" opp]
    by (auto simp: cs_def crossing_def)
  show "0 < trade_quantity (result_trades res ! i)
          \<and> trade_quantity (result_trades res ! i) \<le> oo_remaining (opp ! i)
          \<and> (Suc i < k \<longrightarrow> trade_quantity (result_trades res ! i) = oo_remaining (opp ! i))" if "i < k"
  proof -
    have "trade_quantity (result_trades res ! i) = map trade_quantity (result_trades res) ! i"
      using that by (simp add: k_def)
    also have "\<dots> = snd (fs ! i)" using that k by (simp add: tr)
    finally show ?thesis using fills_bounds [OF cpos, of i "quantity ord"] that nth [OF that] k by (simp add: fs_def)
  qed
qed

section \<open>Cancellations and expiry\<close>

lemma side_list_ok_map_filter:
  "side_list_ok s n (map f rs) \<Longrightarrow> side_list_ok s n (map f (filter P rs))"
  by (auto simp: side_list_ok_def sorted_wrt_map intro: sorted_wrt_filter)

lemma ref_ok_sub:
  assumes "ref_ok b" "\<And>s. rb_side b s = map f (rs s)" "\<And>s. rb_side b' s = map f (filter (P s) (rs s))"
    "rb_sequence b' = rb_sequence b"
  shows "ref_ok b'"
proof -
  have "side_list_ok s (rb_sequence b) (map f (rs s))" for s
    using assms(1) assms(2) [of s] by (metis ref_ok_def)
  then have "side_list_ok s (rb_sequence b') (rb_side b' s)" for s
    unfolding assms(3,4) by (rule side_list_ok_map_filter)
  moreover have sub: "set (rb_side b' s) \<subseteq> set (rb_side b s)" for s unfolding assms(2,3) by auto
  have "uncrossed b'"
    using assms(1) sub [of BUY] sub [of SELL] unfolding ref_ok_def uncrossed_def by (simp add: rb_side_def) blast
  ultimately show ?thesis by (simp add: ref_ok_def)
qed

lemma take_order_filter:
  "take_order oid xs = Some (x, ys) \<Longrightarrow> distinct xs \<Longrightarrow>
   ys = filter (\<lambda>y. y \<noteq> x) xs \<and> x \<in> set xs \<and> order_id (oo_order x) = oid"
proof (induction xs arbitrary: ys)
  case (Cons z xs)
  show ?case
  proof (cases "order_id (oo_order z) = oid")
    case True
    then have "z = x" "ys = xs" using Cons.prems(1) by simp_all
    moreover from this have "filter (\<lambda>y. y \<noteq> x) xs = xs" using Cons.prems(2) by (auto simp: filter_id_conv)
    ultimately show ?thesis using True by simp
  next
    case False
    then obtain zs where "take_order oid xs = Some (x, zs)" "ys = z # zs" using Cons.prems(1) by auto
    then show ?thesis using Cons.IH [of zs] Cons.prems(2) False by auto
  qed
qed simp

lemma ref_cancel_ok:
  assumes ok: "ref_ok b" and run: "ref_cancel oid b = (b', res)"
  shows "ref_ok b'"
    and "res = Inr x \<Longrightarrow> order_id (oo_order x) = oid \<and> x \<in> set (rb_side b (side (oo_order x)))
          \<and> (\<forall>s. rb_side b' s = filter (\<lambda>y. y \<noteq> x) (rb_side b s))"
    and "res = Inl e \<Longrightarrow> b' = b \<and> e = OrderNotFoundError oid"
proof -
  have sok: "side_list_ok s (rb_sequence b) (rb_side b s)" for s using ok by (simp add: ref_ok_def)
  have dist: "distinct (rb_side b s)" for s by (rule sorted_wrt_distinct [OF side_list_ok_D(4) [OF sok]]) simp
  have key: "(\<exists>s z xs. take_order oid (rb_side b s) = Some (z, xs) \<and> res = Inr z \<and> b' = rb_set_side b s xs)
      \<or> (res = Inl (OrderNotFoundError oid) \<and> b' = b)"
  proof (cases "take_order oid (rb_bids b)")
    case (Some p)
    then show ?thesis using run
      by (intro disjI1 exI [of _ BUY]) (auto simp: ref_cancel_def rb_side_def rb_set_side_def split: prod.splits)
  next
    case bids: None
    show ?thesis
    proof (cases "take_order oid (rb_asks b)")
      case None
      then show ?thesis using run bids by (simp add: ref_cancel_def)
    next
      case (Some p)
      then show ?thesis using run bids
        by (intro disjI1 exI [of _ SELL]) (auto simp: ref_cancel_def rb_side_def rb_set_side_def split: prod.splits)
    qed
  qed
  have gone: "order_id (oo_order z) = oid \<and> z \<in> set (rb_side b s) \<and> s = side (oo_order z)
      \<and> (\<forall>t. rb_side (rb_set_side b s xs) t = filter (\<lambda>y. y \<noteq> z) (rb_side b t))"
    if "take_order oid (rb_side b s) = Some (z, xs)" for s z xs
  proof -
    note f = take_order_filter [OF that dist]
    have z: "s = side (oo_order z)" using f side_list_ok_D(1) [OF sok, of z s] by simp
    have "filter (\<lambda>y. y \<noteq> z) (rb_side b t) = rb_side b t" if "t \<noteq> s" for t
      using that z side_list_ok_D(1) [OF sok, of _ t] by (auto simp: filter_id_conv)
    then show ?thesis using f z by simp
  qed
  show "res = Inr x \<Longrightarrow> order_id (oo_order x) = oid \<and> x \<in> set (rb_side b (side (oo_order x)))
          \<and> (\<forall>s. rb_side b' s = filter (\<lambda>y. y \<noteq> x) (rb_side b s))"
    using key gone by fastforce
  show "res = Inl e \<Longrightarrow> b' = b \<and> e = OrderNotFoundError oid" using key by auto
  from key show "ref_ok b'"
  proof (elim disjE exE conjE)
    fix s z xs assume t: "take_order oid (rb_side b s) = Some (z, xs)" "b' = rb_set_side b s xs"
    have "rb_side b' u = filter (\<lambda>y. y \<noteq> z) (rb_side b u)" for u using gone [OF t(1)] t(2) by blast
    then show ?thesis using t(2)
      by (intro ref_ok_sub [OF ok, of id "rb_side b" _ "\<lambda>_ y. y \<noteq> z"]) simp_all
  qed (use ok in simp)
qed

end
