(* ===== verification/Book_Machine.thy ===== *)
theory Book_Machine
  imports Book_Calls Matching_Laws
begin

text \<open>
  The order book as a state machine. \<open>book_call\<close> is one call of the public interface,
  \<open>book_do\<close> performs it on the production book and \<open>ref_do\<close> on the reference book;
  \<open>reachable\<close> is the set of books that a sequence of calls leads to. The interface
  \<open>limit_order_book\<close> states the contract of a limit order book, and both implementations
  are interpretations of it.
\<close>

section \<open>Calls\<close>

datatype book_call =
    Submit submit_env order
  | Cancel seconds uuid
  | GetOpen seconds uuid
  | OpenOrders seconds order_side
  | Snapshot seconds
  | TotalQuantity seconds order_side
  | BestPrice seconds order_side
  | RecentTrades int

datatype outcome =
    Matched match_result
  | Canceled open_order
  | Found "open_order option"
  | Orders "open_order list"
  | Levels book_snapshot
  | Amount int
  | Price "int option"
  | Trades "trade list"

definition map_call :: "('a \<Rightarrow> outcome) \<Rightarrow> 'a call \<Rightarrow> outcome call" where
  "map_call f x = (let (b, ev, r) = x in (b, ev, ebind r (\<lambda>y. Inr (f y))))"

fun book_do :: "book_call \<Rightarrow> book \<Rightarrow> outcome call" where
  "book_do (Submit env ord) b = map_call Matched (book_submit env ord b)"
| "book_do (Cancel now oid) b = map_call Canceled (book_cancel now oid b)"
| "book_do (GetOpen now oid) b = map_call Found (book_get_open_order now oid b)"
| "book_do (OpenOrders now s) b = map_call Orders (book_open_orders now s b)"
| "book_do (Snapshot now) b = map_call Levels (book_snapshot_call now b)"
| "book_do (TotalQuantity now s) b = map_call Amount (book_total_quantity now s b)"
| "book_do (BestPrice now s) b = map_call Price (book_best_price now s b)"
| "book_do (RecentTrades limit) b = map_call Trades (b, [], book_recent_trades b limit)"

text \<open>
  The same calls on the reference book. It has no \<open>total_quantity\<close> and no \<open>best_price\<close>; what
  they must return is read off its open orders.
\<close>

definition map_ref :: "('a \<Rightarrow> outcome) \<Rightarrow> ref_book \<times> (py_error + 'a) \<Rightarrow> ref_book \<times> (py_error + outcome)" where
  "map_ref f x = (let (b, r) = x in (b, ebind r (\<lambda>y. Inr (f y))))"

fun ref_do :: "book_call \<Rightarrow> ref_book \<Rightarrow> ref_book \<times> (py_error + outcome)" where
  "ref_do (Submit env ord) b = map_ref Matched (ref_submit (stamps env) ord b)"
| "ref_do (Cancel now oid) b = map_ref Canceled (ref_cancel oid b)"
| "ref_do (GetOpen now oid) b = (b, Inr (Found (ref_get_open_order b oid)))"
| "ref_do (OpenOrders now s) b = (b, Inr (Orders (ref_open_orders b s)))"
| "ref_do (Snapshot now) b = (b, Inr (Levels (ref_snapshot b)))"
| "ref_do (TotalQuantity now s) b = (b, Inr (Amount (qty_sum (ref_open_orders b s))))"
| "ref_do (BestPrice now s) b = (b, Inr (Price (best_of (ref_open_orders b s))))"
| "ref_do (RecentTrades limit) b = map_ref Trades (b, ref_recent_trades b limit)"

text \<open>The clock readings of a call, given the latest reading before it.\<close>

fun call_start :: "seconds \<Rightarrow> book_call \<Rightarrow> seconds" where
  "call_start t (Submit env ord) = expire_clock env"
| "call_start t (Cancel now oid) = now"
| "call_start t (GetOpen now oid) = now"
| "call_start t (OpenOrders now s) = now"
| "call_start t (Snapshot now) = now"
| "call_start t (TotalQuantity now s) = now"
| "call_start t (BestPrice now s) = now"
| "call_start t (RecentTrades limit) = t"

fun call_end :: "seconds \<Rightarrow> book_call \<Rightarrow> seconds" where
  "call_end t (Submit env ord) = rest_clock env"
| "call_end t c = call_start t c"

text \<open>
  What the callers of a book ensure: the clock is monotonic, and a submitted order passed
  the constructor's checks and carries a fresh identifier (\<open>uuid4\<close>).
\<close>

fun call_legal :: "seconds \<Rightarrow> book \<Rightarrow> book_call \<Rightarrow> bool" where
  "call_legal t b (Submit env ord) \<longleftrightarrow>
     t \<le> expire_clock env \<and> expire_clock env \<le> rest_clock env \<and> valid_order ord
     \<and> order_id ord \<notin> open_ids b"
| "call_legal t b c \<longleftrightarrow> t \<le> call_start t c"

text \<open>A submission for another symbol is refused before the book expires anything.\<close>

fun refused :: "book \<Rightarrow> book_call \<Rightarrow> bool" where
  "refused b (Submit env ord) \<longleftrightarrow> order_symbol ord \<noteq> bk_symbol b"
| "refused b (RecentTrades limit) \<longleftrightarrow> True"
| "refused b c \<longleftrightarrow> False"

lemma book_do_spec:
  assumes ok: "book_ok t b" and legal: "call_legal t b c" and run: "book_do c b = (b', ev, res)"
  shows "book_ok (call_end t c) b'
    \<and> ref_do c (if refused b c then abs_book b else abs_at (call_start t c) b) = (abs_book b', res)
    \<and> bk_symbol b' = bk_symbol b \<and> bk_max_age b' = bk_max_age b"
proof (cases c)
  case (Submit env ord)
  show ?thesis
  proof (cases "order_symbol ord = bk_symbol b")
    case True
    from Submit legal have l: "t \<le> expire_clock env" "expire_clock env \<le> rest_clock env" "0 < quantity ord"
      "order_id ord \<notin> open_ids b" by (simp_all add: valid_order_def)
    from book_submit_spec [OF ok l(1,2) True l(3,4)] show ?thesis
      using run Submit True by (auto simp: map_call_def map_ref_def)
  next
    case False
    then show ?thesis using run Submit ok legal book_submit_wrong_symbol [OF False, of env]
      by (auto simp: map_call_def map_ref_def ref_submit_def intro: book_ok_later)
  qed
next
  case (Cancel now oid)
  then have "t \<le> now" using legal by simp
  from book_cancel_spec [OF ok this, of oid] show ?thesis
    using run Cancel by (auto simp: map_call_def map_ref_def)
next
  case (GetOpen now oid)
  then have "t \<le> now" using legal by simp
  from book_get_spec [OF ok this, of oid] show ?thesis
    using run GetOpen by (auto simp: map_call_def same_frame_def)
next
  case (OpenOrders now s)
  then have "t \<le> now" using legal by simp
  from book_open_orders_spec [OF ok this, of s] show ?thesis
    using run OpenOrders by (auto simp: map_call_def same_frame_def)
next
  case (Snapshot now)
  then have "t \<le> now" using legal by simp
  from book_snapshot_spec [OF ok this] show ?thesis
    using run Snapshot by (auto simp: map_call_def same_frame_def)
next
  case (TotalQuantity now s)
  then have "t \<le> now" using legal by simp
  from book_total_spec [OF ok this, of s] show ?thesis
    using run TotalQuantity by (auto simp: map_call_def same_frame_def ref_open_orders_def)
next
  case (BestPrice now s)
  then have "t \<le> now" using legal by simp
  from book_best_spec [OF ok this, of s] show ?thesis
    using run BestPrice by (auto simp: map_call_def same_frame_def ref_open_orders_def)
next
  case (RecentTrades limit)
  then show ?thesis using run ok by (auto simp: map_call_def map_ref_def book_recent_spec)
qed

text \<open>The callbacks of a call, with the order that a cancel takes out, are the change of the index.\<close>

fun canceled_ids :: "book_call \<Rightarrow> uuid set" where
  "canceled_ids (Cancel now oid) = {oid}"
| "canceled_ids c = {}"

lemma book_do_track:
  assumes ok: "book_ok t b" and legal: "call_legal t b c" and run: "book_do c b = (b', ev, res)"
  shows "open_ids b' = track ev (open_ids b) - canceled_ids c"
proof (cases c)
  case (Submit env ord)
  show ?thesis
  proof (cases "order_symbol ord = bk_symbol b")
    case True
    from Submit legal have l: "t \<le> expire_clock env" "expire_clock env \<le> rest_clock env" "0 < quantity ord"
      "order_id ord \<notin> open_ids b" by (simp_all add: valid_order_def)
    from book_submit_spec [OF ok l(1,2) True l(3,4)] show ?thesis
      using run Submit by (auto simp: map_call_def)
  next
    case False
    then show ?thesis using run Submit book_submit_wrong_symbol [OF False, of env] by (auto simp: map_call_def)
  qed
next
  case (Cancel now oid)
  then show ?thesis using run legal book_cancel_spec [OF ok, of now oid] by (auto simp: map_call_def)
next
  case (GetOpen now oid)
  then show ?thesis using run legal book_get_spec [OF ok, of now oid] by (auto simp: map_call_def)
next
  case (OpenOrders now s)
  then show ?thesis using run legal book_open_orders_spec [OF ok, of now s] by (auto simp: map_call_def)
next
  case (Snapshot now)
  then show ?thesis using run legal book_snapshot_spec [OF ok, of now] by (auto simp: map_call_def)
next
  case (TotalQuantity now s)
  then show ?thesis using run legal book_total_spec [OF ok, of now s] by (auto simp: map_call_def)
next
  case (BestPrice now s)
  then show ?thesis using run legal book_best_spec [OF ok, of now s] by (auto simp: map_call_def)
next
  case (RecentTrades limit)
  then show ?thesis using run by (auto simp: map_call_def)
qed

section \<open>Reachable books\<close>

inductive reachable :: "symbol \<Rightarrow> int \<Rightarrow> seconds \<Rightarrow> seconds \<Rightarrow> book \<Rightarrow> bool"
  for sy :: symbol and cap :: int and age :: seconds where
  init: "make_book sy cap age = Inr b \<Longrightarrow> reachable sy cap age t b"
| call: "reachable sy cap age t b \<Longrightarrow> call_legal t b c \<Longrightarrow> book_do c b = (b', ev, res) \<Longrightarrow>
         reachable sy cap age (call_end t c) b'"

lemma abs_at_ok: "ref_ok (abs_book b) \<Longrightarrow> ref_ok (abs_at now b)"
  by (erule ref_ok_sub [where f = "\<lambda>r. as_open_order (bk_store b r)" and rs = "live_refs b" and P = "\<lambda>_. fresh_at now b"])
    (simp_all add: abs_at_def open_of_def)

lemma ref_do_ok:
  assumes "ref_ok b" "ref_do c b = (b', res)" "\<And>env ord. c = Submit env ord \<Longrightarrow> 0 < quantity ord"
  shows "ref_ok b'"
proof (cases c)
  case (Submit env ord)
  obtain b2 r where run: "ref_submit (stamps env) ord b = (b2, r)" by fastforce
  with Submit assms(2) have b': "b' = b2" by (simp add: map_ref_def)
  show ?thesis
  proof (cases r)
    case (Inl e)
    then have "b2 = b" using run by (auto simp: ref_submit_def Let_def split: if_splits prod.splits)
    then show ?thesis using assms(1) b' by simp
  next
    case (Inr x)
    then show ?thesis using ref_submit_ok [OF assms(1) assms(3) [OF Submit]] run b' by blast
  qed
next
  case (Cancel now oid)
  then show ?thesis
    using assms(1,2) ref_cancel_ok(1) [OF assms(1), of oid]
    by (cases "ref_cancel oid b") (auto simp: map_ref_def)
qed (use assms(1,2) in \<open>auto simp: map_ref_def\<close>)

text \<open>Every reachable book satisfies the invariants of both levels.\<close>

lemma reachable_ok:
  "reachable sy cap age t b \<Longrightarrow> book_ok t b \<and> ref_ok (abs_book b) \<and> bk_symbol b = sy \<and> bk_max_age b = age"
proof (induction rule: reachable.induct)
  case (init b t)
  then have "rb_side (abs_book b) s = []" for s using make_book_spec(6) [OF init] by simp
  then have "rb_bids (abs_book b) = []" "ref_ok (abs_book b)"
    by (auto simp: ref_ok_def side_list_ok_def uncrossed_side [where s = BUY])
  then show ?case using make_book_spec [OF init] by simp
next
  case (call t b c b' ev res)
  then have ok: "book_ok t b" "ref_ok (abs_book b)" by simp_all
  note spec = book_do_spec [OF ok(1) call.hyps(2,3)]
  have "ref_ok (if refused b c then abs_book b else abs_at (call_start t c) b)"
    using ok(2) abs_at_ok by simp
  moreover have "0 < quantity ord" if "c = Submit env ord" for env ord
    using call.hyps(2) that by (simp add: valid_order_def)
  ultimately have "ref_ok (abs_book b')" using spec ref_do_ok by blast
  then show ?case using spec call by simp
qed

text \<open>An internal exception of the Python code, as against one it raises on purpose.\<close>

definition internal_error :: "py_error \<Rightarrow> bool" where
  "internal_error e \<longleftrightarrow> e = KeyError \<or> e = IndexError"

lemma ref_do_errors: "ref_do c b = (b', Inl e) \<Longrightarrow> \<not> internal_error e"
  by (cases c) (auto simp: map_ref_def ref_submit_def ref_cancel_def ref_recent_trades_def internal_error_def
      ebind_def Let_def split: if_splits option.splits prod.splits)

section \<open>The contract of a limit order book\<close>

text \<open>Runs of calls, for any implementation, and the calls' legality along a run.\<close>

fun run_calls :: "('c \<Rightarrow> 'b \<Rightarrow> 'b \<times> 'r) \<Rightarrow> 'c list \<Rightarrow> 'b \<Rightarrow> 'b \<times> 'r list" where
  "run_calls f [] b = (b, [])"
| "run_calls f (c # cs) b =
     (let (b, r) = f c b; (b, rs) = run_calls f cs b in (b, r # rs))"

fun run_legal :: "('c \<Rightarrow> 'b \<Rightarrow> 'b \<times> 'r) \<Rightarrow> ('b \<Rightarrow> 'c \<Rightarrow> bool) \<Rightarrow> 'c list \<Rightarrow> 'b \<Rightarrow> bool" where
  "run_legal f legal [] b \<longleftrightarrow> True"
| "run_legal f legal (c # cs) b \<longleftrightarrow> legal b c \<and> run_legal f legal cs (fst (f c b))"

locale limit_order_book =
  fixes ok :: "'b \<Rightarrow> bool" and view :: "'b \<Rightarrow> ref_book"
    and do :: "book_call \<Rightarrow> 'b \<Rightarrow> 'b \<times> (py_error + outcome)" and legal :: "'b \<Rightarrow> book_call \<Rightarrow> bool"
  assumes step: "ok b \<Longrightarrow> legal b c \<Longrightarrow> do c b = (b', r) \<Longrightarrow> ok b' \<and> ref_do c (view b) = (view b', r)"
    and positive: "legal b (Submit env ord) \<Longrightarrow> 0 < quantity ord"
begin

lemma run_refines:
  "ok b \<Longrightarrow> run_legal do legal cs b \<Longrightarrow> run_calls do cs b = (b', rs) \<Longrightarrow>
   ok b' \<and> run_calls ref_do cs (view b) = (view b', rs)"
proof (induction cs arbitrary: b rs)
  case (Cons c cs)
  obtain b1 r where c: "do c b = (b1, r)" by fastforce
  obtain rs1 where rs: "run_calls do cs b1 = (b', rs1)" "rs = r # rs1"
    using Cons.prems(3) c by (auto split: prod.splits)
  have s: "ok b1" "ref_do c (view b) = (view b1, r)" using step [of b c] Cons.prems(1,2) c by auto
  then show ?case using Cons.IH [OF s(1) _ rs(1)] Cons.prems(2) c rs(2) by simp
qed simp

lemma run_keeps_order:
  "ok b \<Longrightarrow> ref_ok (view b) \<Longrightarrow> run_legal do legal cs b \<Longrightarrow> ref_ok (view (fst (run_calls do cs b)))"
proof (induction cs arbitrary: b)
  case (Cons c cs)
  obtain b1 r where c: "do c b = (b1, r)" by fastforce
  have s: "ok b1" "ref_do c (view b) = (view b1, r)" using step [of b c] Cons.prems(1,3) c by auto
  have "ref_ok (view b1)" using ref_do_ok [OF Cons.prems(2) s(2)] positive Cons.prems(3) by auto
  then have "ref_ok (view (fst (run_calls do cs b1)))" using Cons.IH [OF s(1)] Cons.prems(3) c by simp
  then show ?case using c by (cases "run_calls do cs b1") simp
qed simp

lemma run_same_results:
  assumes "ok b" "run_legal do legal cs b"
  shows "snd (run_calls do cs b) = snd (run_calls ref_do cs (view b))"
  using run_refines [OF assms] by (metis prod.collapse snd_conv)

end

text \<open>
  The production book without expiry, the configuration of the repository's differential
  test. Its state is paired with the latest clock reading, and its callbacks are left out.
\<close>

definition prod_do :: "book_call \<Rightarrow> seconds \<times> book \<Rightarrow> (seconds \<times> book) \<times> (py_error + outcome)" where
  "prod_do c tb = (let (t, b) = tb; (b, ev, r) = book_do c b in ((call_end t c, b), r))"

definition prod_legal :: "seconds \<times> book \<Rightarrow> book_call \<Rightarrow> bool" where
  "prod_legal tb c \<longleftrightarrow> call_legal (fst tb) (snd tb) c"

definition prod_ok :: "seconds \<times> book \<Rightarrow> bool" where
  "prod_ok tb \<longleftrightarrow> book_ok (fst tb) (snd tb) \<and> bk_max_age (snd tb) = 0"

lemma abs_at_no_expiry: "bk_max_age b = 0 \<Longrightarrow> abs_at now b = abs_book b"
  by (simp add: abs_at_def abs_book_def abs_sides_def fresh_at_def)

interpretation production: limit_order_book prod_ok "\<lambda>tb. abs_book (snd tb)" prod_do prod_legal
proof unfold_locales
  fix tb c tb' r
  assume ok: "prod_ok tb" and legal: "prod_legal tb c" and run: "prod_do c tb = (tb', r)"
  obtain b' ev where d: "book_do c (snd tb) = (b', ev, r)" "tb' = (call_end (fst tb) c, b')"
    using run by (auto simp: prod_do_def split: prod.splits)
  have spec: "book_ok (call_end (fst tb) c) b'
    \<and> ref_do c (if refused (snd tb) c then abs_book (snd tb) else abs_at (call_start (fst tb) c) (snd tb)) = (abs_book b', r)
    \<and> bk_symbol b' = bk_symbol (snd tb) \<and> bk_max_age b' = bk_max_age (snd tb)"
    by (rule book_do_spec [OF _ _ d(1)]) (use ok legal in \<open>simp_all add: prod_ok_def prod_legal_def\<close>)
  have "(if refused (snd tb) c then abs_book (snd tb) else abs_at (call_start (fst tb) c) (snd tb)) = abs_book (snd tb)"
    using ok by (simp add: prod_ok_def abs_at_no_expiry)
  with spec show "prod_ok tb' \<and> ref_do c (abs_book (snd tb)) = (abs_book (snd tb'), r)"
    using ok d(2) by (simp add: prod_ok_def)
next
  show "prod_legal b (Submit env ord) \<Longrightarrow> 0 < quantity ord" for b env ord
    by (simp add: prod_legal_def valid_order_def)
qed

text \<open>The reference book satisfies its own contract.\<close>

definition ref_legal :: "ref_book \<Rightarrow> book_call \<Rightarrow> bool" where
  "ref_legal b c = (case c of Submit env ord \<Rightarrow> valid_order ord | _ \<Rightarrow> True)"

interpretation reference: limit_order_book "\<lambda>_. True" "\<lambda>b. b" ref_do ref_legal
  by unfold_locales (auto simp: ref_legal_def valid_order_def)

end
