(* ===== verification/Book_Properties.thy ===== *)
theory Book_Properties
  imports Book_Machine
begin

text \<open>
  The properties of the order book, each with a witness that applies it to \<open>demo_book\<close>: a
  book with a maximal age of two minutes in which two sell orders rest.
\<close>

section \<open>A concrete book\<close>

definition demo_order :: "order_side \<Rightarrow> int \<Rightarrow> int \<Rightarrow> uuid \<Rightarrow> order" where
  "demo_order s p q i = \<lparr>user_id = ''trader'', order_symbol = ''005930'', side = s, price = p,
     quantity = q, order_id = i\<rparr>"

definition demo_env :: "seconds \<Rightarrow> submit_env" where
  "demo_env t = \<lparr>expire_clock = t, rest_clock = t, stamps = (\<lambda>i. \<lparr>stamp_id = i, stamp_time = t\<rparr>)\<rparr>"

definition demo_empty :: "seconds \<Rightarrow> book" where
  "demo_empty age = \<lparr>bk_symbol = ''005930'', bk_sides = new_side, bk_index = [], bk_recent = [],
     bk_capacity = 200, bk_sequence = 0, bk_max_age = age, bk_arrivals = [],
     bk_expired = 0, bk_store = (\<lambda>_. no_entry), bk_next = 0\<rparr>"

definition demo_book1 :: book where
  "demo_book1 = fst (book_submit (demo_env 0) (demo_order SELL 100 5 1) (demo_empty 0))"

definition demo_book :: book where
  "demo_book = fst (book_submit (demo_env 1) (demo_order SELL 101 5 2) demo_book1)"

lemma blank_demo [simp]: "\<not> blank ''trader''" "\<not> blank ''005930''"
  by code_simp+

lemma demo_empty_make: "0 \<le> age \<Longrightarrow> make_book ''005930'' 200 age = Inr (demo_empty age)"
  by (simp add: make_book_def demo_empty_def)

lemma demo_order_valid [simp]: "valid_order (demo_order s p q i) \<longleftrightarrow> 0 < p \<and> 0 < q"
  by (simp add: valid_order_def demo_order_def)

lemma demo_sel [simp]:
  "order_symbol (demo_order s p q i) = ''005930''" "order_id (demo_order s p q i) = i"
  "side (demo_order s p q i) = s" "price (demo_order s p q i) = p" "quantity (demo_order s p q i) = q"
  "expire_clock (demo_env t) = t" "rest_clock (demo_env t) = t"
  by (simp_all add: demo_order_def demo_env_def)

lemma reachable_submit:
  assumes "reachable sy cap age t b" "call_legal t b (Submit env ord)"
  shows "reachable sy cap age (rest_clock env) (fst (book_submit env ord b))"
  using reachable.call [OF assms, of "fst (book_submit env ord b)"]
  by (cases "book_submit env ord b") (simp add: map_call_def)

lemma submit_abs:
  assumes "reachable ''005930'' cap 0 t b" "call_legal t b (Submit (demo_env now) (demo_order s p q i))"
    and "fst (ref_submit (stamps (demo_env now)) (demo_order s p q i) (abs_book b)) = rb"
  shows "abs_book (fst (book_submit (demo_env now) (demo_order s p q i) b)) = rb"
    and "open_ids (fst (book_submit (demo_env now) (demo_order s p q i) b)) \<subseteq> insert i (open_ids b)"
proof -
  have ok: "book_ok t b" "bk_symbol b = ''005930''" "bk_max_age b = 0" using reachable_ok [OF assms(1)] by simp_all
  from book_submit_spec [OF ok(1), where env = "demo_env now" and ord = "demo_order s p q i"] assms(2,3) ok(2)
    abs_at_no_expiry [OF ok(3)]
  show "abs_book (fst (book_submit (demo_env now) (demo_order s p q i) b)) = rb"
    and "open_ids (fst (book_submit (demo_env now) (demo_order s p q i) b)) \<subseteq> insert i (open_ids b)"
    by auto
qed

lemma demo1:
  "reachable ''005930'' 200 0 0 demo_book1" "open_ids demo_book1 \<subseteq> {1}"
  "abs_book demo_book1 = fst (ref_submit (stamps (demo_env 0)) (demo_order SELL 100 5 1) (abs_book (demo_empty 0)))"
proof -
  note e = make_book_spec [OF demo_empty_make [of 0]]
  have r: "reachable ''005930'' 200 0 0 (demo_empty 0)" by (rule reachable.init) (simp add: demo_empty_make)
  have l: "call_legal 0 (demo_empty 0) (Submit (demo_env 0) (demo_order SELL 100 5 1))" using e(2) by simp
  show "reachable ''005930'' 200 0 0 demo_book1" using reachable_submit [OF r l] by (simp add: demo_book1_def)
  show "open_ids demo_book1 \<subseteq> {1}" using submit_abs(2) [OF r l refl] e(2) by (simp add: demo_book1_def)
  show "abs_book demo_book1 = fst (ref_submit (stamps (demo_env 0)) (demo_order SELL 100 5 1) (abs_book (demo_empty 0)))"
    using submit_abs(1) [OF r l refl] by (simp add: demo_book1_def)
qed

lemma demo_reachable: "reachable ''005930'' 200 0 1 demo_book"
  and demo_ids: "open_ids demo_book \<subseteq> {1, 2}"
  and demo_abs: "abs_book demo_book = fst (ref_submit (stamps (demo_env 1)) (demo_order SELL 101 5 2) (abs_book demo_book1))"
proof -
  have l: "call_legal 0 demo_book1 (Submit (demo_env 1) (demo_order SELL 101 5 2))" using demo1(2) by auto
  show "reachable ''005930'' 200 0 1 demo_book" using reachable_submit [OF demo1(1) l] by (simp add: demo_book_def)
  show "open_ids demo_book \<subseteq> {1, 2}" using submit_abs(2) [OF demo1(1) l refl] demo1(2) by (auto simp: demo_book_def)
  show "abs_book demo_book = fst (ref_submit (stamps (demo_env 1)) (demo_order SELL 101 5 2) (abs_book demo_book1))"
    using submit_abs(1) [OF demo1(1) l refl] by (simp add: demo_book_def)
qed

definition demo_view :: ref_book where
  "demo_view = \<lparr>rb_symbol = ''005930'', rb_bids = [], rb_asks =
     [\<lparr>oo_order = demo_order SELL 100 5 1, oo_remaining = 5, oo_sequence = 1\<rparr>,
      \<lparr>oo_order = demo_order SELL 101 5 2, oo_remaining = 5, oo_sequence = 2\<rparr>],
     rb_recent = [], rb_capacity = 200, rb_sequence = 2\<rparr>"

lemma demo_eval: "abs_book demo_book = demo_view"
proof -
  have e: "abs_book (demo_empty 0) = \<lparr>rb_symbol = ''005930'', rb_bids = [], rb_asks = [], rb_recent = [],
      rb_capacity = 200, rb_sequence = 0\<rparr>"
    using make_book_spec(5) [OF demo_empty_make [of 0]] by (simp add: make_ref_book_def)
  show ?thesis unfolding demo_abs demo1(3) e by code_simp
qed

lemma demo_now: "abs_at now demo_book = demo_view"
  using reachable_ok [OF demo_reachable] abs_at_no_expiry demo_eval by simp

lemma demo_facts: "book_ok 1 demo_book" "ref_ok (abs_book demo_book)" "bk_symbol demo_book = ''005930''"
  using reachable_ok [OF demo_reachable] by simp_all

lemma demo_legal: "1 \<le> t \<Longrightarrow> 0 < p \<Longrightarrow> 0 < q \<Longrightarrow> call_legal 1 demo_book (Submit (demo_env t) (demo_order s p q 3))"
  using demo_ids by auto

section \<open>Refinement and safety\<close>

text \<open>C1: every legal call on a reachable production book (price levels, lazily deleted queue
  entries, index, running totals) returns what the list-based reference book returns on the
  same open orders less those that are too old, and leaves a reachable book that stands for
  the reference book after the call.\<close>

theorem calls_implement_reference:
  assumes "reachable sy cap age t b" "call_legal t b c" "book_do c b = (b', ev, res)"
  shows "ref_do c (if refused b c then abs_book b else abs_at (call_start t c) b) = (abs_book b', res)
    \<and> reachable sy cap age (call_end t c) b'"
  using book_do_spec [OF _ assms(2,3)] reachable_ok [OF assms(1)] reachable.call [OF assms] by blast

lemma calls_implement_reference_witness:
  "\<exists>b' ev res. ref_do (Submit (demo_env 2) (demo_order BUY 101 7 3)) demo_view = (abs_book b', res)
    \<and> reachable ''005930'' 200 0 2 b'"
proof -
  let ?c = "Submit (demo_env 2) (demo_order BUY 101 7 3)"
  obtain b' ev res where d: "book_do ?c demo_book = (b', ev, res)" by (cases "book_do ?c demo_book") auto
  have "\<not> refused demo_book ?c" by (simp add: demo_facts)
  then show ?thesis using calls_implement_reference [OF demo_reachable demo_legal d] by (auto simp: demo_now)
qed

text \<open>C2: no call on a reachable book fails with an internal error: no price level is looked up
  that does not exist, and no empty queue is popped.\<close>

theorem no_internal_error:
  assumes "reachable sy cap age t b" "call_legal t b c" "book_do c b = (b', ev, Inl e)"
  shows "\<not> internal_error e"
  using book_do_spec [OF _ assms(2,3)] reachable_ok [OF assms(1)] ref_do_errors by blast

lemma no_internal_error_witness:
  "\<exists>e. snd (snd (book_do (Cancel 2 9) demo_book)) = Inl e \<and> \<not> internal_error e"
proof -
  obtain b' ev r where d: "book_do (Cancel 2 9) demo_book = (b', ev, r)" by (cases "book_do (Cancel 2 9) demo_book") auto
  have "ref_do (Cancel 2 9) demo_view = (abs_book b', r)"
    using book_do_spec [OF demo_facts(1) _ d] by (simp add: demo_now)
  moreover have "snd (ref_do (Cancel 2 9) demo_view) = Inl (OrderNotFoundError 9)" by code_simp
  ultimately have r: "r = Inl (OrderNotFoundError 9)" by simp
  show ?thesis using no_internal_error [OF demo_reachable _ d [unfolded r]] d r by auto
qed

text \<open>C3: a reachable book is never crossed and its lists are in strict price-time order: every
  bid is below every ask, and on each side a better price, then an earlier arrival, comes
  first; every listed order has something left.\<close>

theorem book_never_crossed:
  assumes "reachable sy cap age t b"
  shows "(\<forall>x\<in>set (rb_side (abs_book b) BUY). \<forall>y\<in>set (rb_side (abs_book b) SELL). price (oo_order x) < price (oo_order y))
    \<and> (\<forall>s. sorted_wrt (\<lambda>x y. oo_key s x < oo_key s y) (rb_side (abs_book b) s))
    \<and> (\<forall>s. \<forall>x\<in>set (rb_side (abs_book b) s). side (oo_order x) = s \<and> 0 < oo_remaining x)"
  using reachable_ok [OF assms]
  by (auto simp: ref_ok_def uncrossed_def side_list_ok_def rb_side_def split: order_side.splits)

lemma book_never_crossed_witness:
  "sorted_wrt (\<lambda>x y. oo_key SELL x < oo_key SELL y) (rb_side demo_view SELL)"
  using book_never_crossed [OF demo_reachable] unfolding demo_eval by blast

section \<open>Matching\<close>

lemma submit_to_ref:
  assumes "reachable sy cap age t b" "call_legal t b (Submit env ord)"
    and "book_submit env ord b = (b', ev, Inr r)"
  shows "ref_ok (abs_at (expire_clock env) b) \<and> 0 < quantity ord
    \<and> ref_submit (stamps env) ord (abs_at (expire_clock env) b) = (abs_book b', Inr r)"
proof -
  have ok: "book_ok t b" "ref_ok (abs_book b)" using reachable_ok [OF assms(1)] by simp_all
  have sy: "order_symbol ord = bk_symbol b" using assms(3) book_submit_wrong_symbol by fastforce
  have l: "t \<le> expire_clock env" "expire_clock env \<le> rest_clock env" "0 < quantity ord" "order_id ord \<notin> open_ids b"
    using assms(2) by (simp_all add: valid_order_def)
  show ?thesis using book_submit_spec [OF ok(1) l(1,2) sy l(3,4)] assms(3) abs_at_ok [OF ok(2)] l(3) by auto
qed

text \<open>C4: price-time priority. The trades of a submission meet the first orders of the opposing
  side as \<open>open_orders\<close> lists them, one trade each and in that order, at the resting order's
  price; each of those orders crosses the incoming one, and all but the last are filled.\<close>

theorem submit_price_time_priority:
  assumes "reachable sy cap age t b" "call_legal t b (Submit env ord)"
    and "book_submit env ord b = (b', ev, Inr r)"
    and "opp = rb_side (abs_at (expire_clock env) b) (opposite (side ord))" "k = length (result_trades r)"
  shows "map (maker_id ord) (result_trades r) = map (order_id \<circ> oo_order) (take k opp)
    \<and> map trade_price (result_trades r) = map (price \<circ> oo_order) (take k opp)
    \<and> k \<le> length opp
    \<and> (\<forall>i<k. crosses ord (oo_order (opp ! i)) \<and> 0 < trade_quantity (result_trades r ! i)
          \<and> trade_quantity (result_trades r ! i) \<le> oo_remaining (opp ! i)
          \<and> (Suc i < k \<longrightarrow> trade_quantity (result_trades r ! i) = oo_remaining (opp ! i)))"
proof -
  from submit_to_ref [OF assms(1-3)] have h: "ref_ok (abs_at (expire_clock env) b)" "0 < quantity ord"
    "ref_submit (stamps env) ord (abs_at (expire_clock env) b) = (abs_book b', Inr r)" by blast+
  note laws = ref_submit_trades [OF h]
  show ?thesis unfolding assms(4,5) using laws by blast
qed

definition demo_result :: match_result where
  "demo_result = \<lparr>result_order_id = 3,
     result_trades = [make_trade ''005930'' (demo_order BUY 101 7 3) (demo_order SELL 100 5 1) 5 \<lparr>stamp_id = 0, stamp_time = 2\<rparr>,
                      make_trade ''005930'' (demo_order BUY 101 7 3) (demo_order SELL 101 5 2) 2 \<lparr>stamp_id = 1, stamp_time = 2\<rparr>],
     result_remaining = 0\<rparr>"

lemma demo_submit:
  obtains b' ev where "book_submit (demo_env 2) (demo_order BUY 101 7 3) demo_book = (b', ev, Inr demo_result)"
proof -
  have "3 \<notin> open_ids demo_book" using demo_ids by auto
  with book_submit_spec [OF demo_facts(1), where env = "demo_env 2" and ord = "demo_order BUY 101 7 3"]
  obtain b' ev r where d: "book_submit (demo_env 2) (demo_order BUY 101 7 3) demo_book = (b', ev, Inr r)"
    "ref_submit (stamps (demo_env 2)) (demo_order BUY 101 7 3) demo_view = (abs_book b', Inr r)"
    by (auto simp: demo_now demo_facts(3))
  moreover have "snd (ref_submit (stamps (demo_env 2)) (demo_order BUY 101 7 3) demo_view) = Inr demo_result"
    by code_simp
  ultimately show ?thesis using that by simp
qed

lemma submit_price_time_priority_witness:
  "map (maker_id (demo_order BUY 101 7 3)) (result_trades demo_result)
     = map (order_id \<circ> oo_order) (take 2 (rb_side demo_view SELL))"
proof -
  obtain b' ev where d: "book_submit (demo_env 2) (demo_order BUY 101 7 3) demo_book = (b', ev, Inr demo_result)"
    by (rule demo_submit)
  have "length (result_trades demo_result) = 2" by (simp add: demo_result_def)
  then show ?thesis
    using submit_price_time_priority [OF demo_reachable demo_legal d refl refl] by (simp add: demo_now)
qed

text \<open>C5: a submission fills as much as the crossing orders of the opposing side hold, and what
  it could not fill is what remains: nothing rests that could have traded.\<close>

theorem submit_fills_all_it_can:
  assumes "reachable sy cap age t b" "call_legal t b (Submit env ord)"
    and "book_submit env ord b = (b', ev, Inr r)"
  shows "result_remaining r = max 0 (quantity ord -
      qty_sum (filter (\<lambda>x. crosses ord (oo_order x)) (rb_side (abs_at (expire_clock env) b) (opposite (side ord)))))"
proof -
  from submit_to_ref [OF assms] have h: "ref_ok (abs_at (expire_clock env) b)" "0 < quantity ord"
    "ref_submit (stamps env) ord (abs_at (expire_clock env) b) = (abs_book b', Inr r)" by blast+
  show ?thesis by (rule ref_submit_unfold [OF h])
qed

lemma submit_fills_all_it_can_witness:
  "0 = max 0 (7 - qty_sum (filter (\<lambda>x. crosses (demo_order BUY 101 7 3) (oo_order x)) (rb_side demo_view SELL)))"
proof -
  obtain b' ev where d: "book_submit (demo_env 2) (demo_order BUY 101 7 3) demo_book = (b', ev, Inr demo_result)"
    by (rule demo_submit)
  show ?thesis using submit_fills_all_it_can [OF demo_reachable demo_legal d] by (simp add: demo_result_def demo_now)
qed

text \<open>C6: conservation. What a submission trades and what it leaves add up to the order's
  quantity; the opposing side loses what was traded and the order's own side gains what rests.\<close>

theorem submit_conserves_quantity:
  assumes "reachable sy cap age t b" "call_legal t b (Submit env ord)"
    and "book_submit env ord b = (b', ev, Inr r)"
  shows "traded (result_trades r) + result_remaining r = quantity ord
    \<and> qty_sum (rb_side (abs_book b') (opposite (side ord)))
        = qty_sum (rb_side (abs_at (expire_clock env) b) (opposite (side ord))) - traded (result_trades r)
    \<and> qty_sum (rb_side (abs_book b') (side ord))
        = qty_sum (rb_side (abs_at (expire_clock env) b) (side ord)) + result_remaining r"
proof -
  from submit_to_ref [OF assms] have h: "ref_ok (abs_at (expire_clock env) b)" "0 < quantity ord"
    "ref_submit (stamps env) ord (abs_at (expire_clock env) b) = (abs_book b', Inr r)" by blast+
  show ?thesis using ref_submit_conserves [OF h] by blast
qed

lemma submit_conserves_quantity_witness:
  "traded (result_trades demo_result) + result_remaining demo_result = 7"
proof -
  obtain b' ev where d: "book_submit (demo_env 2) (demo_order BUY 101 7 3) demo_book = (b', ev, Inr demo_result)"
    by (rule demo_submit)
  show ?thesis using submit_conserves_quantity [OF demo_reachable demo_legal d] by simp
qed

section \<open>Runs, expiry, cancels, callbacks\<close>

text \<open>C7: without expiry the production book and the reference book are indistinguishable: any
  sequence of legal calls on two new books returns the same results, errors included.\<close>

theorem production_runs_like_reference:
  assumes "make_book sy cap 0 = Inr b" "make_ref_book sy cap = Inr rb"
    and "run_legal prod_do prod_legal cs (t, b)"
  shows "snd (run_calls prod_do cs (t, b)) = snd (run_calls ref_do cs rb)"
proof -
  note m = make_book_spec [OF assms(1)]
  have "prod_ok (t, b)" using m(1) [of t] m(4) by (simp add: prod_ok_def)
  moreover have "abs_book b = rb" using m(5) assms(2) by simp
  ultimately show ?thesis using production.run_same_results [OF _ assms(3)] by simp
qed

definition demo_calls :: "book_call list" where
  "demo_calls = [Submit (demo_env 0) (demo_order SELL 100 5 1), Submit (demo_env 1) (demo_order SELL 101 5 2),
     Cancel 2 1, Cancel 3 1, Snapshot 4]"

lemma production_runs_like_reference_witness:
  "snd (run_calls prod_do demo_calls (0, demo_empty 0))
     = snd (run_calls ref_do demo_calls \<lparr>rb_symbol = ''005930'', rb_bids = [], rb_asks = [], rb_recent = [],
              rb_capacity = 200, rb_sequence = 0\<rparr>)"
proof (rule production_runs_like_reference)
  show "make_book ''005930'' 200 0 = Inr (demo_empty 0)" by (simp add: demo_empty_make)
  show "make_ref_book ''005930'' 200 = Inr \<lparr>rb_symbol = ''005930'', rb_bids = [], rb_asks = [], rb_recent = [],
              rb_capacity = 200, rb_sequence = 0\<rparr>" by (simp add: make_ref_book_def)
  have s1: "fst (prod_do (Submit (demo_env 0) (demo_order SELL 100 5 1)) (0, demo_empty 0)) = (0, demo_book1)"
    by (simp add: prod_do_def map_call_def demo_book1_def split: prod.splits)
  have s2: "fst (prod_do (Submit (demo_env 1) (demo_order SELL 101 5 2)) (0, demo_book1)) = (1, demo_book)"
    by (simp add: prod_do_def map_call_def demo_book_def split: prod.splits)
  have "2 \<notin> open_ids demo_book1" "1 \<notin> open_ids (demo_empty 0)"
    using demo1(2) by (auto simp: open_ids_def demo_empty_def)
  then show "run_legal prod_do prod_legal demo_calls (0, demo_empty 0)"
    unfolding demo_calls_def run_legal.simps s1 s2
    by (simp add: prod_legal_def prod_do_def split: prod.splits)
qed

lemma track_expired: "track (map (\<lambda>oid. Closed oid Expired) oids) S = S - set oids"
  by (induction oids arbitrary: S) auto


definition demo_old :: book where
  "demo_old = fst (book_submit (demo_env 0) (demo_order SELL 100 5 1) (demo_empty 120))"

lemma demo_old_reachable: "reachable ''005930'' 200 120 0 demo_old"
  unfolding demo_old_def
  using reachable_submit [OF reachable.init [OF demo_empty_make [of 120]], where t = 0 and env = "demo_env 0"
      and ord = "demo_order SELL 100 5 1"] make_book_spec(2) [OF demo_empty_make [of 120]] by simp


text \<open>C9: a cancel gives back the open order with its unfilled quantity and removes that order and
  nothing else; a second cancel of it, at any later time, raises \<open>OrderNotFoundError\<close>.\<close>

theorem cancel_removes_once:
  assumes "reachable sy cap age t b" "t \<le> now" "now \<le> now'"
    and "book_cancel now oid b = (b', ev, Inr x)"
  shows "order_id (oo_order x) = oid
    \<and> x \<in> set (rb_side (abs_at now b) (side (oo_order x)))
    \<and> (\<forall>s. rb_side (abs_book b') s = filter (\<lambda>y. y \<noteq> x) (rb_side (abs_at now b) s))
    \<and> snd (snd (book_cancel now' oid b')) = Inl (OrderNotFoundError oid)"
proof -
  have ok: "book_ok t b" "ref_ok (abs_book b)" using reachable_ok [OF assms(1)] by simp_all
  from book_cancel_spec [OF ok(1) assms(2), of oid] assms(4)
  have b': "book_ok now b'" "ref_cancel oid (abs_at now b) = (abs_book b', Inr x)" "oid \<notin> open_ids b'" by auto
  note gone = ref_cancel_ok [OF abs_at_ok [OF ok(2)] b'(2)]
  obtain b2 ev2 res where c2: "book_cancel now' oid b' = (b2, ev2, res)" "ref_cancel oid (abs_at now' b') = (abs_book b2, res)"
    using book_cancel_spec [OF b'(1) assms(3), of oid] by blast
  note gone2 = ref_cancel_ok [OF abs_at_ok [OF gone(1)] c2(2)]
  have "res = Inl (OrderNotFoundError oid)"
  proof (cases res)
    case (Inl e)
    then show ?thesis using gone2(3) by blast
  next
    case (Inr y)
    from gone2(2) [OF this] have y: "order_id (oo_order y) = oid" "y \<in> set (rb_side (abs_at now' b') (side (oo_order y)))" by auto
    from y(2) obtain r where r: "r \<in> set (live_refs b' (side (oo_order y)))" "y = as_open_order (bk_store b' r)"
      by (auto simp: abs_at_def open_of_def)
    have "oo_order y = e_order (bk_store b' r)" unfolding r(2) by (simp add: as_open_order_def)
    then have "oid \<in> open_ids b'"
      using open_ids_iff [OF b'(1), of oid] mem_live_refs [OF b'(1)] r(1) y(1) by metis
    with b'(3) show ?thesis by simp
  qed
  then show ?thesis using gone(2) c2(1) by auto
qed

lemma cancel_removes_once_witness:
  "snd (snd (book_cancel 9 1 (fst (book_cancel 2 1 demo_book)))) = Inl (OrderNotFoundError 1)"
proof -
  obtain b' ev res where c: "book_cancel 2 1 demo_book = (b', ev, res)"
    "ref_cancel 1 demo_view = (abs_book b', res)"
    using book_cancel_spec [OF demo_facts(1), of 2 1] by (auto simp: demo_now)
  have "snd (ref_cancel 1 demo_view) = Inr \<lparr>oo_order = demo_order SELL 100 5 1, oo_remaining = 5, oo_sequence = 1\<rparr>"
    by code_simp
  with c have c1: "book_cancel 2 1 demo_book =
      (b', ev, Inr \<lparr>oo_order = demo_order SELL 100 5 1, oo_remaining = 5, oo_sequence = 1\<rparr>)" by simp
  have "(1::seconds) \<le> 2" "(2::seconds) \<le> 9" by simp_all
  from cancel_removes_once [OF demo_reachable this c1] show ?thesis using c1 by simp
qed

text \<open>C10: the callbacks are complete. Applying \<open>on_rest\<close> and \<open>on_close\<close> of a call, in order, to
  the identifiers that were open, and taking out a canceled one, gives the identifiers that
  are open after it.\<close>

theorem callbacks_track_open_orders:
  assumes "reachable sy cap age t b" "call_legal t b c" "book_do c b = (b', ev, res)"
  shows "open_ids b' = track ev (open_ids b) - canceled_ids c"
  using book_do_track [OF _ assms(2,3)] reachable_ok [OF assms(1)] by blast

lemma callbacks_track_open_orders_witness:
  "\<exists>b' ev res. book_do (Submit (demo_env 2) (demo_order BUY 101 7 3)) demo_book = (b', ev, res)
     \<and> open_ids b' = track ev (open_ids demo_book)"
proof -
  let ?c = "Submit (demo_env 2) (demo_order BUY 101 7 3)"
  obtain b' ev res where d: "book_do ?c demo_book = (b', ev, res)" by (cases "book_do ?c demo_book") auto
  then show ?thesis using callbacks_track_open_orders [OF demo_reachable demo_legal d] by auto
qed

text \<open>A snapshot lists each price once, bids from the highest and asks from the lowest, with
  positive quantities that add up to the side's running total; the best bid is below the
  best ask.\<close>

theorem snapshot_levels:
  assumes "reachable sy cap age t b" "t \<le> now" "book_snapshot_call now b = (b', ev, Inr sn)"
  shows "sorted_wrt (\<lambda>x y. level_price y < level_price x) (snap_bids sn)
    \<and> sorted_wrt (\<lambda>x y. level_price x < level_price y) (snap_asks sn)
    \<and> (\<forall>l\<in>set (snap_bids sn) \<union> set (snap_asks sn). 0 < level_quantity l)
    \<and> sum_list (map level_quantity (snap_bids sn)) = bs_total (bk_sides b' BUY)
    \<and> sum_list (map level_quantity (snap_asks sn)) = bs_total (bk_sides b' SELL)
    \<and> (\<forall>x\<in>set (snap_bids sn). \<forall>y\<in>set (snap_asks sn). level_price x < level_price y)"
proof -
  have ok: "book_ok t b" "ref_ok (abs_book b)" using reachable_ok [OF assms(1)] by simp_all
  obtain b1 ev1 where e: "book_expire now b = Inr (b1, ev1)" "book_ok now b1" "abs_book b1 = abs_at now b"
    using book_expire_spec [OF ok(1) assms(2)] by blast
  obtain bids asks where l: "book_levels (bk_sides b1 BUY) = Inr bids" "book_levels (bk_sides b1 SELL) = Inr asks"
    using book_levels_ref [OF e(2)] by blast
  from assms(3) e(1) l have eq: "b' = b1" "snap_bids sn = bids" "snap_asks sn = asks"
    by (auto simp: book_snapshot_call_def after_expiry_def)
  note B = book_levels_facts [OF book_okD(1) [OF e(2)] l(1)]
  note A = book_levels_facts [OF book_okD(1) [OF e(2)] l(2)]
  have "uncrossed (abs_book b1)" using abs_at_ok [OF ok(2)] e(3) by (simp add: ref_ok_def)
  then have u: "price (e_order (bk_store b1 r)) < price (e_order (bk_store b1 q))"
    if "r \<in> set (live_refs b1 BUY)" "q \<in> set (live_refs b1 SELL)" for r q
    using that by (auto simp: uncrossed_def open_of_def as_open_order_def)
  have "level_price x < level_price y" if "x \<in> set bids" "y \<in> set asks" for x y
    using B(2) [OF that(1)] A(2) [OF that(2)] u unfolding live_refs_def by fastforce
  then show ?thesis
    using B(1,3) A(1,3) B(2) A(2) by (auto simp: eq side_key_def)
qed

lemma snapshot_levels_witness:
  "\<exists>b' ev. book_snapshot_call 2 demo_book = (b', ev, Inr (ref_snapshot demo_view))
     \<and> sum_list (map level_quantity (snap_asks (ref_snapshot demo_view))) = bs_total (bk_sides b' SELL)"
proof -
  obtain b' ev where d: "book_snapshot_call 2 demo_book = (b', ev, Inr (ref_snapshot demo_view))"
    using book_snapshot_spec [OF demo_facts(1), of 2] by (auto simp: demo_now)
  have "(1::seconds) \<le> 2" by simp
  from snapshot_levels [OF demo_reachable this d] d show ?thesis by blast
qed

end
