(* ===== verification/Py_Urls.thy ===== *)
theory Py_Urls
  imports Py_Strings
begin

text \<open>
  The part of \<open>urllib.parse\<close> that the source uses: \<open>urlparse\<close> with the scheme, the host
  name, the user information and the path of its result, and \<open>urlunparse\<close> without
  parameters, query and fragment. The validation of a bracketed host (module \<open>ipaddress\<close>)
  is the argument \<open>ipv6\<close>.
\<close>

definition lower_char :: "char \<Rightarrow> char" where
  "lower_char c =
     (let n = (of_char c :: nat)
      in if 65 \<le> n \<and> n \<le> 90 \<or> 192 \<le> n \<and> n \<le> 222 \<and> n \<noteq> 215 then char_of (n + 32) else c)"

definition py_lower :: "string \<Rightarrow> string" where
  "py_lower s = map lower_char s"

definition ascii_alpha :: "char \<Rightarrow> bool" where
  "ascii_alpha c \<longleftrightarrow> (let n = (of_char c :: nat) in 65 \<le> n \<and> n \<le> 90 \<or> 97 \<le> n \<and> n \<le> 122)"

definition scheme_char :: "char \<Rightarrow> bool" where
  "scheme_char c \<longleftrightarrow> ascii_alpha c \<or> is_digit c \<or> c \<in> {CHR ''+'', CHR ''-'', CHR ''.''}"

text \<open>\<open>s.partition(c)\<close> and \<open>s.rpartition(c)\<close>: the part before, whether \<open>c\<close> occurs, the part after.\<close>

definition py_partition :: "string \<Rightarrow> char \<Rightarrow> string \<times> bool \<times> string" where
  "py_partition s c = (case py_find s c of None \<Rightarrow> (s, False, []) | Some i \<Rightarrow> (take i s, True, drop (Suc i) s))"

definition py_rpartition :: "string \<Rightarrow> char \<Rightarrow> string \<times> bool \<times> string" where
  "py_rpartition s c =
     (case py_find (rev s) c of
        None \<Rightarrow> ([], False, s)
      | Some i \<Rightarrow> (rev (drop (Suc i) (rev s)), True, rev (take i (rev s))))"

record url_parts =
  url_scheme :: string
  url_netloc :: string
  url_path :: string

definition clean_url :: "string \<Rightarrow> string" where
  "clean_url url =
     filter (\<lambda>c. (of_char c :: nat) \<notin> {9, 10, 13}) (dropWhile (\<lambda>c. (of_char c :: nat) \<le> 32) url)"

definition split_scheme :: "string \<Rightarrow> string \<times> string" where
  "split_scheme url =
     (case py_find url (CHR '':'') of
        Some (Suc i) \<Rightarrow>
          if ascii_alpha (hd url) \<and> list_all scheme_char (take (Suc i) url)
          then (py_lower (take (Suc i) url), drop (Suc (Suc i)) url) else ([], url)
      | _ \<Rightarrow> ([], url))"

definition split_netloc :: "string \<Rightarrow> string \<times> string" where
  "split_netloc url =
     (if py_startswith url ''//''
      then (let stop = (\<lambda>c. c \<in> {CHR ''/'', CHR ''?'', CHR ''#''});
                rest = drop 2 url
            in (takeWhile (\<lambda>c. \<not> stop c) rest, dropWhile (\<lambda>c. \<not> stop c) rest))
      else ([], url))"

text \<open>Parameters (\<open>;...\<close>) are cut off the last segment of the path, for the schemes that have them.\<close>

definition cut_params :: "string \<Rightarrow> string \<Rightarrow> string" where
  "cut_params scheme path =
     (if scheme \<notin> {'''', ''ftp'', ''hdl'', ''prospero'', ''http'', ''https'', ''imap'', ''rtsp'', ''rtsps'',
                    ''rtspu'', ''sip'', ''sips'', ''mms'', ''sftp'', ''tel''} then path
      else (let (front, slash, last) = py_rpartition path (CHR ''/'')
            in (if slash then front @ ''/'' else []) @ fst (py_partition last (CHR '';''))))"

definition urlparse :: "(string \<Rightarrow> bool) \<Rightarrow> string \<Rightarrow> py_error + url_parts" where
  "urlparse ipv6 url =
     (let (scheme, rest) = split_scheme (clean_url url);
          (netloc, rest) = split_netloc rest;
          opening = CHR ''['' \<in> set netloc; closing = CHR '']'' \<in> set netloc
      in if opening \<noteq> closing then Inl (ValueError ''Invalid IPv6 URL'')
         else if opening \<and> \<not> ipv6 netloc then Inl (ValueError ''Invalid IPv6 URL'')
         else
           (let path = fst (py_partition (fst (py_partition rest (CHR ''#''))) (CHR ''?''))
            in Inr \<lparr>url_scheme = scheme, url_netloc = netloc, url_path = cut_params scheme path\<rparr>))"

definition url_hostinfo :: "url_parts \<Rightarrow> string" where
  "url_hostinfo u = (let (_, _, hostinfo) = py_rpartition (url_netloc u) (CHR ''@'') in hostinfo)"

definition url_hostname :: "url_parts \<Rightarrow> string option" where
  "url_hostname u =
     (let hostinfo = url_hostinfo u;
          (_, bracket, inner) = py_partition hostinfo (CHR ''['');
          host = (if bracket then fst (py_partition inner (CHR '']''))
                  else fst (py_partition hostinfo (CHR '':'')))
      in if host = [] then None
         else (let (name, percent, zone) = py_partition host (CHR ''%'')
               in Some (py_lower name @ (if percent then CHR ''%'' # zone else []))))"

definition url_username :: "url_parts \<Rightarrow> string option" where
  "url_username u =
     (let (userinfo, found, _) = py_rpartition (url_netloc u) (CHR ''@'')
      in if found then Some (fst (py_partition userinfo (CHR '':''))) else None)"

definition url_password :: "url_parts \<Rightarrow> string option" where
  "url_password u =
     (let (userinfo, found, _) = py_rpartition (url_netloc u) (CHR ''@'')
      in if found then (case py_partition userinfo (CHR '':'') of (_, True, p) \<Rightarrow> Some p | _ \<Rightarrow> None) else None)"

text \<open>\<open>urlunparse((scheme, netloc, path, "", "", ""))\<close> with a network location.\<close>

definition urlunparse :: "string \<Rightarrow> string \<Rightarrow> string \<Rightarrow> string" where
  "urlunparse scheme netloc path =
     (if scheme = [] then [] else scheme @ '':'') @ ''//'' @ netloc
     @ (if path \<noteq> [] \<and> hd path \<noteq> CHR ''/'' then CHR ''/'' # path else path)"

section \<open>Facts\<close>

lemma py_find_append_not_in: "c \<notin> set xs \<Longrightarrow> py_find (xs @ c # ys) c = Some (length xs)"
  by (induction xs) auto

lemma py_partition_at: "c \<notin> set xs \<Longrightarrow> py_partition (xs @ c # ys) c = (xs, True, ys)"
  by (simp add: py_partition_def py_find_append_not_in)

lemma py_partition_none: "c \<notin> set xs \<Longrightarrow> py_partition xs c = (xs, False, [])"
  using py_find_None_iff [of xs c] by (simp add: py_partition_def)

lemma py_rpartition_none: "c \<notin> set xs \<Longrightarrow> py_rpartition xs c = ([], False, xs)"
  using py_find_None_iff [of "rev xs" c] by (simp add: py_rpartition_def)

lemma py_rpartition_at: "c \<notin> set ys \<Longrightarrow> py_rpartition (xs @ c # ys) c = (xs, True, ys)"
  using py_find_append_not_in [of c "rev ys" "rev xs"] by (simp add: py_rpartition_def)

end
