(* ===== verification/Py_Json.thy ===== *)
theory Py_Json
  imports Py_Strings
begin

text \<open>
  What Python does with the values that \<open>json.loads\<close> returns: truth, \<open>int(x)\<close>,
  \<open>str(x)\<close>, subscripting and \<open>d.get(k)\<close>. The text of a float and of a container is the
  interpreter's \<open>repr\<close>, an argument of \<open>py_str\<close>. A float is a finite number: the
  non-standard literals \<open>NaN\<close> and \<open>Infinity\<close> are outside the model, and so is the limit of 4300 digits
  that the interpreter sets on the conversion between text and integers.
\<close>

fun truthy :: "py_value \<Rightarrow> bool" where
  "truthy PyNone = False"
| "truthy (PyBool b) = b"
| "truthy (PyInt i) = (i \<noteq> 0)"
| "truthy (PyFloat x) = (x \<noteq> 0)"
| "truthy (PyStr s) = (s \<noteq> [])"
| "truthy (PyList xs) = (xs \<noteq> [])"
| "truthy (PyDict d) = (d \<noteq> [])"

fun py_str :: "(py_value \<Rightarrow> string) \<Rightarrow> py_value \<Rightarrow> string" where
  "py_str repr PyNone = ''None''"
| "py_str repr (PyBool b) = (if b then ''True'' else ''False'')"
| "py_str repr (PyInt i) = str_int i"
| "py_str repr (PyStr s) = s"
| "py_str repr v = repr v"

text \<open>
  \<open>int(x)\<close> of a value that JSON can hold: an integer, a boolean, a finite number truncated
  towards zero, or text with a decimal number.
\<close>

definition py_int_str :: "string \<Rightarrow> py_error + int" where
  "py_int_str s =
     (let t = py_strip s;
          (neg, u) = (case t of c # cs \<Rightarrow> if c = CHR ''-'' then (True, cs)
                        else if c = CHR ''+'' then (False, cs) else (False, t) | [] \<Rightarrow> (False, t));
          parts = py_split u (CHR ''_'')
      in if u \<noteq> [] \<and> list_all (\<lambda>p. p \<noteq> [] \<and> list_all is_digit p) parts
         then Inr ((if neg then - 1 else 1) * int (digits_value (concat parts)))
         else Inl (ValueError ''invalid literal for int()''))"

fun py_int :: "py_value \<Rightarrow> py_error + int" where
  "py_int (PyInt i) = Inr i"
| "py_int (PyBool b) = Inr (if b then 1 else 0)"
| "py_int (PyFloat x) = Inr (if 0 \<le> x then \<lfloor>x\<rfloor> else \<lceil>x\<rceil>)"
| "py_int (PyStr s) = py_int_str s"
| "py_int _ = Inl (TypeError ''int() argument must be a string or a number'')"

text \<open>\<open>v[k]\<close> with a string \<open>k\<close>: only an object has such items; a list or text refuses the index.\<close>

fun json_item :: "py_value \<Rightarrow> string \<Rightarrow> py_error + py_value" where
  "json_item (PyDict d) k = (case dict_get d k of None \<Rightarrow> Inl KeyError | Some v \<Rightarrow> Inr v)"
| "json_item _ k = Inl (TypeError ''indices must be integers or the object is not subscriptable'')"

text \<open>\<open>d.get(k, default)\<close> of a dictionary.\<close>

definition json_get :: "(string \<times> py_value) list \<Rightarrow> string \<Rightarrow> py_value \<Rightarrow> py_value" where
  "json_get d k v = (case dict_get d k of None \<Rightarrow> v | Some w \<Rightarrow> w)"

lemma json_item_Inr_iff: "json_item v k = Inr w \<longleftrightarrow> (\<exists>d. v = PyDict d \<and> dict_get d k = Some w)"
  by (cases v) (auto split: option.splits)

text \<open>Rendering an integer and reading it back gives the integer.\<close>

lemma py_split_no_sep_id: "c \<notin> set s \<Longrightarrow> py_split s c = [s]"
  by (induction s) auto

lemma digit_facts:
  assumes "is_digit c"
  shows "\<not> py_isspace c" "c \<noteq> CHR ''-''" "c \<noteq> CHR ''+''" "c \<noteq> CHR ''_''"
  using assms by (auto simp: is_digit_def py_isspace_def)

lemma str_nat_props:
  shows "str_nat n \<noteq> []" "\<forall>c\<in>set (str_nat n). is_digit c"
  using str_nat_digits [OF refl, of n] by auto

theorem py_int_str_int: "py_int (PyStr (str_int i)) = Inr i"
proof -
  have strip: "py_strip (str_int i) = str_int i"
  proof (rule py_strip_nonspace)
    show "str_int i \<noteq> []" by (simp add: str_int_def str_nat_props)
    have "\<not> py_isspace (CHR ''-'')" by (simp add: py_isspace_def)
    then show "\<not> py_isspace (hd (str_int i))" "\<not> py_isspace (last (str_int i))"
      using str_nat_props [of "nat i"] str_nat_props [of "nat (- i)"] digit_facts(1)
      by (simp_all add: str_int_def)
  qed
  have join: "py_split (str_nat n) (CHR ''_'') = [str_nat n]" for n
    using str_nat_props(2) [of n] digit_facts(4) by (intro py_split_no_sep_id) blast
  have digits: "list_all is_digit (str_nat n)" for n
    using str_nat_props(2) [of n] by (simp add: list_all_iff)
  show ?thesis
  proof (cases "i < 0")
    case True
    then have s: "str_int i = CHR ''-'' # str_nat (nat (- i))" by (simp add: str_int_def)
    show ?thesis using True join digits str_nat_props(1)
      by (simp add: py_int_str_def strip [unfolded s] s Let_def digits_value_str_nat)
  next
    case False
    obtain c cs where s: "str_nat (nat i) = c # cs"
      using str_nat_props(1) [of "nat i"] by (cases "str_nat (nat i)") auto
    have "is_digit c" using str_nat_props(2) [of "nat i"] s by simp
    then have c: "c \<noteq> CHR ''-''" "c \<noteq> CHR ''+''" using digit_facts by blast+
    have i: "str_int i = c # cs" using False s by (simp add: str_int_def)
    show ?thesis using False c join [of "nat i"] digits [of "nat i"] s digits_value_str_nat [of "nat i"]
      by (simp add: py_int_str_def strip [unfolded i] i Let_def)
  qed
qed

end
