(* ===== verification/Sharding.thy ===== *)
theory Sharding
  imports Py_Urls Py_Json
begin

text \<open>
  \<open>backend/exchange/sharding.py\<close>: the deterministic assignment of symbols to matcher
  shards, the host name of a request, the topology a matcher reports, and the URLs and
  monitoring targets of the shards.

  \<open>shard_for_ticker\<close> and \<open>owned_tickers\<close> agree on universes without repetitions, the
  shards partition the universe, and the URLs of the shards have consecutive ports.
\<close>

section \<open>Assignment\<close>

definition matcher_shard :: "int \<Rightarrow> int \<Rightarrow> py_error + int" where
  "matcher_shard pos shards =
     (if shards < 1 then Inl (ValueError ''shard_count must be at least 1'')
      else if pos < 0 then Inl (ValueError ''position must be at least 0'')
      else Inr (pos mod shards))"

text \<open>The generator of \<open>owned_tickers\<close>, with the position of the first ticker.\<close>

fun owned_from :: "int \<Rightarrow> string list \<Rightarrow> int \<Rightarrow> int \<Rightarrow> py_error + string list" where
  "owned_from pos [] shard shards = Inr []"
| "owned_from pos (t # ts) shard shards =
     ebind (matcher_shard pos shards) (\<lambda>s.
     ebind (owned_from (pos + 1) ts shard shards) (\<lambda>rest.
     Inr (if s = shard then t # rest else rest)))"

definition owned_tickers :: "string list \<Rightarrow> int \<Rightarrow> int \<Rightarrow> py_error + string list" where
  "owned_tickers ts shard shards =
     (if shards < 1 then Inl (ValueError ''shard_count must be at least 1'')
      else if \<not> (0 \<le> shard \<and> shard < shards) then Inl (ValueError ''shard_index must be in range(shard_count)'')
      else if shards = 1 then Inr ts
      else owned_from 0 ts shard shards)"

text \<open>\<open>tickers.index(ticker)\<close>.\<close>

fun index_of :: "'a list \<Rightarrow> 'a \<Rightarrow> nat option" where
  "index_of [] x = None"
| "index_of (y # ys) x = (if y = x then Some 0 else map_option Suc (index_of ys x))"

text \<open>Both \<open>ValueError\<close>s, of the search and of the shard count, give \<open>None\<close>.\<close>

definition shard_for_ticker :: "string list \<Rightarrow> string \<Rightarrow> int \<Rightarrow> int option" where
  "shard_for_ticker ts t shards =
     (case index_of ts t of
        None \<Rightarrow> None
      | Some i \<Rightarrow> (case matcher_shard (int i) shards of Inl _ \<Rightarrow> None | Inr s \<Rightarrow> Some s))"

lemma index_of_SomeD: "index_of xs x = Some i \<Longrightarrow> i < length xs \<and> xs ! i = x \<and> x \<notin> set (take i xs)"
  by (induction xs arbitrary: i) (auto split: if_splits)

lemma index_of_None_iff: "index_of xs x = None \<longleftrightarrow> x \<notin> set xs"
  by (induction xs) auto

lemma index_of_distinct: "distinct xs \<Longrightarrow> i < length xs \<Longrightarrow> index_of xs (xs ! i) = Some i"
proof (induction xs arbitrary: i)
  case (Cons x xs)
  then show ?case by (cases i) auto
qed simp

lemma owned_from_spec:
  "0 < shards \<Longrightarrow> 0 \<le> pos \<Longrightarrow> \<exists>us. owned_from pos ts shard shards = Inr us
    \<and> us = map snd (filter (\<lambda>(i, t). i mod shards = shard) (zip (map (\<lambda>i. pos + int i) [0..<length ts]) ts))"
proof (induction ts arbitrary: pos)
  case (Cons t ts)
  have shift: "map (\<lambda>i. pos + int i) [0..<length (t # ts)] = pos # map (\<lambda>i. pos + 1 + int i) [0..<length ts]"
    by (rule nth_equalityI) (auto simp: nth_Cons' simp del: upt_Suc split: nat.splits)
  obtain us where "owned_from (pos + 1) ts shard shards = Inr us"
    "us = map snd (filter (\<lambda>(i, t). i mod shards = shard) (zip (map (\<lambda>i. pos + 1 + int i) [0..<length ts]) ts))"
    using Cons.IH [of "pos + 1"] Cons.prems by auto
  then show ?case unfolding shift using Cons.prems by (simp add: matcher_shard_def)
qed simp

lemma owned_tickers_spec:
  assumes "0 \<le> shard" "shard < shards"
  shows "\<exists>us. owned_tickers ts shard shards = Inr us
    \<and> us = map snd (filter (\<lambda>(i, t). int i mod shards = shard) (enumerate 0 ts))"
proof (cases "shards = 1")
  case True
  then have "map snd (filter (\<lambda>(i, t). int i mod shards = shard) (enumerate 0 ts)) = ts"
    using assms by (simp add: split_def)
  then show ?thesis using assms True by (simp add: owned_tickers_def)
next
  case False
  obtain us where us: "owned_from 0 ts shard shards = Inr us"
    "us = map snd (filter (\<lambda>(i, t). i mod shards = shard) (zip (map (\<lambda>i. 0 + int i) [0..<length ts]) ts))"
    using owned_from_spec [of shards 0 ts shard] assms by auto
  have "zip (map (\<lambda>i. 0 + int i) [0..<length ts]) ts = map (\<lambda>(i, t). (int i, t)) (enumerate 0 ts)"
    by (simp add: enumerate_eq_zip zip_map1 split_def)
  then have "us = map snd (filter (\<lambda>(i, t). int i mod shards = shard) (enumerate 0 ts))"
    using us(2) by (simp add: filter_map comp_def split_def)
  then show ?thesis using us(1) assms False by (simp add: owned_tickers_def)
qed

text \<open>Membership, for universes without repetitions and in general.\<close>

lemma mem_owned:
  assumes "0 \<le> shard" "shard < shards" "owned_tickers ts shard shards = Inr us"
  shows "t \<in> set us \<longleftrightarrow> (\<exists>i<length ts. ts ! i = t \<and> int i mod shards = shard)"
proof -
  have "us = map snd (filter (\<lambda>(i, t). int i mod shards = shard) (enumerate 0 ts))"
    using owned_tickers_spec [OF assms(1,2), of ts] assms(3) by simp
  then show ?thesis by (auto simp: in_set_enumerate_eq image_iff)
qed

section \<open>Host names and topology\<close>

definition advertised_hostname :: "string \<Rightarrow> py_error + string" where
  "advertised_hostname header =
     (if blank header then Inl (ValueError ''host header is required'')
      else
        (let host = py_strip header
         in if py_startswith host ''[''
            then (case py_find host (CHR '']'') of
                    None \<Rightarrow> Inl (ValueError ''invalid IPv6 host header'')
                  | Some e \<Rightarrow> Inr (drop 1 (take e host)))
            else if py_count host (CHR '':'') = 1 then Inr (fst (py_partition host (CHR '':'')))
            else Inr host))"

definition topology_error :: py_error where
  "topology_error = ValueError ''ready payload is missing shard topology''"

definition int_field :: "(string \<times> py_value) list \<Rightarrow> string \<Rightarrow> py_error + int" where
  "int_field d k =
     (case dict_get d k of None \<Rightarrow> Inl topology_error
      | Some v \<Rightarrow> (case py_int v of Inl _ \<Rightarrow> Inl topology_error | Inr i \<Rightarrow> Inr i))"

definition matcher_topology_from_ready :: "py_value \<Rightarrow> py_error + int \<times> int \<times> int" where
  "matcher_topology_from_ready payload =
     (case payload of
        PyDict d \<Rightarrow>
          ebind (int_field d ''shard_index'') (\<lambda>shard.
          ebind (int_field d ''shard_count'') (\<lambda>shards.
          ebind (int_field d ''listen_port'') (\<lambda>port.
          if shards < 1 \<or> \<not> (0 \<le> shard \<and> shard < shards) \<or> port < 1
          then Inl (ValueError ''ready payload has an invalid shard topology'')
          else Inr (shard, shards, port))))
      | _ \<Rightarrow> Inl (ValueError ''ready payload must be an object''))"

lemma matcher_topology_valid:
  "matcher_topology_from_ready payload = Inr (shard, shards, port) \<Longrightarrow>
   0 \<le> shard \<and> shard < shards \<and> 1 \<le> port"
  by (auto simp: matcher_topology_from_ready_def ebind_eq_Inr_iff split: py_value.splits if_splits)

section \<open>Shard URLs\<close>

definition shard_netloc :: "url_parts \<Rightarrow> string \<Rightarrow> int \<Rightarrow> string" where
  "shard_netloc u host port =
     (let netloc = (if CHR '':'' \<in> set host then ''['' @ host @ '']'' else host) @ '':'' @ str_int port
      in case url_username u of
           None \<Rightarrow> netloc
         | Some name \<Rightarrow>
             (let userinfo = (case url_password u of None \<Rightarrow> name | Some p \<Rightarrow> name @ '':'' @ p)
              in userinfo @ ''@'' @ netloc))"

definition matcher_shard_urls ::
  "(string \<Rightarrow> bool) \<Rightarrow> string \<Rightarrow> int \<Rightarrow> int \<Rightarrow> int \<Rightarrow> py_error + string list" where
  "matcher_shard_urls ipv6 seed shard shards port =
     (if shards < 1 then Inl (ValueError ''shard_count must be at least 1'')
      else if \<not> (0 \<le> shard \<and> shard < shards) then Inl (ValueError ''shard_index must be in range(shard_count)'')
      else ebind (urlparse ipv6 seed) (\<lambda>u.
        case url_hostname u of
          None \<Rightarrow> Inl (ValueError ''seed URL must be an absolute http(s) URL'')
        | Some host \<Rightarrow>
            if url_scheme u \<noteq> ''http'' \<and> url_scheme u \<noteq> ''https''
            then Inl (ValueError ''seed URL must be an absolute http(s) URL'')
            else
              (let base = port - shard
               in if base < 1 then Inl (ValueError ''listen_port is inconsistent with shard_index'')
                  else
                    (let path = py_rstrip_char (url_path u) (CHR ''/'')
                     in Inr (map (\<lambda>i. urlunparse (url_scheme u) (shard_netloc u host (base + int i)) path)
                              [0..<nat shards])))))"

definition resolve_matcher_shard_urls ::
  "(string \<Rightarrow> bool) \<Rightarrow> string list \<Rightarrow> int \<Rightarrow> int \<Rightarrow> int \<Rightarrow> py_error + string list" where
  "resolve_matcher_shard_urls ipv6 configured shard shards port =
     (let seeds = map (\<lambda>u. py_rstrip_char u (CHR ''/'')) (filter (\<lambda>u. \<not> blank u) configured)
      in case seeds of
           [] \<Rightarrow> Inl (ValueError ''at least one shard URL is required'')
         | seed # _ \<Rightarrow>
             if int (length seeds) = shards then Inr seeds
             else ebind (those_ok (map (urlparse ipv6) seeds)) (\<lambda>us.
               if 1 < length (remdups (map url_hostname us))
               then Inl (ValueError (''configured '' @ str_int (int (length seeds))
                      @ '' shard URLs but matcher reports '' @ str_int shards @ '' shards''))
               else matcher_shard_urls ipv6 seed shard shards port))"

definition shard_label :: "nat \<Rightarrow> string" where
  "shard_label i = str_nat i"

record sd_target =
  sd_targets :: "string list"
  sd_labels :: "(string \<times> string) list"

definition prometheus_sd_targets :: "string \<Rightarrow> int \<Rightarrow> int \<Rightarrow> py_error + sd_target list" where
  "prometheus_sd_targets hostname shards base =
     (if blank hostname then Inl (ValueError ''hostname is required'')
      else if shards < 1 then Inl (ValueError ''shard_count must be at least 1'')
      else if base < 1 then Inl (ValueError ''base_port must be at least 1'')
      else Inr (map (\<lambda>i. \<lparr>sd_targets = [hostname @ '':'' @ str_int (base + int i)],
                          sd_labels = [(''matcher_shard'', shard_label i)]\<rparr>) [0..<nat shards]))"

section \<open>Facts about the URLs\<close>

lemma str_int_inject_nonneg: "0 \<le> i \<Longrightarrow> 0 \<le> j \<Longrightarrow> str_int i = str_int j \<longleftrightarrow> i = j"
  by (auto simp: str_int_def str_nat_inject)

lemma str_int_digits: "0 \<le> i \<Longrightarrow> str_int i \<noteq> [] \<and> (\<forall>c\<in>set (str_int i). is_digit c)"
  using str_nat_digits by (simp add: str_int_def)

lemma py_rstrip_char_last: "py_rstrip_char s c = [] \<or> last (py_rstrip_char s c) \<noteq> c"
proof -
  have "dropWhile (\<lambda>x. x = c) (rev s) = [] \<or> hd (dropWhile (\<lambda>x. x = c) (rev s)) \<noteq> c"
    by (metis (mono_tags, lifting) hd_dropWhile)
  then show ?thesis by (simp add: py_rstrip_char_def last_rev)
qed

lemma py_rstrip_char_id: "s = [] \<or> last s \<noteq> c \<Longrightarrow> py_rstrip_char s c = s"
proof -
  assume "s = [] \<or> last s \<noteq> c"
  then have "dropWhile (\<lambda>x. x = c) (rev s) = rev s" by (intro dropWhile_id) (auto simp: hd_rev)
  then show ?thesis by (simp add: py_rstrip_char_def)
qed

text \<open>The prefix and the suffix that all shard URLs of a seed share.\<close>

lemma shard_url_shape:
  assumes "matcher_shard_urls ipv6 seed shard shards port = Inr urls"
  obtains A B where "urls = map (\<lambda>i. A @ str_int (port - shard + int i) @ B) [0..<nat shards]"
    "CHR '':'' \<in> set A" "B = [] \<or> last B \<noteq> CHR ''/''" "1 \<le> port - shard" "0 \<le> shard" "shard < shards"
proof -
  have r: "1 \<le> shards" "0 \<le> shard" "shard < shards"
    using assms by (auto simp: matcher_shard_urls_def split: if_splits)
  with assms obtain u where u: "urlparse ipv6 seed = Inr u"
    by (auto simp: matcher_shard_urls_def ebind_eq_Inr_iff)
  with assms r obtain host where h: "url_hostname u = Some host"
    by (cases "url_hostname u") (simp_all add: matcher_shard_urls_def)
  from assms r u h have c: "1 \<le> shards" "0 \<le> shard" "shard < shards" "1 \<le> port - shard"
    and urls: "urls = map (\<lambda>i. urlunparse (url_scheme u) (shard_netloc u host (port - shard + int i))
        (py_rstrip_char (url_path u) (CHR ''/''))) [0..<nat shards]"
    by (simp_all add: matcher_shard_urls_def Let_def split: if_splits)
  define path where "path = py_rstrip_char (url_path u) (CHR ''/'')"
  define B where "B = (if path \<noteq> [] \<and> hd path \<noteq> CHR ''/'' then CHR ''/'' # path else path)"
  define A where "A = (if url_scheme u = [] then [] else url_scheme u @ '':'') @ ''//''
     @ (case url_username u of None \<Rightarrow> [] | Some name \<Rightarrow>
          (case url_password u of None \<Rightarrow> name | Some p \<Rightarrow> name @ '':'' @ p) @ ''@'')
     @ (if CHR '':'' \<in> set host then ''['' @ host @ '']'' else host) @ '':''"
  have "urlunparse (url_scheme u) (shard_netloc u host p) path = A @ str_int p @ B" for p
    by (cases "url_username u") (simp_all add: urlunparse_def shard_netloc_def Let_def A_def B_def)
  then have "urls = map (\<lambda>i. A @ str_int (port - shard + int i) @ B) [0..<nat shards]"
    unfolding urls path_def [symmetric] by simp
  moreover have "B = [] \<or> last B \<noteq> CHR ''/''"
    using py_rstrip_char_last [of "url_path u" "CHR ''/''"] by (auto simp: B_def path_def)
  moreover have "CHR '':'' \<in> set A" by (simp add: A_def)
  ultimately show ?thesis using that c by blast
qed

section \<open>Properties\<close>

text \<open>C12: the shards partition the universe. In a universe without repetitions, each shard owns
  exactly the tickers that \<open>shard_for_ticker\<close> sends to it, in the universe's order; so every
  ticker of the universe belongs to exactly one shard and nothing else belongs to any.\<close>

theorem shards_partition_universe:
  assumes "distinct ts" "0 \<le> shard" "shard < shards"
  shows "owned_tickers ts shard shards = Inr (filter (\<lambda>t. shard_for_ticker ts t shards = Some shard) ts)
    \<and> (t \<in> set ts \<longrightarrow> (\<exists>!s. 0 \<le> s \<and> s < shards \<and> (\<exists>us. owned_tickers ts s shards = Inr us \<and> t \<in> set us)))"
proof -
  have pos: "0 < shards" using assms by simp
  have sf: "shard_for_ticker ts (ts ! i) shards = Some (int i mod shards)" if "i < length ts" for i
    using index_of_distinct [OF assms(1) that] pos by (simp add: shard_for_ticker_def matcher_shard_def)
  have own: "owned_tickers ts s shards = Inr (filter (\<lambda>t. shard_for_ticker ts t shards = Some s) ts)"
    if s: "0 \<le> s" "s < shards" for s
  proof -
    have "filter (\<lambda>(i, t). int i mod shards = s) (enumerate 0 ts)
        = filter (\<lambda>(i, t). shard_for_ticker ts t shards = Some s) (enumerate 0 ts)"
      by (rule filter_cong) (auto simp: in_set_enumerate_eq sf)
    also have "map snd \<dots> = filter (\<lambda>t. shard_for_ticker ts t shards = Some s) (map snd (enumerate 0 ts))"
      unfolding filter_map comp_def split_def ..
    also have "map snd (enumerate 0 ts) = ts" by simp
    finally show ?thesis using owned_tickers_spec [OF s, of ts] by simp
  qed
  have "\<exists>!s. 0 \<le> s \<and> s < shards \<and> (\<exists>us. owned_tickers ts s shards = Inr us \<and> t \<in> set us)" if "t \<in> set ts"
  proof -
    from that obtain i where i: "i < length ts" "t = ts ! i" by (auto simp: in_set_conv_nth)
    show ?thesis
      by (rule ex1I [of _ "int i mod shards"]) (use own pos i sf that in auto)
  qed
  then show ?thesis using own [OF assms(2,3)] by blast
qed

lemma shards_partition_universe_witness:
  "owned_tickers [''005930'', ''000660'', ''035720''] 1 2
     = Inr (filter (\<lambda>t. shard_for_ticker [''005930'', ''000660'', ''035720''] t 2 = Some 1) [''005930'', ''000660'', ''035720''])"
  using shards_partition_universe [of "[''005930'', ''000660'', ''035720'']" 1 2] by simp

text \<open>The URLs expanded from one seed and its topology are one per shard and pairwise
  different, the seed's own shard gets the port it listens on, and resolving the expanded
  list again leaves it as it is.\<close>

theorem shard_urls_expand:
  assumes "matcher_shard_urls ipv6 seed shard shards port = Inr urls"
  shows "length urls = nat shards \<and> distinct urls
    \<and> (\<exists>A B. \<forall>i<nat shards. urls ! i = A @ str_int (port + int i - shard) @ B)
    \<and> resolve_matcher_shard_urls ipv6 urls shard shards port = Inr urls"
proof -
  obtain A B where urls: "urls = map (\<lambda>i. A @ str_int (port - shard + int i) @ B) [0..<nat shards]"
    and A: "CHR '':'' \<in> set A" and B: "B = [] \<or> last B \<noteq> CHR ''/''"
    and c: "1 \<le> port - shard" "0 \<le> shard" "shard < shards"
    by (rule shard_url_shape [OF assms])
  have "distinct urls"
    unfolding urls by (auto simp: distinct_map inj_on_def str_int_inject_nonneg c(1))
      (use c(1) str_int_inject_nonneg in force)
  moreover have keep: "\<not> blank url \<and> py_rstrip_char url (CHR ''/'') = url" if "url \<in> set urls" for url
  proof -
    from that obtain i where url: "url = A @ str_int (port - shard + int i) @ B" by (auto simp: urls)
    have "0 \<le> port - shard + int i" using c(1) by simp
    note d = str_int_digits [OF this]
    have "\<not> py_isspace (CHR '':'')" by code_simp
    then have "\<not> blank url" using A by (auto simp: blank_iff url)
    moreover have "is_digit (last (str_int (port - shard + int i)))" using d by simp
    moreover have "\<not> is_digit (CHR ''/'')" by code_simp
    ultimately have "url \<noteq> []" "last url \<noteq> CHR ''/''" using d B by (cases "B = []"; auto simp: url)+
    then show ?thesis using py_rstrip_char_id [of url] \<open>\<not> blank url\<close> by simp
  qed
  have seeds: "map (\<lambda>u. py_rstrip_char u (CHR ''/'')) (filter (\<lambda>u. \<not> blank u) urls) = urls"
    using keep by (simp add: map_idI filter_id_conv [THEN iffD2])
  have len: "length urls = nat shards" by (simp add: urls)
  then have "resolve_matcher_shard_urls ipv6 urls shard shards port = Inr urls"
    using c unfolding resolve_matcher_shard_urls_def seeds by (cases urls) auto
  moreover have "\<forall>i<nat shards. urls ! i = A @ str_int (port + int i - shard) @ B"
    by (simp add: urls algebra_simps)
  ultimately show ?thesis using len by blast
qed

lemma shard_urls_expand_witness:
  "\<exists>urls. matcher_shard_urls (\<lambda>_. True) ''http://matcher:8001/'' 1 3 8002 = Inr urls
     \<and> length urls = 3 \<and> urls ! 1 = ''http://matcher:8002''"
proof -
  have p: "urlparse (\<lambda>_. True) ''http://matcher:8001/''
      = Inr \<lparr>url_scheme = ''http'', url_netloc = ''matcher:8001'', url_path = ''/''\<rparr>"
    by (simp add: urlparse_def split_scheme_def clean_url_def split_netloc_def py_startswith_def
      ascii_alpha_def scheme_char_def is_digit_def py_partition_def py_rpartition_def cut_params_def
      py_lower_def lower_char_def)
  have d: "str_int 8001 = ''8001''" "str_int 8002 = ''8002''" "str_int 8003 = ''8003''"
    by (simp_all add: str_int_def str_eval)
  have i: "[0..<nat 3] = [0, 1, 2]" by (simp add: upt_rec)
  have u: "matcher_shard_urls (\<lambda>_. True) ''http://matcher:8001/'' 1 3 8002
    = Inr [''http://matcher:8001'', ''http://matcher:8002'', ''http://matcher:8003'']"
    unfolding matcher_shard_urls_def p i
    by (simp add: py_partition_def py_rpartition_def url_hostname_def url_hostinfo_def d
      py_lower_def lower_char_def shard_netloc_def url_username_def urlunparse_def py_rstrip_char_def)
  from shard_urls_expand [OF u] u show ?thesis by auto
qed

end
