(* ===== verification/Simulation.thy ===== *)
theory Simulation
  imports Sharding "HOL-Library.List_Lexorder" "HOL-Library.Char_ord"
begin

text \<open>
  \<open>backend/exchange/simulation.py\<close>: the symbol universe of a matcher process, read from the
  table of \<open>MarketDaily\<close> (\<open>models.py\<close>) and cached, and the symbols that this process owns.

  A query of the table is a function of its rows. The table's uniqueness constraint is
  \<open>market_unique\<close>. \<open>preload_simulated_tickers\<close> gets \<open>None\<close> for a table that cannot be read.
\<close>

section \<open>Settings, table, cache\<close>

record sim_settings =
  symbol_limit :: int
  shard_count :: int
  shard_index :: int

text \<open>What \<open>settings.py\<close> guarantees: the bounds of the environment values and its final check.\<close>

definition settings_ok :: "sim_settings \<Rightarrow> bool" where
  "settings_ok st \<longleftrightarrow> 1 \<le> symbol_limit st \<and> symbol_limit st \<le> 100
     \<and> 1 \<le> shard_count st \<and> shard_count st \<le> 8 \<and> 0 \<le> shard_index st \<and> shard_index st < shard_count st"

record market_row =
  md_symbol :: string
  md_date :: int
  md_close :: int
  md_volume :: int
  md_value :: int
  md_rank :: int

definition market_unique :: "market_row list \<Rightarrow> bool" where
  "market_unique rows \<longleftrightarrow> distinct (map (\<lambda>r. (md_symbol r, md_date r)) rows)"

record sim_cache =
  cached_tickers :: "string list option"
  cached_limit :: "int option"

definition empty_cache :: sim_cache where
  "empty_cache = \<lparr>cached_tickers = None, cached_limit = None\<rparr>"

definition fallback_symbol :: string where
  "fallback_symbol = ''005930''"

section \<open>Operations\<close>

definition latest_date :: "market_row list \<Rightarrow> int option" where
  "latest_date rows = (if rows = [] then None else Some (Max (set (map md_date rows))))"

definition load_tickers :: "sim_settings \<Rightarrow> market_row list \<Rightarrow> string list" where
  "load_tickers st rows =
     (case latest_date rows of
        None \<Rightarrow> [fallback_symbol]
      | Some d \<Rightarrow>
          take (nat (symbol_limit st))
            (map md_symbol (sort_key (\<lambda>r. (md_rank r, md_symbol r)) (filter (\<lambda>r. md_date r = d) rows))))"

definition load_simulated_tickers :: "sim_settings \<Rightarrow> market_row list \<Rightarrow> sim_cache \<Rightarrow> sim_cache \<times> string list" where
  "load_simulated_tickers st rows c =
     (let ts = load_tickers st rows
      in (\<lparr>cached_tickers = Some ts, cached_limit = Some (symbol_limit st)\<rparr>, ts))"

definition simulated_tickers :: "sim_settings \<Rightarrow> market_row list \<Rightarrow> sim_cache \<Rightarrow> sim_cache \<times> string list" where
  "simulated_tickers st rows c =
     (case cached_tickers c of
        Some ts \<Rightarrow> if cached_limit c = Some (symbol_limit st) then (c, ts)
                   else load_simulated_tickers st rows c
      | None \<Rightarrow> load_simulated_tickers st rows c)"

definition is_simulated_symbol :: "sim_settings \<Rightarrow> market_row list \<Rightarrow> string \<Rightarrow> sim_cache \<Rightarrow> sim_cache \<times> bool" where
  "is_simulated_symbol st rows t c = (let (c, ts) = simulated_tickers st rows c in (c, t \<in> set ts))"

definition own_tickers :: "sim_settings \<Rightarrow> market_row list \<Rightarrow> sim_cache \<Rightarrow> sim_cache \<times> (py_error + string list)" where
  "own_tickers st rows c =
     (let (c, ts) = simulated_tickers st rows c in (c, owned_tickers ts (shard_index st) (shard_count st)))"

definition is_owned_symbol :: "sim_settings \<Rightarrow> market_row list \<Rightarrow> string \<Rightarrow> sim_cache \<Rightarrow> sim_cache \<times> (py_error + bool)" where
  "is_owned_symbol st rows t c =
     (let (c, ts) = own_tickers st rows c in (c, ebind ts (\<lambda>ts. Inr (t \<in> set ts))))"

definition matcher_shard_for :: "sim_settings \<Rightarrow> market_row list \<Rightarrow> string \<Rightarrow> sim_cache \<Rightarrow> sim_cache \<times> int option" where
  "matcher_shard_for st rows t c =
     (let (c, ts) = simulated_tickers st rows c in (c, shard_for_ticker ts t (shard_count st)))"

definition preload_simulated_tickers :: "sim_settings \<Rightarrow> market_row list option \<Rightarrow> sim_cache \<Rightarrow> sim_cache" where
  "preload_simulated_tickers st rows c =
     (case rows of Some rows \<Rightarrow> fst (load_simulated_tickers st rows c) | None \<Rightarrow> empty_cache)"

section \<open>Facts\<close>

text \<open>A cache is good for the settings when what it holds is a universe without repetitions.\<close>

definition cache_ok :: "sim_cache \<Rightarrow> bool" where
  "cache_ok c \<longleftrightarrow> (\<forall>ts. cached_tickers c = Some ts \<longrightarrow> distinct ts)"

lemma load_tickers_distinct: "market_unique rows \<Longrightarrow> distinct (load_tickers st rows)"
proof -
  assume u: "market_unique rows"
  have "distinct (map md_symbol (filter (\<lambda>r. md_date r = d) rows))" for d
    using u unfolding market_unique_def
    by (induction rows) auto
  then have "distinct (map md_symbol (sort_key k (filter (\<lambda>r. md_date r = d) rows)))"
    for k :: "market_row \<Rightarrow> int \<times> string" and d
    by (simp add: distinct_map)
  then show ?thesis by (simp add: load_tickers_def distinct_take split: option.splits)
qed

lemma simulated_tickers_distinct:
  assumes "market_unique rows" "cache_ok c" "simulated_tickers st rows c = (c', ts)"
  shows "distinct ts \<and> cache_ok c'"
  using assms load_tickers_distinct [OF assms(1), of st]
  by (auto simp: simulated_tickers_def load_simulated_tickers_def cache_ok_def Let_def split: option.splits if_splits)

lemma simulated_tickers_stable:
  "simulated_tickers st rows c = (c', ts) \<Longrightarrow> simulated_tickers st rows' c' = (c', ts)"
  by (auto simp: simulated_tickers_def load_simulated_tickers_def Let_def split: option.splits if_splits)

lemma owned_iff_routed:
  assumes "settings_ok st" "market_unique rows" "cache_ok c" "simulated_tickers st rows c = (c', ts)"
  shows "is_owned_symbol st rows' t c' = (c', Inr (matcher_shard_for st rows'' t c' = (c', Some (shard_index st))))
    \<and> is_simulated_symbol st rows' t c' = (c', t \<in> set ts)"
proof -
  have d: "distinct ts" using simulated_tickers_distinct [OF assms(2-4)] by simp
  note stable = simulated_tickers_stable [OF assms(4)]
  have s: "0 \<le> shard_index st" "shard_index st < shard_count st" "0 < shard_count st"
    using assms(1) by (auto simp: settings_ok_def)
  obtain us where us: "owned_tickers ts (shard_index st) (shard_count st) = Inr us"
    using owned_tickers_spec [OF s(1,2), of ts] by blast
  have "t \<in> set us \<longleftrightarrow> shard_for_ticker ts t (shard_count st) = Some (shard_index st)"
  proof
    assume "t \<in> set us"
    then obtain i where "i < length ts" "ts ! i = t" "int i mod shard_count st = shard_index st"
      using mem_owned [OF s(1,2) us] by blast
    then show "shard_for_ticker ts t (shard_count st) = Some (shard_index st)"
      using index_of_distinct [OF d] s(3) by (auto simp: shard_for_ticker_def matcher_shard_def)
  next
    assume "shard_for_ticker ts t (shard_count st) = Some (shard_index st)"
    then show "t \<in> set us"
      using mem_owned [OF s(1,2) us] s(3)
      by (auto simp: shard_for_ticker_def matcher_shard_def split: option.splits dest!: index_of_SomeD)
  qed
  then show ?thesis
    by (simp add: is_owned_symbol_def own_tickers_def matcher_shard_for_def is_simulated_symbol_def stable us)
qed

text \<open>Once a process has read its universe, every later question is answered from it: the
  answers agree with one another whatever has happened to the table since, and a symbol is
  owned by this process exactly when \<open>matcher_shard_for\<close> names this process's shard.\<close>

theorem ownership_agrees_with_routing:
  assumes "settings_ok st" "market_unique rows" "cache_ok c" "simulated_tickers st rows c = (c', ts)"
  shows "is_owned_symbol st rows' t c' = (c', Inr (matcher_shard_for st rows'' t c' = (c', Some (shard_index st))))
    \<and> is_simulated_symbol st rows' t c' = (c', t \<in> set ts)"
  by (rule owned_iff_routed [OF assms])

lemma ownership_agrees_with_routing_witness:
  "is_owned_symbol \<lparr>symbol_limit = 10, shard_count = 2, shard_index = 0\<rparr> [] ''005930''
      \<lparr>cached_tickers = Some [''005930''], cached_limit = Some 10\<rparr>
    = (\<lparr>cached_tickers = Some [''005930''], cached_limit = Some 10\<rparr>, Inr True)"
proof -
  let ?st = "\<lparr>symbol_limit = 10, shard_count = 2, shard_index = 0\<rparr>"
  let ?c = "\<lparr>cached_tickers = Some [''005930''], cached_limit = Some 10\<rparr>"
  have st: "settings_ok ?st" by (simp add: settings_ok_def)
  have l: "simulated_tickers ?st [] empty_cache = (?c, [''005930''])"
    by (simp add: simulated_tickers_def empty_cache_def load_simulated_tickers_def load_tickers_def
        latest_date_def fallback_symbol_def Let_def)
  have "market_unique []" "cache_ok empty_cache" by (simp_all add: market_unique_def cache_ok_def empty_cache_def)
  moreover have "matcher_shard_for ?st [] ''005930'' ?c = (?c, Some 0)"
    by (simp add: matcher_shard_for_def simulated_tickers_def shard_for_ticker_def matcher_shard_def)
  ultimately show ?thesis
    using ownership_agrees_with_routing [OF st _ _ l, where t = "''005930''" and rows' = "[]" and rows'' = "[]"] by simp
qed

end
