(* ===== verification/Registry.thy ===== *)
theory Registry
  imports Book_Properties Simulation
begin

text \<open>
  \<open>backend/exchange/orderbook/registry.py\<close>: the map from symbols to order books of one
  matcher process, and the map from open orders to their symbols that lets a cancel find
  its book. The books report rests, fills and expiries through their callbacks.

  The state holds the cached universe as well, since \<open>get\<close> asks \<open>is_owned_symbol\<close>. The
  environment of a call is the settings and the rows of the market table. The counter
  \<open>ORDERS_EXPIRED\<close> is part of the state.

  What the registry needs from its books is the interface \<open>order_service\<close>; the production
  book is interpreted as one.
\<close>

section \<open>State and callbacks\<close>

record matcher_env =
  me_settings :: sim_settings
  me_rows :: "market_row list"
  me_max_age :: seconds

record registry =
  rg_cache :: sim_cache
  rg_books :: "(symbol, book) dict"
  rg_orders :: "(uuid, symbol) dict"
  rg_session :: "int option"
  rg_expired :: "(symbol, nat) dict"

definition new_registry :: registry where
  "new_registry = \<lparr>rg_cache = empty_cache, rg_books = [], rg_orders = [], rg_session = None, rg_expired = []\<rparr>"

definition order_rested :: "uuid \<Rightarrow> symbol \<Rightarrow> registry \<Rightarrow> registry" where
  "order_rested oid sy g = g\<lparr>rg_orders := dict_set (rg_orders g) oid sy\<rparr>"

definition order_closed :: "uuid \<Rightarrow> close_reason \<Rightarrow> symbol \<Rightarrow> registry \<Rightarrow> registry" where
  "order_closed oid why sy g =
     (let g = g\<lparr>rg_orders := dict_pop (rg_orders g) oid\<rparr>
      in if why = Expired
         then g\<lparr>rg_expired := dict_set (rg_expired g) sy
                  (case dict_get (rg_expired g) sy of None \<Rightarrow> 1 | Some n \<Rightarrow> Suc n)\<rparr>
         else g)"

text \<open>The callbacks of a call, in the order the book makes them.\<close>

fun callbacks :: "symbol \<Rightarrow> book_event list \<Rightarrow> registry \<Rightarrow> registry" where
  "callbacks sy [] g = g"
| "callbacks sy (Rested oid # ev) g = callbacks sy ev (order_rested oid sy g)"
| "callbacks sy (Closed oid why # ev) g = callbacks sy ev (order_closed oid why sy g)"

section \<open>Operations\<close>

definition reset_books :: "registry \<Rightarrow> registry \<times> symbol list" where
  "reset_books g = (g\<lparr>rg_books := [], rg_orders := [], rg_session := None\<rparr>, dict_keys (rg_books g))"

definition reg_reset :: "registry \<Rightarrow> registry" where
  "reg_reset g = fst (reset_books (g\<lparr>rg_cache := empty_cache\<rparr>))"

definition rollover :: "int option \<Rightarrow> registry \<Rightarrow> registry \<times> symbol list" where
  "rollover session g =
     (case session of
        None \<Rightarrow> (g, [])
      | Some d \<Rightarrow>
          (case rg_session g of
             None \<Rightarrow> (g\<lparr>rg_session := Some d\<rparr>, [])
           | Some active \<Rightarrow>
               if d \<le> active then (g, [])
               else (g\<lparr>rg_books := [], rg_orders := [], rg_session := Some d\<rparr>, dict_keys (rg_books g))))"

text \<open>\<open>get\<close>: the book of an owned symbol, made on first use; \<open>None\<close> for any other symbol.\<close>

definition reg_get :: "matcher_env \<Rightarrow> symbol \<Rightarrow> registry \<Rightarrow> registry \<times> (py_error + book option)" where
  "reg_get me sy g =
     (let (c, owned) = is_owned_symbol (me_settings me) (me_rows me) sy (rg_cache g);
          g = g\<lparr>rg_cache := c\<rparr>
      in case owned of
           Inl e \<Rightarrow> (g, Inl e)
         | Inr False \<Rightarrow> (g, Inr None)
         | Inr True \<Rightarrow>
             (case dict_get (rg_books g) sy of
                Some b \<Rightarrow> (g, Inr (Some b))
              | None \<Rightarrow>
                  (case make_book sy 200 (me_max_age me) of
                     Inl e \<Rightarrow> (g, Inl e)
                   | Inr b \<Rightarrow> (g\<lparr>rg_books := dict_set (rg_books g) sy b\<rparr>, Inr (Some b)))))"

definition open_order_id_count :: "registry \<Rightarrow> nat" where
  "open_order_id_count g = length (rg_orders g)"

text \<open>A call on the book of a symbol: the book changes in place and its callbacks run.\<close>

definition on_book :: "symbol \<Rightarrow> 'a call \<Rightarrow> registry \<Rightarrow> registry \<times> (py_error + 'a)" where
  "on_book sy x g =
     (let (b, ev, res) = x
      in (callbacks sy ev (g\<lparr>rg_books := dict_set (rg_books g) sy b\<rparr>), res))"

definition reg_submit :: "matcher_env \<Rightarrow> submit_env \<Rightarrow> order \<Rightarrow> registry \<Rightarrow> registry \<times> (py_error + match_result)" where
  "reg_submit me env ord g =
     (let (g, res) = reg_get me (order_symbol ord) g
      in case res of
           Inl e \<Rightarrow> (g, Inl e)
         | Inr None \<Rightarrow> (g, Inl (LookupError (''symbol '' @ order_symbol ord @ '' is not simulated'')))
         | Inr (Some b) \<Rightarrow> on_book (order_symbol ord) (book_submit env ord b) g)"

definition reg_cancel :: "matcher_env \<Rightarrow> seconds \<Rightarrow> uuid \<Rightarrow> registry \<Rightarrow> registry \<times> (py_error + open_order)" where
  "reg_cancel me now oid g =
     (case dict_get (rg_orders g) oid of
        None \<Rightarrow> (g, Inl (OrderNotFoundError oid))
      | Some sy \<Rightarrow>
          (let (g, res) = reg_get me sy g
           in case res of
                Inl e \<Rightarrow> (g, Inl e)
              | Inr None \<Rightarrow> (g, Inl (OrderNotFoundError oid))
              | Inr (Some b) \<Rightarrow>
                  (let (g, res) = on_book sy (book_cancel now oid b) g
                   in case res of
                        Inl (OrderNotFoundError n) \<Rightarrow>
                          (g\<lparr>rg_orders := dict_pop (rg_orders g) oid\<rparr>, Inl (OrderNotFoundError n))
                      | Inl e \<Rightarrow> (g, Inl e)
                      | Inr x \<Rightarrow> (g\<lparr>rg_orders := dict_pop (rg_orders g) oid\<rparr>, Inr x))))"

section \<open>What the registry needs from a book\<close>

text \<open>The callbacks on the map of open orders.\<close>

fun track_map :: "symbol \<Rightarrow> book_event list \<Rightarrow> (uuid \<rightharpoonup> symbol) \<Rightarrow> (uuid \<rightharpoonup> symbol)" where
  "track_map sy [] m = m"
| "track_map sy (Rested oid # ev) m = track_map sy ev (m(oid \<mapsto> sy))"
| "track_map sy (Closed oid why # ev) m = track_map sy ev (m(oid := None))"

lemma track_map_other: "oid \<notin> event_ids ev \<Longrightarrow> track_map sy ev m oid = m oid"
  by (induction sy ev m rule: track_map.induct) auto

lemma track_map_own:
  "oid \<in> event_ids ev \<or> m oid = None \<or> m oid = Some sy \<Longrightarrow>
   track_map sy ev m oid = (if oid \<in> track ev {x. m x = Some sy} then Some sy else None)"
proof (induction sy ev m rule: track_map.induct)
  case (1 sy m)
  then show ?case by auto
next
  case (2 sy i ev m)
  have eq: "{x. (m(i \<mapsto> sy)) x = Some sy} = insert i {x. m x = Some sy}" by auto
  have "oid \<in> event_ids ev \<or> (m(i \<mapsto> sy)) oid = None \<or> (m(i \<mapsto> sy)) oid = Some sy" using "2.prems" by auto
  from "2.IH" [OF this] show ?case unfolding eq track_map.simps track.simps .
next
  case (3 sy i why ev m)
  have eq: "{x. (m(i := None)) x = Some sy} = {x. m x = Some sy} - {i}" by auto
  have "oid \<in> event_ids ev \<or> (m(i := None)) oid = None \<or> (m(i := None)) oid = Some sy" using "3.prems" by auto
  from "3.IH" [OF this] show ?case unfolding eq track_map.simps track.simps .
qed

locale order_service =
  fixes inv :: "seconds \<Rightarrow> 'b \<Rightarrow> bool" and ids :: "'b \<Rightarrow> uuid set"
    and submit :: "submit_env \<Rightarrow> order \<Rightarrow> 'b \<Rightarrow> 'b \<times> book_event list \<times> (py_error + match_result)"
    and cancel :: "seconds \<Rightarrow> uuid \<Rightarrow> 'b \<Rightarrow> 'b \<times> book_event list \<times> (py_error + open_order)"
  assumes later: "inv t b \<Longrightarrow> t \<le> t' \<Longrightarrow> inv t' b"
    and submit_law: "inv t b \<Longrightarrow> t \<le> expire_clock env \<Longrightarrow> expire_clock env \<le> rest_clock env \<Longrightarrow>
      valid_order ord \<Longrightarrow> order_id ord \<notin> ids b \<Longrightarrow> submit env ord b = (b', ev, res) \<Longrightarrow>
      inv (rest_clock env) b' \<and> ids b' = track ev (ids b) \<and> event_ids ev \<subseteq> insert (order_id ord) (ids b)"
    and cancel_law: "inv t b \<Longrightarrow> t \<le> now \<Longrightarrow> cancel now oid b = (b', ev, gone) \<Longrightarrow>
      inv now b' \<and> ids b' = track ev (ids b) - {oid} \<and> event_ids ev \<subseteq> ids b
      \<and> (is_ok gone \<longleftrightarrow> oid \<in> track ev (ids b)) \<and> (\<forall>e. gone = Inl e \<longrightarrow> e = OrderNotFoundError oid)"
begin

text \<open>The map of open orders is exact: it sends an identifier to a symbol when the order is open in that book.\<close>

definition exact :: "(symbol \<rightharpoonup> 'b) \<Rightarrow> (uuid \<rightharpoonup> symbol) \<Rightarrow> bool" where
  "exact bs m \<longleftrightarrow> (\<forall>oid sy. m oid = Some sy \<longleftrightarrow> (\<exists>b. bs sy = Some b \<and> oid \<in> ids b))"

lemma exact_update:
  assumes ex: "exact bs m" and b: "bs sy = Some b" and own: "ids b' = track ev (ids b) - C"
    and ev: "\<And>oid. oid \<in> event_ids ev \<Longrightarrow> oid \<in> ids b \<or> m oid = None" and C: "\<And>oid. oid \<in> C \<Longrightarrow> m oid = None \<or> m oid = Some sy"
  shows "exact (bs(sy \<mapsto> b')) (\<lambda>oid. if oid \<in> C then None else track_map sy ev m oid)"
  unfolding exact_def
proof (intro allI)
  fix oid sy'
  have ids: "{x. m x = Some sy} = ids b" using ex b by (auto simp: exact_def)
  show "((if oid \<in> C then None else track_map sy ev m oid) = Some sy') \<longleftrightarrow>
      (\<exists>c. (bs(sy \<mapsto> b')) sy' = Some c \<and> oid \<in> ids c)"
  proof (cases "oid \<in> event_ids ev \<or> m oid = None \<or> m oid = Some sy")
    case True
    then have t: "track_map sy ev m oid = (if oid \<in> track ev (ids b) then Some sy else None)"
      using track_map_own [where m = m and oid = oid and ev = ev and sy = sy] True ids by simp
    have mine: "m oid = None \<or> m oid = Some sy" using True ev ids by auto
    then have "\<not> (\<exists>c. bs sy' = Some c \<and> oid \<in> ids c)" if "sy' \<noteq> sy"
      using ex that by (metis exact_def option.distinct(1) option.inject)
    then show ?thesis using t own by (cases "sy' = sy") auto
  next
    case False
    then obtain sy0 where sy0: "m oid = Some sy0" "sy0 \<noteq> sy" "oid \<notin> event_ids ev" by auto
    then have t: "track_map sy ev m oid = Some sy0" using track_map_other by metis
    have nC: "oid \<notin> C" using C [of oid] sy0 by auto
    have "oid \<notin> ids b" unfolding ids [symmetric] using sy0 by simp
    moreover have "x \<in> track e S \<longleftrightarrow> x \<in> S" if "x \<notin> event_ids e" for x e S
      using that by (induction e S rule: track.induct) auto
    ultimately have "oid \<notin> ids b'" using own sy0(3) by auto
    moreover have "m oid = Some sy' \<longleftrightarrow> (\<exists>c. bs sy' = Some c \<and> oid \<in> ids c)" using ex by (simp add: exact_def)
    ultimately show ?thesis using t nC sy0(1,2) by (cases "sy' = sy") auto
  qed
qed

lemma submit_exact:
  assumes "exact bs m" "bs sy = Some b" "inv t b" "t \<le> expire_clock env" "expire_clock env \<le> rest_clock env"
    "valid_order ord" "m (order_id ord) = None" "submit env ord b = (b', ev, res)"
  shows "exact (bs(sy \<mapsto> b')) (track_map sy ev m)" "inv (rest_clock env) b'"
proof -
  have "order_id ord \<notin> ids b" using assms(1,2,7) by (metis exact_def option.distinct(1))
  note law = submit_law [OF assms(3-6) this assms(8)]
  show "inv (rest_clock env) b'" using law by blast
  have "exact (bs(sy \<mapsto> b')) (\<lambda>oid. if oid \<in> {} then None else track_map sy ev m oid)"
    using law assms(7) by (intro exact_update [OF assms(1,2)]) auto
  then show "exact (bs(sy \<mapsto> b')) (track_map sy ev m)" by simp
qed

lemma cancel_exact:
  assumes "exact bs m" "bs sy = Some b" "inv t b" "t \<le> now" "m oid = Some sy"
    "cancel now oid b = (b', ev, res)"
  shows "exact (bs(sy \<mapsto> b')) ((track_map sy ev m)(oid := None))" "inv now b'"
    "\<And>e. res = Inl e \<Longrightarrow> e = OrderNotFoundError oid"
proof -
  note law = cancel_law [OF assms(3,4,6)]
  show "inv now b'" "\<And>e. res = Inl e \<Longrightarrow> e = OrderNotFoundError oid" using law by blast+
  have "exact (bs(sy \<mapsto> b')) (\<lambda>x. if x \<in> {oid} then None else track_map sy ev m x)"
    using law assms(5) by (intro exact_update [OF assms(1,2)]) auto
  moreover have "(\<lambda>x. if x \<in> {oid} then None else track_map sy ev m x) = (track_map sy ev m)(oid := None)" by auto
  ultimately show "exact (bs(sy \<mapsto> b')) ((track_map sy ev m)(oid := None))" by simp
qed

end

text \<open>A book holds orders for its own symbol only, at positive prices.\<close>

definition own_orders :: "ref_book \<Rightarrow> bool" where
  "own_orders b \<longleftrightarrow> (\<forall>s. \<forall>x\<in>set (rb_side b s). order_symbol (oo_order x) = rb_symbol b \<and> 1 \<le> price (oo_order x))"

lemma ref_match_orders:
  "ref_match st sy ord m ts opp = (m', ts', opp') \<Longrightarrow> oo_order ` set opp' \<subseteq> oo_order ` set opp"
proof (induction st sy ord m ts opp rule: ref_match.induct)
  case (1 st sy ord m ts opp)
  show ?case
  proof (cases opp)
    case (Cons x xs)
    let ?q = "min m (oo_remaining x)" and ?t = "make_trade sy ord (oo_order x) (min m (oo_remaining x)) (st (length ts))"
    show ?thesis
    proof (cases "m \<noteq> 0 \<and> crosses ord (oo_order x)")
      case True
      show ?thesis
      proof (cases "?q = oo_remaining x")
        case q: True
        have "ref_match st sy ord (m - ?q) (ts @ [?t]) xs = (m', ts', opp')"
          using "1.prems" Cons True q by (simp add: ref_match.simps [of st sy ord m ts] Let_def)
        then show ?thesis using "1.IH"(1) [OF Cons True refl refl q] Cons by auto
      next
        case q: False
        then have "oo_remaining x \<noteq> m" "?q = m" by (auto simp: min_def split: if_splits)
        then have "ref_match st sy ord (m - ?q) (ts @ [?t]) (x\<lparr>oo_remaining := oo_remaining x - ?q\<rparr> # xs) = (m', ts', opp')"
          using "1.prems" Cons True by (simp add: ref_match.simps [of st sy ord m ts] Let_def)
        then show ?thesis using "1.IH"(2) [OF Cons True refl refl q] Cons by auto
      qed
    qed (use "1.prems" Cons in \<open>auto simp: ref_match.simps [of st sy ord m ts]\<close>)
  qed (use "1.prems" in \<open>simp add: ref_match.simps\<close>)
qed

lemma ref_rest_own: "own_orders b \<Longrightarrow> order_symbol ord = rb_symbol b \<Longrightarrow> 1 \<le> price ord \<Longrightarrow> own_orders (ref_rest b ord m)"
  by (simp add: own_orders_def ref_rest_def Let_def)

lemma own_orders_recent [simp]: "own_orders (b\<lparr>rb_recent := ts\<rparr>) = own_orders b"
  by (simp add: own_orders_def rb_side_def split: order_side.split)

lemma ref_submit_own:
  assumes "own_orders b" "ref_submit st ord b = (b', res)" "1 \<le> price ord"
  shows "own_orders b'"
proof (cases "order_symbol ord = rb_symbol b")
  case True
  let ?o = "opposite (side ord)"
  obtain m ts opp where m: "ref_match st (rb_symbol b) ord (quantity ord) [] (rb_side b ?o) = (m, ts, opp)"
    by (metis prod_cases3)
  have "order_symbol (oo_order x) = rb_symbol b \<and> 1 \<le> price (oo_order x)" if "x \<in> set opp" for x
    using ref_match_orders [OF m] that assms(1) by (auto simp: own_orders_def)
  then have own: "own_orders (rb_set_side b ?o opp)" using assms(1) by (simp add: own_orders_def)
  then have "own_orders (if m \<noteq> 0 then ref_rest (rb_set_side b ?o opp) ord m else rb_set_side b ?o opp)"
    using ref_rest_own True assms(3) by simp
  moreover have "\<exists>ts. b' = (if m \<noteq> 0 then ref_rest (rb_set_side b ?o opp) ord m else rb_set_side b ?o opp)\<lparr>rb_recent := ts\<rparr>"
    using assms(2) True unfolding ref_submit_def m by (auto simp: Let_def)
  ultimately show ?thesis by auto
qed (use assms in \<open>simp add: ref_submit_def\<close>)

lemma ref_cancel_own:
  assumes "own_orders b" "ref_ok b" "ref_cancel oid b = (b', res)"
  shows "own_orders b'" "rb_symbol b' = rb_symbol b"
proof -
  show "rb_symbol b' = rb_symbol b" using assms(3) by (auto simp: ref_cancel_def split: option.splits)
  then show "own_orders b'"
    using ref_cancel_ok(2,3) [OF assms(2,3)] assms(1) by (cases res) (auto simp: own_orders_def)
qed

lemma abs_at_own: "own_orders (abs_book b) \<Longrightarrow> own_orders (abs_at now b)"
  by (auto simp: own_orders_def abs_at_def open_of_def)

definition book_inv :: "seconds \<Rightarrow> book \<Rightarrow> bool" where
  "book_inv t b \<longleftrightarrow> book_ok t b \<and> ref_ok (abs_book b) \<and> own_orders (abs_book b)"

interpretation books: order_service book_inv open_ids book_submit book_cancel
proof unfold_locales
  show "book_inv t b \<Longrightarrow> t \<le> t' \<Longrightarrow> book_inv t' b" for t t' b
    using book_ok_later by (auto simp: book_inv_def)
next
  fix t b env ord b' ev res
  assume inv: "book_inv t b" and l: "t \<le> expire_clock env" "expire_clock env \<le> rest_clock env"
    "valid_order ord" "order_id ord \<notin> open_ids b" and run: "book_submit env ord b = (b', ev, res)"
  have ok: "book_ok t b" "ref_ok (abs_book b)" "own_orders (abs_book b)" using inv by (simp_all add: book_inv_def)
  show "book_inv (rest_clock env) b' \<and> open_ids b' = track ev (open_ids b)
      \<and> event_ids ev \<subseteq> insert (order_id ord) (open_ids b)"
  proof (cases "order_symbol ord = bk_symbol b")
    case True
    have q: "0 < quantity ord" "1 \<le> price ord" using l(3) by (simp_all add: valid_order_def)
    from book_submit_spec [OF ok(1) l(1,2) True q(1) l(4)] run obtain x where
      b': "book_ok (rest_clock env) b'" "ref_submit (stamps env) ord (abs_at (expire_clock env) b) = (abs_book b', Inr x)"
        "open_ids b' = track ev (open_ids b)" "event_ids ev \<subseteq> insert (order_id ord) (open_ids b)" by auto
    then show ?thesis
      using ref_submit_ok [OF abs_at_ok [OF ok(2)] q(1) b'(2)] ref_submit_own [OF abs_at_own [OF ok(3)] b'(2) q(2)]
      by (simp add: book_inv_def)
  next
    case False
    then show ?thesis using run l ok book_submit_wrong_symbol [OF False, of env]
      by (auto simp: book_inv_def intro: book_ok_later)
  qed
next
  fix t b now oid b' ev res
  assume inv: "book_inv t b" and now: "t \<le> now" and run: "book_cancel now oid b = (b', ev, res)"
  have ok: "book_ok t b" "ref_ok (abs_book b)" "own_orders (abs_book b)" using inv by (simp_all add: book_inv_def)
  from book_cancel_spec [OF ok(1) now, of oid] run have
    b': "book_ok now b'" "ref_cancel oid (abs_at now b) = (abs_book b', res)"
      "open_ids b' = track ev (open_ids b) - {oid}" "event_ids ev \<subseteq> open_ids b"
      "is_ok res \<longleftrightarrow> oid \<in> track ev (open_ids b)" by auto
  note rc = ref_cancel_ok [OF abs_at_ok [OF ok(2)] b'(2)]
  show "book_inv now b' \<and> open_ids b' = track ev (open_ids b) - {oid} \<and> event_ids ev \<subseteq> open_ids b
      \<and> (is_ok res \<longleftrightarrow> oid \<in> track ev (open_ids b)) \<and> (\<forall>e. res = Inl e \<longrightarrow> e = OrderNotFoundError oid)"
    using b' rc(1) rc(3) ref_cancel_own [OF abs_at_own [OF ok(3)] abs_at_ok [OF ok(2)] b'(2)]
    by (auto simp: book_inv_def)
qed

section \<open>The invariant of the registry\<close>

definition registry_ok :: "seconds \<Rightarrow> registry \<Rightarrow> bool" where
  "registry_ok t g \<longleftrightarrow> dict_ok (rg_books g) \<and> dict_ok (rg_orders g)
     \<and> (\<forall>sy b. dict_get (rg_books g) sy = Some b \<longrightarrow> book_inv t b \<and> bk_symbol b = sy)
     \<and> books.exact (map_of (rg_books g)) (map_of (rg_orders g))"

lemma registry_okD:
  assumes "registry_ok t g"
  shows "dict_ok (rg_books g)" "dict_ok (rg_orders g)"
    "dict_get (rg_books g) sy = Some b \<Longrightarrow> book_inv t b" "dict_get (rg_books g) sy = Some b \<Longrightarrow> bk_symbol b = sy"
    "books.exact (map_of (rg_books g)) (map_of (rg_orders g))"
  using assms by (auto simp: registry_ok_def)

lemma callbacks_frame:
  "rg_books (callbacks sy ev g) = rg_books g" "rg_session (callbacks sy ev g) = rg_session g"
  "rg_cache (callbacks sy ev g) = rg_cache g"
  by (induction sy ev g rule: callbacks.induct) (simp_all add: order_rested_def order_closed_def Let_def)

lemma callbacks_orders:
  "map_of (rg_orders (callbacks sy ev g)) = track_map sy ev (map_of (rg_orders g))"
  "dict_ok (rg_orders g) \<Longrightarrow> dict_ok (rg_orders (callbacks sy ev g))"
proof -
  have c: "rg_orders (order_closed oid why sy g) = dict_pop (rg_orders g) oid" for oid why sy g
    by (simp add: order_closed_def Let_def)
  have r: "rg_orders (order_rested oid sy g) = dict_set (rg_orders g) oid sy" for oid sy g
    by (simp add: order_rested_def)
  have u: "map_of (dict_set d k v) = (map_of d)(k \<mapsto> v)" "map_of (dict_pop d k) = (map_of d)(k := None)"
    for d :: "(uuid, symbol) dict" and k v
    by (auto simp: dict_simps fun_eq_iff)
  show "map_of (rg_orders (callbacks sy ev g)) = track_map sy ev (map_of (rg_orders g))"
    by (induction sy ev g rule: callbacks.induct) (simp_all only: callbacks.simps track_map.simps c r u)
  show "dict_ok (rg_orders g) \<Longrightarrow> dict_ok (rg_orders (callbacks sy ev g))"
    by (induction sy ev g rule: callbacks.induct) (simp_all add: c r dict_ok_set dict_ok_pop)
qed

lemma registry_ok_cache [simp]: "registry_ok t (g\<lparr>rg_cache := c\<rparr>) = registry_ok t g"
  by (simp add: registry_ok_def)

lemma registry_ok_later: "registry_ok t g \<Longrightarrow> t \<le> t' \<Longrightarrow> registry_ok t' g"
  using books.later unfolding registry_ok_def by blast

lemma registry_ok_empty: "registry_ok t (g\<lparr>rg_books := [], rg_orders := [], rg_session := d\<rparr>)"
  by (simp add: registry_ok_def books.exact_def)

lemma reg_get_ok:
  assumes ok: "registry_ok t g" and run: "reg_get me sy g = (g', res)"
  shows "registry_ok t g'" "rg_orders g' = rg_orders g" "rg_session g' = rg_session g"
    "res = Inr (Some b) \<Longrightarrow> dict_get (rg_books g') sy = Some b"
    "dict_get (rg_books g) sy = Some c \<Longrightarrow> res = Inr (Some b) \<Longrightarrow> b = c"
proof -
  obtain c owned where o: "is_owned_symbol (me_settings me) (me_rows me) sy (rg_cache g) = (c, owned)" by fastforce
  let ?g = "g\<lparr>rg_cache := c\<rparr>"
  have new: "registry_ok t (?g\<lparr>rg_books := dict_set (rg_books ?g) sy b\<rparr>)"
    if "dict_get (rg_books g) sy = None" "make_book sy 200 (me_max_age me) = Inr b" for b
  proof -
    note m = make_book_spec [OF that(2)]
    have lv: "rb_side (abs_book b) s = []" for s using m(6) by simp
    then have "ref_ok (abs_book b)" by (auto simp: ref_ok_def side_list_ok_def uncrossed_side [where s = BUY])
    moreover have "own_orders (abs_book b)" using lv by (simp add: own_orders_def)
    ultimately have "book_inv t b" using m(1) by (simp add: book_inv_def)
    moreover have "books.exact ((map_of (rg_books g))(sy \<mapsto> b)) (map_of (rg_orders g))"
      using registry_okD(5) [OF ok] that(1) m(2) by (auto simp: books.exact_def)
    ultimately show ?thesis
      using ok m(3) by (auto simp: registry_ok_def dict_ok_set dict_simps update_conv)
  qed
  from run o have g': "g' = ?g \<or> (\<exists>b. dict_get (rg_books g) sy = None \<and> make_book sy 200 (me_max_age me) = Inr b
      \<and> g' = ?g\<lparr>rg_books := dict_set (rg_books ?g) sy b\<rparr>)"
    by (auto simp: reg_get_def Let_def split: sum.splits bool.splits option.splits)
  then show "registry_ok t g'" "rg_orders g' = rg_orders g" "rg_session g' = rg_session g"
    using ok new by auto
  show "res = Inr (Some b) \<Longrightarrow> dict_get (rg_books g') sy = Some b"
    and "dict_get (rg_books g) sy = Some c' \<Longrightarrow> res = Inr (Some b) \<Longrightarrow> b = c'" for c'
    using run o by (auto simp: reg_get_def Let_def dict_simps split: sum.splits bool.splits option.splits)
qed

lemma on_book_ok:
  assumes ok: "registry_ok t g" and t: "t \<le> t'" and inv: "book_inv t' b'" "bk_symbol b' = sy"
    and ex: "books.exact ((map_of (rg_books g))(sy \<mapsto> b')) m"
    and run: "g' = callbacks sy ev (g\<lparr>rg_books := dict_set (rg_books g) sy b'\<rparr>)\<lparr>rg_orders := d\<rparr>"
    and m: "map_of d = m" "dict_ok d"
  shows "registry_ok t' g'"
proof -
  have b: "rg_books g' = dict_set (rg_books g) sy b'" by (simp add: run callbacks_frame)
  have "book_inv t' c \<and> bk_symbol c = sy'" if "dict_get (rg_books g') sy' = Some c" for sy' c
    using that inv registry_okD(3,4) [OF ok] books.later [OF _ t] unfolding b by (auto simp: dict_simps split: if_splits)
  moreover have "map_of (dict_set (rg_books g) sy b') = (map_of (rg_books g))(sy \<mapsto> b')" by (auto simp: dict_simps fun_eq_iff)
  moreover have "rg_orders g' = d" by (simp add: run)
  ultimately show ?thesis
    using registry_okD(1) [OF ok] m ex unfolding registry_ok_def b by (auto simp: dict_ok_set)
qed

lemma callbacks_set_orders: "g\<lparr>rg_orders := rg_orders g\<rparr> = (g :: registry)"
  by simp

lemma reg_submit_ok:
  assumes ok: "registry_ok t g" and l: "t \<le> expire_clock env" "expire_clock env \<le> rest_clock env" "valid_order ord"
    and new: "dict_get (rg_orders g) (order_id ord) = None" and run: "reg_submit me env ord g = (g', res)"
  shows "registry_ok (rest_clock env) g'"
proof -
  obtain g1 r where g: "reg_get me (order_symbol ord) g = (g1, r)" by fastforce
  note get = reg_get_ok [OF ok g]
  have t: "t \<le> rest_clock env" using l by simp
  show ?thesis
  proof (cases r)
    case (Inl e)
    then show ?thesis using run g get(1) registry_ok_later [OF _ t] by (simp add: reg_submit_def)
  next
    case (Inr x)
    show ?thesis
    proof (cases x)
      case None
      then show ?thesis using run g Inr get(1) registry_ok_later [OF _ t] by (simp add: reg_submit_def)
    next
      case (Some b)
      have b: "dict_get (rg_books g1) (order_symbol ord) = Some b" using get(4) Inr Some by simp
      obtain b' ev r' where s: "book_submit env ord b = (b', ev, r')" by (cases "book_submit env ord b") auto
      have inv: "book_inv t b" "bk_symbol b = order_symbol ord" using registry_okD(3,4) [OF get(1) b] by simp_all
      have new1: "map_of (rg_orders g1) (order_id ord) = None" using new get(2) by simp
      note law = books.submit_exact [OF registry_okD(5) [OF get(1)] b inv(1) l new1 s]
      have fresh: "order_id ord \<notin> open_ids b"
        using registry_okD(5) [OF get(1)] b new1 by (metis books.exact_def option.distinct(1))
      have q: "0 < quantity ord" using l(3) by (simp add: valid_order_def)
      have "bk_symbol b' = order_symbol ord"
        using book_submit_spec [OF _ l(1,2) _ q fresh] inv s by (auto simp: book_inv_def)
      moreover define g2 where "g2 = callbacks (order_symbol ord) ev (g1\<lparr>rg_books := dict_set (rg_books g1) (order_symbol ord) b'\<rparr>)"
      moreover have "map_of (rg_orders g2) = track_map (order_symbol ord) ev (map_of (rg_orders g1))"
        unfolding g2_def callbacks_orders(1) by simp
      moreover have "dict_ok (rg_orders g2)"
        unfolding g2_def by (rule callbacks_orders(2)) (simp add: registry_okD(2) [OF get(1)])
      moreover have "g' = g2" using run g Inr Some s by (simp add: reg_submit_def on_book_def g2_def)
      ultimately show ?thesis
        using on_book_ok [OF get(1) t law(2) _ law(1), where g' = g2 and ev = ev and d = "rg_orders g2"] by simp
    qed
  qed
qed

lemma reg_cancel_ok:
  assumes ok: "registry_ok t g" and now: "t \<le> now" and run: "reg_cancel me now oid g = (g', res)"
  shows "registry_ok now g'"
    and "is_ok res \<Longrightarrow> dict_get (rg_orders g) oid \<noteq> None \<and> dict_get (rg_orders g') oid = None"
proof -
  have "registry_ok now g' \<and> (is_ok res \<longrightarrow> dict_get (rg_orders g) oid \<noteq> None \<and> dict_get (rg_orders g') oid = None)"
  proof (cases "dict_get (rg_orders g) oid")
    case None
    then show ?thesis using run ok registry_ok_later [OF _ now] by (auto simp: reg_cancel_def)
  next
    case (Some sy)
    obtain g1 r where g: "reg_get me sy g = (g1, r)" by fastforce
    note get = reg_get_ok [OF ok g]
    consider e where "r = Inl e" | "r = Inr None" | b where "r = Inr (Some b)" by (metis old.sum.exhaust option.exhaust)
    then show ?thesis
    proof cases
      case 1
      then show ?thesis using run g Some get(1) registry_ok_later [OF _ now] by (auto simp: reg_cancel_def)
    next
      case 2
      then show ?thesis using run g Some get(1) registry_ok_later [OF _ now] by (auto simp: reg_cancel_def)
    next
      case (3 b)
      have b: "dict_get (rg_books g1) sy = Some b" using get(4) 3 by simp
      obtain b' ev r' where s: "book_cancel now oid b = (b', ev, r')" by (cases "book_cancel now oid b") auto
      have inv: "book_inv t b" "bk_symbol b = sy" using registry_okD(3,4) [OF get(1) b] by simp_all
      have m: "map_of (rg_orders g1) oid = Some sy" using Some get(2) by simp
      note law = books.cancel_exact [OF registry_okD(5) [OF get(1)] b inv(1) now m s]
      have sy': "bk_symbol b' = sy"
        using book_cancel_spec [of t b now oid] inv now s by (auto simp: book_inv_def)
      define g2 where "g2 = callbacks sy ev (g1\<lparr>rg_books := dict_set (rg_books g1) sy b'\<rparr>)"
      have "g' = g2\<lparr>rg_orders := dict_pop (rg_orders g2) oid\<rparr>"
      proof (cases r')
        case (Inl e)
        then show ?thesis using law(3) [OF Inl] run g Some 3 s by (simp add: reg_cancel_def on_book_def g2_def)
      next
        case (Inr x)
        then show ?thesis using run g Some 3 s by (simp add: reg_cancel_def on_book_def g2_def)
      qed
      moreover have "map_of (dict_pop (rg_orders g2) oid) = (track_map sy ev (map_of (rg_orders g1)))(oid := None)"
        by (auto simp: dict_simps fun_eq_iff g2_def callbacks_orders)
      moreover have "dict_ok (dict_pop (rg_orders g2) oid)"
        using registry_okD(2) [OF get(1)] by (simp add: g2_def callbacks_orders dict_ok_pop)
      ultimately show ?thesis
        using on_book_ok [OF get(1) now law(2) sy' law(1)] Some by (auto simp: g2_def dict_simps)
    qed
  qed
  then show "registry_ok now g'" "is_ok res \<Longrightarrow> dict_get (rg_orders g) oid \<noteq> None \<and> dict_get (rg_orders g') oid = None"
    by blast+
qed

text \<open>
  A question to a book of the registry, a snapshot or a running total: it expires old orders
  first, and the callbacks of these run.
\<close>

definition ask_book :: "seconds \<Rightarrow> (book \<Rightarrow> py_error + 'a) \<Rightarrow> book \<Rightarrow> 'a call" where
  "ask_book now f b = after_expiry now b (\<lambda>b1 ev. (b1, ev, f b1))"

lemma ask_book_ok:
  assumes ok: "registry_ok t g" and now: "t \<le> now" and b: "dict_get (rg_books g) sy = Some b"
    and run: "on_book sy (ask_book now f b) g = (g', res)"
  shows "registry_ok now g'"
    and "\<exists>b'. dict_get (rg_books g') sy = Some b' \<and> book_inv now b' \<and> abs_book b' = abs_at now b
      \<and> bk_max_age b' = bk_max_age b \<and> res = f b'"
    and "dict_get (rg_orders g) oid = None \<Longrightarrow> dict_get (rg_orders g') oid = None"
    and "rg_cache g' = rg_cache g"
proof -
  have inv: "book_ok t b" "ref_ok (abs_book b)" "bk_symbol b = sy" "own_orders (abs_book b)"
    using registry_okD(3,4) [OF ok b] by (simp_all add: book_inv_def)
  obtain b' ev where e: "book_expire now b = Inr (b', ev)" "book_ok now b'" "same_frame b b'"
    "abs_book b' = abs_at now b" "open_ids b' = track ev (open_ids b)" "event_ids ev \<subseteq> open_ids b"
    using book_expire_spec [OF inv(1) now] by blast
  have ref: "ref_ok (abs_book b')" "own_orders (abs_book b')" using abs_at_ok [OF inv(2)] abs_at_own [OF inv(4)] e(4) by simp_all
  have sy: "bk_symbol b' = sy" using e(3) inv(3) by (simp add: same_frame_def)
  define g2 where "g2 = callbacks sy ev (g\<lparr>rg_books := dict_set (rg_books g) sy b'\<rparr>)"
  have g': "g' = g2" "res = f b'"
    using run by (auto simp: on_book_def ask_book_def after_expiry_def e(1) g2_def)
  have "books.exact ((map_of (rg_books g))(sy \<mapsto> b')) (\<lambda>oid. if oid \<in> {} then None else track_map sy ev (map_of (rg_orders g)) oid)"
    using e(5,6) by (intro books.exact_update [OF registry_okD(5) [OF ok] b]) auto
  then have ex: "books.exact ((map_of (rg_books g))(sy \<mapsto> b')) (map_of (rg_orders g2))"
    by (simp add: g2_def callbacks_orders)
  have "dict_ok (rg_orders g2)"
    unfolding g2_def by (rule callbacks_orders(2)) (simp add: registry_okD(2) [OF ok])
  then show "registry_ok now g'"
    using on_book_ok [OF ok now _ sy ex, where g' = g2 and ev = ev and d = "rg_orders g2"] e(2) ref
    by (simp add: g' g2_def book_inv_def)
  show "rg_cache g' = rg_cache g" by (simp add: g' g2_def callbacks_frame)
  show "dict_get (rg_orders g') oid = None" if none: "dict_get (rg_orders g) oid = None"
  proof -
    have "oid \<notin> open_ids b" using registry_okD(5) [OF ok] b none by (metis books.exact_def option.distinct(1))
    then have "oid \<notin> event_ids ev" using e(6) by blast
    then show ?thesis using track_map_other none by (simp add: g' g2_def callbacks_orders)
  qed
  have "dict_get (rg_books g2) sy = Some b'" by (simp add: g2_def callbacks_frame dict_simps)
  then show "\<exists>b'. dict_get (rg_books g') sy = Some b' \<and> book_inv now b' \<and> abs_book b' = abs_at now b
      \<and> bk_max_age b' = bk_max_age b \<and> res = f b'"
    using e(2-4) ref g' by (auto simp: book_inv_def same_frame_def)
qed

section \<open>Reachable registries\<close>

inductive reg_reach :: "seconds \<Rightarrow> registry \<Rightarrow> bool" where
  start: "reg_reach t new_registry"
| wait: "reg_reach t g \<Longrightarrow> t \<le> t' \<Longrightarrow> reg_reach t' g"
| submit: "reg_reach t g \<Longrightarrow> t \<le> expire_clock env \<Longrightarrow> expire_clock env \<le> rest_clock env \<Longrightarrow> valid_order ord \<Longrightarrow>
    dict_get (rg_orders g) (order_id ord) = None \<Longrightarrow> reg_submit me env ord g = (g', r) \<Longrightarrow> reg_reach (rest_clock env) g'"
| cancel: "reg_reach t g \<Longrightarrow> t \<le> now \<Longrightarrow> reg_cancel me now oid g = (g', r2) \<Longrightarrow> reg_reach now g'"
| get: "reg_reach t g \<Longrightarrow> reg_get me sy g = (g', r3) \<Longrightarrow> reg_reach t g'"
| cache: "reg_reach t g \<Longrightarrow> reg_reach t (g\<lparr>rg_cache := c\<rparr>)"
| ask: "reg_reach t g \<Longrightarrow> t \<le> now \<Longrightarrow> dict_get (rg_books g) sy = Some b \<Longrightarrow>
    on_book sy (ask_book now f b) g = (g', r4 :: py_error + int) \<Longrightarrow> reg_reach now g'"
| look: "reg_reach t g \<Longrightarrow> t \<le> now \<Longrightarrow> dict_get (rg_books g) sy = Some b \<Longrightarrow>
    on_book sy (ask_book now f2 b) g = (g', r5 :: py_error + book_snapshot) \<Longrightarrow> reg_reach now g'"
| rollover: "reg_reach t g \<Longrightarrow> rollover d g = (g', cleared) \<Longrightarrow> reg_reach t g'"
| reset_books: "reg_reach t g \<Longrightarrow> reset_books g = (g', cleared) \<Longrightarrow> reg_reach t g'"
| reset: "reg_reach t g \<Longrightarrow> reg_reach t (reg_reset g)"

lemma rollover_ok: "registry_ok t g \<Longrightarrow> rollover d g = (g', cleared) \<Longrightarrow> registry_ok t g'"
proof -
  have "registry_ok t (g\<lparr>rg_session := x\<rparr>) = registry_ok t g" for x by (simp add: registry_ok_def)
  then show "registry_ok t g \<Longrightarrow> rollover d g = (g', cleared) \<Longrightarrow> registry_ok t g'"
    by (auto simp: rollover_def registry_ok_empty split: option.splits if_splits)
qed

lemma reg_reach_ok: "reg_reach t g \<Longrightarrow> registry_ok t g"
proof (induction rule: reg_reach.induct)
  case (start t)
  show ?case by (simp add: new_registry_def registry_ok_def books.exact_def)
next
  case (wait t g t')
  then show ?case using registry_ok_later by blast
next
  case (submit t g env ord me g' r)
  then show ?case using reg_submit_ok by blast
next
  case (cancel t g now me oid g' r2)
  then show ?case using reg_cancel_ok by blast
next
  case (get t g me sy g' r3)
  then show ?case using reg_get_ok by blast
next
  case (cache t g c)
  then show ?case by simp
next
  case (ask t g now sy b f g' r4)
  show ?case by (rule ask_book_ok(1) [OF ask.IH ask.hyps(2,3,4)])
next
  case (look t g now sy b f2 g' r5)
  show ?case by (rule ask_book_ok(1) [OF look.IH look.hyps(2,3,4)])
next
  case (rollover t g d g' cleared)
  then show ?case using rollover_ok by blast
next
  case (reset_books t g g' cleared)
  then show ?case by (auto simp: reset_books_def registry_ok_empty)
next
  case (reset t g)
  then show ?case by (auto simp: reg_reset_def reset_books_def registry_ok_empty)
qed

text \<open>A registry with one resting order.\<close>

definition demo_me :: matcher_env where
  "demo_me = \<lparr>me_settings = \<lparr>symbol_limit = 10, shard_count = 1, shard_index = 0\<rparr>, me_rows = [], me_max_age = 0\<rparr>"

definition demo_registry :: registry where
  "demo_registry = fst (reg_submit demo_me (demo_env 0) (demo_order SELL 100 5 1) new_registry)"

lemma demo_registry_reach: "reg_reach 0 demo_registry"
  using reg_reach.submit [OF reg_reach.start [of 0], of "demo_env 0" "demo_order SELL 100 5 1" demo_me]
  by (cases "reg_submit demo_me (demo_env 0) (demo_order SELL 100 5 1) new_registry")
    (simp add: demo_registry_def new_registry_def)

lemma demo_registry_orders: "rg_orders demo_registry = [(1, ''005930'')]"
  by code_simp

section \<open>Properties\<close>

text \<open>C17: the registry's map of open orders is exact in every state that submissions, cancels,
  lookups, questions to its books, rollovers and resets lead to: an identifier maps to a symbol if and only if that
  symbol's book holds the order open, so no order is open in two books and no filled,
  canceled or expired order stays in the map.\<close>

theorem registry_map_is_exact:
  assumes "reg_reach t g"
  shows "(dict_get (rg_orders g) oid = Some sy \<longleftrightarrow> (\<exists>b. dict_get (rg_books g) sy = Some b \<and> oid \<in> open_ids b))
    \<and> (\<forall>sy1 sy2 b1 b2. dict_get (rg_books g) sy1 = Some b1 \<and> dict_get (rg_books g) sy2 = Some b2
         \<and> oid \<in> open_ids b1 \<and> oid \<in> open_ids b2 \<longrightarrow> sy1 = sy2)
    \<and> open_order_id_count g = card (\<Union>(sy, b)\<in>set (rg_books g). open_ids b)"
proof -
  note ok = reg_reach_ok [OF assms]
  have ex: "dict_get (rg_orders g) oid = Some sy \<longleftrightarrow> (\<exists>b. dict_get (rg_books g) sy = Some b \<and> oid \<in> open_ids b)" for oid sy
    using registry_okD(5) [OF ok] by (simp add: books.exact_def)
  have "dom (map_of (rg_orders g)) = (\<Union>(sy, b)\<in>set (rg_books g). open_ids b)"
  proof (intro set_eqI iffI)
    fix i assume "i \<in> dom (map_of (rg_orders g))"
    then obtain s b where "dict_get (rg_books g) s = Some b" "i \<in> open_ids b" using ex by auto
    then show "i \<in> (\<Union>(sy, b)\<in>set (rg_books g). open_ids b)" by (auto dest: map_of_SomeD)
  next
    fix i assume "i \<in> (\<Union>(sy, b)\<in>set (rg_books g). open_ids b)"
    then obtain s b where "(s, b) \<in> set (rg_books g)" "i \<in> open_ids b" by auto
    then have "dict_get (rg_orders g) i = Some s" using ex registry_okD(1) [OF ok] by auto
    then show "i \<in> dom (map_of (rg_orders g))" by auto
  qed
  then have "open_order_id_count g = card (\<Union>(sy, b)\<in>set (rg_books g). open_ids b)"
    using dict_len_card [OF registry_okD(2) [OF ok]] by (simp add: open_order_id_count_def)
  moreover have "sy1 = sy2" if "dict_get (rg_books g) sy1 = Some b1" "dict_get (rg_books g) sy2 = Some b2"
    "oid \<in> open_ids b1" "oid \<in> open_ids b2" for sy1 sy2 b1 b2
    using ex that by (metis option.inject)
  ultimately show ?thesis using ex by blast
qed

lemma registry_map_is_exact_witness:
  "\<exists>b. dict_get (rg_books demo_registry) ''005930'' = Some b \<and> 1 \<in> open_ids b"
  using registry_map_is_exact [OF demo_registry_reach, of 1 "''005930''"] by (simp add: demo_registry_orders)

text \<open>A cancel that succeeds takes a tracked order out of the map and out of its book; a
  cancel of an identifier that is not tracked changes nothing and raises
  \<open>OrderNotFoundError\<close>; no cancel brings an order into the map.\<close>

theorem registry_cancel_effect:
  assumes "reg_reach t g" "t \<le> now" "reg_cancel me now oid g = (g', res)"
  shows "(is_ok res \<longrightarrow> dict_get (rg_orders g) oid \<noteq> None \<and> dict_get (rg_orders g') oid = None
           \<and> (\<forall>sy b. dict_get (rg_books g') sy = Some b \<longrightarrow> oid \<notin> open_ids b))
    \<and> (dict_get (rg_orders g) oid = None \<longrightarrow> g' = g \<and> res = Inl (OrderNotFoundError oid))"
proof -
  note ok = reg_reach_ok [OF assms(1)]
  note c = reg_cancel_ok [OF ok assms(2,3)]
  have "oid \<notin> open_ids b" if "dict_get (rg_orders g') oid = None" "dict_get (rg_books g') sy = Some b" for sy b
    using registry_okD(5) [OF c(1)] that by (metis books.exact_def option.distinct(1))
  then show ?thesis using c(2) assms(3) by (auto simp: reg_cancel_def)
qed

lemma registry_cancel_effect_witness:
  "\<exists>g' x. reg_cancel demo_me 5 1 demo_registry = (g', Inr x) \<and> dict_get (rg_orders g') 1 = None"
proof -
  have "is_ok (snd (reg_cancel demo_me 5 1 demo_registry))" by code_simp
  then obtain g' x where r: "reg_cancel demo_me 5 1 demo_registry = (g', Inr x)"
    by (cases "reg_cancel demo_me 5 1 demo_registry") (auto simp: is_ok_def split: sum.splits)
  have "(0::seconds) \<le> 5" by simp
  from registry_cancel_effect [OF demo_registry_reach this r] r show ?thesis by auto
qed

text \<open>A rollover clears the books and the map exactly when the session date is later than
  the active one, names every symbol whose book it cleared, and never moves the active date
  back; a first date only becomes the active one.\<close>

theorem rollover_effect:
  assumes "rollover d g = (g', cleared)"
  shows "(\<exists>a n. rg_session g = Some a \<and> d = Some n \<and> a < n
        \<and> rg_books g' = [] \<and> rg_orders g' = [] \<and> rg_session g' = Some n \<and> cleared = dict_keys (rg_books g))
    \<or> (\<not> (\<exists>a n. rg_session g = Some a \<and> d = Some n \<and> a < n)
        \<and> rg_books g' = rg_books g \<and> rg_orders g' = rg_orders g \<and> cleared = []
        \<and> rg_session g' = (if rg_session g = None then d else rg_session g))"
  using assms by (cases d; cases "rg_session g") (auto simp: rollover_def split: if_splits)

lemma rollover_effect_witness:
  "\<exists>g'. rollover (Some 8) (demo_registry\<lparr>rg_session := Some 7\<rparr>) = (g', dict_keys (rg_books demo_registry))
     \<and> rg_orders g' = []"
proof -
  obtain g' cl where r: "rollover (Some 8) (demo_registry\<lparr>rg_session := Some 7\<rparr>) = (g', cl)" by fastforce
  from rollover_effect [OF r] r show ?thesis by auto
qed

end
