(* ===== verification/Market_Session.thy ===== *)
theory Market_Session
  imports Py_Strings
begin

text \<open>
  \<open>backend/exchange/market_session.py\<close>: the weekday session policy in Korean time.

  A date is its day number since 1 January 1970, a Thursday. A local time in \<open>Asia/Seoul\<close> is
  a day and a number of microseconds since midnight. An aware \<open>datetime\<close> is the instant it
  denotes, in microseconds since the epoch; the offset of \<open>Asia/Seoul\<close> at an instant comes
  from the time zone database, the argument \<open>seoul\<close>.
\<close>

section \<open>Times\<close>

record local_time =
  lt_day :: int
  lt_usec :: int

definition usec_per_hour :: int where
  "usec_per_hour = 60 * 60 * 1000000"

definition usec_per_day :: int where
  "usec_per_day = 24 * usec_per_hour"

definition well_timed :: "local_time \<Rightarrow> bool" where
  "well_timed x \<longleftrightarrow> 0 \<le> lt_usec x \<and> lt_usec x < usec_per_day"

text \<open>\<open>weekday()\<close>: Monday is 0.\<close>

definition weekday :: "int \<Rightarrow> int" where
  "weekday day = (day + 3) mod 7"

text \<open>Local times compare by date, then time of day.\<close>

instantiation local_time_ext :: (linorder) linorder
begin

definition less_eq_local_time_ext :: "'a local_time_scheme \<Rightarrow> 'a local_time_scheme \<Rightarrow> bool" where
  "less_eq_local_time_ext x y \<longleftrightarrow> lt_day x < lt_day y \<or> lt_day x = lt_day y \<and>
     (lt_usec x < lt_usec y \<or> lt_usec x = lt_usec y \<and> local_time.more x \<le> local_time.more y)"

definition less_local_time_ext :: "'a local_time_scheme \<Rightarrow> 'a local_time_scheme \<Rightarrow> bool" where
  "less_local_time_ext x y \<longleftrightarrow> lt_day x < lt_day y \<or> lt_day x = lt_day y \<and>
     (lt_usec x < lt_usec y \<or> lt_usec x = lt_usec y \<and> local_time.more x < local_time.more y)"

instance
proof
  fix x y z :: "'a local_time_scheme"
  show "x < y \<longleftrightarrow> x \<le> y \<and> \<not> y \<le> x"
    by (auto simp: less_eq_local_time_ext_def less_local_time_ext_def)
  show "x \<le> x" by (simp add: less_eq_local_time_ext_def)
  show "x \<le> z" if "x \<le> y" "y \<le> z" using that by (auto simp: less_eq_local_time_ext_def)
  show "x = y" if "x \<le> y" "y \<le> x"
    using that by (auto simp: less_eq_local_time_ext_def intro: local_time.equality)
  show "x \<le> y \<or> y \<le> x" by (auto simp: less_eq_local_time_ext_def)
qed

end

lemma local_time_le_iff:
  "x \<le> y \<longleftrightarrow> lt_day x < lt_day y \<or> lt_day x = lt_day y \<and> lt_usec x \<le> lt_usec y" for x y :: local_time
  by (auto simp: less_eq_local_time_ext_def)

lemma local_time_less_iff:
  "x < y \<longleftrightarrow> lt_day x < lt_day y \<or> lt_day x = lt_day y \<and> lt_usec x < lt_usec y" for x y :: local_time
  by (auto simp: less_local_time_ext_def)

section \<open>The policy\<close>

datatype market_mode = Scheduled | AlwaysOpen

definition make_session :: "string \<Rightarrow> py_error + market_mode" where
  "make_session mode =
     (if mode = ''scheduled'' then Inr Scheduled
      else if mode = ''always_open'' then Inr AlwaysOpen
      else Inl (ValueError ''mode must be one of: always_open, scheduled''))"

definition market_open :: int where
  "market_open = 9 * usec_per_hour"

definition market_close :: int where
  "market_close = 15 * usec_per_hour + usec_per_hour div 2"

datatype datetime = Naive int | Aware int

definition localize :: "(int \<Rightarrow> int) \<Rightarrow> datetime \<Rightarrow> py_error + local_time" where
  "localize seoul now =
     (case now of
        Naive _ \<Rightarrow> Inl (ValueError ''market session datetime must be timezone-aware'')
      | Aware i \<Rightarrow>
          (let n = i + seoul i
           in Inr \<lparr>lt_day = n div usec_per_day, lt_usec = n mod usec_per_day\<rparr>))"

definition open_local :: "market_mode \<Rightarrow> local_time \<Rightarrow> bool" where
  "open_local mode t \<longleftrightarrow> mode = AlwaysOpen
     \<or> weekday (lt_day t) < 5 \<and> market_open \<le> lt_usec t \<and> lt_usec t < market_close"

definition is_open :: "(int \<Rightarrow> int) \<Rightarrow> market_mode \<Rightarrow> datetime \<Rightarrow> py_error + bool" where
  "is_open seoul mode now = ebind (localize seoul now) (\<lambda>t. Inr (open_local mode t))"

definition session_local :: "market_mode \<Rightarrow> local_time \<Rightarrow> int option" where
  "session_local mode t =
     (if mode = AlwaysOpen \<or> weekday (lt_day t) < 5 then Some (lt_day t) else None)"

definition session_date :: "(int \<Rightarrow> int) \<Rightarrow> market_mode \<Rightarrow> datetime \<Rightarrow> py_error + int option" where
  "session_date seoul mode now = ebind (localize seoul now) (\<lambda>t. Inr (session_local mode t))"

lemma weekday_bounds: "0 \<le> weekday d" "weekday d < 7"
  by (simp_all add: weekday_def)

lemma weekday_next: "weekday (d + 1) = (if weekday d = 6 then 0 else weekday d + 1)"
proof -
  have "weekday (d + 1) = (weekday d + 1) mod 7"
    unfolding weekday_def by (simp add: mod_simps algebra_simps)
  then show ?thesis using weekday_bounds [of d] by auto
qed

function next_trading_day :: "int \<Rightarrow> int" where
  "next_trading_day day = (if 5 \<le> weekday day then next_trading_day (day + 1) else day)"
  by pat_completeness auto
termination
proof (relation "measure (\<lambda>day. nat ((7 - weekday day) mod 7))", goal_cases)
  case (2 day)
  then have "weekday day = 5 \<or> weekday day = 6" using weekday_bounds(2) [of day] by linarith
  then show ?case by (auto simp: weekday_next)
qed simp

declare next_trading_day.simps [simp del]

definition next_open_local :: "market_mode \<Rightarrow> local_time \<Rightarrow> local_time" where
  "next_open_local mode t =
     (if mode = AlwaysOpen \<or> open_local mode t then t
      else if weekday (lt_day t) < 5 \<and> lt_usec t < market_open then \<lparr>lt_day = lt_day t, lt_usec = market_open\<rparr>
      else \<lparr>lt_day = next_trading_day (lt_day t + 1), lt_usec = market_open\<rparr>)"

definition next_open :: "(int \<Rightarrow> int) \<Rightarrow> market_mode \<Rightarrow> datetime \<Rightarrow> py_error + local_time" where
  "next_open seoul mode now = ebind (localize seoul now) (\<lambda>t. Inr (next_open_local mode t))"

section \<open>Facts\<close>

lemma next_trading_day_spec:
  "day \<le> next_trading_day day \<and> weekday (next_trading_day day) < 5
   \<and> (\<forall>d. day \<le> d \<and> d < next_trading_day day \<longrightarrow> 5 \<le> weekday d)"
proof (induction day rule: next_trading_day.induct)
  case (1 day)
  show ?case
  proof (cases "5 \<le> weekday day")
    case True
    have "\<forall>d. day \<le> d \<and> d < next_trading_day (day + 1) \<longrightarrow> 5 \<le> weekday d"
      using 1 True by (metis order_le_less zless_add1_eq linorder_not_less)
    then show ?thesis using 1 True by (simp add: next_trading_day.simps [of day])
  qed (simp add: next_trading_day.simps [of day])
qed

lemma hours: "0 < market_open" "market_open < market_close" "market_close < usec_per_day"
  by (simp_all add: market_open_def market_close_def usec_per_day_def usec_per_hour_def)

lemma localize_well_timed: "localize seoul now = Inr t \<Longrightarrow> well_timed t"
  by (auto simp: localize_def well_timed_def usec_per_day_def usec_per_hour_def Let_def split: datetime.splits)

section \<open>Properties\<close>

text \<open>C14: \<open>next_open\<close> is the earliest time from now on at which the market is open: it is not
  before now, the market is open then, and it is closed at every moment before.\<close>

theorem next_open_is_earliest:
  assumes "next_open seoul mode now = Inr t"
  shows "\<exists>l. localize seoul now = Inr l \<and> l \<le> t \<and> open_local mode t
    \<and> (\<forall>u. well_timed u \<longrightarrow> l \<le> u \<longrightarrow> u < t \<longrightarrow> \<not> open_local mode u)"
proof -
  from assms obtain l where l: "localize seoul now = Inr l" "t = next_open_local mode l"
    by (auto simp: next_open_def ebind_eq_Inr_iff)
  note nt = next_trading_day_spec [of "lt_day l + 1"]
  consider (now) "mode = AlwaysOpen \<or> open_local mode l" | (later) "mode = Scheduled" "\<not> open_local mode l"
      "weekday (lt_day l) < 5" "lt_usec l < market_open" "t = \<lparr>lt_day = lt_day l, lt_usec = market_open\<rparr>"
    | (day) "mode = Scheduled" "\<not> open_local mode l" "\<not> (weekday (lt_day l) < 5 \<and> lt_usec l < market_open)"
      "t = \<lparr>lt_day = next_trading_day (lt_day l + 1), lt_usec = market_open\<rparr>"
  proof (cases mode)
    case Scheduled
    then show ?thesis
      using l(2) that unfolding next_open_local_def
      by (cases "open_local mode l"; cases "weekday (lt_day l) < 5 \<and> lt_usec l < market_open") simp_all
  qed (use that in simp)
  then have "l \<le> t \<and> open_local mode t \<and> (\<forall>u. well_timed u \<longrightarrow> l \<le> u \<longrightarrow> u < t \<longrightarrow> \<not> open_local mode u)"
  proof cases
    case now
    then have "t = l" using l(2) by (auto simp: next_open_local_def)
    then show ?thesis using now by (auto simp: open_local_def)
  next
    case later
    then show ?thesis using hours
      by (auto simp: open_local_def local_time_le_iff local_time_less_iff)
  next
    case day
    have "\<not> open_local mode u" if "well_timed u" "l \<le> u" "u < t" for u
    proof
      assume o: "open_local mode u"
      have td: "lt_day t = next_trading_day (lt_day l + 1)" "lt_usec t = market_open" using day(4) by simp_all
      have wd: "weekday (lt_day u) < 5" "market_open \<le> lt_usec u" using o day(1) by (simp_all add: open_local_def)
      have d: "lt_day l \<le> lt_day u" "lt_day u \<le> lt_day t"
        using that(2,3) unfolding local_time_le_iff local_time_less_iff by linarith+
      show False
      proof (cases "lt_day u = lt_day l")
        case True
        then have "lt_usec l \<le> lt_usec u" using that(2) unfolding local_time_le_iff by linarith
        then show False using o day(1,2,3) True wd unfolding open_local_def by auto
      next
        case False
        then have "lt_day l + 1 \<le> lt_day u" using d(1) by linarith
        with nt wd(1) d(2) td(1) have "\<not> lt_day u < lt_day t" by fastforce
        then show False using that(3) wd(2) td(2) d(2) unfolding local_time_less_iff by linarith
      qed
    qed
    moreover have "l \<le> t" using nt day(4) unfolding local_time_le_iff by simp
    moreover have "open_local mode t" using nt hours day(4) by (simp add: open_local_def)
    ultimately show ?thesis by blast
  qed
  with l(1) show ?thesis by blast
qed

lemma next_open_is_earliest_witness:
  "\<exists>t. next_open (\<lambda>_. 9 * usec_per_hour) Scheduled (Aware (1 * usec_per_day + 7 * usec_per_hour)) = Inr t
     \<and> open_local Scheduled t \<and> lt_day t = 4"
proof -
  have n: "next_open (\<lambda>_. 9 * usec_per_hour) Scheduled (Aware (1 * usec_per_day + 7 * usec_per_hour))
      = Inr \<lparr>lt_day = 4, lt_usec = market_open\<rparr>"
    by (simp add: next_open_def localize_def next_open_local_def open_local_def weekday_def usec_per_day_def
        usec_per_hour_def market_open_def market_close_def next_trading_day.simps [of 2]
        next_trading_day.simps [of 3] next_trading_day.simps [of 4])
  from next_open_is_earliest [OF n] n show ?thesis by auto
qed

text \<open>The market trades only within a session: when it is open, \<open>session_date\<close> is today's
  date, and a weekend has a session date only in the always-open mode.\<close>

theorem open_market_has_session:
  assumes "localize seoul now = Inr l"
  shows "(is_open seoul mode now = Inr True \<longrightarrow> session_date seoul mode now = Inr (Some (lt_day l)))
    \<and> (session_date seoul mode now = Inr None \<longleftrightarrow> mode = Scheduled \<and> 5 \<le> weekday (lt_day l))
    \<and> (session_date seoul mode now = Inr None \<longrightarrow> is_open seoul mode now = Inr False)"
  using assms by (cases mode) (auto simp: is_open_def session_date_def open_local_def session_local_def)

lemma open_market_has_session_witness:
  "session_date (\<lambda>_. 9 * usec_per_hour) Scheduled (Aware (2 * usec_per_day)) = Inr None
     \<and> is_open (\<lambda>_. 9 * usec_per_hour) Scheduled (Aware (2 * usec_per_day)) = Inr False"
proof -
  have l: "localize (\<lambda>_. 9 * usec_per_hour) (Aware (2 * usec_per_day)) = Inr \<lparr>lt_day = 2, lt_usec = 9 * usec_per_hour\<rparr>"
    by (simp add: localize_def usec_per_day_def usec_per_hour_def)
  have "5 \<le> weekday 2" by (simp add: weekday_def)
  then show ?thesis using open_market_has_session [OF l, of Scheduled] by auto
qed

end
