(* ===== verification/Participant_Types.thy ===== *)
theory Participant_Types
  imports Order_Types
begin

text \<open>
  \<open>backend/exchange/participants/types.py\<close>: the intents that participants send to the
  market, the settings of a participant with the checks of the constructor, and the
  conversion of a wall-clock interval to runner ticks.
\<close>

section \<open>Intents and settings\<close>

definition order_ttl_seconds_default :: int where
  "order_ttl_seconds_default = 16"

definition tick_interval_ms_default :: int where
  "tick_interval_ms_default = 1000"

definition supported_strategies :: "string list" where
  "supported_strategies =
     [''noise'', ''momentum'', ''mean_reversion'', ''liquidity_provider'', ''event_reactive'']"

record order_intent =
  oi_user :: string
  oi_symbol :: symbol
  oi_side :: order_side
  oi_price :: int
  oi_quantity :: int
  oi_ttl :: "int option"

record trader_settings =
  ts_user :: string
  ts_symbol :: symbol
  ts_strategy :: string
  ts_reference :: int
  ts_step :: int
  ts_max_offset :: int
  ts_quantity_min :: int
  ts_quantity_max :: int
  ts_ttl :: int
  ts_interval :: int
  ts_seed :: int

text \<open>\<open>TraderSettings(...)\<close>: the checks of \<open>__post_init__\<close> on the fields, in their order.\<close>

definition settings_post_init :: "trader_settings \<Rightarrow> py_error + trader_settings" where
  "settings_post_init s =
     (if ts_strategy s \<notin> set supported_strategies
      then Inl (ValueError (''unsupported strategy: '' @ ts_strategy s))
      else if blank (ts_user s) \<or> blank (ts_symbol s)
      then Inl (ValueError ''user_id and symbol must not be blank'')
      else if ts_reference s < 1 \<or> ts_step s < 1
      then Inl (ValueError ''reference_price and price_step must be positive'')
      else if ts_max_offset s < 0
      then Inl (ValueError ''max_offset_steps must not be negative'')
      else if ts_quantity_min s < 1 \<or> ts_quantity_max s < ts_quantity_min s
      then Inl (ValueError ''quantity range is invalid'')
      else if ts_ttl s < 1 \<or> ts_interval s < 1
      then Inl (ValueError ''ttl and interval must be at least 1'')
      else Inr s)"

definition valid_settings :: "trader_settings \<Rightarrow> bool" where
  "valid_settings s \<longleftrightarrow> ts_strategy s \<in> set supported_strategies
     \<and> \<not> blank (ts_user s) \<and> \<not> blank (ts_symbol s)
     \<and> 1 \<le> ts_reference s \<and> 1 \<le> ts_step s \<and> 0 \<le> ts_max_offset s
     \<and> 1 \<le> ts_quantity_min s \<and> ts_quantity_min s \<le> ts_quantity_max s
     \<and> 1 \<le> ts_ttl s \<and> 1 \<le> ts_interval s"

lemma settings_post_init_Inr_iff: "settings_post_init s = Inr t \<longleftrightarrow> t = s \<and> valid_settings s"
  by (auto simp: settings_post_init_def valid_settings_def)

section \<open>Ticks\<close>

definition ticks_for_interval :: "int \<Rightarrow> int \<Rightarrow> py_error + int" where
  "ticks_for_interval interval tick_ms =
     (if interval < 1 then Inl (ValueError ''interval_seconds must be at least 1'')
      else if tick_ms < 1 then Inl (ValueError ''tick_interval_ms must be at least 1'')
      else Inr (max 1 ((interval * 1000 + tick_ms - 1) div tick_ms)))"

text \<open>Division rounding up.\<close>

lemma ceil_div_bounds:
  fixes a b :: int
  assumes "0 < b"
  shows "a \<le> (a + b - 1) div b * b" "((a + b - 1) div b - 1) * b < a"
proof -
  let ?q = "(a + b - 1) div b"
  have "?q * b + (a + b - 1) mod b = a + b - 1" by simp
  moreover have "0 \<le> (a + b - 1) mod b" "(a + b - 1) mod b < b" using assms by simp_all
  moreover have "(?q - 1) * b = ?q * b - b" by (simp add: left_diff_distrib)
  ultimately show "a \<le> ?q * b" "(?q - 1) * b < a" by linarith+
qed

lemma ceil_div_pos: "0 < a \<Longrightarrow> 0 < b \<Longrightarrow> 1 \<le> (a + b - 1) div b" for a b :: int
  by (simp add: pos_imp_zdiv_pos_iff zle_add1_eq_le [symmetric] int_one_le_iff_zero_less)

lemma ceil_div_nonneg: "0 \<le> a \<Longrightarrow> 0 < b \<Longrightarrow> 0 \<le> (a + b - 1) div b" for a b :: int
  by (simp add: pos_imp_zdiv_nonneg_iff)

text \<open>
  The tick count of an interval is its exact ceiling. The conversion fails exactly when
  an argument is below one; otherwise the ticks cover the interval, one tick fewer would not,
  and there is at least one tick.
\<close>

theorem ticks_for_interval_is_ceiling:
  "case ticks_for_interval interval tick_ms of
     Inl _ \<Rightarrow> interval < 1 \<or> tick_ms < 1
   | Inr n \<Rightarrow> 1 \<le> interval \<and> 1 \<le> tick_ms \<and> 1 \<le> n
       \<and> interval * 1000 \<le> n * tick_ms \<and> (n - 1) * tick_ms < interval * 1000"
proof (cases "1 \<le> interval \<and> 1 \<le> tick_ms")
  case True
  then have "1 \<le> (interval * 1000 + tick_ms - 1) div tick_ms" by (intro ceil_div_pos) auto
  with True have "ticks_for_interval interval tick_ms = Inr ((interval * 1000 + tick_ms - 1) div tick_ms)"
    by (simp add: ticks_for_interval_def)
  with ceil_div_bounds [of tick_ms "interval * 1000"] True ceil_div_pos [of "interval * 1000" tick_ms]
  show ?thesis by simp
qed (auto simp: ticks_for_interval_def)

lemma ticks_for_interval_ok:
  assumes "1 \<le> interval" "1 \<le> tick_ms"
  obtains n where "ticks_for_interval interval tick_ms = Inr n" "1 \<le> n"
proof -
  from assms have "\<exists>n. ticks_for_interval interval tick_ms = Inr n \<and> 1 \<le> n"
    by (simp add: ticks_for_interval_def)
  with that show ?thesis by blast
qed

end
