(* ===== verification/Py_Random.thy ===== *)
theory Py_Random
  imports Exchange_Prelude
begin

text \<open>
  \<open>random.Random\<close> as the participants use it: \<open>randint\<close>, \<open>randrange\<close> and
  \<open>choice\<close>, which the library documents (and computes) from one primitive, a draw of an
  integer below a positive bound. The generator itself is an argument: a state type, how a
  seed makes a state, and the draw. \<open>prng_ok\<close> is the documented range of the draw.
\<close>

record 'r prng =
  prng_seed :: "int \<Rightarrow> 'r"
  prng_below :: "int \<Rightarrow> 'r \<Rightarrow> 'r \<times> int"

definition prng_ok :: "'r prng \<Rightarrow> bool" where
  "prng_ok G \<longleftrightarrow> (\<forall>n r. 0 < n \<longrightarrow> 0 \<le> snd (prng_below G n r) \<and> snd (prng_below G n r) < n)"

definition randint :: "'r prng \<Rightarrow> int \<Rightarrow> int \<Rightarrow> ('r, int) action" where
  "randint G a b r =
     (if b < a then (r, Inl (ValueError ''empty range in randrange()''))
      else let (r', k) = prng_below G (b - a + 1) r in (r', Inr (a + k)))"

definition randrange :: "'r prng \<Rightarrow> int \<Rightarrow> ('r, int) action" where
  "randrange G n r =
     (if n < 1 then (r, Inl (ValueError ''empty range for randrange()''))
      else let (r', k) = prng_below G n r in (r', Inr k))"

definition choice :: "'r prng \<Rightarrow> 'a list \<Rightarrow> ('r, 'a) action" where
  "choice G xs r =
     (if xs = [] then (r, Inl IndexError)
      else let (r', k) = prng_below G (int (length xs)) r in (r', Inr (xs ! nat k)))"

text \<open>\<open>tuple(m for _ in range(n))\<close>.\<close>

fun repeat_call :: "nat \<Rightarrow> ('s, 'a) action \<Rightarrow> ('s, 'a list) action" where
  "repeat_call 0 m s = (s, Inr [])"
| "repeat_call (Suc n) m s =
     seq_call m (\<lambda>x. seq_call (repeat_call n m) (\<lambda>xs t. (t, Inr (x # xs)))) s"

lemma randint_spec:
  assumes "prng_ok G" "a \<le> b"
  obtains r' k where "randint G a b r = (r', Inr k)" "a \<le> k" "k \<le> b"
proof -
  obtain r' k where k: "prng_below G (b - a + 1) r = (r', k)" by force
  have "0 \<le> k \<and> k < b - a + 1"
    using assms k unfolding prng_ok_def by (metis add.commute snd_conv zle_diff1_eq zle_iff_zadd
        add_le_cancel_right diff_ge_0_iff_ge less_add_one order_le_less_trans)
  then show ?thesis using that [of r' "a + k"] assms k by (simp add: randint_def)
qed

lemma randrange_spec:
  assumes "prng_ok G" "0 < n"
  obtains r' k where "randrange G n r = (r', Inr k)" "0 \<le> k" "k < n"
proof -
  obtain r' k where k: "prng_below G n r = (r', k)" by force
  have "0 \<le> k \<and> k < n" using assms k unfolding prng_ok_def by (metis snd_conv)
  then show ?thesis using that [of r' k] assms k by (simp add: randrange_def)
qed

lemma choice_spec:
  assumes "prng_ok G" "xs \<noteq> []"
  obtains r' x where "choice G xs r = (r', Inr x)" "x \<in> set xs"
proof -
  obtain r' k where k: "prng_below G (int (length xs)) r = (r', k)" by force
  have "0 \<le> k \<and> k < int (length xs)" using assms k unfolding prng_ok_def by (metis length_greater_0_conv
        of_nat_0_less_iff snd_conv)
  then have "nat k < length xs" by linarith
  then show ?thesis using that [of r' "xs ! nat k"] assms k by (simp add: choice_def)
qed

lemma repeat_call_spec:
  assumes "\<And>s. \<exists>s' x. m s = (s', Inr x) \<and> P x"
  shows "\<exists>s' xs. repeat_call n m s = (s', Inr xs) \<and> length xs = n \<and> (\<forall>x\<in>set xs. P x)"
proof (induction n arbitrary: s)
  case (Suc n)
  obtain s1 x where "m s = (s1, Inr x)" "P x" using assms by blast
  moreover obtain s2 xs where "repeat_call n m s1 = (s2, Inr xs)" "length xs = n" "\<forall>x\<in>set xs. P x"
    using Suc by blast
  ultimately show ?case by (simp add: seq_call_def)
qed simp

text \<open>A small generator for the examples: a linear congruence.\<close>

definition demo_prng :: "int prng" where
  "demo_prng = \<lparr>prng_seed = (\<lambda>s. s mod 101), prng_below = (\<lambda>n r. ((r * 7 + 3) mod 101, r mod n))\<rparr>"

lemma demo_prng_ok: "prng_ok demo_prng"
  by (simp add: prng_ok_def demo_prng_def)

end
