(* ===== verification/Reaction_Events.thy ===== *)
theory Reaction_Events
  imports Participant_Types Py_Random "HOL-Library.Char_ord" "HOL-Library.List_Lexorder"
begin

text \<open>
  \<open>backend/exchange/participants/events.py\<close>, the data: news events, reaction candidates,
  presets and resolved plans, each with the checks of its constructor, and the queries of a
  resolved plan. The planner is in \<open>Reaction_Planner\<close>.
\<close>

section \<open>Argument checks\<close>

definition basis_points :: int where
  "basis_points = 10000"

definition preset_version :: string where
  "preset_version = ''1''"

fun require_int :: "string \<Rightarrow> py_value \<Rightarrow> py_error + int" where
  "require_int name (PyInt i) = Inr i"
| "require_int name _ = Inl (ValueError (name @ '' must be an integer''))"

definition require_positive_int :: "string \<Rightarrow> py_value \<Rightarrow> py_error + int" where
  "require_positive_int name v = ebind (require_int name v) (\<lambda>i.
     if i < 1 then Inl (ValueError (name @ '' must be positive'')) else Inr i)"

definition require_non_negative_int :: "string \<Rightarrow> py_value \<Rightarrow> py_error + int" where
  "require_non_negative_int name v = ebind (require_int name v) (\<lambda>i.
     if i < 0 then Inl (ValueError (name @ '' must not be negative'')) else Inr i)"

definition require_bps :: "string \<Rightarrow> py_value \<Rightarrow> py_error + int" where
  "require_bps name v = ebind (require_int name v) (\<lambda>i.
     if \<not> (0 \<le> i \<and> i \<le> basis_points)
     then Inl (ValueError (name @ '' must be between 0 and 10000'')) else Inr i)"

definition require_range ::
  "string \<Rightarrow> py_value \<Rightarrow> py_value \<Rightarrow> int \<Rightarrow> int option \<Rightarrow> py_error + unit" where
  "require_range name mn mx lower upper =
     ebind (require_int (name @ '' minimum'') mn) (\<lambda>a.
     ebind (require_int (name @ '' maximum'') mx) (\<lambda>b.
     if a < lower \<or> b < a then Inl (ValueError (name @ '' range is invalid''))
     else (case upper of None \<Rightarrow> Inr ()
       | Some u \<Rightarrow> if u < b then Inl (ValueError (name @ '' range is invalid'')) else Inr ())))"

lemma require_iffs:
  "require_int name v = Inr i \<longleftrightarrow> v = PyInt i"
  "require_positive_int name v = Inr i \<longleftrightarrow> v = PyInt i \<and> 1 \<le> i"
  "require_non_negative_int name v = Inr i \<longleftrightarrow> v = PyInt i \<and> 0 \<le> i"
  "require_bps name v = Inr i \<longleftrightarrow> v = PyInt i \<and> 0 \<le> i \<and> i \<le> 10000"
  by (cases v; auto simp: require_positive_int_def require_non_negative_int_def require_bps_def
      basis_points_def)+

lemma require_range_iff:
  "require_range name (PyInt a) (PyInt b) lower upper = Inr () \<longleftrightarrow>
     lower \<le> a \<and> a \<le> b \<and> (case upper of None \<Rightarrow> True | Some u \<Rightarrow> b \<le> u)"
  by (auto simp: require_range_def split: option.splits)

section \<open>News events and candidates\<close>

datatype event_preset = MINOR_NEWS | BREAKING_NEWS | MARKET_PANIC | MIXED_REACTION | RUMOR

definition preset_value :: "event_preset \<Rightarrow> string" where
  "preset_value p = (case p of
      MINOR_NEWS \<Rightarrow> ''minor_news'' | BREAKING_NEWS \<Rightarrow> ''breaking_news''
    | MARKET_PANIC \<Rightarrow> ''market_panic'' | MIXED_REACTION \<Rightarrow> ''mixed_reaction''
    | RUMOR \<Rightarrow> ''rumor'')"

text \<open>\<open>EventPreset(value)\<close>.\<close>

definition event_preset_of :: "string \<Rightarrow> py_error + event_preset" where
  "event_preset_of v =
     (case find (\<lambda>p. preset_value p = v) [MINOR_NEWS, BREAKING_NEWS, MARKET_PANIC, MIXED_REACTION, RUMOR] of
        None \<Rightarrow> Inl (ValueError ''not a valid EventPreset'')
      | Some p \<Rightarrow> Inr p)"

datatype direction_hint = HINT_BUY | HINT_SELL | HINT_MIXED | HINT_NONE

definition hint_value :: "direction_hint \<Rightarrow> string" where
  "hint_value h = (case h of HINT_BUY \<Rightarrow> ''BUY'' | HINT_SELL \<Rightarrow> ''SELL''
    | HINT_MIXED \<Rightarrow> ''MIXED'' | HINT_NONE \<Rightarrow> ''NONE'')"

definition direction_hint_of :: "string \<Rightarrow> py_error + direction_hint" where
  "direction_hint_of v =
     (case find (\<lambda>h. hint_value h = v) [HINT_BUY, HINT_SELL, HINT_MIXED, HINT_NONE] of
        None \<Rightarrow> Inl (ValueError ''not a valid DirectionHint'')
      | Some h \<Rightarrow> Inr h)"

lemma event_preset_roundtrip [simp]: "event_preset_of (preset_value p) = Inr p"
  by (cases p) (simp_all add: event_preset_of_def preset_value_def)

lemma direction_hint_roundtrip [simp]: "direction_hint_of (hint_value h) = Inr h"
  by (cases h) (simp_all add: direction_hint_of_def hint_value_def)

record news_event =
  ev_id :: string
  ev_symbol :: symbol
  ev_starts :: int
  ev_preset :: event_preset
  ev_hint :: direction_hint
  ev_label :: string
  ev_source :: string
  ev_seed :: int

text \<open>
  \<open>NewsShockEvent(...)\<close>. The start and the seed come unchecked from scenario files; a preset
  or direction that is no member of its enumeration is \<open>None\<close>.
\<close>

definition make_news_event ::
  "string \<Rightarrow> symbol \<Rightarrow> py_value \<Rightarrow> event_preset option \<Rightarrow> direction_hint option \<Rightarrow> string \<Rightarrow> string
    \<Rightarrow> py_value \<Rightarrow> py_error + news_event" where
  "make_news_event eid sy starts preset hint label source sd =
     (if blank eid \<or> blank sy then Inl (ValueError ''event_id and symbol must not be blank'')
      else if blank source then Inl (ValueError ''source must not be blank'')
      else ebind (require_non_negative_int ''starts_after_ms'' starts) (\<lambda>st.
        ebind (require_int ''seed'' sd) (\<lambda>seed.
        case preset of None \<Rightarrow> Inl (ValueError ''preset must be an EventPreset'')
        | Some p \<Rightarrow> (case hint of None \<Rightarrow> Inl (ValueError ''direction_hint must be a DirectionHint'')
          | Some h \<Rightarrow> Inr \<lparr>ev_id = eid, ev_symbol = sy, ev_starts = st, ev_preset = p, ev_hint = h,
                          ev_label = label, ev_source = source, ev_seed = seed\<rparr>))))"

definition valid_event :: "news_event \<Rightarrow> bool" where
  "valid_event e \<longleftrightarrow> \<not> blank (ev_id e) \<and> \<not> blank (ev_symbol e) \<and> \<not> blank (ev_source e) \<and> 0 \<le> ev_starts e"

lemma make_news_event_Inr_iff:
  "make_news_event eid sy starts preset hint label source sd = Inr e \<longleftrightarrow>
     valid_event e \<and> ev_id e = eid \<and> ev_symbol e = sy \<and> starts = PyInt (ev_starts e)
     \<and> preset = Some (ev_preset e) \<and> hint = Some (ev_hint e) \<and> ev_label e = label
     \<and> ev_source e = source \<and> sd = PyInt (ev_seed e)"
  by (cases preset; cases hint; auto simp: make_news_event_def valid_event_def ebind_eq_Inr_iff require_iffs)

record reaction_candidate =
  rc_user :: string
  rc_symbol :: symbol
  rc_quantity_min :: int
  rc_quantity_max :: int
  rc_ttl :: int
  rc_interval :: int
  rc_seed :: int

definition candidate_post_init :: "reaction_candidate \<Rightarrow> py_error + reaction_candidate" where
  "candidate_post_init c =
     (if blank (rc_user c) \<or> blank (rc_symbol c)
      then Inl (ValueError ''user_id and symbol must not be blank'')
      else ebind (require_positive_int ''quantity_min'' (PyInt (rc_quantity_min c))) (\<lambda>_.
        ebind (require_positive_int ''quantity_max'' (PyInt (rc_quantity_max c))) (\<lambda>_.
        if rc_quantity_max c < rc_quantity_min c then Inl (ValueError ''quantity range is invalid'')
        else ebind (require_positive_int ''order_ttl_seconds'' (PyInt (rc_ttl c))) (\<lambda>_.
          ebind (require_positive_int ''interval_seconds'' (PyInt (rc_interval c))) (\<lambda>_.
          ebind (require_int ''seed'' (PyInt (rc_seed c))) (\<lambda>_. Inr c))))))"

definition valid_candidate :: "reaction_candidate \<Rightarrow> bool" where
  "valid_candidate c \<longleftrightarrow> \<not> blank (rc_user c) \<and> \<not> blank (rc_symbol c)
     \<and> 1 \<le> rc_quantity_min c \<and> rc_quantity_min c \<le> rc_quantity_max c
     \<and> 1 \<le> rc_ttl c \<and> 1 \<le> rc_interval c"

lemma candidate_post_init_Inr_iff: "candidate_post_init c = Inr d \<longleftrightarrow> d = c \<and> valid_candidate c"
  by (auto simp: candidate_post_init_def valid_candidate_def ebind_eq_Inr_iff require_iffs split: if_splits)

section \<open>Presets\<close>

record reaction_preset =
  rp_ratio_min :: int
  rp_ratio_max :: int
  rp_delay_min :: int
  rp_delay_max :: int
  rp_count_min :: int
  rp_count_max :: int
  rp_interval_min :: int
  rp_interval_max :: int
  rp_default_buy :: int
  rp_directional_buy :: int
  rp_max_lag :: int

definition preset_post_init :: "reaction_preset \<Rightarrow> py_error + reaction_preset" where
  "preset_post_init p =
     ebind (require_range ''activation ratio'' (PyInt (rp_ratio_min p)) (PyInt (rp_ratio_max p)) 0 (Some basis_points)) (\<lambda>_.
     ebind (require_range ''reaction delay'' (PyInt (rp_delay_min p)) (PyInt (rp_delay_max p)) 0 None) (\<lambda>_.
     ebind (require_range ''order count'' (PyInt (rp_count_min p)) (PyInt (rp_count_max p)) 1 None) (\<lambda>_.
     ebind (require_range ''order interval'' (PyInt (rp_interval_min p)) (PyInt (rp_interval_max p)) 1 None) (\<lambda>_.
     ebind (require_bps ''default_buy_probability_bps'' (PyInt (rp_default_buy p))) (\<lambda>_.
     ebind (require_bps ''directional_buy_probability_bps'' (PyInt (rp_directional_buy p))) (\<lambda>_.
     ebind (raise_if (rp_directional_buy p < basis_points div 2)
              (ValueError ''directional buy probability must be at least 5000'')) (\<lambda>_.
     ebind (require_positive_int ''max_scheduler_lag_ms'' (PyInt (rp_max_lag p))) (\<lambda>_. Inr p))))))))"

definition preset_definitions :: "event_preset \<Rightarrow> reaction_preset" where
  "preset_definitions p = (case p of
     MINOR_NEWS \<Rightarrow>
       \<lparr>rp_ratio_min = 1000, rp_ratio_max = 3000, rp_delay_min = 10000, rp_delay_max = 60000,
        rp_count_min = 1, rp_count_max = 2, rp_interval_min = 2, rp_interval_max = 5,
        rp_default_buy = 5000, rp_directional_buy = 7000, rp_max_lag = 5000\<rparr>
   | BREAKING_NEWS \<Rightarrow>
       \<lparr>rp_ratio_min = 4000, rp_ratio_max = 8000, rp_delay_min = 0, rp_delay_max = 20000,
        rp_count_min = 1, rp_count_max = 4, rp_interval_min = 1, rp_interval_max = 3,
        rp_default_buy = 5000, rp_directional_buy = 8000, rp_max_lag = 2000\<rparr>
   | MARKET_PANIC \<Rightarrow>
       \<lparr>rp_ratio_min = 7000, rp_ratio_max = 10000, rp_delay_min = 0, rp_delay_max = 3000,
        rp_count_min = 2, rp_count_max = 6, rp_interval_min = 1, rp_interval_max = 2,
        rp_default_buy = 5000, rp_directional_buy = 9000, rp_max_lag = 1000\<rparr>
   | MIXED_REACTION \<Rightarrow>
       \<lparr>rp_ratio_min = 4000, rp_ratio_max = 8000, rp_delay_min = 0, rp_delay_max = 20000,
        rp_count_min = 1, rp_count_max = 4, rp_interval_min = 1, rp_interval_max = 3,
        rp_default_buy = 5000, rp_directional_buy = 5000, rp_max_lag = 2000\<rparr>
   | RUMOR \<Rightarrow>
       \<lparr>rp_ratio_min = 1500, rp_ratio_max = 5000, rp_delay_min = 10000, rp_delay_max = 120000,
        rp_count_min = 1, rp_count_max = 3, rp_interval_min = 2, rp_interval_max = 6,
        rp_default_buy = 5000, rp_directional_buy = 6500, rp_max_lag = 5000\<rparr>)"

definition valid_preset :: "reaction_preset \<Rightarrow> bool" where
  "valid_preset p \<longleftrightarrow> 0 \<le> rp_ratio_min p \<and> rp_ratio_min p \<le> rp_ratio_max p \<and> rp_ratio_max p \<le> 10000
     \<and> 0 \<le> rp_delay_min p \<and> rp_delay_min p \<le> rp_delay_max p
     \<and> 1 \<le> rp_count_min p \<and> rp_count_min p \<le> rp_count_max p
     \<and> 1 \<le> rp_interval_min p \<and> rp_interval_min p \<le> rp_interval_max p
     \<and> 0 \<le> rp_default_buy p \<and> rp_default_buy p \<le> 10000
     \<and> 5000 \<le> rp_directional_buy p \<and> rp_directional_buy p \<le> 10000 \<and> 1 \<le> rp_max_lag p"

lemma preset_post_init_Inr_iff: "preset_post_init p = Inr q \<longleftrightarrow> q = p \<and> valid_preset p"
  by (auto simp: preset_post_init_def valid_preset_def err_iffs require_iffs require_range_iff basis_points_def)

text \<open>The table is well-formed: the module loads, since every constructor in it succeeds.\<close>

lemma preset_definitions_valid: "valid_preset (preset_definitions p)"
  by (cases p) (simp_all add: preset_definitions_def valid_preset_def)

lemma preset_table_loads: "preset_post_init (preset_definitions p) = Inr (preset_definitions p)"
  by (simp add: preset_post_init_Inr_iff preset_definitions_valid)

section \<open>Resolved plans\<close>

record reaction_plan =
  pl_user :: string
  pl_symbol :: symbol
  pl_activated :: bool
  pl_after_ms :: "int option"
  pl_interval_ticks :: int
  pl_buy_probability :: int
  pl_sides :: "order_side list"
  pl_quantities :: "int list"
  pl_ttls :: "int list"
  pl_offsets :: "int list"

definition plan_post_init :: "reaction_plan \<Rightarrow> py_error + reaction_plan" where
  "plan_post_init p =
     ebind (raise_if (blank (pl_user p) \<or> blank (pl_symbol p))
              (ValueError ''user_id and symbol must not be blank'')) (\<lambda>_.
     ebind (require_positive_int ''order_interval_ticks'' (PyInt (pl_interval_ticks p))) (\<lambda>_.
     ebind (require_bps ''buy_probability_bps'' (PyInt (pl_buy_probability p))) (\<lambda>_.
     ebind (raise_if (length (remdups [length (pl_sides p), length (pl_quantities p),
                                       length (pl_ttls p), length (pl_offsets p)]) \<noteq> 1)
              (ValueError ''reaction order sequences must have equal lengths'')) (\<lambda>_.
     ebind (raise_if (pl_activated p \<noteq> (pl_sides p \<noteq> []))
              (ValueError ''activated plans must contain at least one order'')) (\<lambda>_.
     ebind (raise_if (pl_activated p \<noteq> (pl_after_ms p \<noteq> None))
              (ValueError ''reaction time must exist only for activated plans'')) (\<lambda>_.
     ebind (case pl_after_ms p of None \<Rightarrow> Inr 0
            | Some t \<Rightarrow> require_non_negative_int ''reaction_after_ms'' (PyInt t)) (\<lambda>_.
     ebind (raise_if (list_ex (\<lambda>q. q < 1) (pl_quantities p))
              (ValueError ''reaction quantities must be positive integers'')) (\<lambda>_.
     ebind (raise_if (list_ex (\<lambda>t. t < 1) (pl_ttls p))
              (ValueError ''reaction TTLs must be positive integers'')) (\<lambda>_.
     ebind (raise_if (list_ex (\<lambda>t. t < 0) (pl_offsets p))
              (ValueError ''reaction tick offsets must be non-negative integers'')) (\<lambda>_.
     ebind (raise_if (sort (pl_offsets p) \<noteq> pl_offsets p)
              (ValueError ''reaction tick offsets must be ordered'')) (\<lambda>_.
     Inr p)))))))))))"

definition order_count :: "reaction_plan \<Rightarrow> nat" where
  "order_count p = length (pl_sides p)"

definition valid_plan :: "reaction_plan \<Rightarrow> bool" where
  "valid_plan p \<longleftrightarrow> \<not> blank (pl_user p) \<and> \<not> blank (pl_symbol p)
     \<and> 1 \<le> pl_interval_ticks p \<and> 0 \<le> pl_buy_probability p \<and> pl_buy_probability p \<le> 10000
     \<and> length (pl_quantities p) = order_count p \<and> length (pl_ttls p) = order_count p
     \<and> length (pl_offsets p) = order_count p
     \<and> pl_activated p = (0 < order_count p) \<and> pl_activated p = (pl_after_ms p \<noteq> None)
     \<and> (case pl_after_ms p of None \<Rightarrow> True | Some t \<Rightarrow> 0 \<le> t)
     \<and> (\<forall>q\<in>set (pl_quantities p). 1 \<le> q) \<and> (\<forall>t\<in>set (pl_ttls p). 1 \<le> t)
     \<and> (\<forall>t\<in>set (pl_offsets p). 0 \<le> t) \<and> sorted (pl_offsets p)"

lemma sort_id_iff: "sort xs = xs \<longleftrightarrow> sorted xs"
  by (metis sorted_sort sorted_sort_id)

lemma one_length_iff: "length (remdups [a, b, c, d]) = 1 \<longleftrightarrow> b = a \<and> c = a \<and> d = a"
  by auto

lemma plan_post_init_Inr_iff: "plan_post_init p = Inr q \<longleftrightarrow> q = p \<and> valid_plan p"
  unfolding plan_post_init_def valid_plan_def order_count_def err_iffs one_length_iff sort_id_iff
  by (auto simp: require_iffs list_ex_iff not_less split: option.splits)

record event_plan =
  ep_event :: news_event
  ep_version :: string
  ep_tick_ms :: int
  ep_ratio :: int
  ep_max_lag :: int
  ep_reactions :: "reaction_plan list"

definition event_plan_post_init :: "event_plan \<Rightarrow> py_error + event_plan" where
  "event_plan_post_init p =
     ebind (raise_if (blank (ep_version p)) (ValueError ''preset_version must not be blank'')) (\<lambda>_.
     ebind (require_positive_int ''tick_interval_ms'' (PyInt (ep_tick_ms p))) (\<lambda>_.
     ebind (require_bps ''activation_ratio_bps'' (PyInt (ep_ratio p))) (\<lambda>_.
     ebind (require_positive_int ''max_scheduler_lag_ms'' (PyInt (ep_max_lag p))) (\<lambda>_.
     ebind (raise_if (\<not> distinct (map pl_user (ep_reactions p)))
              (ValueError ''reaction plan user_ids must be unique'')) (\<lambda>_.
     ebind (raise_if (list_ex (\<lambda>r. pl_symbol r \<noteq> ev_symbol (ep_event p)) (ep_reactions p))
              (ValueError ''reaction plan symbol must match event symbol'')) (\<lambda>_.
     Inr p))))))"

lemma event_plan_post_init_Inr_iff:
  "event_plan_post_init p = Inr q \<longleftrightarrow> q = p \<and> \<not> blank (ep_version p) \<and> 1 \<le> ep_tick_ms p
     \<and> 0 \<le> ep_ratio p \<and> ep_ratio p \<le> 10000 \<and> 1 \<le> ep_max_lag p
     \<and> distinct (map pl_user (ep_reactions p))
     \<and> (\<forall>r\<in>set (ep_reactions p). pl_symbol r = ev_symbol (ep_event p))"
  unfolding event_plan_post_init_def err_iffs by (auto simp: require_iffs list_ex_iff)

definition dormant_trader_count :: "event_plan \<Rightarrow> nat" where
  "dormant_trader_count p = length (ep_reactions p)"

definition activated_trader_count :: "event_plan \<Rightarrow> nat" where
  "activated_trader_count p = sum_list (map (\<lambda>r. if pl_activated r then 1 else 0) (ep_reactions p))"

definition planned_order_count :: "event_plan \<Rightarrow> nat" where
  "planned_order_count p = sum_list (map order_count (ep_reactions p))"

text \<open>\<open>Counter\<close> over an iterable, and the schedule it gives.\<close>

fun counter :: "('a, nat) dict \<Rightarrow> 'a list \<Rightarrow> ('a, nat) dict" where
  "counter d [] = d"
| "counter d (x # xs) =
     counter (dict_set d x ((case dict_get d x of None \<Rightarrow> 0 | Some n \<Rightarrow> n) + 1)) xs"

definition orders_by_tick :: "event_plan \<Rightarrow> (int \<times> nat) list" where
  "orders_by_tick p = sort (counter [] (concat (map pl_offsets (ep_reactions p))))"

lemma counter_ok: "dict_ok d \<Longrightarrow> dict_ok (counter d xs)"
  by (induction xs arbitrary: d) (simp_all add: dict_ok_set)

lemma counter_get:
  "dict_get (counter d xs) x =
     (case dict_get d x of None \<Rightarrow> (if x \<in> set xs then Some (count_list xs x) else None)
      | Some n \<Rightarrow> Some (n + count_list xs x))"
  by (induction xs arbitrary: d) (auto simp: dict_simps split: option.splits)

end
