(* ===== verification/Reaction_Planner.thy ===== *)
theory Reaction_Planner
  imports Reaction_Events "HOL-Library.Multiset"
begin

text \<open>
  \<open>ReactionPlanner\<close> of \<open>backend/exchange/participants/events.py\<close>: how one news event
  becomes a plan of orders. SHA-256 is the argument \<open>sha\<close>, from bytes to bytes, and the
  random generator is the argument \<open>G\<close> of \<open>Py_Random\<close>.

  The lemmas follow the planner downwards: the seeds, the activation count and its bounds,
  one candidate's reaction, and the resolution of a whole event.
\<close>

section \<open>Seeds and counts\<close>

definition utf8_encode :: "string \<Rightarrow> nat list" where
  "utf8_encode s =
     concat (map (\<lambda>c. let n = of_char c in if n < 128 then [n] else [192 + n div 64, 128 + n mod 64]) s)"

definition from_bytes_big :: "nat list \<Rightarrow> nat" where
  "from_bytes_big bs = foldl (\<lambda>n b. 256 * n + b) 0 bs"

definition stable_seed :: "(nat list \<Rightarrow> nat list) \<Rightarrow> string list \<Rightarrow> int" where
  "stable_seed sha parts = int (from_bytes_big (take 16 (sha (utf8_encode (py_join (CHR 0x1F) parts)))))"

definition ceil_div :: "int \<Rightarrow> int \<Rightarrow> int" where
  "ceil_div value divisor = (value + divisor - 1) div divisor"

definition activation_count :: "int \<Rightarrow> int \<Rightarrow> int" where
  "activation_count n ratio =
     (if n = 0 \<or> ratio = 0 then 0
      else min n (max 1 ((n * ratio + basis_points div 2) div basis_points)))"

definition require_unique_user_ids :: "reaction_candidate list \<Rightarrow> py_error + unit" where
  "require_unique_user_ids cs =
     raise_if (\<not> distinct (map rc_user cs)) (ValueError ''reaction candidate user_ids must be unique'')"

definition buy_probability :: "'r prng \<Rightarrow> news_event \<Rightarrow> reaction_preset \<Rightarrow> ('r, int) action" where
  "buy_probability G e preset r =
     (if ev_hint e = HINT_BUY then (r, Inr (rp_directional_buy preset))
      else if ev_hint e = HINT_SELL then (r, Inr (basis_points - rp_directional_buy preset))
      else if ev_hint e = HINT_MIXED then (r, Inr (basis_points div 2))
      else if ev_preset e = MARKET_PANIC
      then choice G [rp_directional_buy preset, basis_points - rp_directional_buy preset] r
      else (r, Inr (rp_default_buy preset)))"

section \<open>One candidate\<close>

definition lift_result :: "py_error + 'a \<Rightarrow> ('s, 'a) action" where
  "lift_result m s = (s, m)"

definition dormant_plan :: "int \<Rightarrow> reaction_candidate \<Rightarrow> int \<Rightarrow> py_error + reaction_plan" where
  "dormant_plan tick_ms c buy =
     ebind (ticks_for_interval (rc_interval c) tick_ms) (\<lambda>ticks.
     plan_post_init
       \<lparr>pl_user = rc_user c, pl_symbol = rc_symbol c, pl_activated = False, pl_after_ms = None,
        pl_interval_ticks = ticks, pl_buy_probability = buy,
        pl_sides = [], pl_quantities = [], pl_ttls = [], pl_offsets = []\<rparr>)"

definition draw_side :: "'r prng \<Rightarrow> int \<Rightarrow> ('r, order_side) action" where
  "draw_side G buy = seq_call (randrange G basis_points) (\<lambda>k r. (r, Inr (if k < buy then BUY else SELL)))"

definition active_plan ::
  "'r prng \<Rightarrow> int \<Rightarrow> reaction_preset \<Rightarrow> reaction_candidate \<Rightarrow> int \<Rightarrow> int \<Rightarrow> ('r, reaction_plan) action" where
  "active_plan G tick_ms preset c buy start =
     seq_call (randint G (rp_delay_min preset) (rp_delay_max preset)) (\<lambda>after.
     seq_call (randint G (rp_count_min preset) (rp_count_max preset)) (\<lambda>count.
     seq_call (lift_result (ticks_for_interval (rc_interval c) tick_ms)) (\<lambda>own.
     seq_call (randint G (rp_interval_min preset) (rp_interval_max preset)) (\<lambda>drawn.
     let interval = max own drawn;
         first = start + ceil_div after tick_ms
     in seq_call (repeat_call (nat count) (draw_side G buy)) (\<lambda>sides.
        seq_call (repeat_call (nat count) (randint G (rc_quantity_min c) (rc_quantity_max c))) (\<lambda>qs.
        lift_result (plan_post_init
          \<lparr>pl_user = rc_user c, pl_symbol = rc_symbol c, pl_activated = True, pl_after_ms = Some after,
           pl_interval_ticks = interval, pl_buy_probability = buy,
           pl_sides = sides, pl_quantities = qs, pl_ttls = replicate (nat count) (rc_ttl c),
           pl_offsets = map (\<lambda>i. first + int i * interval) [0..<nat count]\<rparr>)))))))"

definition resolve_candidate ::
  "'r prng \<Rightarrow> (nat list \<Rightarrow> nat list) \<Rightarrow> int \<Rightarrow> news_event \<Rightarrow> reaction_preset \<Rightarrow> reaction_candidate
    \<Rightarrow> bool \<Rightarrow> int \<Rightarrow> int \<Rightarrow> py_error + reaction_plan" where
  "resolve_candidate G sha tick_ms e preset c activated buy start =
     (if \<not> activated then dormant_plan tick_ms c buy
      else snd (active_plan G tick_ms preset c buy start
        (prng_seed G (stable_seed sha
           [str_int (ev_seed e), ev_id e, ''reaction'', rc_user c, str_int (rc_seed c)]))))"

section \<open>The planner\<close>

record planner =
  pn_tick_ms :: int
  pn_processed :: "(string, news_event) dict"

definition make_planner :: "py_value \<Rightarrow> py_error + planner" where
  "make_planner tick_ms =
     ebind (require_positive_int ''tick_interval_ms'' tick_ms) (\<lambda>t.
     Inr \<lparr>pn_tick_ms = t, pn_processed = []\<rparr>)"

definition eligible :: "news_event \<Rightarrow> reaction_candidate list \<Rightarrow> reaction_candidate list" where
  "eligible e cs = sort_key rc_user (filter (\<lambda>c. rc_symbol c = ev_symbol e) cs)"

definition activation_order ::
  "(nat list \<Rightarrow> nat list) \<Rightarrow> news_event \<Rightarrow> reaction_candidate list \<Rightarrow> reaction_candidate list" where
  "activation_order sha e cs =
     sort_key (\<lambda>c. stable_seed sha
       [str_int (ev_seed e), ev_id e, ''activation'', rc_user c, str_int (rc_seed c)]) cs"

definition resolve ::
  "'r prng \<Rightarrow> (nat list \<Rightarrow> nat list) \<Rightarrow> int \<Rightarrow> news_event \<Rightarrow> reaction_candidate list
    \<Rightarrow> py_error + event_plan" where
  "resolve G sha tick_ms e candidates =
     ebind (require_unique_user_ids candidates) (\<lambda>_.
     let cs = eligible e candidates;
         preset = preset_definitions (ev_preset e);
         r = prng_seed G (stable_seed sha [str_int (ev_seed e), ev_id e, ''event''])
     in snd (seq_call (randint G (rp_ratio_min preset) (rp_ratio_max preset)) (\<lambda>ratio.
          let n = activation_count (int (length cs)) ratio;
              ids = map rc_user (take (nat n) (activation_order sha e cs))
          in seq_call (buy_probability G e preset) (\<lambda>buy.
             lift_result
               (ebind (those_ok (map (\<lambda>c. resolve_candidate G sha tick_ms e preset c
                          (rc_user c \<in> set ids) buy (ceil_div (ev_starts e) tick_ms)) cs)) (\<lambda>reactions.
                event_plan_post_init
                  \<lparr>ep_event = e, ep_version = preset_version, ep_tick_ms = tick_ms, ep_ratio = ratio,
                   ep_max_lag = rp_max_lag preset, ep_reactions = reactions\<rparr>)))) r))"

definition plan_once ::
  "'r prng \<Rightarrow> (nat list \<Rightarrow> nat list) \<Rightarrow> news_event \<Rightarrow> reaction_candidate list
    \<Rightarrow> (planner, event_plan option) action" where
  "plan_once G sha e cs pn =
     (case dict_get (pn_processed pn) (ev_id e) of
        Some old \<Rightarrow>
          (pn, if old \<noteq> e then Inl (ValueError ''event_id was already used with a different payload'')
               else Inr None)
      | None \<Rightarrow>
          (case resolve G sha (pn_tick_ms pn) e cs of
             Inl err \<Rightarrow> (pn, Inl err)
           | Inr plan \<Rightarrow> (pn\<lparr>pn_processed := dict_set (pn_processed pn) (ev_id e) e\<rparr>, Inr (Some plan))))"

section \<open>Facts about one candidate\<close>

lemma buy_probability_spec:
  assumes "prng_ok G" "valid_preset preset"
  obtains r' buy where "buy_probability G e preset r = (r', Inr buy)" "0 \<le> buy" "buy \<le> 10000"
proof -
  have d: "5000 \<le> rp_directional_buy preset" "rp_directional_buy preset \<le> 10000"
    "0 \<le> rp_default_buy preset" "rp_default_buy preset \<le> 10000"
    using assms(2) by (simp_all add: valid_preset_def)
  obtain r1 x where c: "choice G [rp_directional_buy preset, basis_points - rp_directional_buy preset] r = (r1, Inr x)"
    "x \<in> set [rp_directional_buy preset, basis_points - rp_directional_buy preset]"
    using choice_spec [OF assms(1)] by (metis list.distinct(1))
  have "\<exists>r' buy. buy_probability G e preset r = (r', Inr buy) \<and> 0 \<le> buy \<and> buy \<le> 10000"
    unfolding buy_probability_def c(1) using d c(2) by (auto simp: basis_points_def)
  with that show ?thesis by blast
qed

lemma draw_side_spec:
  assumes "prng_ok G"
  shows "\<exists>s' x. draw_side G buy s = (s', Inr x) \<and> True"
proof -
  have "0 < basis_points" by (simp add: basis_points_def)
  then obtain s' k where "randrange G basis_points s = (s', Inr k)"
    by (rule randrange_spec [OF assms])
  then show ?thesis by (simp add: draw_side_def seq_call_ok)
qed

text \<open>What a reaction to an event promises about its candidate.\<close>

definition reaction_fits ::
  "int \<Rightarrow> news_event \<Rightarrow> reaction_preset \<Rightarrow> reaction_candidate \<Rightarrow> reaction_plan \<Rightarrow> bool" where
  "reaction_fits tick_ms e preset c p \<longleftrightarrow>
     pl_user p = rc_user c \<and> pl_symbol p = rc_symbol c \<and> valid_plan p
     \<and> rc_interval c * 1000 \<le> pl_interval_ticks p * tick_ms
     \<and> (case pl_after_ms p of None \<Rightarrow> order_count p = 0
        | Some after \<Rightarrow>
            rp_delay_min preset \<le> after \<and> after \<le> rp_delay_max preset
            \<and> rp_count_min preset \<le> int (order_count p) \<and> int (order_count p) \<le> rp_count_max preset
            \<and> rp_interval_min preset \<le> pl_interval_ticks p
            \<and> (\<forall>q\<in>set (pl_quantities p). rc_quantity_min c \<le> q \<and> q \<le> rc_quantity_max c)
            \<and> (\<forall>t\<in>set (pl_ttls p). t = rc_ttl c)
            \<and> (\<forall>i<order_count p. pl_offsets p ! i = pl_offsets p ! 0 + int i * pl_interval_ticks p)
            \<and> ev_starts e + after \<le> pl_offsets p ! 0 * tick_ms)"

lemma dormant_plan_spec:
  assumes "valid_candidate c" "1 \<le> tick_ms" "0 \<le> buy" "buy \<le> 10000"
  obtains p where "dormant_plan tick_ms c buy = Inr p" "reaction_fits tick_ms e preset c p" "\<not> pl_activated p"
proof -
  have c: "1 \<le> rc_interval c" "\<not> blank (rc_user c)" "\<not> blank (rc_symbol c)"
    using assms(1) by (simp_all add: valid_candidate_def)
  obtain n where n: "ticks_for_interval (rc_interval c) tick_ms = Inr n" "1 \<le> n"
    using ticks_for_interval_ok [OF c(1) assms(2)] by blast
  have ge: "rc_interval c * 1000 \<le> n * tick_ms"
    using ticks_for_interval_is_ceiling [of "rc_interval c" tick_ms] n(1) by simp
  let ?p = "\<lparr>pl_user = rc_user c, pl_symbol = rc_symbol c, pl_activated = False, pl_after_ms = None,
        pl_interval_ticks = n, pl_buy_probability = buy,
        pl_sides = [], pl_quantities = [], pl_ttls = [], pl_offsets = []\<rparr>"
  have v: "valid_plan ?p" using assms c n by (simp add: valid_plan_def order_count_def)
  then have "dormant_plan tick_ms c buy = Inr ?p" using n by (simp add: dormant_plan_def plan_post_init_Inr_iff)
  moreover have "reaction_fits tick_ms e preset c ?p"
    using v ge by (simp add: reaction_fits_def order_count_def)
  ultimately show ?thesis using that [of ?p] by simp
qed

lemma active_plan_spec:
  assumes G: "prng_ok G" and p: "valid_preset preset" and c: "valid_candidate c"
    and t: "1 \<le> tick_ms" and b: "0 \<le> buy" "buy \<le> 10000" and e: "0 \<le> ev_starts e"
  obtains r' q where
    "active_plan G tick_ms preset c buy (ceil_div (ev_starts e) tick_ms) r = (r', Inr q)"
    "reaction_fits tick_ms e preset c q" "pl_activated q"
proof -
  have pr: "rp_delay_min preset \<le> rp_delay_max preset" "0 \<le> rp_delay_min preset"
    "rp_count_min preset \<le> rp_count_max preset" "1 \<le> rp_count_min preset"
    "rp_interval_min preset \<le> rp_interval_max preset" "1 \<le> rp_interval_min preset"
    using p by (simp_all add: valid_preset_def)
  have cr: "rc_quantity_min c \<le> rc_quantity_max c" "1 \<le> rc_quantity_min c" "1 \<le> rc_ttl c"
    "1 \<le> rc_interval c" "\<not> blank (rc_user c)" "\<not> blank (rc_symbol c)"
    using c by (simp_all add: valid_candidate_def)
  obtain r1 after where 1: "randint G (rp_delay_min preset) (rp_delay_max preset) r = (r1, Inr after)"
    "rp_delay_min preset \<le> after" "after \<le> rp_delay_max preset"
    by (rule randint_spec [OF G pr(1)])
  obtain r2 count where 2: "randint G (rp_count_min preset) (rp_count_max preset) r1 = (r2, Inr count)"
    "rp_count_min preset \<le> count" "count \<le> rp_count_max preset"
    by (rule randint_spec [OF G pr(3)])
  obtain own where own: "ticks_for_interval (rc_interval c) tick_ms = Inr own" "1 \<le> own"
    by (rule ticks_for_interval_ok [OF cr(4) t])
  obtain r3 drawn where 3: "randint G (rp_interval_min preset) (rp_interval_max preset) r2 = (r3, Inr drawn)"
    "rp_interval_min preset \<le> drawn" "drawn \<le> rp_interval_max preset"
    by (rule randint_spec [OF G pr(5)])
  obtain r4 sides where 4: "repeat_call (nat count) (draw_side G buy) r3 = (r4, Inr sides)"
    "length sides = nat count"
    using repeat_call_spec [where m = "draw_side G buy" and P = "\<lambda>_. True", OF draw_side_spec [OF G]] by blast
  have q: "\<exists>s' x. randint G (rc_quantity_min c) (rc_quantity_max c) s = (s', Inr x)
      \<and> (rc_quantity_min c \<le> x \<and> x \<le> rc_quantity_max c)" for s
    by (rule randint_spec [OF G cr(1), of s]) blast
  from repeat_call_spec [where m = "randint G (rc_quantity_min c) (rc_quantity_max c)"
      and P = "\<lambda>x. rc_quantity_min c \<le> x \<and> x \<le> rc_quantity_max c", OF q]
  obtain r5 qs where 5: "repeat_call (nat count) (randint G (rc_quantity_min c) (rc_quantity_max c)) r4 = (r5, Inr qs)"
    "length qs = nat count" "\<forall>x\<in>set qs. rc_quantity_min c \<le> x \<and> x \<le> rc_quantity_max c" by blast
  define interval where "interval = max own drawn"
  define first where "first = ceil_div (ev_starts e) tick_ms + ceil_div after tick_ms"
  have i: "1 \<le> interval" "own \<le> interval" "drawn \<le> interval" using own(2) by (simp_all add: interval_def)
  have nn: "0 \<le> first" using e t 1(2) pr(2) by (simp add: first_def ceil_div_def ceil_div_nonneg)
  have first: "ev_starts e + after \<le> first * tick_ms"
    using ceil_div_bounds(1) [of tick_ms "ev_starts e"] ceil_div_bounds(1) [of tick_ms after] t
    by (simp add: first_def ceil_div_def distrib_right)
  have ge: "rc_interval c * 1000 \<le> interval * tick_ms"
  proof -
    have "rc_interval c * 1000 \<le> own * tick_ms"
      using ticks_for_interval_is_ceiling [of "rc_interval c" tick_ms] own(1) by simp
    also have "\<dots> \<le> interval * tick_ms" using i(2) t by (intro mult_right_mono) auto
    finally show ?thesis .
  qed
  let ?q = "\<lparr>pl_user = rc_user c, pl_symbol = rc_symbol c, pl_activated = True, pl_after_ms = Some after,
           pl_interval_ticks = interval, pl_buy_probability = buy,
           pl_sides = sides, pl_quantities = qs, pl_ttls = replicate (nat count) (rc_ttl c),
           pl_offsets = map (\<lambda>i. first + int i * interval) [0..<nat count]\<rparr>"
  have n: "0 < nat count" using 2(2) pr(4) by simp
  have qpos: "\<forall>x\<in>set qs. 1 \<le> x" using 5(3) cr(2) by force
  have srt: "sorted (map (\<lambda>k. first + int k * interval) [0..<nat count])"
    unfolding sorted_iff_nth_mono using i(1) by (simp add: mult_right_mono)
  have v: "valid_plan ?q"
    unfolding valid_plan_def order_count_def
    using cr i b 4(2) 5(2) qpos n 1(2) pr(2) nn srt by (auto intro: add_nonneg_nonneg)
  then have "active_plan G tick_ms preset c buy (ceil_div (ev_starts e) tick_ms) r = (r5, Inr ?q)"
    by (simp add: active_plan_def seq_call_def lift_result_def 1(1) 2(1) own(1) 3(1) 4(1) 5(1)
        Let_def plan_post_init_Inr_iff flip: interval_def first_def)
  moreover have "reaction_fits tick_ms e preset c ?q"
    using v ge 1 2 pr 3 i 4(2) 5(2,3) first n by (simp add: reaction_fits_def order_count_def)
  ultimately show ?thesis using that [of r5 ?q] by simp
qed

lemma resolve_candidate_spec:
  assumes "prng_ok G" "valid_preset preset" "valid_candidate c"
    and "1 \<le> tick_ms" "0 \<le> buy" "buy \<le> 10000" "0 \<le> ev_starts e"
  obtains q where
    "resolve_candidate G sha tick_ms e preset c active buy (ceil_div (ev_starts e) tick_ms) = Inr q"
    "reaction_fits tick_ms e preset c q" "pl_activated q = active"
proof (cases active)
  case True
  obtain r' q where
    "active_plan G tick_ms preset c buy (ceil_div (ev_starts e) tick_ms)
       (prng_seed G (stable_seed sha
           [str_int (ev_seed e), ev_id e, ''reaction'', rc_user c, str_int (rc_seed c)])) = (r', Inr q)"
    "reaction_fits tick_ms e preset c q" "pl_activated q"
    by (rule active_plan_spec [OF assms])
  with True that [of q] show ?thesis by (simp add: resolve_candidate_def)
next
  case False
  obtain q where "dormant_plan tick_ms c buy = Inr q" "reaction_fits tick_ms e preset c q" "\<not> pl_activated q"
    by (rule dormant_plan_spec [OF assms(3-6)])
  with False that [of q] show ?thesis by (simp add: resolve_candidate_def)
qed

section \<open>The number of reacting traders\<close>

lemma activation_count_rounds:
  assumes "0 < n" "0 < ratio" "ratio \<le> 10000"
  shows "activation_count n ratio = min n (max 1 ((n * ratio + 5000) div 10000))"
    "(n * ratio + 5000) div 10000 \<le> n"
proof -
  show "activation_count n ratio = min n (max 1 ((n * ratio + 5000) div 10000))"
    using assms by (simp add: activation_count_def basis_points_def)
  have "n * ratio \<le> n * 10000" using assms by simp
  then have "n * ratio + 5000 < (n + 1) * 10000" by (simp add: distrib_right)
  then show "(n * ratio + 5000) div 10000 \<le> n" by simp
qed

text \<open>
  The number of traders that react is the preset's share of the candidates: never more
  than there are, none only when there is no candidate or no share, and otherwise the share
  rounded to the nearest integer, but at least one.
\<close>

theorem activation_count_bounds:
  assumes "0 \<le> n" "0 \<le> ratio" "ratio \<le> 10000"
  defines "k \<equiv> activation_count n ratio"
  shows "0 \<le> k \<and> k \<le> n \<and> (k = 0 \<longleftrightarrow> n = 0 \<or> ratio = 0)
    \<and> n * ratio < k * 10000 + 5000 \<and> (k = 1 \<or> k * 10000 \<le> n * ratio + 5000)"
proof (cases "n = 0 \<or> ratio = 0")
  case True
  then have "k = 0" by (auto simp: k_def activation_count_def)
  with True assms(1) show ?thesis by auto
next
  case False
  let ?m = "(n * ratio + 5000) div 10000"
  have k: "k = max 1 ?m" using activation_count_rounds [of n ratio] False assms by simp
  have "x div 10000 * 10000 \<le> x \<and> x < (x div 10000 + 1) * 10000" for x :: int by presburger
  then have m: "?m * 10000 \<le> n * ratio + 5000" "n * ratio + 5000 < (?m + 1) * 10000" by blast+
  have "k \<le> n" using k activation_count_rounds(2) [of n ratio] False assms by simp
  moreover have "?m * 10000 \<le> k * 10000" using k by simp
  then have "n * ratio < k * 10000 + 5000" using m(2) by (simp add: distrib_right)
  moreover have "k = 1 \<or> k * 10000 \<le> n * ratio + 5000" using k m(1) by linarith
  moreover have "1 \<le> k" using k by simp
  ultimately show ?thesis using False by simp
qed

theorem activation_count_bounds_witness:
  "activation_count 7 4000 = 3 \<and> (7::int) * 4000 < 3 * 10000 + 5000"
proof -
  have k: "activation_count 7 4000 = 3" by (simp add: activation_count_def basis_points_def)
  with activation_count_bounds [of 7 4000] show ?thesis by simp
qed

section \<open>The whole event\<close>

lemma filter_take_distinct:
  assumes "distinct (map f xs)"
  shows "length (filter (\<lambda>x. f x \<in> set (map f (take n xs))) xs) = min n (length xs)"
proof -
  have d: "f ` set (take n xs) \<inter> f ` set (drop n xs) = {}"
    using assms by (metis append_take_drop_id distinct_append list.set_map map_append)
  have "filter (\<lambda>x. f x \<in> set (map f (take n xs))) (take n xs @ drop n xs) = take n xs"
    unfolding filter_append using d by (auto simp: filter_id_conv filter_empty_conv)
  then show ?thesis by simp
qed

lemma count_true_filter: "sum_list (map (\<lambda>x. if P x then 1 else 0) xs) = length (filter P xs)" for xs :: "'a list"
  by (induction xs) auto

lemma activated_exactly:
  assumes "distinct (map rc_user cs)" "n \<le> length cs"
  shows "length (filter (\<lambda>c. rc_user c \<in> set (map rc_user (take n (activation_order sha e cs)))) cs) = n"
proof -
  let ?s = "activation_order sha e cs" and ?P = "\<lambda>c. rc_user c \<in> set (map rc_user (take n (activation_order sha e cs)))"
  have m: "mset ?s = mset cs" by (simp add: activation_order_def)
  have "distinct (map rc_user ?s)"
    using assms(1) m by (metis mset_map mset_eq_imp_distinct_iff)
  then have "length (filter ?P ?s) = min n (length ?s)" by (rule filter_take_distinct)
  moreover have "length ?s = length cs" using m by (metis size_mset)
  moreover have "length (filter ?P ?s) = length (filter ?P cs)" using m by (metis mset_filter size_mset)
  ultimately show ?thesis using assms(2) by simp
qed

lemma eligible_facts:
  assumes "distinct (map rc_user cs)" "\<forall>c\<in>set cs. valid_candidate c"
  shows "distinct (map rc_user (eligible e cs))" "\<forall>c\<in>set (eligible e cs). valid_candidate c"
    "\<forall>c\<in>set (eligible e cs). rc_symbol c = ev_symbol e"
  using assms by (auto simp: eligible_def distinct_map intro: inj_on_subset)

lemma resolve_spec:
  assumes G: "prng_ok G" and t: "1 \<le> tick_ms" and e: "valid_event e"
    and d: "distinct (map rc_user cs)" and v: "\<forall>c\<in>set cs. valid_candidate c"
  obtains p where "resolve G sha tick_ms e cs = Inr p" "ep_event p = e"
    "list_all2 (reaction_fits tick_ms e (preset_definitions (ev_preset e))) (eligible e cs) (ep_reactions p)"
    "rp_ratio_min (preset_definitions (ev_preset e)) \<le> ep_ratio p"
    "ep_ratio p \<le> rp_ratio_max (preset_definitions (ev_preset e))"
    "int (activated_trader_count p) = activation_count (int (length (eligible e cs))) (ep_ratio p)"
    "distinct (map pl_user (ep_reactions p))" "ep_max_lag p = rp_max_lag (preset_definitions (ev_preset e))"
proof -
  let ?pr = "preset_definitions (ev_preset e)" and ?cs = "eligible e cs"
  note vp = preset_definitions_valid [of "ev_preset e"]
  have pr: "rp_ratio_min ?pr \<le> rp_ratio_max ?pr" "0 \<le> rp_ratio_min ?pr" "rp_ratio_max ?pr \<le> 10000"
    "1 \<le> rp_max_lag ?pr" using vp by (simp_all add: valid_preset_def)
  note el = eligible_facts [OF d v, of e]
  obtain r1 ratio where 1: "randint G (rp_ratio_min ?pr) (rp_ratio_max ?pr)
      (prng_seed G (stable_seed sha [str_int (ev_seed e), ev_id e, ''event''])) = (r1, Inr ratio)"
    "rp_ratio_min ?pr \<le> ratio" "ratio \<le> rp_ratio_max ?pr"
    by (rule randint_spec [OF G pr(1)])
  obtain r2 buy where 2: "buy_probability G e ?pr r1 = (r2, Inr buy)" "0 \<le> buy" "buy \<le> 10000"
    by (rule buy_probability_spec [OF G vp])
  define n where "n = activation_count (int (length ?cs)) ratio"
  define ids where "ids = map rc_user (take (nat n) (activation_order sha e ?cs))"
  have n: "0 \<le> n" "n \<le> int (length ?cs)"
    using activation_count_bounds [of "int (length ?cs)" ratio] 1 pr by (simp_all add: n_def)
  have "\<exists>q. resolve_candidate G sha tick_ms e ?pr c (rc_user c \<in> set ids) buy (ceil_div (ev_starts e) tick_ms) = Inr q
      \<and> reaction_fits tick_ms e ?pr c q \<and> pl_activated q = (rc_user c \<in> set ids)" if "c \<in> set ?cs" for c
  proof -
    from that el(2) have "valid_candidate c" by blast
    from resolve_candidate_spec [OF G vp this t 2(2,3), where e = e] e show ?thesis
      by (metis valid_event_def)
  qed
  then obtain g where g: "\<And>c. c \<in> set ?cs \<Longrightarrow>
      resolve_candidate G sha tick_ms e ?pr c (rc_user c \<in> set ids) buy (ceil_div (ev_starts e) tick_ms) = Inr (g c)
      \<and> reaction_fits tick_ms e ?pr c (g c) \<and> pl_activated (g c) = (rc_user c \<in> set ids)"
    by metis
  let ?p = "\<lparr>ep_event = e, ep_version = preset_version, ep_tick_ms = tick_ms, ep_ratio = ratio,
                   ep_max_lag = rp_max_lag ?pr, ep_reactions = map g ?cs\<rparr>"
  have users: "map (pl_user \<circ> g) ?cs = map rc_user ?cs" using g by (simp add: reaction_fits_def)
  have du: "distinct (map (pl_user \<circ> g) ?cs)" unfolding users by (rule el(1))
  have sym: "\<forall>c\<in>set ?cs. pl_symbol (g c) = ev_symbol e" using g el(3) by (simp add: reaction_fits_def)
  have those: "those_ok (map (\<lambda>c. resolve_candidate G sha tick_ms e ?pr c (rc_user c \<in> set ids) buy
      (ceil_div (ev_starts e) tick_ms)) ?cs) = Inr (map g ?cs)"
    by (rule those_ok_map) (use g in blast)
  have post: "event_plan_post_init ?p = Inr ?p"
    unfolding event_plan_post_init_Inr_iff using du sym t 1(2,3) pr
    by (simp add: preset_version_def blank_iff py_isspace_def)
  have "resolve G sha tick_ms e cs = Inr ?p"
    using those post by (simp add: resolve_def require_unique_user_ids_def d Let_def seq_call_def 1(1) 2(1)
        lift_result_def ids_def n_def)
  moreover have "int (activated_trader_count ?p) = n"
  proof -
    have "map (\<lambda>r. if pl_activated r then 1 else 0) (map g ?cs)
        = map (\<lambda>c. if rc_user c \<in> set ids then 1 else (0::nat)) ?cs" using g by simp
    then have "activated_trader_count ?p = sum_list (map (\<lambda>c. if rc_user c \<in> set ids then 1 else 0) ?cs)"
      by (simp only: activated_trader_count_def event_plan.simps)
    then have "activated_trader_count ?p = length (filter (\<lambda>c. rc_user c \<in> set ids) ?cs)"
      by (simp only: count_true_filter)
    also have "\<dots> = nat n" unfolding ids_def using activated_exactly [OF el(1)] n(2) by simp
    finally show ?thesis using n(1) by simp
  qed
  moreover have "list_all2 (reaction_fits tick_ms e ?pr) ?cs (map g ?cs)"
    using g by (simp add: list_all2_conv_all_nth)
  moreover have "distinct (map pl_user (map g ?cs))" using du by simp
  ultimately show ?thesis using that [of ?p] 1(2,3) by (simp add: n_def)
qed

text \<open>
  C22: planning a fresh event succeeds and yields a well-formed plan. The random ratio lies in
  the preset's range, exactly the computed number of candidates react, there is one reaction per
  candidate of the symbol, in the order of their user ids, and each reaction stays within the
  preset's and the candidate's ranges: the delay, the number of orders and their spacing, the
  quantities and lifetimes, and no order before the event's start plus the delay.
\<close>

theorem plan_once_resolves:
  assumes "prng_ok G" "1 \<le> pn_tick_ms pn" "valid_event e"
    and "distinct (map rc_user cs)" "\<forall>c\<in>set cs. valid_candidate c"
    and "dict_get (pn_processed pn) (ev_id e) = None"
  defines "preset \<equiv> preset_definitions (ev_preset e)"
  shows "\<exists>p. plan_once G sha e cs pn
        = (pn\<lparr>pn_processed := dict_set (pn_processed pn) (ev_id e) e\<rparr>, Inr (Some p))
    \<and> ep_event p = e
    \<and> rp_ratio_min preset \<le> ep_ratio p \<and> ep_ratio p \<le> rp_ratio_max preset
    \<and> int (activated_trader_count p) = activation_count (int (length (eligible e cs))) (ep_ratio p)
    \<and> list_all2 (reaction_fits (pn_tick_ms pn) e preset) (eligible e cs) (ep_reactions p)"
proof -
  obtain p where "resolve G sha (pn_tick_ms pn) e cs = Inr p" "ep_event p = e"
    "list_all2 (reaction_fits (pn_tick_ms pn) e preset) (eligible e cs) (ep_reactions p)"
    "rp_ratio_min preset \<le> ep_ratio p" "ep_ratio p \<le> rp_ratio_max preset"
    "int (activated_trader_count p) = activation_count (int (length (eligible e cs))) (ep_ratio p)"
    unfolding preset_def by (rule resolve_spec [OF assms(1-5), where sha = sha])
  with assms(6) show ?thesis by (intro exI [of _ p]) (simp add: plan_once_def)
qed

definition demo_event :: news_event where
  "demo_event = \<lparr>ev_id = ''e1'', ev_symbol = ''005930'', ev_starts = 1500, ev_preset = MARKET_PANIC,
     ev_hint = HINT_SELL, ev_label = [], ev_source = ''fixture'', ev_seed = 42\<rparr>"

definition demo_candidate :: "string \<Rightarrow> reaction_candidate" where
  "demo_candidate u = \<lparr>rc_user = u, rc_symbol = ''005930'', rc_quantity_min = 1, rc_quantity_max = 9,
     rc_ttl = 16, rc_interval = 2, rc_seed = 7\<rparr>"

definition demo_planner :: planner where
  "demo_planner = \<lparr>pn_tick_ms = 1000, pn_processed = []\<rparr>"

lemmas demo_plan_defs = demo_event_def demo_candidate_def demo_planner_def

lemma demo_plan_ok:
  "1 \<le> pn_tick_ms demo_planner" "valid_event demo_event"
  "distinct (map rc_user [demo_candidate ''b'', demo_candidate ''a''])"
  "\<forall>c\<in>set [demo_candidate ''b'', demo_candidate ''a'']. valid_candidate c"
  "dict_get (pn_processed demo_planner) (ev_id demo_event) = None"
  by (simp_all add: demo_plan_defs valid_event_def valid_candidate_def blank_iff py_isspace_def)

theorem plan_once_resolves_witness:
  "\<exists>p. plan_once demo_prng id demo_event [demo_candidate ''b'', demo_candidate ''a''] demo_planner
        = (demo_planner\<lparr>pn_processed := [(''e1'', demo_event)]\<rparr>, Inr (Some p))
    \<and> 7000 \<le> ep_ratio p \<and> ep_ratio p \<le> 10000"
  using plan_once_resolves [OF demo_prng_ok demo_plan_ok, of id]
  by (auto simp: preset_definitions_def demo_planner_def demo_event_def)

text \<open>A run of the planner over a sequence of events with their candidates.\<close>

fun plan_all ::
  "'r prng \<Rightarrow> (nat list \<Rightarrow> nat list) \<Rightarrow> (news_event \<times> reaction_candidate list) list \<Rightarrow> planner
    \<Rightarrow> (py_error + event_plan option) list" where
  "plan_all G sha [] pn = []"
| "plan_all G sha ((e, cs) # rest) pn =
     (let (pn', r) = plan_once G sha e cs pn in r # plan_all G sha rest pn')"

definition planned_ids :: "(py_error + event_plan option) list \<Rightarrow> string list" where
  "planned_ids rs = concat (map (\<lambda>r. case r of Inr (Some p) \<Rightarrow> [ev_id (ep_event p)] | _ \<Rightarrow> []) rs)"

lemma resolve_event: "resolve G sha tick_ms e cs = Inr p \<Longrightarrow> ep_event p = e"
  by (auto simp: resolve_def ebind_eq_Inr_iff Let_def seq_call_def lift_result_def
      event_plan_post_init_Inr_iff split: prod.splits sum.splits)

lemma plan_once_cases:
  assumes "plan_once G sha e cs pn = (pn', r)"
  obtains (planned) p where "r = Inr (Some p)" "ep_event p = e" "dict_get (pn_processed pn) (ev_id e) = None"
      "pn_processed pn' = dict_set (pn_processed pn) (ev_id e) e"
    | (unchanged) "pn' = pn" "\<And>p. r \<noteq> Inr (Some p)"
  using assms by (auto simp: plan_once_def resolve_event split: option.splits sum.splits if_splits)

lemma planned_once:
  "distinct (planned_ids (plan_all G sha calls pn))
   \<and> (\<forall>i\<in>set (planned_ids (plan_all G sha calls pn)). dict_get (pn_processed pn) i = None)"
proof (induction calls arbitrary: pn)
  case (Cons call calls)
  obtain e cs where call: "call = (e, cs)" by force
  obtain pn' r where r: "plan_once G sha e cs pn = (pn', r)" by force
  let ?rest = "planned_ids (plan_all G sha calls pn')"
  from r show ?case
  proof (cases rule: plan_once_cases)
    case (planned p)
    have rest: "distinct ?rest" "\<And>i. i \<in> set ?rest \<Longrightarrow> dict_get (dict_set (pn_processed pn) (ev_id e) e) i = None"
      using Cons.IH [of pn'] planned(4) by simp_all
    have "planned_ids (plan_all G sha (call # calls) pn) = ev_id e # ?rest"
      using planned(1,2) r by (simp add: call planned_ids_def)
    moreover have "i \<noteq> ev_id e \<and> dict_get (pn_processed pn) i = None" if "i \<in> set ?rest" for i
      using rest(2) [OF that] by (auto simp: dict_simps split: if_splits)
    ultimately show ?thesis using rest(1) planned(3) by auto
  next
    case unchanged
    have "planned_ids (plan_all G sha (call # calls) pn) = planned_ids (plan_all G sha calls pn)"
      using unchanged r by (auto simp: call planned_ids_def split: sum.splits option.splits)
    then show ?thesis using Cons.IH [of pn] by simp
  qed
qed (simp add: planned_ids_def)

text \<open>
  C23: an event is planned at most once. Whatever sequence of events a planner is given, with
  whatever candidates, no event id yields two plans.
\<close>

theorem events_planned_at_most_once: "distinct (planned_ids (plan_all G sha calls pn))"
  using planned_once by blast

section \<open>The schedule of a plan\<close>

lemma dict_bump_sum:
  "sum_list (map snd (dict_set d x ((case dict_get d x of None \<Rightarrow> 0 | Some n \<Rightarrow> n) + (1::nat))))
     = sum_list (map snd d) + 1"
  by (induction d) auto

lemma counter_sum: "sum_list (map snd (counter d xs)) = sum_list (map snd d) + length xs"
  by (induction xs arbitrary: d) (use dict_bump_sum in auto)

lemma sorted_map_fst: "sorted ps \<Longrightarrow> sorted (map fst ps)" for ps :: "('a::linorder \<times> 'b::linorder) list"
  by (induction ps) (auto simp: less_eq_prod_def intro: order_less_imp_le)

lemma valid_plan_offsets: "valid_plan r \<Longrightarrow> length (pl_offsets r) = order_count r"
  by (simp add: valid_plan_def)

text \<open>
  The schedule of a plan by ticks is strictly increasing in the tick, names exactly the
  ticks at which orders are planned with their number, and its numbers add up to the plan's
  order count.
\<close>

theorem orders_by_tick_schedule:
  assumes "\<forall>r\<in>set (ep_reactions p). valid_plan r"
  shows "sorted_wrt (<) (map fst (orders_by_tick p))
    \<and> (\<forall>t n. (t, n) \<in> set (orders_by_tick p) \<longleftrightarrow>
          0 < n \<and> n = count_list (concat (map pl_offsets (ep_reactions p))) t)
    \<and> sum_list (map snd (orders_by_tick p)) = planned_order_count p"
proof -
  let ?xs = "concat (map pl_offsets (ep_reactions p))"
  let ?d = "counter [] ?xs :: (int \<times> nat) list"
  have ok: "dict_ok ?d" by (rule counter_ok) simp
  have get: "dict_get ?d t = (if t \<in> set ?xs then Some (count_list ?xs t) else None)" for t
    by (simp only: counter_get map_of.simps option.case)
  have "distinct (map fst (sort ?d))" using ok by (simp add: distinct_map)
  then have 1: "sorted_wrt (<) (map fst (orders_by_tick p))"
    unfolding orders_by_tick_def using sorted_map_fst [OF sorted_sort] by (simp add: strict_sorted_iff)
  have 2: "(t, n) \<in> set (orders_by_tick p) \<longleftrightarrow> 0 < n \<and> n = count_list ?xs t" for t n
  proof -
    have "(t, n) \<in> set (orders_by_tick p) \<longleftrightarrow> dict_get ?d t = Some n"
      using ok by (simp add: orders_by_tick_def)
    also have "\<dots> \<longleftrightarrow> 0 < n \<and> n = count_list ?xs t"
      unfolding get by (cases "t \<in> set ?xs") (metis count_list_0_iff neq0_conv option.inject,
          metis count_list_0_iff less_irrefl option.distinct(1))
    finally show ?thesis .
  qed
  have "sum_list (map snd (orders_by_tick p)) = sum_list (map snd ?d)"
    unfolding orders_by_tick_def by (metis mset_map mset_sort sum_mset_sum_list)
  also have "\<dots> = length ?xs" by (simp add: counter_sum)
  also have "\<dots> = planned_order_count p"
    unfolding planned_order_count_def length_concat map_map comp_def
    using assms by (metis (no_types, lifting) map_eq_conv valid_plan_offsets)
  finally show ?thesis using 1 2 by blast
qed

definition demo_reaction :: "string \<Rightarrow> reaction_plan" where
  "demo_reaction u = \<lparr>pl_user = u, pl_symbol = ''005930'', pl_activated = True, pl_after_ms = Some 500,
     pl_interval_ticks = 2, pl_buy_probability = 5000, pl_sides = [BUY, SELL, BUY],
     pl_quantities = [1, 2, 3], pl_ttls = [16, 16, 16], pl_offsets = [2, 4, 6]\<rparr>"

definition demo_event_plan :: event_plan where
  "demo_event_plan = \<lparr>ep_event = demo_event, ep_version = ''1'', ep_tick_ms = 1000, ep_ratio = 8000,
     ep_max_lag = 1000, ep_reactions = [demo_reaction ''a'', demo_reaction ''b'']\<rparr>"

theorem orders_by_tick_schedule_witness:
  "sum_list (map snd (orders_by_tick demo_event_plan)) = 6
   \<and> ((4, 2) \<in> set (orders_by_tick demo_event_plan))"
proof -
  have "\<forall>r\<in>set (ep_reactions demo_event_plan). valid_plan r"
    by (simp add: demo_event_plan_def demo_reaction_def valid_plan_def order_count_def blank_iff py_isspace_def)
  note s = orders_by_tick_schedule [OF this]
  have "planned_order_count demo_event_plan = 6"
    by (simp add: planned_order_count_def demo_event_plan_def demo_reaction_def order_count_def)
  moreover have "count_list (concat (map pl_offsets (ep_reactions demo_event_plan))) 4 = 2"
    by (simp add: demo_event_plan_def demo_reaction_def)
  ultimately show ?thesis using s by simp
qed

end
