(* ===== verification/Traders.thy ===== *)
theory Traders
  imports Reaction_Planner
begin

text \<open>
  \<open>backend/exchange/participants/traders.py\<close>: the five kinds of participants, as a record of
  what \<open>BaseTrader\<close> keeps and a datatype for the class with its own attributes. A method
  that draws random numbers or changes the object is an action on the trader.

  The lemmas show that a constructed trader never fails and sends orders the market accepts,
  that every interval of ticks has exactly one due tick, and where the prices lie.
\<close>

section \<open>Objects\<close>

datatype trader_class =
    NoiseTrader
  | MomentumTrader (previous_midpoint: "int option")
  | MeanReversionTrader
  | LiquidityProvider
  | EventReactiveTrader (reactive_plan: "reaction_plan option") (consumed: "nat set")

record 'r trader =
  tr_settings :: trader_settings
  tr_random :: 'r
  tr_interval_ticks :: int
  tr_phase :: int
  tr_class :: trader_class

definition base_trader ::
  "'r prng \<Rightarrow> trader_settings \<Rightarrow> int \<Rightarrow> trader_class \<Rightarrow> py_error + 'r trader" where
  "base_trader G s tick_ms cls =
     ebind (ticks_for_interval (ts_interval s) tick_ms) (\<lambda>n.
     Inr \<lparr>tr_settings = s, tr_random = prng_seed G (ts_seed s), tr_interval_ticks = n,
          tr_phase = ts_seed s mod n, tr_class = cls\<rparr>)"

definition trader_classes :: "(string, trader_class) dict" where
  "trader_classes =
     [(''noise'', NoiseTrader), (''momentum'', MomentumTrader None),
      (''mean_reversion'', MeanReversionTrader), (''liquidity_provider'', LiquidityProvider),
      (''event_reactive'', EventReactiveTrader None {})]"

definition build_trader :: "'r prng \<Rightarrow> trader_settings \<Rightarrow> int \<Rightarrow> py_error + 'r trader" where
  "build_trader G s tick_ms =
     (case dict_get trader_classes (ts_strategy s) of
        None \<Rightarrow> Inl (ValueError (''unsupported strategy: '' @ ts_strategy s))
      | Some cls \<Rightarrow> base_trader G s tick_ms cls)"

text \<open>\<open>isinstance(participant, EventReactiveTrader)\<close>.\<close>

fun reactive_class :: "trader_class \<Rightarrow> bool" where
  "reactive_class (EventReactiveTrader _ _) = True"
| "reactive_class _ = False"

definition is_reactive :: "'r trader \<Rightarrow> bool" where
  "is_reactive t = reactive_class (tr_class t)"

abbreviation trader_user :: "'r trader \<Rightarrow> string" where
  "trader_user t \<equiv> ts_user (tr_settings t)"

abbreviation trader_symbol :: "'r trader \<Rightarrow> symbol" where
  "trader_symbol t \<equiv> ts_symbol (tr_settings t)"

section \<open>Common methods\<close>

definition is_due :: "'r trader \<Rightarrow> int \<Rightarrow> bool" where
  "is_due t tick \<longleftrightarrow> (tick + tr_phase t) mod tr_interval_ticks t = 0"

definition with_random :: "('r, 'a) action \<Rightarrow> ('r trader, 'a) action" where
  "with_random m t = (let (r, x) = m (tr_random t) in (t\<lparr>tr_random := r\<rparr>, x))"

definition draw_quantity :: "'r prng \<Rightarrow> ('r trader, int) action" where
  "draw_quantity G t =
     with_random (randint G (ts_quantity_min (tr_settings t)) (ts_quantity_max (tr_settings t))) t"

definition make_intent :: "'r prng \<Rightarrow> order_side \<Rightarrow> int \<Rightarrow> ('r trader, order_intent) action" where
  "make_intent G sd p =
     seq_call (draw_quantity G) (\<lambda>q t. (t, Inr
       \<lparr>oi_user = trader_user t, oi_symbol = trader_symbol t, oi_side = sd,
        oi_price = max (ts_step (tr_settings t)) p, oi_quantity = q,
        oi_ttl = Some (ts_ttl (tr_settings t))\<rparr>))"

definition best_bid :: "book_snapshot \<Rightarrow> int option" where
  "best_bid snap = (case snap_bids snap of [] \<Rightarrow> None | l # _ \<Rightarrow> Some (level_price l))"

definition best_ask :: "book_snapshot \<Rightarrow> int option" where
  "best_ask snap = (case snap_asks snap of [] \<Rightarrow> None | l # _ \<Rightarrow> Some (level_price l))"

definition midpoint :: "trader_settings \<Rightarrow> book_snapshot \<Rightarrow> int" where
  "midpoint s snap =
     (case (best_bid snap, best_ask snap) of
        (Some b, Some a) \<Rightarrow> (b + a) div 2
      | (Some b, None) \<Rightarrow> b
      | (None, Some a) \<Rightarrow> a
      | (None, None) \<Rightarrow> ts_reference s)"

definition one_intent :: "'r prng \<Rightarrow> order_side \<Rightarrow> int \<Rightarrow> ('r trader, order_intent list) action" where
  "one_intent G sd p = seq_call (make_intent G sd p) (\<lambda>i t. (t, Inr [i]))"

section \<open>The strategies\<close>

definition noise_intents :: "'r prng \<Rightarrow> int \<Rightarrow> ('r trader, order_intent list) action" where
  "noise_intents G tick t =
     (if \<not> is_due t tick then (t, Inr [])
      else let s = tr_settings t
      in seq_call (with_random (choice G [BUY, SELL])) (\<lambda>sd.
         seq_call (with_random (randint G (- ts_max_offset s) (ts_max_offset s))) (\<lambda>offset.
         one_intent G sd (ts_reference s + offset * ts_step s))) t)"

definition momentum_intents ::
  "'r prng \<Rightarrow> int option \<Rightarrow> int \<Rightarrow> book_snapshot \<Rightarrow> ('r trader, order_intent list) action" where
  "momentum_intents G previous tick snap t =
     (if \<not> is_due t tick then (t, Inr [])
      else
        (let s = tr_settings t; mid = midpoint s snap;
             t' = t\<lparr>tr_class := MomentumTrader (Some mid)\<rparr>
         in case previous of
              None \<Rightarrow> (t', Inr [])
            | Some prev \<Rightarrow>
                if mid = prev then (t', Inr [])
                else if prev < mid
                then one_intent G BUY (case best_ask snap of Some a \<Rightarrow> a | None \<Rightarrow> mid + ts_step s) t'
                else one_intent G SELL (case best_bid snap of Some b \<Rightarrow> b | None \<Rightarrow> mid - ts_step s) t'))"

definition mean_reversion_intents ::
  "'r prng \<Rightarrow> int \<Rightarrow> book_snapshot \<Rightarrow> ('r trader, order_intent list) action" where
  "mean_reversion_intents G tick snap t =
     (if \<not> is_due t tick then (t, Inr [])
      else
        (let s = tr_settings t; mid = midpoint s snap; threshold = ts_step s
         in if mid \<le> ts_reference s - threshold
            then one_intent G BUY (case best_ask snap of Some a \<Rightarrow> a | None \<Rightarrow> mid + threshold) t
            else if ts_reference s + threshold \<le> mid
            then one_intent G SELL (case best_bid snap of Some b \<Rightarrow> b | None \<Rightarrow> mid - threshold) t
            else (t, Inr [])))"

definition liquidity_center :: "trader_settings \<Rightarrow> book_snapshot \<Rightarrow> int" where
  "liquidity_center s snap =
     (let far = ts_max_offset s * ts_step s
      in min (ts_reference s + far) (max (ts_reference s - far) (midpoint s snap)))"

definition liquidity_intents ::
  "'r prng \<Rightarrow> int \<Rightarrow> book_snapshot \<Rightarrow> ('r trader, order_intent list) action" where
  "liquidity_intents G tick snap t =
     (if \<not> is_due t tick then (t, Inr [])
      else
        (let s = tr_settings t; center = liquidity_center s snap
         in seq_call (make_intent G BUY (center - ts_step s)) (\<lambda>bid.
            seq_call (make_intent G SELL (center + ts_step s)) (\<lambda>ask t'. (t', Inr [bid, ask]))) t))"

section \<open>Event-reactive traders\<close>

definition reaction_candidate_of :: "'r trader \<Rightarrow> py_error + reaction_candidate" where
  "reaction_candidate_of t =
     (let s = tr_settings t
      in candidate_post_init
        \<lparr>rc_user = ts_user s, rc_symbol = ts_symbol s, rc_quantity_min = ts_quantity_min s,
         rc_quantity_max = ts_quantity_max s, rc_ttl = ts_ttl s, rc_interval = ts_interval s,
         rc_seed = ts_seed s\<rparr>)"

definition apply_plan :: "reaction_plan \<Rightarrow> ('r trader, unit) action" where
  "apply_plan p t =
     (if pl_user p \<noteq> trader_user t
      then (t, Inl (ValueError ''reaction plan user_id must match the trader''))
      else if pl_symbol p \<noteq> trader_symbol t
      then (t, Inl (ValueError ''reaction plan symbol must match the trader''))
      else (t\<lparr>tr_class := EventReactiveTrader (Some p) {}\<rparr>, Inr ()))"

text \<open>The plan of an activated reaction; without one the methods below do nothing.\<close>

definition active_reaction :: "reaction_plan option \<Rightarrow> reaction_plan option" where
  "active_reaction po =
     (case po of None \<Rightarrow> None | Some p \<Rightarrow> if pl_activated p then Some p else None)"

definition remaining_of :: "reaction_plan option \<Rightarrow> nat set \<Rightarrow> int" where
  "remaining_of po used =
     (case active_reaction po of None \<Rightarrow> 0 | Some p \<Rightarrow> int (order_count p) - int (card used))"

fun drop_late_loop :: "int \<Rightarrow> int \<Rightarrow> int \<Rightarrow> (nat \<times> int) list \<Rightarrow> nat set \<Rightarrow> nat set \<times> nat" where
  "drop_late_loop elapsed tick_ms lag [] used = (used, 0)"
| "drop_late_loop elapsed tick_ms lag ((i, offset) # rest) used =
     (if i \<in> used then drop_late_loop elapsed tick_ms lag rest used
      else if lag < elapsed - offset * tick_ms
      then (let (used', n) = drop_late_loop elapsed tick_ms lag rest (insert i used) in (used', Suc n))
      else drop_late_loop elapsed tick_ms lag rest used)"

definition drop_late :: "reaction_plan option \<Rightarrow> int \<Rightarrow> int \<Rightarrow> int \<Rightarrow> nat set \<Rightarrow> nat set \<times> nat" where
  "drop_late po elapsed tick_ms lag used =
     (case active_reaction po of None \<Rightarrow> (used, 0)
      | Some p \<Rightarrow> drop_late_loop elapsed tick_ms lag (enumerate 0 (pl_offsets p)) used)"

definition reaction_price :: "trader_settings \<Rightarrow> order_side \<Rightarrow> book_snapshot \<Rightarrow> int" where
  "reaction_price s sd snap =
     (case sd of
        BUY \<Rightarrow> (case best_ask snap of Some a \<Rightarrow> a
          | None \<Rightarrow> max (ts_step s) (ts_reference s + ts_step s))
      | SELL \<Rightarrow> (case best_bid snap of Some b \<Rightarrow> b
          | None \<Rightarrow> max (ts_step s) (ts_reference s - ts_step s)))"

text \<open>\<open>xs[i]\<close> of a tuple.\<close>

definition item :: "'a list \<Rightarrow> nat \<Rightarrow> py_error + 'a" where
  "item xs i = (if i < length xs then Inr (xs ! i) else Inl IndexError)"

definition reaction_intent ::
  "trader_settings \<Rightarrow> reaction_plan \<Rightarrow> nat \<Rightarrow> book_snapshot \<Rightarrow> py_error + order_intent" where
  "reaction_intent s p i snap =
     ebind (item (pl_sides p) i) (\<lambda>sd.
     ebind (item (pl_quantities p) i) (\<lambda>q.
     ebind (item (pl_ttls p) i) (\<lambda>ttl.
     Inr \<lparr>oi_user = ts_user s, oi_symbol = ts_symbol s, oi_side = sd,
          oi_price = reaction_price s sd snap, oi_quantity = q, oi_ttl = Some ttl\<rparr>)))"

fun reactive_loop ::
  "trader_settings \<Rightarrow> reaction_plan \<Rightarrow> int \<Rightarrow> book_snapshot \<Rightarrow> (nat \<times> int) list
    \<Rightarrow> (nat set, order_intent list) action" where
  "reactive_loop s p tick snap [] used = (used, Inr [])"
| "reactive_loop s p tick snap ((i, offset) # rest) used =
     (if i \<in> used then reactive_loop s p tick snap rest used
      else if max offset 1 \<noteq> tick then reactive_loop s p tick snap rest used
      else (case reaction_intent s p i snap of
          Inl e \<Rightarrow> (insert i used, Inl e)
        | Inr intent \<Rightarrow>
            (case reactive_loop s p tick snap rest (insert i used) of
               (used', Inl e) \<Rightarrow> (used', Inl e)
             | (used', Inr intents) \<Rightarrow> (used', Inr (intent # intents)))))"

definition reactive_intents ::
  "reaction_plan option \<Rightarrow> nat set \<Rightarrow> int \<Rightarrow> book_snapshot \<Rightarrow> ('r trader, order_intent list) action" where
  "reactive_intents po used tick snap t =
     (case active_reaction po of None \<Rightarrow> (t, Inr [])
      | Some p \<Rightarrow>
          (let (used', r) = reactive_loop (tr_settings t) p tick snap (enumerate 0 (pl_offsets p)) used
           in (t\<lparr>tr_class := EventReactiveTrader po used'\<rparr>, r)))"

definition remaining_reaction_orders :: "'r trader \<Rightarrow> int" where
  "remaining_reaction_orders t =
     (case tr_class t of EventReactiveTrader po used \<Rightarrow> remaining_of po used | _ \<Rightarrow> 0)"

definition drop_late_orders :: "int \<Rightarrow> int \<Rightarrow> int \<Rightarrow> 'r trader \<Rightarrow> 'r trader \<times> nat" where
  "drop_late_orders elapsed tick_ms lag t =
     (case tr_class t of
        EventReactiveTrader po used \<Rightarrow>
          (let (used', n) = drop_late po elapsed tick_ms lag used
           in (t\<lparr>tr_class := EventReactiveTrader po used'\<rparr>, n))
      | _ \<Rightarrow> (t, 0))"

section \<open>Dispatch\<close>

definition next_intents ::
  "'r prng \<Rightarrow> int \<Rightarrow> book_snapshot \<Rightarrow> ('r trader, order_intent list) action" where
  "next_intents G tick snap t =
     (case tr_class t of
        NoiseTrader \<Rightarrow> noise_intents G tick t
      | MomentumTrader previous \<Rightarrow> momentum_intents G previous tick snap t
      | MeanReversionTrader \<Rightarrow> mean_reversion_intents G tick snap t
      | LiquidityProvider \<Rightarrow> liquidity_intents G tick snap t
      | EventReactiveTrader po used \<Rightarrow> reactive_intents po used tick snap t)"

section \<open>Well-formed traders and intents\<close>

definition snapshot_ok :: "book_snapshot \<Rightarrow> bool" where
  "snapshot_ok snap \<longleftrightarrow> (\<forall>l\<in>set (snap_bids snap) \<union> set (snap_asks snap). 1 \<le> level_price l)"

definition class_ok :: "trader_settings \<Rightarrow> trader_class \<Rightarrow> bool" where
  "class_ok s cls =
     (case cls of
        EventReactiveTrader (Some p) used \<Rightarrow>
          valid_plan p \<and> pl_user p = ts_user s \<and> pl_symbol p = ts_symbol s \<and> used \<subseteq> {..<order_count p}
      | _ \<Rightarrow> True)"

definition trader_ok :: "'r trader \<Rightarrow> bool" where
  "trader_ok t \<longleftrightarrow> valid_settings (tr_settings t) \<and> 1 \<le> tr_interval_ticks t
     \<and> class_ok (tr_settings t) (tr_class t)"

definition valid_intent :: "trader_settings \<Rightarrow> order_intent \<Rightarrow> bool" where
  "valid_intent s i \<longleftrightarrow> oi_user i = ts_user s \<and> oi_symbol i = ts_symbol s
     \<and> 1 \<le> oi_price i \<and> 1 \<le> oi_quantity i \<and> (case oi_ttl i of None \<Rightarrow> False | Some n \<Rightarrow> 1 \<le> n)"

lemma best_prices_ok:
  assumes "snapshot_ok snap"
  shows "best_bid snap = Some b \<Longrightarrow> 1 \<le> b" "best_ask snap = Some a \<Longrightarrow> 1 \<le> a"
  using assms by (auto simp: snapshot_ok_def best_bid_def best_ask_def split: list.splits)

lemma midpoint_pos: "valid_settings s \<Longrightarrow> snapshot_ok snap \<Longrightarrow> 1 \<le> midpoint s snap"
  using best_prices_ok [of snap] by (auto simp: midpoint_def valid_settings_def split: option.splits)

lemma build_trader_ok:
  assumes "valid_settings s" "1 \<le> tick_ms"
  obtains t where "build_trader G s tick_ms = Inr t" "trader_ok t" "tr_settings t = s"
    "0 \<le> tr_phase t" "tr_phase t < tr_interval_ticks t"
proof -
  obtain n where n: "ticks_for_interval (ts_interval s) tick_ms = Inr n" "1 \<le> n"
    using assms by (meson ticks_for_interval_ok valid_settings_def)
  have "ts_strategy s \<in> set supported_strategies" using assms(1) by (simp add: valid_settings_def)
  then obtain cls where cls: "dict_get trader_classes (ts_strategy s) = Some cls" "class_ok s cls"
    by (auto simp: supported_strategies_def trader_classes_def class_ok_def)
  let ?t = "\<lparr>tr_settings = s, tr_random = prng_seed G (ts_seed s), tr_interval_ticks = n,
          tr_phase = ts_seed s mod n, tr_class = cls\<rparr>"
  have "build_trader G s tick_ms = Inr ?t" using n cls by (simp add: build_trader_def base_trader_def)
  moreover have "trader_ok ?t" using assms n cls by (simp add: trader_ok_def)
  ultimately show ?thesis using that [of ?t] n(2) by simp
qed

text \<open>What a step of a trader does: it may change the random state and the class attributes only.\<close>

definition same_trader :: "'r trader \<Rightarrow> 'r trader \<Rightarrow> bool" where
  "same_trader t t' \<longleftrightarrow> tr_settings t' = tr_settings t \<and> tr_interval_ticks t' = tr_interval_ticks t
     \<and> tr_phase t' = tr_phase t \<and> is_reactive t' = is_reactive t"

lemma draw_quantity_spec:
  assumes "prng_ok G" "valid_settings (tr_settings t)"
  obtains r q where "draw_quantity G t = (t\<lparr>tr_random := r\<rparr>, Inr q)"
    "ts_quantity_min (tr_settings t) \<le> q" "q \<le> ts_quantity_max (tr_settings t)"
proof -
  have "ts_quantity_min (tr_settings t) \<le> ts_quantity_max (tr_settings t)"
    using assms(2) by (simp add: valid_settings_def)
  then obtain r q where "randint G (ts_quantity_min (tr_settings t)) (ts_quantity_max (tr_settings t)) (tr_random t)
      = (r, Inr q)" "ts_quantity_min (tr_settings t) \<le> q" "q \<le> ts_quantity_max (tr_settings t)"
    by (rule randint_spec [OF assms(1)])
  with that [of r q] show ?thesis by (simp add: draw_quantity_def with_random_def)
qed

lemma make_intent_spec:
  assumes "prng_ok G" "valid_settings (tr_settings t)"
  obtains r i where "make_intent G sd p t = (t\<lparr>tr_random := r\<rparr>, Inr i)" "valid_intent (tr_settings t) i"
    "oi_side i = sd" "oi_price i = max (ts_step (tr_settings t)) p"
    "ts_quantity_min (tr_settings t) \<le> oi_quantity i" "oi_quantity i \<le> ts_quantity_max (tr_settings t)"
proof -
  obtain r q where q: "draw_quantity G t = (t\<lparr>tr_random := r\<rparr>, Inr q)"
    "ts_quantity_min (tr_settings t) \<le> q" "q \<le> ts_quantity_max (tr_settings t)"
    by (rule draw_quantity_spec [OF assms])
  let ?i = "\<lparr>oi_user = trader_user t, oi_symbol = trader_symbol t, oi_side = sd,
        oi_price = max (ts_step (tr_settings t)) p, oi_quantity = q,
        oi_ttl = Some (ts_ttl (tr_settings t))\<rparr>"
  have "make_intent G sd p t = (t\<lparr>tr_random := r\<rparr>, Inr ?i)"
    by (simp add: make_intent_def seq_call_def q(1))
  moreover have "valid_intent (tr_settings t) ?i"
    using assms(2) q(2) by (auto simp: valid_intent_def valid_settings_def)
  ultimately show ?thesis using that [of r ?i] q(2,3) by simp
qed

lemma one_intent_spec:
  assumes "prng_ok G" "valid_settings (tr_settings t)"
  obtains r i where "one_intent G sd p t = (t\<lparr>tr_random := r\<rparr>, Inr [i])" "valid_intent (tr_settings t) i"
    "oi_side i = sd" "oi_price i = max (ts_step (tr_settings t)) p"
proof -
  obtain r i where i: "make_intent G sd p t = (t\<lparr>tr_random := r\<rparr>, Inr i)" "valid_intent (tr_settings t) i"
    "oi_side i = sd" "oi_price i = max (ts_step (tr_settings t)) p"
    by (rule make_intent_spec [OF assms, of sd p]) blast
  then show ?thesis using that [of r i] by (simp add: one_intent_def seq_call_def)
qed

text \<open>The result of a call that keeps the trader well-formed and returns valid intents.\<close>

definition sends_valid :: "'r trader \<Rightarrow> 'r trader \<times> (py_error + order_intent list) \<Rightarrow> bool" where
  "sends_valid t res =
     (case res of (t', Inr is) \<Rightarrow> trader_ok t' \<and> same_trader t t' \<and> (\<forall>i\<in>set is. valid_intent (tr_settings t) i)
      | _ \<Rightarrow> False)"

lemma sends_nothing: "trader_ok t' \<Longrightarrow> same_trader t t' \<Longrightarrow> sends_valid t (t', Inr [])"
  by (simp add: sends_valid_def)

lemma trader_ok_random [simp]: "trader_ok (t\<lparr>tr_random := r\<rparr>) = trader_ok t"
  by (simp add: trader_ok_def)

lemma same_trader_simps [simp]:
  "same_trader t t" "same_trader t (t'\<lparr>tr_random := r\<rparr>) = same_trader t t'"
  "reactive_class cls = is_reactive t' \<Longrightarrow> same_trader t (t'\<lparr>tr_class := cls\<rparr>) = same_trader t t'"
  by (simp_all add: same_trader_def is_reactive_def)

lemma one_intent_sends:
  assumes "prng_ok G" "trader_ok t" "trader_ok t'" "same_trader t t'"
  shows "sends_valid t (one_intent G sd p t')"
proof -
  have "valid_settings (tr_settings t')" using assms(3) by (simp add: trader_ok_def)
  then obtain r i where "one_intent G sd p t' = (t'\<lparr>tr_random := r\<rparr>, Inr [i])" "valid_intent (tr_settings t') i"
    by (rule one_intent_spec [OF assms(1)])
  then show ?thesis using assms(2-4) by (simp add: sends_valid_def same_trader_def is_reactive_def)
qed

lemma noise_sends:
  assumes "prng_ok G" "trader_ok t"
  shows "sends_valid t (noise_intents G tick t)"
proof (cases "is_due t tick")
  case True
  have off: "- ts_max_offset (tr_settings t) \<le> ts_max_offset (tr_settings t)"
    using assms(2) by (simp add: trader_ok_def valid_settings_def)
  obtain r1 sd where 1: "choice G [BUY, SELL] (tr_random t) = (r1, Inr sd)"
    using choice_spec [OF assms(1), of "[BUY, SELL]"] by (metis list.distinct(1))
  obtain r2 k where 2: "randint G (- ts_max_offset (tr_settings t)) (ts_max_offset (tr_settings t)) r1 = (r2, Inr k)"
    using randint_spec [OF assms(1) off] by metis
  have "noise_intents G tick t = one_intent G sd
      (ts_reference (tr_settings t) + k * ts_step (tr_settings t)) (t\<lparr>tr_random := r2\<rparr>)"
    using True by (simp add: noise_intents_def Let_def with_random_def seq_call_def 1 2)
  then show ?thesis using one_intent_sends [OF assms(1,2)] assms(2) by simp
qed (simp add: noise_intents_def sends_nothing assms)

lemma momentum_sends:
  assumes "prng_ok G" "trader_ok t" "tr_class t = MomentumTrader previous"
  shows "sends_valid t (momentum_intents G previous tick snap t)"
proof -
  let ?t' = "t\<lparr>tr_class := MomentumTrader (Some (midpoint (tr_settings t) snap))\<rparr>"
  have ok: "trader_ok ?t'" using assms(2,3) by (simp add: trader_ok_def class_ok_def)
  have send: "sends_valid t (one_intent G sd p ?t')" for sd p
    by (rule one_intent_sends [OF assms(1,2) ok]) (simp add: is_reactive_def assms(3))
  show ?thesis
    unfolding momentum_intents_def Let_def using send ok assms(2)
    by (auto intro: sends_nothing simp: is_reactive_def assms(3) split: option.split)
qed

lemma mean_reversion_sends:
  assumes "prng_ok G" "trader_ok t"
  shows "sends_valid t (mean_reversion_intents G tick snap t)"
  unfolding mean_reversion_intents_def Let_def
  using one_intent_sends [OF assms assms(2)] assms(2) by (auto intro: sends_nothing)

lemma liquidity_spec:
  assumes "prng_ok G" "trader_ok t" "is_due t tick"
  obtains r bid ask where
    "liquidity_intents G tick snap t = (t\<lparr>tr_random := r\<rparr>, Inr [bid, ask])"
    "valid_intent (tr_settings t) bid" "valid_intent (tr_settings t) ask"
    "oi_side bid = BUY" "oi_side ask = SELL"
    "oi_price bid = max (ts_step (tr_settings t)) (liquidity_center (tr_settings t) snap - ts_step (tr_settings t))"
    "oi_price ask = max (ts_step (tr_settings t)) (liquidity_center (tr_settings t) snap + ts_step (tr_settings t))"
proof -
  let ?s = "tr_settings t" and ?c = "liquidity_center (tr_settings t) snap"
  have s: "valid_settings ?s" using assms(2) by (simp add: trader_ok_def)
  obtain r1 bid where 1: "make_intent G BUY (?c - ts_step ?s) t = (t\<lparr>tr_random := r1\<rparr>, Inr bid)"
    "valid_intent ?s bid" "oi_side bid = BUY" "oi_price bid = max (ts_step ?s) (?c - ts_step ?s)"
    by (rule make_intent_spec [OF assms(1) s, of BUY "?c - ts_step ?s"]) blast
  have s1: "valid_settings (tr_settings (t\<lparr>tr_random := r1\<rparr>))" using s by simp
  obtain r2 ask where 2: "make_intent G SELL (?c + ts_step ?s) (t\<lparr>tr_random := r1\<rparr>)
      = (t\<lparr>tr_random := r1, tr_random := r2\<rparr>, Inr ask)"
    "valid_intent ?s ask" "oi_side ask = SELL" "oi_price ask = max (ts_step ?s) (?c + ts_step ?s)"
    by (rule make_intent_spec [OF assms(1) s1, of SELL "?c + ts_step ?s"]) (auto intro: that)
  show ?thesis
    by (rule that [of r2 bid ask])
      (use assms(3) 1 2 in \<open>simp_all add: liquidity_intents_def Let_def seq_call_def\<close>)
qed

lemma liquidity_sends:
  assumes "prng_ok G" "trader_ok t"
  shows "sends_valid t (liquidity_intents G tick snap t)"
proof (cases "is_due t tick")
  case True
  obtain r bid ask where "liquidity_intents G tick snap t = (t\<lparr>tr_random := r\<rparr>, Inr [bid, ask])"
    "valid_intent (tr_settings t) bid" "valid_intent (tr_settings t) ask"
    by (rule liquidity_spec [OF assms True])
  then show ?thesis using assms(2) by (simp add: sends_valid_def)
qed (simp add: liquidity_intents_def sends_nothing assms)

section \<open>Event-reactive traders\<close>

lemma reaction_intent_ok:
  assumes "valid_plan p" "i < order_count p" "valid_settings s" "snapshot_ok snap"
    "pl_user p = ts_user s" "pl_symbol p = ts_symbol s"
  obtains intent where "reaction_intent s p i snap = Inr intent" "valid_intent s intent"
proof -
  have len: "i < length (pl_sides p)" "i < length (pl_quantities p)" "i < length (pl_ttls p)"
    using assms(1,2) by (simp_all add: valid_plan_def order_count_def)
  have "1 \<le> pl_quantities p ! i" "1 \<le> pl_ttls p ! i"
    using assms(1) len by (simp_all add: valid_plan_def)
  moreover have "1 \<le> reaction_price s (pl_sides p ! i) snap"
    using best_prices_ok [OF assms(4)] assms(3)
    by (auto simp: reaction_price_def valid_settings_def split: order_side.split option.split)
  ultimately show ?thesis using that len by (simp add: reaction_intent_def item_def valid_intent_def)
qed

text \<open>
  One pass over the planned orders: it consumes exactly the orders of this tick that are left,
  sends one valid intent for each, and its state stays within the plan.
\<close>

lemma reactive_loop_spec:
  assumes "valid_plan p" "valid_settings s" "snapshot_ok snap" "pl_user p = ts_user s" "pl_symbol p = ts_symbol s"
    and "\<forall>(i, offset)\<in>set ps. i < order_count p" "finite used"
  obtains used' "is" where "reactive_loop s p tick snap ps used = (used', Inr is)"
    "used' = used \<union> fst ` set (filter (\<lambda>q. max (snd q) 1 = tick) ps)"
    "length is + card used = card used'" "\<forall>i\<in>set is. valid_intent s i"
proof -
  have "\<exists>used' is. reactive_loop s p tick snap ps used = (used', Inr is)
      \<and> used' = used \<union> fst ` set (filter (\<lambda>q. max (snd q) 1 = tick) ps)
      \<and> length is + card used = card used' \<and> (\<forall>i\<in>set is. valid_intent s i)"
    using assms(6,7)
  proof (induction ps arbitrary: used)
    case (Cons x ps)
    obtain i offset where x: "x = (i, offset)" by force
    have prems: "\<forall>(i, offset)\<in>set ps. i < order_count p" "i < order_count p" using Cons.prems x by auto
    show ?case
    proof (cases "i \<in> used \<or> max offset 1 \<noteq> tick")
      case True
      then have "used \<union> fst ` set (filter (\<lambda>q. max (snd q) 1 = tick) (x # ps))
          = used \<union> fst ` set (filter (\<lambda>q. max (snd q) 1 = tick) ps)" by (auto simp: x)
      moreover have "reactive_loop s p tick snap (x # ps) used = reactive_loop s p tick snap ps used"
        using True by (auto simp: x)
      ultimately show ?thesis using Cons.IH [OF prems(1) Cons.prems(2)] by simp
    next
      case False
      obtain intent where int: "reaction_intent s p i snap = Inr intent" "valid_intent s intent"
        by (rule reaction_intent_ok [OF assms(1) prems(2) assms(2-5)])
      obtain used' "is" where IH: "reactive_loop s p tick snap ps (insert i used) = (used', Inr is)"
        "used' = insert i used \<union> fst ` set (filter (\<lambda>q. max (snd q) 1 = tick) ps)"
        "length is + card (insert i used) = card used'" "\<forall>i\<in>set is. valid_intent s i"
        using Cons.IH [OF prems(1), of "insert i used"] Cons.prems(2) by auto
      have "reactive_loop s p tick snap (x # ps) used = (used', Inr (intent # is))"
        using False int IH(1) by (simp add: x)
      moreover have "used' = used \<union> fst ` set (filter (\<lambda>q. max (snd q) 1 = tick) (x # ps))"
        unfolding IH(2) using False by (auto simp: x)
      ultimately show ?thesis using IH(3,4) int(2) False Cons.prems(2) by simp
    qed
  qed simp
  with that show ?thesis by blast
qed

lemma drop_late_loop_spec:
  assumes "finite used"
  shows "case drop_late_loop elapsed tick_ms lag ps used of (used', n) \<Rightarrow>
    used' = used \<union> fst ` set (filter (\<lambda>q. lag < elapsed - snd q * tick_ms) ps)
    \<and> n + card used = card used'"
  using assms
proof (induction elapsed tick_ms lag ps used rule: drop_late_loop.induct)
  case (2 elapsed tick_ms lag i offset rest used)
  let ?Q = "\<lambda>q. lag < elapsed - snd q * tick_ms"
  show ?case
  proof (cases "i \<in> used \<or> \<not> ?Q (i, offset)")
    case True
    then have "used \<union> fst ` set (filter ?Q ((i, offset) # rest)) = used \<union> fst ` set (filter ?Q rest)" by auto
    moreover have "drop_late_loop elapsed tick_ms lag ((i, offset) # rest) used
        = drop_late_loop elapsed tick_ms lag rest used" using True by auto
    ultimately show ?thesis using 2 True by (cases "i \<in> used") simp_all
  next
    case False
    have e: "insert i used \<union> fst ` set (filter ?Q rest) = used \<union> fst ` set (filter ?Q ((i, offset) # rest))"
      using False by auto
    have "case drop_late_loop elapsed tick_ms lag rest (insert i used) of (used', n) \<Rightarrow>
        used' = insert i used \<union> fst ` set (filter ?Q rest) \<and> n + card (insert i used) = card used'"
      using 2(2) False 2(4) by simp
    then show ?thesis unfolding e using False 2(4) by (auto split: prod.splits)
  qed
qed simp

lemma enumerate_index: "(i, x) \<in> set (enumerate 0 xs) \<Longrightarrow> i < length xs"
  by (simp add: in_set_enumerate_eq)

lemma class_ok_used:
  "class_ok s (EventReactiveTrader (Some p) used) \<Longrightarrow> finite used \<and> card used \<le> order_count p"
  by (auto simp: class_ok_def intro: finite_subset subset_eq_atLeast0_lessThan_card
      dest: card_mono [rotated])

lemma active_reaction_Some: "active_reaction po = Some p \<Longrightarrow> po = Some p \<and> pl_activated p"
  by (auto simp: active_reaction_def split: option.splits if_splits)

lemma reactive_step_ok:
  assumes ok: "trader_ok t" "tr_class t = EventReactiveTrader po used" and snap: "snapshot_ok snap"
  obtains t' "is" where "reactive_intents po used tick snap t = (t', Inr is)" "trader_ok t'" "same_trader t t'"
    "\<forall>i\<in>set is. valid_intent (tr_settings t) i"
    "int (length is) + remaining_reaction_orders t' = remaining_reaction_orders t"
    "\<exists>used'. tr_class t' = EventReactiveTrader po used' \<and> used \<subseteq> used'"
proof (cases "active_reaction po")
  case None
  then show ?thesis using that [of t "[]"] ok by (simp add: reactive_intents_def)
next
  case (Some p)
  note po = active_reaction_Some [OF Some]
  have s: "valid_settings (tr_settings t)" using ok by (simp add: trader_ok_def)
  have cls: "valid_plan p" "pl_user p = trader_user t" "pl_symbol p = trader_symbol t" "used \<subseteq> {..<order_count p}"
    using ok po by (simp_all add: trader_ok_def class_ok_def)
  have idx: "\<forall>(i, offset)\<in>set (enumerate 0 (pl_offsets p)). i < order_count p"
    using cls(1) enumerate_index by (fastforce simp: valid_plan_def)
  have fin: "finite used" using cls(4) finite_subset by blast
  obtain used' "is" where L: "reactive_loop (tr_settings t) p tick snap (enumerate 0 (pl_offsets p)) used = (used', Inr is)"
    "used' = used \<union> fst ` set (filter (\<lambda>q. max (snd q) 1 = tick) (enumerate 0 (pl_offsets p)))"
    "length is + card used = card used'" "\<forall>i\<in>set is. valid_intent (tr_settings t) i"
    by (rule reactive_loop_spec [OF cls(1) s snap cls(2,3) idx fin])
  let ?t' = "t\<lparr>tr_class := EventReactiveTrader po used'\<rparr>"
  have "used' \<subseteq> {..<order_count p}" unfolding L(2) using cls(4) idx by auto
  then have "trader_ok ?t'" using ok cls po by (simp add: trader_ok_def class_ok_def)
  moreover have "reactive_intents po used tick snap t = (?t', Inr is)"
    by (simp add: reactive_intents_def Some L(1))
  moreover have "int (length is) + remaining_reaction_orders ?t' = remaining_reaction_orders t"
    using L(3) ok(2) by (simp add: remaining_reaction_orders_def remaining_of_def Some)
  moreover have "same_trader t ?t'" using ok(2) by (simp add: is_reactive_def)
  ultimately show ?thesis using that [of ?t' "is"] L(2,4) by auto
qed

lemma drop_late_step:
  assumes ok: "trader_ok t" "tr_class t = EventReactiveTrader po used"
  obtains t' n where "drop_late_orders elapsed tick_ms lag t = (t', n)" "trader_ok t'" "same_trader t t'"
    "int n + remaining_reaction_orders t' = remaining_reaction_orders t"
    "\<exists>used'. tr_class t' = EventReactiveTrader po used' \<and> used \<subseteq> used'"
proof (cases "active_reaction po")
  case None
  have "t\<lparr>tr_class := EventReactiveTrader po used\<rparr> = t" using ok(2) by simp
  then show ?thesis using that [of t 0] ok None by (simp add: drop_late_orders_def drop_late_def)
next
  case (Some p)
  note po = active_reaction_Some [OF Some]
  have cls: "valid_plan p" "pl_user p = trader_user t" "pl_symbol p = trader_symbol t" "used \<subseteq> {..<order_count p}"
    using ok po by (simp_all add: trader_ok_def class_ok_def)
  have fin: "finite used" using cls(4) finite_subset by blast
  obtain used' n where d: "drop_late_loop elapsed tick_ms lag (enumerate 0 (pl_offsets p)) used = (used', n)"
    by force
  with drop_late_loop_spec [OF fin, where elapsed = elapsed and tick_ms = tick_ms and lag = lag and ps = "enumerate 0 (pl_offsets p)"]
  have L: "used' = used \<union> fst ` set (filter (\<lambda>q. lag < elapsed - snd q * tick_ms) (enumerate 0 (pl_offsets p)))" "n + card used = card used'" by simp_all
  let ?t' = "t\<lparr>tr_class := EventReactiveTrader po used'\<rparr>"
  have "length (pl_offsets p) = order_count p" using cls(1) by (simp add: valid_plan_def)
  then have "used' \<subseteq> {..<order_count p}" unfolding L(1) using cls(4) enumerate_index by fastforce
  then have "trader_ok ?t'" using ok cls po by (simp add: trader_ok_def class_ok_def)
  moreover have "drop_late_orders elapsed tick_ms lag t = (?t', n)"
    by (simp add: drop_late_orders_def ok(2) drop_late_def Some d)
  moreover have "int n + remaining_reaction_orders ?t' = remaining_reaction_orders t"
    using L(2) ok(2) by (simp add: remaining_reaction_orders_def remaining_of_def Some)
  moreover have "same_trader t ?t'" using ok(2) by (simp add: is_reactive_def)
  ultimately show ?thesis using that [of ?t' n] L(1) by auto
qed

section \<open>Properties\<close>

lemma next_intents_sends:
  assumes "prng_ok G" "trader_ok t" "snapshot_ok snap"
  shows "sends_valid t (next_intents G tick snap t)"
proof (cases "tr_class t")
  case (EventReactiveTrader po used)
  obtain t' "is" where "reactive_intents po used tick snap t = (t', Inr is)" "trader_ok t'" "same_trader t t'"
    "\<forall>i\<in>set is. valid_intent (tr_settings t) i"
    by (rule reactive_step_ok [OF assms(2) EventReactiveTrader assms(3), of tick])
  then show ?thesis by (simp add: next_intents_def EventReactiveTrader sends_valid_def)
qed (use assms in \<open>simp_all add: next_intents_def noise_sends momentum_sends mean_reversion_sends liquidity_sends\<close>)

lemma valid_intent_accepted:
  assumes "valid_settings s" "valid_intent s i"
  shows "is_ok (make_order (oi_user i) (oi_symbol i) (Some (oi_side i)) (PyInt (oi_price i)) (PyInt (oi_quantity i)) oid)"
  using assms by (simp add: make_order_def valid_intent_def valid_settings_def)

definition demo_settings :: trader_settings where
  "demo_settings = \<lparr>ts_user = ''lp'', ts_symbol = ''005930'', ts_strategy = ''liquidity_provider'',
     ts_reference = 100, ts_step = 5, ts_max_offset = 4, ts_quantity_min = 1, ts_quantity_max = 9,
     ts_ttl = 16, ts_interval = 2, ts_seed = 42\<rparr>"

definition demo_trader :: "int trader" where
  "demo_trader = \<lparr>tr_settings = demo_settings, tr_random = 42, tr_interval_ticks = 2, tr_phase = 0,
     tr_class = LiquidityProvider\<rparr>"

definition demo_snapshot :: book_snapshot where
  "demo_snapshot = \<lparr>snap_symbol = ''005930'', snap_bids = [\<lparr>level_price = 90, level_quantity = 3\<rparr>], snap_asks = []\<rparr>"

lemma demo_settings_valid: "valid_settings demo_settings"
  by (simp add: valid_settings_def demo_settings_def supported_strategies_def blank_iff py_isspace_def)

lemma demo_trader_ok: "trader_ok demo_trader" "is_due demo_trader 4"
  using demo_settings_valid by (simp_all add: demo_trader_def trader_ok_def class_ok_def is_due_def)

lemma demo_snapshot_ok: "snapshot_ok demo_snapshot"
  by (simp add: demo_snapshot_def snapshot_ok_def)

lemma demo_built: "build_trader demo_prng demo_settings 1000 = Inr demo_trader"
  by (simp add: build_trader_def trader_classes_def base_trader_def ticks_for_interval_def
      demo_trader_def demo_settings_def demo_prng_def)



text \<open>
  C26: a liquidity provider never crosses itself. On a due tick it sends one bid and one ask;
  the bid is below the ask, the ask is at most one step beyond its band around the reference
  price, and both are positive.
\<close>

theorem liquidity_quotes_bracket:
  assumes "prng_ok G" "trader_ok t" "tr_class t = LiquidityProvider" "is_due t tick" "snapshot_ok snap"
  defines "s \<equiv> tr_settings t"
  shows "\<exists>t' bid ask. next_intents G tick snap t = (t', Inr [bid, ask])
    \<and> oi_side bid = BUY \<and> oi_side ask = SELL
    \<and> 1 \<le> oi_price bid \<and> oi_price bid < oi_price ask
    \<and> oi_price ask \<le> ts_reference s + (ts_max_offset s + 1) * ts_step s
    \<and> ts_reference s - (ts_max_offset s + 1) * ts_step s \<le> oi_price bid"
proof -
  have s: "1 \<le> ts_step s" "1 \<le> ts_reference s" "0 \<le> ts_max_offset s"
    using assms(2) by (simp_all add: trader_ok_def valid_settings_def s_def)
  define far where "far = ts_max_offset s * ts_step s"
  define c where "c = liquidity_center s snap"
  have far: "0 \<le> far" using s by (simp add: far_def)
  have mid: "1 \<le> midpoint s snap"
    using midpoint_pos [OF _ assms(5)] assms(2) by (simp add: trader_ok_def s_def)
  have c: "1 \<le> c" "c \<le> ts_reference s + far" "ts_reference s - far \<le> c"
    using mid s far by (auto simp: c_def liquidity_center_def far_def [symmetric] Let_def)
  obtain r bid ask where q: "liquidity_intents G tick snap t = (t\<lparr>tr_random := r\<rparr>, Inr [bid, ask])"
    "valid_intent s bid" "valid_intent s ask" "oi_side bid = BUY" "oi_side ask = SELL"
    "oi_price bid = max (ts_step s) (c - ts_step s)" "oi_price ask = max (ts_step s) (c + ts_step s)"
    unfolding s_def c_def by (rule liquidity_spec [OF assms(1,2,4)])
  have "(ts_max_offset s + 1) * ts_step s = far + ts_step s" by (simp add: far_def distrib_right)
  with q c s far show ?thesis
    by (intro exI [of _ "t\<lparr>tr_random := r\<rparr>"] exI [of _ bid] exI [of _ ask])
      (auto simp: next_intents_def assms(3))
qed

theorem liquidity_quotes_bracket_witness:
  "\<exists>t' bid ask. next_intents demo_prng 4 demo_snapshot demo_trader = (t', Inr [bid, ask])
    \<and> oi_price bid < oi_price ask \<and> 75 \<le> oi_price bid \<and> oi_price ask \<le> 125"
proof -
  have "tr_class demo_trader = LiquidityProvider" by (simp add: demo_trader_def)
  from liquidity_quotes_bracket [OF demo_prng_ok demo_trader_ok(1) this demo_trader_ok(2) demo_snapshot_ok]
  show ?thesis by (auto simp: demo_trader_def demo_settings_def)
qed

text \<open>A run of an event-reactive trader: ticks and passes that drop late orders, in any order.\<close>

datatype reactive_step = Tick int book_snapshot | DropLate int int int

fun reactive_run ::
  "'r prng \<Rightarrow> reactive_step list \<Rightarrow> 'r trader \<Rightarrow> py_error + order_intent list \<times> nat \<times> 'r trader" where
  "reactive_run G [] t = Inr ([], 0, t)"
| "reactive_run G (Tick tick snap # steps) t =
     (case next_intents G tick snap t of
        (t', Inl e) \<Rightarrow> Inl e
      | (t', Inr is) \<Rightarrow> ebind (reactive_run G steps t') (\<lambda>(js, n, u). Inr (is @ js, n, u)))"
| "reactive_run G (DropLate elapsed tick_ms lag # steps) t =
     (let (t', n) = drop_late_orders elapsed tick_ms lag t
      in ebind (reactive_run G steps t') (\<lambda>(js, m, u). Inr (js, n + m, u)))"

definition step_ok :: "reactive_step \<Rightarrow> bool" where
  "step_ok st = (case st of Tick _ snap \<Rightarrow> snapshot_ok snap | DropLate _ _ _ \<Rightarrow> True)"

lemma remaining_nonneg: "trader_ok t \<Longrightarrow> 0 \<le> remaining_reaction_orders t"
  using class_ok_used active_reaction_Some
  by (fastforce simp: trader_ok_def remaining_reaction_orders_def remaining_of_def
      split: trader_class.split option.split)

text \<open>
  C27: every planned order is sent or dropped at most once. In any run of a reactive trader
  nothing raises, and the orders sent, the orders dropped and the orders that remain add up to
  what remained at the start; what remains is never negative.
\<close>

theorem reaction_orders_accounted:
  assumes "trader_ok t" "tr_class t = EventReactiveTrader po used" "\<forall>st\<in>set steps. step_ok st"
  shows "\<exists>is dropped t'. reactive_run G steps t = Inr (is, dropped, t')
    \<and> int (length is) + int dropped + remaining_reaction_orders t' = remaining_reaction_orders t
    \<and> 0 \<le> remaining_reaction_orders t' \<and> (\<forall>i\<in>set is. valid_intent (tr_settings t) i)"
  using assms
proof (induction steps arbitrary: t used)
  case Nil
  then show ?case using remaining_nonneg by simp
next
  case (Cons st steps)
  show ?case
  proof (cases st)
    case (Tick tick snap)
    then have snap: "snapshot_ok snap" using Cons.prems(3) by (simp add: step_ok_def)
    obtain t1 "is" used1 where 1: "next_intents G tick snap t = (t1, Inr is)" "trader_ok t1" "same_trader t t1"
      "\<forall>i\<in>set is. valid_intent (tr_settings t) i"
      "int (length is) + remaining_reaction_orders t1 = remaining_reaction_orders t"
      "tr_class t1 = EventReactiveTrader po used1"
      unfolding next_intents_def Cons.prems(2) trader_class.case
      by (rule reactive_step_ok [OF Cons.prems(1,2) snap, of tick]) blast
    obtain js m u where "reactive_run G steps t1 = Inr (js, m, u)"
      "int (length js) + int m + remaining_reaction_orders u = remaining_reaction_orders t1"
      "0 \<le> remaining_reaction_orders u" "\<forall>i\<in>set js. valid_intent (tr_settings t1) i"
      using Cons.IH [OF 1(2,6)] Cons.prems(3) by auto
    with 1 show ?thesis by (auto simp: Tick same_trader_def)
  next
    case (DropLate elapsed tick_ms lag)
    obtain t1 n used1 where 1: "drop_late_orders elapsed tick_ms lag t = (t1, n)" "trader_ok t1" "same_trader t t1"
      "int n + remaining_reaction_orders t1 = remaining_reaction_orders t"
      "tr_class t1 = EventReactiveTrader po used1"
      using drop_late_step [OF Cons.prems(1,2), of elapsed tick_ms lag] by metis
    obtain js m u where "reactive_run G steps t1 = Inr (js, m, u)"
      "int (length js) + int m + remaining_reaction_orders u = remaining_reaction_orders t1"
      "0 \<le> remaining_reaction_orders u" "\<forall>i\<in>set js. valid_intent (tr_settings t1) i"
      using Cons.IH [OF 1(2,5)] Cons.prems(3) by auto
    with 1 show ?thesis by (auto simp: DropLate same_trader_def)
  qed
qed

definition demo_reactive :: "int trader" where
  "demo_reactive = demo_trader\<lparr>tr_class := EventReactiveTrader (Some (demo_reaction ''lp'')) {}\<rparr>"

theorem reaction_orders_accounted_witness:
  "\<exists>is dropped t'. reactive_run demo_prng [Tick 2 demo_snapshot, DropLate 9000 1000 2000, Tick 6 demo_snapshot] demo_reactive
       = Inr (is, dropped, t')
     \<and> int (length is) + int dropped + remaining_reaction_orders t' = 3"
proof -
  have ok: "trader_ok demo_reactive" "tr_class demo_reactive = EventReactiveTrader (Some (demo_reaction ''lp'')) {}"
    using demo_settings_valid
    by (simp_all add: demo_reactive_def demo_trader_def trader_ok_def class_ok_def demo_reaction_def valid_plan_def
        order_count_def demo_settings_def blank_iff py_isspace_def)
  have "remaining_reaction_orders demo_reactive = 3"
    by (simp add: remaining_reaction_orders_def ok(2) remaining_of_def active_reaction_def demo_reaction_def order_count_def)
  with reaction_orders_accounted [OF ok, of "[Tick 2 demo_snapshot, DropLate 9000 1000 2000, Tick 6 demo_snapshot]" demo_prng]
  show ?thesis using demo_snapshot_ok by (auto simp: step_ok_def)
qed

text \<open>
  A participant acts exactly once per interval. Among any \<open>tr_interval_ticks\<close>
  consecutive ticks, exactly one is due.
\<close>

theorem exactly_one_due_tick:
  assumes "trader_ok t"
  shows "\<exists>!tick. start \<le> tick \<and> tick < start + tr_interval_ticks t \<and> is_due t tick"
proof -
  let ?n = "tr_interval_ticks t"
  have n: "0 < ?n" using assms by (simp add: trader_ok_def)
  let ?x = "start + (- (start + tr_phase t)) mod ?n"
  have "(?x + tr_phase t) mod ?n = (start + tr_phase t + (- (start + tr_phase t)) mod ?n) mod ?n"
    by (simp add: algebra_simps)
  also have "\<dots> = 0" by (simp only: mod_add_right_eq add.right_inverse mod_0)
  finally have due: "is_due t ?x" by (simp add: is_due_def)
  have range: "start \<le> ?x" "?x < start + ?n" using n by simp_all
  show ?thesis
  proof (rule ex1I [of _ ?x])
    fix y assume y: "start \<le> y \<and> y < start + ?n \<and> is_due t y"
    have "?n dvd y + tr_phase t" "?n dvd ?x + tr_phase t"
      using y due by (auto simp: is_due_def dvd_eq_mod_eq_0)
    then have "?n dvd (y + tr_phase t) - (?x + tr_phase t)" by (rule dvd_diff)
    then have "?n dvd y - ?x" by (simp only: add_diff_cancel_right)
    moreover have "\<bar>y - ?x\<bar> < ?n" using y range by linarith
    ultimately show "y = ?x" using dvd_imp_le_int [of "y - ?x" ?n] by force
  qed (use due range in auto)
qed

theorem exactly_one_due_tick_witness:
  "\<exists>!tick. 7 \<le> tick \<and> tick < 7 + tr_interval_ticks demo_trader \<and> is_due demo_trader tick"
  by (rule exactly_one_due_tick [OF demo_trader_ok(1)])

end
