(* ===== verification/Call_Logic.thy ===== *)
theory Call_Logic
  imports Exchange_Prelude
begin

text \<open>
  Reasoning about actions on mutable state. \<open>keeps R X m s\<close> says that the call \<open>m\<close> in
  state \<open>s\<close> ends in a state related to \<open>s\<close> by \<open>R\<close>, whether it returns or raises, and
  raises only exceptions with \<open>X\<close>. The relation of a component, its invariant together with
  what its methods leave in place, is an interface, the locale \<open>call_frame\<close>: it composes.
  Sequencing and loops over a list then need no further proof about the state.
\<close>

text \<open>\<open>for x in xs: f(x)\<close>.\<close>

fun for_each :: "'a list \<Rightarrow> ('a \<Rightarrow> ('s, unit) action) \<Rightarrow> ('s, unit) action" where
  "for_each [] f s = (s, Inr ())"
| "for_each (x # xs) f s = seq_call (f x) (\<lambda>_. for_each xs f) s"

definition keeps ::
  "('s \<Rightarrow> 's \<Rightarrow> bool) \<Rightarrow> (py_error \<Rightarrow> bool) \<Rightarrow> ('s, 'a) action \<Rightarrow> 's \<Rightarrow> bool" where
  "keeps R X m s \<longleftrightarrow> (case m s of (s', Inr x) \<Rightarrow> R s s' | (s', Inl e) \<Rightarrow> X e \<and> R s s')"

lemma keeps_cases:
  assumes "keeps R X m s"
  obtains (ok) s' x where "m s = (s', Inr x)" "R s s'" | (err) s' e where "m s = (s', Inl e)" "X e" "R s s'"
  using assms by (auto simp: keeps_def split: prod.splits sum.splits)

lemma keeps_state: "keeps R X m s \<Longrightarrow> m s = (s', r) \<Longrightarrow> R s s'"
  by (auto simp: keeps_def split: sum.splits)

lemma keeps_error: "keeps R X m s \<Longrightarrow> m s = (s', Inl e) \<Longrightarrow> X e"
  by (simp add: keeps_def)

lemma keeps_result: "m s = (s', Inr x) \<Longrightarrow> keeps R X m s \<longleftrightarrow> R s s'"
  by (simp add: keeps_def)

lemma keeps_raise: "m s = (s', Inl e) \<Longrightarrow> keeps R X m s \<longleftrightarrow> X e \<and> R s s'"
  by (simp add: keeps_def)

lemma keeps_weaken: "keeps R X m s \<Longrightarrow> (\<And>e. X e \<Longrightarrow> Y e) \<Longrightarrow> keeps R Y m s"
  by (auto simp: keeps_def split: prod.splits sum.splits)

locale call_frame =
  fixes R :: "'s \<Rightarrow> 's \<Rightarrow> bool"
  assumes frame_trans: "R a b \<Longrightarrow> R b c \<Longrightarrow> R a c"
    and frame_refl: "R a b \<Longrightarrow> R b b"
begin

lemma keeps_after:
  assumes "R s t" "keeps R X m t" "m t = n s"
  shows "keeps R X n s"
  using assms frame_trans by (auto simp: keeps_def split: prod.splits sum.splits)

lemma keeps_seq:
  assumes "keeps R X m s" "\<And>x s'. m s = (s', Inr x) \<Longrightarrow> R s s' \<Longrightarrow> keeps R X (f x) s'"
  shows "keeps R X (seq_call m f) s"
  using assms(1)
proof (cases rule: keeps_cases)
  case (ok s' x)
  have "keeps R X (f x) s'" by (rule assms(2) [OF ok])
  moreover have "seq_call m f s = f x s'" by (simp add: seq_call_def ok(1))
  ultimately show ?thesis using keeps_after [OF ok(2)] by metis
next
  case (err s' e)
  then have "seq_call m f s = (s', Inl e)" by (simp add: seq_call_def)
  with err show ?thesis by (simp add: keeps_def)
qed

lemma keeps_for_each:
  assumes "R s s" "\<And>x s'. x \<in> set xs \<Longrightarrow> R s s' \<Longrightarrow> keeps R X (f x) s'"
  shows "keeps R X (for_each xs f) s"
  using assms
proof (induction xs arbitrary: s)
  case (Cons x xs)
  have "keeps R X (seq_call (f x) (\<lambda>_. for_each xs f)) s"
  proof (rule keeps_seq)
    show "keeps R X (f x) s" using Cons.prems by simp
    fix s' assume s': "R s s'"
    show "keeps R X (for_each xs f) s'"
      by (rule Cons.IH [OF frame_refl [OF s']]) (use Cons.prems(2) frame_trans [OF s'] in auto)
  qed
  then show ?case by (simp add: keeps_def)
qed (simp add: keeps_def)

end

text \<open>
  The weakest precondition of a call, for a postcondition \<open>Q\<close> of a normal end and \<open>E\<close> of an
  exception.
\<close>

definition wp :: "(py_error \<Rightarrow> 's \<Rightarrow> bool) \<Rightarrow> ('s, 'a) action \<Rightarrow> ('a \<Rightarrow> 's \<Rightarrow> bool) \<Rightarrow> 's \<Rightarrow> bool" where
  "wp E m Q s \<longleftrightarrow> (case m s of (s', Inl e) \<Rightarrow> E e s' | (s', Inr x) \<Rightarrow> Q x s')"

lemma wp_seq [simp]: "wp E (seq_call m f) Q s = wp E m (\<lambda>x. wp E (f x) Q) s"
  by (auto simp: wp_def seq_call_def split: prod.split sum.split)

lemma wp_seq_fun: "wp E (seq_call m f) Q = wp E m (\<lambda>x. wp E (f x) Q)"
  by (rule ext) simp

lemma wp_return [simp]: "wp E (\<lambda>s. (s, Inr x)) Q s = Q x s"
  by (simp add: wp_def)

lemma wp_raise [simp]: "wp E (\<lambda>s. (s, Inl e)) Q s = E e s"
  by (simp add: wp_def)

lemma wp_mono: "wp E m Q s \<Longrightarrow> (\<And>x s'. Q x s' \<Longrightarrow> Q' x s') \<Longrightarrow> wp E m Q' s"
  by (auto simp: wp_def split: prod.splits sum.splits)

lemma wp_Inr: "wp E m Q s \<Longrightarrow> m s = (s', Inr x) \<Longrightarrow> Q x s'"
  by (simp add: wp_def)

lemma wp_Inl: "wp E m Q s \<Longrightarrow> m s = (s', Inl e) \<Longrightarrow> E e s'"
  by (simp add: wp_def)

end
