(* ===== verification/Coordinator.thy ===== *)
theory Coordinator
  imports Traders Call_Logic
begin

text \<open>
  \<open>participant_runner/coordinator.py\<close>: the source of scenario events and the coordinator
  that turns news events into plans of the event-reactive traders.

  The traders are the runner's participants: both hold references to the same objects. The
  objects are a list, the store; the coordinator's dictionary \<open>_traders\<close> maps a user id to
  an index of it. A method of the coordinator is an action on the store and the coordinator.
  The monotonic clock is an argument of the methods that read it.
\<close>

section \<open>State\<close>

record run_state =
  rn_planned :: int
  rn_submitted :: int
  rn_dropped :: int
  rn_activated :: int
  rn_first_logged :: bool
  rn_completed :: bool
  rn_users :: "string set"

definition new_run :: run_state where
  "new_run = \<lparr>rn_planned = 0, rn_submitted = 0, rn_dropped = 0, rn_activated = 0,
     rn_first_logged = False, rn_completed = False, rn_users = {}\<rparr>"

record event_source =
  es_events :: "news_event list"
  es_next :: nat

definition make_source :: "news_event list \<Rightarrow> event_source" where
  "make_source evs = \<lparr>es_events = sort_key (\<lambda>e. (ev_starts e, ev_id e)) evs, es_next = 0\<rparr>"

record coordinator =
  co_tick_ms :: int
  co_started :: int
  co_source :: event_source
  co_traders :: "(string, nat) dict"
  co_planner :: planner
  co_trader_event :: "(string, string) dict"
  co_max_lag :: "(string, int) dict"
  co_runs :: "(string, run_state) dict"
  co_received :: int
  co_deduplicated :: int
  co_activated :: int
  co_planned :: int
  co_submitted :: int
  co_dropped :: int
  co_lag_max :: int
  co_live_events :: "(string, news_event) dict"
  co_live_ids :: "string set"


fun trader_index :: "nat \<Rightarrow> 'r trader list \<Rightarrow> (string, nat) dict \<Rightarrow> (string, nat) dict" where
  "trader_index i [] d = d"
| "trader_index i (t # ts) d =
     trader_index (Suc i) ts (if is_reactive t then dict_set d (trader_user t) i else d)"

definition make_coordinator ::
  "int \<Rightarrow> news_event list \<Rightarrow> 'r trader list \<Rightarrow> int \<Rightarrow> py_error + coordinator" where
  "make_coordinator now evs store tick_ms =
     (if tick_ms < 1 then Inl (ValueError ''tick_interval_ms must be positive'')
      else ebind (make_planner (PyInt tick_ms)) (\<lambda>pn.
        Inr \<lparr>co_tick_ms = tick_ms, co_started = now, co_source = make_source evs,
             co_traders = trader_index 0 store [], co_planner = pn, co_trader_event = [],
             co_max_lag = [], co_runs = [], co_received = 0, co_deduplicated = 0, co_activated = 0,
             co_planned = 0, co_submitted = 0, co_dropped = 0, co_lag_max = 0,
             co_live_events = [], co_live_ids = {}\<rparr>))"

type_synonym 'r desk = "'r trader list \<times> coordinator"

section \<open>The event source\<close>

function due_loop :: "news_event list \<Rightarrow> int \<Rightarrow> nat \<Rightarrow> news_event list \<Rightarrow> nat \<times> news_event list" where
  "due_loop evs elapsed i due =
     (if i < length evs \<and> ev_starts (evs ! i) \<le> elapsed
      then due_loop evs elapsed (Suc i) (due @ [evs ! i])
      else (i, due))"
  by pat_completeness auto
termination
  by (relation "measure (\<lambda>(evs, elapsed, i, due). length evs - i)") auto

declare due_loop.simps [simp del]

definition due_events :: "int \<Rightarrow> event_source \<Rightarrow> event_source \<times> news_event list" where
  "due_events elapsed src =
     (let (i, due) = due_loop (es_events src) elapsed (es_next src) []
      in (src\<lparr>es_next := i\<rparr>, due))"

section \<open>Runs\<close>

definition elapsed_ms :: "int \<Rightarrow> coordinator \<Rightarrow> int" where
  "elapsed_ms now co = now - co_started co"

definition event_symbols :: "'r desk \<Rightarrow> symbol list" where
  "event_symbols s = (case s of (store, co) \<Rightarrow>
     sort (remdups (map (\<lambda>(u, i). trader_symbol (store ! i)) (co_traders co))))"

definition record_drops :: "string \<Rightarrow> int \<Rightarrow> ('r desk, unit) action" where
  "record_drops eid n s = (case s of (store, co) \<Rightarrow>
     let co1 = co\<lparr>co_dropped := co_dropped co + n\<rparr>
     in case dict_get (co_runs co1) eid of
          None \<Rightarrow> ((store, co1), Inl KeyError)
        | Some run \<Rightarrow>
            ((store, co1\<lparr>co_runs := dict_set (co_runs co1) eid (run\<lparr>rn_dropped := rn_dropped run + n\<rparr>)\<rparr>), Inr ()))"

definition event_remaining :: "'r desk \<Rightarrow> string \<Rightarrow> int" where
  "event_remaining s eid = (case s of (store, co) \<Rightarrow>
     sum_list (map (\<lambda>(u, i). remaining_reaction_orders (store ! i))
       (filter (\<lambda>(u, i). dict_get (co_trader_event co) u = Some eid) (co_traders co))))"

definition maybe_complete :: "string \<Rightarrow> ('r desk, unit) action" where
  "maybe_complete eid s = (case s of (store, co) \<Rightarrow>
     case dict_get (co_runs co) eid of
       None \<Rightarrow> (s, Inl KeyError)
     | Some run \<Rightarrow>
         if rn_completed run \<or> rn_planned run = 0 then (s, Inr ())
         else if event_remaining s eid \<noteq> 0 then (s, Inr ())
         else ((store, co\<lparr>co_runs := dict_set (co_runs co) eid (run\<lparr>rn_completed := True\<rparr>)\<rparr>), Inr ()))"

section \<open>Applying an event\<close>

definition abandon_previous :: "nat \<Rightarrow> string \<Rightarrow> ('r desk, unit) action" where
  "abandon_previous i u s = (case s of (store, co) \<Rightarrow>
     let prev = dict_get (co_trader_event co) u;
         co1 = co\<lparr>co_trader_event := dict_pop (co_trader_event co) u\<rparr>;
         leftover = remaining_reaction_orders (store ! i)
     in case prev of
          None \<Rightarrow> ((store, co1), Inr ())
        | Some eid \<Rightarrow>
            if leftover = 0 then ((store, co1), Inr ())
            else seq_call (record_drops eid leftover) (\<lambda>_. maybe_complete eid) (store, co1))"

definition on_trader :: "nat \<Rightarrow> ('r trader, 'a) action \<Rightarrow> ('r desk, 'a) action" where
  "on_trader i m s = (case s of (store, co) \<Rightarrow>
     let (t, r) = m (store ! i) in ((store[i := t], co), r))"

definition count_plan :: "string \<Rightarrow> reaction_plan \<Rightarrow> ('r desk, unit) action" where
  "count_plan eid p s = (case s of (store, co) \<Rightarrow>
     case dict_get (co_runs co) eid of
       None \<Rightarrow> (s, Inl KeyError)
     | Some run \<Rightarrow>
         let n = int (order_count p);
             run' = run\<lparr>rn_activated := rn_activated run + 1, rn_planned := rn_planned run + n,
                        rn_users := insert (pl_user p) (rn_users run)\<rparr>
         in ((store, co\<lparr>co_runs := dict_set (co_runs co) eid run',
                        co_trader_event := dict_set (co_trader_event co) (pl_user p) eid,
                        co_activated := co_activated co + 1, co_planned := co_planned co + n\<rparr>), Inr ()))"

definition assign_plan :: "string \<Rightarrow> reaction_plan \<Rightarrow> ('r desk, unit) action" where
  "assign_plan eid p s =
     (case dict_get (co_traders (snd s)) (pl_user p) of
        None \<Rightarrow> (s, Inr ())
      | Some i \<Rightarrow>
          seq_call (abandon_previous i (pl_user p)) (\<lambda>_.
          seq_call (on_trader i (apply_plan p)) (\<lambda>_.
          if \<not> pl_activated p then (\<lambda>s'. (s', Inr ())) else count_plan eid p)) s)"

definition assign_plans :: "event_plan \<Rightarrow> ('r desk, unit) action" where
  "assign_plans plan = for_each (ep_reactions plan) (assign_plan (ev_id (ep_event plan)))"

definition idle_candidates :: "'r desk \<Rightarrow> py_error + reaction_candidate list" where
  "idle_candidates s = (case s of (store, co) \<Rightarrow>
     those_ok (map (\<lambda>(u, i). reaction_candidate_of (store ! i))
       (filter (\<lambda>(u, i). remaining_reaction_orders (store ! i) = 0) (co_traders co))))"

definition start_run :: "event_plan \<Rightarrow> ('r desk, unit) action" where
  "start_run plan s = (case s of (store, co) \<Rightarrow>
     let eid = ev_id (ep_event plan);
         runs = (if dict_get (co_runs co) eid = None then dict_set (co_runs co) eid new_run else co_runs co)
     in ((store, co\<lparr>co_received := co_received co + 1,
                    co_max_lag := dict_set (co_max_lag co) eid (ep_max_lag plan), co_runs := runs\<rparr>), Inr ()))"

definition apply_event ::
  "'r prng \<Rightarrow> (nat list \<Rightarrow> nat list) \<Rightarrow> news_event \<Rightarrow> ('r desk, unit) action" where
  "apply_event G sha e s = (case s of (store, co) \<Rightarrow>
     case idle_candidates s of
       Inl err \<Rightarrow> (s, Inl err)
     | Inr cs \<Rightarrow>
         let (pn, r) = plan_once G sha e cs (co_planner co); co1 = co\<lparr>co_planner := pn\<rparr>
         in case r of
              Inl err \<Rightarrow> ((store, co1), Inl err)
            | Inr None \<Rightarrow> ((store, co1\<lparr>co_deduplicated := co_deduplicated co + 1\<rparr>), Inr ())
            | Inr (Some plan) \<Rightarrow>
                seq_call (start_run plan) (\<lambda>_. assign_plans plan) (store, co1))"

section \<open>The public methods\<close>

definition preset_by_impact :: "(string, event_preset) dict" where
  "preset_by_impact = [(''low'', MINOR_NEWS), (''medium'', BREAKING_NEWS), (''high'', MARKET_PANIC)]"

definition same_payload ::
  "news_event \<Rightarrow> symbol \<Rightarrow> event_preset \<Rightarrow> direction_hint \<Rightarrow> string \<Rightarrow> string \<Rightarrow> bool" where
  "same_payload old sy preset hint label source \<longleftrightarrow>
     ev_symbol old = sy \<and> ev_preset old = preset \<and> ev_hint old = hint \<and> ev_label old = label
     \<and> ev_source old = source"

definition apply_market_event ::
  "'r prng \<Rightarrow> (nat list \<Rightarrow> nat list) \<Rightarrow> string \<Rightarrow> symbol \<Rightarrow> string \<Rightarrow> string \<Rightarrow> string \<Rightarrow> string \<Rightarrow> int
    \<Rightarrow> ('r desk, unit) action" where
  "apply_market_event G sha eid sy direction impact label source tick s =
     (if tick < 1 then (s, Inl (ValueError ''tick must be positive''))
      else case direction_hint_of direction of
        Inl _ \<Rightarrow> (s, Inl (ValueError ''market event direction is invalid''))
      | Inr hint \<Rightarrow> (case dict_get preset_by_impact impact of
          None \<Rightarrow> (s, Inl (ValueError ''market event impact is invalid''))
        | Some preset \<Rightarrow> (case dict_get (co_live_events (snd s)) eid of
            Some old \<Rightarrow>
              if \<not> same_payload old sy preset hint label source
              then (s, Inl (ValueError ''event_id was already used with a different payload''))
              else apply_event G sha old s
          | None \<Rightarrow>
              (case make_news_event eid sy (PyInt (tick * co_tick_ms (snd s))) (Some preset) (Some hint)
                      label source (PyInt 42) of
                 Inl err \<Rightarrow> (s, Inl err)
               | Inr e \<Rightarrow>
                   apply_event G sha e (fst s, (snd s)
                     \<lparr>co_live_events := dict_set (co_live_events (snd s)) eid e,
                      co_live_ids := insert eid (co_live_ids (snd s))\<rparr>)))))"

definition drop_late_of :: "int \<Rightarrow> int \<Rightarrow> string \<times> nat \<Rightarrow> ('r desk, unit) action" where
  "drop_late_of elapsed tick entry s = (case entry of (u, i) \<Rightarrow> case s of (store, co) \<Rightarrow>
     case dict_get (co_trader_event co) u of
       None \<Rightarrow> (s, Inr ())
     | Some eid \<Rightarrow>
         let now_ms = (if eid \<in> co_live_ids co then tick * co_tick_ms co else elapsed)
         in case dict_get (co_max_lag co) eid of
              None \<Rightarrow> (s, Inl KeyError)
            | Some lag \<Rightarrow>
                let (t, n) = drop_late_orders now_ms (co_tick_ms co) lag (store ! i);
                    s' = (store[i := t], co)
                in if n \<noteq> 0 then record_drops eid (int n) s' else (s', Inr ()))"

definition drop_late_all :: "int \<Rightarrow> int \<Rightarrow> ('r desk, unit) action" where
  "drop_late_all elapsed tick s = for_each (co_traders (snd s)) (drop_late_of elapsed tick) s"

definition before_tick ::
  "'r prng \<Rightarrow> (nat list \<Rightarrow> nat list) \<Rightarrow> int \<Rightarrow> int \<Rightarrow> ('r desk, unit) action" where
  "before_tick G sha now tick s = (case s of (store, co) \<Rightarrow>
     let elapsed = elapsed_ms now co;
         (src, due) = due_events elapsed (co_source co)
     in seq_call (for_each due (apply_event G sha)) (\<lambda>_.
        seq_call (drop_late_all elapsed tick) (\<lambda>_.
        \<lambda>s'. for_each (dict_keys (co_runs (snd s'))) maybe_complete s'))
        (store, co\<lparr>co_source := src\<rparr>))"

definition count_submit :: "int \<Rightarrow> int \<Rightarrow> string \<Rightarrow> run_state \<Rightarrow> coordinator \<Rightarrow> coordinator" where
  "count_submit now tick eid run co =
     (let scheduled = tick * co_tick_ms co;
          current = (if eid \<in> co_live_ids co then scheduled else elapsed_ms now co);
          lag = max 0 (current - scheduled)
      in co\<lparr>co_submitted := co_submitted co + 1,
            co_runs := dict_set (co_runs co) eid
              (run\<lparr>rn_submitted := rn_submitted run + 1, rn_first_logged := True\<rparr>),
            co_lag_max := max (co_lag_max co) lag\<rparr>)"

definition after_submit :: "int \<Rightarrow> order_intent \<Rightarrow> bool \<Rightarrow> int \<Rightarrow> ('r desk, unit) action" where
  "after_submit now intent submitted tick s = (case s of (store, co) \<Rightarrow>
     case dict_get (co_trader_event co) (oi_user intent) of
       None \<Rightarrow> (s, Inr ())
     | Some eid \<Rightarrow> (case dict_get (co_runs co) eid of
           None \<Rightarrow> (s, Inl KeyError)
         | Some run \<Rightarrow>
             if \<not> submitted then seq_call (record_drops eid 1) (\<lambda>_. maybe_complete eid) s
             else maybe_complete eid (store, count_submit now tick eid run co)))"

record coordinator_status =
  cs_received :: int
  cs_deduplicated :: int
  cs_dormant :: int
  cs_activated :: int
  cs_planned :: int
  cs_submitted :: int
  cs_dropped :: int
  cs_lag_max :: int

definition co_status :: "coordinator \<Rightarrow> coordinator_status" where
  "co_status co = \<lparr>cs_received = co_received co, cs_deduplicated = co_deduplicated co,
     cs_dormant = int (length (co_traders co)), cs_activated = co_activated co,
     cs_planned = co_planned co, cs_submitted = co_submitted co, cs_dropped = co_dropped co,
     cs_lag_max = co_lag_max co\<rparr>"

end
