(* ===== verification/Coordinator_Invariant.thy ===== *)
theory Coordinator_Invariant
  imports Coordinator
begin

text \<open>
  The invariant of the coordinator and its proof, method by method, in the logic of
  \<open>Call_Logic\<close>. The invariant says that the roster names the reactive traders of the
  store, that every event a trader works for has a run and a lag bound, that the runs are
  exactly the planned events, and that the totals are the sums over the runs. Under it no
  method raises \<open>KeyError\<close>; the only exception is the refusal of a reused event id.
\<close>

section \<open>The invariant\<close>

definition run_total :: "(run_state \<Rightarrow> int) \<Rightarrow> (string, run_state) dict \<Rightarrow> int" where
  "run_total f runs = sum_list (map (\<lambda>(k, r). f r) runs)"

definition roster_ok :: "'r trader list \<Rightarrow> coordinator \<Rightarrow> bool" where
  "roster_ok store co \<longleftrightarrow> dict_ok (co_traders co)
     \<and> (\<forall>u i. dict_get (co_traders co) u = Some i \<longrightarrow>
          i < length store \<and> is_reactive (store ! i) \<and> trader_user (store ! i) = u)
     \<and> (\<forall>t\<in>set store. trader_ok t)"

definition links_ok :: "coordinator \<Rightarrow> bool" where
  "links_ok co \<longleftrightarrow>
     (\<forall>u e. dict_get (co_trader_event co) u = Some e \<longrightarrow>
        dict_get (co_runs co) e \<noteq> None \<and> dict_get (co_max_lag co) e \<noteq> None)
     \<and> (\<forall>e. dict_get (co_runs co) e \<noteq> None \<longleftrightarrow> dict_get (pn_processed (co_planner co)) e \<noteq> None)"

definition totals_ok :: "coordinator \<Rightarrow> bool" where
  "totals_ok co \<longleftrightarrow> dict_ok (co_runs co)
     \<and> co_received co = int (length (co_runs co))
     \<and> co_activated co = run_total rn_activated (co_runs co)
     \<and> co_planned co = run_total rn_planned (co_runs co)
     \<and> co_submitted co = run_total rn_submitted (co_runs co)
     \<and> co_dropped co = run_total rn_dropped (co_runs co)"

definition feed_ok :: "coordinator \<Rightarrow> bool" where
  "feed_ok co \<longleftrightarrow> 1 \<le> co_tick_ms co \<and> pn_tick_ms (co_planner co) = co_tick_ms co
     \<and> (\<forall>e\<in>set (es_events (co_source co)). valid_event e)
     \<and> (\<forall>k e. dict_get (co_live_events co) k = Some e \<longrightarrow> valid_event e \<and> ev_id e = k)"

definition desk_ok :: "'r desk \<Rightarrow> bool" where
  "desk_ok s \<longleftrightarrow> roster_ok (fst s) (snd s) \<and> links_ok (snd s) \<and> totals_ok (snd s) \<and> feed_ok (snd s)"

text \<open>What every method leaves in place.\<close>

definition desk_le :: "'r desk \<Rightarrow> 'r desk \<Rightarrow> bool" where
  "desk_le s s' \<longleftrightarrow> co_traders (snd s') = co_traders (snd s) \<and> length (fst s') = length (fst s)
     \<and> (\<forall>i<length (fst s). same_trader (fst s ! i) (fst s' ! i))
     \<and> (\<forall>e. dict_get (co_runs (snd s)) e \<noteq> None \<longrightarrow> dict_get (co_runs (snd s')) e \<noteq> None)
     \<and> (\<forall>e. dict_get (co_max_lag (snd s)) e \<noteq> None \<longrightarrow> dict_get (co_max_lag (snd s')) e \<noteq> None)"

definition kept :: "'r desk \<Rightarrow> 'r desk \<Rightarrow> bool" where
  "kept s s' \<longleftrightarrow> desk_ok s' \<and> desk_le s s'"

lemma desk_le_refl [simp]: "desk_le s s"
  by (simp add: desk_le_def)

lemma desk_le_trans: "desk_le s t \<Longrightarrow> desk_le t u \<Longrightarrow> desk_le s u"
  by (auto simp: desk_le_def same_trader_def)

lemma kept_refl: "desk_ok s \<Longrightarrow> kept s s"
  by (simp add: kept_def)

interpretation desk: call_frame kept
proof
  fix a b c :: "'a desk"
  show "kept a b \<Longrightarrow> kept b c \<Longrightarrow> kept a c" unfolding kept_def by (blast intro: desk_le_trans)
  show "kept a b \<Longrightarrow> kept b b" by (simp add: kept_def)
qed

section \<open>Totals and updates\<close>

lemma run_total_set:
  "dict_ok d \<Longrightarrow> run_total f (dict_set d k r)
     = run_total f d + f r - (case dict_get d k of None \<Rightarrow> 0 | Some q \<Rightarrow> f q)"
  by (induction d) (auto simp: run_total_def split: option.splits dest: map_of_SomeD)

lemma length_dict_set:
  "length (dict_set d k v) = (if dict_get d k = None then Suc (length d) else length d)"
  by (induction d) auto

lemma store_nth: "j < length xs \<Longrightarrow> xs[i := x] ! j = (if i = j then x else xs ! j)"
  by simp

lemma roster_ok_update:
  assumes "roster_ok store co" "trader_ok t" "same_trader (store ! i) t"
  shows "roster_ok (store[i := t]) co"
  using assms unfolding roster_ok_def
  by (auto simp: store_nth same_trader_def dest: set_update_subset_insert [THEN subsetD])

lemma desk_le_update:
  "same_trader (fst s ! i) t \<Longrightarrow> desk_le s ((fst s)[i := t], snd s)"
  by (auto simp: desk_le_def store_nth)

text \<open>Updating one run: the links stay, the totals move by the difference.\<close>

lemma desk_ok_run:
  assumes "desk_ok (store, co)" "dict_get (co_runs co) eid = Some run"
    and "co_runs co' = dict_set (co_runs co) eid run'"
    and "co_tick_ms co' = co_tick_ms co" "co_source co' = co_source co" "co_traders co' = co_traders co"
    and "co_planner co' = co_planner co" "co_max_lag co' = co_max_lag co" "co_live_events co' = co_live_events co"
    and "\<And>u e. dict_get (co_trader_event co') u = Some e \<Longrightarrow>
           dict_get (co_trader_event co) u = Some e \<or> e = eid \<and> dict_get (co_max_lag co) eid \<noteq> None"
    and "co_received co' = co_received co"
    and "co_activated co' = co_activated co + rn_activated run' - rn_activated run"
    and "co_planned co' = co_planned co + rn_planned run' - rn_planned run"
    and "co_submitted co' = co_submitted co + rn_submitted run' - rn_submitted run"
    and "co_dropped co' = co_dropped co + rn_dropped run' - rn_dropped run"
  shows "kept (store, co) (store, co')"
proof -
  have ok: "roster_ok store co" "links_ok co" "totals_ok co" "feed_ok co" using assms(1) by (simp_all add: desk_ok_def)
  have d: "dict_ok (co_runs co)" using ok(3) by (simp add: totals_ok_def)
  have get: "dict_get (co_runs co') e = None \<longleftrightarrow> dict_get (co_runs co) e = None" for e
    using assms(2,3) by (simp add: dict_simps)
  have "roster_ok store co'" using ok(1) assms by (simp add: roster_ok_def)
  moreover have "links_ok co'"
    unfolding links_ok_def get assms(7,8) using ok(2) assms(2,10) unfolding links_ok_def
    by (metis option.distinct(1))
  moreover have "totals_ok co'"
    using ok(3) d assms(2,3,11-15) by (simp add: totals_ok_def run_total_set length_dict_set dict_ok_set)
  moreover have "feed_ok co'" using ok(4) assms by (simp add: feed_ok_def)
  ultimately show ?thesis using get assms by (simp add: kept_def desk_ok_def desk_le_def)
qed

section \<open>Small methods\<close>

lemma record_drops_keeps:
  assumes s: "desk_ok s" and run: "dict_get (co_runs (snd s)) eid = Some run"
  shows "keeps kept X (record_drops eid n) s"
proof -
  obtain store co where sc: "s = (store, co)" by force
  let ?run' = "run\<lparr>rn_dropped := rn_dropped run + n\<rparr>"
  let ?co' = "co\<lparr>co_dropped := co_dropped co + n, co_runs := dict_set (co_runs co) eid ?run'\<rparr>"
  have "record_drops eid n s = ((store, ?co'), Inr ())"
    using run by (simp add: record_drops_def sc Let_def)
  moreover have "kept s (store, ?co')"
    unfolding sc by (rule desk_ok_run [where run = run and run' = ?run' and eid = eid])
      (use s run in \<open>auto simp: sc\<close>)
  ultimately show ?thesis by (simp add: keeps_result)
qed

lemma maybe_complete_keeps:
  assumes s: "desk_ok s" and run: "dict_get (co_runs (snd s)) eid = Some run"
  shows "keeps kept X (maybe_complete eid) s"
proof -
  obtain store co where sc: "s = (store, co)" by force
  let ?run' = "run\<lparr>rn_completed := True\<rparr>"
  have "kept s (store, co\<lparr>co_runs := dict_set (co_runs co) eid ?run'\<rparr>)"
    unfolding sc by (rule desk_ok_run [where run = run and run' = ?run' and eid = eid])
      (use s run in \<open>auto simp: sc\<close>)
  then show ?thesis using s run kept_refl [OF s] by (simp add: keeps_def maybe_complete_def sc)
qed

lemma links_runD:
  assumes "desk_ok s" "dict_get (co_trader_event (snd s)) u = Some eid"
  obtains run lag where "dict_get (co_runs (snd s)) eid = Some run" "dict_get (co_max_lag (snd s)) eid = Some lag"
  using assms unfolding desk_ok_def links_ok_def by (meson not_None_eq)

lemma drops_then_complete:
  assumes s: "desk_ok s" and run: "dict_get (co_runs (snd s)) eid = Some run"
  shows "keeps kept X (seq_call (record_drops eid n) (\<lambda>_. maybe_complete eid)) s"
proof (rule desk.keeps_seq [OF record_drops_keeps [OF s run]])
  fix s' assume s': "kept s s'"
  then obtain run' where "dict_get (co_runs (snd s')) eid = Some run'"
    using run by (auto simp: kept_def desk_le_def)
  then show "keeps kept X (maybe_complete eid) s'"
    using s' by (intro maybe_complete_keeps) (auto simp: kept_def)
qed

text \<open>A change outside the runs: fewer traders at work, other counters, a moved source.\<close>

lemma kept_frame:
  assumes "desk_ok (store, co)" "co_runs co' = co_runs co" "co_max_lag co' = co_max_lag co"
    and "co_planner co' = co_planner co" "co_tick_ms co' = co_tick_ms co" "co_traders co' = co_traders co"
    and "es_events (co_source co') = es_events (co_source co)"
    and "\<And>k e. dict_get (co_live_events co') k = Some e \<Longrightarrow> valid_event e \<and> ev_id e = k"
    and "\<And>u e. dict_get (co_trader_event co') u = Some e \<Longrightarrow> dict_get (co_trader_event co) u = Some e"
    and "co_received co' = co_received co" "co_activated co' = co_activated co" "co_planned co' = co_planned co"
    and "co_submitted co' = co_submitted co" "co_dropped co' = co_dropped co"
  shows "kept (store, co) (store, co')"
proof -
  have "links_ok co'" using assms(1-4,9) unfolding desk_ok_def links_ok_def by simp metis
  moreover have "roster_ok store co'" "totals_ok co'" "feed_ok co'"
    using assms by (simp_all add: desk_ok_def roster_ok_def totals_ok_def feed_ok_def)
  ultimately show ?thesis using assms by (simp add: kept_def desk_ok_def desk_le_def)
qed

lemma desk_traderD:
  assumes "desk_ok s" "dict_get (co_traders (snd s)) u = Some i"
  shows "i < length (fst s)" "is_reactive (fst s ! i)" "trader_user (fst s ! i) = u" "trader_ok (fst s ! i)"
  using assms by (auto simp: desk_ok_def roster_ok_def)

lemma kept_store:
  assumes "desk_ok s" "trader_ok t" "same_trader (fst s ! i) t"
  shows "kept s ((fst s)[i := t], snd s)"
  using assms roster_ok_update desk_le_update [OF assms(3)] by (auto simp: kept_def desk_ok_def)

section \<open>Assigning plans\<close>

lemma abandon_previous_keeps:
  assumes s: "desk_ok s"
  shows "keeps kept X (abandon_previous i u) s"
proof -
  obtain store co where sc: "s = (store, co)" by force
  let ?t = "(store, co\<lparr>co_trader_event := dict_pop (co_trader_event co) u\<rparr>)"
  have t: "kept s ?t" unfolding sc
    by (rule kept_frame) (use s in \<open>auto simp: sc dict_simps desk_ok_def feed_ok_def split: if_splits\<close>)
  show ?thesis
  proof (cases "dict_get (co_trader_event co) u")
    case None
    then show ?thesis using t by (simp add: keeps_def abandon_previous_def sc)
  next
    case (Some eid)
    then obtain run where run: "dict_get (co_runs (snd ?t)) eid = Some run"
      using links_runD [OF s, of u eid] by (auto simp: sc)
    show ?thesis
    proof (cases "remaining_reaction_orders (store ! i) = 0")
      case True
      then show ?thesis using t by (simp add: keeps_def abandon_previous_def sc Some)
    next
      case False
      have "keeps kept X (seq_call (record_drops eid (remaining_reaction_orders (store ! i))) (\<lambda>_. maybe_complete eid)) ?t"
        using t by (intro drops_then_complete [OF _ run]) (simp add: kept_def)
      then show ?thesis
        by (rule desk.keeps_after [OF t]) (simp add: abandon_previous_def sc Some False)
    qed
  qed
qed

lemma apply_plan_keeps:
  assumes s: "desk_ok s" and i: "dict_get (co_traders (snd s)) (pl_user p) = Some i"
    and p: "valid_plan p" "pl_symbol p = trader_symbol (fst s ! i)"
  shows "keeps kept X (on_trader i (apply_plan p)) s"
proof -
  note t = desk_traderD [OF s i]
  let ?t = "(fst s ! i)\<lparr>tr_class := EventReactiveTrader (Some p) {}\<rparr>"
  have "on_trader i (apply_plan p) s = (((fst s)[i := ?t], snd s), Inr ())"
    using t(3) p(2) by (cases s) (simp add: on_trader_def apply_plan_def)
  moreover have "trader_ok ?t" using t(3,4) p by (simp add: trader_ok_def class_ok_def)
  moreover have "same_trader (fst s ! i) ?t" using t(2) by simp
  ultimately show ?thesis using kept_store [OF s] by (simp add: keeps_result)
qed

lemma count_plan_keeps:
  assumes s: "desk_ok s" and run: "dict_get (co_runs (snd s)) eid = Some run"
    and lag: "dict_get (co_max_lag (snd s)) eid \<noteq> None"
  shows "keeps kept X (count_plan eid p) s"
proof -
  obtain store co where sc: "s = (store, co)" by force
  let ?run' = "run\<lparr>rn_activated := rn_activated run + 1, rn_planned := rn_planned run + int (order_count p),
                        rn_users := insert (pl_user p) (rn_users run)\<rparr>"
  let ?co' = "co\<lparr>co_runs := dict_set (co_runs co) eid ?run',
                        co_trader_event := dict_set (co_trader_event co) (pl_user p) eid,
                        co_activated := co_activated co + 1, co_planned := co_planned co + int (order_count p)\<rparr>"
  have "count_plan eid p s = ((store, ?co'), Inr ())" using run by (simp add: count_plan_def sc Let_def)
  moreover have "kept s (store, ?co')"
    unfolding sc by (rule desk_ok_run [where run = run and run' = ?run' and eid = eid])
      (use s run lag in \<open>auto simp: sc dict_simps split: if_splits\<close>)
  ultimately show ?thesis by (simp add: keeps_result)
qed

lemma assign_plan_keeps:
  assumes s: "desk_ok s" and i: "dict_get (co_traders (snd s)) (pl_user p) = Some i"
    and p: "valid_plan p" "pl_symbol p = trader_symbol (fst s ! i)"
    and eid: "dict_get (co_runs (snd s)) eid \<noteq> None" "dict_get (co_max_lag (snd s)) eid \<noteq> None"
  shows "keeps kept X (assign_plan eid p) s"
proof -
  have "keeps kept X (seq_call (abandon_previous i (pl_user p)) (\<lambda>_.
          seq_call (on_trader i (apply_plan p)) (\<lambda>_.
          if \<not> pl_activated p then (\<lambda>s'. (s', Inr ())) else count_plan eid p))) s"
  proof (rule desk.keeps_seq [OF abandon_previous_keeps [OF s]])
    fix s1 assume s1: "kept s s1"
    have i1: "desk_ok s1" "dict_get (co_traders (snd s1)) (pl_user p) = Some i"
      "pl_symbol p = trader_symbol (fst s1 ! i)"
      using s1 i p(2) desk_traderD(1) [OF s i] by (simp_all add: kept_def desk_le_def same_trader_def)
    show "keeps kept X (seq_call (on_trader i (apply_plan p)) (\<lambda>_.
          if \<not> pl_activated p then (\<lambda>s'. (s', Inr ())) else count_plan eid p)) s1"
    proof (rule desk.keeps_seq [OF apply_plan_keeps [OF i1(1,2) p(1) i1(3)]])
      fix s2 assume s2: "kept s1 s2"
      have ok: "desk_ok s2" "dict_get (co_runs (snd s2)) eid \<noteq> None" "dict_get (co_max_lag (snd s2)) eid \<noteq> None"
        using s1 s2 eid by (auto simp: kept_def desk_le_def)
      then obtain run where "dict_get (co_runs (snd s2)) eid = Some run" by blast
      from count_plan_keeps [OF ok(1) this ok(3)] kept_refl [OF ok(1)]
      show "keeps kept X (if \<not> pl_activated p then (\<lambda>s'. (s', Inr ())) else count_plan eid p) s2"
        by (simp add: keeps_result)
    qed
  qed
  then show ?thesis using i by (simp add: keeps_def assign_plan_def)
qed

section \<open>Applying an event\<close>

definition id_conflict :: "py_error \<Rightarrow> bool" where
  "id_conflict e \<longleftrightarrow> e = ValueError ''event_id was already used with a different payload''"

definition candidate_record :: "trader_settings \<Rightarrow> reaction_candidate" where
  "candidate_record s =
     \<lparr>rc_user = ts_user s, rc_symbol = ts_symbol s, rc_quantity_min = ts_quantity_min s,
      rc_quantity_max = ts_quantity_max s, rc_ttl = ts_ttl s, rc_interval = ts_interval s, rc_seed = ts_seed s\<rparr>"

lemma candidate_of_ok:
  assumes "trader_ok t"
  shows "reaction_candidate_of t = Inr (candidate_record (tr_settings t))"
    "valid_candidate (candidate_record (tr_settings t))"
proof -
  show v: "valid_candidate (candidate_record (tr_settings t))"
    using assms by (simp add: trader_ok_def valid_settings_def valid_candidate_def candidate_record_def)
  then show "reaction_candidate_of t = Inr (candidate_record (tr_settings t))"
    by (simp add: reaction_candidate_of_def Let_def candidate_post_init_Inr_iff flip: candidate_record_def)
qed

lemma idle_candidates_spec:
  assumes s: "desk_ok s"
  obtains cs where "idle_candidates s = Inr cs" "distinct (map rc_user cs)" "\<forall>c\<in>set cs. valid_candidate c"
    "\<forall>c\<in>set cs. \<exists>i. dict_get (co_traders (snd s)) (rc_user c) = Some i
        \<and> rc_symbol c = trader_symbol (fst s ! i) \<and> remaining_reaction_orders (fst s ! i) = 0"
proof -
  obtain store co where sc: "s = (store, co)" by force
  let ?ps = "filter (\<lambda>(u, i). remaining_reaction_orders (store ! i) = 0) (co_traders co)"
  let ?g = "\<lambda>(u :: string, i). candidate_record (tr_settings (store ! i))"
  have d: "dict_ok (co_traders co)" using s by (simp add: sc desk_ok_def roster_ok_def)
  have tr: "dict_get (co_traders co) u = Some i \<and> trader_user (store ! i) = u \<and> trader_ok (store ! i)"
    if "(u, i) \<in> set (co_traders co)" for u i
    using desk_traderD [OF s, of u i] that d by (simp add: sc)
  have "idle_candidates s = Inr (map ?g ?ps)"
    unfolding idle_candidates_def sc prod.case
    by (rule those_ok_map) (use tr candidate_of_ok(1) in fastforce)
  moreover have "map rc_user (map ?g ?ps) = map fst ?ps"
    using tr by (auto simp: candidate_record_def)
  then have "distinct (map rc_user (map ?g ?ps))"
    using d by (metis (no_types, lifting) distinct_map distinct_filter filter_is_subset inj_on_subset)
  moreover have "\<forall>c\<in>set (map ?g ?ps). valid_candidate c" using tr candidate_of_ok(2) by fastforce
  moreover have "\<forall>c\<in>set (map ?g ?ps). \<exists>i. dict_get (co_traders (snd s)) (rc_user c) = Some i
        \<and> rc_symbol c = trader_symbol (fst s ! i) \<and> remaining_reaction_orders (fst s ! i) = 0"
    using tr by (force simp: candidate_record_def sc)
  ultimately show ?thesis using that by blast
qed

lemma list_all2_right: "list_all2 P xs ys \<Longrightarrow> y \<in> set ys \<Longrightarrow> \<exists>x\<in>set xs. P x y"
  by (induction rule: list_all2_induct) auto

lemma eligible_subset: "set (eligible e cs) \<subseteq> set cs"
  by (auto simp: eligible_def)

text \<open>Applying an event fails only for an identifier that the planner has met before.\<close>

definition met_before :: "'r desk \<Rightarrow> news_event \<Rightarrow> py_error \<Rightarrow> bool" where
  "met_before s e err \<longleftrightarrow> id_conflict err \<and> dict_get (pn_processed (co_planner (snd s))) (ev_id e) \<noteq> None"

lemma apply_event_strict:
  assumes G: "prng_ok G" and s: "desk_ok s" and e: "valid_event e"
  shows "keeps kept (met_before s e) (apply_event G sha e) s"
proof -
  obtain store co where sc: "s = (store, co)" by force
  obtain cs where cs: "idle_candidates s = Inr cs" "distinct (map rc_user cs)" "\<forall>c\<in>set cs. valid_candidate c"
    "\<forall>c\<in>set cs. \<exists>i. dict_get (co_traders (snd s)) (rc_user c) = Some i
        \<and> rc_symbol c = trader_symbol (fst s ! i) \<and> remaining_reaction_orders (fst s ! i) = 0"
    by (rule idle_candidates_spec [OF s])
  have ok: "roster_ok store co" "links_ok co" "totals_ok co" "feed_ok co" using s by (simp_all add: sc desk_ok_def)
  have ticks: "1 \<le> pn_tick_ms (co_planner co)" using ok(4) by (simp add: feed_ok_def)
  show ?thesis
  proof (cases "dict_get (pn_processed (co_planner co)) (ev_id e)")
    case (Some old)
    have "kept s (store, co\<lparr>co_deduplicated := co_deduplicated co + 1\<rparr>)"
      unfolding sc by (rule kept_frame) (use s ok in \<open>auto simp: sc feed_ok_def\<close>)
    moreover have "co\<lparr>co_planner := co_planner co\<rparr> = co" by simp
    ultimately show ?thesis using cs(1) kept_refl [OF s]
      by (auto simp: keeps_def apply_event_def sc plan_once_def Some id_conflict_def met_before_def)
  next
    case None
    obtain p where p: "resolve G sha (pn_tick_ms (co_planner co)) e cs = Inr p" "ep_event p = e"
      "list_all2 (reaction_fits (pn_tick_ms (co_planner co)) e (preset_definitions (ev_preset e))) (eligible e cs) (ep_reactions p)"
      by (rule resolve_spec [OF G ticks e cs(2,3), where sha = sha])
    let ?pn = "(co_planner co)\<lparr>pn_processed := dict_set (pn_processed (co_planner co)) (ev_id e) e\<rparr>"
    let ?co1 = "co\<lparr>co_planner := ?pn\<rparr>"
    have plan: "plan_once G sha e cs (co_planner co) = (?pn, Inr (Some p))"
      using None p(1) by (simp add: plan_once_def)
    have fresh: "dict_get (co_runs co) (ev_id e) = None" using None ok(2) unfolding links_ok_def by metis
    let ?co2 = "?co1\<lparr>co_received := co_received co + 1,
        co_max_lag := dict_set (co_max_lag co) (ev_id e) (ep_max_lag p),
        co_runs := dict_set (co_runs co) (ev_id e) new_run\<rparr>"
    have start: "start_run p (store, ?co1) = ((store, ?co2), Inr ())"
      using fresh by (simp add: start_run_def p(2) Let_def)
    have "roster_ok store ?co2" using ok(1) by (simp add: roster_ok_def)
    moreover have "links_ok ?co2" using ok(2) unfolding links_ok_def by (simp add: dict_simps) metis
    moreover have "totals_ok ?co2"
      using ok(3) fresh by (simp add: totals_ok_def dict_ok_set run_total_set length_dict_set new_run_def)
    moreover have "feed_ok ?co2" using ok(4) by (simp add: feed_ok_def)
    ultimately have k2: "kept s (store, ?co2)"
      by (simp add: kept_def desk_ok_def sc desk_le_def same_trader_def dict_simps)
    have ass: "keeps kept (met_before s e) (assign_plans p) (store, ?co2)"
      unfolding assign_plans_def
    proof (rule desk.keeps_for_each)
      show "kept (store, ?co2) (store, ?co2)" using k2 by (auto simp: kept_def)
      fix r s1 assume r: "r \<in> set (ep_reactions p)" and s1: "kept (store, ?co2) s1"
      obtain c where c: "c \<in> set cs" "pl_user r = rc_user c" "pl_symbol r = rc_symbol c" "valid_plan r"
      proof -
        obtain c where "c \<in> set (eligible e cs)" "pl_user r = rc_user c" "pl_symbol r = rc_symbol c" "valid_plan r"
          using list_all2_right [OF p(3) r] by (auto simp: reaction_fits_def)
        then show thesis using that eligible_subset [of e cs] by blast
      qed
      then obtain i where i: "dict_get (co_traders co) (pl_user r) = Some i" "pl_symbol r = trader_symbol (store ! i)"
        using cs(4) by (auto simp: sc)
      have "i < length store" using desk_traderD(1) [OF s] i(1) by (simp add: sc)
      with i s1 have "desk_ok s1" "dict_get (co_traders (snd s1)) (pl_user r) = Some i"
        "pl_symbol r = trader_symbol (fst s1 ! i)" "dict_get (co_runs (snd s1)) (ev_id (ep_event p)) \<noteq> None"
        "dict_get (co_max_lag (snd s1)) (ev_id (ep_event p)) \<noteq> None"
        by (auto simp: kept_def desk_le_def same_trader_def p(2) dict_simps)
      then show "keeps kept (met_before s e) (assign_plan (ev_id (ep_event p)) r) s1"
        by (intro assign_plan_keeps c(4))
    qed
    then show ?thesis
      by (rule desk.keeps_after [OF k2])
        (simp add: apply_event_def cs(1) [unfolded sc] sc plan Let_def seq_call_def start)
  qed
qed

lemma apply_event_keeps:
  assumes "prng_ok G" "desk_ok s" "valid_event e"
  shows "keeps kept id_conflict (apply_event G sha e) s"
  by (rule keeps_weaken [OF apply_event_strict [OF assms]]) (simp add: met_before_def)

section \<open>The public methods\<close>

definition value_error :: "py_error \<Rightarrow> bool" where
  "value_error e = (case e of ValueError _ \<Rightarrow> True | _ \<Rightarrow> False)"

lemma id_conflict_value_error: "id_conflict e \<Longrightarrow> value_error e"
  by (simp add: id_conflict_def value_error_def)

lemma make_news_event_error:
  "make_news_event eid sy (PyInt i) preset hint label source (PyInt j) = Inl e \<Longrightarrow> value_error e"
  by (auto simp: make_news_event_def value_error_def require_non_negative_int_def
      split: if_splits option.splits)

lemma apply_market_event_keeps:
  assumes G: "prng_ok G" and s: "desk_ok s"
  shows "keeps kept value_error (apply_market_event G sha eid sy direction impact label source tick) s"
proof -
  obtain store co where sc: "s = (store, co)" by force
  note r = kept_refl [OF s]
  have raise: "keeps kept value_error (\<lambda>s. (s, Inl (ValueError m))) s" for m
    using r by (simp add: keeps_def value_error_def)
  show ?thesis
  proof (cases "tick < 1")
    case False
    show ?thesis
    proof (cases "direction_hint_of direction")
      case (Inr hint)
      show ?thesis
      proof (cases "dict_get preset_by_impact impact")
        case (Some preset)
        show ?thesis
        proof (cases "dict_get (co_live_events co) eid")
          case None
          show ?thesis
          proof (cases "make_news_event eid sy (PyInt (tick * co_tick_ms co)) (Some preset) (Some hint)
                      label source (PyInt 42)")
            case (Inl e)
            then show ?thesis using r make_news_event_error [OF Inl] \<open>\<not> tick < 1\<close> Inr Some None
              by (simp add: keeps_def apply_market_event_def sc)
          next
            case ev: (Inr e)
            have e: "valid_event e" "ev_id e = eid" using ev by (simp_all add: make_news_event_Inr_iff)
            let ?t = "(store, co\<lparr>co_live_events := dict_set (co_live_events co) eid e,
                      co_live_ids := insert eid (co_live_ids co)\<rparr>)"
            have t: "kept s ?t" unfolding sc
              by (rule kept_frame) (use s e in \<open>auto simp: sc desk_ok_def feed_ok_def dict_simps split: if_splits\<close>)
            have "keeps kept value_error (apply_event G sha e) ?t"
              by (rule keeps_weaken [OF apply_event_keeps [OF G _ e(1)] id_conflict_value_error])
                (use t in \<open>simp add: kept_def\<close>)
            then show ?thesis
              by (rule desk.keeps_after [OF t])
                (use \<open>\<not> tick < 1\<close> Inr Some None ev in \<open>simp add: apply_market_event_def sc\<close>)
          qed
        next
          case old: (Some old)
          have "valid_event old" using s old by (auto simp: sc desk_ok_def feed_ok_def)
          then have "keeps kept value_error (apply_event G sha old) s"
            by (rule keeps_weaken [OF apply_event_keeps [OF G s] id_conflict_value_error])
          then show ?thesis using raise \<open>\<not> tick < 1\<close> Inr Some old
            by (simp add: keeps_def apply_market_event_def sc)
        qed
      qed (use raise False Inr in \<open>simp add: keeps_def apply_market_event_def\<close>)
    qed (use raise False in \<open>simp add: keeps_def apply_market_event_def\<close>)
  qed (use raise in \<open>simp add: keeps_def apply_market_event_def\<close>)
qed

lemma drop_late_of_keeps:
  assumes s: "desk_ok s" and u: "dict_get (co_traders (snd s)) u = Some i"
  shows "keeps kept X (drop_late_of elapsed tick (u, i)) s"
proof -
  obtain store co where sc: "s = (store, co)" by force
  note t = desk_traderD [OF s u]
  show ?thesis
  proof (cases "dict_get (co_trader_event co) u")
    case None
    then show ?thesis using kept_refl [OF s] by (simp add: keeps_def drop_late_of_def sc)
  next
    case (Some eid)
    then obtain run lag where run: "dict_get (co_runs co) eid = Some run" "dict_get (co_max_lag co) eid = Some lag"
      using links_runD [OF s, of u eid] by (auto simp: sc)
    define now_ms where "now_ms = (if eid \<in> co_live_ids co then tick * co_tick_ms co else elapsed)"
    obtain po used where cls: "tr_class (store ! i) = EventReactiveTrader po used"
      using t(2) by (cases "tr_class (store ! i)") (simp_all add: is_reactive_def sc)
    have ok: "trader_ok (store ! i)" using t(4) by (simp add: sc)
    obtain t' n where d: "drop_late_orders now_ms (co_tick_ms co) lag (store ! i) = (t', n)" "trader_ok t'"
      "same_trader (store ! i) t'"
      by (rule drop_late_step [OF ok cls, of now_ms "co_tick_ms co" lag]) blast
    have k: "kept s (store[i := t'], co)" using kept_store [OF s d(2)] d(3) by (simp add: sc)
    have step: "drop_late_of elapsed tick (u, i) s
        = (if n \<noteq> 0 then record_drops eid (int n) (store[i := t'], co) else ((store[i := t'], co), Inr ()))"
      using Some run(2) d(1) by (simp add: drop_late_of_def sc Let_def now_ms_def)
    show ?thesis
    proof (cases "n = 0")
      case True
      with step k show ?thesis by (simp add: keeps_def)
    next
      case False
      have "keeps kept X (record_drops eid (int n)) (store[i := t'], co)"
        by (rule record_drops_keeps) (use k run in \<open>auto simp: kept_def\<close>)
      then show ?thesis by (rule desk.keeps_after [OF k]) (simp add: step False)
    qed
  qed
qed

lemma drop_late_all_keeps:
  assumes s: "desk_ok s"
  shows "keeps kept X (drop_late_all elapsed tick) s"
proof -
  have "keeps kept X (for_each (co_traders (snd s)) (drop_late_of elapsed tick)) s"
  proof (rule desk.keeps_for_each [OF kept_refl [OF s]])
    fix x s' assume x: "x \<in> set (co_traders (snd s))" and s': "kept s s'"
    obtain u i where u: "x = (u, i)" by force
    have "dict_ok (co_traders (snd s))" using s by (simp add: desk_ok_def roster_ok_def)
    with x s' have "desk_ok s'" "dict_get (co_traders (snd s')) u = Some i"
      by (auto simp: kept_def desk_le_def u)
    then show "keeps kept X (drop_late_of elapsed tick x) s'" unfolding u by (rule drop_late_of_keeps)
  qed
  then show ?thesis by (simp add: keeps_def drop_late_all_def)
qed

lemma due_loop_set: "set (snd (due_loop evs elapsed i due)) \<subseteq> set evs \<union> set due"
proof (induction evs elapsed i due rule: due_loop.induct)
  case (1 evs elapsed i due)
  have "set (snd (due_loop evs elapsed (Suc i) (due @ [evs ! i]))) \<subseteq> set evs \<union> set due"
    if "i < length evs" "ev_starts (evs ! i) \<le> elapsed"
    using 1 [OF conjI [OF that]] nth_mem [OF that(1)] by auto
  then show ?case by (subst due_loop.simps) auto
qed

lemma before_tick_keeps:
  assumes G: "prng_ok G" and s: "desk_ok s"
  shows "keeps kept id_conflict (before_tick G sha now tick) s"
proof -
  obtain store co where sc: "s = (store, co)" by force
  obtain src due where d: "due_events (elapsed_ms now co) (co_source co) = (src, due)" by force
  have src: "es_events src = es_events (co_source co)" "set due \<subseteq> set (es_events (co_source co))"
    using d due_loop_set [of "es_events (co_source co)" "elapsed_ms now co" "es_next (co_source co)" "[]"]
    by (auto simp: due_events_def Let_def split: prod.splits)
  let ?t = "(store, co\<lparr>co_source := src\<rparr>)"
  have t: "kept s ?t" unfolding sc
    by (rule kept_frame) (use s src(1) in \<open>auto simp: sc desk_ok_def feed_ok_def\<close>)
  have "keeps kept id_conflict (seq_call (for_each due (apply_event G sha)) (\<lambda>_.
        seq_call (drop_late_all (elapsed_ms now co) tick) (\<lambda>_.
        \<lambda>s'. for_each (dict_keys (co_runs (snd s'))) maybe_complete s'))) ?t"
  proof (rule desk.keeps_seq)
    show "keeps kept id_conflict (for_each due (apply_event G sha)) ?t"
    proof (rule desk.keeps_for_each)
      show "kept ?t ?t" using t by (auto simp: kept_def)
      fix e s' assume "e \<in> set due" "kept ?t s'"
      with s src(2) show "keeps kept id_conflict (apply_event G sha e) s'"
        by (intro apply_event_keeps [OF G]) (auto simp: kept_def sc desk_ok_def feed_ok_def)
    qed
    fix s1 assume "kept ?t s1"
    then have s1: "desk_ok s1" by (simp add: kept_def)
    show "keeps kept id_conflict (seq_call (drop_late_all (elapsed_ms now co) tick) (\<lambda>_.
        \<lambda>s'. for_each (dict_keys (co_runs (snd s'))) maybe_complete s')) s1"
    proof (rule desk.keeps_seq [OF drop_late_all_keeps [OF s1]])
      fix s2 assume "kept s1 s2"
      then have s2: "desk_ok s2" by (simp add: kept_def)
      have "keeps kept id_conflict (for_each (dict_keys (co_runs (snd s2))) maybe_complete) s2"
      proof (rule desk.keeps_for_each [OF kept_refl [OF s2]])
        fix eid s3 assume eid: "eid \<in> set (dict_keys (co_runs (snd s2)))" and s3: "kept s2 s3"
        have "dict_get (co_runs (snd s2)) eid \<noteq> None" using eid unfolding dict_keys_dom by auto
        then obtain run where "dict_get (co_runs (snd s3)) eid = Some run"
          using s3 by (auto simp: kept_def desk_le_def)
        with s3 show "keeps kept id_conflict (maybe_complete eid) s3"
          by (intro maybe_complete_keeps) (auto simp: kept_def)
      qed
      then show "keeps kept id_conflict (\<lambda>s'. for_each (dict_keys (co_runs (snd s'))) maybe_complete s') s2"
        by (simp add: keeps_def)
    qed
  qed
  then show ?thesis by (rule desk.keeps_after [OF t]) (simp add: before_tick_def sc d Let_def)
qed

lemma after_submit_keeps:
  assumes s: "desk_ok s"
  shows "keeps kept X (after_submit now intent submitted tick) s"
proof -
  obtain store co where sc: "s = (store, co)" by force
  show ?thesis
  proof (cases "dict_get (co_trader_event co) (oi_user intent)")
    case None
    then show ?thesis using kept_refl [OF s] by (simp add: keeps_def after_submit_def sc)
  next
    case (Some eid)
    then obtain run where run: "dict_get (co_runs (snd s)) eid = Some run"
      using links_runD [OF s, of "oi_user intent" eid] by (auto simp: sc)
    show ?thesis
    proof (cases submitted)
      case False
      have "keeps kept X (seq_call (record_drops eid 1) (\<lambda>_. maybe_complete eid)) s"
        by (rule drops_then_complete [OF s run])
      then show ?thesis using Some run False by (simp add: keeps_def after_submit_def sc)
    next
      case True
      let ?t = "(store, count_submit now tick eid run co)"
      let ?run' = "run\<lparr>rn_submitted := rn_submitted run + 1, rn_first_logged := True\<rparr>"
      have t: "kept s ?t" unfolding sc
        by (rule desk_ok_run [where run = run and run' = ?run' and eid = eid])
          (use s run in \<open>auto simp: sc count_submit_def Let_def\<close>)
      then obtain run' where "dict_get (co_runs (snd ?t)) eid = Some run'"
        using run by (auto simp: kept_def desk_le_def)
      then have "keeps kept X (maybe_complete eid) ?t"
        using t by (intro maybe_complete_keeps) (auto simp: kept_def)
      then show ?thesis
        by (rule desk.keeps_after [OF t]) (use Some run True in \<open>simp add: after_submit_def sc\<close>)
    qed
  qed
qed

section \<open>Reachable states\<close>

lemma trader_index_entries:
  assumes "dict_get (trader_index k ts d) u = Some j"
  shows "dict_get d u = Some j \<or> (\<exists>n<length ts. j = k + n \<and> is_reactive (ts ! n) \<and> trader_user (ts ! n) = u)"
  using assms
proof (induction ts arbitrary: k d)
  case (Cons t ts)
  let ?d = "if is_reactive t then dict_set d (trader_user t) k else d"
  from Cons.IH [of "Suc k" ?d] Cons.prems
  consider "dict_get ?d u = Some j"
    | n where "n < length ts" "j = Suc k + n" "is_reactive (ts ! n)" "trader_user (ts ! n) = u" by auto
  then show ?case
  proof cases
    case 1
    then show ?thesis by (auto simp: dict_simps split: if_splits)
  next
    case (2 n)
    then show ?thesis by (intro disjI2 exI [of _ "Suc n"]) auto
  qed
qed simp

lemma trader_index_ok: "dict_ok d \<Longrightarrow> dict_ok (trader_index k ts d)"
  by (induction ts arbitrary: k d) (simp_all add: dict_ok_set)

lemma make_coordinator_ok:
  assumes "make_coordinator now evs store tick_ms = Inr co"
    and "\<forall>t\<in>set store. trader_ok t" "\<forall>e\<in>set evs. valid_event e"
  shows "desk_ok (store, co)"
proof -
  have co: "1 \<le> tick_ms" "co = \<lparr>co_tick_ms = tick_ms, co_started = now, co_source = make_source evs,
             co_traders = trader_index 0 store [], co_planner = \<lparr>pn_tick_ms = tick_ms, pn_processed = []\<rparr>,
             co_trader_event = [], co_max_lag = [], co_runs = [], co_received = 0, co_deduplicated = 0,
             co_activated = 0, co_planned = 0, co_submitted = 0, co_dropped = 0, co_lag_max = 0,
             co_live_events = [], co_live_ids = {}\<rparr>"
    using assms(1) by (auto simp: make_coordinator_def make_planner_def ebind_eq_Inr_iff require_iffs split: if_splits)
  have "roster_ok store co"
    using trader_index_entries [of 0 store "[]"] trader_index_ok [of "[]" 0 store] assms(2)
    by (auto simp: roster_ok_def co(2) simp del: map_of_eq_Some_iff)
  moreover have "feed_ok co" using assms(3) co(1) by (simp add: feed_ok_def co(2) make_source_def)
  ultimately show ?thesis by (simp add: desk_ok_def links_ok_def totals_ok_def co(2) run_total_def)
qed

text \<open>
  What happens to a coordinator and its traders: the three calls of the runner, and ticks of
  participants, in any order.
\<close>

inductive desk_reach :: "'r prng \<Rightarrow> (nat list \<Rightarrow> nat list) \<Rightarrow> 'r desk \<Rightarrow> bool" for G sha where
  start: "make_coordinator now evs store tick_ms = Inr co \<Longrightarrow> \<forall>t\<in>set store. trader_ok t \<Longrightarrow>
    \<forall>e\<in>set evs. valid_event e \<Longrightarrow> desk_reach G sha (store, co)"
| market: "desk_reach G sha s \<Longrightarrow>
    apply_market_event G sha eid sy direction impact label source tick s = (s', r) \<Longrightarrow> desk_reach G sha s'"
| before: "desk_reach G sha s \<Longrightarrow> before_tick G sha now tick s = (s', r) \<Longrightarrow> desk_reach G sha s'"
| after: "desk_reach G sha s \<Longrightarrow> after_submit now intent submitted tick s = (s', r) \<Longrightarrow> desk_reach G sha s'"
| act: "desk_reach G sha s \<Longrightarrow> i < length (fst s) \<Longrightarrow> snapshot_ok snap \<Longrightarrow>
    next_intents G tick snap (fst s ! i) = (t, r) \<Longrightarrow> desk_reach G sha ((fst s)[i := t], snd s)"

lemma act_kept:
  assumes "prng_ok G" "desk_ok s" "i < length (fst s)" "snapshot_ok snap"
    "next_intents G tick snap (fst s ! i) = (t, r)"
  shows "kept s ((fst s)[i := t], snd s)"
proof (rule kept_store [OF assms(2)])
  have "trader_ok (fst s ! i)" using assms(2,3) by (simp add: desk_ok_def roster_ok_def)
  from next_intents_sends [OF assms(1) this assms(4), of tick] assms(5)
  show "trader_ok t" "same_trader (fst s ! i) t" by (auto simp: sends_valid_def split: sum.splits)
qed

lemma kept_state: "keeps kept X m s \<Longrightarrow> m s = (s', r) \<Longrightarrow> desk_ok s'"
  using keeps_state [of kept X m s s' r] by (simp add: kept_def)

lemma desk_reach_ok:
  assumes "desk_reach G sha s" "prng_ok G"
  shows "desk_ok s"
  using assms
proof (induction rule: desk_reach.induct)
  case (start now evs store tick_ms co)
  then show ?case by (intro make_coordinator_ok)
next
  case (market s eid sy direction impact label source tick s' r)
  show ?case by (rule kept_state [OF apply_market_event_keeps [OF market.prems market.IH [OF market.prems]] market.hyps(2)])
next
  case (before s now tick s' r)
  show ?case by (rule kept_state [OF before_tick_keeps [OF before.prems before.IH [OF before.prems]] before.hyps(2)])
next
  case (after s now intent submitted tick s' r)
  show ?case by (rule kept_state [OF after_submit_keeps [OF after.IH [OF after.prems]] after.hyps(2)])
next
  case (act s i snap tick t r)
  then show ?case using act_kept unfolding kept_def by blast
qed

text \<open>
  C29: the coordinator's bookkeeping is consistent in every reachable state: its totals are the
  sums of the runs' counters, there is exactly one run per planned event, every trader at work
  is at work for an event with a run, and the roster names the right traders.
\<close>

theorem coordinator_books_balance:
  assumes "prng_ok G" "desk_reach G sha (store, co)"
  shows "co_received co = int (length (co_runs co))
    \<and> co_planned co = run_total rn_planned (co_runs co)
    \<and> co_submitted co = run_total rn_submitted (co_runs co)
    \<and> co_dropped co = run_total rn_dropped (co_runs co)
    \<and> co_activated co = run_total rn_activated (co_runs co)
    \<and> (\<forall>e. dict_get (co_runs co) e \<noteq> None \<longleftrightarrow> dict_get (pn_processed (co_planner co)) e \<noteq> None)
    \<and> (\<forall>u e. dict_get (co_trader_event co) u = Some e \<longrightarrow> dict_get (co_runs co) e \<noteq> None)
    \<and> (\<forall>u i. dict_get (co_traders co) u = Some i \<longrightarrow> i < length store \<and> is_reactive (store ! i) \<and> trader_user (store ! i) = u)"
  using desk_reach_ok [OF assms(2,1)] unfolding desk_ok_def totals_ok_def links_ok_def roster_ok_def by auto

definition demo_store :: "int trader list" where
  "demo_store = [demo_trader, demo_trader\<lparr>tr_class := EventReactiveTrader None {}\<rparr>]"

definition demo_coordinator :: coordinator where
  "demo_coordinator = (case make_coordinator 0 [demo_event] demo_store 1000 of Inr co \<Rightarrow> co)"

lemma demo_desk_reach: "desk_reach demo_prng id (demo_store, demo_coordinator)"
proof (rule desk_reach.start)
  show "make_coordinator 0 [demo_event] demo_store 1000 = Inr demo_coordinator"
    by (simp add: demo_coordinator_def make_coordinator_def make_planner_def require_positive_int_def)
  show "\<forall>t\<in>set demo_store. trader_ok t"
    using demo_trader_ok(1) by (simp add: demo_store_def trader_ok_def class_ok_def)
  show "\<forall>e\<in>set [demo_event]. valid_event e" using demo_plan_ok(2) by simp
qed

theorem coordinator_books_balance_witness:
  "case fst (before_tick demo_prng id 2000 2 (demo_store, demo_coordinator)) of (store, co) \<Rightarrow>
     co_planned co = run_total rn_planned (co_runs co) \<and> co_received co = int (length (co_runs co))"
proof -
  obtain store co r where s: "before_tick demo_prng id 2000 2 (demo_store, demo_coordinator) = ((store, co), r)"
    by (metis prod.exhaust)
  from coordinator_books_balance [OF demo_prng_ok desk_reach.before [OF demo_desk_reach s]]
  show ?thesis by (simp add: s)
qed



text \<open>
  When a due event is refused, the events due after it are lost and late orders are not dropped:
  the source has already moved past all of them, and the exception leaves the tick at once.
\<close>

theorem refused_event_ends_tick:
  assumes "due_events (elapsed_ms now co) (co_source co) = (src, e # rest)"
    and "apply_event G sha e (store, co\<lparr>co_source := src\<rparr>) = (s', Inl err)"
  shows "before_tick G sha now tick (store, co) = (s', Inl err)"
  using assms by (simp add: before_tick_def seq_call_def Let_def)

end
