(* ===== verification/Runner.thy ===== *)
theory Runner
  imports Coordinator_Invariant Market_Session
begin

text \<open>
  \<open>participant_runner/runner.py\<close>: the runner that lets participants act through the HTTP
  API. The backend is an argument, a record of calls on a state of its own.

  The pool's threads are modelled by their jobs. Between two HTTP requests or two sections under
  the runner's lock a job is one value of \<open>job\<close>; \<open>job_step\<close> carries out the next part
  of one job, and in \<open>Runner_Invariant\<close> jobs advance in any order between the parts of
  the main thread. The semaphore is its counter, the number of jobs in the pool is the
  length of \<open>ru_pool\<close>. Clock readings are arguments.
\<close>

section \<open>The backend and the state\<close>

record submitted_order =
  so_id :: string
  so_remaining :: int

record pending_event =
  pe_id :: string
  pe_symbol :: symbol
  pe_direction :: string
  pe_impact :: string
  pe_source :: string
  pe_headline :: string

record 'b client =
  cl_fetch_book :: "symbol \<Rightarrow> ('b, book_snapshot) action"
  cl_submit_order :: "order_intent \<Rightarrow> ('b, submitted_order) action"
  cl_fetch_events :: "symbol list \<Rightarrow> ('b, pending_event list) action"
  cl_acknowledge :: "string \<Rightarrow> ('b, unit) action"
  cl_cancel_order :: "string \<Rightarrow> symbol \<Rightarrow> ('b, string) action"

record tracked_order =
  tk_id :: string
  tk_symbol :: symbol
  tk_expires :: int

datatype job =
    SubmitJob order_intent int
  | NotifyJob order_intent bool int
  | CancelJob string
  | CancelCall string symbol

record ('r, 'b) runner =
  ru_backend :: 'b
  ru_store :: "'r trader list"
  ru_coordinator :: "coordinator option"
  ru_concurrency :: int
  ru_slots :: int
  ru_pending :: int
  ru_pool :: "job list"
  ru_cursor :: nat
  ru_tick :: int
  ru_outstanding :: "(string, tracked_order) dict"
  ru_submitted :: int
  ru_canceled :: int
  ru_closed :: int
  ru_failures :: int
  ru_open :: bool
  ru_opens :: int
  ru_closes :: int

definition make_runner ::
  "'b \<Rightarrow> 'r trader list \<Rightarrow> coordinator option \<Rightarrow> int \<Rightarrow> py_error + ('r, 'b) runner" where
  "make_runner b store co concurrency =
     (if concurrency < 1 then Inl (ValueError ''http_concurrency must be at least 1'')
      else Inr \<lparr>ru_backend = b, ru_store = store, ru_coordinator = co, ru_concurrency = concurrency,
                ru_slots = concurrency, ru_pending = 0, ru_pool = [], ru_cursor = 0, ru_tick = 0,
                ru_outstanding = [], ru_submitted = 0, ru_canceled = 0, ru_closed = 0, ru_failures = 0,
                ru_open = False, ru_opens = 0, ru_closes = 0\<rparr>)"

definition set_market_session_open :: "bool \<Rightarrow> ('r, 'b) runner \<Rightarrow> ('r, 'b) runner" where
  "set_market_session_open opened ru =
     (if ru_open ru = opened then ru
      else if opened then ru\<lparr>ru_open := opened, ru_opens := ru_opens ru + 1\<rparr>
      else ru\<lparr>ru_open := opened, ru_closes := ru_closes ru + 1\<rparr>)"

text \<open>An HTTP call, and the lines \<open>except BackendApiError\<close> around it.\<close>

definition http :: "('b, 'a) action \<Rightarrow> (('r, 'b) runner, 'a) action" where
  "http m ru = (let (b, r) = m (ru_backend ru) in (ru\<lparr>ru_backend := b\<rparr>, r))"

fun is_api_error :: "py_error \<Rightarrow> bool" where
  "is_api_error (BackendApiError _ _) = True"
| "is_api_error _ = False"

definition count_failure :: "('r, 'b) runner \<Rightarrow> ('r, 'b) runner" where
  "count_failure ru = ru\<lparr>ru_failures := ru_failures ru + 1\<rparr>"

text \<open>A call of the coordinator, on the shared traders and its own state.\<close>

definition with_desk :: "coordinator \<Rightarrow> ('r desk, 'a) action \<Rightarrow> (('r, 'b) runner, 'a) action" where
  "with_desk co m ru =
     (let ((store, co'), r) = m (ru_store ru, co)
      in (ru\<lparr>ru_store := store, ru_coordinator := Some co'\<rparr>, r))"

section \<open>Market events and the coordinator\<close>

definition poll_one ::
  "'r prng \<Rightarrow> (nat list \<Rightarrow> nat list) \<Rightarrow> 'b client \<Rightarrow> pending_event \<Rightarrow> (('r, 'b) runner, unit) action" where
  "poll_one G sha cl e ru =
     (case ru_coordinator ru of
        None \<Rightarrow> (ru, Inr ())
      | Some co \<Rightarrow>
          (case with_desk co (apply_market_event G sha (pe_id e) (pe_symbol e) (pe_direction e) (pe_impact e)
                  (pe_headline e) (pe_source e) (ru_tick ru)) ru of
             (ru1, Inl _) \<Rightarrow> (ru1, Inr ())
           | (ru1, Inr _) \<Rightarrow>
               (case http (cl_acknowledge cl (pe_id e)) ru1 of
                  (ru2, Inl err) \<Rightarrow> if is_api_error err then (count_failure ru2, Inr ()) else (ru2, Inl err)
                | (ru2, Inr _) \<Rightarrow> (ru2, Inr ()))))"

definition poll_market_events ::
  "'r prng \<Rightarrow> (nat list \<Rightarrow> nat list) \<Rightarrow> 'b client \<Rightarrow> (('r, 'b) runner, unit) action" where
  "poll_market_events G sha cl ru =
     (case ru_coordinator ru of
        None \<Rightarrow> (ru, Inr ())
      | Some co \<Rightarrow>
          (case event_symbols (ru_store ru, co) of
             [] \<Rightarrow> (ru, Inr ())
           | symbols \<Rightarrow>
               (case http (cl_fetch_events cl symbols) ru of
                  (ru1, Inl err) \<Rightarrow> if is_api_error err then (count_failure ru1, Inr ()) else (ru1, Inl err)
                | (ru1, Inr events) \<Rightarrow> for_each events (poll_one G sha cl) ru1)))"

definition notify_before_tick ::
  "'r prng \<Rightarrow> (nat list \<Rightarrow> nat list) \<Rightarrow> int \<Rightarrow> ('r, 'b) runner \<Rightarrow> ('r, 'b) runner" where
  "notify_before_tick G sha now ru =
     (case ru_coordinator ru of None \<Rightarrow> ru
      | Some co \<Rightarrow> fst (with_desk co (before_tick G sha now (ru_tick ru)) ru))"

definition notify_after_submit ::
  "int \<Rightarrow> order_intent \<Rightarrow> bool \<Rightarrow> int \<Rightarrow> ('r, 'b) runner \<Rightarrow> ('r, 'b) runner" where
  "notify_after_submit now intent submitted tick ru =
     (case ru_coordinator ru of None \<Rightarrow> ru
      | Some co \<Rightarrow> fst (with_desk co (after_submit now intent submitted tick) ru))"

section \<open>Jobs\<close>

text \<open>Taking a slot without waiting, handing a job to the pool, and the end of a job.\<close>

definition submit_to_pool :: "job \<Rightarrow> ('r, 'b) runner \<Rightarrow> ('r, 'b) runner" where
  "submit_to_pool j ru = ru\<lparr>ru_pending := ru_pending ru + 1, ru_pool := ru_pool ru @ [j]\<rparr>"

definition start_http :: "job \<Rightarrow> ('r, 'b) runner \<Rightarrow> ('r, 'b) runner \<times> bool" where
  "start_http j ru =
     (if ru_slots ru < 1 then (ru, False)
      else (submit_to_pool j (ru\<lparr>ru_slots := ru_slots ru - 1\<rparr>), True))"

definition end_job :: "nat \<Rightarrow> ('r, 'b) runner \<Rightarrow> ('r, 'b) runner" where
  "end_job k ru = ru\<lparr>ru_pool := take k (ru_pool ru) @ drop (Suc k) (ru_pool ru),
     ru_pending := ru_pending ru - 1, ru_slots := ru_slots ru + 1\<rparr>"

definition next_part :: "nat \<Rightarrow> job \<Rightarrow> ('r, 'b) runner \<Rightarrow> ('r, 'b) runner" where
  "next_part k j ru = ru\<lparr>ru_pool := (ru_pool ru)[k := j]\<rparr>"

definition intent_ttl :: "order_intent \<Rightarrow> int" where
  "intent_ttl intent =
     (case oi_ttl intent of None \<Rightarrow> order_ttl_seconds_default
      | Some t \<Rightarrow> if t = 0 then order_ttl_seconds_default else t)"

definition record_submitted ::
  "int \<Rightarrow> order_intent \<Rightarrow> submitted_order \<Rightarrow> ('r, 'b) runner \<Rightarrow> ('r, 'b) runner" where
  "record_submitted now intent so ru =
     ru\<lparr>ru_submitted := ru_submitted ru + 1,
        ru_outstanding :=
          (if so_remaining so \<noteq> 0
           then dict_set (ru_outstanding ru) (so_id so)
             \<lparr>tk_id = so_id so, tk_symbol = oi_symbol intent, tk_expires = now + intent_ttl intent * 1000\<rparr>
           else ru_outstanding ru)\<rparr>"

definition record_canceled :: "string \<Rightarrow> string \<Rightarrow> ('r, 'b) runner \<Rightarrow> ('r, 'b) runner" where
  "record_canceled oid status ru =
     (let ru1 = (if status = ''ALREADY_CLOSED'' then ru\<lparr>ru_closed := ru_closed ru + 1\<rparr>
                 else ru\<lparr>ru_canceled := ru_canceled ru + 1\<rparr>)
      in ru1\<lparr>ru_outstanding := dict_pop (ru_outstanding ru1) oid\<rparr>)"

text \<open>
  The next part of job \<open>k\<close>. An exception that is no \<open>BackendApiError\<close> ends the job; the
  \<open>finally\<close> of \<open>_run_job\<close> releases the slot, and nobody reads the future.
\<close>

definition job_step :: "'b client \<Rightarrow> int \<Rightarrow> nat \<Rightarrow> ('r, 'b) runner \<Rightarrow> ('r, 'b) runner" where
  "job_step cl now k ru =
     (case ru_pool ru ! k of
        SubmitJob intent tick \<Rightarrow>
          (case http (cl_submit_order cl intent) ru of
             (ru1, Inr so) \<Rightarrow> next_part k (NotifyJob intent True tick) (record_submitted now intent so ru1)
           | (ru1, Inl err) \<Rightarrow>
               if is_api_error err then next_part k (NotifyJob intent False tick) (count_failure ru1)
               else end_job k ru1)
      | NotifyJob intent submitted tick \<Rightarrow> end_job k (notify_after_submit now intent submitted tick ru)
      | CancelJob oid \<Rightarrow>
          next_part k (CancelCall oid
            (case dict_get (ru_outstanding ru) oid of None \<Rightarrow> [] | Some tr \<Rightarrow> tk_symbol tr)) ru
      | CancelCall oid sy \<Rightarrow>
          (case http (cl_cancel_order cl oid sy) ru of
             (ru1, Inr status) \<Rightarrow> end_job k (record_canceled oid status ru1)
           | (ru1, Inl err) \<Rightarrow>
               if is_api_error err then end_job k (count_failure ru1) else end_job k ru1))"

text \<open>Parts that a job has left.\<close>

fun job_parts :: "job \<Rightarrow> nat" where
  "job_parts (SubmitJob _ _) = 2"
| "job_parts (NotifyJob _ _ _) = 1"
| "job_parts (CancelJob _) = 2"
| "job_parts (CancelCall _ _) = 1"

definition pool_work :: "('r, 'b) runner \<Rightarrow> nat" where
  "pool_work ru = sum_list (map job_parts (ru_pool ru))"

section \<open>One tick\<close>

definition expired_ids :: "int \<Rightarrow> ('r, 'b) runner \<Rightarrow> string list" where
  "expired_ids now ru = map fst (filter (\<lambda>(oid, tr). tk_expires tr \<le> now) (ru_outstanding ru))"

fun start_cancels :: "string list \<Rightarrow> ('r, 'b) runner \<Rightarrow> ('r, 'b) runner" where
  "start_cancels [] ru = ru"
| "start_cancels (oid # oids) ru =
     (let (ru1, started) = start_http (CancelJob oid) ru
      in if started then start_cancels oids ru1 else ru1)"

definition expire_orders :: "int \<Rightarrow> ('r, 'b) runner \<Rightarrow> ('r, 'b) runner" where
  "expire_orders now ru = start_cancels (expired_ids now ru) ru"

fun fetch_loop ::
  "'b client \<Rightarrow> symbol list \<Rightarrow> (symbol, book_snapshot) dict
    \<Rightarrow> (('r, 'b) runner, (symbol, book_snapshot) dict) action" where
  "fetch_loop cl [] snaps ru = (ru, Inr snaps)"
| "fetch_loop cl (sy # sys) snaps ru =
     (case http (cl_fetch_book cl sy) ru of
        (ru1, Inr snap) \<Rightarrow> fetch_loop cl sys (dict_set snaps sy snap) ru1
      | (ru1, Inl err) \<Rightarrow>
          if is_api_error err then fetch_loop cl sys snaps (count_failure ru1) else (ru1, Inl err))"

text \<open>\<open>dict.fromkeys\<close> keeps the first occurrence of each symbol.\<close>

definition fetch_snapshots :: "'b client \<Rightarrow> (('r, 'b) runner, (symbol, book_snapshot) dict) action" where
  "fetch_snapshots cl ru = fetch_loop cl (rev (remdups (rev (map trader_symbol (ru_store ru))))) [] ru"

fun start_rest :: "order_intent list \<Rightarrow> ('r, 'b) runner \<Rightarrow> ('r, 'b) runner" where
  "start_rest [] ru = ru"
| "start_rest (intent # intents) ru =
     (let (ru1, started) = start_http (SubmitJob intent (ru_tick ru)) ru
      in if started then start_rest intents ru1 else ru1)"

text \<open>What the loop over the participants decides for one of them.\<close>

datatype verdict = Considered | NotConsidered

definition consider_one ::
  "'r prng \<Rightarrow> (symbol, book_snapshot) dict \<Rightarrow> nat \<Rightarrow> (('r, 'b) runner, verdict) action" where
  "consider_one G snaps i ru =
     (if ru_concurrency ru \<le> ru_pending ru then (ru, Inr NotConsidered)
      else (case dict_get snaps (trader_symbol (ru_store ru ! i)) of
          None \<Rightarrow> (ru, Inr Considered)
        | Some snap \<Rightarrow>
            if ru_slots ru < 1 then (ru, Inr NotConsidered)
            else
              (let ru1 = ru\<lparr>ru_slots := ru_slots ru - 1\<rparr>;
                   (t, r) = next_intents G (ru_tick ru) snap (ru_store ru ! i);
                   ru2 = ru1\<lparr>ru_store := (ru_store ru1)[i := t]\<rparr>
               in case r of
                    Inl err \<Rightarrow> (ru2, Inl err)
                  | Inr [] \<Rightarrow> (ru2\<lparr>ru_slots := ru_slots ru2 + 1\<rparr>, Inr Considered)
                  | Inr (intent # intents) \<Rightarrow>
                      (start_rest intents (submit_to_pool (SubmitJob intent (ru_tick ru)) ru2), Inr Considered))))"

fun enqueue_loop ::
  "'r prng \<Rightarrow> (symbol, book_snapshot) dict \<Rightarrow> nat list \<Rightarrow> nat \<Rightarrow> (('r, 'b) runner, nat) action" where
  "enqueue_loop G snaps [] considered ru = (ru, Inr considered)"
| "enqueue_loop G snaps (offset # offsets) considered ru =
     (case consider_one G snaps ((ru_cursor ru + offset) mod length (ru_store ru)) ru of
        (ru1, Inl err) \<Rightarrow> (ru1, Inl err)
      | (ru1, Inr NotConsidered) \<Rightarrow> (ru1, Inr considered)
      | (ru1, Inr Considered) \<Rightarrow> enqueue_loop G snaps offsets (Suc considered) ru1)"

definition enqueue_due_intents ::
  "'r prng \<Rightarrow> (symbol, book_snapshot) dict \<Rightarrow> (('r, 'b) runner, unit) action" where
  "enqueue_due_intents G snaps ru =
     (let count = length (ru_store ru)
      in if count = 0 then (ru, Inr ())
         else (case enqueue_loop G snaps [0..<count] 0 ru of
             (ru1, Inl err) \<Rightarrow> (ru1, Inl err)
           | (ru1, Inr considered) \<Rightarrow>
               (if considered \<noteq> 0
                then (ru1\<lparr>ru_cursor := (ru_cursor ru1 + considered) mod count\<rparr>, Inr ())
                else (ru1, Inr ()))))"

definition tick_once ::
  "'r prng \<Rightarrow> (nat list \<Rightarrow> nat list) \<Rightarrow> 'b client \<Rightarrow> int \<Rightarrow> (('r, 'b) runner, unit) action" where
  "tick_once G sha cl now ru =
     seq_call (poll_market_events G sha cl) (\<lambda>_ ru1.
     seq_call (fetch_snapshots cl) (\<lambda>snaps. enqueue_due_intents G snaps)
       (expire_orders now (notify_before_tick G sha now ru1)))
     (ru\<lparr>ru_tick := ru_tick ru + 1\<rparr>)"

section \<open>Waiting and closing\<close>

text \<open>
  \<open>wait_for_idle\<close>: the pool's threads work until the deadline, \<open>patience\<close> parts of jobs,
  here in the order of the pool.
\<close>

fun work :: "'b client \<Rightarrow> int \<Rightarrow> nat \<Rightarrow> ('r, 'b) runner \<Rightarrow> ('r, 'b) runner" where
  "work cl now 0 ru = ru"
| "work cl now (Suc n) ru = (if ru_pool ru = [] then ru else work cl now n (job_step cl now 0 ru))"

definition wait_for_idle :: "'b client \<Rightarrow> int \<Rightarrow> nat \<Rightarrow> (('r, 'b) runner, unit) action" where
  "wait_for_idle cl now patience ru =
     (let ru1 = work cl now patience ru
      in if ru_pool ru1 = [] then (ru1, Inr ())
         else (ru1, Inl (TimeoutError ''runner HTTP is still in flight'')))"

text \<open>A blocking start waits until a job of the pool ends; a job has at most two parts.\<close>

definition start_blocking :: "'b client \<Rightarrow> int \<Rightarrow> job \<Rightarrow> ('r, 'b) runner \<Rightarrow> ('r, 'b) runner" where
  "start_blocking cl now j ru =
     (let ru1 = (if ru_slots ru < 1 then work cl now 1 ru else ru);
          ru2 = (if ru_slots ru1 < 1 then work cl now 1 ru1 else ru1)
      in fst (start_http j ru2))"

fun cancel_each :: "'b client \<Rightarrow> int \<Rightarrow> string list \<Rightarrow> ('r, 'b) runner \<Rightarrow> ('r, 'b) runner" where
  "cancel_each cl now [] ru = ru"
| "cancel_each cl now (oid # oids) ru = cancel_each cl now oids (start_blocking cl now (CancelJob oid) ru)"

definition cancel_all_open_orders :: "'b client \<Rightarrow> int \<Rightarrow> nat \<Rightarrow> (('r, 'b) runner, unit) action" where
  "cancel_all_open_orders cl now patience =
     seq_call (wait_for_idle cl now patience) (\<lambda>_ ru.
       wait_for_idle cl now patience (cancel_each cl now (dict_keys (ru_outstanding ru)) ru))"

section \<open>Status\<close>

record runner_status =
  rs_ticks :: int
  rs_submitted :: int
  rs_canceled :: int
  rs_closed :: int
  rs_failures :: int
  rs_open_orders :: int
  rs_in_flight :: int
  rs_events :: coordinator_status
  rs_market_open :: bool
  rs_opens :: int
  rs_closes :: int

definition coordinator_status_locked :: "('r, 'b) runner \<Rightarrow> coordinator_status" where
  "coordinator_status_locked ru =
     (case ru_coordinator ru of
        None \<Rightarrow> \<lparr>cs_received = 0, cs_deduplicated = 0, cs_dormant = 0, cs_activated = 0, cs_planned = 0,
                cs_submitted = 0, cs_dropped = 0, cs_lag_max = 0\<rparr>
      | Some co \<Rightarrow> co_status co)"

definition runner_status_of :: "('r, 'b) runner \<Rightarrow> runner_status" where
  "runner_status_of ru =
     \<lparr>rs_ticks = ru_tick ru, rs_submitted = ru_submitted ru, rs_canceled = ru_canceled ru,
      rs_closed = ru_closed ru, rs_failures = ru_failures ru,
      rs_open_orders = int (length (ru_outstanding ru)), rs_in_flight = ru_pending ru,
      rs_events = coordinator_status_locked ru, rs_market_open = ru_open ru,
      rs_opens = ru_opens ru, rs_closes = ru_closes ru\<rparr>"

section \<open>The main loop\<close>

definition close_pool :: "'b client \<Rightarrow> int \<Rightarrow> ('r, 'b) runner \<Rightarrow> ('r, 'b) runner" where
  "close_pool cl now ru = work cl now (pool_work ru) ru"

text \<open>
  What one turn of the loop meets: whether the stop event is set at its head, the wall clock, the
  monotonic clock, how far the pool gets before a deadline, how far it gets during the wait that
  ends the turn, and whether that wait is cut short by the stop event.
\<close>

record turn =
  tn_stopped :: bool
  tn_now :: int
  tn_clock :: int
  tn_patience :: nat
  tn_worked :: nat
  tn_wait_stopped :: bool

text \<open>The turn while the market is closed: clean up after the close, then wait for the next opening.\<close>

definition closed_turn ::
  "(int \<Rightarrow> int) \<Rightarrow> market_mode \<Rightarrow> 'b client \<Rightarrow> turn \<Rightarrow> bool \<Rightarrow> (('r, 'b) runner, unit) action" where
  "closed_turn seoul mode cl tn was_open =
     seq_call
       (if was_open
        then seq_call (cancel_all_open_orders cl (tn_clock tn) (tn_patience tn)) (\<lambda>_ ru.
          (case session_date seoul mode (Aware (tn_now tn)) of
             Inl err \<Rightarrow> (ru, Inl err)
           | Inr _ \<Rightarrow> (set_market_session_open False ru, Inr ())))
        else (\<lambda>ru. (ru, Inr ())))
       (\<lambda>_ ru. case next_open seoul mode (Aware (tn_now tn)) of Inl err \<Rightarrow> (ru, Inl err) | Inr _ \<Rightarrow> (ru, Inr ()))"

definition open_turn ::
  "'r prng \<Rightarrow> (nat list \<Rightarrow> nat list) \<Rightarrow> (int \<Rightarrow> int) \<Rightarrow> market_mode \<Rightarrow> 'b client \<Rightarrow> turn \<Rightarrow> bool
    \<Rightarrow> (('r, 'b) runner, unit) action" where
  "open_turn G sha seoul mode cl tn was_open =
     seq_call
       (if was_open then (\<lambda>ru. (ru, Inr ()))
        else (\<lambda>ru. case session_date seoul mode (Aware (tn_now tn)) of
            Inl err \<Rightarrow> (set_market_session_open True ru, Inl err)
          | Inr _ \<Rightarrow> (set_market_session_open True ru, Inr ())))
       (\<lambda>_. tick_once G sha cl (tn_clock tn))"

text \<open>
  \<open>run_until_stopped\<close> over the turns that the environment grants; \<open>None\<close> means that the
  loop is still running when they are over. The \<open>finally\<close> closes the pool.
\<close>

definition finish ::
  "'b client \<Rightarrow> turn \<Rightarrow> (('r, 'b) runner, unit) action \<Rightarrow> ('r, 'b) runner
    \<Rightarrow> ('r, 'b) runner \<times> (py_error + runner_status)" where
  "finish cl tn m ru =
     (case m ru of
        (ru1, Inl err) \<Rightarrow> (close_pool cl (tn_clock tn) ru1, Inl err)
      | (ru1, Inr _) \<Rightarrow> (close_pool cl (tn_clock tn) ru1, Inr (runner_status_of ru1)))"

fun run_until_stopped ::
  "'r prng \<Rightarrow> (nat list \<Rightarrow> nat list) \<Rightarrow> (int \<Rightarrow> int) \<Rightarrow> market_mode \<Rightarrow> 'b client \<Rightarrow> turn list \<Rightarrow> bool
    \<Rightarrow> ('r, 'b) runner \<Rightarrow> (('r, 'b) runner \<times> (py_error + runner_status)) option" where
  "run_until_stopped G sha seoul mode cl [] was_open ru = None"
| "run_until_stopped G sha seoul mode cl (tn # tns) was_open ru =
     (let final = (\<lambda>ru1. Some (finish cl tn (cancel_all_open_orders cl (tn_clock tn) (tn_patience tn)) ru1));
          raise = (\<lambda>err ru1. Some (finish cl tn (\<lambda>s. (s, Inl err)) ru1))
      in if tn_stopped tn then final ru
         else (case is_open seoul mode (Aware (tn_now tn)) of
             Inl err \<Rightarrow> raise err ru
           | Inr opened \<Rightarrow>
               (case (if opened then open_turn G sha seoul mode cl tn was_open ru
                      else closed_turn seoul mode cl tn was_open ru) of
                  (ru1, Inl err) \<Rightarrow> raise err ru1
                | (ru1, Inr _) \<Rightarrow>
                    (let ru2 = work cl (tn_clock tn) (tn_worked tn) ru1
                     in if tn_wait_stopped tn then final ru2
                        else run_until_stopped G sha seoul mode cl tns opened ru2))))"

end
