(* ===== verification/Runner_Invariant.thy ===== *)
theory Runner_Invariant
  imports Runner
begin

text \<open>
  The invariant of the runner: the slots and the jobs in flight add up to the configured
  concurrency, the tracked orders are keyed by their ids, the session counters match the
  session flag, and the traders and the coordinator are well-formed. Every part of the main
  thread and of a job preserves it, in any interleaving.
\<close>

section \<open>The invariant\<close>

definition slots_ok :: "('r, 'b) runner \<Rightarrow> bool" where
  "slots_ok ru \<longleftrightarrow> 1 \<le> ru_concurrency ru \<and> ru_pending ru = int (length (ru_pool ru))
     \<and> ru_slots ru + ru_pending ru = ru_concurrency ru \<and> 0 \<le> ru_slots ru"

definition tracked_ok :: "(string, tracked_order) dict \<Rightarrow> bool" where
  "tracked_ok d \<longleftrightarrow> dict_ok d \<and> (\<forall>oid tr. dict_get d oid = Some tr \<longrightarrow> tk_id tr = oid)"

definition books_ok :: "('r, 'b) runner \<Rightarrow> bool" where
  "books_ok ru \<longleftrightarrow> tracked_ok (ru_outstanding ru)
     \<and> 0 \<le> ru_submitted ru \<and> 0 \<le> ru_canceled ru \<and> 0 \<le> ru_closed ru \<and> 0 \<le> ru_failures ru
     \<and> int (length (ru_outstanding ru)) \<le> ru_submitted ru"

definition session_ok :: "('r, 'b) runner \<Rightarrow> bool" where
  "session_ok ru \<longleftrightarrow> 0 \<le> ru_closes ru \<and> ru_opens ru = ru_closes ru + (if ru_open ru then 1 else 0)"

definition team_ok :: "'r trader list \<Rightarrow> coordinator option \<Rightarrow> bool" where
  "team_ok store c \<longleftrightarrow> (\<forall>t\<in>set store. trader_ok t)
     \<and> (case c of None \<Rightarrow> True | Some co \<Rightarrow> desk_ok (store, co))"

definition runner_ok :: "('r, 'b) runner \<Rightarrow> bool" where
  "runner_ok ru \<longleftrightarrow> slots_ok ru \<and> books_ok ru \<and> session_ok ru \<and> team_ok (ru_store ru) (ru_coordinator ru)"

definition stays_ok :: "('r, 'b) runner \<Rightarrow> ('r, 'b) runner \<Rightarrow> bool" where
  "stays_ok ru ru' \<longleftrightarrow> runner_ok ru'"

interpretation runs: call_frame stays_ok
  by unfold_locales (auto simp: stays_ok_def)

text \<open>What the code relies on from the backend: positive prices, and only API errors.\<close>

definition client_ok :: "'b client \<Rightarrow> bool" where
  "client_ok cl \<longleftrightarrow>
     (\<forall>b sy. case snd (cl_fetch_book cl sy b) of Inl e \<Rightarrow> is_api_error e | Inr snap \<Rightarrow> snapshot_ok snap)
     \<and> (\<forall>b i. case snd (cl_submit_order cl i b) of Inl e \<Rightarrow> is_api_error e | Inr _ \<Rightarrow> True)
     \<and> (\<forall>b sys. case snd (cl_fetch_events cl sys b) of Inl e \<Rightarrow> is_api_error e | Inr _ \<Rightarrow> True)
     \<and> (\<forall>b eid. case snd (cl_acknowledge cl eid b) of Inl e \<Rightarrow> is_api_error e | Inr _ \<Rightarrow> True)
     \<and> (\<forall>b oid sy. case snd (cl_cancel_order cl oid sy b) of Inl e \<Rightarrow> is_api_error e | Inr _ \<Rightarrow> True)"

section \<open>Parts that leave the invariant alone\<close>

lemma runner_ok_same:
  assumes "runner_ok ru" "ru_concurrency ru' = ru_concurrency ru" "ru_slots ru' = ru_slots ru"
    and "ru_pending ru' = ru_pending ru" "length (ru_pool ru') = length (ru_pool ru)"
    and "ru_outstanding ru' = ru_outstanding ru" "ru_store ru' = ru_store ru" "ru_coordinator ru' = ru_coordinator ru"
    and "ru_submitted ru' = ru_submitted ru" "ru_canceled ru' = ru_canceled ru" "ru_closed ru' = ru_closed ru"
    and "ru_failures ru \<le> ru_failures ru'" "ru_open ru' = ru_open ru" "ru_opens ru' = ru_opens ru" "ru_closes ru' = ru_closes ru"
  shows "runner_ok ru'"
  using assms by (simp add: runner_ok_def slots_ok_def books_ok_def session_ok_def)

lemma runner_ok_simps [simp]:
  "runner_ok ru \<Longrightarrow> runner_ok (ru\<lparr>ru_backend := b\<rparr>)"
  "runner_ok ru \<Longrightarrow> runner_ok (ru\<lparr>ru_cursor := c\<rparr>)"
  "runner_ok ru \<Longrightarrow> runner_ok (ru\<lparr>ru_tick := n\<rparr>)"
  "runner_ok ru \<Longrightarrow> runner_ok (count_failure ru)"
  "runner_ok ru \<Longrightarrow> runner_ok (next_part k j ru)"
  by (erule runner_ok_same; simp add: count_failure_def next_part_def)+

lemma http_ok: "runner_ok ru \<Longrightarrow> http m ru = (ru1, r) \<Longrightarrow> runner_ok ru1"
  by (auto simp: http_def Let_def split: prod.splits)

lemma submit_to_pool_ok:
  assumes "runner_ok ru" "0 < ru_slots ru"
  shows "runner_ok (submit_to_pool j (ru\<lparr>ru_slots := ru_slots ru - 1\<rparr>))"
  using assms by (simp add: submit_to_pool_def runner_ok_def slots_ok_def books_ok_def session_ok_def)

lemma start_http_ok: "runner_ok ru \<Longrightarrow> start_http j ru = (ru', b) \<Longrightarrow> runner_ok ru'"
  using submit_to_pool_ok [of ru j] by (auto simp: start_http_def split: if_splits)

lemma end_job_ok: "runner_ok ru \<Longrightarrow> k < length (ru_pool ru) \<Longrightarrow> runner_ok (end_job k ru)"
  by (simp add: end_job_def runner_ok_def slots_ok_def books_ok_def session_ok_def)

lemma tracked_ok_set: "tracked_ok d \<Longrightarrow> tk_id tr = oid \<Longrightarrow> tracked_ok (dict_set d oid tr)"
  unfolding tracked_ok_def by (simp only: dict_ok_set dict_simps fun_upd_apply) auto

lemma tracked_ok_pop: "tracked_ok d \<Longrightarrow> tracked_ok (dict_pop d oid)"
  unfolding tracked_ok_def by (simp only: dict_ok_pop dict_simps fun_upd_apply) auto

lemma record_submitted_ok: "runner_ok ru \<Longrightarrow> runner_ok (record_submitted now intent so ru)"
  by (auto simp: record_submitted_def runner_ok_def slots_ok_def books_ok_def session_ok_def
      tracked_ok_set length_dict_set split: if_splits)

lemma dict_pop_length: "length (dict_pop d k) \<le> length d"
  by (induction d) auto

lemma record_canceled_ok: "runner_ok ru \<Longrightarrow> runner_ok (record_canceled oid status ru)"
  using dict_pop_length [of oid "ru_outstanding ru"]
  by (auto simp: record_canceled_def Let_def runner_ok_def slots_ok_def books_ok_def session_ok_def
      tracked_ok_pop split: if_splits)

lemma session_switch_ok: "runner_ok ru \<Longrightarrow> runner_ok (set_market_session_open opened ru)"
  by (auto simp: set_market_session_open_def runner_ok_def slots_ok_def books_ok_def session_ok_def)

section \<open>The coordinator and the traders\<close>

lemma desk_store_ok: "desk_ok (store, co) \<Longrightarrow> \<forall>t\<in>set store. trader_ok t"
  by (simp add: desk_ok_def roster_ok_def)

lemma with_desk_ok:
  assumes "runner_ok ru" "ru_coordinator ru = Some co" "keeps kept X m (ru_store ru, co)"
    and "with_desk co m ru = (ru', r)"
  shows "runner_ok ru'"
proof -
  obtain store co' r' where m: "m (ru_store ru, co) = ((store, co'), r')" by (metis prod.exhaust)
  then have "desk_ok (store, co')" by (rule kept_state [OF assms(3)])
  then have "team_ok store (Some co')"
    using desk_store_ok by (simp add: team_ok_def)
  then show ?thesis using assms m
    by (auto simp: with_desk_def runner_ok_def slots_ok_def books_ok_def session_ok_def)
qed

lemma runner_deskD: "runner_ok ru \<Longrightarrow> ru_coordinator ru = Some co \<Longrightarrow> desk_ok (ru_store ru, co)"
  by (simp add: runner_ok_def team_ok_def)

lemma notify_before_tick_ok:
  assumes "prng_ok G" "runner_ok ru"
  shows "runner_ok (notify_before_tick G sha now ru)"
proof (cases "ru_coordinator ru")
  case (Some co)
  then show ?thesis
    using with_desk_ok [OF assms(2) Some before_tick_keeps [OF assms(1) runner_deskD [OF assms(2) Some]]]
    by (simp add: notify_before_tick_def prod_eq_iff)
qed (use assms in \<open>simp add: notify_before_tick_def\<close>)

lemma notify_after_submit_ok:
  assumes "runner_ok ru"
  shows "runner_ok (notify_after_submit now intent submitted tick ru)"
proof (cases "ru_coordinator ru")
  case (Some co)
  then show ?thesis
    using with_desk_ok [OF assms Some after_submit_keeps [OF runner_deskD [OF assms Some]]]
    by (simp add: notify_after_submit_def prod_eq_iff)
qed (use assms in \<open>simp add: notify_after_submit_def\<close>)

lemma notify_pool [simp]: "ru_pool (notify_after_submit now intent submitted tick ru) = ru_pool ru"
  by (simp add: notify_after_submit_def with_desk_def Let_def split: option.split prod.split)

lemma act_ok:
  assumes "prng_ok G" "runner_ok ru" "i < length (ru_store ru)" "snapshot_ok snap"
    and "next_intents G tick snap (ru_store ru ! i) = (t, r)"
  shows "runner_ok (ru\<lparr>ru_store := (ru_store ru)[i := t]\<rparr>)"
proof -
  have i: "trader_ok (ru_store ru ! i)" using assms(2,3) by (simp add: runner_ok_def team_ok_def)
  then have t: "trader_ok t"
    using next_intents_sends [OF assms(1) i assms(4), of tick] assms(5)
    by (auto simp: sends_valid_def split: sum.splits)
  have "desk_ok ((ru_store ru)[i := t], co)" if "ru_coordinator ru = Some co" for co
    using act_kept [OF assms(1) runner_deskD [OF assms(2) that], of i snap tick t r] assms(3-5)
    by (simp add: kept_def)
  then have "team_ok ((ru_store ru)[i := t]) (ru_coordinator ru)"
    using assms(2) t unfolding team_ok_def runner_ok_def
    by (auto split: option.splits dest: set_update_subset_insert [THEN subsetD])
  then show ?thesis using assms(2) by (simp add: runner_ok_def slots_ok_def books_ok_def session_ok_def)
qed

section \<open>Jobs\<close>

lemma http_fields [simp]:
  assumes "http m ru = (ru1, r)"
  shows "ru_pool ru1 = ru_pool ru" "ru_outstanding ru1 = ru_outstanding ru" "ru_tick ru1 = ru_tick ru"
    "ru_store ru1 = ru_store ru" "ru_slots ru1 = ru_slots ru" "ru_pending ru1 = ru_pending ru"
    "ru_concurrency ru1 = ru_concurrency ru" "ru_cursor ru1 = ru_cursor ru"
  using assms by (auto simp: http_def split: prod.splits)

lemma count_failure_fields [simp]:
  "ru_pool (count_failure ru) = ru_pool ru" "ru_outstanding (count_failure ru) = ru_outstanding ru"
  "ru_tick (count_failure ru) = ru_tick ru" "ru_store (count_failure ru) = ru_store ru"
  by (simp_all add: count_failure_def)

lemma record_pool [simp]:
  "ru_pool (record_canceled oid status ru) = ru_pool ru" "ru_pool (record_submitted now intent so ru) = ru_pool ru"
  by (simp_all add: record_canceled_def record_submitted_def Let_def)

lemma job_step_ok:
  assumes "runner_ok ru" "k < length (ru_pool ru)"
  shows "runner_ok (job_step cl now k ru)"
proof (cases "ru_pool ru ! k")
  case (SubmitJob intent tick)
  obtain ru1 r where h: "http (cl_submit_order cl intent) ru = (ru1, r)" by force
  note ok = http_ok [OF assms(1) h]
  have "k < length (ru_pool ru1)" using http_fields(1) [OF h] assms(2) by simp
  then show ?thesis using ok h record_submitted_ok [OF ok, of now intent] end_job_ok [OF ok]
    by (auto simp: job_step_def SubmitJob split: sum.split)
next
  case (NotifyJob intent submitted tick)
  then show ?thesis
    using end_job_ok [OF notify_after_submit_ok [OF assms(1)], of k now intent submitted tick] assms(2)
    by (simp add: job_step_def)
next
  case (CancelJob oid)
  then show ?thesis using assms(1) by (simp add: job_step_def)
next
  case (CancelCall oid sy)
  obtain ru1 r where h: "http (cl_cancel_order cl oid sy) ru = (ru1, r)" by force
  note ok = http_ok [OF assms(1) h]
  have "k < length (ru_pool ru1)" using http_fields(1) [OF h] assms(2) by simp
  then show ?thesis using h ok end_job_ok [OF record_canceled_ok [OF ok]] end_job_ok [OF ok]
      end_job_ok [of "count_failure ru1" k]
    by (auto simp: job_step_def CancelCall split: sum.split)
qed

text \<open>Every part of a job brings the pool closer to being idle.\<close>

lemma work_split:
  fixes f :: "'a \<Rightarrow> nat"
  assumes "k < length xs"
  shows "sum_list (map f xs) = sum_list (map f (take k xs)) + f (xs ! k) + sum_list (map f (drop (Suc k) xs))"
proof -
  have "map f xs = map f (take k xs) @ f (xs ! k) # map f (drop (Suc k) xs)"
    using id_take_nth_drop [OF assms] by (metis list.simps(9) map_append)
  then show ?thesis by simp
qed

lemma end_job_work:
  "k < length (ru_pool ru) \<Longrightarrow> pool_work (end_job k ru) + job_parts (ru_pool ru ! k) = pool_work ru"
  using work_split [of k "ru_pool ru" job_parts] by (simp add: pool_work_def end_job_def)

lemma next_part_work:
  "k < length (ru_pool ru) \<Longrightarrow> pool_work (next_part k j ru) + job_parts (ru_pool ru ! k) = pool_work ru + job_parts j"
  using work_split [of k "ru_pool ru" job_parts] work_split [of k "(ru_pool ru)[k := j]" job_parts]
  by (simp add: pool_work_def next_part_def)

lemma pool_work_eq: "ru_pool ru' = ru_pool ru \<Longrightarrow> pool_work ru' = pool_work ru"
  by (simp add: pool_work_def)

lemma job_step_work:
  assumes "k < length (ru_pool ru)"
  shows "pool_work (job_step cl now k ru) < pool_work ru"
proof -
  note nw = next_part_work [where k = k] and ew = end_job_work [where k = k]
  show ?thesis
  proof (cases "ru_pool ru ! k")
    case (SubmitJob intent tick)
    obtain ru1 r where h: "http (cl_submit_order cl intent) ru = (ru1, r)" by force
    note f = http_fields(1) [OF h]
    show ?thesis
    proof (cases r)
      case (Inl err)
      then show ?thesis
        using nw [of "count_failure ru1" "NotifyJob intent False tick"] ew [of ru1] f assms SubmitJob
          pool_work_eq [of ru1 ru] pool_work_eq [of "count_failure ru1" ru]
        by (simp add: job_step_def SubmitJob h Inl)
    next
      case (Inr so)
      then show ?thesis
        using nw [of "record_submitted now intent so ru1" "NotifyJob intent True tick"] f assms SubmitJob
          pool_work_eq [of "record_submitted now intent so ru1" ru]
        by (simp add: job_step_def SubmitJob h)
    qed
  next
    case (NotifyJob intent submitted tick)
    then show ?thesis
      using ew [of "notify_after_submit now intent submitted tick ru"] assms
        pool_work_eq [of "notify_after_submit now intent submitted tick ru" ru]
      by (simp add: job_step_def)
  next
    case (CancelJob oid)
    let ?j = "CancelCall oid (case dict_get (ru_outstanding ru) oid of None \<Rightarrow> [] | Some tr \<Rightarrow> tk_symbol tr)"
    show ?thesis using nw [of ru ?j] assms CancelJob by (simp add: job_step_def)
  next
    case (CancelCall oid sy)
    obtain ru1 r where h: "http (cl_cancel_order cl oid sy) ru = (ru1, r)" by force
    note f = http_fields(1) [OF h]
    show ?thesis
    proof (cases r)
      case (Inl err)
      then show ?thesis
        using ew [of "count_failure ru1"] ew [of ru1] f assms CancelCall pool_work_eq [of ru1 ru]
          pool_work_eq [of "count_failure ru1" ru]
        by (simp add: job_step_def h)
    next
      case (Inr status)
      then show ?thesis
        using ew [of "record_canceled oid status ru1"] pool_work_eq [of "record_canceled oid status ru1" ru]
          f assms CancelCall by (simp add: job_step_def h)
    qed
  qed
qed

lemma pool_work_0: "pool_work ru = 0 \<longleftrightarrow> ru_pool ru = []"
proof -
  have "0 < job_parts j" for j by (cases j) simp_all
  then show ?thesis by (cases "ru_pool ru") (auto simp: pool_work_def)
qed

lemma work_ok: "runner_ok ru \<Longrightarrow> runner_ok (work cl now n ru)"
proof (induction n arbitrary: ru)
  case (Suc n)
  then show ?case using job_step_ok [of ru 0 cl now] by (cases "ru_pool ru = []") simp_all
qed simp

lemma work_idle: "pool_work ru \<le> n \<Longrightarrow> ru_pool (work cl now n ru) = []"
proof (induction n arbitrary: ru)
  case 0
  then show ?case by (simp add: pool_work_0)
next
  case (Suc n)
  show ?case
  proof (cases "ru_pool ru = []")
    case False
    then have "pool_work (job_step cl now 0 ru) < pool_work ru" using job_step_work [of 0 ru cl now] by simp
    with Suc False show ?thesis by simp
  qed simp
qed

section \<open>The main thread\<close>

lemma start_cancels_ok: "runner_ok ru \<Longrightarrow> runner_ok (start_cancels oids ru)"
proof (induction oids arbitrary: ru)
  case (Cons oid oids)
  then show ?case using start_http_ok [of ru "CancelJob oid"] by (auto split: prod.split)
qed simp

lemma start_rest_ok: "runner_ok ru \<Longrightarrow> runner_ok (start_rest intents ru)"
proof (induction intents arbitrary: ru)
  case (Cons intent intents)
  then show ?case using start_http_ok [of ru "SubmitJob intent (ru_tick ru)"] by (auto split: prod.split)
qed simp

definition no_error :: "py_error \<Rightarrow> bool" where
  "no_error e \<longleftrightarrow> False"

lemma api_callD:
  assumes "\<forall>b. case snd (m b) of Inl e \<Rightarrow> is_api_error e | Inr x \<Rightarrow> P x" "http m ru = (ru1, r)"
  shows "case r of Inl e \<Rightarrow> is_api_error e | Inr x \<Rightarrow> P x"
  using assms(1) [rule_format, of "ru_backend ru"] assms(2) by (auto simp: http_def split: prod.splits)

lemma poll_one_keeps:
  assumes "prng_ok G" "client_ok cl" "runner_ok ru"
  shows "keeps stays_ok no_error (poll_one G sha cl e) ru"
proof (cases "ru_coordinator ru")
  case (Some co)
  let ?m = "apply_market_event G sha (pe_id e) (pe_symbol e) (pe_direction e) (pe_impact e)
                  (pe_headline e) (pe_source e) (ru_tick ru)"
  obtain ru1 r where w: "with_desk co ?m ru = (ru1, r)" by force
  have ok1: "runner_ok ru1"
    by (rule with_desk_ok [OF assms(3) Some apply_market_event_keeps [OF assms(1) runner_deskD [OF assms(3) Some]] w])
  obtain ru2 q where h: "http (cl_acknowledge cl (pe_id e)) ru1 = (ru2, q)" by force
  have ok2: "runner_ok ru2" by (rule http_ok [OF ok1 h])
  have api: "case q of Inl e \<Rightarrow> is_api_error e | Inr x \<Rightarrow> True"
    by (rule api_callD [OF _ h]) (use assms(2) in \<open>simp add: client_ok_def\<close>)
  show ?thesis using ok1 ok2 api
    by (cases r; cases q) (simp_all add: keeps_def poll_one_def Some w h stays_ok_def)
qed (use assms in \<open>simp add: keeps_def poll_one_def stays_ok_def\<close>)

lemma poll_market_events_keeps:
  assumes "prng_ok G" "client_ok cl" "runner_ok ru"
  shows "keeps stays_ok no_error (poll_market_events G sha cl) ru"
proof (cases "ru_coordinator ru")
  case (Some co)
  show ?thesis
  proof (cases "event_symbols (ru_store ru, co)")
    case (Cons sy sys)
    obtain ru1 r where h: "http (cl_fetch_events cl (sy # sys)) ru = (ru1, r)" by force
    have ok1: "runner_ok ru1" by (rule http_ok [OF assms(3) h])
    have api: "case r of Inl e \<Rightarrow> is_api_error e | Inr x \<Rightarrow> True"
      by (rule api_callD [OF _ h]) (use assms(2) in \<open>simp add: client_ok_def\<close>)
    show ?thesis
    proof (cases r)
      case (Inl e)
      then show ?thesis using api ok1 by (simp add: keeps_def poll_market_events_def Some Cons h stays_ok_def)
    next
      case (Inr events)
      have "keeps stays_ok no_error (for_each events (poll_one G sha cl)) ru1"
        by (rule runs.keeps_for_each) (use ok1 poll_one_keeps [OF assms(1,2)] in \<open>auto simp: stays_ok_def\<close>)
      then show ?thesis
        by (rule runs.keeps_after [rotated]) (use ok1 in \<open>simp_all add: poll_market_events_def Some Cons h Inr stays_ok_def\<close>)
    qed
  qed (use assms in \<open>simp add: keeps_def poll_market_events_def Some stays_ok_def\<close>)
qed (use assms in \<open>simp add: keeps_def poll_market_events_def stays_ok_def\<close>)

definition snaps_ok :: "(symbol, book_snapshot) dict \<Rightarrow> bool" where
  "snaps_ok snaps \<longleftrightarrow> (\<forall>sy snap. dict_get snaps sy = Some snap \<longrightarrow> snapshot_ok snap)"

lemma fetch_loop_ok:
  assumes "client_ok cl" "runner_ok ru" "snaps_ok snaps"
  shows "\<exists>ru' snaps'. fetch_loop cl sys snaps ru = (ru', Inr snaps') \<and> runner_ok ru' \<and> snaps_ok snaps'
    \<and> ru_store ru' = ru_store ru"
  using assms(2,3)
proof (induction sys arbitrary: ru snaps)
  case (Cons sy sys)
  obtain ru1 r where h: "http (cl_fetch_book cl sy) ru = (ru1, r)" by force
  have ok1: "runner_ok ru1" by (rule http_ok [OF Cons.prems(1) h])
  have api: "case r of Inl e \<Rightarrow> is_api_error e | Inr snap \<Rightarrow> snapshot_ok snap"
    by (rule api_callD [OF _ h]) (use assms(1) in \<open>simp add: client_ok_def\<close>)
  show ?case
  proof (cases r)
    case (Inl e)
    then show ?thesis using api Cons.IH [OF runner_ok_simps(4) [OF ok1] Cons.prems(2)] http_fields(4) [OF h]
      by (simp add: h)
  next
    case (Inr snap)
    have "snaps_ok (dict_set snaps sy snap)"
      using Cons.prems(2) api Inr by (auto simp: snaps_ok_def dict_simps)
    from Cons.IH [OF ok1 this] show ?thesis using http_fields(4) [OF h] by (simp add: h Inr)
  qed
qed simp

lemma start_rest_store [simp]: "ru_store (start_rest intents ru) = ru_store ru"
  by (induction intents arbitrary: ru) (auto simp: start_http_def submit_to_pool_def)

lemma start_rest_cursor [simp]: "ru_cursor (start_rest intents ru) = ru_cursor ru"
  by (induction intents arbitrary: ru) (auto simp: start_http_def submit_to_pool_def)

lemma consider_one_ok:
  assumes "prng_ok G" "runner_ok ru" "i < length (ru_store ru)" "snaps_ok snaps"
  obtains ru' v where "consider_one G snaps i ru = (ru', Inr v)" "runner_ok ru'"
    "length (ru_store ru') = length (ru_store ru)" "ru_cursor ru' = ru_cursor ru"
proof (cases "dict_get snaps (trader_symbol (ru_store ru ! i))")
  case None
  then show ?thesis using that assms(2) by (cases "ru_concurrency ru \<le> ru_pending ru") (auto simp: consider_one_def)
next
  case (Some snap)
  have snap: "snapshot_ok snap" using assms(4) Some by (auto simp: snaps_ok_def)
  have tr: "trader_ok (ru_store ru ! i)" using assms(2,3) by (simp add: runner_ok_def team_ok_def)
  obtain t "is" where n: "next_intents G (ru_tick ru) snap (ru_store ru ! i) = (t, Inr is)"
    using next_intents_sends [OF assms(1) tr snap, of "ru_tick ru"]
    by (auto simp: sends_valid_def split: prod.splits sum.splits)
  have ok: "runner_ok (ru\<lparr>ru_store := (ru_store ru)[i := t]\<rparr>)" by (rule act_ok [OF assms(1-3) snap n])
  show ?thesis
  proof (cases "ru_concurrency ru \<le> ru_pending ru \<or> ru_slots ru < 1")
    case True
    then show ?thesis using that [of ru] assms(2) Some by (auto simp: consider_one_def)
  next
    case False
    show ?thesis
    proof (cases "is")
      case Nil
      have "ru\<lparr>ru_slots := ru_slots ru - 1, ru_store := (ru_store ru)[i := t], ru_slots := ru_slots ru\<rparr>
          = ru\<lparr>ru_store := (ru_store ru)[i := t]\<rparr>" by simp
      then show ?thesis using that False Some n Nil ok by (simp add: consider_one_def Let_def)
    next
      case (Cons intent intents)
      let ?ru2 = "ru\<lparr>ru_slots := ru_slots ru - 1, ru_store := (ru_store ru)[i := t]\<rparr>"
      have swap: "?ru2 = ru\<lparr>ru_store := (ru_store ru)[i := t], ru_slots := ru_slots ru - 1\<rparr>" by simp
      have "runner_ok (submit_to_pool (SubmitJob intent (ru_tick ru)) ?ru2)"
        unfolding swap using submit_to_pool_ok [OF ok, of "SubmitJob intent (ru_tick ru)"] False by simp
      then have "runner_ok (start_rest intents (submit_to_pool (SubmitJob intent (ru_tick ru)) ?ru2))"
        by (rule start_rest_ok)
      then show ?thesis using that False Some n Cons by (simp add: consider_one_def Let_def submit_to_pool_def)
    qed
  qed
qed

lemma enqueue_loop_ok:
  assumes "prng_ok G" "runner_ok ru" "ru_store ru \<noteq> []" "snaps_ok snaps"
  shows "\<exists>ru' n. enqueue_loop G snaps offsets considered ru = (ru', Inr n) \<and> runner_ok ru'
    \<and> considered \<le> n \<and> n \<le> considered + length offsets
    \<and> length (ru_store ru') = length (ru_store ru) \<and> ru_cursor ru' = ru_cursor ru"
  using assms(2,3)
proof (induction offsets arbitrary: considered ru)
  case (Cons offset offsets)
  let ?i = "(ru_cursor ru + offset) mod length (ru_store ru)"
  have "?i < length (ru_store ru)" using Cons.prems(2) by simp
  then obtain ru1 v where c: "consider_one G snaps ?i ru = (ru1, Inr v)" "runner_ok ru1"
    "length (ru_store ru1) = length (ru_store ru)" "ru_cursor ru1 = ru_cursor ru"
    by (rule consider_one_ok [OF assms(1) Cons.prems(1) _ assms(4)])
  have "ru_store ru1 \<noteq> []" using c(3) Cons.prems(2) by auto
  from Cons.IH [OF c(2) this, of "Suc considered"] c show ?case by (cases v) auto
qed simp

lemma tick_once_keeps:
  assumes "prng_ok G" "client_ok cl" "runner_ok ru"
  shows "keeps stays_ok no_error (tick_once G sha cl now) ru"
proof -
  let ?ru0 = "ru\<lparr>ru_tick := ru_tick ru + 1\<rparr>"
  have ok0: "runner_ok ?ru0" using assms(3) by simp
  have "keeps stays_ok no_error (seq_call (poll_market_events G sha cl) (\<lambda>_ ru1.
     seq_call (fetch_snapshots cl) (\<lambda>snaps. enqueue_due_intents G snaps)
       (expire_orders now (notify_before_tick G sha now ru1)))) ?ru0"
  proof (rule runs.keeps_seq [OF poll_market_events_keeps [OF assms(1,2) ok0]])
    fix ru1 assume "stays_ok ?ru0 ru1"
    then have "runner_ok ru1" by (simp add: stays_ok_def)
    then have ok2: "runner_ok (expire_orders now (notify_before_tick G sha now ru1))" (is "runner_ok ?ru2")
      unfolding expire_orders_def by (intro start_cancels_ok notify_before_tick_ok assms(1))
    obtain ru3 snaps where f: "fetch_snapshots cl ?ru2 = (ru3, Inr snaps)" "runner_ok ru3" "snaps_ok snaps"
    proof -
      have "snaps_ok []" by (simp add: snaps_ok_def)
      from fetch_loop_ok [OF assms(2) ok2 this, of "rev (remdups (rev (map trader_symbol (ru_store ?ru2))))"] that
      show thesis unfolding fetch_snapshots_def by blast
    qed
    have "\<exists>ru4. enqueue_due_intents G snaps ru3 = (ru4, Inr ()) \<and> runner_ok ru4"
    proof (cases "ru_store ru3 = []")
      case False
      from enqueue_loop_ok [OF assms(1) f(2) False f(3), of "[0..<length (ru_store ru3)]" 0]
      show ?thesis using False by (auto simp: enqueue_due_intents_def Let_def)
    qed (use f in \<open>simp add: enqueue_due_intents_def\<close>)
    then show "keeps stays_ok no_error (\<lambda>ru1.
       seq_call (fetch_snapshots cl) (\<lambda>snaps. enqueue_due_intents G snaps)
         (expire_orders now (notify_before_tick G sha now ru1))) ru1"
      using f(1) by (auto simp: keeps_def seq_call_def stays_ok_def)
  qed
  then show ?thesis by (rule runs.keeps_after [rotated]) (use ok0 in \<open>simp_all add: tick_once_def stays_ok_def\<close>)
qed

section \<open>Interleavings\<close>

text \<open>
  The parts of the main thread, one by one, and the parts of the jobs, in any order: the pool's
  threads may run between any two of them. The main thread's parts are taken with any
  arguments, so that every order the code produces is among the runs.
\<close>

inductive runner_reach ::
  "'r prng \<Rightarrow> (nat list \<Rightarrow> nat list) \<Rightarrow> 'b client \<Rightarrow> ('r, 'b) runner \<Rightarrow> bool" for G sha cl where
  start: "make_runner b store c concurrency = Inr ru \<Longrightarrow> team_ok store c \<Longrightarrow> runner_reach G sha cl ru"
| session: "runner_reach G sha cl ru \<Longrightarrow> runner_reach G sha cl (set_market_session_open opened ru)"
| next_tick: "runner_reach G sha cl ru \<Longrightarrow> runner_reach G sha cl (ru\<lparr>ru_tick := ru_tick ru + 1\<rparr>)"
| poll: "runner_reach G sha cl ru \<Longrightarrow> poll_one G sha cl e ru = (ru', r) \<Longrightarrow> runner_reach G sha cl ru'"
| call: "runner_reach G sha cl ru \<Longrightarrow> runner_reach G sha cl (ru\<lparr>ru_backend := b\<rparr>)"
| failure: "runner_reach G sha cl ru \<Longrightarrow> runner_reach G sha cl (count_failure ru)"
| before: "runner_reach G sha cl ru \<Longrightarrow> runner_reach G sha cl (notify_before_tick G sha now ru)"
| launch: "runner_reach G sha cl ru \<Longrightarrow> start_http j ru = (ru', started) \<Longrightarrow> runner_reach G sha cl ru'"
| participant: "runner_reach G sha cl ru \<Longrightarrow> i < length (ru_store ru) \<Longrightarrow> snaps_ok snaps \<Longrightarrow>
    consider_one G snaps i ru = (ru', r) \<Longrightarrow> runner_reach G sha cl ru'"
| cursor: "runner_reach G sha cl ru \<Longrightarrow> runner_reach G sha cl (ru\<lparr>ru_cursor := n\<rparr>)"
| job: "runner_reach G sha cl ru \<Longrightarrow> k < length (ru_pool ru) \<Longrightarrow> runner_reach G sha cl (job_step cl now k ru)"

lemma make_runner_ok:
  assumes "make_runner b store c concurrency = Inr ru" "team_ok store c"
  shows "runner_ok ru"
  using assms by (auto simp: make_runner_def runner_ok_def slots_ok_def books_ok_def tracked_ok_def session_ok_def
      split: if_splits)

lemma runner_reach_ok:
  assumes "runner_reach G sha cl ru" "prng_ok G" "client_ok cl"
  shows "runner_ok ru"
  using assms
proof (induction rule: runner_reach.induct)
  case (start b store c concurrency ru)
  show ?case by (rule make_runner_ok [OF start.hyps])
next
  case (session ru opened)
  show ?case by (rule session_switch_ok [OF session.IH [OF session.prems]])
next
  case (next_tick ru)
  show ?case by (rule runner_ok_simps(3) [OF next_tick.IH [OF next_tick.prems]])
next
  case (poll ru e ru' r)
  show ?case using keeps_state [OF poll_one_keeps [OF poll.prems poll.IH [OF poll.prems]] poll.hyps(2)]
    by (simp add: stays_ok_def)
next
  case (call ru b)
  show ?case by (rule runner_ok_simps(1) [OF call.IH [OF call.prems]])
next
  case (failure ru)
  show ?case by (rule runner_ok_simps(4) [OF failure.IH [OF failure.prems]])
next
  case (before ru now)
  show ?case by (rule notify_before_tick_ok [OF before.prems(1) before.IH [OF before.prems]])
next
  case (launch ru j ru' started)
  show ?case by (rule start_http_ok [OF launch.IH [OF launch.prems] launch.hyps(2)])
next
  case (participant ru i snaps ru' r)
  show ?case
    by (rule consider_one_ok [OF participant.prems(1) participant.IH [OF participant.prems] participant.hyps(2,3)])
      (use participant.hyps(4) in simp)
next
  case (cursor ru n)
  show ?case by (rule runner_ok_simps(2) [OF cursor.IH [OF cursor.prems]])
next
  case (job ru k now)
  show ?case by (rule job_step_ok [OF job.IH [OF job.prems] job.hyps(2)])
qed


section \<open>Waiting and closing\<close>

lemma job_parts_le: "1 \<le> job_parts j \<and> job_parts j \<le> 2"
  by (cases j) simp_all

lemma pool_work_le: "pool_work ru \<le> 2 * length (ru_pool ru)"
proof -
  have "sum_list (map job_parts js) \<le> 2 * length js" for js
  proof (induction js)
    case (Cons j js)
    then show ?case using job_parts_le [of j] by simp
  qed simp
  then show ?thesis by (simp add: pool_work_def)
qed



section \<open>A concrete run\<close>

definition demo_client :: "nat client" where
  "demo_client = \<lparr>cl_fetch_book = (\<lambda>sy n. (n, Inr demo_snapshot)),
     cl_submit_order = (\<lambda>intent n. (Suc n, Inr \<lparr>so_id = replicate n CHR ''x'', so_remaining = 1\<rparr>)),
     cl_fetch_events = (\<lambda>sys n. (n, Inr [])), cl_acknowledge = (\<lambda>eid n. (n, Inr ())),
     cl_cancel_order = (\<lambda>oid sy n. (n, Inr ''CANCELED''))\<rparr>"

lemma demo_client_ok: "client_ok demo_client"
  by (simp add: client_ok_def demo_client_def demo_snapshot_ok)

definition demo_runner :: "(int, nat) runner" where
  "demo_runner = (case make_runner (0::nat) demo_store (Some demo_coordinator) 2 of Inr ru \<Rightarrow> ru)"

lemma demo_runner_made: "make_runner (0::nat) demo_store (Some demo_coordinator) 2 = Inr demo_runner"
  by (simp add: demo_runner_def make_runner_def)

lemma demo_team_ok: "team_ok demo_store (Some demo_coordinator)"
  using desk_reach_ok [OF demo_desk_reach demo_prng_ok] by (simp add: team_ok_def desk_store_ok)


end
