(* ===== verification/Runner_Loop.thy ===== *)
theory Runner_Loop
  imports Runner_Invariant
begin

text \<open>
  The main loop of the runner, \<open>run_until_stopped\<close>: cancelling everything leaves nothing in
  flight and no order tracked, a tick counts one tick, and the loop, once told to stop, returns
  with every order cancelled and the pool idle.
\<close>

section \<open>Cancelling everything\<close>

text \<open>A backend that answers every cancel.\<close>

definition cancels_answered :: "'b client \<Rightarrow> bool" where
  "cancels_answered cl \<longleftrightarrow> (\<forall>b oid sy. is_ok (snd (cl_cancel_order cl oid sy b)))"

fun cancel_target :: "job \<Rightarrow> string option" where
  "cancel_target (CancelJob oid) = Some oid"
| "cancel_target (CancelCall oid _) = Some oid"
| "cancel_target _ = None"

text \<open>Only cancels are in flight, and every tracked order is to be cancelled or in \<open>todo\<close>.\<close>

definition covered :: "string set \<Rightarrow> ('r, 'b) runner \<Rightarrow> bool" where
  "covered todo ru \<longleftrightarrow> (\<forall>j\<in>set (ru_pool ru). cancel_target j \<noteq> None)
     \<and> (\<forall>oid. dict_get (ru_outstanding ru) oid \<noteq> None \<longrightarrow> oid \<in> todo \<or> Some oid \<in> cancel_target ` set (ru_pool ru))"

lemma cancel_head_step:
  fixes now :: int and cl :: "'b client" and ru :: "('r, 'b) runner"
  defines "ru' \<equiv> job_step cl now 0 ru"
  assumes ans: "cancels_answered cl" and pool: "ru_pool ru = j # js" and cov: "covered todo ru"
  shows "covered todo ru'" "ru_tick ru' = ru_tick ru" "ru_concurrency ru' = ru_concurrency ru"
    "job_parts j = 1 \<Longrightarrow> ru_slots ru' = ru_slots ru + 1"
    "job_parts j = 2 \<Longrightarrow> ru_slots ru' = ru_slots ru \<and> (\<exists>i. ru_pool ru' = i # js \<and> job_parts i = 1)"
proof -
  have "cancel_target j \<noteq> None" using cov pool by (simp add: covered_def)
  then consider (job) oid where "j = CancelJob oid" | (call) oid sy where "j = CancelCall oid sy"
    by (cases j) auto
  then have "covered todo ru' \<and> ru_tick ru' = ru_tick ru \<and> ru_concurrency ru' = ru_concurrency ru
    \<and> (job_parts j = 1 \<longrightarrow> ru_slots ru' = ru_slots ru + 1)
    \<and> (job_parts j = 2 \<longrightarrow> ru_slots ru' = ru_slots ru \<and> (\<exists>i. ru_pool ru' = i # js \<and> job_parts i = 1))"
  proof cases
    case job
    then show ?thesis using cov pool by (simp add: ru'_def job_step_def next_part_def covered_def)
  next
    case call
    obtain ru1 r where h: "http (cl_cancel_order cl oid sy) ru = (ru1, r)" by force
    have "is_ok r" using ans h by (auto simp: cancels_answered_def http_def Let_def split: prod.splits) (metis snd_conv)
    then obtain status where r: "r = Inr status" by (cases r) auto
    have "ru' = end_job 0 (record_canceled oid status ru1)"
      by (simp add: ru'_def job_step_def pool call h r)
    then show ?thesis using cov pool call http_fields [OF h]
      by (auto simp: end_job_def record_canceled_def Let_def covered_def dict_simps split: if_splits)
  qed
  then show "covered todo ru'" "ru_tick ru' = ru_tick ru" "ru_concurrency ru' = ru_concurrency ru"
    "job_parts j = 1 \<Longrightarrow> ru_slots ru' = ru_slots ru + 1"
    "job_parts j = 2 \<Longrightarrow> ru_slots ru' = ru_slots ru \<and> (\<exists>i. ru_pool ru' = i # js \<and> job_parts i = 1)"
    by auto
qed

lemma covered_work:
  assumes "cancels_answered cl" "covered todo ru"
  shows "covered todo (work cl now n ru) \<and> ru_tick (work cl now n ru) = ru_tick ru
    \<and> ru_concurrency (work cl now n ru) = ru_concurrency ru"
  using assms(2)
proof (induction n arbitrary: ru)
  case (Suc n)
  show ?case
  proof (cases "ru_pool ru")
    case (Cons j js)
    note step = cancel_head_step [OF assms(1) Cons Suc.prems, of now]
    from Suc.IH [OF step(1)] step(2,3) Cons show ?thesis by simp
  qed (use Suc.prems in simp)
qed simp

lemma start_blocking_covered:
  fixes now :: int and cl :: "'b client" and oid :: string and ru :: "('r, 'b) runner"
  defines "ru' \<equiv> start_blocking cl now (CancelJob oid) ru"
  assumes ans: "cancels_answered cl" and ok: "runner_ok ru" and cov: "covered (insert oid todo) ru"
  shows "covered todo ru' \<and> runner_ok ru' \<and> ru_tick ru' = ru_tick ru \<and> ru_concurrency ru' = ru_concurrency ru"
proof -
  let ?step = "\<lambda>ru. if ru_slots ru < 1 then work cl now 1 ru else ru"
  define ru1 where "ru1 = ?step ru"
  define ru2 where "ru2 = ?step ru1"
  have c1: "covered (insert oid todo) ru1 \<and> ru_tick ru1 = ru_tick ru \<and> ru_concurrency ru1 = ru_concurrency ru"
    using covered_work [OF ans cov, of now 1] cov by (simp add: ru1_def)
  then have c2: "covered (insert oid todo) ru2 \<and> ru_tick ru2 = ru_tick ru \<and> ru_concurrency ru2 = ru_concurrency ru"
    using covered_work [OF ans, of "insert oid todo" ru1 now 1] by (simp add: ru2_def)
  have ok1: "runner_ok ru1" using work_ok [OF ok] ok by (auto simp: ru1_def simp del: work.simps)
  then have ok2: "runner_ok ru2" using work_ok [OF ok1] ok1 by (auto simp: ru2_def simp del: work.simps)
  have free: "1 \<le> ru_slots ru2"
  proof (cases "ru_slots ru < 1")
    case True
    then have "ru_pool ru \<noteq> []" using ok by (auto simp: runner_ok_def slots_ok_def)
    then obtain j js where pool: "ru_pool ru = j # js" by (cases "ru_pool ru") auto
    note step = cancel_head_step [OF ans pool cov, of now]
    have r1: "ru1 = job_step cl now 0 ru" using True pool by (simp add: ru1_def)
    have nn: "0 \<le> ru_slots ru" using ok by (simp add: runner_ok_def slots_ok_def)
    consider "job_parts j = 1" | "job_parts j = 2" using job_parts_le [of j] by linarith
    then show ?thesis
    proof cases
      case 1
      then show ?thesis using step(4) nn by (simp add: ru2_def r1)
    next
      case 2
      then obtain i where i: "ru_slots ru1 = ru_slots ru" "ru_pool ru1 = i # js" "job_parts i = 1"
        using step(5) by (auto simp: r1)
      note step2 = cancel_head_step [OF ans i(2) conjunct1 [OF c1], of now]
      show ?thesis using step2(4) i True nn by (simp add: ru2_def)
    qed
  qed (simp add: ru1_def ru2_def)
  have "ru' = submit_to_pool (CancelJob oid) (ru2\<lparr>ru_slots := ru_slots ru2 - 1\<rparr>)"
    using free by (simp add: ru'_def start_blocking_def start_http_def Let_def flip: ru1_def ru2_def)
  then show ?thesis using c2 submit_to_pool_ok [OF ok2, of "CancelJob oid"] free
    by (auto simp: submit_to_pool_def covered_def)
qed

lemma cancel_each_covered:
  assumes "cancels_answered cl" "runner_ok ru" "covered (set oids) ru"
  shows "covered {} (cancel_each cl now oids ru) \<and> runner_ok (cancel_each cl now oids ru)
    \<and> ru_tick (cancel_each cl now oids ru) = ru_tick ru \<and> ru_concurrency (cancel_each cl now oids ru) = ru_concurrency ru"
  using assms(2,3)
proof (induction oids arbitrary: ru)
  case (Cons oid oids)
  have "covered (insert oid (set oids)) ru" using Cons.prems(2) by simp
  from start_blocking_covered [OF assms(1) Cons.prems(1) this, of now] Cons.IH show ?case by simp
qed simp

lemma work_settles:
  assumes "runner_ok ru" "2 * nat (ru_concurrency ru) \<le> patience"
  shows "ru_pool (work cl now patience ru) = []"
proof (rule work_idle)
  have "length (ru_pool ru) \<le> nat (ru_concurrency ru)"
    using assms(1) by (auto simp: runner_ok_def slots_ok_def)
  then show "pool_work ru \<le> patience" using pool_work_le [of ru] assms(2) by linarith
qed

section \<open>Ticks\<close>

text \<open>What leaves the tick and the concurrency alone.\<close>

definition steady :: "('r, 'b) runner \<Rightarrow> ('r, 'b) runner \<Rightarrow> bool" where
  "steady ru ru' \<longleftrightarrow> ru_tick ru' = ru_tick ru \<and> ru_concurrency ru' = ru_concurrency ru"

interpretation clock: call_frame steady
  by unfold_locales (auto simp: steady_def)

lemma steady_refl [simp]: "steady ru ru"
  by (simp add: steady_def)

lemma steady_trans: "steady a b \<Longrightarrow> steady b c \<Longrightarrow> steady a c"
  by (rule clock.frame_trans)

lemma steady_fields [simp]:
  "steady ru (ru'\<lparr>ru_store := x\<rparr>) = steady ru ru'" "steady ru (ru'\<lparr>ru_slots := i\<rparr>) = steady ru ru'"
  "steady ru (ru'\<lparr>ru_cursor := n\<rparr>) = steady ru ru'" "steady ru (count_failure ru') = steady ru ru'"
  "steady ru (end_job k ru') = steady ru ru'" "steady ru (next_part k j ru') = steady ru ru'"
  "steady ru (record_submitted now intent so ru') = steady ru ru'"
  "steady ru (record_canceled oid status ru') = steady ru ru'"
  "steady ru (submit_to_pool j ru') = steady ru ru'"
  "steady ru (set_market_session_open opened ru') = steady ru ru'"
  by (simp_all add: steady_def count_failure_def end_job_def next_part_def record_submitted_def Let_def
      record_canceled_def submit_to_pool_def set_market_session_open_def)

lemma http_steady: "http m ru = (ru', r) \<Longrightarrow> steady ru ru'"
  by (auto simp: steady_def)

lemma with_desk_steady: "with_desk co m ru = (ru', r) \<Longrightarrow> steady ru ru'"
  by (auto simp: with_desk_def steady_def split: prod.splits)

lemma notify_steady [simp]:
  "steady ru (notify_before_tick G sha now ru)" "steady ru (notify_after_submit now intent submitted tick ru)"
  by (auto simp: notify_before_tick_def notify_after_submit_def with_desk_def steady_def
      split: option.split prod.split)

lemma job_step_steady: "steady ru (job_step cl now k ru)"
  by (auto simp: job_step_def dest: http_steady split: job.split prod.split sum.split)

lemma work_steady: "steady ru (work cl now n ru)"
proof (induction n arbitrary: ru)
  case (Suc n)
  show ?case using steady_trans [OF job_step_steady Suc.IH] by simp
qed simp

lemma start_http_steady: "start_http j ru = (ru', started) \<Longrightarrow> steady ru ru'"
  by (auto simp: start_http_def split: if_splits)

lemma start_cancels_steady: "steady ru (start_cancels oids ru)"
proof (induction oids arbitrary: ru)
  case (Cons oid oids)
  obtain ru1 b where s: "start_http (CancelJob oid) ru = (ru1, b)" by force
  show ?case using steady_trans [OF start_http_steady [OF s] Cons.IH] start_http_steady [OF s] by (simp add: s)
qed simp

lemma start_rest_steady: "steady ru (start_rest intents ru)"
proof (induction intents arbitrary: ru)
  case (Cons intent intents)
  obtain ru1 b where s: "start_http (SubmitJob intent (ru_tick ru)) ru = (ru1, b)" by force
  show ?case using steady_trans [OF start_http_steady [OF s] Cons.IH] start_http_steady [OF s] by (simp add: s)
qed simp

definition any_error :: "py_error \<Rightarrow> bool" where
  "any_error e \<longleftrightarrow> True"

lemma keeps_any: "R s (fst (m s)) \<Longrightarrow> keeps R any_error m s"
  by (auto simp: keeps_def any_error_def split: prod.splits sum.splits)

lemma poll_one_steady: "keeps steady any_error (poll_one G sha cl e) ru"
proof (rule keeps_any, cases "ru_coordinator ru")
  case (Some co)
  let ?m = "apply_market_event G sha (pe_id e) (pe_symbol e) (pe_direction e) (pe_impact e)
                  (pe_headline e) (pe_source e) (ru_tick ru)"
  obtain ru1 r where w: "with_desk co ?m ru = (ru1, r)" by force
  obtain ru2 q where h: "http (cl_acknowledge cl (pe_id e)) ru1 = (ru2, q)" by force
  note s1 = with_desk_steady [OF w]
  note s2 = steady_trans [OF s1 http_steady [OF h]]
  show "steady ru (fst (poll_one G sha cl e ru))"
    using s1 s2 by (cases r; cases q) (simp_all add: poll_one_def Some w h)
qed (simp add: poll_one_def)

lemma poll_market_events_steady: "keeps steady any_error (poll_market_events G sha cl) ru"
proof (cases "ru_coordinator ru")
  case (Some co)
  show ?thesis
  proof (cases "event_symbols (ru_store ru, co)")
    case (Cons sy sys)
    obtain ru1 r where h: "http (cl_fetch_events cl (sy # sys)) ru = (ru1, r)" by force
    note s1 = http_steady [OF h]
    show ?thesis
    proof (cases r)
      case (Inl e)
      then show ?thesis using s1 by (intro keeps_any) (simp add: poll_market_events_def Some Cons h)
    next
      case (Inr events)
      have "keeps steady any_error (for_each events (poll_one G sha cl)) ru1"
        by (rule clock.keeps_for_each) (simp_all add: poll_one_steady)
      then show ?thesis
        by (rule clock.keeps_after [rotated]) (use s1 in \<open>simp_all add: poll_market_events_def Some Cons h Inr\<close>)
    qed
  qed (simp add: keeps_any poll_market_events_def Some)
qed (simp add: keeps_any poll_market_events_def)

lemma fetch_loop_steady: "steady ru (fst (fetch_loop cl sys snaps ru))"
proof (induction sys arbitrary: ru snaps)
  case (Cons sy sys)
  obtain ru1 r where h: "http (cl_fetch_book cl sy) ru = (ru1, r)" by force
  note s1 = http_steady [OF h]
  have "steady ru (fst (fetch_loop cl sys s' ru1))" "steady ru (fst (fetch_loop cl sys s' (count_failure ru1)))" for s'
    by (rule steady_trans [OF _ Cons.IH]; simp add: s1)+
  then show ?case using s1 by (cases r) (simp_all add: h)
qed simp

lemma consider_one_steady: "steady ru (fst (consider_one G snaps i ru))"
  by (auto simp: consider_one_def Let_def intro: steady_trans [OF _ start_rest_steady]
      split: option.split prod.split sum.split list.split)

lemma enqueue_loop_steady: "steady ru (fst (enqueue_loop G snaps offsets considered ru))"
proof (induction offsets arbitrary: considered ru)
  case (Cons offset offsets)
  let ?i = "(ru_cursor ru + offset) mod length (ru_store ru)"
  obtain ru1 r where c: "consider_one G snaps ?i ru = (ru1, r)" by force
  have s1: "steady ru ru1" using consider_one_steady [of ru G snaps ?i] by (simp add: c)
  show ?case using s1 steady_trans [OF s1 Cons.IH] by (simp add: c split: sum.split verdict.split)
qed simp

lemma enqueue_due_intents_steady: "steady ru (fst (enqueue_due_intents G snaps ru))"
  using enqueue_loop_steady [of ru G snaps "[0..<length (ru_store ru)]" 0]
  by (auto simp: enqueue_due_intents_def Let_def split: prod.split sum.split)


lemma tick_once_counts:
  assumes "prng_ok G" "client_ok cl" "runner_ok ru"
  shows "\<exists>ru'. tick_once G sha cl now ru = (ru', Inr ()) \<and> runner_ok ru'
    \<and> ru_tick ru' = ru_tick ru + 1 \<and> ru_concurrency ru' = ru_concurrency ru"
proof -
  let ?ru0 = "ru\<lparr>ru_tick := ru_tick ru + 1\<rparr>"
  let ?rest = "\<lambda>ru1. seq_call (fetch_snapshots cl) (\<lambda>snaps. enqueue_due_intents G snaps)
       (expire_orders now (notify_before_tick G sha now ru1))"
  have rest: "keeps steady any_error ?rest ru1" for ru1
  proof -
    let ?ru2 = "expire_orders now (notify_before_tick G sha now ru1)"
    have s2: "steady ru1 ?ru2"
      unfolding expire_orders_def by (rule steady_trans [OF _ start_cancels_steady]) simp
    have "keeps steady any_error (seq_call (fetch_snapshots cl) (\<lambda>snaps. enqueue_due_intents G snaps)) ?ru2"
      by (intro clock.keeps_seq keeps_any) (simp_all add: fetch_snapshots_def fetch_loop_steady enqueue_due_intents_steady)
    then show ?thesis by (rule clock.keeps_after [OF s2]) simp
  qed
  have k: "keeps steady any_error (seq_call (poll_market_events G sha cl) (\<lambda>_. ?rest)) ?ru0"
    by (intro clock.keeps_seq poll_market_events_steady rest)
  from tick_once_keeps [OF assms, of sha now]
  obtain ru' where r: "tick_once G sha cl now ru = (ru', Inr ())" "runner_ok ru'"
    by (cases rule: keeps_cases) (auto simp: stays_ok_def no_error_def)
  have "steady ?ru0 ru'" by (rule keeps_state [OF k, of ru' "Inr ()"]) (use r(1) in \<open>simp add: tick_once_def\<close>)
  then show ?thesis using r by (simp add: steady_def)
qed

section \<open>The run\<close>

lemma dict_get_keys: "dict_get d k \<noteq> None \<longleftrightarrow> k \<in> set (dict_keys d)"
  by (induction d) auto

lemma cancel_each_ok:
  assumes "runner_ok r"
  shows "runner_ok (cancel_each cl now oids r) \<and> steady r (cancel_each cl now oids r)"
  using assms
proof (induction oids arbitrary: r)
  case (Cons oid oids)
  let ?r1 = "if ru_slots r < 1 then work cl now 1 r else r"
  let ?r2 = "if ru_slots ?r1 < 1 then work cl now 1 ?r1 else ?r1"
  obtain r3 b where s: "start_http (CancelJob oid) ?r2 = (r3, b)" by force
  have "runner_ok ?r2" using Cons.prems by (simp add: work_ok del: work.simps)
  then have ok3: "runner_ok r3" by (rule start_http_ok [OF _ s])
  have "steady r ?r1" "steady ?r1 ?r2" by (simp_all add: work_steady del: work.simps)
  then have s3: "steady r r3" using start_http_steady [OF s] steady_trans by blast
  have e: "start_blocking cl now (CancelJob oid) r = r3" using s by (simp add: start_blocking_def Let_def del: work.simps)
  show ?case using Cons.IH [OF ok3] steady_trans [OF s3] by (simp add: e)
qed simp

lemma cancel_all_ok:
  assumes "runner_ok ru" "2 * nat (ru_concurrency ru) \<le> patience"
  obtains ru' where "cancel_all_open_orders cl now patience ru = (ru', Inr ())" "runner_ok ru'"
    "ru_pool ru' = []" "steady ru ru'" "cancels_answered cl \<Longrightarrow> ru_outstanding ru' = []"
proof -
  define ru1 where "ru1 = work cl now patience ru"
  define ru2 where "ru2 = cancel_each cl now (dict_keys (ru_outstanding ru1)) ru1"
  define ru3 where "ru3 = work cl now patience ru2"
  have p1: "ru_pool ru1 = []" unfolding ru1_def by (rule work_settles [OF assms])
  have ok1: "runner_ok ru1" unfolding ru1_def by (rule work_ok [OF assms(1)])
  have s1: "steady ru ru1" unfolding ru1_def by (rule work_steady)
  have ok2: "runner_ok ru2" and s2: "steady ru1 ru2" using cancel_each_ok [OF ok1] by (simp_all add: ru2_def)
  have c: "ru_concurrency ru2 = ru_concurrency ru" using s1 s2 by (simp add: steady_def)
  have p3: "ru_pool ru3 = []" unfolding ru3_def by (rule work_settles [OF ok2]) (use assms(2) c in simp)
  have ok3: "runner_ok ru3" unfolding ru3_def by (rule work_ok [OF ok2])
  have s3: "steady ru ru3" using steady_trans [OF steady_trans [OF s1 s2] work_steady] by (simp add: ru3_def)
  have "cancel_all_open_orders cl now patience ru = (ru3, Inr ())"
    using p1 p3 by (simp add: cancel_all_open_orders_def seq_call_def wait_for_idle_def Let_def
        flip: ru1_def ru2_def ru3_def)
  moreover have "ru_outstanding ru3 = []" if ans: "cancels_answered cl"
  proof -
    have "covered (set (dict_keys (ru_outstanding ru1))) ru1"
      using dict_get_keys [of "ru_outstanding ru1"] by (auto simp: covered_def p1)
    then have "covered {} ru2" unfolding ru2_def using cancel_each_covered [OF ans ok1] by blast
    then have "covered {} ru3" unfolding ru3_def using covered_work [OF ans] by blast
    then have "dict_get (ru_outstanding ru3) oid = None" for oid by (simp add: covered_def p3)
    then show ?thesis using dict_get_keys [of "ru_outstanding ru3"] by (cases "ru_outstanding ru3") auto
  qed
  ultimately show thesis using that ok3 p3 s3 by blast
qed


text \<open>
  An order that has expired is handed to the pool again at every tick until its cancel has
  answered: nothing remembers that a cancel is already in flight.
\<close>

lemma expired_cancelled_again:
  assumes "ru_outstanding ru = [(oid, tr)]" "tk_expires tr \<le> now" "1 \<le> ru_slots ru"
  shows "ru_pool (expire_orders now ru) = ru_pool ru @ [CancelJob oid]
    \<and> ru_outstanding (expire_orders now ru) = ru_outstanding ru"
  using assms by (simp add: expire_orders_def expired_ids_def start_http_def submit_to_pool_def)

text \<open>The intents of a participant that find no free slot are dropped, without a count.\<close>

lemma intents_without_slot_lost: "ru_slots ru < 1 \<Longrightarrow> start_rest intents ru = ru"
  by (cases intents) (simp_all add: start_http_def)

definition opens :: "(int \<Rightarrow> int) \<Rightarrow> market_mode \<Rightarrow> turn \<Rightarrow> bool" where
  "opens seoul mode tn \<longleftrightarrow> is_open seoul mode (Aware (tn_now tn)) = Inr True"

text \<open>The turns in which the loop ticks: those with an open market, until it is told to stop.\<close>

fun open_turns :: "(int \<Rightarrow> int) \<Rightarrow> market_mode \<Rightarrow> turn list \<Rightarrow> nat" where
  "open_turns seoul mode [] = 0"
| "open_turns seoul mode (tn # tns) =
     (if tn_stopped tn then 0
      else (if opens seoul mode tn then 1 else 0) + (if tn_wait_stopped tn then 0 else open_turns seoul mode tns))"

lemma is_open_aware: "is_open seoul mode (Aware i) = Inr (opens seoul mode tn)" if "tn_now tn = i"
  using that by (auto simp: opens_def is_open_def localize_def Let_def)

lemma turn_ok:
  assumes "prng_ok G" "client_ok cl" "runner_ok ru" "2 * nat (ru_concurrency ru) \<le> tn_patience tn"
  obtains ru' where
    "(if opens seoul mode tn then open_turn G sha seoul mode cl tn was_open ru
      else closed_turn seoul mode cl tn was_open ru) = (ru', Inr ())"
    "runner_ok ru'" "ru_tick ru' = ru_tick ru + (if opens seoul mode tn then 1 else 0)"
    "ru_concurrency ru' = ru_concurrency ru"
proof (cases "opens seoul mode tn")
  case True
  define ru1 where "ru1 = (if was_open then ru else set_market_session_open True ru)"
  have "runner_ok ru1" "steady ru ru1" using assms(3) session_switch_ok [of ru True] by (simp_all add: ru1_def)
  with tick_once_counts [OF assms(1,2), of ru1 sha "tn_clock tn"]
  obtain ru' where r: "tick_once G sha cl (tn_clock tn) ru1 = (ru', Inr ())" "runner_ok ru'"
    "ru_tick ru' = ru_tick ru + 1" "ru_concurrency ru' = ru_concurrency ru" by (auto simp: steady_def)
  have "open_turn G sha seoul mode cl tn was_open ru = (ru', Inr ())"
    using r(1) by (auto simp: open_turn_def seq_call_def session_date_def localize_def ru1_def Let_def split: if_splits)
  then show thesis using that True r by simp
next
  case False
  show thesis
  proof (cases was_open)
    case True
    obtain ru' where c: "cancel_all_open_orders cl (tn_clock tn) (tn_patience tn) ru = (ru', Inr ())" "runner_ok ru'"
      "steady ru ru'" by (rule cancel_all_ok [OF assms(3,4), of cl "tn_clock tn"])
    have "closed_turn seoul mode cl tn was_open ru = (set_market_session_open False ru', Inr ())"
      using c(1) True by (simp add: closed_turn_def seq_call_def session_date_def next_open_def localize_def Let_def)
    moreover have "steady ru (set_market_session_open False ru')" using c(3) by simp
    ultimately show thesis using that False session_switch_ok [OF c(2)] by (auto simp: steady_def)
  next
    case was: False
    have "closed_turn seoul mode cl tn was_open ru = (ru, Inr ())"
      using was by (simp add: closed_turn_def seq_call_def next_open_def localize_def Let_def)
    then show thesis using that False assms(3) by simp
  qed
qed

text \<open>What holds when the loop returns.\<close>

definition run_settled :: "'b client \<Rightarrow> int \<Rightarrow> ('r, 'b) runner \<Rightarrow> runner_status \<Rightarrow> bool" where
  "run_settled cl ticks ru st \<longleftrightarrow> runner_ok ru \<and> ru_pool ru = [] \<and> rs_in_flight st = 0
     \<and> ru_tick ru = ticks \<and> rs_ticks st = ticks
     \<and> (cancels_answered cl \<longrightarrow> ru_outstanding ru = [] \<and> rs_open_orders st = 0)"

lemma finish_settled:
  assumes "runner_ok ru" "2 * nat (ru_concurrency ru) \<le> tn_patience tn"
  shows "\<exists>ru' st. finish cl tn (cancel_all_open_orders cl (tn_clock tn) (tn_patience tn)) ru = (ru', Inr st)
    \<and> run_settled cl (ru_tick ru) ru' st"
proof -
  obtain ru' where c: "cancel_all_open_orders cl (tn_clock tn) (tn_patience tn) ru = (ru', Inr ())" "runner_ok ru'"
    "ru_pool ru' = []" "steady ru ru'" "cancels_answered cl \<Longrightarrow> ru_outstanding ru' = []"
    by (rule cancel_all_ok [OF assms, of cl "tn_clock tn"]) blast
  have "close_pool cl (tn_clock tn) ru' = ru'" using c(3) by (simp add: close_pool_def pool_work_def)
  moreover have "ru_pending ru' = 0" using c(2,3) by (simp add: runner_ok_def slots_ok_def)
  ultimately show ?thesis using c
    by (auto simp: finish_def run_settled_def runner_status_of_def steady_def)
qed

text \<open>
  Once told to stop, the main loop returns, whatever the market's hours: it has ticked exactly
  once per turn with an open market, nothing is in flight, and when the backend answers every
  cancel no order of the runner is left. The assumptions are a well-formed runner, a backend that
  fails only with API errors, and deadlines that leave the pool two parts per slot.
\<close>

theorem run_stops_settled:
  assumes "prng_ok G" "client_ok cl" "runner_ok ru"
    and "\<forall>tn\<in>set tns. 2 * nat (ru_concurrency ru) \<le> tn_patience tn"
    and "\<exists>tn\<in>set tns. tn_stopped tn \<or> tn_wait_stopped tn"
  shows "\<exists>ru' st. run_until_stopped G sha seoul mode cl tns was_open ru = Some (ru', Inr st)
    \<and> run_settled cl (ru_tick ru + int (open_turns seoul mode tns)) ru' st"
  using assms(3-)
proof (induction tns arbitrary: was_open ru)
  case (Cons tn tns)
  have pat: "2 * nat (ru_concurrency ru) \<le> tn_patience tn" using Cons.prems(2) by simp
  show ?case
  proof (cases "tn_stopped tn")
    case True
    then show ?thesis using finish_settled [OF Cons.prems(1) pat, of cl] by simp
  next
    case False
    obtain ru1 where t: "(if opens seoul mode tn then open_turn G sha seoul mode cl tn was_open ru
        else closed_turn seoul mode cl tn was_open ru) = (ru1, Inr ())" "runner_ok ru1"
      "ru_tick ru1 = ru_tick ru + (if opens seoul mode tn then 1 else 0)" "ru_concurrency ru1 = ru_concurrency ru"
      by (rule turn_ok [where seoul = seoul and mode = mode and was_open = was_open and sha = sha,
            OF assms(1,2) Cons.prems(1) pat])
    define ru2 where "ru2 = work cl (tn_clock tn) (tn_worked tn) ru1"
    have ok2: "runner_ok ru2" unfolding ru2_def by (rule work_ok [OF t(2)])
    have s2: "ru_tick ru2 = ru_tick ru1" "ru_concurrency ru2 = ru_concurrency ru"
      using work_steady [of ru1 cl "tn_clock tn" "tn_worked tn"] t(4) by (simp_all add: ru2_def steady_def)
    have run: "run_until_stopped G sha seoul mode cl (tn # tns) was_open ru =
      (if tn_wait_stopped tn then Some (finish cl tn (cancel_all_open_orders cl (tn_clock tn) (tn_patience tn)) ru2)
       else run_until_stopped G sha seoul mode cl tns (opens seoul mode tn) ru2)"
      using False t(1) by (simp add: is_open_aware Let_def ru2_def)
    show ?thesis
    proof (cases "tn_wait_stopped tn")
      case True
      have "2 * nat (ru_concurrency ru2) \<le> tn_patience tn" using pat s2 by simp
      from finish_settled [OF ok2 this, of cl] show ?thesis
        using True False s2 t(3) by (auto simp: run simp del: run_until_stopped.simps)
    next
      case wait: False
      have "\<forall>tn\<in>set tns. 2 * nat (ru_concurrency ru2) \<le> tn_patience tn"
        "\<exists>tn\<in>set tns. tn_stopped tn \<or> tn_wait_stopped tn" using Cons.prems(2,3) s2 False wait by auto
      from Cons.IH [OF ok2 this, of "opens seoul mode tn"] show ?thesis
        using wait False s2 t(3) by (auto simp: run add_ac simp del: run_until_stopped.simps split: if_splits)
    qed
  qed
qed simp


lemma run_stops_settled_witness:
  "\<exists>ru' st. run_until_stopped demo_prng id (\<lambda>_. 0) AlwaysOpen demo_client
       [\<lparr>tn_stopped = False, tn_now = 0, tn_clock = 0, tn_patience = 4, tn_worked = 1, tn_wait_stopped = False\<rparr>,
        \<lparr>tn_stopped = False, tn_now = 9, tn_clock = 9, tn_patience = 4, tn_worked = 0, tn_wait_stopped = True\<rparr>]
       False demo_runner = Some (ru', Inr st)
     \<and> rs_ticks st = 2 \<and> rs_open_orders st = 0 \<and> rs_in_flight st = 0"
proof -
  let ?tns = "[\<lparr>tn_stopped = False, tn_now = 0, tn_clock = 0, tn_patience = 4, tn_worked = 1, tn_wait_stopped = False\<rparr>,
        \<lparr>tn_stopped = False, tn_now = 9, tn_clock = 9, tn_patience = 4, tn_worked = 0, tn_wait_stopped = True\<rparr>]"
  have c: "ru_concurrency demo_runner = 2" "ru_tick demo_runner = 0"
    by (simp_all add: demo_runner_def make_runner_def)
  have ok: "runner_ok demo_runner" by (rule make_runner_ok [OF demo_runner_made demo_team_ok])
  have t: "open_turns (\<lambda>_. 0) AlwaysOpen ?tns = 2"
    by (simp add: opens_def is_open_def localize_def open_local_def Let_def)
  have a: "cancels_answered demo_client" by (simp add: cancels_answered_def demo_client_def)
  have "\<forall>tn\<in>set ?tns. 2 * nat (ru_concurrency demo_runner) \<le> tn_patience tn"
    "\<exists>tn\<in>set ?tns. tn_stopped tn \<or> tn_wait_stopped tn" using c by simp_all
  from run_stops_settled [OF demo_prng_ok demo_client_ok ok this, of id "\<lambda>_. 0" AlwaysOpen False]
  show ?thesis unfolding run_settled_def t c(2) using a by auto
qed

end
