(* ===== verification/Event_Inbox.thy ===== *)
theory Event_Inbox
  imports Market_Session "HOL-Library.List_Lexorder" "HOL-Library.Char_ord"
begin

text \<open>
  The inbox of market events of the backend: \<open>MarketEventInbox\<close> of \<open>models.py\<close>, the
  serializer of an ingested event in \<open>serializers.py\<close>, and the endpoints of \<open>views.py\<close>
  that ingest an event, hand the pending ones to a runner and take its acknowledgement.

  The table is a dictionary from event ids to rows. \<open>received_at\<close> and \<open>updated_at\<close> are left
  out, no query here reads them. Times are microseconds since the epoch; the text that
  \<open>isoformat\<close> makes of them in a response is left out. What the fields of a serializer accept
  is the predicate \<open>declared_fields\<close>, on the values after trimming.
\<close>

section \<open>The table\<close>

datatype event_state = PENDING | DISPATCHED | STALE

fun state_value :: "event_state \<Rightarrow> string" where
  "state_value PENDING = ''pending''"
| "state_value DISPATCHED = ''dispatched''"
| "state_value STALE = ''stale''"

record market_event =
  me_id :: string
  me_symbol :: symbol
  me_type :: string
  me_direction :: string
  me_confidence :: rat
  me_impact :: string
  me_occurred :: "int option"
  me_detected :: int
  me_source :: string
  me_source_item :: string
  me_headline :: string

record inbox_event = market_event +
  me_state :: event_state

type_synonym inbox = "(string, inbox_event) dict"

section \<open>Ingestion\<close>

definition directions :: "string list" where
  "directions = [''BUY'', ''SELL'', ''MIXED'']"

definition impacts :: "string list" where
  "impacts = [''low'', ''medium'', ''high'']"

definition declared_fields :: "market_event \<Rightarrow> bool" where
  "declared_fields e \<longleftrightarrow> text_field 255 (me_id e)
     \<and> length (me_symbol e) = 6 \<and> list_all is_digit (me_symbol e)
     \<and> text_field 64 (me_type e) \<and> me_direction e \<in> set directions
     \<and> 0 \<le> me_confidence e \<and> me_confidence e \<le> 1 \<and> me_impact e \<in> set impacts
     \<and> text_field 64 (me_source e) \<and> length (me_source_item e) \<le> 255"

definition ingest_validate :: "market_event \<Rightarrow> py_error + market_event" where
  "ingest_validate e =
     (case me_occurred e of
        Some t \<Rightarrow> if me_detected e < t then Inl (ValidationError ''detected_at must not be before occurred_at'')
                  else Inr e
      | None \<Rightarrow> Inr e)"

text \<open>\<open>_market_event_matches\<close> compares every field of the payload.\<close>

definition market_event_matches :: "inbox_event \<Rightarrow> market_event \<Rightarrow> bool" where
  "market_event_matches old e \<longleftrightarrow>
     me_symbol old = me_symbol e \<and> me_type old = me_type e \<and> me_direction old = me_direction e
     \<and> me_confidence old = me_confidence e \<and> me_impact old = me_impact e \<and> me_occurred old = me_occurred e
     \<and> me_detected old = me_detected e \<and> me_source old = me_source e
     \<and> me_source_item old = me_source_item e \<and> me_headline old = me_headline e"

text \<open>The responses: the status code and the body.\<close>

datatype inbox_reply =
    EventReply int string string event_state
  | DetailReply int string
  | PendingReply bool "market_event list"

definition ingest_market_event :: "market_event \<Rightarrow> (inbox, inbox_reply) action" where
  "ingest_market_event e ib =
     (if \<not> declared_fields e then (ib, Inl (ValidationError ''invalid field''))
      else case ingest_validate e of
        Inl err \<Rightarrow> (ib, Inl err)
      | Inr e \<Rightarrow>
          (case dict_get ib (me_id e) of
             None \<Rightarrow> (dict_set ib (me_id e) (market_event.extend e \<lparr>me_state = PENDING\<rparr>),
                       Inr (EventReply 201 (me_id e) ''accepted'' PENDING))
           | Some old \<Rightarrow>
               if \<not> market_event_matches old e
               then (ib, Inr (DetailReply 409 ''event_id already exists with a different payload''))
               else (ib, Inr (EventReply 200 (me_id e) ''duplicate'' (me_state old)))))"

section \<open>Hand-out\<close>

definition parse_event_symbols :: "string \<Rightarrow> py_error + symbol list" where
  "parse_event_symbols raw =
     (let symbols = rev (remdups (rev (filter (\<lambda>v. v \<noteq> []) (map py_strip (py_split raw (CHR '','')))))) in
      if 100 < length symbols then Inl (ValidationError ''at most 100 symbols are allowed'')
      else if list_ex (\<lambda>sy. length sy \<noteq> 6 \<or> \<not> py_isdigit sy) symbols
      then Inl (ValidationError ''symbols must be six-digit stock codes'')
      else Inr symbols)"

definition reference_time :: "'a market_event_scheme \<Rightarrow> int" where
  "reference_time e = (case me_occurred e of Some t \<Rightarrow> t | None \<Rightarrow> me_detected e)"

definition mark_stale_market_events :: "int \<Rightarrow> int \<Rightarrow> inbox \<Rightarrow> inbox" where
  "mark_stale_market_events max_age now ib =
     (let cutoff = now - max_age * 1000000
      in map (\<lambda>(i, e). (i, if me_state e = PENDING \<and> reference_time e < cutoff then e\<lparr>me_state := STALE\<rparr> else e)) ib)"

definition dispatch_payload :: "inbox_event \<Rightarrow> market_event" where
  "dispatch_payload e = market_event.truncate e"

definition pending_query :: "symbol list \<Rightarrow> inbox \<Rightarrow> inbox_event list" where
  "pending_query symbols ib =
     take 100 (sort_key (\<lambda>e. (me_detected e, me_id e))
       (filter (\<lambda>e. me_state e = PENDING \<and> me_symbol e \<in> set symbols) (map snd ib)))"

definition pending_market_events ::
  "(int \<Rightarrow> int) \<Rightarrow> market_mode \<Rightarrow> int \<Rightarrow> string \<Rightarrow> int \<Rightarrow> int \<Rightarrow> (inbox, inbox_reply) action" where
  "pending_market_events seoul mode max_age raw now now2 ib =
     (case parse_event_symbols raw of
        Inl err \<Rightarrow> (ib, Inl err)
      | Inr [] \<Rightarrow> (ib, Inl (ValidationError ''at least one six-digit symbol is required''))
      | Inr symbols \<Rightarrow>
          (case is_open seoul mode (Aware now) of
             Inl err \<Rightarrow> (ib, Inl err)
           | Inr False \<Rightarrow> (ib, Inr (PendingReply False []))
           | Inr True \<Rightarrow>
               (let ib' = mark_stale_market_events max_age now2 ib
                in (ib', Inr (PendingReply True (map dispatch_payload (pending_query symbols ib')))))))"

section \<open>Acknowledgement\<close>

definition acknowledge_market_event :: "string \<Rightarrow> (inbox, inbox_reply) action" where
  "acknowledge_market_event i ib =
     (case dict_get ib i of
        None \<Rightarrow> (ib, Inl (NotFound ''no MarketEventInbox matches the given query''))
      | Some e \<Rightarrow>
          (case me_state e of
             STALE \<Rightarrow> (ib, Inr (EventReply 409 (me_id e) ''event is stale'' STALE))
           | DISPATCHED \<Rightarrow> (ib, Inr (EventReply 200 (me_id e) ''duplicate'' DISPATCHED))
           | PENDING \<Rightarrow>
               (dict_set ib i (e\<lparr>me_state := DISPATCHED\<rparr>),
                Inr (EventReply 200 (me_id e) ''acknowledged'' DISPATCHED))))"

section \<open>Runs of requests\<close>

datatype inbox_request =
    Ingest market_event
  | Pending string int int
  | Acknowledge string

definition serve_request ::
  "(int \<Rightarrow> int) \<Rightarrow> market_mode \<Rightarrow> int \<Rightarrow> inbox_request \<Rightarrow> (inbox, inbox_reply) action" where
  "serve_request seoul mode max_age req =
     (case req of
        Ingest e \<Rightarrow> ingest_market_event e
      | Pending raw now now2 \<Rightarrow> pending_market_events seoul mode max_age raw now now2
      | Acknowledge i \<Rightarrow> acknowledge_market_event i)"

fun inbox_run ::
  "(int \<Rightarrow> int) \<Rightarrow> market_mode \<Rightarrow> int \<Rightarrow> inbox_request list \<Rightarrow> inbox \<Rightarrow> inbox \<times> (py_error + inbox_reply) list" where
  "inbox_run seoul mode max_age [] ib = (ib, [])"
| "inbox_run seoul mode max_age (req # reqs) ib =
     (let (ib1, r) = serve_request seoul mode max_age req ib;
          (ib2, rs) = inbox_run seoul mode max_age reqs ib1
      in (ib2, r # rs))"

text \<open>The ids of the events that a response hands to a runner.\<close>

definition handed_out :: "py_error + inbox_reply \<Rightarrow> string set" where
  "handed_out r = (case r of Inr (PendingReply opened es) \<Rightarrow> me_id ` set es | _ \<Rightarrow> {})"

section \<open>Facts\<close>

definition inbox_ok :: "inbox \<Rightarrow> bool" where
  "inbox_ok ib \<longleftrightarrow> dict_ok ib \<and> (\<forall>(i, e)\<in>set ib. me_id e = i)"

text \<open>What a request may do to a row: the payload stays, only a pending row changes its state.\<close>

definition row_le :: "inbox_event \<Rightarrow> inbox_event \<Rightarrow> bool" where
  "row_le e e' \<longleftrightarrow> market_event.truncate e' = market_event.truncate e \<and> (me_state e \<noteq> PENDING \<longrightarrow> me_state e' = me_state e)"

definition inbox_le :: "inbox \<Rightarrow> inbox \<Rightarrow> bool" where
  "inbox_le ib ib' \<longleftrightarrow> inbox_ok ib' \<and> (\<forall>i e. dict_get ib i = Some e \<longrightarrow> (\<exists>e'. dict_get ib' i = Some e' \<and> row_le e e'))"

lemma row_le_refl [simp]: "row_le e e"
  by (simp add: row_le_def)

lemma row_le_trans: "row_le e1 e2 \<Longrightarrow> row_le e2 e3 \<Longrightarrow> row_le e1 e3"
  by (simp add: row_le_def)

lemma inbox_le_refl [simp]: "inbox_le ib ib = inbox_ok ib"
  by (simp add: inbox_le_def)

lemma inbox_le_trans: "inbox_le a b \<Longrightarrow> inbox_le b c \<Longrightarrow> inbox_le a c"
  unfolding inbox_le_def using row_le_trans by metis

lemma inbox_ok_iff: "inbox_ok ib \<longleftrightarrow> dict_ok ib \<and> (\<forall>i e. dict_get ib i = Some e \<longrightarrow> me_id e = i)"
  by (auto simp: inbox_ok_def)

lemma inbox_ok_set: "inbox_ok ib \<Longrightarrow> me_id e = i \<Longrightarrow> inbox_ok (dict_set ib i e)"
  unfolding inbox_ok_iff by (simp only: dict_ok_set dict_simps fun_upd_apply) auto

lemma map_row_get: "dict_get (map (\<lambda>(i, e). (i, f e)) ib) i = map_option f (dict_get ib i)"
  by (induction ib) auto

lemma mark_stale_get:
  "dict_get (mark_stale_market_events max_age now ib) i =
     map_option (\<lambda>e. if me_state e = PENDING \<and> reference_time e < now - max_age * 1000000
                     then e\<lparr>me_state := STALE\<rparr> else e) (dict_get ib i)"
  unfolding mark_stale_market_events_def Let_def by (rule map_row_get)

lemma mark_stale_le:
  assumes "inbox_ok ib"
  shows "inbox_le ib (mark_stale_market_events max_age now ib)"
proof -
  have "map fst (mark_stale_market_events max_age now ib) = map fst ib"
    by (simp add: mark_stale_market_events_def Let_def case_prod_beta comp_def)
  then have "inbox_ok (mark_stale_market_events max_age now ib)"
    using assms unfolding inbox_ok_iff by (auto simp: mark_stale_get)
  then show ?thesis by (auto simp: inbox_le_def mark_stale_get row_le_def market_event.truncate_def)
qed


lemma ingest_le:
  assumes "inbox_ok ib" "ingest_market_event e ib = (ib', r)"
  shows "inbox_le ib ib'"
proof -
  have "ib' = ib \<or> (dict_get ib (me_id e) = None \<and> ib' = dict_set ib (me_id e) (market_event.extend e \<lparr>me_state = PENDING\<rparr>))"
    using assms(2) by (auto simp: ingest_market_event_def ingest_validate_def split: if_splits option.splits sum.splits)
  then show ?thesis
  proof
    assume new: "dict_get ib (me_id e) = None \<and> ib' = dict_set ib (me_id e) (market_event.extend e \<lparr>me_state = PENDING\<rparr>)"
    then have "inbox_ok ib'" by (auto simp: market_event.extend_def intro!: inbox_ok_set [OF assms(1)])
    moreover have "\<exists>e'. dict_get ib' i = Some e' \<and> row_le e2 e'" if "dict_get ib i = Some e2" for i e2
      using that new by (auto simp: dict_simps)
    ultimately show ?thesis by (auto simp: inbox_le_def)
  qed (use assms in simp)
qed

lemma acknowledge_le:
  assumes "inbox_ok ib" "acknowledge_market_event i ib = (ib', r)"
  shows "inbox_le ib ib'"
proof -
  have "ib' = ib \<or> (\<exists>e. dict_get ib i = Some e \<and> me_state e = PENDING \<and> ib' = dict_set ib i (e\<lparr>me_state := DISPATCHED\<rparr>))"
    using assms(2) by (auto simp: acknowledge_market_event_def split: option.splits event_state.splits)
  then show ?thesis
  proof (elim disjE exE conjE)
    fix e assume e: "dict_get ib i = Some e" "me_state e = PENDING" and ib': "ib' = dict_set ib i (e\<lparr>me_state := DISPATCHED\<rparr>)"
    have "me_id e = i" using assms(1) e(1) unfolding inbox_ok_iff by blast
    then have "inbox_ok ib'" unfolding ib' by (intro inbox_ok_set [OF assms(1)]) simp
    moreover have "\<exists>e'. dict_get ib' j = Some e' \<and> row_le e2 e'" if "dict_get ib j = Some e2" for j e2
      using that e unfolding ib' by (auto simp: dict_simps row_le_def market_event.truncate_def)
    ultimately show ?thesis by (auto simp: inbox_le_def)
  qed (use assms in simp)
qed

lemma pending_cases:
  assumes "pending_market_events seoul mode max_age raw now now2 ib = (ib', r)"
  obtains (none) "ib' = ib" "handed_out r = {}" "\<And>es. r \<noteq> Inr (PendingReply True es)"
  | (out) symbols where "parse_event_symbols raw = Inr symbols" "is_open seoul mode (Aware now) = Inr True"
      "ib' = mark_stale_market_events max_age now2 ib"
      "r = Inr (PendingReply True (map dispatch_payload (pending_query symbols ib')))"
  using assms by (auto simp: pending_market_events_def Let_def handed_out_def split: sum.splits list.splits bool.splits)

lemma pending_query_stored:
  assumes "inbox_ok ib" "e \<in> set (pending_query symbols ib)"
  shows "dict_get ib (me_id e) = Some e \<and> me_state e = PENDING \<and> me_symbol e \<in> set symbols"
proof -
  have "e \<in> snd ` set ib" "me_state e = PENDING" "me_symbol e \<in> set symbols"
    using assms(2) by (auto simp: pending_query_def dest!: in_set_takeD)
  then show ?thesis using assms(1) by (auto simp: inbox_ok_def)
qed

lemma dispatch_payload_id [simp]: "me_id (dispatch_payload e) = me_id e"
  by (simp add: dispatch_payload_def market_event.truncate_def)

lemma request_spec:
  assumes "inbox_ok ib" "serve_request seoul mode max_age req ib = (ib', r)"
  shows "inbox_le ib ib'" "i \<in> handed_out r \<Longrightarrow> \<exists>e. dict_get ib' i = Some e \<and> me_state e = PENDING"
proof -
  have "inbox_le ib ib' \<and> (i \<in> handed_out r \<longrightarrow> (\<exists>e. dict_get ib' i = Some e \<and> me_state e = PENDING))"
  proof (cases req)
    case (Ingest e)
    have "handed_out r = {}"
      using assms(2) Ingest by (auto simp: serve_request_def ingest_market_event_def handed_out_def split: if_splits option.splits sum.splits)
    then show ?thesis using ingest_le [OF assms(1)] assms(2) Ingest by (simp add: serve_request_def)
  next
    case (Pending raw now now2)
    with assms(2) have "pending_market_events seoul mode max_age raw now now2 ib = (ib', r)" by (simp add: serve_request_def)
    then show ?thesis
    proof (cases rule: pending_cases)
      case (out symbols)
      have le: "inbox_le ib ib'" using mark_stale_le [OF assms(1)] out(3) by simp
      then have "inbox_ok ib'" by (simp add: inbox_le_def)
      then show ?thesis using le pending_query_stored out(4) by (auto simp: handed_out_def)
    qed (use assms(1) in simp)
  next
    case (Acknowledge j)
    have "handed_out r = {}"
      using assms(2) Acknowledge
      by (auto simp: serve_request_def acknowledge_market_event_def handed_out_def split: option.splits event_state.splits)
    then show ?thesis using acknowledge_le [OF assms(1)] assms(2) Acknowledge by (simp add: serve_request_def)
  qed
  then show "inbox_le ib ib'" "i \<in> handed_out r \<Longrightarrow> \<exists>e. dict_get ib' i = Some e \<and> me_state e = PENDING"
    by blast+
qed

lemma run_spec:
  assumes "inbox_ok ib" "inbox_run seoul mode max_age reqs ib = (ib', rs)"
  shows "inbox_le ib ib'"
    and "dict_get ib i = Some e \<Longrightarrow> me_state e \<noteq> PENDING \<Longrightarrow> q \<in> set rs \<Longrightarrow> i \<notin> handed_out q"
proof -
  have "inbox_le ib ib' \<and> (dict_get ib i = Some e \<longrightarrow> me_state e \<noteq> PENDING \<longrightarrow> q \<in> set rs \<longrightarrow> i \<notin> handed_out q)"
    using assms
  proof (induction reqs arbitrary: ib ib' rs e)
    case (Cons req reqs)
    obtain ib1 r where r: "serve_request seoul mode max_age req ib = (ib1, r)" by force
    obtain ib2 rs2 where rs: "inbox_run seoul mode max_age reqs ib1 = (ib2, rs2)" by force
    note spec = request_spec [OF Cons.prems(1) r]
    have ok1: "inbox_ok ib1" using spec(1) by (simp add: inbox_le_def)
    have eq: "ib' = ib2" "rs' = r # rs2" if "rs' = rs" for rs' using Cons.prems(2) that by (simp_all add: r rs)
    show ?case
    proof (intro conjI impI)
      show "inbox_le ib ib'" using inbox_le_trans [OF spec(1)] Cons.IH [OF ok1 rs] eq by blast
      assume e: "dict_get ib i = Some e" "me_state e \<noteq> PENDING" and q: "q \<in> set rs"
      obtain e1 where e1: "dict_get ib1 i = Some e1" "me_state e1 \<noteq> PENDING"
        using spec(1) e unfolding inbox_le_def row_le_def by metis
      show "i \<notin> handed_out q"
        using q eq(2) [OF refl] spec(2) [of i] e1 Cons.IH [OF ok1 rs, of e1] by auto
    qed
  qed simp
  then show "inbox_le ib ib'"
    and "dict_get ib i = Some e \<Longrightarrow> me_state e \<noteq> PENDING \<Longrightarrow> q \<in> set rs \<Longrightarrow> i \<notin> handed_out q" by blast+
qed

lemma marked_differs: "me_state e = PENDING \<Longrightarrow> e\<lparr>me_state := STALE\<rparr> \<noteq> e" for e :: inbox_event
  by (metis event_state.distinct(3) inbox_event.select_convs(1) inbox_event.surjective inbox_event.update_convs(1))

section \<open>Properties\<close>

text \<open>
  C34: the life of an event in the inbox. Whatever requests come, in whatever order, an event
  once stored stays stored with the payload it came with; once it is dispatched or stale it
  stays so, and no later response hands it to a runner again.
\<close>

theorem event_lifecycle:
  assumes "inbox_run seoul mode max_age reqs1 [] = (ib, rs1)" "inbox_run seoul mode max_age reqs2 ib = (ib', rs2)"
    and "dict_get ib i = Some e"
  shows "\<exists>e'. dict_get ib' i = Some e' \<and> market_event.truncate e' = market_event.truncate e
    \<and> (me_state e \<noteq> PENDING \<longrightarrow> me_state e' = me_state e \<and> (\<forall>r\<in>set rs2. i \<notin> handed_out r))"
proof -
  have "inbox_ok []" by (simp add: inbox_ok_def)
  from run_spec(1) [OF this assms(1)] have ok: "inbox_ok ib" by (simp add: inbox_le_def)
  obtain e' where "dict_get ib' i = Some e'" "row_le e e'"
    using run_spec(1) [OF ok assms(2)] assms(3) by (auto simp: inbox_le_def)
  then show ?thesis using run_spec(2) [OF ok assms(2,3)] by (auto simp: row_le_def)
qed

definition demo_market_event :: market_event where
  "demo_market_event = \<lparr>me_id = ''n1'', me_symbol = ''005930'', me_type = ''news'', me_direction = ''BUY'',
     me_confidence = 1 / 2, me_impact = ''high'', me_occurred = None, me_detected = 7, me_source = ''wire'',
     me_source_item = [], me_headline = ''up''\<rparr>"

lemma demo_fields: "declared_fields demo_market_event"
  by (simp add: declared_fields_def demo_market_event_def text_field_def py_strip_def py_lstrip_def py_isspace_def
      is_digit_def directions_def impacts_def)

lemma demo_ingested:
  "inbox_run seoul mode max_age [Ingest demo_market_event, Acknowledge ''n1''] [] =
     ([(''n1'', market_event.extend demo_market_event \<lparr>me_state = DISPATCHED\<rparr>)],
      [Inr (EventReply 201 ''n1'' ''accepted'' PENDING), Inr (EventReply 200 ''n1'' ''acknowledged'' DISPATCHED)])"
  using demo_fields
  by (simp add: serve_request_def ingest_market_event_def ingest_validate_def acknowledge_market_event_def
      demo_market_event_def market_event.extend_def)

lemma event_lifecycle_witness:
  "\<exists>ib' rs2. inbox_run (\<lambda>_. 0) AlwaysOpen 60 [Pending ''005930'' 9 9] [(''n1'', market_event.extend demo_market_event \<lparr>me_state = DISPATCHED\<rparr>)]
       = (ib', rs2) \<and> \<not> (\<exists>r\<in>set rs2. ''n1'' \<in> handed_out r)"
proof -
  obtain ib' rs2 where r: "inbox_run (\<lambda>_. 0) AlwaysOpen 60 [Pending ''005930'' 9 9]
      [(''n1'', market_event.extend demo_market_event \<lparr>me_state = DISPATCHED\<rparr>)] = (ib', rs2)" by (metis surj_pair)
  from event_lifecycle [OF demo_ingested r, of "''n1''" "market_event.extend demo_market_event \<lparr>me_state = DISPATCHED\<rparr>"]
  have "\<not> (\<exists>r\<in>set rs2. ''n1'' \<in> handed_out r)" by (auto simp: market_event.extend_def)
  with r show ?thesis by blast
qed

text \<open>
  C35: what a runner gets while the market is open. Every event handed out is a pending row for
  one of the requested symbols that is not too old, with its payload; at most a hundred come, in
  the order of detection; and an event that is pending, requested and fresh is left out only
  when a hundred others come before it.
\<close>

theorem pending_hand_out:
  assumes "inbox_run seoul mode max_age reqs [] = (ib, rs)"
    and "pending_market_events seoul mode max_age raw now now2 ib = (ib', Inr (PendingReply True es))"
  shows "\<exists>symbols rows. parse_event_symbols raw = Inr symbols \<and> es = map dispatch_payload rows
    \<and> length es \<le> 100 \<and> sorted (map (\<lambda>e. (me_detected e, me_id e)) rows)
    \<and> (\<forall>e\<in>set rows. dict_get ib (me_id e) = Some e \<and> me_state e = PENDING \<and> me_symbol e \<in> set symbols
          \<and> now2 - max_age * 1000000 \<le> reference_time e)
    \<and> (\<forall>i e. dict_get ib i = Some e \<and> me_state e = PENDING \<and> me_symbol e \<in> set symbols
          \<and> now2 - max_age * 1000000 \<le> reference_time e \<and> e \<notin> set rows
          \<longrightarrow> length rows = 100 \<and> (\<forall>x\<in>set rows. (me_detected x, me_id x) \<le> (me_detected e, me_id e)))"
proof -
  let ?key = "\<lambda>e :: inbox_event. (me_detected e, me_id e)"
  have "inbox_ok []" by (simp add: inbox_ok_def)
  from run_spec(1) [OF this assms(1)] have ok: "inbox_ok ib" by (simp add: inbox_le_def)
  from assms(2) obtain symbols where sy: "parse_event_symbols raw = Inr symbols"
    and ib': "ib' = mark_stale_market_events max_age now2 ib"
    and es: "es = map dispatch_payload (pending_query symbols ib')"
    by (cases rule: pending_cases) auto
  have ok': "inbox_ok ib'" using mark_stale_le [OF ok] ib' by (simp add: inbox_le_def)
  define all where "all = sort_key ?key (filter (\<lambda>e. me_state e = PENDING \<and> me_symbol e \<in> set symbols) (map snd ib'))"
  have rows: "pending_query symbols ib' = take 100 all" by (simp add: pending_query_def all_def)
  have srt: "sorted (map ?key all)" by (simp add: all_def)
  have "dict_get ib (me_id e) = Some e \<and> me_state e = PENDING \<and> me_symbol e \<in> set symbols
      \<and> now2 - max_age * 1000000 \<le> reference_time e" if "e \<in> set (pending_query symbols ib')" for e
    using pending_query_stored [OF ok' that] marked_differs by (auto simp: ib' mark_stale_get split: if_splits)
  moreover have "length (take 100 all) = 100 \<and> (\<forall>x\<in>set (take 100 all). ?key x \<le> ?key e)"
    if "dict_get ib i = Some e \<and> me_state e = PENDING \<and> me_symbol e \<in> set symbols
          \<and> now2 - max_age * 1000000 \<le> reference_time e \<and> e \<notin> set (take 100 all)" for i e
  proof -
    have "dict_get ib' i = Some e" using that by (simp add: ib' mark_stale_get)
    then have "e \<in> set all" using that by (auto simp: all_def dest!: map_of_SomeD intro!: rev_image_eqI)
    then have d: "e \<in> set (drop 100 all)" using that append_take_drop_id [of 100 all] by (metis Un_iff set_append)
    then have "100 \<le> length all" by (cases "length all \<le> 100") auto
    moreover have "sorted (map ?key (take 100 all @ drop 100 all))" using srt by simp
    then have "\<forall>x\<in>set (take 100 all). ?key x \<le> ?key e"
      unfolding map_append sorted_append using d by (metis (no_types, lifting) image_eqI list.set_map)
    ultimately show ?thesis by simp
  qed
  moreover have "sorted (map ?key (take 100 all))" using srt by (metis sorted_wrt_take take_map)
  ultimately show ?thesis using sy es unfolding rows by (intro exI [of _ symbols] exI [of _ "take 100 all"]) auto
qed


lemma demo_pending:
  "inbox_run (\<lambda>_. 0) AlwaysOpen 60 [Ingest demo_market_event] []
     = ([(''n1'', market_event.extend demo_market_event \<lparr>me_state = PENDING\<rparr>)], [Inr (EventReply 201 ''n1'' ''accepted'' PENDING)])"
  "pending_market_events (\<lambda>_. 0) AlwaysOpen 60 ''005930'' 9 9 [(''n1'', market_event.extend demo_market_event \<lparr>me_state = PENDING\<rparr>)]
     = ([(''n1'', market_event.extend demo_market_event \<lparr>me_state = PENDING\<rparr>)], Inr (PendingReply True [demo_market_event]))"
proof -
  show "inbox_run (\<lambda>_. 0) AlwaysOpen 60 [Ingest demo_market_event] []
     = ([(''n1'', market_event.extend demo_market_event \<lparr>me_state = PENDING\<rparr>)], [Inr (EventReply 201 ''n1'' ''accepted'' PENDING)])"
    using demo_fields
    by (simp add: serve_request_def ingest_market_event_def ingest_validate_def demo_market_event_def market_event.extend_def)
  have p: "parse_event_symbols ''005930'' = Inr [''005930'']"
    by (simp add: parse_event_symbols_def py_strip_def py_lstrip_def py_isspace_def py_isdigit_def is_digit_def Let_def)
  show "pending_market_events (\<lambda>_. 0) AlwaysOpen 60 ''005930'' 9 9 [(''n1'', market_event.extend demo_market_event \<lparr>me_state = PENDING\<rparr>)]
     = ([(''n1'', market_event.extend demo_market_event \<lparr>me_state = PENDING\<rparr>)], Inr (PendingReply True [demo_market_event]))"
    by (simp add: pending_market_events_def p is_open_def localize_def open_local_def Let_def
        mark_stale_market_events_def pending_query_def dispatch_payload_def demo_market_event_def
        market_event.extend_def market_event.truncate_def reference_time_def)
qed

lemma pending_hand_out_witness:
  "\<exists>es. pending_market_events (\<lambda>_. 0) AlwaysOpen 60 ''005930'' 9 9
       [(''n1'', market_event.extend demo_market_event \<lparr>me_state = PENDING\<rparr>)]
     = ([(''n1'', market_event.extend demo_market_event \<lparr>me_state = PENDING\<rparr>)], Inr (PendingReply True es))
     \<and> es = [demo_market_event] \<and> length es \<le> 100"
  using pending_hand_out [OF demo_pending] demo_pending(2) by auto

end
