(* ===== verification/Matcher_Api.thy ===== *)
theory Matcher_Api
  imports Registry Event_Inbox Call_Logic
begin

text \<open>
  The order endpoints of \<open>views.py\<close> over the registry of one matcher process, with the
  payload checks of \<open>serializers.py\<close> and the counters and gauges of \<open>metrics.py\<close> that they
  update. The state is the registry with the metrics; the environment of a request holds the
  settings, the rows of the market table and the clock readings that the request makes.

  A response is a value of \<open>api_reply\<close>. An exception that Django turns into a response, such
  as \<open>ValidationError\<close>, is an error of the call. Log lines are left out.
\<close>

section \<open>State\<close>

record matcher =
  mt_registry :: registry
  mt_depth :: "(symbol \<times> order_side, int) dict"
  mt_open :: "(symbol, int) dict"
  mt_submitted :: "(symbol \<times> order_side, int) dict"
  mt_rejected :: "(string, int) dict"
  mt_trades :: "(symbol, int) dict"
  mt_quantity :: "(symbol, int) dict"

record api_env =
  av_matcher :: matcher_env
  av_mode :: market_mode
  av_seoul :: "int \<Rightarrow> int"
  av_wall :: int
  av_session_wall :: int
  av_submit :: submit_env
  av_order_id :: uuid
  av_clock :: seconds
  av_clock2 :: seconds

record order_request =
  or_user :: string
  or_symbol :: symbol
  or_side :: string
  or_price :: int
  or_quantity :: int

datatype api_reply =
    DetailResponse int string
  | OrderCreated match_result
  | OrderCanceled uuid string int
  | BookResponse book_snapshot
  | TradesResponse symbol "trade list"

text \<open>\<open>counter.labels(k).inc(n)\<close>.\<close>

definition inc :: "('k, int) dict \<Rightarrow> 'k \<Rightarrow> int \<Rightarrow> ('k, int) dict" where
  "inc d k n = dict_set d k (n + (case dict_get d k of None \<Rightarrow> 0 | Some m \<Rightarrow> m))"

definition reject :: "string \<Rightarrow> matcher \<Rightarrow> matcher" where
  "reject why mt = mt\<lparr>mt_rejected := inc (mt_rejected mt) why 1\<rparr>"

text \<open>A call of the registry, and a question to the cached universe.\<close>

definition on_registry :: "(registry \<Rightarrow> registry \<times> (py_error + 'a)) \<Rightarrow> (matcher, 'a) action" where
  "on_registry m mt = (let (g, r) = m (mt_registry mt) in (mt\<lparr>mt_registry := g\<rparr>, r))"

definition on_cache :: "(sim_cache \<Rightarrow> sim_cache \<times> (py_error + 'a)) \<Rightarrow> registry \<Rightarrow> registry \<times> (py_error + 'a)" where
  "on_cache m g = (let (c, r) = m (rg_cache g) in (g\<lparr>rg_cache := c\<rparr>, r))"

definition simulated :: "api_env \<Rightarrow> symbol \<Rightarrow> (matcher, bool) action" where
  "simulated env sy = on_registry (on_cache (\<lambda>c.
     let (c, b) = is_simulated_symbol (me_settings (av_matcher env)) (me_rows (av_matcher env)) sy c in (c, Inr b)))"

definition owned :: "api_env \<Rightarrow> symbol \<Rightarrow> (matcher, bool) action" where
  "owned env sy = on_registry (on_cache
     (is_owned_symbol (me_settings (av_matcher env)) (me_rows (av_matcher env)) sy))"

section \<open>Session and gauges\<close>

definition clear_gauges :: "symbol list \<Rightarrow> matcher \<Rightarrow> matcher" where
  "clear_gauges sys mt = fold (\<lambda>sy mt. mt
     \<lparr>mt_depth := dict_set (dict_set (mt_depth mt) (sy, BUY) 0) (sy, SELL) 0, mt_open := dict_set (mt_open mt) sy 0\<rparr>) sys mt"

definition rollover_market_session :: "api_env \<Rightarrow> (matcher, unit) action" where
  "rollover_market_session env mt =
     (if av_mode env = AlwaysOpen then (mt, Inr ())
      else case session_date (av_seoul env) (av_mode env) (Aware (av_session_wall env)) of
        Inl e \<Rightarrow> (mt, Inl e)
      | Inr d \<Rightarrow>
          (let (g, cleared) = rollover d (mt_registry mt)
           in (clear_gauges cleared (mt\<lparr>mt_registry := g\<rparr>), Inr ())))"

text \<open>
  A call on the book object that \<open>get\<close> returned; the registry still holds it.
\<close>

definition ask :: "symbol \<Rightarrow> seconds \<Rightarrow> (book \<Rightarrow> py_error + 'a) \<Rightarrow> (matcher, 'a) action" where
  "ask sy now f = on_registry (\<lambda>g.
     case dict_get (rg_books g) sy of
       None \<Rightarrow> (g, Inl KeyError)
     | Some b \<Rightarrow> on_book sy (ask_book now f b) g)"

definition total_of_side :: "order_side \<Rightarrow> book \<Rightarrow> py_error + int" where
  "total_of_side s b = Inr (bs_total (bk_sides b s))"

definition set_depth :: "symbol \<Rightarrow> order_side \<Rightarrow> int \<Rightarrow> (matcher, unit) action" where
  "set_depth sy s n mt = (mt\<lparr>mt_depth := dict_set (mt_depth mt) (sy, s) n\<rparr>, Inr ())"

definition set_open :: "symbol \<Rightarrow> (matcher, unit) action" where
  "set_open sy mt =
     (mt\<lparr>mt_open := dict_set (mt_open mt) sy
           (case dict_get (rg_books (mt_registry mt)) sy of None \<Rightarrow> 0 | Some b \<Rightarrow> int (book_open_order_count b))\<rparr>, Inr ())"

definition update_orderbook_depth :: "api_env \<Rightarrow> symbol \<Rightarrow> (matcher, unit) action" where
  "update_orderbook_depth env sy =
     seq_call (on_registry (reg_get (av_matcher env) sy)) (\<lambda>found.
       case found of None \<Rightarrow> (\<lambda>mt. (mt, Inr ()))
       | Some _ \<Rightarrow>
           seq_call (ask sy (av_clock env) (total_of_side BUY)) (\<lambda>n.
           seq_call (set_depth sy BUY n) (\<lambda>_.
           seq_call (ask sy (av_clock2 env) (total_of_side SELL)) (\<lambda>m.
           seq_call (set_depth sy SELL m) (\<lambda>_. set_open sy)))))"

section \<open>Orders\<close>

text \<open>What the fields of \<open>OrderRequestSerializer\<close> accept, and its \<open>create_order\<close>.\<close>

definition order_fields :: "order_request \<Rightarrow> bool" where
  "order_fields r \<longleftrightarrow> text_field 128 (or_user r) \<and> text_field 6 (or_symbol r)
     \<and> or_side r \<in> {''BUY'', ''SELL''} \<and> 1 \<le> or_price r \<and> 1 \<le> or_quantity r"

definition request_order :: "uuid \<Rightarrow> order_request \<Rightarrow> py_error + order" where
  "request_order oid r =
     ebind (order_side_of (or_side r)) (\<lambda>s.
     make_order (or_user r) (or_symbol r) (Some s) (PyInt (or_price r)) (PyInt (or_quantity r)) oid)"

definition count_trades :: "symbol \<Rightarrow> match_result \<Rightarrow> (matcher, unit) action" where
  "count_trades sy res mt =
     (mt\<lparr>mt_trades := inc (mt_trades mt) sy (int (length (result_trades res))),
         mt_quantity := inc (mt_quantity mt) sy (sum_list (map trade_quantity (result_trades res)))\<rparr>, Inr ())"

definition submit_order :: "api_env \<Rightarrow> order \<Rightarrow> (matcher, api_reply) action" where
  "submit_order env ord =
     seq_call (\<lambda>mt. (mt\<lparr>mt_submitted := inc (mt_submitted mt) (order_symbol ord, side ord) 1\<rparr>, Inr ())) (\<lambda>_.
     seq_call (on_registry (reg_submit (av_matcher env) (av_submit env) ord)) (\<lambda>res.
     seq_call (count_trades (order_symbol ord) res) (\<lambda>_.
     seq_call (update_orderbook_depth env (order_symbol ord)) (\<lambda>_ mt. (mt, Inr (OrderCreated res))))))"

definition check_symbol :: "api_env \<Rightarrow> symbol \<Rightarrow> (string \<Rightarrow> matcher \<Rightarrow> matcher) \<Rightarrow> (matcher, unit) action" where
  "check_symbol env sy note =
     seq_call (simulated env sy) (\<lambda>known.
     if \<not> known then (\<lambda>mt. (note ''unsupported_symbol'' mt, Inl (ValidationError ''symbol is not in the current simulation set'')))
     else seq_call (owned env sy) (\<lambda>mine mt.
       if \<not> mine then (note ''wrong_shard'' mt, Inl (ValidationError ''symbol is owned by another matcher shard''))
       else (mt, Inr ())))"

definition create_order :: "api_env \<Rightarrow> order_request \<Rightarrow> (matcher, api_reply) action" where
  "create_order env r mt =
     (case is_open (av_seoul env) (av_mode env) (Aware (av_wall env)) of
        Inl e \<Rightarrow> (mt, Inl e)
      | Inr False \<Rightarrow> (reject ''market_closed'' mt, Inr (DetailResponse 409 ''market is closed''))
      | Inr True \<Rightarrow>
          seq_call (rollover_market_session env) (\<lambda>_ mt.
            if \<not> order_fields r then (reject ''validation_error'' mt, Inl (ValidationError ''invalid field''))
            else case request_order (av_order_id env) r of
              Inl e \<Rightarrow> (mt, Inl e)
            | Inr ord \<Rightarrow>
                seq_call (check_symbol env (order_symbol ord) reject) (\<lambda>_. submit_order env ord) mt) mt)"

text \<open>
  \<open>cancel_order\<close>: the check of the query parameter \<open>symbol\<close>, empty when it is missing, and the
  cancel with its response.
\<close>

definition check_query_symbol :: "api_env \<Rightarrow> string \<Rightarrow> (matcher, unit) action" where
  "check_query_symbol env raw =
     (let sy = py_strip raw in if sy = [] then (\<lambda>mt. (mt, Inr ())) else check_symbol env sy (\<lambda>_ mt. mt))"

definition cancel_on_book :: "api_env \<Rightarrow> uuid \<Rightarrow> (matcher, api_reply) action" where
  "cancel_on_book env oid mt =
     (case on_registry (reg_cancel (av_matcher env) (expire_clock (av_submit env)) oid) mt of
        (mt, Inl (OrderNotFoundError _)) \<Rightarrow> (mt, Inr (OrderCanceled oid ''ALREADY_CLOSED'' 0))
      | (mt, Inl e) \<Rightarrow> (mt, Inl e)
      | (mt, Inr oo) \<Rightarrow>
          seq_call (update_orderbook_depth env (order_symbol (oo_order oo))) (\<lambda>_ mt.
            (mt, Inr (OrderCanceled (order_id (oo_order oo)) ''CANCELED'' (oo_remaining oo)))) mt)"

definition cancel_order :: "api_env \<Rightarrow> uuid \<Rightarrow> string \<Rightarrow> (matcher, api_reply) action" where
  "cancel_order env oid raw =
     seq_call (rollover_market_session env) (\<lambda>_.
     seq_call (check_query_symbol env raw) (\<lambda>_. cancel_on_book env oid))"

section \<open>Books and trades\<close>

definition snapshot_of :: "book \<Rightarrow> py_error + book_snapshot" where
  "snapshot_of b =
     ebind (book_levels (bk_sides b BUY)) (\<lambda>bids.
     ebind (book_levels (bk_sides b SELL)) (\<lambda>asks.
     Inr \<lparr>snap_symbol = bk_symbol b, snap_bids = bids, snap_asks = asks\<rparr>))"

definition book_detail :: "api_env \<Rightarrow> symbol \<Rightarrow> (matcher, api_reply) action" where
  "book_detail env sy =
     seq_call (rollover_market_session env) (\<lambda>_.
     seq_call (on_registry (reg_get (av_matcher env) sy)) (\<lambda>found.
     case found of None \<Rightarrow> (\<lambda>mt. (mt, Inl (NotFound ''symbol was not found'')))
     | Some _ \<Rightarrow> seq_call (ask sy (av_clock env) snapshot_of) (\<lambda>snap mt. (mt, Inr (BookResponse snap)))))"

definition recent_trade_list :: "api_env \<Rightarrow> symbol \<Rightarrow> int \<Rightarrow> (matcher, api_reply) action" where
  "recent_trade_list env sy limit =
     seq_call (rollover_market_session env) (\<lambda>_ mt.
       if \<not> (text_field 6 sy \<and> 1 \<le> limit \<and> limit \<le> 200) then (mt, Inl (ValidationError ''invalid field''))
       else seq_call (on_registry (reg_get (av_matcher env) sy)) (\<lambda>found.
         case found of None \<Rightarrow> (\<lambda>mt. (mt, Inl (NotFound ''symbol was not found'')))
         | Some b \<Rightarrow> (\<lambda>mt. (mt, ebind (book_recent_trades b limit) (\<lambda>ts. Inr (TradesResponse sy ts))))) mt)"

section \<open>Symbols\<close>

text \<open>
  \<open>symbol_list\<close>. \<open>icontains\<close> is the database's case-insensitive containment, \<open>names\<close> the
  name and market of a symbol, \<open>isodate\<close> the text of a date.
\<close>

definition symbol_entry :: "(symbol \<Rightarrow> string \<times> string) \<Rightarrow> bool \<Rightarrow> int option \<Rightarrow> market_row \<Rightarrow> py_value" where
  "symbol_entry names enabled shard r =
     PyDict [(''ticker'', PyStr (md_symbol r)), (''name'', PyStr (fst (names (md_symbol r)))),
       (''market'', PyStr (snd (names (md_symbol r)))), (''close_price'', PyInt (md_close r)),
       (''volume'', PyInt (md_volume r)), (''trading_value'', PyInt (md_value r)),
       (''trading_value_rank'', PyInt (md_rank r)), (''simulation_enabled'', PyBool enabled),
       (''matcher_shard'', case shard of None \<Rightarrow> PyNone | Some i \<Rightarrow> PyInt i)]"

fun symbol_results ::
  "(symbol \<Rightarrow> string \<times> string) \<Rightarrow> sim_settings \<Rightarrow> market_row list \<Rightarrow> market_row list \<Rightarrow> sim_cache
    \<Rightarrow> sim_cache \<times> py_value list" where
  "symbol_results names st rows [] c = (c, [])"
| "symbol_results names st rows (r # rs) c =
     (let (c1, enabled) = is_simulated_symbol st rows (md_symbol r) c;
          (c2, shard) = matcher_shard_for st rows (md_symbol r) c1;
          (c3, vs) = symbol_results names st rows rs c2
      in (c3, symbol_entry names enabled shard r # vs))"

definition listed_rows ::
  "(string \<Rightarrow> string \<Rightarrow> bool) \<Rightarrow> (symbol \<Rightarrow> string \<times> string) \<Rightarrow> market_row list \<Rightarrow> int \<Rightarrow> string \<Rightarrow> int \<Rightarrow> market_row list" where
  "listed_rows icontains names rows d q limit =
     (let records = filter (\<lambda>r. md_date r = d) rows;
          records = (if q = [] then records
                     else filter (\<lambda>r. icontains (md_symbol r) q \<or> icontains (fst (names (md_symbol r))) q) records)
      in take (nat limit) (sort_key (\<lambda>r. (md_rank r, md_symbol r)) records))"

definition symbol_list ::
  "(string \<Rightarrow> string \<Rightarrow> bool) \<Rightarrow> (symbol \<Rightarrow> string \<times> string) \<Rightarrow> (int \<Rightarrow> string) \<Rightarrow> sim_settings \<Rightarrow> market_row list
    \<Rightarrow> string \<Rightarrow> int \<Rightarrow> sim_cache \<Rightarrow> sim_cache \<times> (py_error + py_value)" where
  "symbol_list icontains names isodate st rows q limit c =
     (if limit < 1 \<or> 100 < limit then (c, Inl (ValidationError ''invalid field''))
      else case latest_date rows of
        None \<Rightarrow> (c, Inr (PyDict [(''trade_date'', PyNone), (''results'', PyList [])]))
      | Some d \<Rightarrow>
          (let (c', vs) = symbol_results names st rows (listed_rows icontains names rows d (py_strip q) limit) c
           in (c', Inr (PyDict [(''trade_date'', PyStr (isodate d)), (''results'', PyList vs)]))))"

section \<open>Topology\<close>

text \<open>\<open>readiness\<close>: the status and the payload; the argument says whether the database answers.\<close>

definition shard_topology :: "sim_settings \<Rightarrow> int \<Rightarrow> (string \<times> py_value) list" where
  "shard_topology st port =
     [(''shard_index'', PyInt (shard_index st)), (''shard_count'', PyInt (shard_count st)), (''listen_port'', PyInt port)]"

definition readiness :: "sim_settings \<Rightarrow> int \<Rightarrow> bool \<Rightarrow> int \<times> py_value" where
  "readiness st port database =
     (if database
      then (200, PyDict ((''status'', PyStr ''ready'') # (''database'', PyStr ''ok'') # shard_topology st port))
      else (503, PyDict ((''status'', PyStr ''not_ready'') # (''database'', PyStr ''unavailable'') # shard_topology st port)))"

definition prometheus_service_discovery :: "sim_settings \<Rightarrow> int \<Rightarrow> string \<Rightarrow> py_error + int \<times> sd_target list" where
  "prometheus_service_discovery st port header =
     (case advertised_hostname header of
        Inl _ \<Rightarrow> Inr (400, [])
      | Inr hostname \<Rightarrow>
          ebind (prometheus_sd_targets hostname (shard_count st) (port - shard_index st)) (\<lambda>ts. Inr (200, ts)))"

end
