(* ===== verification/Matcher_Invariant.thy ===== *)
theory Matcher_Invariant
  imports Matcher_Api
begin

text \<open>
  The order endpoints keep the registry reachable and always answer: whatever a client sends,
  a request ends in a response or a \<open>ValidationError\<close>. The calculus \<open>wp\<close> carries one lemma
  per call.
\<close>

section \<open>Requests\<close>

definition env_ok :: "seconds \<Rightarrow> api_env \<Rightarrow> bool" where
  "env_ok t env \<longleftrightarrow> settings_ok (me_settings (av_matcher env)) \<and> 0 \<le> me_max_age (av_matcher env)
     \<and> t \<le> expire_clock (av_submit env) \<and> expire_clock (av_submit env) \<le> rest_clock (av_submit env)
     \<and> rest_clock (av_submit env) \<le> av_clock env \<and> av_clock env \<le> av_clock2 env"

abbreviation alive :: "seconds \<Rightarrow> matcher \<Rightarrow> bool" where
  "alive t mt \<equiv> reg_reach t (mt_registry mt)"

abbreviation tracked :: "matcher \<Rightarrow> uuid \<Rightarrow> symbol option" where
  "tracked mt oid \<equiv> dict_get (rg_orders (mt_registry mt)) oid"

text \<open>The only exception: a bad request, which leaves a reachable registry.\<close>

definition refused_request :: "seconds \<Rightarrow> py_error \<Rightarrow> matcher \<Rightarrow> bool" where
  "refused_request t e mt \<longleftrightarrow> (\<exists>v. e = ValidationError v) \<and> alive t mt"

definition owns :: "api_env \<Rightarrow> symbol \<Rightarrow> registry \<Rightarrow> bool" where
  "owns env sy g \<longleftrightarrow> is_owned_symbol (me_settings (av_matcher env)) (me_rows (av_matcher env)) sy (rg_cache g)
     = (rg_cache g, Inr True)"

lemma later: "alive t mt \<Longrightarrow> t \<le> t' \<Longrightarrow> alive t' mt"
  by (rule reg_reach.wait)

lemma wp_assign: "wp E (\<lambda>s. (h s, Inr ())) Q s = Q () (h s)"
  by (simp add: wp_def)

section \<open>The universe\<close>

lemma owned_settles:
  assumes "settings_ok st"
  obtains c' b where "is_owned_symbol st rows sy c = (c', Inr b)" "is_owned_symbol st rows sy c' = (c', Inr b)"
proof -
  obtain c' ts where s: "simulated_tickers st rows c = (c', ts)" by force
  note stable = simulated_tickers_stable [OF s]
  have "0 \<le> shard_index st" "shard_index st < shard_count st" using assms by (simp_all add: settings_ok_def)
  then obtain us where "owned_tickers ts (shard_index st) (shard_count st) = Inr us"
    using owned_tickers_spec by blast
  then show thesis using that s stable by (simp add: is_owned_symbol_def own_tickers_def)
qed

lemma wp_simulated:
  assumes "\<And>c b. Q b (mt\<lparr>mt_registry := mt_registry mt\<lparr>rg_cache := c\<rparr>\<rparr>)"
  shows "wp E (simulated env sy) Q mt"
  using assms by (simp add: wp_def simulated_def on_registry_def on_cache_def split: prod.split)

lemma wp_owned:
  assumes "settings_ok (me_settings (av_matcher env))"
    and "\<And>c b. (b \<longrightarrow> owns env sy (mt_registry mt\<lparr>rg_cache := c\<rparr>)) \<Longrightarrow> Q b (mt\<lparr>mt_registry := mt_registry mt\<lparr>rg_cache := c\<rparr>\<rparr>)"
  shows "wp E (owned env sy) Q mt"
proof -
  obtain c b where "is_owned_symbol (me_settings (av_matcher env)) (me_rows (av_matcher env)) sy (rg_cache (mt_registry mt)) = (c, Inr b)"
    "is_owned_symbol (me_settings (av_matcher env)) (me_rows (av_matcher env)) sy c = (c, Inr b)"
    by (rule owned_settles [OF assms(1)])
  then show ?thesis using assms(2) [of b c] by (simp add: wp_def owned_def on_registry_def on_cache_def owns_def)
qed

lemma wp_check_symbol:
  assumes st: "settings_ok (me_settings (av_matcher env))" and live: "alive t mt" and T: "t \<le> T"
    and mark: "\<And>why mt. mt_registry (mark why mt) = mt_registry mt"
    and Q: "\<And>mt'. alive t mt' \<Longrightarrow> rg_orders (mt_registry mt') = rg_orders (mt_registry mt) \<Longrightarrow>
              owns env sy (mt_registry mt') \<Longrightarrow> Q () mt'"
  shows "wp (refused_request T) (check_symbol env sy mark) Q mt"
  unfolding check_symbol_def wp_seq
proof (rule wp_simulated)
  fix c b
  let ?mt = "mt\<lparr>mt_registry := mt_registry mt\<lparr>rg_cache := c\<rparr>\<rparr>"
  have live1: "alive t ?mt" using reg_reach.cache [OF live] by simp
  show "wp (refused_request T) (if \<not> b then (\<lambda>mt. (mark ''unsupported_symbol'' mt, Inl (ValidationError ''symbol is not in the current simulation set'')))
      else seq_call (owned env sy) (\<lambda>mine mt.
        if \<not> mine then (mark ''wrong_shard'' mt, Inl (ValidationError ''symbol is owned by another matcher shard''))
        else (mt, Inr ()))) Q ?mt"
  proof (cases b)
    case True
    have "wp (refused_request T) (owned env sy) (\<lambda>mine. wp (refused_request T)
       (\<lambda>mt. if \<not> mine then (mark ''wrong_shard'' mt, Inl (ValidationError ''symbol is owned by another matcher shard''))
        else (mt, Inr ())) Q) ?mt"
    proof (rule wp_owned [OF st])
      fix c2 mine
      let ?mt2 = "?mt\<lparr>mt_registry := mt_registry ?mt\<lparr>rg_cache := c2\<rparr>\<rparr>"
      assume own: "mine \<longrightarrow> owns env sy (mt_registry ?mt\<lparr>rg_cache := c2\<rparr>)"
      have live2: "alive t ?mt2" using reg_reach.cache [OF live1] by simp
      then show "wp (refused_request T)
         (\<lambda>mt. if \<not> mine then (mark ''wrong_shard'' mt, Inl (ValidationError ''symbol is owned by another matcher shard''))
          else (mt, Inr ())) Q ?mt2"
        using own Q [OF live2] later [OF live2 T] mark by (cases mine) (simp_all add: refused_request_def wp_def)
    qed
    then show ?thesis using True by simp
  next
    case False
    then show ?thesis using later [OF live1 T] mark by (simp add: wp_def refused_request_def)
  qed
qed

section \<open>Calls of the registry\<close>

lemma clear_gauges_registry [simp]: "mt_registry (clear_gauges sys mt) = mt_registry mt"
  by (induction sys arbitrary: mt) (simp_all add: clear_gauges_def)

lemma wp_rollover:
  assumes live: "alive t mt"
    and Q: "\<And>mt'. alive t mt' \<Longrightarrow> (\<And>oid. tracked mt oid = None \<Longrightarrow> tracked mt' oid = None) \<Longrightarrow> Q () mt'"
  shows "wp E (rollover_market_session env) Q mt"
proof (cases "av_mode env")
  case Scheduled
  obtain d where d: "session_date (av_seoul env) (av_mode env) (Aware (av_session_wall env)) = Inr d"
    by (simp add: session_date_def localize_def Let_def)
  obtain g cleared where g: "rollover d (mt_registry mt) = (g, cleared)" by force
  have r: "rollover_market_session env mt = (clear_gauges cleared (mt\<lparr>mt_registry := g\<rparr>), Inr ())"
    using Scheduled d g by (simp add: rollover_market_session_def)
  have "reg_reach t g" by (rule reg_reach.rollover [OF live g])
  moreover have "dict_get (rg_orders g) oid = None" if "tracked mt oid = None" for oid
    using rollover_effect [OF g] that by auto
  ultimately show ?thesis using Q [of "clear_gauges cleared (mt\<lparr>mt_registry := g\<rparr>)"] by (simp add: wp_def r)
qed (use Q live in \<open>simp add: wp_def rollover_market_session_def\<close>)

lemma reg_get_owned:
  assumes st: "0 \<le> me_max_age (av_matcher env)" and own: "owns env sy g"
    and there: "dict_get (rg_books g) sy \<noteq> None \<or> \<not> blank sy"
  obtains g' b where "reg_get (av_matcher env) sy g = (g', Inr (Some b))" "dict_get (rg_books g') sy = Some b"
    "rg_cache g' = rg_cache g" "rg_orders g' = rg_orders g"
proof (cases "dict_get (rg_books g) sy")
  case (Some b)
  then show ?thesis using that [of g b] own by (simp add: reg_get_def owns_def Let_def)
next
  case None
  then obtain b where b: "make_book sy 200 (me_max_age (av_matcher env)) = Inr b"
    using there st by (simp add: make_book_def)
  let ?g = "g\<lparr>rg_books := dict_set (rg_books g) sy b\<rparr>"
  show ?thesis using that [of ?g b] own None b by (simp add: reg_get_def owns_def Let_def dict_simps)
qed

lemma reg_get_other:
  assumes "settings_ok (me_settings (av_matcher env))"
  obtains (own) g' where "reg_get (av_matcher env) sy g = reg_get (av_matcher env) sy g'" "owns env sy g'"
      "rg_books g' = rg_books g" "rg_orders g' = rg_orders g" "\<exists>c. g' = g\<lparr>rg_cache := c\<rparr>"
  | (other) g' where "reg_get (av_matcher env) sy g = (g', Inr None)" "rg_books g' = rg_books g"
      "rg_orders g' = rg_orders g" "\<exists>c. g' = g\<lparr>rg_cache := c\<rparr>"
proof -
  obtain c b where c: "is_owned_symbol (me_settings (av_matcher env)) (me_rows (av_matcher env)) sy (rg_cache g) = (c, Inr b)"
    "is_owned_symbol (me_settings (av_matcher env)) (me_rows (av_matcher env)) sy c = (c, Inr b)"
    by (rule owned_settles [OF assms])
  let ?g = "g\<lparr>rg_cache := c\<rparr>"
  have same: "?g\<lparr>rg_cache := c\<rparr> = ?g" by simp
  show ?thesis
  proof (cases b)
    case True
    have "reg_get (av_matcher env) sy g = reg_get (av_matcher env) sy ?g"
      using c by (simp add: reg_get_def True)
    moreover have "owns env sy ?g" using c True by (simp add: owns_def)
    ultimately show thesis using own [of ?g] by auto
  next
    case False
    then show thesis using other [of ?g] c by (auto simp: reg_get_def)
  qed
qed

lemma wp_ask_total:
  assumes live: "alive t mt" and now: "t \<le> now" and b: "dict_get (rg_books (mt_registry mt)) sy \<noteq> None"
    and Q: "\<And>n mt'. alive now mt' \<Longrightarrow> dict_get (rg_books (mt_registry mt')) sy \<noteq> None \<Longrightarrow>
      (\<And>oid. tracked mt oid = None \<Longrightarrow> tracked mt' oid = None) \<Longrightarrow> Q n mt'"
  shows "wp E (ask sy now (total_of_side s)) Q mt"
proof -
  obtain b where b: "dict_get (rg_books (mt_registry mt)) sy = Some b" using b by auto
  obtain g' r where g: "on_book sy (ask_book now (total_of_side s) b) (mt_registry mt) = (g', r)" by force
  note ok = ask_book_ok [OF reg_reach_ok [OF live] now b g]
  have "reg_reach now g'" by (rule reg_reach.ask [OF live now b g])
  then show ?thesis using Q [of "mt\<lparr>mt_registry := g'\<rparr>"] ok(2,3) g
    by (auto simp: wp_def ask_def on_registry_def b total_of_side_def)
qed

lemma wp_set_depth [simp]: "wp E (set_depth sy s n) Q mt = Q () (mt\<lparr>mt_depth := dict_set (mt_depth mt) (sy, s) n\<rparr>)"
  by (simp add: wp_def set_depth_def)

lemma wp_set_open: "(\<And>mt'. mt_registry mt' = mt_registry mt \<Longrightarrow> Q () mt') \<Longrightarrow> wp E (set_open sy) Q mt"
  by (simp add: wp_def set_open_def)

lemma wp_update_depth:
  assumes st: "settings_ok (me_settings (av_matcher env))" "0 \<le> me_max_age (av_matcher env)"
    and live: "alive t mt" and t: "t \<le> av_clock env" "av_clock env \<le> av_clock2 env"
    and there: "dict_get (rg_books (mt_registry mt)) sy \<noteq> None \<or> \<not> blank sy"
    and Q: "\<And>mt'. alive (av_clock2 env) mt' \<Longrightarrow> (\<And>oid. tracked mt oid = None \<Longrightarrow> tracked mt' oid = None) \<Longrightarrow> Q () mt'"
  shows "wp E (update_orderbook_depth env sy) Q mt"
proof -
  let ?rest = "seq_call (ask sy (av_clock env) (total_of_side BUY)) (\<lambda>n.
           seq_call (set_depth sy BUY n) (\<lambda>_.
           seq_call (ask sy (av_clock2 env) (total_of_side SELL)) (\<lambda>m.
           seq_call (set_depth sy SELL m) (\<lambda>_. set_open sy))))"
  from st(1) show ?thesis
  proof (cases rule: reg_get_other [where g = "mt_registry mt" and sy = sy])
    case (own g1)
    obtain g' b where g: "reg_get (av_matcher env) sy g1 = (g', Inr (Some b))" "dict_get (rg_books g') sy = Some b"
      "rg_orders g' = rg_orders g1" using reg_get_owned [OF st(2) own(2)] there own(3) by metis
    let ?mt = "mt\<lparr>mt_registry := g'\<rparr>"
    have "reg_get (av_matcher env) sy (mt_registry mt) = (g', Inr (Some b))" using own(1) g(1) by simp
    then have run: "wp E (update_orderbook_depth env sy) Q mt = wp E ?rest Q ?mt" and live1: "alive t ?mt"
      using reg_reach.get [OF live] by (simp_all add: update_orderbook_depth_def on_registry_def wp_def seq_call_def)
    have "wp E (ask sy (av_clock env) (total_of_side BUY)) (\<lambda>n. wp E (seq_call (set_depth sy BUY n) (\<lambda>_.
           seq_call (ask sy (av_clock2 env) (total_of_side SELL)) (\<lambda>m.
           seq_call (set_depth sy SELL m) (\<lambda>_. set_open sy)))) Q) ?mt"
    proof (rule wp_ask_total [OF live1 t(1)])
      fix n mt2
      assume l2: "alive (av_clock env) mt2" "dict_get (rg_books (mt_registry mt2)) sy \<noteq> None"
        and tr2: "\<And>oid. tracked ?mt oid = None \<Longrightarrow> tracked mt2 oid = None"
      show "wp E (seq_call (set_depth sy BUY n) (\<lambda>_.
           seq_call (ask sy (av_clock2 env) (total_of_side SELL)) (\<lambda>m.
           seq_call (set_depth sy SELL m) (\<lambda>_. set_open sy)))) Q mt2"
        unfolding wp_seq wp_set_depth
        by (rule wp_ask_total [where t = "av_clock env"], simp_all add: l2 t del: wp_seq, rule wp_set_open, rule Q)
          (use tr2 own(4) g(3) in auto)
    qed (use g(2) in simp)
    then show ?thesis unfolding run wp_seq .
  next
    case (other g')
    then have "wp E (update_orderbook_depth env sy) Q mt = Q () (mt\<lparr>mt_registry := g'\<rparr>)"
      by (simp add: update_orderbook_depth_def on_registry_def wp_def seq_call_def)
    moreover have "alive (av_clock2 env) (mt\<lparr>mt_registry := g'\<rparr>)"
      using reg_reach.wait [OF reg_reach.cache [OF live]] other(4) t by fastforce
    ultimately show ?thesis using Q [of "mt\<lparr>mt_registry := g'\<rparr>"] other(3) by simp
  qed
qed


lemma wp_submit:
  assumes st: "0 \<le> me_max_age (av_matcher env)" and live: "alive t mt" and own: "owns env (order_symbol ord) (mt_registry mt)"
    and t: "t \<le> expire_clock (av_submit env)" "expire_clock (av_submit env) \<le> rest_clock (av_submit env)"
    and ord: "valid_order ord" "tracked mt (order_id ord) = None"
    and Q: "\<And>res mt'. alive (rest_clock (av_submit env)) mt' \<Longrightarrow> result_order_id res = order_id ord \<Longrightarrow>
      dict_get (rg_books (mt_registry mt')) (order_symbol ord) \<noteq> None \<Longrightarrow> Q res mt'"
  shows "wp E (on_registry (reg_submit (av_matcher env) (av_submit env) ord)) Q mt"
proof -
  let ?sy = "order_symbol ord" and ?g = "mt_registry mt"
  have nb: "\<not> blank ?sy" and q: "0 < quantity ord" using ord(1) by (simp_all add: valid_order_def)
  obtain g1 b where g1: "reg_get (av_matcher env) ?sy ?g = (g1, Inr (Some b))" "dict_get (rg_books g1) ?sy = Some b"
    "rg_cache g1 = rg_cache ?g" "rg_orders g1 = rg_orders ?g"
    by (rule reg_get_owned [OF st own]) (use nb in simp)
  have ok: "registry_ok t g1" by (rule reg_get_ok(1) [OF reg_reach_ok [OF live] g1(1)])
  have b: "book_ok t b" "bk_symbol b = ?sy" using registry_okD(3,4) [OF ok g1(2)] by (simp_all add: book_inv_def)
  have fresh: "order_id ord \<notin> open_ids b"
    using registry_okD(5) [OF ok] g1(2,4) ord(2) by (metis books.exact_def option.distinct(1))
  obtain b' ev res where s: "book_submit (av_submit env) ord b = (b', ev, Inr res)"
    "ref_submit (stamps (av_submit env)) ord (abs_at (expire_clock (av_submit env)) b) = (abs_book b', Inr res)"
    using book_submit_spec [OF b(1) t b(2) [symmetric] q fresh] by blast
  let ?g' = "fst (on_book ?sy (b', ev, Inr res) g1)"
  have run: "reg_submit (av_matcher env) (av_submit env) ord ?g = (?g', Inr res)"
    by (simp add: reg_submit_def g1(1) s(1) on_book_def)
  have "reg_reach (rest_clock (av_submit env)) ?g'"
    by (rule reg_reach.submit [OF live t ord(1) _ run]) (use ord(2) in simp)
  moreover have "result_order_id res = order_id ord"
    using s(2) by (auto simp: ref_submit_def Let_def split: if_splits prod.splits)
  moreover have "dict_get (rg_books ?g') ?sy \<noteq> None" by (simp add: on_book_def callbacks_frame dict_simps)
  ultimately show ?thesis using Q [of "mt\<lparr>mt_registry := ?g'\<rparr>" res] run by (simp add: wp_def on_registry_def)
qed

lemma reg_cancel_result:
  assumes live: "reg_reach t g" and now: "t \<le> now" and run: "reg_cancel me now oid g = (g', Inr oo)"
  shows "order_id (oo_order oo) = oid \<and> 0 < oo_remaining oo \<and> dict_get (rg_books g') (order_symbol (oo_order oo)) \<noteq> None"
proof -
  obtain sy where sy: "dict_get (rg_orders g) oid = Some sy" using run by (auto simp: reg_cancel_def split: option.splits)
  obtain g1 b where g1: "reg_get me sy g = (g1, Inr (Some b))"
    using run sy by (auto simp: reg_cancel_def Let_def split: prod.splits sum.splits option.splits)
  note get = reg_get_ok [OF reg_reach_ok [OF live] g1]
  have b: "dict_get (rg_books g1) sy = Some b" using get(4) by simp
  have inv: "book_ok t b" "ref_ok (abs_book b)" "own_orders (abs_book b)" "bk_symbol b = sy"
    using registry_okD(3,4) [OF get(1) b] by (simp_all add: book_inv_def)
  obtain b' ev res where c: "book_cancel now oid b = (b', ev, res)" "ref_cancel oid (abs_at now b) = (abs_book b', res)"
    using book_cancel_spec [OF inv(1) now, of oid] by blast
  have res: "res = Inr oo" and g': "rg_books g' = dict_set (rg_books g1) sy b'"
    using run sy g1 c(1)
    by (auto simp: reg_cancel_def on_book_def callbacks_frame split: sum.splits py_error.splits)
  have x: "order_id (oo_order oo) = oid" "oo \<in> set (rb_side (abs_at now b) (side (oo_order oo)))"
    using ref_cancel_ok(2) [OF abs_at_ok [OF inv(2)] c(2) res] by simp_all
  have "order_symbol (oo_order oo) = sy" using abs_at_own [OF inv(3)] x(2) inv(4) by (auto simp: own_orders_def)
  moreover have "0 < oo_remaining oo" using abs_at_ok [OF inv(2)] x(2) by (auto simp: ref_ok_def side_list_ok_def)
  ultimately show ?thesis using x(1) by (simp add: g' dict_simps)
qed

lemma reg_cancel_errors:
  assumes live: "reg_reach t g" and now: "t \<le> now" and st: "settings_ok (me_settings me)"
    and run: "reg_cancel me now oid g = (g', Inl e)"
  shows "e = OrderNotFoundError oid"
proof (cases "dict_get (rg_orders g) oid")
  case None
  then show ?thesis using run by (auto simp: reg_cancel_def)
next
  case (Some sy)
  obtain b where b: "dict_get (rg_books g) sy = Some b"
    using registry_okD(5) [OF reg_reach_ok [OF live]] Some by (auto simp: books.exact_def)
  obtain c owned where o: "is_owned_symbol (me_settings me) (me_rows me) sy (rg_cache g) = (c, Inr owned)"
    using owned_settles [OF st] by metis
  have get: "reg_get me sy g = (g\<lparr>rg_cache := c\<rparr>, Inr (if owned then Some b else None))"
    using o b by (simp add: reg_get_def Let_def split: bool.split)
  have inv: "book_inv t b" using registry_okD(3) [OF reg_reach_ok [OF live] b] .
  obtain b' ev r where s: "book_cancel now oid b = (b', ev, r)" by (cases "book_cancel now oid b") auto
  have "r = Inl err \<Longrightarrow> err = OrderNotFoundError oid" for err
    using books.cancel_law [OF inv now s] by blast
  then show ?thesis using run Some get s
    by (cases owned; cases r) (auto simp: reg_cancel_def on_book_def)
qed

section \<open>Properties\<close>

text \<open>
  An order request is always answered, and safely. From any reachable registry, with a fresh
  identifier and clock readings in order, \<open>create_order\<close> ends in one of three ways: 409 while
  the market is closed, with the registry untouched; 201 with the result of the order, only in
  an open market and for a well-formed payload; or a \<open>ValidationError\<close>. No internal error of
  the books or of the lookups reaches the client, and the registry stays reachable.
\<close>

theorem order_request_answered:
  assumes env: "env_ok t env" and live: "alive t mt" and fresh: "tracked mt (av_order_id env) = None"
    and run: "create_order env r mt = (mt', res)"
  shows "alive (av_clock2 env) mt'
    \<and> (case res of
         Inr (DetailResponse code _) \<Rightarrow> code = 409 \<and> mt_registry mt' = mt_registry mt
           \<and> is_open (av_seoul env) (av_mode env) (Aware (av_wall env)) = Inr False
       | Inr (OrderCreated m) \<Rightarrow> is_open (av_seoul env) (av_mode env) (Aware (av_wall env)) = Inr True
           \<and> order_fields r \<and> result_order_id m = av_order_id env
       | Inl (ValidationError _) \<Rightarrow> True
       | _ \<Rightarrow> False)"
proof -
  have st: "settings_ok (me_settings (av_matcher env))" "0 \<le> me_max_age (av_matcher env)"
    and cl: "t \<le> expire_clock (av_submit env)" "expire_clock (av_submit env) \<le> rest_clock (av_submit env)"
      "rest_clock (av_submit env) \<le> av_clock env" "av_clock env \<le> av_clock2 env"
    using env by (simp_all add: env_ok_def)
  have T: "t \<le> av_clock2 env" using cl by linarith
  obtain b where o: "is_open (av_seoul env) (av_mode env) (Aware (av_wall env)) = Inr b"
    by (simp add: is_open_def localize_def Let_def)
  show ?thesis
  proof (cases b)
    case False
    then show ?thesis using run o later [OF live T] by (auto simp: create_order_def reject_def)
  next
    case True
    let ?E = "refused_request (av_clock2 env)"
    let ?Q = "\<lambda>x mt'. alive (av_clock2 env) mt' \<and> (\<exists>m. x = OrderCreated m \<and> result_order_id m = av_order_id env \<and> order_fields r)"
    let ?body = "\<lambda>mt. if \<not> order_fields r then (reject ''validation_error'' mt, Inl (ValidationError ''invalid field''))
            else case request_order (av_order_id env) r of
              Inl e \<Rightarrow> (mt, Inl e)
            | Inr ord \<Rightarrow>
                seq_call (check_symbol env (order_symbol ord) reject) (\<lambda>_. submit_order env ord) mt"
    have "wp ?E (rollover_market_session env) (\<lambda>_. wp ?E ?body ?Q) mt"
    proof (rule wp_rollover [OF live])
      fix mt1 assume live1: "alive t mt1" and tr: "\<And>oid. tracked mt oid = None \<Longrightarrow> tracked mt1 oid = None"
      show "wp ?E ?body ?Q mt1"
      proof (cases "order_fields r")
        case False
        then show ?thesis using later [OF live1 T] by (simp add: wp_def refused_request_def reject_def)
      next
        case fields: True
        then have r: "\<not> blank (or_user r)" "\<not> blank (or_symbol r)" "or_side r = ''BUY'' \<or> or_side r = ''SELL''"
          "1 \<le> or_price r" "1 \<le> or_quantity r"
          using text_field_not_blank by (auto simp: order_fields_def)
        then obtain s where s: "order_side_of (or_side r) = Inr s" by (auto simp: order_side_of_def side_value_def)
        define ord where "ord = \<lparr>user_id = or_user r, order_symbol = or_symbol r, side = s, price = or_price r,
          quantity = or_quantity r, order_id = av_order_id env\<rparr>"
        have ord: "request_order (av_order_id env) r = Inr ord" and valid: "valid_order ord"
          using r by (simp_all add: request_order_def s make_order_def ord_def valid_order_def)
        have id: "order_id ord = av_order_id env" by (simp add: ord_def)
        have "wp ?E (check_symbol env (order_symbol ord) reject) (\<lambda>_. wp ?E (submit_order env ord) ?Q) mt1"
        proof (rule wp_check_symbol [OF st(1) live1 T])
          fix mt2 assume live2: "alive t mt2" and same: "rg_orders (mt_registry mt2) = rg_orders (mt_registry mt1)"
            and own: "owns env (order_symbol ord) (mt_registry mt2)"
          let ?mt3 = "mt2\<lparr>mt_submitted := inc (mt_submitted mt2) (order_symbol ord, side ord) 1\<rparr>"
          have "wp ?E (on_registry (reg_submit (av_matcher env) (av_submit env) ord)) (\<lambda>res.
              wp ?E (count_trades (order_symbol ord) res) (\<lambda>_.
              wp ?E (update_orderbook_depth env (order_symbol ord)) (\<lambda>_. wp ?E (\<lambda>mt. (mt, Inr (OrderCreated res))) ?Q))) ?mt3"
          proof (rule wp_submit [where t = t, OF st(2)])
            fix res :: match_result and mt4
            assume l4: "alive (rest_clock (av_submit env)) mt4" and rid: "result_order_id res = order_id ord"
              and bk: "dict_get (rg_books (mt_registry mt4)) (order_symbol ord) \<noteq> None"
            show "wp ?E (count_trades (order_symbol ord) res) (\<lambda>_.
              wp ?E (update_orderbook_depth env (order_symbol ord)) (\<lambda>_. wp ?E (\<lambda>mt. (mt, Inr (OrderCreated res))) ?Q)) mt4"
              unfolding count_trades_def wp_assign
              by (rule wp_update_depth [OF st _ cl(3,4)]) (use l4 bk rid id fields in simp_all)
          qed (use live2 own cl valid tr [OF fresh] same id in simp_all)
          then show "wp ?E (submit_order env ord) ?Q mt2"
            unfolding submit_order_def wp_seq wp_assign .
        qed (simp add: reject_def)
        then have "wp ?E (seq_call (check_symbol env (order_symbol ord) reject) (\<lambda>_. submit_order env ord)) ?Q mt1" by simp
        then show ?thesis using fields ord unfolding wp_def by simp
      qed
    qed
    then have "wp ?E (seq_call (rollover_market_session env) (\<lambda>_. ?body)) ?Q mt" by simp
    moreover have "seq_call (rollover_market_session env) (\<lambda>_. ?body) mt = (mt', res)"
      using run o True by (simp add: create_order_def)
    ultimately show ?thesis using o True
      by (auto simp: wp_def refused_request_def split: sum.splits)
  qed
qed


lemma cancel_untracked:
  assumes "tracked mt oid = None"
  shows "on_registry (reg_cancel me now oid) mt = (mt, Inl (OrderNotFoundError oid))"
  using assms by (simp add: on_registry_def reg_cancel_def)

lemma wp_check_query:
  assumes st: "settings_ok (me_settings (av_matcher env))" and live: "alive t mt" and T: "t \<le> T"
    and Q: "\<And>mt'. alive t mt' \<Longrightarrow> rg_orders (mt_registry mt') = rg_orders (mt_registry mt) \<Longrightarrow> Q () mt'"
  shows "wp (\<lambda>e mt. refused_request T e mt \<and> py_strip raw \<noteq> []) (check_query_symbol env raw) Q mt"
proof (cases "py_strip raw = []")
  case False
  have "wp (refused_request T) (check_symbol env (py_strip raw) (\<lambda>_ mt. mt)) Q mt"
    by (rule wp_check_symbol [OF st live T refl]) (use Q in simp)
  then show ?thesis using False by (simp add: check_query_symbol_def Let_def wp_def)
qed (use Q live in \<open>simp add: check_query_symbol_def Let_def\<close>)

lemma cancel_again:
  assumes env: "settings_ok (me_settings (av_matcher env))" and live: "alive t mt" and gone: "tracked mt oid = None"
    and run: "cancel_order env oid raw mt = (mt', Inr reply)"
  shows "reply = OrderCanceled oid ''ALREADY_CLOSED'' 0"
proof -
  let ?E = "\<lambda>e mt. refused_request t e mt \<and> py_strip raw \<noteq> []" and ?Q = "\<lambda>reply mt'. reply = OrderCanceled oid ''ALREADY_CLOSED'' 0"
  have body: "wp ?E (cancel_on_book env oid) ?Q mt" if "tracked mt oid = None" for mt
    using cancel_untracked [OF that] by (simp add: wp_def cancel_on_book_def)
  have "wp ?E (rollover_market_session env) (\<lambda>_. wp ?E (check_query_symbol env raw) (\<lambda>_. wp ?E (cancel_on_book env oid) ?Q)) mt"
  proof (rule wp_rollover [OF live])
    fix mt1 assume l1: "alive t mt1" and tr: "\<And>oid. tracked mt oid = None \<Longrightarrow> tracked mt1 oid = None"
    show "wp ?E (check_query_symbol env raw) (\<lambda>_. wp ?E (cancel_on_book env oid) ?Q) mt1"
      by (rule wp_check_query [OF env l1 order_refl]) (use tr [OF gone] body in simp)
  qed
  then have "wp ?E (cancel_order env oid raw) ?Q mt" by (simp add: cancel_order_def wp_seq_fun)
  then show ?thesis using run by (simp add: wp_def)
qed



text \<open>
  What a matcher reports about its shard is what the runner and the gateway read from it,
  whether its database answers or not, and every shard of a deployment, at the base port plus its
  index, leads them to the same list of shard URLs, whichever shard they ask.
\<close>

theorem readiness_topology_roundtrip:
  assumes "settings_ok st" "1 \<le> base"
  shows "matcher_topology_from_ready (snd (readiness st (base + shard_index st) database))
      = Inr (shard_index st, shard_count st, base + shard_index st)
    \<and> resolve_matcher_shard_urls ipv6 configured (shard_index st) (shard_count st) (base + shard_index st)
      = resolve_matcher_shard_urls ipv6 configured 0 (shard_count st) base"
proof -
  have s: "0 \<le> shard_index st" "shard_index st < shard_count st" "1 \<le> shard_count st"
    using assms(1) by (simp_all add: settings_ok_def)
  have "matcher_shard_urls ipv6 seed (shard_index st) (shard_count st) (base + shard_index st)
      = matcher_shard_urls ipv6 seed 0 (shard_count st) base" for seed
    unfolding matcher_shard_urls_def add_diff_cancel_right' diff_0_right using s by simp
  then have "resolve_matcher_shard_urls ipv6 configured (shard_index st) (shard_count st) (base + shard_index st)
      = resolve_matcher_shard_urls ipv6 configured 0 (shard_count st) base"
    unfolding resolve_matcher_shard_urls_def by (simp only:)
  then show ?thesis using s assms(2)
    by (simp add: readiness_def shard_topology_def matcher_topology_from_ready_def int_field_def)
qed

section \<open>Concrete requests\<close>

definition demo_settings_st :: sim_settings where
  "demo_settings_st = \<lparr>symbol_limit = 10, shard_count = 4, shard_index = 2\<rparr>"

lemma readiness_topology_roundtrip_witness:
  "matcher_topology_from_ready (snd (readiness demo_settings_st 8002 True)) = Inr (2, 4, 8002)
   \<and> resolve_matcher_shard_urls (\<lambda>_. True) [''http://m:8002''] 2 4 8002
     = resolve_matcher_shard_urls (\<lambda>_. True) [''http://m:8002''] 0 4 8000"
proof -
  have s: "settings_ok demo_settings_st" by (simp add: settings_ok_def demo_settings_st_def)
  show ?thesis using readiness_topology_roundtrip [OF s, of 8000 True "\<lambda>_. True" "[''http://m:8002'']"]
    by (simp add: demo_settings_st_def)
qed

definition demo_api :: api_env where
  "demo_api = \<lparr>av_matcher = demo_me, av_mode = AlwaysOpen, av_seoul = (\<lambda>_. 0), av_wall = 0, av_session_wall = 0,
     av_submit = demo_env 1, av_order_id = 2, av_clock = 1, av_clock2 = 1\<rparr>"

definition demo_matcher :: matcher where
  "demo_matcher = \<lparr>mt_registry = demo_registry, mt_depth = [], mt_open = [], mt_submitted = [], mt_rejected = [],
     mt_trades = [], mt_quantity = []\<rparr>"

lemma demo_api_ok: "env_ok 0 demo_api"
  by (simp add: env_ok_def demo_api_def demo_me_def settings_ok_def demo_env_def)

lemma demo_matcher_live: "alive 0 demo_matcher"
  using demo_registry_reach by (simp add: demo_matcher_def)

definition demo_request :: order_request where
  "demo_request = \<lparr>or_user = ''buyer'', or_symbol = ''005930'', or_side = ''BUY'', or_price = 100, or_quantity = 3\<rparr>"

lemma demo_created: "\<exists>m. snd (create_order demo_api demo_request demo_matcher) = Inr (OrderCreated m)"
proof -
  have "snd (create_order demo_api demo_request demo_matcher) = Inr (OrderCreated
    \<lparr>result_order_id = 2, result_trades = [\<lparr>trade_symbol = ''005930'', trade_price = 100, trade_quantity = 3,
       buy_order_id = 2, sell_order_id = 1, trade_id = 0, executed_at = 1\<rparr>], result_remaining = 0\<rparr>)"
    by code_simp
  then show ?thesis by blast
qed

lemma order_request_answered_witness:
  "\<exists>mt' m. create_order demo_api demo_request demo_matcher = (mt', Inr (OrderCreated m))
     \<and> result_order_id m = 2 \<and> alive 1 mt'"
proof -
  obtain mt' m where c: "create_order demo_api demo_request demo_matcher = (mt', Inr (OrderCreated m))"
    using demo_created by (metis prod.collapse)
  have "tracked demo_matcher (av_order_id demo_api) = None"
    by (simp add: demo_matcher_def demo_api_def demo_registry_orders)
  from order_request_answered [OF demo_api_ok demo_matcher_live this c] c show ?thesis by (auto simp: demo_api_def)
qed

lemma demo_canceled: "snd (cancel_order demo_api 1 [] demo_matcher) = Inr (OrderCanceled 1 ''CANCELED'' 5)"
  by code_simp


text \<open>The questions of the views are the calls of the book.\<close>

lemma ask_is_book_call:
  "book_snapshot_call now b = ask_book now snapshot_of b" "book_total_quantity now s b = ask_book now (total_of_side s) b"
  by (simp_all add: book_snapshot_call_def book_total_quantity_def ask_book_def snapshot_of_def total_of_side_def)

end
