(* ===== verification/Gateway_Metrics.thy ===== *)
theory Gateway_Metrics
  imports Py_Urls Py_Json "HOL-Library.List_Lexorder" "HOL-Library.Char_ord"
begin

text \<open>
  \<open>gateway/metrics.py\<close>: the counters and histograms of the gateway and their exposition
  as text. The lock makes each method one step; clock readings are arguments. The text of a
  float is an argument of \<open>render\<close>, since it is the interpreter's; so is what \<open>render\<close>
  reads from the process and from \<open>/proc\<close>.

  The lemmas say what a bucket counts: the observations up to its bound.
\<close>

section \<open>Histograms\<close>

definition duration_buckets :: "rat list" where
  "duration_buckets = [5 / 10000, 1 / 1000, 25 / 10000, 5 / 1000, 1 / 100, 25 / 1000, 5 / 100, 1 / 10, 2 / 10,
     4 / 10, 8 / 10, 16 / 10, 32 / 10, 64 / 10]"

record histogram =
  hg_bounds :: "rat list"
  hg_counts :: "int list"
  hg_total :: rat
  hg_count :: int

definition new_histogram :: "rat list \<Rightarrow> histogram" where
  "new_histogram bounds =
     \<lparr>hg_bounds = bounds, hg_counts = replicate (length bounds + 1) 0, hg_total = 0, hg_count = 0\<rparr>"

definition observe :: "rat \<Rightarrow> histogram \<Rightarrow> histogram" where
  "observe v h =
     (let i = bisect_left (hg_bounds h) v
      in h\<lparr>hg_counts := (hg_counts h)[i := hg_counts h ! i + 1],
           hg_total := hg_total h + v, hg_count := hg_count h + 1\<rparr>)"

section \<open>The metrics of the gateway\<close>

record gateway_metrics =
  gm_requests :: "(string \<times> string, int) dict"
  gm_durations :: "(string, histogram) dict"
  gm_upstream :: "(string, histogram) dict"
  gm_upstream_errors :: "(string, int) dict"
  gm_accept_wait :: histogram
  gm_in_flight :: int
  gm_port :: "int option"

definition new_metrics :: "int option \<Rightarrow> gateway_metrics" where
  "new_metrics port =
     \<lparr>gm_requests = [], gm_durations = [], gm_upstream = [], gm_upstream_errors = [],
      gm_accept_wait = new_histogram duration_buckets, gm_in_flight = 0, gm_port = port\<rparr>"

definition count_one :: "('k, int) dict \<Rightarrow> 'k \<Rightarrow> ('k, int) dict" where
  "count_one d k = dict_set d k ((case dict_get d k of None \<Rightarrow> 0 | Some n \<Rightarrow> n) + 1)"

text \<open>The histogram of a key, made when it is missing, and an observation in it.\<close>

definition observe_key :: "(string, histogram) dict \<Rightarrow> string \<Rightarrow> rat \<Rightarrow> (string, histogram) dict" where
  "observe_key d k v =
     dict_set d k (observe v (case dict_get d k of None \<Rightarrow> new_histogram duration_buckets | Some h \<Rightarrow> h))"

definition request_started :: "gateway_metrics \<Rightarrow> gateway_metrics" where
  "request_started gm = gm\<lparr>gm_in_flight := gm_in_flight gm + 1\<rparr>"

definition request_finished :: "string \<Rightarrow> int \<Rightarrow> rat \<Rightarrow> gateway_metrics \<Rightarrow> gateway_metrics" where
  "request_finished verb status t gm =
     gm\<lparr>gm_in_flight := gm_in_flight gm - 1,
        gm_requests := count_one (gm_requests gm) (verb, str_int status),
        gm_durations := observe_key (gm_durations gm) verb t\<rparr>"

definition observe_accept_wait :: "rat \<Rightarrow> gateway_metrics \<Rightarrow> gateway_metrics" where
  "observe_accept_wait t gm = gm\<lparr>gm_accept_wait := observe t (gm_accept_wait gm)\<rparr>"

definition observe_upstream :: "int \<Rightarrow> rat \<Rightarrow> bool \<Rightarrow> gateway_metrics \<Rightarrow> gateway_metrics" where
  "observe_upstream shard t failed gm =
     gm\<lparr>gm_upstream := observe_key (gm_upstream gm) (str_int shard) t,
        gm_upstream_errors := (if failed then count_one (gm_upstream_errors gm) (str_int shard)
                               else gm_upstream_errors gm)\<rparr>"

section \<open>Exposition\<close>

text \<open>What \<open>render\<close> does not compute: the texts of a bound and of a fixed-point number, and the process.\<close>

record render_env =
  re_bound :: "rat \<Rightarrow> string"
  re_fixed6 :: "rat \<Rightarrow> string"
  re_fixed3 :: "rat \<Rightarrow> string"
  re_threads :: int
  re_queue :: "int \<Rightarrow> int option"
  re_cpu :: rat
  re_rss :: "int option"

definition metric_header :: "string \<Rightarrow> string \<Rightarrow> string \<Rightarrow> string list" where
  "metric_header name kind help = [''# HELP '' @ name @ '' '' @ help, ''# TYPE '' @ name @ '' '' @ kind]"

definition quoted :: "string \<Rightarrow> string \<Rightarrow> string" where
  "quoted label v = label @ [CHR ''='', CHR 0x22] @ v @ [CHR 0x22]"

definition braced :: "string \<Rightarrow> string" where
  "braced s = ''{'' @ s @ ''}''"

text \<open>The loop over the buckets with the running sum, and the sum it ends with.\<close>

fun cumulative :: "int \<Rightarrow> rat list \<Rightarrow> int list \<Rightarrow> (rat \<times> int) list \<times> int" where
  "cumulative n (b # bs) (k # ks) =
     (let (rows, total) = cumulative (n + k) bs ks in ((b, n + k) # rows, total))"
| "cumulative n _ _ = ([], n)"

definition histogram_lines :: "render_env \<Rightarrow> string \<Rightarrow> string \<Rightarrow> histogram \<Rightarrow> string list" where
  "histogram_lines re name labels h =
     (let prefix = (if labels \<noteq> [] then labels @ '','' else []);
          (rows, total) = cumulative 0 (hg_bounds h) (hg_counts h);
          suffix = (if labels \<noteq> [] then braced labels else [])
      in map (\<lambda>(b, n). name @ ''_bucket'' @ braced (prefix @ quoted ''le'' (re_bound re b)) @ '' '' @ str_int n) rows
         @ [name @ ''_bucket'' @ braced (prefix @ quoted ''le'' ''+Inf'') @ '' '' @ str_int (total + last (hg_counts h)),
            name @ ''_sum'' @ suffix @ '' '' @ re_fixed6 re (hg_total h),
            name @ ''_count'' @ suffix @ '' '' @ str_int (hg_count h)])"

definition sorted_items :: "('k::linorder, 'v) dict \<Rightarrow> ('k \<times> 'v) list" where
  "sorted_items d = sort_key fst d"

definition request_lines :: "gateway_metrics \<Rightarrow> string list" where
  "request_lines gm =
     metric_header ''gateway_requests_total'' ''counter'' ''Requests answered by the gateway.''
     @ map (\<lambda>((verb, status), n). ''gateway_requests_total''
           @ braced (quoted ''method'' verb @ '','' @ quoted ''status'' status) @ '' '' @ str_int n)
         (sorted_items (gm_requests gm))"

definition histogram_family :: "render_env \<Rightarrow> string \<Rightarrow> string \<Rightarrow> (string, histogram) dict \<Rightarrow> string list" where
  "histogram_family re name label d =
     concat (map (\<lambda>(k, h). histogram_lines re name (quoted label k) h) (sorted_items d))"

definition process_lines :: "render_env \<Rightarrow> gateway_metrics \<Rightarrow> string list" where
  "process_lines re gm =
     metric_header ''gateway_in_flight_requests'' ''gauge'' ''Requests being handled right now.''
     @ [''gateway_in_flight_requests '' @ str_int (gm_in_flight gm)]
     @ metric_header ''gateway_threads'' ''gauge'' ''Live Python threads in the gateway process.''
     @ [''gateway_threads '' @ str_int (re_threads re)]
     @ (case gm_port gm of None \<Rightarrow> []
        | Some port \<Rightarrow>
            (case re_queue re port of None \<Rightarrow> []
             | Some n \<Rightarrow>
                 metric_header ''gateway_listen_queue'' ''gauge''
                   ''Connections accepted by the kernel but not yet by the gateway (ss Recv-Q).''
                 @ [''gateway_listen_queue '' @ str_int n]))
     @ metric_header ''process_cpu_seconds_total'' ''counter'' ''User and system CPU time of the gateway.''
     @ [''process_cpu_seconds_total '' @ re_fixed3 re (re_cpu re)]
     @ (case re_rss re of None \<Rightarrow> []
        | Some n \<Rightarrow>
            metric_header ''process_resident_memory_bytes'' ''gauge'' ''Resident memory of the gateway.''
            @ [''process_resident_memory_bytes '' @ str_int n])"

definition render_lines :: "render_env \<Rightarrow> gateway_metrics \<Rightarrow> string list" where
  "render_lines re gm =
     request_lines gm
     @ metric_header ''gateway_request_duration_seconds'' ''histogram''
         ''From the handler starting to the response written, by method.''
     @ histogram_family re ''gateway_request_duration_seconds'' ''method'' (gm_durations gm)
     @ metric_header ''gateway_upstream_duration_seconds'' ''histogram''
         ''Matcher round trip (connect, request, read) by shard.''
     @ histogram_family re ''gateway_upstream_duration_seconds'' ''shard'' (gm_upstream gm)
     @ metric_header ''gateway_upstream_errors_total'' ''counter'' ''Matcher round trips that failed (502).''
     @ map (\<lambda>(shard, n). ''gateway_upstream_errors_total'' @ braced (quoted ''shard'' shard) @ '' '' @ str_int n)
         (sorted_items (gm_upstream_errors gm))
     @ metric_header ''gateway_accept_wait_seconds'' ''histogram''
         ''From accept() to the handler thread starting. Grows when threads wait for the GIL.''
     @ histogram_lines re ''gateway_accept_wait_seconds'' [] (gm_accept_wait gm)
     @ process_lines re gm"

definition render :: "render_env \<Rightarrow> gateway_metrics \<Rightarrow> string" where
  "render re gm = py_join (CHR 0x0A) (render_lines re gm) @ [CHR 0x0A]"

section \<open>The kernel's tables\<close>

text \<open>\<open>s.splitlines()\<close>, \<open>s.split()\<close> and \<open>int(s, 16)\<close>.\<close>

definition line_break :: "char \<Rightarrow> bool" where
  "line_break c \<longleftrightarrow> (of_char c :: nat) \<in> {10, 11, 12, 13, 28, 29, 30, 133}"

function py_splitlines :: "string \<Rightarrow> string list" where
  "py_splitlines s =
     (if s = [] then []
      else takeWhile (\<lambda>c. \<not> line_break c) s #
        (case dropWhile (\<lambda>c. \<not> line_break c) s of
           c # d # rest \<Rightarrow> if c = CHR 0x0D \<and> d = CHR 0x0A then py_splitlines rest else py_splitlines (d # rest)
         | _ \<Rightarrow> []))"
  by pat_completeness auto
termination
proof (relation "measure length")
  fix s :: string and c l d rest
  assume "dropWhile (\<lambda>c. \<not> line_break c) s = c # l" "l = d # rest"
  then have "length (dropWhile (\<lambda>c. \<not> line_break c) s) = Suc (Suc (length rest))" by simp
  then have "Suc (Suc (length rest)) \<le> length s" by (metis length_dropWhile_le)
  then show "(rest, s) \<in> measure length" "(d # rest, s) \<in> measure length" by simp_all
qed simp

definition py_words :: "string \<Rightarrow> string list" where
  "py_words s = filter (\<lambda>p. p \<noteq> []) (py_split (map (\<lambda>c. if py_isspace c then CHR '' '' else c) s) (CHR '' ''))"

definition hex_digit :: "char \<Rightarrow> nat option" where
  "hex_digit c =
     (let n = (of_char c :: nat)
      in if 48 \<le> n \<and> n \<le> 57 then Some (n - 48) else if 65 \<le> n \<and> n \<le> 70 then Some (n - 55)
         else if 97 \<le> n \<and> n \<le> 102 then Some (n - 87) else None)"

definition py_int_hex :: "string \<Rightarrow> py_error + int" where
  "py_int_hex s =
     (let t = py_strip s;
          (neg, u) = (if py_startswith t ''-'' then (True, drop 1 t)
                      else if py_startswith t ''+'' then (False, drop 1 t) else (False, t));
          v = (if py_startswith (py_lower u) ''0x''
               then (if py_startswith (drop 2 u) ''_'' then drop 3 u else drop 2 u) else u);
          parts = py_split v (CHR ''_'')
      in if list_all (\<lambda>p. p \<noteq> [] \<and> list_all (\<lambda>c. hex_digit c \<noteq> None) p) parts
         then Inr ((if neg then - 1 else 1) * int (foldl (\<lambda>n c. 16 * n + the (hex_digit c)) 0 (concat parts)))
         else Inl (ValueError ''invalid literal for int()''))"

text \<open>\<open>f"{n:04X}"\<close>.\<close>

fun hex_nat :: "nat \<Rightarrow> string" where
  "hex_nat n = (if n < 16 then [''0123456789ABCDEF'' ! n] else hex_nat (n div 16) @ [''0123456789ABCDEF'' ! (n mod 16)])"

declare hex_nat.simps [simp del]

definition hex04 :: "int \<Rightarrow> string" where
  "hex04 i =
     (let digits = hex_nat (nat \<bar>i\<bar>)
      in if i < 0 then CHR ''-'' # replicate (3 - length digits) (CHR ''0'') @ digits
         else replicate (4 - length digits) (CHR ''0'') @ digits)"

text \<open>One line of the table, and all lines after the heading.\<close>

definition line_queue :: "string \<Rightarrow> string \<Rightarrow> py_error + int" where
  "line_queue wanted l =
     (let fields = py_words l
      in if length fields < 5 \<or> fields ! 3 \<noteq> ''0A'' then Inr 0
         else if snd (snd (py_rpartition (fields ! 1) (CHR '':''))) \<noteq> wanted then Inr 0
         else (case py_partition (fields ! 4) (CHR '':'') of
             (_, False, _) \<Rightarrow> Inl IndexError
           | (_, True, rx_queue) \<Rightarrow> py_int_hex rx_queue))"

fun sum_queues :: "string \<Rightarrow> string list \<Rightarrow> py_error + int" where
  "sum_queues wanted [] = Inr 0"
| "sum_queues wanted (l # ls) = ebind (line_queue wanted l) (\<lambda>n. ebind (sum_queues wanted ls) (\<lambda>m. Inr (n + m)))"

definition parse_listen_queue :: "string \<Rightarrow> int \<Rightarrow> py_error + int" where
  "parse_listen_queue table port = sum_queues (hex04 port) (drop 1 (py_splitlines table))"

text \<open>The files' contents are the argument, \<open>None\<close> for one that cannot be opened.\<close>

definition listen_queue_length :: "string option list \<Rightarrow> int \<Rightarrow> py_error + int option" where
  "listen_queue_length sources port =
     (let tables = concat (map (\<lambda>s. case s of None \<Rightarrow> [] | Some t \<Rightarrow> [t]) sources)
      in if tables = [] then Inr None
         else ebind (those_ok (map (\<lambda>t. parse_listen_queue t port) tables)) (\<lambda>ns. Inr (Some (sum_list ns))))"

definition resident_memory_bytes :: "string option \<Rightarrow> int \<Rightarrow> int option" where
  "resident_memory_bytes statm page_size =
     (case statm of None \<Rightarrow> None
      | Some s \<Rightarrow>
          (case py_words s of
             _ # pages # _ \<Rightarrow> (case py_int_str pages of Inl _ \<Rightarrow> None | Inr n \<Rightarrow> Some (n * page_size))
           | _ \<Rightarrow> None))"

section \<open>What the buckets count\<close>

text \<open>The value of a bucket line: the observations up to its bound.\<close>

definition bucket :: "histogram \<Rightarrow> nat \<Rightarrow> int" where
  "bucket h i = sum_list (take (Suc i) (hg_counts h))"

lemma duration_buckets_sorted: "sorted duration_buckets"
  by (simp add: duration_buckets_def)

text \<open>A histogram holds the observations \<open>vs\<close>.\<close>

definition holds_observations :: "histogram \<Rightarrow> rat list \<Rightarrow> bool" where
  "holds_observations h vs \<longleftrightarrow> hg_bounds h = duration_buckets
     \<and> length (hg_counts h) = length duration_buckets + 1
     \<and> (\<forall>i<length duration_buckets. bucket h i = int (length (filter (\<lambda>v. v \<le> duration_buckets ! i) vs)))
     \<and> sum_list (hg_counts h) = int (length vs) \<and> hg_count h = int (length vs) \<and> hg_total h = sum_list vs"

lemma sum_take_update:
  "i < length ns \<Longrightarrow> sum_list (take k (ns[i := ns ! i + 1])) = sum_list (take k ns) + (if i < k then 1 else (0::int))"
proof (induction ns arbitrary: i k)
  case (Cons n ns)
  then show ?case by (cases i; cases k) auto
qed simp

lemma holds_new [simp]: "holds_observations (new_histogram duration_buckets) []"
  by (simp add: holds_observations_def new_histogram_def bucket_def sum_list_replicate)

lemma holds_observe:
  assumes "holds_observations h vs"
  shows "holds_observations (observe v h) (vs @ [v])"
proof -
  let ?bs = "duration_buckets" and ?i = "bisect_left duration_buckets v"
  have h: "hg_bounds h = ?bs" "length (hg_counts h) = length ?bs + 1" "sum_list (hg_counts h) = int (length vs)"
    "hg_count h = int (length vs)" "hg_total h = sum_list vs"
    "\<And>j. j < length ?bs \<Longrightarrow> bucket h j = int (length (filter (\<lambda>v. v \<le> ?bs ! j) vs))"
    using assms by (simp_all add: holds_observations_def)
  note b = bisect_left_bounds [OF duration_buckets_sorted, where x = v]
  have i: "?i < length (hg_counts h)" using b(1) h(2) by simp
  have le: "v \<le> ?bs ! j \<longleftrightarrow> ?i \<le> j" if "j < length ?bs" for j
    using b(2,3) [of j] that by (metis leI le_less_trans less_irrefl)
  have "sum_list ((hg_counts h)[?i := hg_counts h ! ?i + 1]) = sum_list (hg_counts h) + 1"
    using sum_take_update [OF i, of "length (hg_counts h)"] i by simp
  then show ?thesis using h i le sum_take_update [OF i]
    by (simp add: holds_observations_def observe_def Let_def bucket_def less_Suc_eq_le)
qed

section \<open>Runs of the metrics\<close>

text \<open>The calls that the handler threads make, in the order in which they take the lock.\<close>

datatype metrics_call =
    CallStarted
  | CallFinished string int rat
  | CallAcceptWait rat
  | CallUpstream int rat bool

fun metrics_step :: "metrics_call \<Rightarrow> gateway_metrics \<Rightarrow> gateway_metrics" where
  "metrics_step CallStarted gm = request_started gm"
| "metrics_step (CallFinished verb status t) gm = request_finished verb status t gm"
| "metrics_step (CallAcceptWait t) gm = observe_accept_wait t gm"
| "metrics_step (CallUpstream shard t failed) gm = observe_upstream shard t failed gm"

definition metrics_run :: "metrics_call list \<Rightarrow> gateway_metrics \<Rightarrow> gateway_metrics" where
  "metrics_run calls gm = fold metrics_step calls gm"

text \<open>The observations of a method, of a shard, and of the accept loop, and the counted calls.\<close>

definition method_times :: "string \<Rightarrow> metrics_call list \<Rightarrow> rat list" where
  "method_times verb calls = concat (map (\<lambda>c. case c of CallFinished w _ t \<Rightarrow> if w = verb then [t] else [] | _ \<Rightarrow> []) calls)"

definition shard_times :: "string \<Rightarrow> metrics_call list \<Rightarrow> rat list" where
  "shard_times label calls =
     concat (map (\<lambda>c. case c of CallUpstream i t _ \<Rightarrow> if str_int i = label then [t] else [] | _ \<Rightarrow> []) calls)"

definition accept_times :: "metrics_call list \<Rightarrow> rat list" where
  "accept_times calls = concat (map (\<lambda>c. case c of CallAcceptWait t \<Rightarrow> [t] | _ \<Rightarrow> []) calls)"

definition calls_with :: "(metrics_call \<Rightarrow> bool) \<Rightarrow> metrics_call list \<Rightarrow> int" where
  "calls_with P calls = int (length (filter P calls))"

fun is_started :: "metrics_call \<Rightarrow> bool" where
  "is_started CallStarted = True" | "is_started _ = False"

fun is_finished :: "metrics_call \<Rightarrow> bool" where
  "is_finished (CallFinished _ _ _) = True" | "is_finished _ = False"

fun answered_with :: "string \<times> string \<Rightarrow> metrics_call \<Rightarrow> bool" where
  "answered_with k (CallFinished verb status _) = (k = (verb, str_int status))" | "answered_with k _ = False"

fun failed_on :: "string \<Rightarrow> metrics_call \<Rightarrow> bool" where
  "failed_on label (CallUpstream i _ failed) = (failed \<and> str_int i = label)" | "failed_on label _ = False"

definition counter_value :: "('k, int) dict \<Rightarrow> 'k \<Rightarrow> int" where
  "counter_value d k = (case dict_get d k of None \<Rightarrow> 0 | Some n \<Rightarrow> n)"

definition histogram_of :: "(string, histogram) dict \<Rightarrow> string \<Rightarrow> histogram" where
  "histogram_of d k = (case dict_get d k of None \<Rightarrow> new_histogram duration_buckets | Some h \<Rightarrow> h)"

definition metrics_agree :: "gateway_metrics \<Rightarrow> metrics_call list \<Rightarrow> bool" where
  "metrics_agree gm calls \<longleftrightarrow>
     gm_in_flight gm = calls_with is_started calls - calls_with is_finished calls
     \<and> (\<forall>k. counter_value (gm_requests gm) k = calls_with (answered_with k) calls)
     \<and> (\<forall>k. counter_value (gm_upstream_errors gm) k = calls_with (failed_on k) calls)
     \<and> (\<forall>k. holds_observations (histogram_of (gm_durations gm) k) (method_times k calls))
     \<and> (\<forall>k. holds_observations (histogram_of (gm_upstream gm) k) (shard_times k calls))
     \<and> holds_observations (gm_accept_wait gm) (accept_times calls)"

lemma counter_value_count_one:
  "counter_value (count_one d k) k' = counter_value d k' + (if k' = k then 1 else 0)"
  by (auto simp: counter_value_def count_one_def update_conv split: option.splits)

lemma histogram_of_observe_key:
  "histogram_of (observe_key d k v) k' = (if k' = k then observe v (histogram_of d k) else histogram_of d k')"
  by (auto simp: histogram_of_def observe_key_def update_conv split: option.splits)

lemma times_snoc [simp]:
  "method_times k (calls @ [c]) = method_times k calls
     @ (case c of CallFinished w _ t \<Rightarrow> if w = k then [t] else [] | _ \<Rightarrow> [])"
  "shard_times k (calls @ [c]) = shard_times k calls
     @ (case c of CallUpstream i t _ \<Rightarrow> if str_int i = k then [t] else [] | _ \<Rightarrow> [])"
  "accept_times (calls @ [c]) = accept_times calls @ (case c of CallAcceptWait t \<Rightarrow> [t] | _ \<Rightarrow> [])"
  "calls_with P (calls @ [c]) = calls_with P calls + (if P c then 1 else 0)"
  by (simp_all add: method_times_def shard_times_def accept_times_def calls_with_def)

lemma metrics_step_agrees:
  assumes "metrics_agree gm calls"
  shows "metrics_agree (metrics_step c gm) (calls @ [c])"
  using assms holds_observe
  by (cases c)
    (auto simp: metrics_agree_def request_started_def request_finished_def observe_accept_wait_def observe_upstream_def
      counter_value_count_one histogram_of_observe_key)

lemma new_metrics_agree: "metrics_agree (new_metrics port) []"
  by (simp add: metrics_agree_def new_metrics_def calls_with_def counter_value_def histogram_of_def
      method_times_def shard_times_def accept_times_def)

lemma metrics_run_agrees: "metrics_agree (metrics_run calls (new_metrics port)) calls"
proof (induction calls rule: rev_induct)
  case (snoc c calls)
  then show ?case using metrics_step_agrees by (simp add: metrics_run_def)
qed (simp add: metrics_run_def new_metrics_agree)

text \<open>The rows of an exposed histogram are its buckets, and the last line is its count.\<close>

lemma cumulative_spec:
  "length bs \<le> length ns \<Longrightarrow>
   cumulative n bs ns = (map (\<lambda>i. (bs ! i, n + sum_list (take (Suc i) ns))) [0..<length bs],
     n + sum_list (take (length bs) ns))"
proof (induction bs arbitrary: n ns)
  case (Cons b bs)
  then obtain k ks where ns: "ns = k # ks" by (cases ns) auto
  have "[0..<length (b # bs)] = 0 # map Suc [0..<length bs]" by (simp add: map_Suc_upt upt_conv_Cons del: upt_Suc)
  then show ?case using Cons ns by (simp add: algebra_simps comp_def del: upt_Suc)
qed simp

lemma cumulative_observations:
  assumes "holds_observations h vs"
  shows "cumulative 0 (hg_bounds h) (hg_counts h)
    = (map (\<lambda>i. (duration_buckets ! i, int (length (filter (\<lambda>v. v \<le> duration_buckets ! i) vs))))
         [0..<length duration_buckets], int (length vs) - last (hg_counts h))"
proof -
  have h: "hg_bounds h = duration_buckets" "length (hg_counts h) = length duration_buckets + 1"
    "sum_list (hg_counts h) = int (length vs)"
    "\<And>j. j < length duration_buckets \<Longrightarrow> sum_list (take (Suc j) (hg_counts h)) = int (length (filter (\<lambda>v. v \<le> duration_buckets ! j) vs))"
    using assms by (simp_all add: holds_observations_def bucket_def)
  have "hg_counts h \<noteq> []" using h(2) by auto
  then have "hg_counts h = take (length duration_buckets) (hg_counts h) @ [last (hg_counts h)]"
    using h(2) by (metis add_diff_cancel_right' append_butlast_last_id butlast_conv_take)
  then have "sum_list (hg_counts h) = sum_list (take (length duration_buckets) (hg_counts h)) + last (hg_counts h)"
    by (metis add.right_neutral sum_list.Cons sum_list.Nil sum_list_append)
  then show ?thesis using h by (simp add: cumulative_spec)
qed

text \<open>What the lines of a histogram say: every bound with the observations up to it, and all of them.\<close>

definition exposes :: "histogram \<Rightarrow> rat list \<Rightarrow> bool" where
  "exposes h vs \<longleftrightarrow>
     fst (cumulative 0 (hg_bounds h) (hg_counts h))
       = map (\<lambda>b. (b, int (length (filter (\<lambda>v. v \<le> b) vs)))) duration_buckets
     \<and> snd (cumulative 0 (hg_bounds h) (hg_counts h)) + last (hg_counts h) = int (length vs)
     \<and> hg_count h = int (length vs) \<and> hg_total h = sum_list vs"

lemma holds_exposes: "holds_observations h vs \<Longrightarrow> exposes h vs"
proof -
  assume h: "holds_observations h vs"
  have "map (\<lambda>i. (duration_buckets ! i, int (length (filter (\<lambda>v. v \<le> duration_buckets ! i) vs)))) [0..<length duration_buckets]
      = map (\<lambda>b. (b, int (length (filter (\<lambda>v. v \<le> b) vs)))) duration_buckets"
    by (rule nth_equalityI) (simp_all del: upt_Suc)
  then show ?thesis using h cumulative_observations [OF h] by (simp add: exposes_def holds_observations_def)
qed

text \<open>Whatever calls the handler threads make on new metrics and in whatever order they take
  the lock, the requests in flight are those started and not finished, the counters count the
  answers and the failed round trips, and every histogram exposes the times observed under its
  label: each bucket counts the observations up to its bound, the last one counts all.\<close>

theorem metrics_expose_observations:
  "case metrics_run calls (new_metrics port) of gm \<Rightarrow>
     gm_in_flight gm = calls_with is_started calls - calls_with is_finished calls
     \<and> (\<forall>verb status. counter_value (gm_requests gm) (verb, status) = calls_with (answered_with (verb, status)) calls)
     \<and> (\<forall>shard. counter_value (gm_upstream_errors gm) shard = calls_with (failed_on shard) calls)
     \<and> (\<forall>verb. exposes (histogram_of (gm_durations gm) verb) (method_times verb calls))
     \<and> (\<forall>shard. exposes (histogram_of (gm_upstream gm) shard) (shard_times shard calls))
     \<and> exposes (gm_accept_wait gm) (accept_times calls)"
  using metrics_run_agrees [of calls port] holds_exposes by (simp add: metrics_agree_def)

end
