(* ===== verification/Gateway.thy ===== *)
theory Gateway
  imports Matcher_Invariant
begin

text \<open>
  The symbol gateway: \<open>gateway/routing.py\<close>, \<open>gateway/universe.py\<close>, \<open>gateway/discovery.py\<close>
  and the request handling of \<open>gateway/proxy.py\<close>.

  A compiled pattern is a function on the path: \<open>$\<close> also matches before a final newline, and
  \<open>\d\<close> is a decimal digit. Percent-decoding (\<open>unquote_plus\<close>) and the text of floats and
  containers are arguments, since their results can leave the code points below 256; so are
  \<open>json.loads\<close> of a body, with the decoding of its bytes, and the connection to a matcher.
\<close>

section \<open>Paths\<close>

definition strip_prefix :: "string \<Rightarrow> string \<Rightarrow> string option" where
  "strip_prefix p s = (if py_startswith s p then Some (drop (length p) s) else None)"

text \<open>\<open>/?$\<close>.\<close>

definition path_end :: "string \<Rightarrow> bool" where
  "path_end s \<longleftrightarrow> s \<in> {[], ''/'', [CHR 0x0A], [CHR ''/'', CHR 0x0A]}"

definition hex_char :: "char \<Rightarrow> bool" where
  "hex_char c \<longleftrightarrow> is_digit c \<or> c \<in> set ''abcdefABCDEF-''"

text \<open>A nonempty run of characters of a class, then \<open>/?$\<close>; the run is the group.\<close>

definition run_then_end :: "(char \<Rightarrow> bool) \<Rightarrow> string \<Rightarrow> string option" where
  "run_then_end P s = (if takeWhile P s \<noteq> [] \<and> path_end (dropWhile P s) then Some (takeWhile P s) else None)"

definition exact_path :: "string \<Rightarrow> string \<Rightarrow> bool" where
  "exact_path p path = (case strip_prefix p path of None \<Rightarrow> False | Some rest \<Rightarrow> path_end rest)"

definition run_path :: "string \<Rightarrow> (char \<Rightarrow> bool) \<Rightarrow> string \<Rightarrow> string option" where
  "run_path p P path = (case strip_prefix p path of None \<Rightarrow> None | Some rest \<Rightarrow> run_then_end P rest)"

definition book_path :: "string \<Rightarrow> string option" where
  "book_path path =
     (case strip_prefix ''/api/v1/books/'' path of
        None \<Rightarrow> None
      | Some rest \<Rightarrow>
          if length (take 6 rest) = 6 \<and> list_all is_digit (take 6 rest) \<and> path_end (drop 6 rest)
          then Some (take 6 rest) else None)"

definition order_create_path :: "string \<Rightarrow> bool" where
  "order_create_path = exact_path ''/api/v1/orders''"

definition order_cancel_path :: "string \<Rightarrow> bool" where
  "order_cancel_path path \<longleftrightarrow> run_path ''/api/v1/orders/'' hex_char path \<noteq> None"

definition trades_path :: "string \<Rightarrow> bool" where
  "trades_path = exact_path ''/api/v1/trades''"

definition metrics_shard_path :: "string \<Rightarrow> string option" where
  "metrics_shard_path = run_path ''/metrics/'' is_digit"

definition ready_shard_path :: "string \<Rightarrow> string option" where
  "ready_shard_path = run_path ''/api/v1/ready/'' is_digit"

definition service_discovery_path :: "string \<Rightarrow> bool" where
  "service_discovery_path = exact_path ''/api/v1/prometheus-sd''"

definition gateway_metrics_path :: "string \<Rightarrow> bool" where
  "gateway_metrics_path = exact_path ''/gateway/metrics''"

definition event_ack_path :: "string \<Rightarrow> bool" where
  "event_ack_path path =
     (case strip_prefix ''/api/v1/events/'' path of
        None \<Rightarrow> False
      | Some rest \<Rightarrow>
          (let segment = takeWhile (\<lambda>c. c \<noteq> CHR ''/'') rest
           in segment \<noteq> [] \<and> exact_path ''/ack'' (drop (length segment) rest)))"

definition traders_path :: "string \<Rightarrow> bool" where
  "traders_path path \<longleftrightarrow> exact_path ''/api/v1/traders'' path \<or> run_path ''/api/v1/traders/'' hex_char path \<noteq> None"

definition default_shard_path :: "string \<Rightarrow> bool" where
  "default_shard_path path \<longleftrightarrow>
     exact_path ''/api/v1/health'' path \<or> exact_path ''/api/v1/events'' path
     \<or> exact_path ''/api/v1/events/pending'' path \<or> event_ack_path path \<or> exact_path ''/api/v1/ready'' path
     \<or> exact_path ''/api/v1/symbols'' path \<or> traders_path path \<or> exact_path ''/metrics'' path"

definition normalized_path :: "string \<Rightarrow> string" where
  "normalized_path path = (if py_startswith path ''/'' then path else CHR ''/'' # path)"

definition is_gateway_metrics_path :: "string \<Rightarrow> bool" where
  "is_gateway_metrics_path path = gateway_metrics_path (normalized_path path)"

definition is_service_discovery_path :: "string \<Rightarrow> bool" where
  "is_service_discovery_path path = service_discovery_path (normalized_path path)"

section \<open>Routing\<close>

record route =
  rt_shard :: int
  rt_symbol :: "symbol option"
  rt_upstream :: "string option"

definition matcher_listen_port :: "int \<Rightarrow> int \<Rightarrow> py_error + int" where
  "matcher_listen_port shard first_port =
     (if shard < 0 then Inl (ValueError ''shard_index must be at least 0'')
      else if first_port < 1 then Inl (ValueError ''first_port must be at least 1'')
      else Inr (first_port + shard))"

definition require_shard_index :: "string \<Rightarrow> int \<Rightarrow> py_error + int" where
  "require_shard_index raw shards =
     ebind (py_int_str raw) (\<lambda>i.
     if 0 \<le> i \<and> i < shards then Inr i else Inl (RoutingError 404 ''unknown matcher shard''))"

definition route_for_indexed_shard :: "string \<Rightarrow> string \<Rightarrow> int \<Rightarrow> py_error + route option" where
  "route_for_indexed_shard verb path shards =
     (if verb \<noteq> ''GET'' then Inr None
      else case metrics_shard_path path of
        Some raw \<Rightarrow> ebind (require_shard_index raw shards) (\<lambda>i.
          Inr (Some \<lparr>rt_shard = i, rt_symbol = None, rt_upstream = Some ''/metrics/''\<rparr>))
      | None \<Rightarrow> (case ready_shard_path path of
          Some raw \<Rightarrow> ebind (require_shard_index raw shards) (\<lambda>i.
            Inr (Some \<lparr>rt_shard = i, rt_symbol = None, rt_upstream = Some ''/api/v1/ready/''\<rparr>))
        | None \<Rightarrow> Inr None))"

text \<open>\<open>parse_qs(query, keep_blank_values=True)\<close>, as the pairs in order.\<close>

definition query_pairs :: "(string \<Rightarrow> string) \<Rightarrow> string \<Rightarrow> (string \<times> string) list" where
  "query_pairs unquote_plus query =
     map (\<lambda>nv. case py_partition nv (CHR ''='') of (n, _, v) \<Rightarrow> (unquote_plus n, unquote_plus v))
       (filter (\<lambda>nv. nv \<noteq> []) (py_split query (CHR ''&'')))"

definition required_query_symbol :: "(string \<Rightarrow> string) \<Rightarrow> string \<Rightarrow> py_error + symbol" where
  "required_query_symbol unquote_plus query =
     (let symbol = (case dict_get (query_pairs unquote_plus query) ''symbol'' of None \<Rightarrow> [] | Some v \<Rightarrow> py_strip v)
      in if symbol = [] then Inl (RoutingError 400 ''symbol is required'') else Inr symbol)"

definition symbol_from_order_body ::
  "(py_value \<Rightarrow> string) \<Rightarrow> (string \<Rightarrow> py_error + py_value) \<Rightarrow> string option \<Rightarrow> py_error + symbol" where
  "symbol_from_order_body repr loads body =
     (case body of
        None \<Rightarrow> Inl (RoutingError 400 ''order body is required'')
      | Some [] \<Rightarrow> Inl (RoutingError 400 ''order body is required'')
      | Some raw \<Rightarrow>
          (case loads raw of
             Inl JSONDecodeError \<Rightarrow> Inl (RoutingError 400 ''order body must be JSON'')
           | Inl e \<Rightarrow> Inl e
           | Inr (PyDict d) \<Rightarrow>
               (let v = json_get d ''symbol'' PyNone;
                    symbol = py_strip (if truthy v then py_str repr v else [])
                in if symbol = [] then Inl (RoutingError 400 ''symbol is required'') else Inr symbol)
           | Inr _ \<Rightarrow> Inl (RoutingError 400 ''order body must be an object'')))"

text \<open>What the gateway does not compute itself.\<close>

record gateway_env =
  gw_unquote :: "string \<Rightarrow> string"
  gw_repr :: "py_value \<Rightarrow> string"
  gw_loads :: "string \<Rightarrow> py_error + py_value"

definition symbol_from_request ::
  "gateway_env \<Rightarrow> string \<Rightarrow> string \<Rightarrow> string \<Rightarrow> string option \<Rightarrow> py_error + symbol" where
  "symbol_from_request gw verb path query body =
     (if verb = ''GET'' \<and> book_path path \<noteq> None then Inr (the (book_path path))
      else if verb = ''GET'' \<and> trades_path path then required_query_symbol (gw_unquote gw) query
      else if verb = ''POST'' \<and> order_create_path path then symbol_from_order_body (gw_repr gw) (gw_loads gw) body
      else if verb = ''DELETE'' \<and> order_cancel_path path then required_query_symbol (gw_unquote gw) query
      else Inl (RoutingError 404 ''gateway route is not allowed''))"

text \<open>\<open>method.upper()\<close>; the result is only compared with ASCII words.\<close>

definition upper_char :: "char \<Rightarrow> char" where
  "upper_char c = (let n = (of_char c :: nat) in if 97 \<le> n \<and> n \<le> 122 then char_of (n - 32) else c)"

definition py_upper :: "string \<Rightarrow> string" where
  "py_upper s = map upper_char s"

definition route_request ::
  "gateway_env \<Rightarrow> string list \<Rightarrow> int \<Rightarrow> string \<Rightarrow> string \<Rightarrow> string \<Rightarrow> string option \<Rightarrow> py_error + route" where
  "route_request gw tickers shards verb path query body =
     (if shards < 1 then Inl (RoutingError 500 ''shard_count must be at least 1'')
      else
        (let verb = py_upper verb; path = normalized_path path
         in ebind (route_for_indexed_shard verb path shards) (\<lambda>indexed.
            case indexed of
              Some r \<Rightarrow> Inr r
            | None \<Rightarrow>
                if default_shard_path path then Inr \<lparr>rt_shard = 0, rt_symbol = None, rt_upstream = None\<rparr>
                else ebind (symbol_from_request gw verb path query body) (\<lambda>sy.
                  case shard_for_ticker tickers sy shards of
                    None \<Rightarrow> Inl (RoutingError 400 ''symbol is not in the current simulation set'')
                  | Some i \<Rightarrow> Inr \<lparr>rt_shard = i, rt_symbol = Some sy, rt_upstream = None\<rparr>))))"

section \<open>The universe\<close>

definition payload_ticker :: "(py_value \<Rightarrow> string) \<Rightarrow> py_value \<Rightarrow> string list" where
  "payload_ticker repr v =
     (case v of
        PyDict d \<Rightarrow>
          if truthy (json_get d ''simulation_enabled'' PyNone)
          then (let x = json_get d ''ticker'' PyNone;
                    ticker = py_strip (if truthy x then py_str repr x else [])
                in if ticker = [] then [] else [ticker])
          else []
      | _ \<Rightarrow> [])"

definition tickers_from_symbols_payload :: "(py_value \<Rightarrow> string) \<Rightarrow> py_value \<Rightarrow> py_error + string list" where
  "tickers_from_symbols_payload repr payload =
     (case payload of
        PyDict d \<Rightarrow>
          (case json_get d ''results'' PyNone of
             PyList items \<Rightarrow>
               (case concat (map (payload_ticker repr) items) of
                  [] \<Rightarrow> Inl (ValueError ''symbol response has no simulated tickers'')
                | tickers \<Rightarrow> Inr tickers)
           | _ \<Rightarrow> Inl (ValueError ''symbol response must include results''))
      | _ \<Rightarrow> Inl (ValueError ''symbol response must include results''))"

text \<open>
  \<open>wait_for_tickers\<close>: the argument lists what each attempt of \<open>fetch_tickers\<close> meets;
  \<open>err_text\<close> is \<open>str\<close> of an exception.
\<close>

definition retried :: "py_error \<Rightarrow> bool" where
  "retried e \<longleftrightarrow> is_os_error e \<or> is_value_error e"

fun ticker_attempts ::
  "(py_error \<Rightarrow> string) \<Rightarrow> (py_value \<Rightarrow> string) \<Rightarrow> string \<Rightarrow> (py_error + py_value) list \<Rightarrow> py_error + string list" where
  "ticker_attempts err_text repr last_error [] = Inl (RuntimeError last_error)"
| "ticker_attempts err_text repr last_error (response # responses) =
     (case ebind response (tickers_from_symbols_payload repr) of
        Inr tickers \<Rightarrow> Inr tickers
      | Inl e \<Rightarrow> if retried e then ticker_attempts err_text repr (err_text e) responses else Inl e)"

definition wait_for_tickers ::
  "(py_error \<Rightarrow> string) \<Rightarrow> (py_value \<Rightarrow> string) \<Rightarrow> (py_error + py_value) list \<Rightarrow> py_error + string list" where
  "wait_for_tickers err_text repr = ticker_attempts err_text repr ''matcher universe is unavailable''"

section \<open>Discovery\<close>

definition parse_port :: "string \<Rightarrow> py_error + int" where
  "parse_port raw =
     ebind (py_int_str raw) (\<lambda>port. if port < 1 then Inl (ValueError ''port must be at least 1'') else Inr port)"

definition port_from_host_header :: "string \<Rightarrow> int \<Rightarrow> py_error + int" where
  "port_from_host_header header default_port =
     (let host = py_strip header
      in if py_startswith host ''[''
         then (case py_find host (CHR '']'') of
             None \<Rightarrow> Inl (ValueError ''invalid IPv6 host header'')
           | Some e \<Rightarrow>
               (let rest = drop (Suc e) host
                in if py_startswith rest '':'' then parse_port (drop 1 rest) else Inr default_port))
         else if py_count host (CHR '':'') = 1
         then (case py_partition host (CHR '':'') of (_, _, raw) \<Rightarrow> parse_port raw)
         else Inr default_port)"

definition advertised_scrape_target :: "string \<Rightarrow> int \<Rightarrow> py_error + string" where
  "advertised_scrape_target header default_port =
     (if default_port < 1 then Inl (ValueError ''default_port must be at least 1'')
      else ebind (advertised_hostname header) (\<lambda>hostname.
           ebind (port_from_host_header header default_port) (\<lambda>port.
           Inr ((if CHR '':'' \<in> set hostname then ''['' @ hostname @ '']'' else hostname) @ '':'' @ str_int port))))"

definition gateway_sd_targets :: "string \<Rightarrow> int \<Rightarrow> py_error + sd_target list" where
  "gateway_sd_targets target shards =
     (if blank target then Inl (ValueError ''target is required'')
      else if shards < 1 then Inl (ValueError ''shard_count must be at least 1'')
      else Inr (map (\<lambda>i. \<lparr>sd_targets = [target],
          sd_labels = [(''matcher_shard'', shard_label i), (''__metrics_path__'', ''/metrics/'' @ shard_label i @ ''/'')]\<rparr>)
        [0..<nat shards]))"

section \<open>Routing and ownership\<close>

text \<open>The universe is the same for every shard.\<close>

lemma simulated_tickers_any_shard [simp]:
  "simulated_tickers (st\<lparr>shard_index := k\<rparr>) rows c = simulated_tickers st rows c"
  by (simp add: simulated_tickers_def load_simulated_tickers_def load_tickers_def split: option.split)

lemma settings_ok_any_shard: "settings_ok st \<Longrightarrow> 0 \<le> k \<Longrightarrow> k < shard_count st \<Longrightarrow> settings_ok (st\<lparr>shard_index := k\<rparr>)"
  by (simp add: settings_ok_def)

lemma shard_for_ticker_range:
  "shard_for_ticker ts t n = Some i \<Longrightarrow> t \<in> set ts \<and> 0 \<le> i \<and> i < n"
  by (auto simp: shard_for_ticker_def matcher_shard_def index_of_None_iff
      split: option.splits sum.splits if_splits dest: index_of_SomeD)

lemma shard_for_ticker_None: "0 < n \<Longrightarrow> shard_for_ticker ts t n = None \<longleftrightarrow> t \<notin> set ts"
  by (auto simp: shard_for_ticker_def matcher_shard_def index_of_None_iff split: option.splits dest: index_of_SomeD)

text \<open>The shard that \<open>shard_for_ticker\<close> picks is the one shard that owns the ticker.\<close>

lemma routed_shard_owns:
  assumes "settings_ok st" "market_unique rows" "cache_ok c" "simulated_tickers st rows c = (c', ts)"
    and "shard_for_ticker ts t (shard_count st) = Some i" "0 \<le> k" "k < shard_count st"
  shows "is_owned_symbol (st\<lparr>shard_index := k\<rparr>) rows' t c' = (c', Inr (k = i))"
proof -
  have "simulated_tickers (st\<lparr>shard_index := k\<rparr>) rows c = (c', ts)" using assms(4) by simp
  from owned_iff_routed [OF settings_ok_any_shard [OF assms(1,6,7)] assms(2,3) this, of rows' t rows']
  have "is_owned_symbol (st\<lparr>shard_index := k\<rparr>) rows' t c'
      = (c', Inr (matcher_shard_for (st\<lparr>shard_index := k\<rparr>) rows' t c' = (c', Some k)))" by simp
  moreover have "matcher_shard_for (st\<lparr>shard_index := k\<rparr>) rows' t c' = (c', Some i)"
    using simulated_tickers_stable [OF assms(4), of rows'] assms(5) by (simp add: matcher_shard_for_def)
  ultimately show ?thesis by auto
qed

text \<open>A group of digits is a number.\<close>

lemma py_int_str_digits:
  assumes "s \<noteq> []" "list_all is_digit s"
  shows "py_int_str s = Inr (int (digits_value s))"
proof -
  obtain c cs where s: "s = c # cs" using assms(1) by (cases s) auto
  have all: "\<And>x. x \<in> set s \<Longrightarrow> is_digit x" using assms(2) by (simp add: list_all_iff)
  have strip: "py_strip s = s"
    using assms(1) all digit_facts(1) by (intro py_strip_nonspace) simp_all
  have "CHR ''_'' \<notin> set s" using all digit_facts(4) by blast
  then have split: "py_split s (CHR ''_'') = [s]" by (rule py_split_no_sep_id)
  have c: "c \<noteq> CHR ''-''" "c \<noteq> CHR ''+''" using digit_facts [of c] all [of c] s by auto
  show ?thesis using assms c split s by (simp add: py_int_str_def strip [unfolded s] Let_def)
qed

lemma run_path_digits:
  "run_path p is_digit path = Some raw \<Longrightarrow> raw \<noteq> [] \<and> list_all is_digit raw"
  by (auto simp: run_path_def run_then_end_def list_all_iff split: option.splits if_splits dest: set_takeWhileD)

lemma require_shard_index_cases:
  assumes "raw \<noteq> []" "list_all is_digit raw"
  obtains i where "require_shard_index raw n = Inr i" "0 \<le> i" "i < n"
  | "require_shard_index raw n = Inl (RoutingError 404 ''unknown matcher shard'')"
  using py_int_str_digits [OF assms] that
  by (cases "int (digits_value raw) < n") (simp_all add: require_shard_index_def)

text \<open>A refusal of the gateway that the client is told about.\<close>

definition refusal :: "py_error \<Rightarrow> bool" where
  "refusal e \<longleftrightarrow> (\<exists>detail. e = RoutingError 400 detail \<or> e = RoutingError 404 detail)"

text \<open>\<open>json.loads\<close> fails with its own exception only.\<close>

definition decoder_ok :: "gateway_env \<Rightarrow> bool" where
  "decoder_ok gw \<longleftrightarrow> (\<forall>raw e. gw_loads gw raw = Inl e \<longrightarrow> e = JSONDecodeError)"

lemma refusalI [intro, simp]: "refusal (RoutingError 400 d)" "refusal (RoutingError 404 d)"
  by (simp_all add: refusal_def)

lemma route_for_indexed_shard_cases:
  obtains "route_for_indexed_shard verb path n = Inr None"
  | e where "route_for_indexed_shard verb path n = Inl e" "refusal e"
  | i up where "route_for_indexed_shard verb path n
        = Inr (Some \<lparr>rt_shard = i, rt_symbol = None, rt_upstream = Some up\<rparr>)" "0 \<le> i" "i < n"
proof (cases "verb = ''GET''")
  case True
  show ?thesis
  proof (cases "metrics_shard_path path")
    case (Some raw)
    then have "raw \<noteq> []" "list_all is_digit raw" using run_path_digits by (auto simp: metrics_shard_path_def)
    from require_shard_index_cases [OF this, of n] show ?thesis
      by cases (use True Some that in \<open>simp_all add: route_for_indexed_shard_def\<close>)
  next
    case None
    show ?thesis
    proof (cases "ready_shard_path path")
      case (Some raw)
      then have "raw \<noteq> []" "list_all is_digit raw" using run_path_digits by (auto simp: ready_shard_path_def)
      from require_shard_index_cases [OF this, of n] show ?thesis
        by cases (use True Some None that in \<open>simp_all add: route_for_indexed_shard_def\<close>)
    qed (use True None that in \<open>simp add: route_for_indexed_shard_def\<close>)
  qed
qed (use that in \<open>simp add: route_for_indexed_shard_def\<close>)

lemma symbol_from_request_refusal:
  "decoder_ok gw \<Longrightarrow> symbol_from_request gw verb path query body = Inl e \<Longrightarrow> refusal e"
  by (auto simp: symbol_from_request_def required_query_symbol_def symbol_from_order_body_def Let_def decoder_ok_def
      split: if_splits option.splits list.splits sum.splits py_value.splits py_error.splits)

text \<open>What a route leads to.\<close>

lemma route_request_cases:
  assumes "0 < n" "decoder_ok gw"
  shows "case route_request gw ts n verb path query body of
      Inl e \<Rightarrow> refusal e
    | Inr r \<Rightarrow> 0 \<le> rt_shard r \<and> rt_shard r < n
        \<and> (\<forall>sy. rt_symbol r = Some sy \<longrightarrow> shard_for_ticker ts sy n = Some (rt_shard r))"
proof -
  let ?v = "py_upper verb" and ?p = "normalized_path path"
  have n: "\<not> n < 1" using assms(1) by simp
  show ?thesis
  proof (cases rule: route_for_indexed_shard_cases [of ?v ?p n])
    case 1
    show ?thesis
    proof (cases "default_shard_path ?p")
      case False
      show ?thesis
      proof (cases "symbol_from_request gw ?v ?p query body")
        case (Inl e)
        then show ?thesis using 1 False n symbol_from_request_refusal [OF assms(2)]
          by (simp add: route_request_def Let_def)
      next
        case (Inr sy)
        then show ?thesis using 1 False n shard_for_ticker_range [of ts sy n]
          by (cases "shard_for_ticker ts sy n") (simp_all add: route_request_def Let_def)
      qed
    qed (use 1 assms(1) in \<open>simp add: route_request_def Let_def\<close>)
  qed (use n in \<open>simp_all add: route_request_def Let_def\<close>)
qed

text \<open>The path of a new order is that of no other route.\<close>

lemma order_create_route:
  assumes "0 < n" "symbol_from_order_body (gw_repr gw) (gw_loads gw) body = Inr sy" "sy \<in> set ts"
  shows "\<exists>i. route_request gw ts n ''POST'' ''/api/v1/orders/'' query body
    = Inr \<lparr>rt_shard = i, rt_symbol = Some sy, rt_upstream = None\<rparr>"
proof -
  have v: "py_upper ''POST'' = ''POST''" by code_simp
  have p: "normalized_path ''/api/v1/orders/'' = ''/api/v1/orders/''" by code_simp
  have d: "\<not> default_shard_path ''/api/v1/orders/''" "order_create_path ''/api/v1/orders/''" by code_simp+
  have "shard_for_ticker ts sy n \<noteq> None" using assms(1,3) shard_for_ticker_None by blast
  then show ?thesis using assms d
    by (auto simp: route_request_def Let_def v p route_for_indexed_shard_def symbol_from_request_def)
qed


definition demo_gateway :: gateway_env where
  "demo_gateway = \<lparr>gw_unquote = (\<lambda>s. s), gw_repr = (\<lambda>_. []),
     gw_loads = (\<lambda>raw. if raw = ''order'' then Inr (PyDict [(''symbol'', PyStr '' 000660'')]) else Inl JSONDecodeError)\<rparr>"


end
