(* ===== verification/Gateway_Proxy.thy ===== *)
theory Gateway_Proxy
  imports Gateway Gateway_Metrics
begin

text \<open>
  The request handler of the gateway, \<open>gateway/proxy.py\<close>: a request is routed, sent to the
  matcher of its shard, and the matcher's answer is passed on; every request is counted.

  The state holds the metrics and what is behind the connections to the matchers. A connection
  is an argument, a call that can raise; clock readings are arguments. A reply is what the
  handler writes, and the connection to the client takes it.
\<close>

section \<open>Requests and replies\<close>

record http_request =
  hq_command :: string
  hq_target :: string
  hq_headers :: "(string \<times> string) list"
  hq_input :: string

record http_reply =
  hr_status :: int
  hr_headers :: "(string \<times> string) list"
  hr_body :: string

record upstream_request =
  uq_command :: string
  uq_path :: string
  uq_body :: "string option"
  uq_headers :: "(string, string) dict"

record gateway_settings =
  gs_tickers :: "string list"
  gs_shards :: int
  gs_host :: string
  gs_first_port :: int
  gs_urls :: "string list"
  gs_public_port :: int

text \<open>The connection to a host and port, \<open>json.dumps\<close>, and the readings of one request.\<close>

record 'm proxy_env =
  pv_gateway :: gateway_env
  pv_ipv6 :: "string \<Rightarrow> bool"
  pv_connect :: "string \<Rightarrow> int \<Rightarrow> upstream_request \<Rightarrow> ('m, http_reply) action"
  pv_dumps :: "py_value \<Rightarrow> string"
  pv_render :: render_env
  pv_seconds :: rat
  pv_upstream_seconds :: rat

record 'm proxy =
  px_metrics :: "gateway_metrics option"
  px_net :: 'm

text \<open>\<open>urlsplit(target)\<close>: its path and its query.\<close>

definition split_target :: "(string \<Rightarrow> bool) \<Rightarrow> string \<Rightarrow> py_error + string \<times> string" where
  "split_target ipv6 target =
     (let (scheme, rest) = split_scheme (clean_url target);
          (netloc, rest) = split_netloc rest;
          opening = CHR ''['' \<in> set netloc; closing = CHR '']'' \<in> set netloc
      in if opening \<noteq> closing \<or> opening \<and> \<not> ipv6 netloc then Inl (ValueError ''Invalid IPv6 URL'')
         else (case py_partition (fst (py_partition rest (CHR ''#''))) (CHR ''?'') of
                 (path, _, query) \<Rightarrow> Inr (path, query)))"

text \<open>The header fields of a message, by name without regard to case.\<close>

definition header_get :: "(string \<times> string) list \<Rightarrow> string \<Rightarrow> string \<Rightarrow> string" where
  "header_get hs name absent =
     (case filter (\<lambda>(k, _). py_lower k = py_lower name) hs of [] \<Rightarrow> absent | (_, v) # _ \<Rightarrow> v)"

definition content_length :: "http_request \<Rightarrow> py_error + int" where
  "content_length rq =
     (let raw = header_get (hq_headers rq) ''Content-Length'' ''0'' in py_int_str (if raw = [] then ''0'' else raw))"

definition request_body :: "http_request \<Rightarrow> int \<Rightarrow> string" where
  "request_body rq n = (if n = 0 then [] else if n < 0 then hq_input rq else take (nat n) (hq_input rq))"

section \<open>Upstream\<close>

text \<open>\<open>urlparse(url).port\<close>.\<close>

definition url_port :: "url_parts \<Rightarrow> py_error + int option" where
  "url_port u =
     (let hostinfo = url_hostinfo u;
          (_, bracket, inner) = py_partition hostinfo (CHR ''['');
          port = (if bracket
                  then snd (snd (py_partition (snd (snd (py_partition inner (CHR '']'')))) (CHR '':'')))
                  else snd (snd (py_partition hostinfo (CHR '':''))))
      in if port = [] then Inr None
         else if \<not> list_all is_digit port then Inl (ValueError ''Port could not be cast to integer value'')
         else if 65535 < digits_value port then Inl (ValueError ''Port out of range 0-65535'')
         else Inr (Some (int (digits_value port))))"

definition upstream :: "(string \<Rightarrow> bool) \<Rightarrow> gateway_settings \<Rightarrow> int \<Rightarrow> py_error + string \<times> int" where
  "upstream ipv6 gs i =
     (if gs_urls gs \<noteq> [] then
        (if int (length (gs_urls gs)) \<le> i then Inl IndexError
         else ebind (urlparse ipv6 (gs_urls gs ! nat i)) (\<lambda>u.
              case url_hostname u of
                None \<Rightarrow> Inl (RoutingError 500 ''matcher URL is missing a host'')
              | Some host \<Rightarrow> ebind (url_port u) (\<lambda>p.
                  Inr (host, case p of Some n \<Rightarrow> if n \<noteq> 0 then n else if url_scheme u = ''https'' then 443 else 80
                       | None \<Rightarrow> if url_scheme u = ''https'' then 443 else 80))))
      else ebind (matcher_listen_port i (gs_first_port gs)) (\<lambda>port. Inr (gs_host gs, port)))"

definition upstream_request_path :: "http_request \<Rightarrow> string \<Rightarrow> string option \<Rightarrow> string" where
  "upstream_request_path rq query up =
     (case up of
        None \<Rightarrow> hq_target rq
      | Some p \<Rightarrow> if p = [] then hq_target rq else if query \<noteq> [] then p @ ''?'' @ query else p)"

definition forwarded_headers :: "(string \<times> string) list \<Rightarrow> (string, string) dict" where
  "forwarded_headers hs =
     fold (\<lambda>(k, v) d. if py_lower k = ''content-length'' then d else dict_set d k v) hs []"

definition returned_headers :: "(string \<times> string) list \<Rightarrow> (string \<times> string) list" where
  "returned_headers hs = filter (\<lambda>(k, _). py_lower k \<notin> {''transfer-encoding'', ''connection''}) hs"

section \<open>Replies of the gateway itself\<close>

definition plain_reply :: "int \<Rightarrow> string \<Rightarrow> string \<Rightarrow> http_reply" where
  "plain_reply status kind payload =
     \<lparr>hr_status = status, hr_headers = [(''Content-Type'', kind), (''Content-Length'', str_int (int (length payload)))],
      hr_body = payload\<rparr>"

definition error_reply :: "'m proxy_env \<Rightarrow> int \<Rightarrow> string \<Rightarrow> http_reply" where
  "error_reply env status detail =
     plain_reply status ''application/json'' (pv_dumps env (PyDict [(''detail'', PyStr detail)]))"

definition sd_value :: "sd_target \<Rightarrow> py_value" where
  "sd_value t =
     PyDict [(''targets'', PyList (map PyStr (sd_targets t))),
             (''labels'', PyDict (map (\<lambda>(k, v). (k, PyStr v)) (sd_labels t)))]"

definition service_discovery_reply :: "'m proxy_env \<Rightarrow> gateway_settings \<Rightarrow> http_request \<Rightarrow> py_error + http_reply" where
  "service_discovery_reply env gs rq =
     (case advertised_scrape_target (header_get (hq_headers rq) ''Host'' []) (gs_public_port gs) of
        Inl e \<Rightarrow> if is_value_error e then Inr (error_reply env 400 ''host header is required'') else Inl e
      | Inr target \<Rightarrow>
          ebind (gateway_sd_targets target (gs_shards gs)) (\<lambda>ts.
          Inr (plain_reply 200 ''application/json'' (pv_dumps env (PyList (map sd_value ts))))))"

definition metrics_reply :: "'m proxy_env \<Rightarrow> gateway_metrics \<Rightarrow> http_reply" where
  "metrics_reply env gm = plain_reply 200 ''text/plain; version=0.0.4; charset=utf-8'' (render (pv_render env) gm)"

section \<open>The handler\<close>

definition with_metrics :: "(gateway_metrics \<Rightarrow> gateway_metrics) \<Rightarrow> 'm proxy \<Rightarrow> 'm proxy" where
  "with_metrics f px = px\<lparr>px_metrics := map_option f (px_metrics px)\<rparr>"

text \<open>The exchange with the matcher: an \<open>OSError\<close> is counted and answered with 502.\<close>

definition forward ::
  "'m proxy_env \<Rightarrow> route \<Rightarrow> string \<Rightarrow> int \<Rightarrow> upstream_request \<Rightarrow> ('m proxy, http_reply) action" where
  "forward env r host port uq px =
     (case pv_connect env host port uq (px_net px) of
        (net, Inl e) \<Rightarrow>
          if is_os_error e
          then (with_metrics (observe_upstream (rt_shard r) (pv_upstream_seconds env) True) (px\<lparr>px_net := net\<rparr>),
                Inr (error_reply env 502 ''matcher is unavailable''))
          else (px\<lparr>px_net := net\<rparr>, Inl e)
      | (net, Inr up) \<Rightarrow>
          (with_metrics (observe_upstream (rt_shard r) (pv_upstream_seconds env) False) (px\<lparr>px_net := net\<rparr>),
           Inr (up\<lparr>hr_headers := returned_headers (hr_headers up)\<rparr>)))"

definition handle :: "'m proxy_env \<Rightarrow> gateway_settings \<Rightarrow> http_request \<Rightarrow> ('m proxy, http_reply) action" where
  "handle env gs rq px =
     (case split_target (pv_ipv6 env) (hq_target rq) of
        Inl e \<Rightarrow> (px, Inl e)
      | Inr (path, query) \<Rightarrow>
          (case content_length rq of
             Inl e \<Rightarrow> (px, Inl e)
           | Inr n \<Rightarrow>
               (let body = request_body rq n
                in if hq_command rq = ''GET'' \<and> is_service_discovery_path path
                   then (px, service_discovery_reply env gs rq)
                   else case route_request (pv_gateway env) (gs_tickers gs) (gs_shards gs) (hq_command rq) path query (Some body) of
                     Inl (RoutingError status detail) \<Rightarrow> (px, Inr (error_reply env status detail))
                   | Inl e \<Rightarrow> (px, Inl e)
                   | Inr r \<Rightarrow>
                       (case upstream (pv_ipv6 env) gs (rt_shard r) of
                          Inl e \<Rightarrow> (px, Inl e)
                        | Inr (host, port) \<Rightarrow>
                            forward env r host port
                              \<lparr>uq_command = hq_command rq, uq_path = upstream_request_path rq query (rt_upstream r),
                               uq_body = (if body = [] then None else Some body),
                               uq_headers = forwarded_headers (hq_headers rq)\<rparr> px))))"

text \<open>\<open>_proxy\<close>: the status that \<open>finally\<close> counts is that of the reply, and 0 without one.\<close>

definition reply_status :: "py_error + http_reply \<Rightarrow> int" where
  "reply_status r = (case r of Inl _ \<Rightarrow> 0 | Inr reply \<Rightarrow> hr_status reply)"

definition proxy_request :: "'m proxy_env \<Rightarrow> gateway_settings \<Rightarrow> http_request \<Rightarrow> ('m proxy, http_reply) action" where
  "proxy_request env gs rq px =
     (case px_metrics px of
        None \<Rightarrow> handle env gs rq px
      | Some gm \<Rightarrow>
          (case (if hq_command rq = ''GET''
                 then ebind (split_target (pv_ipv6 env) (hq_target rq)) (\<lambda>(path, _). Inr (is_gateway_metrics_path path))
                 else Inr False) of
             Inl e \<Rightarrow> (px, Inl e)
           | Inr True \<Rightarrow> (px, Inr (metrics_reply env gm))
           | Inr False \<Rightarrow>
               (let (px, r) = handle env gs rq (with_metrics request_started px)
                in (with_metrics (request_finished (hq_command rq) (reply_status r) (pv_seconds env)) px, r))))"

section \<open>Every request is counted once\<close>

lemma str_int_inject: "str_int i = str_int j \<longleftrightarrow> i = j"
  using py_int_str_int [of i] py_int_str_int [of j] by (metis sum.inject(2))

lemma with_metrics_simps [simp]:
  "px_metrics (with_metrics f px) = map_option f (px_metrics px)"
  "px_net (with_metrics f px) = px_net px"
  by (simp_all add: with_metrics_def)

lemma metrics_run_simps [simp]:
  "metrics_run [] = id"
  "metrics_run (c # cs) gm = metrics_run cs (metrics_step c gm)"
  "metrics_run (cs @ ds) gm = metrics_run ds (metrics_run cs gm)"
  by (simp_all add: metrics_run_def fun_eq_iff)

text \<open>The calls that one request makes between its start and its end: at most one, for its matcher.\<close>

definition upstream_calls :: "'m proxy_env \<Rightarrow> py_error + http_reply \<Rightarrow> metrics_call list \<Rightarrow> bool" where
  "upstream_calls env r us \<longleftrightarrow> us = [] \<or> (\<exists>i. us = [CallUpstream i (pv_upstream_seconds env) False])
     \<or> (\<exists>i. us = [CallUpstream i (pv_upstream_seconds env) True]
          \<and> r = Inr (error_reply env 502 ''matcher is unavailable''))"

lemma no_upstream_call:
  "gm' = gm \<Longrightarrow> \<exists>us. gm' = map_option (metrics_run us) gm \<and> upstream_calls env r us"
  by (rule exI [of _ "[]"]) (simp add: upstream_calls_def option.map_id)

lemma forward_metrics:
  assumes "forward env rt host port uq px = (px', r)"
  shows "\<exists>us. px_metrics px' = map_option (metrics_run us) (px_metrics px) \<and> upstream_calls env r us"
proof -
  obtain net c where net: "pv_connect env host port uq (px_net px) = (net, c)" by fastforce
  have run: "metrics_run [CallUpstream i t f] = observe_upstream i t f" for i t f by (rule ext) simp
  show ?thesis
  proof (cases c)
    case (Inl e)
    show ?thesis
    proof (cases "is_os_error e")
      case True
      then have "px_metrics px' = map_option (metrics_run [CallUpstream (rt_shard rt) (pv_upstream_seconds env) True]) (px_metrics px)"
        "r = Inr (error_reply env 502 ''matcher is unavailable'')"
        using assms net Inl by (auto simp: forward_def run)
      then show ?thesis by (auto simp: upstream_calls_def)
    next
      case False
      then have "px_metrics px' = px_metrics px" using assms net Inl by (auto simp: forward_def)
      then show ?thesis by (rule no_upstream_call)
    qed
  next
    case (Inr up)
    then have "px_metrics px' = map_option (metrics_run [CallUpstream (rt_shard rt) (pv_upstream_seconds env) False]) (px_metrics px)"
      using assms net by (auto simp: forward_def run)
    then show ?thesis by (auto simp: upstream_calls_def)
  qed
qed

lemma handle_metrics:
  assumes "handle env gs rq px = (px', r)"
  shows "\<exists>us. px_metrics px' = map_option (metrics_run us) (px_metrics px) \<and> upstream_calls env r us"
proof (cases "px' = px")
  case True
  then show ?thesis by (intro no_upstream_call) simp
next
  case False
  then obtain rt host port uq where "forward env rt host port uq px = (px', r)"
    using assms by (auto simp: handle_def Let_def split: sum.splits prod.splits if_splits py_error.splits)
  then show ?thesis by (rule forward_metrics)
qed

text \<open>The requests that are counted, and a run of requests with what each was answered.\<close>

definition counted :: "'m proxy_env \<Rightarrow> http_request \<Rightarrow> bool" where
  "counted env rq \<longleftrightarrow> hq_command rq \<noteq> ''GET''
     \<or> (case split_target (pv_ipv6 env) (hq_target rq) of Inl _ \<Rightarrow> False
        | Inr (path, _) \<Rightarrow> \<not> is_gateway_metrics_path path)"

fun serve_all ::
  "gateway_settings \<Rightarrow> ('m proxy_env \<times> http_request) list \<Rightarrow> 'm proxy
    \<Rightarrow> 'm proxy \<times> ('m proxy_env \<times> http_request \<times> (py_error + http_reply)) list" where
  "serve_all gs [] px = (px, [])"
| "serve_all gs ((env, rq) # rqs) px =
     (let (px, r) = proxy_request env gs rq px; (px, served) = serve_all gs rqs px in (px, (env, rq, r) # served))"

lemma proxy_request_metrics:
  assumes "proxy_request env gs rq px = (px', r)" "px_metrics px = Some gm"
  shows "if counted env rq
    then \<exists>us. upstream_calls env r us
      \<and> px_metrics px' = Some (metrics_run (CallStarted # us @ [CallFinished (hq_command rq) (reply_status r) (pv_seconds env)]) gm)
    else px_metrics px' = Some gm"
proof (cases "counted env rq")
  case True
  obtain px1 where h: "handle env gs rq (with_metrics request_started px) = (px1, r)"
    "px' = with_metrics (request_finished (hq_command rq) (reply_status r) (pv_seconds env)) px1"
    using assms True
    by (auto simp: proxy_request_def counted_def Let_def ebind_def split: sum.splits prod.splits if_splits bool.splits)
  from handle_metrics [OF h(1)] obtain us where "upstream_calls env r us"
    "px_metrics px1 = map_option (metrics_run us) (px_metrics (with_metrics request_started px))" by blast
  then show ?thesis using True h(2) assms(2) by auto
next
  case False
  then show ?thesis using assms
    by (auto simp: proxy_request_def counted_def Let_def ebind_def split: sum.splits prod.splits if_splits bool.splits)
qed

text \<open>The calls of a run, and the counters they leave.\<close>

definition counted_as :: "string \<Rightarrow> int \<Rightarrow> 'm proxy_env \<times> http_request \<times> (py_error + http_reply) \<Rightarrow> bool" where
  "counted_as verb status = (\<lambda>(env, rq, r). counted env rq \<and> hq_command rq = verb \<and> reply_status r = status)"

definition log_agrees ::
  "metrics_call list \<Rightarrow> ('m proxy_env \<times> http_request \<times> (py_error + http_reply)) list \<Rightarrow> bool" where
  "log_agrees calls served \<longleftrightarrow> calls_with is_started calls = calls_with is_finished calls
     \<and> (\<forall>verb status. calls_with (answered_with (verb, str_int status)) calls
          = int (length (filter (counted_as verb status) served)))"

lemma calls_with_simps [simp]:
  "calls_with P [] = 0"
  "calls_with P (c # cs) = (if P c then 1 else 0) + calls_with P cs"
  "calls_with P (cs @ ds) = calls_with P cs + calls_with P ds"
  by (simp_all add: calls_with_def)

lemma upstream_calls_uncounted:
  assumes "upstream_calls env r us"
  shows "calls_with is_started us = 0" "calls_with is_finished us = 0" "calls_with (answered_with k) us = 0"
  using assms by (auto simp: upstream_calls_def)

lemma serve_all_metrics:
  "serve_all gs rqs px = (px', served) \<Longrightarrow> px_metrics px = Some gm \<Longrightarrow>
   \<exists>calls. px_metrics px' = Some (metrics_run calls gm) \<and> log_agrees calls served"
proof (induction rqs arbitrary: px px' served gm)
  case Nil
  then have "px_metrics px' = Some (metrics_run [] gm) \<and> log_agrees [] served" by (simp add: log_agrees_def)
  then show ?case by blast
next
  case (Cons er rqs)
  obtain env rq where er: "er = (env, rq)" by fastforce
  obtain px1 r where p: "proxy_request env gs rq px = (px1, r)" by fastforce
  obtain served1 where s: "serve_all gs rqs px1 = (px', served1)" "served = (env, rq, r) # served1"
    using Cons.prems(1) er p by (auto split: prod.splits)
  note m = proxy_request_metrics [OF p Cons.prems(2)]
  show ?case
  proof (cases "counted env rq")
    case True
    then obtain us where us: "upstream_calls env r us"
      "px_metrics px1 = Some (metrics_run (CallStarted # us @ [CallFinished (hq_command rq) (reply_status r) (pv_seconds env)]) gm)"
      using m by auto
    let ?own = "CallStarted # us @ [CallFinished (hq_command rq) (reply_status r) (pv_seconds env)]"
    obtain calls where calls: "px_metrics px' = Some (metrics_run calls (metrics_run ?own gm))" "log_agrees calls served1"
      using Cons.IH [OF s(1) us(2)] by blast
    have "log_agrees (?own @ calls) served"
      using calls(2) True upstream_calls_uncounted [OF us(1)] s(2)
      by (auto simp: log_agrees_def counted_as_def str_int_inject)
    moreover have "px_metrics px' = Some (metrics_run (?own @ calls) gm)" using calls(1) by simp
    ultimately show ?thesis by blast
  next
    case False
    then have "px_metrics px1 = Some gm" using m by simp
    from Cons.IH [OF s(1) this] False s(2) show ?thesis
      by (auto simp: log_agrees_def counted_as_def)
  qed
qed

text \<open>Whatever requests a gateway with fresh metrics serves and whatever the matchers, the
  readings and the failures are, no request is left in flight, and for every method and status
  the counter is the number of requests other than those for the metrics that were answered so,
  0 standing for a request that was dropped with an exception.\<close>

theorem every_request_counted_once:
  "case serve_all gs rqs \<lparr>px_metrics = Some (new_metrics port), px_net = net\<rparr> of (px, served) \<Rightarrow>
     (\<exists>gm. px_metrics px = Some gm \<and> gm_in_flight gm = 0
       \<and> (\<forall>verb status. counter_value (gm_requests gm) (verb, str_int status)
            = int (length (filter (counted_as verb status) served))))"
proof -
  obtain px served where s: "serve_all gs rqs \<lparr>px_metrics = Some (new_metrics port), px_net = net\<rparr> = (px, served)"
    by fastforce
  obtain calls where "px_metrics px = Some (metrics_run calls (new_metrics port))" "log_agrees calls served"
    using serve_all_metrics [OF s] by auto
  then show ?thesis using s metrics_run_agrees [of calls port] by (simp add: metrics_agree_def log_agrees_def)
qed

end
