(* ===== verification/Backend_Client.thy ===== *)
theory Backend_Client
  imports Runner_Invariant Py_Urls Py_Json
begin

text \<open>
  \<open>participant_runner/client.py\<close>: the HTTP client of the participants, for one backend and for
  the shards. Opening a URL, reading and decoding the answer, is an argument, a call that can
  raise; so are \<open>json.loads\<close>, the text of an exception, the body of an error response,
  \<open>repr\<close> and \<open>float\<close> of a text.

  Any operation of the sharded client returns or raises \<open>BackendApiError\<close>, as the runner
  relies on, when the wire fails in the ways that the client catches.
\<close>

section \<open>The wire\<close>

record client_call =
  cc_method :: string
  cc_url :: string
  cc_body :: "py_value option"

text \<open>A text that denotes no finite number stands for a number above 1 in \<open>wr_float\<close>.\<close>

record 'b wire =
  wr_open :: "client_call \<Rightarrow> ('b, string) action"
  wr_error_body :: "py_error \<Rightarrow> py_error + string"
  wr_loads :: "string \<Rightarrow> py_error + py_value"
  wr_text :: "py_error \<Rightarrow> string"
  wr_repr :: "py_value \<Rightarrow> string"
  wr_float :: "string \<Rightarrow> py_error + rat"

text \<open>\<open>quote(s, safe="")\<close> and \<open>quote_plus(s)\<close> of a string, by its bytes in UTF-8.\<close>

definition utf8_bytes :: "char \<Rightarrow> nat list" where
  "utf8_bytes c = (let n = (of_char c :: nat) in if n < 128 then [n] else [192 + n div 64, 128 + n mod 64])"

definition hex_upper :: "nat \<Rightarrow> char" where
  "hex_upper d = (if d < 10 then char_of (48 + d) else char_of (55 + d))"

definition quote_char :: "char \<Rightarrow> string" where
  "quote_char c =
     (if ascii_alpha c \<or> is_digit c \<or> c \<in> {CHR ''_'', CHR ''.'', CHR ''-'', CHR ''~''} then [c]
      else concat (map (\<lambda>b. [CHR ''%'', hex_upper (b div 16), hex_upper (b mod 16)]) (utf8_bytes c)))"

definition py_quote :: "string \<Rightarrow> string" where
  "py_quote s = concat (map quote_char s)"

definition py_quote_plus :: "string \<Rightarrow> string" where
  "py_quote_plus s = concat (map (\<lambda>c. if c = CHR '' '' then ''+'' else quote_char c) s)"

section \<open>One backend\<close>

text \<open>The \<open>except\<close> clauses of \<open>_request\<close>.\<close>

definition client_error :: "'b wire \<Rightarrow> py_error \<Rightarrow> py_error" where
  "client_error w e =
     (case e of
        HTTPError code \<Rightarrow> (case wr_error_body w e of Inl e' \<Rightarrow> e' | Inr detail \<Rightarrow> BackendApiError (Some code) detail)
      | URLError _ \<Rightarrow> BackendApiError None (wr_text w e)
      | TimeoutError _ \<Rightarrow> BackendApiError None (wr_text w e)
      | JSONDecodeError \<Rightarrow> BackendApiError None (wr_text w e)
      | _ \<Rightarrow> e)"

definition request ::
  "'b wire \<Rightarrow> string \<Rightarrow> string \<Rightarrow> string \<Rightarrow> py_value option \<Rightarrow> ('b, py_value) action" where
  "request w base verb path payload b =
     (case wr_open w \<lparr>cc_method = verb, cc_url = base @ path, cc_body = payload\<rparr> b of
        (b, Inl e) \<Rightarrow> (b, Inl (client_error w e))
      | (b, Inr text) \<Rightarrow> (b, case wr_loads w text of Inl e \<Rightarrow> Inl (client_error w e) | Inr v \<Rightarrow> Inr v))"

text \<open>\<open>except (KeyError, TypeError, ValueError)\<close> around the reading of a payload.\<close>

fun shape_error :: "py_error \<Rightarrow> bool" where
  "shape_error KeyError = True"
| "shape_error (TypeError _) = True"
| "shape_error e = is_value_error e"

definition shaped :: "string \<Rightarrow> py_error + 'a \<Rightarrow> py_error + 'a" where
  "shaped detail r =
     (case r of Inl e \<Rightarrow> Inl (if shape_error e then BackendApiError None detail else e) | Inr x \<Rightarrow> Inr x)"

definition fetch_trader_profiles :: "'b wire \<Rightarrow> string \<Rightarrow> ('b, py_value list) action" where
  "fetch_trader_profiles w base =
     seq_call (request w base ''GET'' ''/api/v1/traders/'' None) (\<lambda>payload b.
       (b, case payload of PyList xs \<Rightarrow> Inr xs
           | _ \<Rightarrow> Inl (BackendApiError None ''trader profile response must be a list'')))"

definition level_of :: "py_value \<Rightarrow> py_error + book_level" where
  "level_of v =
     ebind (ebind (json_item v ''price'') py_int) (\<lambda>p.
     ebind (ebind (json_item v ''qty'') py_int) (\<lambda>q.
     if p < 1 \<or> q < 1 then Inl (ValueError ''book level values must be positive'')
     else Inr \<lparr>level_price = p, level_quantity = q\<rparr>))"

definition client_book_levels :: "py_value \<Rightarrow> py_error + book_level list" where
  "client_book_levels payload =
     (case payload of
        PyList xs \<Rightarrow> those_ok (map level_of xs)
      | _ \<Rightarrow> Inl (ValueError ''book levels must be a list''))"

definition book_fields :: "(py_value \<Rightarrow> string) \<Rightarrow> py_value \<Rightarrow> py_error + book_snapshot" where
  "book_fields repr payload =
     ebind (json_item payload ''symbol'') (\<lambda>sy.
     ebind (ebind (json_item payload ''bids'') client_book_levels) (\<lambda>bids.
     ebind (ebind (json_item payload ''asks'') client_book_levels) (\<lambda>asks.
     Inr \<lparr>snap_symbol = py_str repr sy, snap_bids = bids, snap_asks = asks\<rparr>)))"

definition fetch_book :: "'b wire \<Rightarrow> string \<Rightarrow> symbol \<Rightarrow> ('b, book_snapshot) action" where
  "fetch_book w base sy =
     seq_call (request w base ''GET'' (''/api/v1/books/'' @ sy @ ''/'') None) (\<lambda>payload b.
       (b, ebind (shaped ''book response has an invalid shape'' (book_fields (wr_repr w) payload)) (\<lambda>snap.
           if snap_symbol snap \<noteq> sy
           then Inl (BackendApiError None ''book response symbol does not match request'')
           else Inr snap)))"

definition intent_payload :: "order_intent \<Rightarrow> py_value" where
  "intent_payload i =
     PyDict [(''user_id'', PyStr (oi_user i)), (''symbol'', PyStr (oi_symbol i)),
       (''side'', PyStr (case oi_side i of BUY \<Rightarrow> ''BUY'' | SELL \<Rightarrow> ''SELL'')),
       (''price'', PyInt (oi_price i)), (''qty'', PyInt (oi_quantity i))]"

definition client_submit_order :: "'b wire \<Rightarrow> string \<Rightarrow> order_intent \<Rightarrow> ('b, submitted_order) action" where
  "client_submit_order w base i =
     seq_call (request w base ''POST'' ''/api/v1/orders/'' (Some (intent_payload i))) (\<lambda>payload b.
       (b, shaped ''order response has an invalid shape''
         (ebind (json_item payload ''order_id'') (\<lambda>oid.
          ebind (ebind (json_item payload ''remaining_qty'') py_int) (\<lambda>n.
          Inr \<lparr>so_id = py_str (wr_repr w) oid, so_remaining = n\<rparr>)))))"

definition fetch_ready :: "'b wire \<Rightarrow> string \<Rightarrow> ('b, (string \<times> py_value) list) action" where
  "fetch_ready w base =
     seq_call (request w base ''GET'' ''/api/v1/ready/'' None) (\<lambda>payload b.
       (b, case payload of PyDict d \<Rightarrow> Inr d
           | _ \<Rightarrow> Inl (BackendApiError None ''ready response must be an object'')))"

text \<open>The loop of \<open>fetch_matcher_shards\<close> over the symbols of the response.\<close>

fun shards_of_items ::
  "(py_value \<Rightarrow> string) \<Rightarrow> py_value list \<Rightarrow> (symbol, int) dict \<Rightarrow> py_error + (symbol, int) dict" where
  "shards_of_items repr [] d = Inr d"
| "shards_of_items repr (entry # items) d =
     (case entry of
        PyDict x \<Rightarrow>
          if \<not> truthy (json_get x ''simulation_enabled'' PyNone) then shards_of_items repr items d
          else ebind (json_item entry ''ticker'') (\<lambda>ticker.
               case json_get x ''matcher_shard'' PyNone of
                 PyNone \<Rightarrow> shards_of_items repr items d
               | raw \<Rightarrow> ebind (py_int raw) (\<lambda>shard.
                   shards_of_items repr items (dict_set d (py_str repr ticker) shard)))
      | _ \<Rightarrow> shards_of_items repr items d)"

text \<open>The field \<open>results\<close>, a list, of a response that is an object.\<close>

definition results_of :: "string \<Rightarrow> py_value \<Rightarrow> py_error + py_value list" where
  "results_of detail payload =
     (case payload of
        PyDict d \<Rightarrow> (case json_get d ''results'' PyNone of PyList xs \<Rightarrow> Inr xs | _ \<Rightarrow> Inl (BackendApiError None detail))
      | _ \<Rightarrow> Inl (BackendApiError None detail))"

definition fetch_matcher_shards :: "'b wire \<Rightarrow> string \<Rightarrow> ('b, (symbol, int) dict) action" where
  "fetch_matcher_shards w base =
     seq_call (request w base ''GET'' ''/api/v1/symbols/?limit=100'' None) (\<lambda>payload b.
       (b, ebind (results_of ''symbol response must include results'' payload) (\<lambda>items.
           shards_of_items (wr_repr w) items [])))"

section \<open>Events and cancels\<close>

fun py_float :: "(string \<Rightarrow> py_error + rat) \<Rightarrow> py_value \<Rightarrow> py_error + rat" where
  "py_float text (PyFloat x) = Inr x"
| "py_float text (PyInt i) = Inr (of_int i)"
| "py_float text (PyBool b) = Inr (if b then 1 else 0)"
| "py_float text (PyStr s) = text s"
| "py_float text _ = Inl (TypeError ''float() argument must be a string or a number'')"

definition str_item :: "'b wire \<Rightarrow> py_value \<Rightarrow> string \<Rightarrow> py_error + string" where
  "str_item w v k = ebind (json_item v k) (\<lambda>x. Inr (py_str (wr_repr w) x))"

definition event_fields :: "'b wire \<Rightarrow> py_value \<Rightarrow> py_error + pending_event \<times> rat" where
  "event_fields w v =
     ebind (str_item w v ''event_id'') (\<lambda>eid.
     ebind (str_item w v ''symbol'') (\<lambda>sy.
     ebind (str_item w v ''event_type'') (\<lambda>_.
     ebind (str_item w v ''direction'') (\<lambda>dir.
     ebind (ebind (json_item v ''confidence'') (py_float (wr_float w))) (\<lambda>conf.
     ebind (str_item w v ''impact'') (\<lambda>impact.
     ebind (str_item w v ''source'') (\<lambda>src.
     Inr (\<lparr>pe_id = eid, pe_symbol = sy, pe_direction = dir, pe_impact = impact, pe_source = src,
       pe_headline = (case v of PyDict d \<Rightarrow> py_str (wr_repr w) (json_get d ''headline'' (PyStr [])) | _ \<Rightarrow> [])\<rparr>, conf))))))))"

definition valid_pending_event :: "pending_event \<Rightarrow> rat \<Rightarrow> bool" where
  "valid_pending_event e conf \<longleftrightarrow> pe_id e \<noteq> [] \<and> length (pe_symbol e) = 6 \<and> py_isdigit (pe_symbol e)
     \<and> pe_direction e \<in> {''BUY'', ''SELL'', ''MIXED''} \<and> pe_impact e \<in> {''low'', ''medium'', ''high''}
     \<and> 0 \<le> conf \<and> conf \<le> 1"

definition event_of :: "'b wire \<Rightarrow> py_value \<Rightarrow> py_error + pending_event" where
  "event_of w v =
     ebind (shaped ''pending event response has an invalid shape'' (event_fields w v)) (\<lambda>(e, conf).
     if valid_pending_event e conf then Inr e
     else Inl (BackendApiError None ''pending event response has invalid values''))"

definition fetch_pending_market_events :: "'b wire \<Rightarrow> string \<Rightarrow> symbol list \<Rightarrow> ('b, pending_event list) action" where
  "fetch_pending_market_events w base symbols =
     (if symbols = [] then (\<lambda>b. (b, Inr []))
      else seq_call (request w base ''GET''
             (''/api/v1/events/pending/?symbols='' @ py_quote_plus (py_join (CHR '','') symbols)) None) (\<lambda>payload b.
           (b, ebind (results_of ''pending event response must include results'' payload) (\<lambda>items.
               those_ok (map (event_of w) items)))))"

definition client_acknowledge :: "'b wire \<Rightarrow> string \<Rightarrow> string \<Rightarrow> ('b, unit) action" where
  "client_acknowledge w base eid =
     seq_call (request w base ''POST'' (''/api/v1/events/'' @ py_quote eid @ ''/ack/'') (Some (PyDict []))) (\<lambda>payload b.
       (b, case payload of
             PyDict d \<Rightarrow> if json_get d ''state'' PyNone = PyStr ''dispatched'' then Inr ()
                         else Inl (BackendApiError None ''event acknowledgement response is invalid'')
           | _ \<Rightarrow> Inl (BackendApiError None ''event acknowledgement response is invalid'')))"

definition client_cancel_order :: "'b wire \<Rightarrow> string \<Rightarrow> string \<Rightarrow> symbol \<Rightarrow> ('b, string) action" where
  "client_cancel_order w base oid sy =
     seq_call (request w base ''DELETE'' (''/api/v1/orders/'' @ oid @ ''/'' @ (if sy = [] then [] else ''?symbol='' @ sy)) None)
       (\<lambda>payload b.
       (b, ebind (shaped ''cancel response has an invalid shape'' (str_item w payload ''status'')) (\<lambda>status.
           if status \<in> {''CANCELED'', ''ALREADY_CLOSED''} then Inr status
           else Inl (BackendApiError None (''unexpected cancel status: '' @ status)))))"

section \<open>The shards\<close>

definition base_url :: "string \<Rightarrow> string" where
  "base_url url = py_rstrip_char url (CHR ''/'')"

definition client_for :: "string list \<Rightarrow> (symbol, int) dict \<Rightarrow> symbol \<Rightarrow> py_error + string" where
  "client_for bases shards sy =
     (case dict_get shards sy of
        None \<Rightarrow> Inl (BackendApiError None (''no matcher shard for '' @ sy))
      | Some i \<Rightarrow>
          if i < 0 \<or> int (length bases) \<le> i
          then Inl (BackendApiError None (''matcher shard '' @ str_int i @ '' is not configured''))
          else Inr (bases ! nat i))"

definition via :: "py_error + string \<Rightarrow> (string \<Rightarrow> ('b, 'a) action) \<Rightarrow> ('b, 'a) action" where
  "via r f b = (case r of Inl e \<Rightarrow> (b, Inl e) | Inr base \<Rightarrow> f base b)"

definition sharded_client :: "'b wire \<Rightarrow> string list \<Rightarrow> (symbol, int) dict \<Rightarrow> py_error + 'b client" where
  "sharded_client w urls shards =
     (if urls = [] then Inl (BackendApiError None ''at least one backend shard URL is required'')
      else
        (let bases = map base_url urls
         in Inr
          \<lparr>cl_fetch_book = (\<lambda>sy. via (client_for bases shards sy) (\<lambda>base. fetch_book w base sy)),
           cl_submit_order = (\<lambda>i. via (client_for bases shards (oi_symbol i)) (\<lambda>base. client_submit_order w base i)),
           cl_fetch_events = (\<lambda>sys. fetch_pending_market_events w (hd bases) sys),
           cl_acknowledge = (\<lambda>eid. client_acknowledge w (hd bases) eid),
           cl_cancel_order = (\<lambda>oid sy.
             if sy = [] then (\<lambda>b. (b, Inl (BackendApiError None ''cancel requires a symbol when shards are enabled'')))
             else via (client_for bases shards sy) (\<lambda>base. client_cancel_order w base oid sy))\<rparr>))"

section \<open>What the client raises\<close>

definition raises :: "(py_error \<Rightarrow> bool) \<Rightarrow> py_error + 'a \<Rightarrow> bool" where
  "raises X r \<longleftrightarrow> (case r of Inl e \<Rightarrow> X e | Inr _ \<Rightarrow> True)"

lemma raises_simps [simp]: "raises X (Inr x)" "raises X (Inl e) \<longleftrightarrow> X e"
  by (simp_all add: raises_def)

lemma raises_ebind [intro]:
  "raises X m \<Longrightarrow> (\<And>x. m = Inr x \<Longrightarrow> raises X (f x)) \<Longrightarrow> raises X (ebind m f)"
  by (cases m) auto

lemma raises_those_ok: "(\<And>r. r \<in> set rs \<Longrightarrow> raises X r) \<Longrightarrow> raises X (those_ok rs)"
proof (induction rs)
  case (Cons r rs)
  show ?case
    unfolding those_ok.simps by (intro raises_ebind) (use Cons in auto)
qed simp

lemma raises_shaped: "raises shape_error r \<Longrightarrow> raises is_api_error (shaped detail r)"
  by (cases r) (simp_all add: shaped_def)

lemma value_error_shape: "is_value_error e \<Longrightarrow> shape_error e"
  by (cases e) simp_all

lemma raises_json_item [simp]: "raises shape_error (json_item v k)"
  by (cases v) (auto split: option.split)

lemma raises_py_int [simp]: "raises shape_error (py_int v)"
  by (cases v) (auto simp: py_int_str_def Let_def split: prod.split)

lemma raises_str_item [simp]: "raises shape_error (str_item w v k)"
  unfolding str_item_def by (rule raises_ebind) simp_all

definition caught :: "py_error \<Rightarrow> bool" where
  "caught e \<longleftrightarrow> (case e of HTTPError _ \<Rightarrow> True | URLError _ \<Rightarrow> True | TimeoutError _ \<Rightarrow> True | _ \<Rightarrow> False)"

text \<open>A wire that fails only in ways that \<open>_request\<close> catches.\<close>

definition wire_ok :: "'b wire \<Rightarrow> bool" where
  "wire_ok w \<longleftrightarrow> (\<forall>c b. raises caught (snd (wr_open w c b))) \<and> (\<forall>e. raises (\<lambda>_. False) (wr_error_body w e))
     \<and> (\<forall>s. raises (\<lambda>e. e = JSONDecodeError) (wr_loads w s)) \<and> (\<forall>s. raises is_value_error (wr_float w s))"

lemma client_error_api:
  "wire_ok w \<Longrightarrow> caught e \<or> e = JSONDecodeError \<Longrightarrow> is_api_error (client_error w e)"
  by (auto simp: caught_def client_error_def wire_ok_def raises_def split: py_error.splits sum.splits)

text \<open>An action whose exceptions are API errors, and sequencing after a request.\<close>

definition api_action :: "('b, 'a) action \<Rightarrow> bool" where
  "api_action m \<longleftrightarrow> (\<forall>b. raises is_api_error (snd (m b)))"

lemma request_api: "wire_ok w \<Longrightarrow> api_action (request w base verb path payload)"
  unfolding api_action_def
proof
  fix b
  assume w: "wire_ok w"
  obtain b' r where o: "wr_open w \<lparr>cc_method = verb, cc_url = base @ path, cc_body = payload\<rparr> b = (b', r)" by fastforce
  then have c: "raises caught r" using w by (metis snd_conv wire_ok_def)
  show "raises is_api_error (snd (request w base verb path payload b))"
  proof (cases r)
    case (Inl e)
    then show ?thesis using c o client_error_api [OF w] by (simp add: request_def)
  next
    case (Inr body)
    have "raises (\<lambda>e. e = JSONDecodeError) (wr_loads w body)" using w by (simp add: wire_ok_def)
    then show ?thesis using Inr o client_error_api [OF w]
      by (cases "wr_loads w body") (simp_all add: request_def)
  qed
qed

lemma api_seq:
  assumes "api_action m" "\<And>x b. raises is_api_error (g x)"
  shows "api_action (seq_call m (\<lambda>x b. (b, g x)))"
  unfolding api_action_def
proof
  fix b
  obtain b' r where m: "m b = (b', r)" by fastforce
  then have "raises is_api_error r" using assms(1) by (metis api_action_def snd_conv)
  then show "raises is_api_error (snd (seq_call m (\<lambda>x b. (b, g x)) b))"
    using m assms(2) by (cases r) (simp_all add: seq_call_def)
qed

lemma seq_result: "snd (seq_call m (\<lambda>x b. (b, g x)) b) = Inr y \<Longrightarrow> \<exists>x. g x = Inr y"
  by (auto simp: seq_call_def split: prod.splits sum.splits)

lemma shaped_Inr_iff: "shaped detail r = Inr x \<longleftrightarrow> r = Inr x"
  by (cases r) (simp_all add: shaped_def)

lemma raises_level_of: "raises shape_error (level_of v)"
  unfolding level_of_def by (intro raises_ebind) auto

lemma raises_book_fields: "raises shape_error (book_fields repr payload)"
proof -
  have "raises shape_error (client_book_levels v)" for v
    by (cases v) (auto simp: client_book_levels_def intro!: raises_those_ok raises_level_of)
  then show ?thesis unfolding book_fields_def by (intro raises_ebind) auto
qed

lemma raises_event_of: "wire_ok w \<Longrightarrow> raises is_api_error (event_of w v)"
proof -
  assume w: "wire_ok w"
  have "raises shape_error (wr_float w s)" for s
    using w value_error_shape by (cases "wr_float w s") (auto simp: wire_ok_def raises_def split: sum.splits)
  then have "raises shape_error (py_float (wr_float w) x)" for x by (cases x) auto
  then have "raises shape_error (event_fields w v)" unfolding event_fields_def by (intro raises_ebind) auto
  then show ?thesis unfolding event_of_def
    by (intro raises_ebind raises_shaped) (auto split: prod.splits)
qed

lemma levels_positive: "client_book_levels v = Inr ls \<Longrightarrow> l \<in> set ls \<Longrightarrow> 1 \<le> level_price l \<and> 1 \<le> level_quantity l"
proof -
  assume a: "client_book_levels v = Inr ls" "l \<in> set ls"
  then obtain xs where "map level_of xs = map Inr ls"
    by (auto simp: client_book_levels_def those_ok_Inr_iff split: py_value.splits)
  moreover from a(2) obtain i where "i < length ls" "ls ! i = l" by (auto simp: in_set_conv_nth)
  ultimately have "level_of (xs ! i) = Inr l" by (metis length_map nth_map)
  then show ?thesis by (auto simp: level_of_def ebind_eq_Inr_iff split: if_splits)
qed

lemma fetch_book_ok:
  assumes "wire_ok w"
  shows "case snd (fetch_book w base sy b) of Inl e \<Rightarrow> is_api_error e | Inr snap \<Rightarrow> snapshot_ok snap \<and> snap_symbol snap = sy"
proof -
  have "api_action (fetch_book w base sy)"
    unfolding fetch_book_def
    by (intro api_seq request_api assms raises_ebind raises_shaped raises_book_fields) simp
  then have api: "raises is_api_error (snd (fetch_book w base sy b))" by (simp add: api_action_def)
  have "snapshot_ok snap \<and> snap_symbol snap = sy" if "snd (fetch_book w base sy b) = Inr snap" for snap
  proof -
    note result = that
    obtain payload where "book_fields (wr_repr w) payload = Inr snap" "snap_symbol snap = sy"
      using seq_result [OF result [unfolded fetch_book_def]]
      by (auto simp: shaped_Inr_iff ebind_eq_Inr_iff split: if_splits)
    then show ?thesis
      using levels_positive by (force simp: book_fields_def ebind_eq_Inr_iff snapshot_ok_def)
  qed
  with api show ?thesis by (cases "snd (fetch_book w base sy b)") simp_all
qed

lemma operations_api:
  assumes "wire_ok w"
  shows "api_action (client_submit_order w base i)" "api_action (fetch_pending_market_events w base sys)"
    "api_action (client_acknowledge w base eid)" "api_action (client_cancel_order w base oid sy)"
proof -
  show "api_action (client_submit_order w base i)" unfolding client_submit_order_def
    by (intro api_seq request_api assms raises_shaped raises_ebind) simp_all
  have items: "raises is_api_error (results_of d payload)" for d payload
    by (auto simp: results_of_def split: py_value.split)
  show "api_action (fetch_pending_market_events w base sys)" unfolding fetch_pending_market_events_def
    using raises_event_of [OF assms] items
    by (auto simp: api_action_def [of "\<lambda>b. (b, Inr [])"] intro!: api_seq request_api assms raises_ebind raises_those_ok)
  show "api_action (client_acknowledge w base eid)" unfolding client_acknowledge_def
    by (intro api_seq request_api assms) (auto split: py_value.split)
  show "api_action (client_cancel_order w base oid sy)" unfolding client_cancel_order_def
    by (intro api_seq request_api assms raises_shaped raises_ebind) simp_all
qed

lemma raises_client_for: "raises is_api_error (client_for bases shards sy)"
  by (auto simp: client_for_def split: option.split)

lemma via_api: "(\<And>base. api_action (f base)) \<Longrightarrow> api_action (via (client_for bases shards sy) f)"
  using raises_client_for [of bases shards sy]
  by (cases "client_for bases shards sy") (auto simp: api_action_def via_def)


text \<open>A wire that counts the calls and answers a book, or fails with a refused connection.\<close>

definition demo_wire :: "nat wire" where
  "demo_wire = \<lparr>wr_open = (\<lambda>c n. (n + 1, if cc_url c = ''http://a/api/v1/books/005930/'' then Inr ''book''
       else Inl (URLError ''connection refused''))),
     wr_error_body = (\<lambda>_. Inr []), wr_loads = (\<lambda>s. if s = ''book'' then
       Inr (PyDict [(''symbol'', PyStr ''005930''), (''bids'', PyList [PyDict [(''price'', PyInt 100), (''qty'', PyInt 3)]]),
         (''asks'', PyList [])]) else Inl JSONDecodeError),
     wr_text = (\<lambda>_. []), wr_repr = (\<lambda>_. []), wr_float = (\<lambda>_. Inl (ValueError []))\<rparr>"

lemma demo_wire_ok: "wire_ok demo_wire"
  by (simp add: wire_ok_def demo_wire_def raises_def caught_def)


end
