(* ===== verification/Shard_Discovery.thy ===== *)
theory Shard_Discovery
  imports Gateway_Proxy Backend_Client
begin

text \<open>
  How the parts agree on the shard of a symbol: the symbols that a matcher lists, read by the
  participants' client and by the gateway, lead every order to the shard that owns its symbol.
\<close>

section \<open>The listed symbols\<close>

text \<open>After the first question the cache stands, and the entries are computed from its tickers.\<close>

lemma symbol_results_cached:
  assumes "simulated_tickers st rows c = (c, ts)"
  shows "symbol_results names st rows rs c
    = (c, map (\<lambda>r. symbol_entry names (md_symbol r \<in> set ts) (shard_for_ticker ts (md_symbol r) (shard_count st)) r) rs)"
  by (induction rs) (simp_all add: is_simulated_symbol_def matcher_shard_for_def assms)

lemma symbol_results_spec:
  assumes "simulated_tickers st rows c = (c', ts)" "symbol_results names st rows rs c = (c1, vs)" "rs \<noteq> []"
  shows "c1 = c' \<and> vs = map (\<lambda>r. symbol_entry names (md_symbol r \<in> set ts)
    (shard_for_ticker ts (md_symbol r) (shard_count st)) r) rs"
proof -
  obtain r rest where rs: "rs = r # rest" using assms(3) by (cases rs) auto
  have stable: "simulated_tickers st rows c' = (c', ts)" by (rule simulated_tickers_stable [OF assms(1)])
  show ?thesis using assms(2)
    by (auto simp: rs is_simulated_symbol_def matcher_shard_for_def assms(1) stable symbol_results_cached [OF stable])
qed

text \<open>What the client makes of such entries.\<close>

lemma shards_of_entries:
  assumes "0 < n"
  shows "\<exists>d'. shards_of_items repr (map (\<lambda>r. symbol_entry names (md_symbol r \<in> set ts)
        (shard_for_ticker ts (md_symbol r) n) r) rs) d = Inr d'
    \<and> (\<forall>t. dict_get d' t = (if t \<in> md_symbol ` set rs \<and> t \<in> set ts then shard_for_ticker ts t n else dict_get d t))"
proof (induction rs arbitrary: d)
  case (Cons r rs)
  show ?case
  proof (cases "md_symbol r \<in> set ts")
    case True
    then obtain i where i: "shard_for_ticker ts (md_symbol r) n = Some i"
      using shard_for_ticker_None [OF assms, of ts "md_symbol r"] by blast
    obtain d' where "shards_of_items repr (map (\<lambda>r. symbol_entry names (md_symbol r \<in> set ts)
        (shard_for_ticker ts (md_symbol r) n) r) rs) (dict_set d (md_symbol r) i) = Inr d'"
      "\<forall>t. dict_get d' t = (if t \<in> md_symbol ` set rs \<and> t \<in> set ts then shard_for_ticker ts t n
          else dict_get (dict_set d (md_symbol r) i) t)"
      using Cons.IH by blast
    then show ?thesis using True i by (auto simp: symbol_entry_def json_get_def update_conv)
  next
    case False
    obtain d' where "shards_of_items repr (map (\<lambda>r. symbol_entry names (md_symbol r \<in> set ts)
        (shard_for_ticker ts (md_symbol r) n) r) rs) d = Inr d'"
      "\<forall>t. dict_get d' t = (if t \<in> md_symbol ` set rs \<and> t \<in> set ts then shard_for_ticker ts t n else dict_get d t)"
      using Cons.IH by blast
    then show ?thesis using False by (auto simp: symbol_entry_def json_get_def)
  qed
qed simp

section \<open>One universe\<close>

text \<open>The primary keys of the symbols: not empty, without spaces around them.\<close>

definition tickers_clean :: "market_row list \<Rightarrow> bool" where
  "tickers_clean rows \<longleftrightarrow> (\<forall>r\<in>set rows. md_symbol r \<noteq> [] \<and> py_strip (md_symbol r) = md_symbol r)"

lemma filter_in_take:
  assumes "distinct xs" "k \<le> m"
  shows "filter (\<lambda>x. x \<in> set (take k xs)) (take m xs) = take k xs"
proof -
  have split: "take m xs = take k xs @ take (m - k) (drop k xs)"
    using assms(2) by (metis le_add_diff_inverse take_add)
  have "x \<notin> set (take k xs)" if "x \<in> set (take (m - k) (drop k xs))" for x
    using assms(1) that by (metis append_take_drop_id disjoint_iff distinct_append in_set_takeD)
  then show ?thesis unfolding split by (simp add: filter_empty_conv)
qed

text \<open>The rows that \<open>symbol_list\<close> shows without a search term, and the universe.\<close>

lemma listed_universe:
  assumes "market_unique rows" "latest_date rows = Some d" "symbol_limit st \<le> 100"
  shows "filter (\<lambda>t. t \<in> set (load_tickers st rows)) (map md_symbol (listed_rows icontains names rows d [] 100))
      = load_tickers st rows"
    and "set (load_tickers st rows) \<subseteq> md_symbol ` set (listed_rows icontains names rows d [] 100)"
    and "set (listed_rows icontains names rows d [] 100) \<subseteq> set rows"
proof -
  let ?xs = "map md_symbol (sort_key (\<lambda>r. (md_rank r, md_symbol r)) (filter (\<lambda>r. md_date r = d) rows))"
  have l: "map md_symbol (listed_rows icontains names rows d [] 100) = take 100 ?xs"
    by (simp add: listed_rows_def Let_def take_map)
  have t: "load_tickers st rows = take (nat (symbol_limit st)) ?xs"
    by (simp add: load_tickers_def assms(2))
  have "distinct ?xs"
    using load_tickers_distinct [OF assms(1), of "st\<lparr>symbol_limit := int (length rows)\<rparr>"]
    by (simp add: load_tickers_def assms(2))
  moreover have "nat (symbol_limit st) \<le> 100" using assms(3) by simp
  ultimately show f: "filter (\<lambda>t. t \<in> set (load_tickers st rows)) (map md_symbol (listed_rows icontains names rows d [] 100))
      = load_tickers st rows"
    unfolding l t by (rule filter_in_take)
  show "set (load_tickers st rows) \<subseteq> md_symbol ` set (listed_rows icontains names rows d [] 100)"
  proof
    fix x assume "x \<in> set (load_tickers st rows)"
    then have "x \<in> set (map md_symbol (listed_rows icontains names rows d [] 100))"
      by (subst (asm) f [symmetric]) simp
    then show "x \<in> md_symbol ` set (listed_rows icontains names rows d [] 100)" by simp
  qed
  show "set (listed_rows icontains names rows d [] 100) \<subseteq> set rows"
    by (auto simp: listed_rows_def Let_def dest!: in_set_takeD)
qed

lemma tickers_of_entries:
  assumes "\<forall>r\<in>set rs. md_symbol r \<noteq> [] \<and> py_strip (md_symbol r) = md_symbol r"
  shows "concat (map (payload_ticker repr) (map (\<lambda>r. symbol_entry names (md_symbol r \<in> set ts) (sh r) r) rs))
    = filter (\<lambda>t. t \<in> set ts) (map md_symbol rs)"
  using assms by (induction rs) (simp_all add: payload_ticker_def symbol_entry_def json_get_def Let_def)

text \<open>What the listing of a freshly started matcher holds.\<close>

lemma symbol_list_payload:
  assumes "settings_ok st" "market_unique rows" "rows \<noteq> []"
    and "symbol_list icontains names isodate st rows [] 100 empty_cache = (c, Inr payload)"
  obtains rs date where "payload = PyDict [(''trade_date'', PyStr date),
        (''results'', PyList (map (\<lambda>r. symbol_entry names (md_symbol r \<in> set (load_tickers st rows))
          (shard_for_ticker (load_tickers st rows) (md_symbol r) (shard_count st)) r) rs))]"
    and "filter (\<lambda>t. t \<in> set (load_tickers st rows)) (map md_symbol rs) = load_tickers st rows"
    and "set (load_tickers st rows) \<subseteq> md_symbol ` set rs" "set rs \<subseteq> set rows"
    and "simulated_tickers st rows empty_cache = (c, load_tickers st rows)" "load_tickers st rows \<noteq> []"
proof -
  obtain d where d: "latest_date rows = Some d" "d \<in> md_date ` set rows"
    using assms(3) by (auto simp: latest_date_def)
  have k: "1 \<le> symbol_limit st" "symbol_limit st \<le> 100" using assms(1) by (auto simp: settings_ok_def)
  let ?rs = "listed_rows icontains names rows d [] 100"
  note l = listed_universe [OF assms(2) d(1) k(2), of icontains names]
  obtain c' where s: "simulated_tickers st rows empty_cache = (c', load_tickers st rows)"
    by (simp add: simulated_tickers_def empty_cache_def load_simulated_tickers_def Let_def)
  have "filter (\<lambda>r. md_date r = d) rows \<noteq> []" using d(2) by (auto simp: filter_empty_conv)
  then have "sort_key (\<lambda>r. (md_rank r, md_symbol r)) (filter (\<lambda>r. md_date r = d) rows) \<noteq> []"
    by (metis set_empty set_sort)
  then have ne: "load_tickers st rows \<noteq> []" using k(1) d(1) by (simp add: load_tickers_def)
  then have rs: "?rs \<noteq> []" using l(1) by (cases "load_tickers st rows") auto
  have strip: "py_strip [] = []" by (simp add: py_strip_def py_lstrip_def)
  obtain c1 vs where v: "symbol_results names st rows ?rs empty_cache = (c1, vs)" by fastforce
  have p: "c = c1" "payload = PyDict [(''trade_date'', PyStr (isodate d)), (''results'', PyList vs)]"
    using assms(4) d(1) v by (simp_all add: symbol_list_def Let_def strip)
  show thesis by (rule that [of "isodate d" ?rs]) (use symbol_results_spec [OF s v rs] p l s ne in auto)
qed

text \<open>The gateway reads the whole universe from this payload.\<close>

lemma listed_tickers:
  assumes "settings_ok st" "market_unique rows" "tickers_clean rows" "rows \<noteq> []"
    and "symbol_list icontains names isodate st rows [] 100 empty_cache = (c, Inr payload)"
  shows "tickers_from_symbols_payload repr payload = Inr (load_tickers st rows)"
proof -
  from symbol_list_payload [OF assms(1,2,4,5)] obtain rs date where
    p: "payload = PyDict [(''trade_date'', PyStr date),
        (''results'', PyList (map (\<lambda>r. symbol_entry names (md_symbol r \<in> set (load_tickers st rows))
          (shard_for_ticker (load_tickers st rows) (md_symbol r) (shard_count st)) r) rs))]"
    and f: "filter (\<lambda>t. t \<in> set (load_tickers st rows)) (map md_symbol rs) = load_tickers st rows"
    and sub: "set rs \<subseteq> set rows" and ne: "load_tickers st rows \<noteq> []" .
  have clean: "\<forall>r\<in>set rs. md_symbol r \<noteq> [] \<and> py_strip (md_symbol r) = md_symbol r"
    using assms(3) sub by (auto simp: tickers_clean_def)
  show ?thesis
    using f ne tickers_of_entries [OF clean] by (simp add: p tickers_from_symbols_payload_def json_get_def split: list.split)
qed

text \<open>What a freshly started matcher lists is one universe for all: the gateway reads exactly the
  matcher's tickers from it, and the client reads for each of them the shard that owns it. The
  sharded client with one backend per shard then sends every request for a symbol to the backend
  of its owner, and refuses a symbol that no matcher simulates.\<close>

theorem listed_universe_is_shared:
  assumes "settings_ok st" "market_unique rows" "tickers_clean rows" "rows \<noteq> []"
    and "symbol_list icontains names isodate st rows [] 100 empty_cache = (c, Inr payload)"
    and "length bases = nat (shard_count st)"
  shows "\<exists>ts shards. simulated_tickers st rows empty_cache = (c, ts)
    \<and> tickers_from_symbols_payload repr payload = Inr ts
    \<and> ebind (results_of detail payload) (\<lambda>items. shards_of_items repr items []) = Inr shards
    \<and> (\<forall>sy. case client_for bases shards sy of
          Inl e \<Rightarrow> is_api_error e \<and> sy \<notin> set ts
        | Inr base \<Rightarrow> \<exists>i<nat (shard_count st). base = bases ! i
            \<and> (\<forall>k<nat (shard_count st). is_owned_symbol (st\<lparr>shard_index := int k\<rparr>) rows sy c = (c, Inr (k = i))))"
proof -
  from symbol_list_payload [OF assms(1,2,4,5)] obtain rs date where
    p: "payload = PyDict [(''trade_date'', PyStr date),
        (''results'', PyList (map (\<lambda>r. symbol_entry names (md_symbol r \<in> set (load_tickers st rows))
          (shard_for_ticker (load_tickers st rows) (md_symbol r) (shard_count st)) r) rs))]"
    and f: "filter (\<lambda>t. t \<in> set (load_tickers st rows)) (map md_symbol rs) = load_tickers st rows"
    and sub: "set (load_tickers st rows) \<subseteq> md_symbol ` set rs" "set rs \<subseteq> set rows"
    and s: "simulated_tickers st rows empty_cache = (c, load_tickers st rows)" and ne: "load_tickers st rows \<noteq> []" .
  let ?ts = "load_tickers st rows" and ?n = "shard_count st"
  have n: "0 < ?n" using assms(1) by (auto simp: settings_ok_def)
  obtain shards where sh: "shards_of_items repr (map (\<lambda>r. symbol_entry names (md_symbol r \<in> set ?ts)
        (shard_for_ticker ?ts (md_symbol r) ?n) r) rs) [] = Inr shards"
    "\<forall>t. dict_get shards t = (if t \<in> md_symbol ` set rs \<and> t \<in> set ?ts then shard_for_ticker ?ts t ?n else None)"
    using shards_of_entries [OF n, of repr names ?ts rs "[]"] by auto
  have get: "dict_get shards t = shard_for_ticker ?ts t ?n" for t
    using sh(2) sub(1) shard_for_ticker_None [OF n, of ?ts t] by auto
  have gateway: "tickers_from_symbols_payload repr payload = Inr ?ts" by (rule listed_tickers [OF assms(1-5)])
  have client: "ebind (results_of detail payload) (\<lambda>items. shards_of_items repr items []) = Inr shards"
    using sh(1) by (simp add: p results_of_def json_get_def)
  have cache: "cache_ok empty_cache" by (simp add: cache_ok_def empty_cache_def)
  have reach: "case client_for bases shards sy of
          Inl e \<Rightarrow> is_api_error e \<and> sy \<notin> set ?ts
        | Inr base \<Rightarrow> \<exists>i<nat ?n. base = bases ! i
            \<and> (\<forall>k<nat ?n. is_owned_symbol (st\<lparr>shard_index := int k\<rparr>) rows sy c = (c, Inr (k = i)))" for sy
  proof (cases "shard_for_ticker ?ts sy ?n")
    case None
    then have "sy \<notin> set ?ts" using shard_for_ticker_None [OF n] by blast
    then show ?thesis using None by (simp add: client_for_def get)
  next
    case (Some i)
    from shard_for_ticker_range [OF Some] have i: "0 \<le> i" "i < ?n" by auto
    have "is_owned_symbol (st\<lparr>shard_index := int k\<rparr>) rows sy c = (c, Inr (k = nat i))" if "k < nat ?n" for k
      using routed_shard_owns [OF assms(1,2) cache s Some, of "int k" rows] that i(1) by (auto simp: nat_eq_iff2)
    then show ?thesis using Some i assms(6) by (auto simp: client_for_def get intro!: exI [of _ "nat i"])
  qed
  show ?thesis using s gateway client reach by blast
qed

text \<open>A table with one row, and what its matcher lists.\<close>

definition demo_row :: market_row where
  "demo_row = \<lparr>md_symbol = ''005930'', md_date = 1, md_close = 1, md_volume = 1, md_value = 1, md_rank = 1\<rparr>"

definition demo_listing :: py_value where
  "demo_listing = PyDict [(''trade_date'', PyStr []), (''results'', PyList [symbol_entry (\<lambda>_. ([], [])) True (Some 0) demo_row])]"

lemma demo_row_ok: "market_unique [demo_row]" "tickers_clean [demo_row]" "[demo_row] \<noteq> []"
proof -
  have "py_strip ''005930'' = ''005930''" by code_simp
  then show "tickers_clean [demo_row]" by (simp add: tickers_clean_def demo_row_def)
qed (simp_all add: market_unique_def)

lemma demo_universe:
  "simulated_tickers \<lparr>symbol_limit = 10, shard_count = 1, shard_index = 0\<rparr> [demo_row] empty_cache
    = (\<lparr>cached_tickers = Some [''005930''], cached_limit = Some 10\<rparr>, [''005930''])"
proof -
  have d: "latest_date [demo_row] = Some 1" by (simp add: latest_date_def demo_row_def)
  have "load_tickers \<lparr>symbol_limit = 10, shard_count = 1, shard_index = 0\<rparr> [demo_row] = [''005930'']"
    unfolding load_tickers_def d by (simp add: demo_row_def)
  then show ?thesis by (simp add: simulated_tickers_def empty_cache_def load_simulated_tickers_def Let_def)
qed

lemma demo_listed:
  "symbol_list (\<lambda>_ _. False) (\<lambda>_. ([], [])) (\<lambda>_. []) \<lparr>symbol_limit = 10, shard_count = 1, shard_index = 0\<rparr> [demo_row] [] 100
      empty_cache = (\<lparr>cached_tickers = Some [''005930''], cached_limit = Some 10\<rparr>, Inr demo_listing)"
proof -
  have d: "latest_date [demo_row] = Some 1" by (simp add: latest_date_def demo_row_def)
  have strip: "py_strip [] = []" by (simp add: py_strip_def py_lstrip_def)
  have rs: "listed_rows (\<lambda>_ _. False) (\<lambda>_. ([], [])) [demo_row] 1 [] 100 = [demo_row]"
    by (simp add: listed_rows_def Let_def demo_row_def)
  have sy: "md_symbol demo_row = ''005930''" by (simp add: demo_row_def)
  show ?thesis
    using symbol_results_spec [OF demo_universe, of "\<lambda>_. ([], [])" "[demo_row]"]
    by (auto simp: symbol_list_def d strip rs sy shard_for_ticker_def matcher_shard_def demo_listing_def Let_def split: prod.splits)
qed

lemma listed_universe_is_shared_witness:
  "\<exists>shards base. ebind (results_of [] demo_listing) (\<lambda>items. shards_of_items (\<lambda>_. []) items []) = Inr shards
    \<and> client_for [''http://a''] shards ''005930'' = Inr base"
proof -
  have st: "settings_ok \<lparr>symbol_limit = 10, shard_count = 1, shard_index = 0\<rparr>" by (simp add: settings_ok_def)
  note shared = listed_universe_is_shared [OF st demo_row_ok demo_listed, of "[''http://a'']" "\<lambda>_. []" "[]"]
  then obtain ts shards where sh: "simulated_tickers \<lparr>symbol_limit = 10, shard_count = 1, shard_index = 0\<rparr> [demo_row] empty_cache
      = (\<lparr>cached_tickers = Some [''005930''], cached_limit = Some 10\<rparr>, ts)"
    "ebind (results_of [] demo_listing) (\<lambda>items. shards_of_items (\<lambda>_. []) items []) = Inr shards"
    "case client_for [''http://a''] shards ''005930'' of Inl e \<Rightarrow> ''005930'' \<notin> set ts | Inr base \<Rightarrow> True"
    by (fastforce split: sum.splits)
  then have "ts = [''005930'']" using demo_universe by simp
  with sh show ?thesis by (cases "client_for [''http://a''] shards ''005930''") auto
qed

end
