(* ===== verification/Runner_Setup.thy ===== *)
theory Runner_Setup
  imports Backend_Client Market_Session
begin

text \<open>
  The start of a participant runner: \<open>config.py\<close> reads the environment, \<open>profiles.py\<close> builds
  the participants from the backend's profiles, \<open>scenario.py\<close> reads the scenario file, and
  \<open>__main__.py\<close> puts them together.

  The environment is a partial function. \<open>json.loads\<close>, the text of an exception and \<open>repr\<close>
  are arguments, those of the wire where one is at hand.
\<close>

section \<open>Configuration\<close>

type_synonym environment = "string \<Rightarrow> string option"

definition getenv :: "environment \<Rightarrow> string \<Rightarrow> string \<Rightarrow> string" where
  "getenv env name absent = (case env name of None \<Rightarrow> absent | Some v \<Rightarrow> v)"

definition http_concurrency_default :: int where
  "http_concurrency_default = 16"

definition http_concurrency_maximum :: int where
  "http_concurrency_maximum = 128"

text \<open>\<open>value or default\<close> for a text.\<close>

definition or_default :: "string \<Rightarrow> string \<Rightarrow> string" where
  "or_default v d = (if v = [] then d else v)"

definition env_choice :: "environment \<Rightarrow> string \<Rightarrow> string \<Rightarrow> string list \<Rightarrow> py_error + string" where
  "env_choice env name dflt choices =
     (let v = or_default (py_strip (getenv env name dflt)) dflt
      in if v \<in> set choices then Inr v else Inl (ConfigurationError (name @ '' must be one of its choices'')))"

definition parse_int :: "string \<Rightarrow> string \<Rightarrow> py_error + int" where
  "parse_int name raw =
     (case py_int_str raw of Inl _ \<Rightarrow> Inl (ConfigurationError (name @ '' must be an integer'')) | Inr i \<Rightarrow> Inr i)"

definition env_positive_int :: "environment \<Rightarrow> string \<Rightarrow> int option \<Rightarrow> int option \<Rightarrow> py_error + int option" where
  "env_positive_int env name dflt maximum =
     (case env name of
        None \<Rightarrow> Inr dflt
      | Some raw \<Rightarrow>
          if blank raw then Inr dflt
          else ebind (parse_int name raw) (\<lambda>v.
            if v < 1 then Inl (ConfigurationError (name @ '' must be at least 1''))
            else case maximum of
                None \<Rightarrow> Inr (Some v)
              | Some m \<Rightarrow> if m < v then Inl (ConfigurationError (name @ '' must be between 1 and '' @ str_int m))
                          else Inr (Some v)))"

definition non_negative_int :: "environment \<Rightarrow> string \<Rightarrow> py_error + int option" where
  "non_negative_int env name =
     (case env name of
        None \<Rightarrow> Inr None
      | Some raw \<Rightarrow>
          if blank raw then Inr None
          else ebind (parse_int name raw) (\<lambda>v.
            if v < 0 then Inl (ConfigurationError (name @ '' must be at least 0'')) else Inr (Some v)))"

text \<open>\<open>value or default\<close> for an optional number.\<close>

definition int_or :: "int option \<Rightarrow> int \<Rightarrow> int" where
  "int_or v d = (case v of None \<Rightarrow> d | Some i \<Rightarrow> if i = 0 then d else i)"

text \<open>The nonempty items of a comma-separated list, trimmed.\<close>

definition csv_items :: "string \<Rightarrow> string list" where
  "csv_items raw = filter (\<lambda>x. x \<noteq> []) (map py_strip (py_split raw (CHR '','')))"

definition http_url :: "string \<Rightarrow> bool" where
  "http_url u \<longleftrightarrow> py_startswith u ''http://'' \<or> py_startswith u ''https://''"

definition configured_urls :: "environment \<Rightarrow> string \<Rightarrow> py_error + string list" where
  "configured_urls env base =
     (let raw = py_strip (getenv env ''BACKEND_SHARD_URLS'' []);
          urls = (if raw \<noteq> [] then map (\<lambda>u. py_rstrip_char u (CHR ''/'')) (csv_items raw) else [base])
      in if urls = [] then Inl (ConfigurationError ''BACKEND_SHARD_URLS must contain at least one URL'')
         else if \<not> distinct urls then Inl (ConfigurationError ''BACKEND_SHARD_URLS must not contain duplicates'')
         else if \<not> list_all http_url urls
         then Inl (ConfigurationError ''BACKEND_SHARD_URLS must start with http:// or https://'')
         else Inr urls)"

definition selected_items :: "environment \<Rightarrow> string \<Rightarrow> py_error + string list" where
  "selected_items env name =
     (let items = csv_items (getenv env name [])
      in if \<not> distinct items then Inl (ConfigurationError (name @ '' must not contain duplicates'')) else Inr items)"

record runner_config =
  rf_base_url :: string
  rf_shard_urls :: "string list"
  rf_market_mode :: string
  rf_tick_ms :: int
  rf_timeout_ms :: int
  rf_status_ticks :: int
  rf_max_traders :: "int option"
  rf_concurrency :: int
  rf_trader_ids :: "string list"
  rf_strategies :: "string list"
  rf_shard :: "int option"
  rf_scenario :: "string option"
  rf_metrics_bind :: string
  rf_metrics_port :: "int option"

definition supported_market_modes :: "string list" where
  "supported_market_modes = [''scheduled'', ''always_open'']"

definition from_environment :: "environment \<Rightarrow> py_error + runner_config" where
  "from_environment env =
     (let base = py_rstrip_char (getenv env ''BACKEND_BASE_URL'' ''http://127.0.0.1:8000'') (CHR ''/'')
      in ebind (raise_if (\<not> http_url base) (ConfigurationError ''BACKEND_BASE_URL must start with http:// or https://'')) (\<lambda>_.
         ebind (configured_urls env base) (\<lambda>urls.
         ebind (selected_items env ''TRADER_IDS'') (\<lambda>ids.
         ebind (selected_items env ''TRADER_STRATEGIES'') (\<lambda>strategies.
         ebind (raise_if (\<not> set strategies \<subseteq> set supported_strategies)
             (ConfigurationError ''unsupported TRADER_STRATEGIES'')) (\<lambda>_.
         ebind (env_choice env ''SIMULATION_MARKET_MODE'' ''scheduled'' supported_market_modes) (\<lambda>mode.
         ebind (env_positive_int env ''TICK_INTERVAL_MS'' (Some 1000) None) (\<lambda>tick_ms.
         ebind (env_positive_int env ''REQUEST_TIMEOUT_MS'' (Some 5000) None) (\<lambda>timeout_ms.
         ebind (env_positive_int env ''RUNNER_STATUS_LOG_INTERVAL_TICKS'' (Some 60) None) (\<lambda>status_ticks.
         ebind (env_positive_int env ''MAX_TRADERS'' None None) (\<lambda>max_traders.
         ebind (env_positive_int env ''HTTP_CONCURRENCY'' (Some http_concurrency_default) (Some http_concurrency_maximum)) (\<lambda>concurrency.
         ebind (non_negative_int env ''RUNNER_SHARD_INDEX'') (\<lambda>shard.
         ebind (non_negative_int env ''METRICS_PORT'') (\<lambda>port.
         let scenario = py_strip (getenv env ''SCENARIO_PATH'' [])
         in Inr \<lparr>rf_base_url = base, rf_shard_urls = urls, rf_market_mode = mode, rf_tick_ms = int_or tick_ms 1000,
              rf_timeout_ms = int_or timeout_ms 5000, rf_status_ticks = int_or status_ticks 60,
              rf_max_traders = max_traders, rf_concurrency = int_or concurrency http_concurrency_default,
              rf_trader_ids = ids, rf_strategies = strategies, rf_shard = shard,
              rf_scenario = (if scenario = [] then None else Some scenario),
              rf_metrics_bind = or_default (py_strip (getenv env ''METRICS_BIND'' ''0.0.0.0'')) ''0.0.0.0'',
              rf_metrics_port = port\<rparr>))))))))))))))"

section \<open>Profiles\<close>

text \<open>\<open>profile.get("strategy") in selected_strategies\<close>: a list or an object cannot be hashed.\<close>

definition in_text_set :: "py_value \<Rightarrow> string list \<Rightarrow> py_error + bool" where
  "in_text_set v items =
     (case v of
        PyStr s \<Rightarrow> Inr (s \<in> set items)
      | PyList _ \<Rightarrow> Inl (TypeError ''unhashable type'')
      | PyDict _ \<Rightarrow> Inl (TypeError ''unhashable type'')
      | _ \<Rightarrow> Inr False)"

definition profile_text :: "(py_value \<Rightarrow> string) \<Rightarrow> (string \<times> py_value) list \<Rightarrow> string \<Rightarrow> string" where
  "profile_text repr d k = py_str repr (json_get d k PyNone)"

definition profile_selected ::
  "(py_value \<Rightarrow> string) \<Rightarrow> string list \<Rightarrow> string list \<Rightarrow> (string \<times> py_value) list \<Rightarrow> py_error + bool" where
  "profile_selected repr ids strategies d =
     (if \<not> truthy (json_get d ''enabled'' PyNone) then Inr False
      else if ids \<noteq> [] \<and> profile_text repr d ''id'' \<notin> set ids then Inr False
      else if strategies = [] then Inr True
      else in_text_set (json_get d ''strategy'' PyNone) strategies)"

fun select_profiles ::
  "(py_value \<Rightarrow> string) \<Rightarrow> string list \<Rightarrow> string list \<Rightarrow> py_value list
    \<Rightarrow> py_error + (string \<times> py_value) list list" where
  "select_profiles repr ids strategies [] = Inr []"
| "select_profiles repr ids strategies (v # vs) =
     (case v of
        PyDict d \<Rightarrow>
          ebind (profile_selected repr ids strategies d) (\<lambda>chosen.
          ebind (select_profiles repr ids strategies vs) (\<lambda>ds. Inr (if chosen then d # ds else ds)))
      | _ \<Rightarrow> Inl (AttributeError ''get''))"

definition profile_settings :: "(py_value \<Rightarrow> string) \<Rightarrow> (string \<times> py_value) list \<Rightarrow> py_error + trader_settings" where
  "profile_settings repr d =
     (let txt = (\<lambda>k. ebind (json_item (PyDict d) k) (\<lambda>v. Inr (py_str repr v)));
          num = (\<lambda>k. ebind (json_item (PyDict d) k) py_int)
      in ebind (txt ''user_id'') (\<lambda>user. ebind (txt ''symbol'') (\<lambda>sy. ebind (txt ''strategy'') (\<lambda>strategy.
         ebind (num ''reference_price'') (\<lambda>reference. ebind (num ''price_step'') (\<lambda>pstep.
         ebind (num ''max_offset_steps'') (\<lambda>offset. ebind (num ''quantity_min'') (\<lambda>qmin.
         ebind (num ''quantity_max'') (\<lambda>qmax. ebind (num ''order_ttl_seconds'') (\<lambda>ttl.
         ebind (num ''interval_seconds'') (\<lambda>interval. ebind (num ''seed'') (\<lambda>sd.
         settings_post_init \<lparr>ts_user = user, ts_symbol = sy, ts_strategy = strategy, ts_reference = reference,
           ts_step = pstep, ts_max_offset = offset, ts_quantity_min = qmin, ts_quantity_max = qmax, ts_ttl = ttl,
           ts_interval = interval, ts_seed = sd\<rparr>))))))))))))"

definition build_profile ::
  "'r prng \<Rightarrow> (py_value \<Rightarrow> string) \<Rightarrow> int \<Rightarrow> (string \<times> py_value) list \<Rightarrow> py_error + 'r trader" where
  "build_profile G repr tick_ms d = ebind (profile_settings repr d) (\<lambda>s. build_trader G s tick_ms)"

text \<open>The profiles of one shard, and the checks before the participants are built.\<close>

definition shard_profiles ::
  "(py_value \<Rightarrow> string) \<Rightarrow> int option \<Rightarrow> (symbol, int) dict \<Rightarrow> (string \<times> py_value) list list
    \<Rightarrow> py_error + (string \<times> py_value) list list" where
  "shard_profiles repr shard shards ds =
     (case shard of
        None \<Rightarrow> Inr ds
      | Some i \<Rightarrow>
          if shards = []
          then Inl (InvalidTraderProfileError ''RUNNER_SHARD_INDEX requires matcher_shard values from /api/v1/symbols/'')
          else Inr (filter (\<lambda>d. dict_get shards (profile_text repr d ''symbol'') = Some i) ds))"

definition build_participants ::
  "'r prng \<Rightarrow> (py_value \<Rightarrow> string) \<Rightarrow> py_value list \<Rightarrow> string list \<Rightarrow> string list \<Rightarrow> int option \<Rightarrow> int option
    \<Rightarrow> (symbol, int) dict \<Rightarrow> int \<Rightarrow> py_error + 'r trader list" where
  "build_participants G repr profiles ids strategies max_traders shard shards tick_ms =
     ebind (select_profiles repr ids strategies profiles) (\<lambda>ds.
     ebind (raise_if (ids \<noteq> [] \<and> set (map (\<lambda>d. profile_text repr d ''id'') ds) \<noteq> set ids)
         (InvalidTraderProfileError ''each selected trader must exist and be enabled'')) (\<lambda>_.
     ebind (shard_profiles repr shard shards ds) (\<lambda>ds.
     let ds = (case max_traders of None \<Rightarrow> ds | Some m \<Rightarrow> take (nat m) ds)
     in case those_ok (map (build_profile G repr tick_ms) ds) of
          Inl e \<Rightarrow> Inl (if shape_error e then InvalidTraderProfileError ''trader profile has invalid settings'' else e)
        | Inr ts \<Rightarrow> Inr ts)))"

section \<open>Scenarios\<close>

definition enum_text :: "(string \<Rightarrow> py_error + 'a) \<Rightarrow> py_value \<Rightarrow> py_error + 'a" where
  "enum_text f v = (case v of PyStr s \<Rightarrow> f s | _ \<Rightarrow> Inl (ValueError ''not a valid member''))"

definition required_event_fields :: "string list" where
  "required_event_fields = [''event_id'', ''symbol'', ''starts_after_ms'', ''preset'']"

definition event_label :: "nat \<Rightarrow> string" where
  "event_label i = ''events['' @ str_nat i @ '']''"

text \<open>The constructor calls of \<open>_parse_event\<close>, and its handler of \<open>ValueError\<close>.\<close>

definition event_from_item ::
  "(py_value \<Rightarrow> string) \<Rightarrow> (string \<times> py_value) list \<Rightarrow> py_error + news_event" where
  "event_from_item repr d =
     ebind (enum_text event_preset_of (json_get d ''preset'' PyNone)) (\<lambda>preset.
     ebind (enum_text direction_hint_of (json_get d ''direction_hint'' (PyStr (hint_value HINT_NONE)))) (\<lambda>hint.
     make_news_event (profile_text repr d ''event_id'') (profile_text repr d ''symbol'')
       (json_get d ''starts_after_ms'' PyNone) (Some preset) (Some hint)
       (py_str repr (json_get d ''label'' (PyStr []))) (py_str repr (json_get d ''source'' (PyStr ''fixture'')))
       (json_get d ''seed'' (PyInt 42))))"

definition parse_event ::
  "(py_error \<Rightarrow> string) \<Rightarrow> (py_value \<Rightarrow> string) \<Rightarrow> nat \<Rightarrow> py_value \<Rightarrow> py_error + news_event" where
  "parse_event err_text repr i v =
     (case v of
        PyDict d \<Rightarrow>
          (let missing = filter (\<lambda>k. dict_get d k = None) required_event_fields
           in if missing \<noteq> []
              then Inl (InvalidScenarioError (event_label i @ '' is missing required fields: '' @ hd missing
                @ concat (map (\<lambda>k. '', '' @ k) (tl missing))))
              else (case event_from_item repr d of
                  Inl e \<Rightarrow> Inl (if is_value_error e
                                then InvalidScenarioError (event_label i @ '' is invalid: '' @ err_text e) else e)
                | Inr ev \<Rightarrow> Inr ev))
      | _ \<Rightarrow> Inl (InvalidScenarioError (event_label i @ '' must be an object'')))"

fun parse_events ::
  "(py_error \<Rightarrow> string) \<Rightarrow> (py_value \<Rightarrow> string) \<Rightarrow> nat \<Rightarrow> string list \<Rightarrow> py_value list
    \<Rightarrow> py_error + news_event list" where
  "parse_events err_text repr i seen [] = Inr []"
| "parse_events err_text repr i seen (v # vs) =
     ebind (parse_event err_text repr i v) (\<lambda>ev.
     if ev_id ev \<in> set seen then Inl (InvalidScenarioError (''duplicate event_id: '' @ ev_id ev))
     else ebind (parse_events err_text repr (Suc i) (ev_id ev # seen) vs) (\<lambda>evs. Inr (ev # evs)))"

definition parse_scenario ::
  "(py_error \<Rightarrow> string) \<Rightarrow> (py_value \<Rightarrow> string) \<Rightarrow> py_value \<Rightarrow> py_error + news_event list" where
  "parse_scenario err_text repr raw =
     (case raw of
        PyDict d \<Rightarrow>
          (case dict_get d ''events'' of
             None \<Rightarrow> Inl (InvalidScenarioError ''scenario must be an object with an events list'')
           | Some (PyList vs) \<Rightarrow>
               if vs = [] then Inl (InvalidScenarioError ''events must be a non-empty list'')
               else parse_events err_text repr 0 [] vs
           | Some _ \<Rightarrow> Inl (InvalidScenarioError ''events must be a non-empty list''))
      | _ \<Rightarrow> Inl (InvalidScenarioError ''scenario must be an object with an events list''))"

text \<open>The second argument is what reading the file gives; text that is not UTF-8 is not an \<open>OSError\<close>.\<close>

definition load_scenario :: "'b wire \<Rightarrow> py_error + string \<Rightarrow> string \<Rightarrow> py_error + news_event list" where
  "load_scenario w contents path =
     (case contents of
        Inl e \<Rightarrow> Inl (if is_os_error e then InvalidScenarioError (''scenario file could not be read: '' @ path) else e)
      | Inr text \<Rightarrow>
          (case wr_loads w text of
             Inl e \<Rightarrow> Inl (if is_value_error e then InvalidScenarioError ''scenario file must contain valid JSON'' else e)
           | Inr raw \<Rightarrow> parse_scenario (wr_text w) (wr_repr w) raw))"

section \<open>The start\<close>

text \<open>The client of \<open>main\<close>, one backend behind the gateway.\<close>

definition single_client :: "'b wire \<Rightarrow> string \<Rightarrow> 'b client" where
  "single_client w url =
     \<lparr>cl_fetch_book = fetch_book w (base_url url), cl_submit_order = client_submit_order w (base_url url),
      cl_fetch_events = fetch_pending_market_events w (base_url url),
      cl_acknowledge = client_acknowledge w (base_url url), cl_cancel_order = client_cancel_order w (base_url url)\<rparr>"

definition build_coordinator ::
  "'b wire \<Rightarrow> (string \<Rightarrow> py_error + string) \<Rightarrow> string option \<Rightarrow> runner_config \<Rightarrow> int \<Rightarrow> 'r trader list
    \<Rightarrow> py_error + coordinator" where
  "build_coordinator w read_text argument config now store =
     ebind (case (case argument of Some p \<Rightarrow> Some p | None \<Rightarrow> rf_scenario config) of
              None \<Rightarrow> Inr [] | Some path \<Rightarrow> load_scenario w (read_text path) path) (\<lambda>evs.
     make_coordinator now evs store (rf_tick_ms config))"

text \<open>
  The \<open>try\<close> of \<open>main\<close> and the construction of the runner. An error with \<open>startup_error\<close> is logged
  and ends the process with status 1; any other propagates.
\<close>

fun startup_error :: "py_error \<Rightarrow> bool" where
  "startup_error (BackendApiError _ _) = True"
| "startup_error (ConfigurationError _) = True"
| "startup_error (InvalidTraderProfileError _) = True"
| "startup_error (InvalidScenarioError _) = True"
| "startup_error _ = False"

definition start_runner ::
  "'r prng \<Rightarrow> 'b wire \<Rightarrow> environment \<Rightarrow> (string \<Rightarrow> py_error + string) \<Rightarrow> string option \<Rightarrow> int
    \<Rightarrow> ('b, runner_config \<times> ('r, 'b) runner) action" where
  "start_runner G w env read_text argument now b =
     (case from_environment env of
        Inl e \<Rightarrow> (b, Inl e)
      | Inr config \<Rightarrow>
          (let base = base_url (rf_base_url config)
           in seq_call (if rf_shard config = None then (\<lambda>b. (b, Inr [])) else fetch_matcher_shards w base) (\<lambda>shards.
              seq_call (fetch_trader_profiles w base) (\<lambda>profiles b.
                (b, ebind (build_participants G (wr_repr w) profiles (rf_trader_ids config) (rf_strategies config)
                        (rf_max_traders config) (rf_shard config) shards (rf_tick_ms config)) (\<lambda>store.
                    ebind (build_coordinator w read_text argument config now store) (\<lambda>co.
                    ebind (make_runner b store (Some co) (rf_concurrency config)) (\<lambda>ru. Inr (config, ru))))))) b))"

section \<open>What a started runner is\<close>

lemma env_positive_int_ge_1:
  "env_positive_int env name dflt maximum = Inr (Some v) \<Longrightarrow> (\<And>d. dflt = Some d \<Longrightarrow> 1 \<le> d) \<Longrightarrow> 1 \<le> v"
  by (auto simp: env_positive_int_def ebind_eq_Inr_iff split: option.splits if_splits)

lemma env_positive_int_le:
  "env_positive_int env name dflt (Some m) = Inr (Some v) \<Longrightarrow> (\<And>d. dflt = Some d \<Longrightarrow> d \<le> m) \<Longrightarrow> v \<le> m"
  by (auto simp: env_positive_int_def ebind_eq_Inr_iff split: option.splits if_splits)

lemma from_environment_ok:
  assumes "from_environment env = Inr config"
  shows "1 \<le> rf_tick_ms config \<and> 1 \<le> rf_concurrency config \<and> rf_concurrency config \<le> http_concurrency_maximum"
proof -
  obtain t k where t: "env_positive_int env ''TICK_INTERVAL_MS'' (Some 1000) None = Inr t" "rf_tick_ms config = int_or t 1000"
    and k: "env_positive_int env ''HTTP_CONCURRENCY'' (Some http_concurrency_default) (Some http_concurrency_maximum) = Inr k"
      "rf_concurrency config = int_or k http_concurrency_default"
    using assms by (auto simp: from_environment_def Let_def ebind_eq_Inr_iff)
  have "1 \<le> rf_tick_ms config" using t env_positive_int_ge_1 [of env _ "Some 1000" None] by (cases t) (auto simp: int_or_def)
  moreover have "1 \<le> rf_concurrency config" "rf_concurrency config \<le> http_concurrency_maximum"
    using k env_positive_int_ge_1 [of env _ "Some http_concurrency_default" "Some http_concurrency_maximum"]
      env_positive_int_le [of env _ "Some http_concurrency_default" http_concurrency_maximum]
    by (cases k; auto simp: int_or_def http_concurrency_default_def http_concurrency_maximum_def)+
  ultimately show ?thesis by simp
qed

lemma build_profile_ok:
  assumes "build_profile G repr tick_ms d = Inr t" "1 \<le> tick_ms"
  shows "trader_ok t"
proof -
  obtain s where s: "profile_settings repr d = Inr s" "build_trader G s tick_ms = Inr t"
    using assms(1) by (auto simp: build_profile_def ebind_eq_Inr_iff)
  have "valid_settings s"
    using s(1) by (auto simp: profile_settings_def Let_def ebind_eq_Inr_iff settings_post_init_Inr_iff)
  from build_trader_ok [OF this assms(2), of G] s(2) show ?thesis by (metis sum.inject(2))
qed

lemma build_participants_ok:
  assumes "build_participants G repr profiles ids strategies m shard shards tick_ms = Inr ts" "1 \<le> tick_ms"
  shows "\<forall>t\<in>set ts. trader_ok t"
proof
  fix t assume t: "t \<in> set ts"
  obtain ds where "(case those_ok (map (build_profile G repr tick_ms) ds) of
      Inl e \<Rightarrow> Inl (if shape_error e then InvalidTraderProfileError ''trader profile has invalid settings'' else e)
    | Inr ts \<Rightarrow> Inr ts) = Inr ts"
    using assms(1) by (auto simp: build_participants_def Let_def ebind_eq_Inr_iff)
  then have "those_ok (map (build_profile G repr tick_ms) ds) = Inr ts"
    by (cases "those_ok (map (build_profile G repr tick_ms) ds)") simp_all
  then have "map (build_profile G repr tick_ms) ds = map Inr ts" by (simp add: those_ok_Inr_iff)
  with t obtain d where "build_profile G repr tick_ms d = Inr t" by (metis imageE image_eqI list.set_map)
  then show "trader_ok t" by (rule build_profile_ok [OF _ assms(2)])
qed

lemma parse_events_ok:
  "parse_events err_text repr i seen vs = Inr evs \<Longrightarrow>
   (\<forall>ev\<in>set evs. valid_event ev) \<and> distinct (map ev_id evs) \<and> set (map ev_id evs) \<inter> set seen = {} \<and> length evs = length vs"
proof (induction vs arbitrary: i seen evs)
  case (Cons v vs)
  obtain ev evs' where ev: "parse_event err_text repr i v = Inr ev" "ev_id ev \<notin> set seen"
    "parse_events err_text repr (Suc i) (ev_id ev # seen) vs = Inr evs'" "evs = ev # evs'"
    using Cons.prems by (auto simp: ebind_eq_Inr_iff split: if_splits)
  have "valid_event ev"
    using ev(1) by (auto simp: parse_event_def Let_def event_from_item_def ebind_eq_Inr_iff make_news_event_Inr_iff
        split: py_value.splits sum.splits if_splits)
  then show ?case using Cons.IH [OF ev(3)] ev(2,4) by auto
qed simp

lemma parse_scenario_ok:
  assumes "parse_scenario err_text repr raw = Inr evs"
  shows "evs \<noteq> [] \<and> (\<forall>ev\<in>set evs. valid_event ev) \<and> distinct (map ev_id evs)"
proof -
  obtain vs where vs: "vs \<noteq> []" "parse_events err_text repr 0 [] vs = Inr evs"
    using assms by (auto simp: parse_scenario_def split: py_value.splits option.splits if_splits)
  from parse_events_ok [OF vs(2)] vs(1) show ?thesis by auto
qed

lemma single_client_ok:
  assumes "wire_ok w"
  shows "client_ok (single_client w url)"
proof -
  have "case snd (fetch_book w (base_url url) sy b) of Inl e \<Rightarrow> is_api_error e | Inr snap \<Rightarrow> snapshot_ok snap" for sy b
    using fetch_book_ok [OF assms, where sy = sy and b = b and base = "base_url url"] by (auto split: sum.splits)
  then show ?thesis using operations_api [OF assms]
    by (simp add: client_ok_def single_client_def api_action_def raises_def)
qed

text \<open>What \<open>start_runner\<close> gives when it gives a runner.\<close>

lemma started_runner:
  assumes "wire_ok w" "start_runner G w env read_text argument now b = (b', Inr (config, ru))"
  shows "runner_reach G sha (single_client w (rf_base_url config)) ru \<and> client_ok (single_client w (rf_base_url config))
    \<and> runner_ok ru \<and> 1 \<le> ru_concurrency ru \<and> ru_concurrency ru \<le> 128 \<and> ru_pending ru = 0 \<and> ru_outstanding ru = []"
proof -
  obtain profiles shards store co where config: "from_environment env = Inr config"
    and store: "build_participants G (wr_repr w) profiles (rf_trader_ids config) (rf_strategies config)
        (rf_max_traders config) (rf_shard config) shards (rf_tick_ms config) = Inr store"
    and co: "build_coordinator w read_text argument config now store = Inr co"
    and ru: "make_runner b' store (Some co) (rf_concurrency config) = Inr ru"
    using assms(2) by (auto simp: start_runner_def Let_def seq_call_def ebind_eq_Inr_iff split: sum.splits prod.splits)
  have c: "1 \<le> rf_tick_ms config" "1 \<le> rf_concurrency config" "rf_concurrency config \<le> 128"
    using from_environment_ok [OF config] by (simp_all add: http_concurrency_maximum_def)
  have traders: "\<forall>t\<in>set store. trader_ok t" by (rule build_participants_ok [OF store c(1)])
  obtain evs where evs: "make_coordinator now evs store (rf_tick_ms config) = Inr co" "\<forall>e\<in>set evs. valid_event e"
    using co parse_scenario_ok
    by (auto simp: build_coordinator_def load_scenario_def ebind_eq_Inr_iff split: option.splits sum.splits)
  have team: "team_ok store (Some co)" using make_coordinator_ok [OF evs(1) traders evs(2)] traders by (simp add: team_ok_def)
  have "runner_reach G sha (single_client w (rf_base_url config)) ru" by (rule runner_reach.start [OF ru team])
  moreover have "runner_ok ru" by (rule make_runner_ok [OF ru team])
  moreover have "ru_concurrency ru = rf_concurrency config" "ru_pending ru = 0" "ru_outstanding ru = []"
    using ru by (auto simp: make_runner_def split: if_splits)
  ultimately show ?thesis using single_client_ok [OF assms(1)] c by simp
qed


text \<open>A backend with one profile, and an empty environment.\<close>

definition demo_profile :: py_value where
  "demo_profile = PyDict [(''enabled'', PyBool True), (''user_id'', PyStr ''u''), (''symbol'', PyStr ''005930''),
     (''strategy'', PyStr ''noise''), (''reference_price'', PyInt 100), (''price_step'', PyInt 1),
     (''max_offset_steps'', PyInt 2), (''quantity_min'', PyInt 1), (''quantity_max'', PyInt 3),
     (''order_ttl_seconds'', PyInt 16), (''interval_seconds'', PyInt 2), (''seed'', PyInt 7)]"

definition setup_wire :: "nat wire" where
  "setup_wire = demo_wire\<lparr>wr_open := (\<lambda>_ n. (n + 1, Inr ''profiles'')),
     wr_loads := (\<lambda>_. Inr (PyList [demo_profile]))\<rparr>"

lemma setup_wire_ok: "wire_ok setup_wire"
  by (simp add: wire_ok_def setup_wire_def demo_wire_def raises_def)

lemma demo_start:
  "\<exists>ru config. start_runner demo_prng setup_wire (\<lambda>_. None) (\<lambda>_. Inl (OSError [])) None 0 0 = (1, Inr (config, ru))
     \<and> ru_concurrency ru = 16 \<and> length (ru_store ru) = 1 \<and> rf_market_mode config = ''scheduled''"
proof -
  have texts: "py_rstrip_char ''http://127.0.0.1:8000'' (CHR ''/'') = ''http://127.0.0.1:8000''"
    "http_url ''http://127.0.0.1:8000''" "py_strip [] = []" "csv_items [] = []" "py_strip ''scheduled'' = ''scheduled''"
    by code_simp+
  obtain config where config: "from_environment (\<lambda>_. None) = Inr config" "rf_tick_ms config = 1000" "rf_concurrency config = 16"
    "rf_base_url config = ''http://127.0.0.1:8000''" "rf_shard config = None" "rf_trader_ids config = []"
    "rf_strategies config = []" "rf_market_mode config = ''scheduled''" "rf_max_traders config = None" "rf_scenario config = None"
    by (simp add: from_environment_def getenv_def texts configured_urls_def selected_items_def env_choice_def or_default_def
        supported_market_modes_def env_positive_int_def non_negative_int_def int_or_def http_concurrency_default_def Let_def)
  have blank: "\<not> blank ''u''" "\<not> blank ''005930''" by code_simp+
  let ?s = "\<lparr>ts_user = ''u'', ts_symbol = ''005930'', ts_strategy = ''noise'', ts_reference = 100, ts_step = 1,
    ts_max_offset = 2, ts_quantity_min = 1, ts_quantity_max = 3, ts_ttl = 16, ts_interval = 2, ts_seed = 7\<rparr>"
  obtain d where d: "demo_profile = PyDict d" "truthy (json_get d ''enabled'' PyNone)" "profile_settings (\<lambda>_. []) d = Inr ?s"
    by (simp add: demo_profile_def json_get_def profile_settings_def settings_post_init_def supported_strategies_def blank)
  have "valid_settings ?s" by (simp add: valid_settings_def supported_strategies_def blank)
  then obtain t where t: "build_trader demo_prng ?s 1000 = Inr t"
    using build_trader_ok [of ?s 1000 demo_prng] by auto
  have store: "build_participants demo_prng (\<lambda>_. []) [demo_profile] [] [] None None [] 1000 = Inr [t]"
    by (simp add: build_participants_def d profile_selected_def shard_profiles_def build_profile_def t)
  obtain co where co: "make_coordinator 0 [] [t] 1000 = Inr co"
    by (simp add: make_coordinator_def make_planner_def require_positive_int_def)
  obtain ru where ru: "make_runner (1 :: nat) [t] (Some co) 16 = Inr ru" "ru_concurrency ru = 16" "ru_store ru = [t]"
    by (simp add: make_runner_def)
  have "start_runner demo_prng setup_wire (\<lambda>_. None) (\<lambda>_. Inl (OSError [])) None 0 0 = (1, Inr (config, ru))"
    using config store co ru
    by (simp add: start_runner_def seq_call_def fetch_trader_profiles_def request_def setup_wire_def demo_wire_def
        build_coordinator_def Let_def)
  then show ?thesis using ru config by auto
qed


end
