(* ===== verification/Reference_Data.thy ===== *)
theory Reference_Data
  imports Simulation Market_Session
begin

text \<open>
  \<open>backend/exchange/reference_data\<close>: the client of the exchange's open API (\<open>krx.py\<close>) and the
  import of the hundred most traded symbols (\<open>service.py\<close>) into the tables of \<open>models.py\<close>.

  A calendar date is its year, month and day. The connection, \<open>json.loads\<close> and \<open>repr\<close> are
  arguments, and so is what the database refuses when it stores a record. The atomic block
  either stores everything or nothing.
\<close>

section \<open>Dates\<close>

record cal_date =
  cal_year :: nat
  cal_month :: nat
  cal_day :: nat

definition leap_year :: "nat \<Rightarrow> bool" where
  "leap_year y \<longleftrightarrow> y mod 4 = 0 \<and> (y mod 100 \<noteq> 0 \<or> y mod 400 = 0)"

definition days_in_month :: "nat \<Rightarrow> nat \<Rightarrow> nat" where
  "days_in_month y m = (if m = 2 then (if leap_year y then 29 else 28) else if m \<in> {4, 6, 9, 11} then 30 else 31)"

definition valid_date :: "cal_date \<Rightarrow> bool" where
  "valid_date d \<longleftrightarrow> 1 \<le> cal_year d \<and> cal_year d \<le> 9999 \<and> 1 \<le> cal_month d \<and> cal_month d \<le> 12
     \<and> 1 \<le> cal_day d \<and> cal_day d \<le> days_in_month (cal_year d) (cal_month d)"

text \<open>\<open>d - timedelta(days=1)\<close>.\<close>

definition previous_day :: "cal_date \<Rightarrow> cal_date" where
  "previous_day d =
     (if 1 < cal_day d then d\<lparr>cal_day := cal_day d - 1\<rparr>
      else if 1 < cal_month d
      then d\<lparr>cal_month := cal_month d - 1, cal_day := days_in_month (cal_year d) (cal_month d - 1)\<rparr>
      else \<lparr>cal_year = cal_year d - 1, cal_month = 12, cal_day = 31\<rparr>)"

text \<open>The number of the day since 1 January 1970, as dates are compared elsewhere.\<close>

definition day_number :: "cal_date \<Rightarrow> int" where
  "day_number d =
     (let m = int (cal_month d); y = int (cal_year d) - (if m \<le> 2 then 1 else 0)
      in 365 * y + y div 4 - y div 100 + y div 400
         + (153 * (if 2 < m then m - 3 else m + 9) + 2) div 5 + int (cal_day d) - 1 - 719468)"

definition zero_padded :: "nat \<Rightarrow> nat \<Rightarrow> string" where
  "zero_padded width n = replicate (width - length (str_nat n)) (CHR ''0'') @ str_nat n"

text \<open>\<open>strftime("%Y%m%d")\<close>.\<close>

definition compact_date :: "cal_date \<Rightarrow> string" where
  "compact_date d = zero_padded 4 (cal_year d) @ zero_padded 2 (cal_month d) @ zero_padded 2 (cal_day d)"

text \<open>
  \<open>date.fromisoformat\<close> of the first four, the next two and the next two characters, joined by
  hyphens: a date when they are eight digits of a valid date.
\<close>

definition date_of_digits :: "string \<Rightarrow> py_error + cal_date" where
  "date_of_digits s =
     (let d = \<lparr>cal_year = digits_value (take 4 s), cal_month = digits_value (take 2 (drop 4 s)),
               cal_day = digits_value (take 2 (drop 6 s))\<rparr>
      in if length (take 8 s) = 8 \<and> list_all is_digit (take 8 s) \<and> valid_date d then Inr d
         else Inl (ValueError ''Invalid isoformat string''))"

section \<open>Records\<close>

record krx_record =
  kr_ticker :: string
  kr_name :: string
  kr_market :: string
  kr_date :: cal_date
  kr_close :: int
  kr_volume :: int
  kr_value :: int
  kr_payload :: "(string \<times> string) list"

definition krx_integer :: "(py_value \<Rightarrow> string) \<Rightarrow> py_value \<Rightarrow> string \<Rightarrow> py_error + int" where
  "krx_integer repr v field =
     (let normalized = py_strip (filter (\<lambda>c. c \<noteq> CHR '','') (py_str repr v))
      in if normalized \<in> {[], ''-''} then Inr 0
         else case py_int_str normalized of
             Inl _ \<Rightarrow> Inl (KrxApiError (''KRX field '' @ field @ '' is not an integer''))
           | Inr i \<Rightarrow> if i < 0 then Inl (KrxApiError (''KRX field '' @ field @ '' must not be negative'')) else Inr i)"

definition krx_ticker :: "string \<Rightarrow> bool" where
  "krx_ticker s \<longleftrightarrow> length s = 6
     \<and> list_all (\<lambda>c. is_digit c \<or> 65 \<le> (of_char c :: nat) \<and> (of_char c :: nat) \<le> 90) s"

text \<open>The four identity fields; a missing one and a bad date give the same error.\<close>

definition identity_fields ::
  "(py_value \<Rightarrow> string) \<Rightarrow> (string \<times> py_value) list \<Rightarrow> py_error + string \<times> string \<times> string \<times> cal_date" where
  "identity_fields repr d =
     (case (dict_get d ''ISU_CD'', dict_get d ''ISU_NM'', dict_get d ''MKT_NM'', dict_get d ''BAS_DD'') of
        (Some cd, Some nm, Some mkt, Some day) \<Rightarrow>
          (case date_of_digits (py_str repr day) of
             Inl _ \<Rightarrow> Inl (KrxApiError ''KRX daily record is missing an identity field'')
           | Inr date \<Rightarrow> Inr (py_strip (py_str repr cd), py_strip (py_str repr nm), py_strip (py_str repr mkt), date))
      | _ \<Rightarrow> Inl (KrxApiError ''KRX daily record is missing an identity field''))"

definition parse_record :: "(py_value \<Rightarrow> string) \<Rightarrow> py_value \<Rightarrow> py_error + krx_record" where
  "parse_record repr v =
     (case v of
        PyDict d \<Rightarrow>
          ebind (identity_fields repr d) (\<lambda>(ticker, name, market, date).
          if \<not> krx_ticker ticker then Inl (KrxApiError ''KRX ISU_CD must be a six-character KRX short code'')
          else if name = [] then Inl (KrxApiError ''KRX ISU_NM must not be blank'')
          else if market \<noteq> ''KOSPI'' then Inl (KrxApiError ''KRX record market must be KOSPI'')
          else
            ebind (krx_integer repr (json_get d ''TDD_CLSPRC'' PyNone) ''TDD_CLSPRC'') (\<lambda>close.
            ebind (krx_integer repr (json_get d ''ACC_TRDVOL'' PyNone) ''ACC_TRDVOL'') (\<lambda>volume.
            ebind (krx_integer repr (json_get d ''ACC_TRDVAL'' PyNone) ''ACC_TRDVAL'') (\<lambda>value.
            Inr \<lparr>kr_ticker = ticker, kr_name = name, kr_market = market, kr_date = date, kr_close = close,
                 kr_volume = volume, kr_value = value, kr_payload = map (\<lambda>(k, v). (k, py_str repr v)) d\<rparr>))))
      | _ \<Rightarrow> Inl (KrxApiError ''KRX daily record must be an object''))"

section \<open>The client\<close>

text \<open>Opening the URL reads and decodes the response.\<close>

record 'b krx_client =
  kc_key :: string
  kc_attempts :: nat
  kc_open :: "string \<Rightarrow> ('b, string) action"
  kc_loads :: "string \<Rightarrow> py_error + py_value"
  kc_repr :: "py_value \<Rightarrow> string"

definition krx_endpoint :: string where
  "krx_endpoint = ''https://data-dbg.krx.co.kr/svc/apis/sto/stk_bydd_trd''"

text \<open>One attempt: \<open>None\<close> when it is to be repeated.\<close>

definition attempt_error :: "bool \<Rightarrow> py_error \<Rightarrow> py_error option" where
  "attempt_error final e =
     (case e of
        HTTPError code \<Rightarrow> if code < 500 \<or> final then Some (KrxApiError (''KRX API HTTP error '' @ str_int code)) else None
      | URLError _ \<Rightarrow> if final then Some (KrxApiError ''KRX API request failed'') else None
      | TimeoutError _ \<Rightarrow> if final then Some (KrxApiError ''KRX API request failed'') else None
      | UnicodeDecodeError \<Rightarrow> Some (KrxApiError ''KRX API returned invalid JSON'')
      | JSONDecodeError \<Rightarrow> Some (KrxApiError ''KRX API returned invalid JSON'')
      | _ \<Rightarrow> Some e)"

text \<open>\<open>_request_json\<close> with the attempts that are left.\<close>

fun request_json :: "'b krx_client \<Rightarrow> string \<Rightarrow> nat \<Rightarrow> ('b, (string \<times> py_value) list) action" where
  "request_json kc url 0 b = (b, Inl (AssertionError ''unreachable''))"
| "request_json kc url (Suc left) b =
     (let (b, r) = kc_open kc url b
      in case ebind r (kc_loads kc) of
          Inr (PyDict d) \<Rightarrow> (b, Inr d)
        | Inr _ \<Rightarrow> (b, Inl (KrxApiError ''KRX response must be a JSON object''))
        | Inl e \<Rightarrow> (case attempt_error (left = 0) e of
              Some e' \<Rightarrow> (b, Inl e')
            | None \<Rightarrow> request_json kc url left b))"

definition daily_records ::
  "(py_value \<Rightarrow> string) \<Rightarrow> cal_date \<Rightarrow> (string \<times> py_value) list \<Rightarrow> py_error + krx_record list" where
  "daily_records repr date payload =
     (let code = py_strip (py_str repr (json_get payload ''respCode'' (PyStr [])))
      in if code \<noteq> [] \<and> code \<noteq> ''200'' then Inl (KrxApiError (''KRX API rejected the request with code '' @ code))
         else case json_get payload ''OutBlock_1'' PyNone of
             PyList rows \<Rightarrow>
               ebind (those_ok (map (parse_record repr) rows)) (\<lambda>records.
               if \<exists>r\<in>set records. kr_date r \<noteq> date
               then Inl (KrxApiError ''KRX response trade date does not match the request'')
               else Inr records)
           | _ \<Rightarrow> Inl (KrxApiError ''KRX response does not contain OutBlock_1''))"

definition fetch_daily :: "'b krx_client \<Rightarrow> cal_date \<Rightarrow> ('b, krx_record list) action" where
  "fetch_daily kc date =
     (if blank (kc_key kc) then (\<lambda>b. (b, Inl (KrxConfigurationError ''KRX_API_KEY is required'')))
      else seq_call (request_json kc (krx_endpoint @ ''?basDd='' @ compact_date date) (kc_attempts kc))
             (\<lambda>payload b. (b, daily_records (kc_repr kc) date payload)))"

section \<open>The import\<close>

definition top_key :: "krx_record \<Rightarrow> int \<times> int \<times> string" where
  "top_key r = (- kr_value r, - kr_volume r, kr_ticker r)"

definition select_top100 :: "krx_record list \<Rightarrow> py_error + krx_record list" where
  "select_top100 records =
     (let selected = take 100 (sort_key top_key (filter (\<lambda>r. 0 < kr_value r) records))
      in if length selected \<noteq> 100
         then Inl (KrxApiError (''KRX KOSPI response must contain at least 100 traded symbols; got ''
                @ str_nat (length selected)))
         else Inr selected)"

fun look_back :: "'b krx_client \<Rightarrow> nat \<Rightarrow> cal_date \<Rightarrow> ('b, (cal_date \<times> krx_record list) option) action" where
  "look_back kc 0 date b = (b, Inr None)"
| "look_back kc (Suc n) date b =
     seq_call (fetch_daily kc date) (\<lambda>records.
       if records \<noteq> [] then (\<lambda>b. (b, Inr (Some (date, records)))) else look_back kc n (previous_day date)) b"

definition resolve_trade_date ::
  "'b krx_client \<Rightarrow> cal_date option \<Rightarrow> cal_date \<Rightarrow> nat \<Rightarrow> ('b, cal_date \<times> krx_record list) action" where
  "resolve_trade_date kc requested today days =
     (case requested of
        Some date \<Rightarrow>
          seq_call (fetch_daily kc date) (\<lambda>records b.
            (b, if records = [] then Inl (KrxApiError ''KRX returned no rows'') else Inr (date, records)))
      | None \<Rightarrow>
          seq_call (look_back kc days (previous_day today)) (\<lambda>found b.
            (b, case found of
                  Some x \<Rightarrow> Inr x
                | None \<Rightarrow> Inl (KrxApiError (''KRX returned no completed trading day within '' @ str_nat days @ '' days'')))))"

datatype run_status = Running | Success | Failed

record import_run =
  ir_date :: "cal_date option"
  ir_status :: run_status
  ir_count :: nat
  ir_error :: string

record ref_db =
  db_rows :: "market_row list"
  db_symbols :: "(string, string \<times> string) dict"
  db_runs :: "import_run list"

definition row_of :: "cal_date \<Rightarrow> nat \<Rightarrow> krx_record \<Rightarrow> market_row" where
  "row_of date rank r =
     \<lparr>md_symbol = kr_ticker r, md_date = day_number date, md_close = kr_close r, md_volume = kr_volume r,
      md_value = kr_value r, md_rank = int rank\<rparr>"

text \<open>\<open>update_or_create\<close> by symbol and date.\<close>

definition same_key :: "market_row \<Rightarrow> market_row \<Rightarrow> bool" where
  "same_key r s \<longleftrightarrow> md_symbol r = md_symbol s \<and> md_date r = md_date s"

definition put_row :: "market_row \<Rightarrow> market_row list \<Rightarrow> market_row list" where
  "put_row r rows =
     (if \<exists>s\<in>set rows. same_key r s then map (\<lambda>s. if same_key r s then r else s) rows else rows @ [r])"

text \<open>The loop of the atomic block; \<open>refuses\<close> is the error with which the database refuses a record.\<close>

fun store_ranked ::
  "(krx_record \<Rightarrow> py_error option) \<Rightarrow> cal_date \<Rightarrow> nat \<Rightarrow> krx_record list \<Rightarrow> ref_db \<Rightarrow> py_error + ref_db" where
  "store_ranked refuses date rank [] db = Inr db"
| "store_ranked refuses date rank (r # rs) db =
     (case refuses r of
        Some e \<Rightarrow> Inl e
      | None \<Rightarrow> store_ranked refuses date (Suc rank) rs
          (db\<lparr>db_symbols := dict_set (db_symbols db) (kr_ticker r) (kr_name r, ''KOSPI''),
              db_rows := put_row (row_of date rank r) (db_rows db)\<rparr>))"

definition store_selected ::
  "(krx_record \<Rightarrow> py_error option) \<Rightarrow> cal_date \<Rightarrow> krx_record list \<Rightarrow> ref_db \<Rightarrow> py_error + ref_db" where
  "store_selected refuses date selected db =
     store_ranked refuses date 1 selected
       (db\<lparr>db_rows := filter (\<lambda>r. \<not> (md_date r = day_number date \<and> md_symbol r \<notin> kr_ticker ` set selected)) (db_rows db)\<rparr>)"

record import_result =
  im_date :: cal_date
  im_count :: nat
  im_top :: "krx_record list"

text \<open>
  \<open>import_latest_kospi_top100\<close>. The run is the last of its table, \<open>finished\<close> what the handlers
  make of it; a refused record rolls the tables back.
\<close>

definition finished :: "import_run \<Rightarrow> ref_db \<Rightarrow> ref_db" where
  "finished run db = db\<lparr>db_runs := butlast (db_runs db) @ [run]\<rparr>"

definition import_top100 ::
  "(py_error \<Rightarrow> string) \<Rightarrow> (krx_record \<Rightarrow> py_error option) \<Rightarrow> 'b krx_client \<Rightarrow> cal_date option \<Rightarrow> cal_date \<Rightarrow> nat
    \<Rightarrow> (ref_db \<times> 'b, import_result) action" where
  "import_top100 err_text refuses kc requested today days = (\<lambda>(db, b).
     let run = \<lparr>ir_date = requested, ir_status = Running, ir_count = 0, ir_error = []\<rparr>;
         db = db\<lparr>db_runs := db_runs db @ [run]\<rparr>;
         (b, found) = resolve_trade_date kc requested today days b
     in case ebind found (\<lambda>(date, records).
          ebind (select_top100 records) (\<lambda>selected.
          ebind (store_selected refuses date selected db) (\<lambda>db'. Inr (date, selected, db')))) of
        Inl e \<Rightarrow> ((finished (run\<lparr>ir_status := Failed, ir_error := take 2000 (err_text e)\<rparr>) db, b), Inl e)
      | Inr (date, selected, db') \<Rightarrow>
          ((finished (run\<lparr>ir_date := Some date, ir_status := Success, ir_count := length selected, ir_error := []\<rparr>) db', b),
           Inr \<lparr>im_date = date, im_count = length selected, im_top = take 10 selected\<rparr>))"

section \<open>What an import leaves\<close>

abbreviation row_key :: "market_row \<Rightarrow> string \<times> int" where
  "row_key r \<equiv> (md_symbol r, md_date r)"

lemma same_key_iff: "same_key r s \<longleftrightarrow> row_key s = row_key r"
  by (auto simp: same_key_def)

lemma put_row_unique:
  assumes "market_unique rows"
  shows "market_unique (put_row r rows)"
proof (cases "\<exists>s\<in>set rows. same_key r s")
  case True
  have "map row_key (map (\<lambda>s. if same_key r s then r else s) rows) = map row_key rows"
    by (simp add: same_key_iff)
  then have "distinct (map row_key (map (\<lambda>s. if same_key r s then r else s) rows))"
    using assms by (simp only: market_unique_def)
  then show ?thesis using True by (simp only: put_row_def market_unique_def if_True)
next
  case False
  then show ?thesis using assms by (auto simp: put_row_def market_unique_def same_key_iff)
qed

lemma put_row_set: "set (put_row r rows) = insert r {s \<in> set rows. \<not> same_key r s}"
  by (auto simp: put_row_def)

lemma put_row_other:
  assumes "md_date r = d"
  shows "filter (\<lambda>s. md_date s \<noteq> d) (put_row r rows) = filter (\<lambda>s. md_date s \<noteq> d) rows"
proof -
  have "filter (\<lambda>s. md_date s \<noteq> d) (map (\<lambda>s. if same_key r s then r else s) rows) = filter (\<lambda>s. md_date s \<noteq> d) rows"
    using assms by (induction rows) (auto simp: same_key_def)
  then show ?thesis using assms by (simp add: put_row_def)
qed

text \<open>The rows of ranks from a first one on.\<close>

fun ranked_rows :: "cal_date \<Rightarrow> nat \<Rightarrow> krx_record list \<Rightarrow> market_row list" where
  "ranked_rows date rank [] = []"
| "ranked_rows date rank (r # rs) = row_of date rank r # ranked_rows date (Suc rank) rs"

lemma ranked_rows_symbols: "map md_symbol (ranked_rows date rank rs) = map kr_ticker rs"
  by (induction date rank rs rule: ranked_rows.induct) (simp_all add: row_of_def)

lemma ranked_rows_facts:
  "s \<in> set (ranked_rows date rank rs) \<Longrightarrow> md_date s = day_number date \<and> int rank \<le> md_rank s \<and> md_symbol s \<in> kr_ticker ` set rs"
proof (induction date rank rs rule: ranked_rows.induct)
  case (2 date rank r rs)
  then show ?case by (cases "s = row_of date rank r") (auto simp: row_of_def)
qed simp

definition day_rows :: "cal_date \<Rightarrow> market_row list \<Rightarrow> market_row set" where
  "day_rows date rows = {s \<in> set rows. md_date s = day_number date}"

lemma day_rows_put:
  "day_rows date (put_row (row_of date rank r) rows)
    = insert (row_of date rank r) {s \<in> day_rows date rows. md_symbol s \<noteq> kr_ticker r}"
  by (auto simp: day_rows_def put_row_set same_key_def row_of_def)

lemma store_ranked_spec:
  "store_ranked refuses date rank rs db = Inr db' \<Longrightarrow> market_unique (db_rows db) \<Longrightarrow>
     market_unique (db_rows db')
     \<and> filter (\<lambda>s. md_date s \<noteq> day_number date) (db_rows db') = filter (\<lambda>s. md_date s \<noteq> day_number date) (db_rows db)
     \<and> (distinct (map kr_ticker rs) \<longrightarrow> day_rows date (db_rows db')
          = {s \<in> day_rows date (db_rows db). md_symbol s \<notin> kr_ticker ` set rs} \<union> set (ranked_rows date rank rs))
     \<and> db_runs db' = db_runs db"
proof (induction refuses date rank rs db rule: store_ranked.induct)
  case (2 refuses date rank r rs db)
  let ?db = "db\<lparr>db_symbols := dict_set (db_symbols db) (kr_ticker r) (kr_name r, ''KOSPI''),
              db_rows := put_row (row_of date rank r) (db_rows db)\<rparr>"
  have step: "refuses r = None" "store_ranked refuses date (Suc rank) rs ?db = Inr db'"
    using 2(2) by (auto split: option.splits)
  have u: "market_unique (db_rows ?db)" using put_row_unique [OF 2(3)] by simp
  note ih = 2(1) [OF step(1) step(2) u]
  have o: "filter (\<lambda>s. md_date s \<noteq> day_number date) (db_rows ?db) = filter (\<lambda>s. md_date s \<noteq> day_number date) (db_rows db)"
    using put_row_other [of "row_of date rank r" "day_number date" "db_rows db"] by (simp add: row_of_def)
  have "day_rows date (db_rows db') = {s \<in> day_rows date (db_rows db). md_symbol s \<notin> kr_ticker ` set (r # rs)}
        \<union> set (ranked_rows date rank (r # rs))" if "distinct (map kr_ticker (r # rs))"
  proof -
    have rest: "day_rows date (db_rows db') = {s \<in> day_rows date (db_rows ?db). md_symbol s \<notin> kr_ticker ` set rs}
        \<union> set (ranked_rows date (Suc rank) rs)" using ih that by simp
    have "md_symbol (row_of date rank r) \<notin> kr_ticker ` set rs" using that by (simp add: row_of_def)
    then show ?thesis unfolding rest using day_rows_put [of date rank r "db_rows db"] by auto
  qed
  then show ?case using ih o by auto
qed simp

text \<open>The rows of the day, in the order of a query, are the ranked rows.\<close>

lemma ranked_rows_sorted:
  "sorted (map (\<lambda>r. (md_rank r, md_symbol r)) (ranked_rows date rank rs))
   \<and> distinct (map (\<lambda>r. (md_rank r, md_symbol r)) (ranked_rows date rank rs))"
proof (induction date rank rs rule: ranked_rows.induct)
  case (2 date rank r rs)
  have "int rank < md_rank s" if "s \<in> set (ranked_rows date (Suc rank) rs)" for s
    using ranked_rows_facts [OF that] by simp
  moreover have "md_rank (row_of date rank r) = int rank" by (simp add: row_of_def)
  ultimately show ?case using 2 by (fastforce simp: less_eq_prod_def)
qed simp

lemma day_query_ranked:
  assumes "market_unique rows" "day_rows date rows = set (ranked_rows date rank rs)"
  shows "sort_key (\<lambda>r. (md_rank r, md_symbol r)) (filter (\<lambda>r. md_date r = day_number date) rows) = ranked_rows date rank rs"
proof -
  let ?k = "\<lambda>r. (md_rank r, md_symbol r)" and ?q = "filter (\<lambda>r. md_date r = day_number date) rows"
  have set: "set ?q = set (ranked_rows date rank rs)" using assms(2) by (auto simp: day_rows_def)
  have d: "distinct rows" using assms(1) by (auto simp: market_unique_def distinct_map)
  have inj: "inj_on ?k (set (ranked_rows date rank rs))" using ranked_rows_sorted by (simp add: distinct_map)
  show ?thesis
  proof (rule map_sorted_distinct_set_unique)
    show "inj_on ?k (set (sort_key ?k ?q) \<union> set (ranked_rows date rank rs))" using inj set by simp
    show "sorted (map ?k (sort_key ?k ?q))" by simp
    show "distinct (map ?k (sort_key ?k ?q))" using d inj set by (simp add: distinct_map)
  qed (use ranked_rows_sorted set in simp_all)
qed

lemma store_selected_spec:
  assumes "store_selected refuses date selected db = Inr db'" "market_unique (db_rows db)"
  shows "market_unique (db_rows db')"
    and "filter (\<lambda>s. md_date s \<noteq> day_number date) (db_rows db') = filter (\<lambda>s. md_date s \<noteq> day_number date) (db_rows db)"
    and "distinct (map kr_ticker selected) \<Longrightarrow> day_rows date (db_rows db') = set (ranked_rows date 1 selected)"
    and "db_runs db' = db_runs db"
proof -
  let ?keep = "\<lambda>r. \<not> (md_date r = day_number date \<and> md_symbol r \<notin> kr_ticker ` set selected)"
  let ?db = "db\<lparr>db_rows := filter ?keep (db_rows db)\<rparr>"
  have u: "market_unique (db_rows ?db)"
    using assms(2) by (simp add: market_unique_def distinct_map_filter)
  note s = store_ranked_spec [OF assms(1) [unfolded store_selected_def] u]
  show "market_unique (db_rows db')" "db_runs db' = db_runs db" using s by simp_all
  have "filter (\<lambda>s. md_date s \<noteq> day_number date) (filter ?keep (db_rows db)) = filter (\<lambda>s. md_date s \<noteq> day_number date) (db_rows db)"
    by (simp add: conj_commute) (rule filter_cong; auto)
  then show "filter (\<lambda>s. md_date s \<noteq> day_number date) (db_rows db') = filter (\<lambda>s. md_date s \<noteq> day_number date) (db_rows db)"
    using s by simp
  have none: "{s \<in> day_rows date (db_rows ?db). md_symbol s \<notin> kr_ticker ` set selected} = {}"
    by (auto simp: day_rows_def)
  show "day_rows date (db_rows db') = set (ranked_rows date 1 selected)" if "distinct (map kr_ticker selected)"
    using s that unfolding none by blast
qed

text \<open>The universe after an import of the latest date: the most traded symbols in order.\<close>

lemma universe_after_import:
  assumes "market_unique rows" "day_rows date rows = set (ranked_rows date 1 selected)" "selected \<noteq> []"
    and "\<forall>s\<in>set rows. md_date s \<le> day_number date"
  shows "load_tickers st rows = take (nat (symbol_limit st)) (map kr_ticker selected)"
proof -
  obtain r rs where "selected = r # rs" using assms(3) by (cases selected) auto
  then have "row_of date 1 r \<in> day_rows date rows" using assms(2) by simp
  then obtain s where "s \<in> set rows" "md_date s = day_number date" by (auto simp: day_rows_def)
  then have "day_number date \<in> set (map md_date rows)" by (metis image_eqI set_map)
  then have "Max (set (map md_date rows)) = day_number date" "rows \<noteq> []"
    using assms(4) by (auto intro!: Max_eqI simp del: set_map) auto
  then have "latest_date rows = Some (day_number date)" by (simp add: latest_date_def)
  then show ?thesis
    using day_query_ranked [OF assms(1,2)] ranked_rows_symbols by (simp add: load_tickers_def)
qed

definition most_traded :: "krx_record list \<Rightarrow> krx_record list" where
  "most_traded records = take 100 (sort_key top_key (filter (\<lambda>r. 0 < kr_value r) records))"

lemma select_top100_spec:
  "select_top100 records = Inr selected \<Longrightarrow> selected = most_traded records \<and> length selected = 100"
  by (auto simp: select_top100_def most_traded_def Let_def split: if_splits)

lemma most_traded_distinct: "distinct (map kr_ticker records) \<Longrightarrow> distinct (map kr_ticker (most_traded records))"
proof -
  assume "distinct (map kr_ticker records)"
  then have "distinct (map kr_ticker (filter (\<lambda>r. 0 < kr_value r) records))" by (rule distinct_map_filter)
  then have "distinct (map kr_ticker (sort_key top_key (filter (\<lambda>r. 0 < kr_value r) records)))"
    by (simp add: distinct_map)
  then show ?thesis by (simp add: most_traded_def take_map [symmetric] distinct_take)
qed


text \<open>An API that refuses the connection: three attempts, then the import fails.\<close>

definition demo_krx :: "nat krx_client" where
  "demo_krx = \<lparr>kc_key = ''key'', kc_attempts = 3, kc_open = (\<lambda>_ n. (n + 1, Inl (URLError ''refused''))),
     kc_loads = (\<lambda>_. Inl JSONDecodeError), kc_repr = (\<lambda>_. [])\<rparr>"

definition demo_db :: ref_db where
  "demo_db = \<lparr>db_rows = [\<lparr>md_symbol = ''005930'', md_date = 20000, md_close = 1, md_volume = 1, md_value = 1, md_rank = 1\<rparr>],
     db_symbols = [(''005930'', (''a'', ''KOSPI''))], db_runs = []\<rparr>"


end
