(* ===== verification/Profile_Admin.thy ===== *)
theory Profile_Admin
  imports Runner_Setup Simulation
begin

text \<open>
  The profiles of the participants as the backend keeps them: the table \<open>TraderProfile\<close> of
  \<open>models.py\<close>, its serializer (\<open>serializers.py\<close>), the endpoints of \<open>views.py\<close> and the command
  \<open>seed_traders\<close>. The table is a list of records.

  A request carries the fields that the framework has parsed, \<open>None\<close> for an absent one;
  \<open>fields_ok\<close> is what the field classes accept. The upper bounds of the integer columns depend
  on the database and are left out.
\<close>

section \<open>Profiles\<close>

record trader_profile =
  tp_id :: uuid
  tp_name :: string
  tp_user :: string
  tp_strategy :: string
  tp_enabled :: bool
  tp_symbol :: symbol
  tp_reference :: int
  tp_step :: int
  tp_offset :: int
  tp_qmin :: int
  tp_qmax :: int
  tp_ttl :: int
  tp_interval :: int
  tp_seed :: int

record profile_request =
  pr_name :: "string option"
  pr_user :: "string option"
  pr_strategy :: "string option"
  pr_enabled :: "bool option"
  pr_symbol :: "symbol option"
  pr_reference :: "int option"
  pr_step :: "int option"
  pr_offset :: "int option"
  pr_qmin :: "int option"
  pr_qmax :: "int option"
  pr_ttl :: "int option"
  pr_interval :: "int option"
  pr_seed :: "int option"

text \<open>The defaults of the model's fields; a name and a user have none.\<close>

definition default_profile :: "uuid \<Rightarrow> trader_profile" where
  "default_profile i =
     \<lparr>tp_id = i, tp_name = [], tp_user = [], tp_strategy = ''noise'', tp_enabled = True, tp_symbol = ''005930'',
      tp_reference = 70000, tp_step = 100, tp_offset = 5, tp_qmin = 1, tp_qmax = 10, tp_ttl = 16, tp_interval = 1,
      tp_seed = 42\<rparr>"

definition given :: "'a option \<Rightarrow> 'a \<Rightarrow> 'a" where
  "given v old = (case v of None \<Rightarrow> old | Some x \<Rightarrow> x)"

definition apply_request :: "profile_request \<Rightarrow> trader_profile \<Rightarrow> trader_profile" where
  "apply_request r p =
     p\<lparr>tp_name := given (pr_name r) (tp_name p), tp_user := given (pr_user r) (tp_user p),
       tp_strategy := given (pr_strategy r) (tp_strategy p), tp_enabled := given (pr_enabled r) (tp_enabled p),
       tp_symbol := given (pr_symbol r) (tp_symbol p), tp_reference := given (pr_reference r) (tp_reference p),
       tp_step := given (pr_step r) (tp_step p), tp_offset := given (pr_offset r) (tp_offset p),
       tp_qmin := given (pr_qmin r) (tp_qmin p), tp_qmax := given (pr_qmax r) (tp_qmax p),
       tp_ttl := given (pr_ttl r) (tp_ttl p), tp_interval := given (pr_interval r) (tp_interval p),
       tp_seed := given (pr_seed r) (tp_seed p)\<rparr>"

definition present :: "('a \<Rightarrow> bool) \<Rightarrow> 'a option \<Rightarrow> bool" where
  "present P v = (case v of None \<Rightarrow> True | Some x \<Rightarrow> P x)"

text \<open>The fields of the serializer, with the uniqueness of name and user among the other profiles.\<close>

definition fields_ok :: "bool \<Rightarrow> trader_profile list \<Rightarrow> profile_request \<Rightarrow> bool" where
  "fields_ok partial others r \<longleftrightarrow> (partial \<or> pr_name r \<noteq> None \<and> pr_user r \<noteq> None)
     \<and> present (\<lambda>x. text_field 100 x \<and> x \<notin> tp_name ` set others) (pr_name r)
     \<and> present (\<lambda>x. text_field 128 x \<and> x \<notin> tp_user ` set others) (pr_user r)
     \<and> present (\<lambda>x. x \<in> set supported_strategies) (pr_strategy r)
     \<and> present (text_field 6) (pr_symbol r)
     \<and> present (\<lambda>x. 1 \<le> x) (pr_reference r) \<and> present (\<lambda>x. 1 \<le> x) (pr_step r) \<and> present (\<lambda>x. 0 \<le> x) (pr_offset r)
     \<and> present (\<lambda>x. 1 \<le> x) (pr_qmin r) \<and> present (\<lambda>x. 1 \<le> x) (pr_qmax r)
     \<and> present (\<lambda>x. 1 \<le> x) (pr_ttl r) \<and> present (\<lambda>x. 1 \<le> x) (pr_interval r)"

text \<open>\<open>validate\<close>, with the instance that a partial update changes.\<close>

definition or_else :: "'a option \<Rightarrow> 'a option \<Rightarrow> 'a option" where
  "or_else v w = (case v of None \<Rightarrow> w | Some x \<Rightarrow> Some x)"

definition validate_profile ::
  "sim_settings \<Rightarrow> market_row list \<Rightarrow> trader_profile option \<Rightarrow> profile_request \<Rightarrow> (sim_cache, unit) action" where
  "validate_profile st rows instance r c =
     (let qmin = or_else (pr_qmin r) (map_option tp_qmin instance);
          qmax = or_else (pr_qmax r) (map_option tp_qmax instance);
          inverted = (case (qmax, qmin) of (Some b, Some a) \<Rightarrow> b < a | _ \<Rightarrow> False)
      in if inverted then (c, Inl (ValidationError ''quantity_max must be at least quantity_min''))
         else
           (let (c, known) = is_simulated_symbol st rows
                  (given (pr_symbol r) (case instance of None \<Rightarrow> fallback_symbol | Some p \<Rightarrow> tp_symbol p)) c
            in (c, if known then Inr () else Inl (ValidationError ''symbol is not in the current simulation set''))))"

section \<open>The endpoints\<close>

type_synonym profile_db = "sim_cache \<times> trader_profile list"

datatype profile_reply =
    ProfileList "trader_profile list"
  | ProfileShown trader_profile
  | ProfileCreated trader_profile
  | ProfileDeleted

definition get_profiles :: "(profile_db, profile_reply) action" where
  "get_profiles = (\<lambda>(c, ps). ((c, ps), Inr (ProfileList (sort_key tp_name ps))))"

definition debug_only :: py_error where
  "debug_only = PermissionDenied ''trader profile changes are only available in DEBUG mode''"

text \<open>\<open>serializer.is_valid(raise_exception=True)\<close>, in a table of which \<open>others\<close> are not the instance.\<close>

definition check_request ::
  "sim_settings \<Rightarrow> market_row list \<Rightarrow> trader_profile option \<Rightarrow> trader_profile list \<Rightarrow> profile_request \<Rightarrow> (sim_cache, unit) action" where
  "check_request st rows instance others r =
     (if \<not> fields_ok (instance \<noteq> None) others r then (\<lambda>c. (c, Inl (ValidationError ''invalid field'')))
      else validate_profile st rows instance r)"

definition create_profile ::
  "bool \<Rightarrow> sim_settings \<Rightarrow> market_row list \<Rightarrow> uuid \<Rightarrow> profile_request \<Rightarrow> (profile_db, profile_reply) action" where
  "create_profile debug st rows uid r = (\<lambda>(c, ps).
     if \<not> debug then ((c, ps), Inl debug_only)
     else case check_request st rows None ps r c of
         (c, Inl e) \<Rightarrow> ((c, ps), Inl e)
       | (c, Inr _) \<Rightarrow> (let p = apply_request r (default_profile uid) in ((c, ps @ [p]), Inr (ProfileCreated p))))"

definition find_profile :: "uuid \<Rightarrow> trader_profile list \<Rightarrow> trader_profile option" where
  "find_profile i ps = find (\<lambda>p. tp_id p = i) ps"

definition show_profile :: "uuid \<Rightarrow> (profile_db, profile_reply) action" where
  "show_profile i = (\<lambda>(c, ps).
     ((c, ps), case find_profile i ps of None \<Rightarrow> Inl (NotFound ''No TraderProfile matches the given query.'')
               | Some p \<Rightarrow> Inr (ProfileShown p)))"

definition patch_profile ::
  "bool \<Rightarrow> sim_settings \<Rightarrow> market_row list \<Rightarrow> uuid \<Rightarrow> profile_request \<Rightarrow> (profile_db, profile_reply) action" where
  "patch_profile debug st rows i r = (\<lambda>(c, ps).
     case find_profile i ps of
       None \<Rightarrow> ((c, ps), Inl (NotFound ''No TraderProfile matches the given query.''))
     | Some p \<Rightarrow>
         if \<not> debug then ((c, ps), Inl debug_only)
         else (case check_request st rows (Some p) (filter (\<lambda>q. tp_id q \<noteq> i) ps) r c of
             (c, Inl e) \<Rightarrow> ((c, ps), Inl e)
           | (c, Inr _) \<Rightarrow>
               (let p' = apply_request r p
                in ((c, map (\<lambda>q. if tp_id q = i then p' else q) ps), Inr (ProfileShown p')))))"

definition delete_profile :: "bool \<Rightarrow> uuid \<Rightarrow> (profile_db, profile_reply) action" where
  "delete_profile debug i = (\<lambda>(c, ps).
     case find_profile i ps of
       None \<Rightarrow> ((c, ps), Inl (NotFound ''No TraderProfile matches the given query.''))
     | Some _ \<Rightarrow> if \<not> debug then ((c, ps), Inl debug_only)
                 else ((c, filter (\<lambda>q. tp_id q \<noteq> i) ps), Inr ProfileDeleted))"

text \<open>What the serializer shows of a profile; the times of creation and update are left out.\<close>

definition profile_fields :: "(uuid \<Rightarrow> string) \<Rightarrow> trader_profile \<Rightarrow> (string \<times> py_value) list" where
  "profile_fields uuid_text p =
     [(''id'', PyStr (uuid_text (tp_id p))), (''name'', PyStr (tp_name p)), (''user_id'', PyStr (tp_user p)),
      (''strategy'', PyStr (tp_strategy p)), (''enabled'', PyBool (tp_enabled p)), (''symbol'', PyStr (tp_symbol p)),
      (''reference_price'', PyInt (tp_reference p)), (''price_step'', PyInt (tp_step p)),
      (''max_offset_steps'', PyInt (tp_offset p)), (''quantity_min'', PyInt (tp_qmin p)),
      (''quantity_max'', PyInt (tp_qmax p)), (''order_ttl_seconds'', PyInt (tp_ttl p)),
      (''interval_seconds'', PyInt (tp_interval p)), (''seed'', PyInt (tp_seed p))]"

section \<open>Seeding\<close>

text \<open>\<open>randrange(start, stop, step)\<close> with a positive step.\<close>

definition randrange3 :: "'r prng \<Rightarrow> int \<Rightarrow> int \<Rightarrow> int \<Rightarrow> ('r, int) action" where
  "randrange3 G start stop step =
     seq_call (randrange G ((stop - start + step - 1) div step)) (\<lambda>k r. (r, Inr (start + step * k)))"

definition reference_price_center :: "market_row list \<Rightarrow> symbol \<Rightarrow> int" where
  "reference_price_center rows sy =
     (case latest_date (filter (\<lambda>r. md_symbol r = sy) rows) of
        None \<Rightarrow> 70000
      | Some d \<Rightarrow> (case find (\<lambda>r. md_symbol r = sy \<and> md_date r = d) rows of
            None \<Rightarrow> 70000 | Some r \<Rightarrow> if md_close r = 0 then 70000 else md_close r))"

definition seed_reference_price :: "'r prng \<Rightarrow> int \<Rightarrow> ('r, int) action" where
  "seed_reference_price G center =
     (if center = 70000 then randrange3 G 65000 75100 100
      else randrange3 G (max 100 (center - 5 * 100)) (center + 5 * 100 + 100) 100)"

definition padded3 :: "nat \<Rightarrow> string" where
  "padded3 n = replicate (3 - length (str_nat n)) (CHR ''0'') @ str_nat n"

definition seed_key :: "string \<Rightarrow> symbol \<Rightarrow> string \<Rightarrow> nat \<Rightarrow> string" where
  "seed_key strategy sy middle i =
     ''random-'' @ strategy @ ''-'' @ (if sy = fallback_symbol then [] else sy @ ''-'') @ middle @ padded3 i"

text \<open>The profile of one index, its values drawn in the order of the code.\<close>

definition draw_profile ::
  "'r prng \<Rightarrow> string \<Rightarrow> symbol \<Rightarrow> int \<Rightarrow> nat \<Rightarrow> uuid \<Rightarrow> ('r, trader_profile) action" where
  "draw_profile G strategy sy center i uid =
     seq_call (randint G 1 5) (\<lambda>qmin.
     seq_call (seed_reference_price G center) (\<lambda>reference.
     seq_call (choice G [50, 100, 500]) (\<lambda>pstep.
     seq_call (randint G 0 10) (\<lambda>offset.
     seq_call (randint G qmin 15) (\<lambda>qmax.
     seq_call (randint G 1 5) (\<lambda>interval.
     seq_call (randint G 1 2147483647) (\<lambda>sd r.
       (r, Inr \<lparr>tp_id = uid, tp_name = seed_key strategy sy [] i, tp_user = seed_key strategy sy ''user-'' i,
          tp_strategy = strategy, tp_enabled = True, tp_symbol = sy, tp_reference = reference, tp_step = pstep,
          tp_offset = offset, tp_qmin = qmin, tp_qmax = qmax, tp_ttl = 16, tp_interval = interval, tp_seed = sd\<rparr>))))))))"

text \<open>\<open>update_or_create\<close> by user; the database refuses a second profile of the same name.\<close>

definition put_profile :: "trader_profile \<Rightarrow> trader_profile list \<Rightarrow> py_error + trader_profile list \<times> bool" where
  "put_profile p ps =
     (let others = filter (\<lambda>q. tp_user q \<noteq> tp_user p) ps
      in if tp_name p \<in> tp_name ` set others then Inl (IntegrityError ''UNIQUE constraint failed'')
         else if others = ps then Inr (ps @ [p], True)
         else Inr (map (\<lambda>q. if tp_user q = tp_user p then p\<lparr>tp_id := tp_id q\<rparr> else q) ps, False))"

text \<open>The loop; \<open>uid\<close> gives a new profile its identifier.\<close>

fun seed_loop ::
  "'r prng \<Rightarrow> (nat \<Rightarrow> uuid) \<Rightarrow> string \<Rightarrow> symbol \<Rightarrow> int \<Rightarrow> nat list \<Rightarrow> int \<Rightarrow> int \<Rightarrow> ('r \<times> trader_profile list, int \<times> int) action" where
  "seed_loop G uid strategy sy center [] created updated s = (s, Inr (created, updated))"
| "seed_loop G uid strategy sy center (i # is) created updated (r, ps) =
     (case draw_profile G strategy sy center i (uid i) r of
        (r, Inl e) \<Rightarrow> ((r, ps), Inl e)
      | (r, Inr p) \<Rightarrow>
          (case put_profile p ps of
             Inl e \<Rightarrow> ((r, ps), Inl e)
           | Inr (ps, True) \<Rightarrow> seed_loop G uid strategy sy center is (created + 1) updated (r, ps)
           | Inr (ps, False) \<Rightarrow> seed_loop G uid strategy sy center is created (updated + 1) (r, ps)))"

definition seed_traders ::
  "'r prng \<Rightarrow> (nat \<Rightarrow> uuid) \<Rightarrow> sim_settings \<Rightarrow> market_row list \<Rightarrow> int \<Rightarrow> int \<Rightarrow> string \<Rightarrow> string \<Rightarrow> (profile_db, int \<times> int) action" where
  "seed_traders G uid st rows number sd strategy raw = (\<lambda>(c, ps).
     let sy = py_strip raw
     in if \<not> (1 \<le> number \<and> number \<le> 1000) then ((c, ps), Inl (CommandError ''count must be between 1 and 1000''))
        else
          (let (c, known) = is_simulated_symbol st rows sy c
           in if \<not> known then ((c, ps), Inl (CommandError (''symbol '' @ sy @ '' is not in the current simulation set'')))
              else
                (let ((_, ps), result) = seed_loop G uid strategy sy (reference_price_center rows sy)
                       [1..<Suc (nat number)] 0 0 (prng_seed G sd, ps)
                 in ((c, ps), result))))"

section \<open>Stored profiles are runnable\<close>

definition stored_settings :: "trader_profile \<Rightarrow> trader_settings" where
  "stored_settings p =
     \<lparr>ts_user = tp_user p, ts_symbol = tp_symbol p, ts_strategy = tp_strategy p, ts_reference = tp_reference p,
      ts_step = tp_step p, ts_max_offset = tp_offset p, ts_quantity_min = tp_qmin p, ts_quantity_max = tp_qmax p,
      ts_ttl = tp_ttl p, ts_interval = tp_interval p, ts_seed = tp_seed p\<rparr>"

definition runnable :: "trader_profile \<Rightarrow> bool" where
  "runnable p \<longleftrightarrow> valid_settings (stored_settings p)"

lemma runnable_iff:
  "runnable p \<longleftrightarrow> tp_strategy p \<in> set supported_strategies \<and> \<not> blank (tp_user p) \<and> \<not> blank (tp_symbol p)
     \<and> 1 \<le> tp_reference p \<and> 1 \<le> tp_step p \<and> 0 \<le> tp_offset p \<and> 1 \<le> tp_qmin p \<and> tp_qmin p \<le> tp_qmax p
     \<and> 1 \<le> tp_ttl p \<and> 1 \<le> tp_interval p"
  by (simp add: runnable_def valid_settings_def stored_settings_def)

text \<open>What the runner makes of the profile that the backend shows.\<close>

lemma shown_profile_settings:
  "profile_settings repr (profile_fields uuid_text p) = settings_post_init (stored_settings p)"
  by (simp add: profile_settings_def profile_fields_def stored_settings_def Let_def)

text \<open>
  A request for a new profile whose smallest quantity stays below the largest one: the check of
  \<open>validate\<close> looks at the request only, not at the default of the column.
\<close>

definition range_given :: "profile_request \<Rightarrow> bool" where
  "range_given r \<longleftrightarrow> given (pr_qmin r) 1 \<le> given (pr_qmax r) 10"

text \<open>What holds of a profile before a request, and holds after it.\<close>

definition nearly_runnable :: "profile_request \<Rightarrow> trader_profile \<Rightarrow> bool" where
  "nearly_runnable r p \<longleftrightarrow> tp_strategy p \<in> set supported_strategies \<and> (pr_user r = None \<longrightarrow> \<not> blank (tp_user p))
     \<and> \<not> blank (tp_symbol p) \<and> 1 \<le> tp_reference p \<and> 1 \<le> tp_step p \<and> 0 \<le> tp_offset p \<and> 1 \<le> tp_qmin p
     \<and> 1 \<le> tp_ttl p \<and> 1 \<le> tp_interval p"

lemma given_present: "present P v \<Longrightarrow> (v = None \<Longrightarrow> P old) \<Longrightarrow> P (given v old)"
  by (cases v) (simp_all add: present_def given_def)

lemma apply_runnable:
  assumes "fields_ok partial others r" "tp_qmin (apply_request r p) \<le> tp_qmax (apply_request r p)" "nearly_runnable r p"
  shows "runnable (apply_request r p)"
proof -
  note f = assms(1) [unfolded fields_ok_def]
  from f have "present (\<lambda>x. text_field 128 x \<and> x \<notin> tp_user ` set others) (pr_user r)" by (elim conjE)
  then have user: "present (\<lambda>x. \<not> blank x) (pr_user r)" 
    using text_field_not_blank by (cases "pr_user r") (auto simp: present_def)
  from f have "present (text_field 6) (pr_symbol r)" by (elim conjE)
  then have symbol: "present (\<lambda>x. \<not> blank x) (pr_symbol r)" 
    using text_field_not_blank by (cases "pr_symbol r") (auto simp: present_def)
  from f have numbers: "present (\<lambda>x. 1 \<le> x) (pr_reference r)" "present (\<lambda>x. 1 \<le> x) (pr_step r)" "present (\<lambda>x. 0 \<le> x) (pr_offset r)"
    "present (\<lambda>x. 1 \<le> x) (pr_qmin r)" "present (\<lambda>x. 1 \<le> x) (pr_ttl r)" "present (\<lambda>x. 1 \<le> x) (pr_interval r)"
    "present (\<lambda>x. x \<in> set supported_strategies) (pr_strategy r)"
    by simp_all
  note old = assms(3) [unfolded nearly_runnable_def]
  have "given (pr_strategy r) (tp_strategy p) \<in> set supported_strategies"
    by (rule given_present [OF numbers(7)]) (use old in simp)
  moreover have "\<not> blank (given (pr_user r) (tp_user p))" by (rule given_present [OF user]) (use old in simp)
  moreover have "\<not> blank (given (pr_symbol r) (tp_symbol p))" by (rule given_present [OF symbol]) (use old in simp)
  moreover have "1 \<le> given (pr_reference r) (tp_reference p)" by (rule given_present [OF numbers(1)]) (use old in simp)
  moreover have "1 \<le> given (pr_step r) (tp_step p)" by (rule given_present [OF numbers(2)]) (use old in simp)
  moreover have "0 \<le> given (pr_offset r) (tp_offset p)" by (rule given_present [OF numbers(3)]) (use old in simp)
  moreover have "1 \<le> given (pr_qmin r) (tp_qmin p)" by (rule given_present [OF numbers(4)]) (use old in simp)
  moreover have "1 \<le> given (pr_ttl r) (tp_ttl p)" by (rule given_present [OF numbers(5)]) (use old in simp)
  moreover have "1 \<le> given (pr_interval r) (tp_interval p)" by (rule given_present [OF numbers(6)]) (use old in simp)
  ultimately show ?thesis using assms(2) by (simp add: runnable_iff apply_request_def)
qed

lemma nearly_runnable_old: "runnable p \<Longrightarrow> nearly_runnable r p"
  by (simp add: runnable_iff nearly_runnable_def)

lemma nearly_runnable_new: "fields_ok False others r \<Longrightarrow> nearly_runnable r (default_profile uid)"
proof -
  assume "fields_ok False others r"
  then have "pr_user r = None \<Longrightarrow> False" by (simp add: fields_ok_def)
  moreover have "\<not> blank ''005930''" by code_simp
  ultimately show ?thesis by (auto simp: nearly_runnable_def default_profile_def supported_strategies_def)
qed

lemma check_request_range:
  assumes "check_request st rows instance others r c = (c', Inr u)"
  shows "fields_ok (instance \<noteq> None) others r
    \<and> (\<forall>p. instance = Some p \<longrightarrow> tp_qmin (apply_request r p) \<le> tp_qmax (apply_request r p))"
  using assms
  by (auto simp: check_request_def validate_profile_def or_else_def apply_request_def given_def Let_def
      split: if_splits option.splits prod.splits)

lemma create_runnable:
  assumes "create_profile debug st rows uid r (c, ps) = ((c', ps'), res)" "range_given r" "\<forall>p\<in>set ps. runnable p"
  shows "\<forall>p\<in>set ps'. runnable p"
proof (cases "ps' = ps")
  case False
  then obtain c1 u where k: "check_request st rows None ps r c = (c1, Inr u)" "ps' = ps @ [apply_request r (default_profile uid)]"
    using assms(1) by (auto simp: create_profile_def Let_def split: if_splits prod.splits sum.splits)
  from check_request_range [OF k(1)] have f: "fields_ok False ps r" by simp
  have "tp_qmin (apply_request r (default_profile uid)) \<le> tp_qmax (apply_request r (default_profile uid))"
    using assms(2) by (simp add: range_given_def apply_request_def default_profile_def)
  from apply_runnable [OF f this nearly_runnable_new [OF f]] show ?thesis using k(2) assms(3) by auto
qed (use assms(3) in simp)

lemma patch_runnable:
  assumes "patch_profile debug st rows i r (c, ps) = ((c', ps'), res)" "\<forall>p\<in>set ps. runnable p"
  shows "\<forall>p\<in>set ps'. runnable p"
proof (cases "ps' = ps")
  case False
  then obtain p c1 u where k: "find_profile i ps = Some p"
      "check_request st rows (Some p) (filter (\<lambda>q. tp_id q \<noteq> i) ps) r c = (c1, Inr u)"
      "ps' = map (\<lambda>q. if tp_id q = i then apply_request r p else q) ps"
    using assms(1) by (auto simp: patch_profile_def Let_def split: if_splits prod.splits sum.splits option.splits)
  have p: "runnable p" using k(1) assms(2) by (auto simp: find_profile_def find_Some_iff)
  note ck = check_request_range [OF k(2)]
  have f: "fields_ok True (filter (\<lambda>q. tp_id q \<noteq> i) ps) r"
    and le: "tp_qmin (apply_request r p) \<le> tp_qmax (apply_request r p)" using ck by simp_all
  have "runnable (apply_request r p)" by (rule apply_runnable [OF f le nearly_runnable_old [OF p]])
  then show ?thesis using k(3) assms(2) by auto
qed (use assms(2) in simp)

lemma delete_runnable:
  "delete_profile debug i (c, ps) = ((c', ps'), res) \<Longrightarrow> \<forall>p\<in>set ps. runnable p \<Longrightarrow> \<forall>p\<in>set ps'. runnable p"
  by (auto simp: delete_profile_def split: option.splits if_splits)

text \<open>A drawn profile.\<close>

lemma seed_reference_price_spec:
  assumes "prng_ok G" "1 \<le> center"
  obtains r' k where "seed_reference_price G center r = (r', Inr k)" "1 \<le> k"
proof -
  have three: "\<exists>r' k. randrange3 G start stop 100 r = (r', Inr k) \<and> 1 \<le> k" if "1 \<le> start" "start < stop" for start stop
  proof -
    have "0 < (stop - start + 100 - 1) div 100" using that by (simp add: pos_imp_zdiv_pos_iff)
    then obtain r' k where "randrange G ((stop - start + 100 - 1) div 100) r = (r', Inr k)" "0 \<le> k"
      using randrange_spec [OF assms(1)] by metis
    then show ?thesis using that(1) by (simp add: randrange3_def seq_call_def)
  qed
  have "\<exists>r' k. seed_reference_price G center r = (r', Inr k) \<and> 1 \<le> k"
    unfolding seed_reference_price_def using three [of 65000 75100] three [of "max 100 (center - 5 * 100)" "center + 5 * 100 + 100"] assms(2)
    by (auto simp: max_def)
  then show ?thesis using that by blast
qed

lemma draw_profile_spec:
  assumes "prng_ok G" "1 \<le> center" "strategy \<in> set supported_strategies" "\<not> blank sy"
  obtains r' p where "draw_profile G strategy sy center i uid r = (r', Inr p)" "runnable p"
    "tp_user p = seed_key strategy sy ''user-'' i" "tp_name p = seed_key strategy sy [] i"
proof -
  obtain r1 qmin where 1: "randint G 1 5 r = (r1, Inr qmin)" "1 \<le> qmin" "qmin \<le> 5"
    by (rule randint_spec [OF assms(1), of 1 5 r]) simp_all
  obtain r2 reference where 2: "seed_reference_price G center r1 = (r2, Inr reference)" "1 \<le> reference"
    using seed_reference_price_spec [OF assms(1,2)] by metis
  obtain r3 pstep where 3: "choice G [50, 100, 500 :: int] r2 = (r3, Inr pstep)" "pstep \<in> set [50, 100, 500]"
    by (rule choice_spec [OF assms(1), of "[50, 100, 500 :: int]" r2]) simp_all
  obtain r4 offset where 4: "randint G 0 10 r3 = (r4, Inr offset)" "0 \<le> offset"
    by (rule randint_spec [OF assms(1), of 0 10 r3]) simp_all
  obtain r5 qmax where 5: "randint G qmin 15 r4 = (r5, Inr qmax)" "qmin \<le> qmax"
    by (rule randint_spec [OF assms(1), of qmin 15 r4]) (use 1 in simp_all)
  obtain r6 interval where 6: "randint G 1 5 r5 = (r6, Inr interval)" "1 \<le> interval"
    by (rule randint_spec [OF assms(1), of 1 5 r5]) simp_all
  obtain r7 sd where 7: "randint G 1 2147483647 r6 = (r7, Inr sd)"
    by (rule randint_spec [OF assms(1), of 1 2147483647 r6]) simp_all
  have "\<not> blank (seed_key strategy sy ''user-'' i)"
    by (auto simp: blank_iff seed_key_def py_isspace_def)
  then show ?thesis
    using that 1 2 3 4 5 6 7 assms(3,4) by (auto simp: draw_profile_def seq_call_def runnable_iff)
qed

lemma put_profile_runnable:
  "put_profile p ps = Inr (ps', new) \<Longrightarrow> runnable p \<Longrightarrow> \<forall>q\<in>set ps. runnable q \<Longrightarrow> \<forall>q\<in>set ps'. runnable q"
  by (auto simp: put_profile_def Let_def runnable_iff split: if_splits)

lemma seed_loop_runnable:
  assumes "prng_ok G" "1 \<le> center" "strategy \<in> set supported_strategies" "\<not> blank sy"
  shows "\<forall>q\<in>set ps. runnable q \<Longrightarrow> seed_loop G uid strategy sy center is a b (r, ps) = ((r', ps'), res) \<Longrightarrow>
    \<forall>q\<in>set ps'. runnable q"
proof (induction "is" arbitrary: a b r ps)
  case (Cons i "is")
  obtain r1 p where d: "draw_profile G strategy sy center i (uid i) r = (r1, Inr p)" "runnable p"
    using draw_profile_spec [OF assms] by metis
  show ?case
  proof (cases "put_profile p ps")
    case (Inl e)
    then show ?thesis using Cons.prems d by simp
  next
    case (Inr x)
    obtain ps1 new where x: "x = (ps1, new)" by fastforce
    have ps1: "\<forall>q\<in>set ps1. runnable q" using put_profile_runnable Inr x d(2) Cons.prems(1) by blast
    show ?thesis
      by (cases new) (use Cons.IH [OF ps1] Cons.prems(2) d(1) Inr x in auto)
  qed
qed simp

text \<open>Every state of the table that requests and seedings lead to.\<close>

inductive profiles_reach :: "'r prng \<Rightarrow> profile_db \<Rightarrow> bool" for G where
  start: "profiles_reach G (c, [])"
| create: "profiles_reach G s \<Longrightarrow> range_given r \<Longrightarrow> create_profile debug st rows uid r s = (s', res) \<Longrightarrow> profiles_reach G s'"
| patch: "profiles_reach G s \<Longrightarrow> patch_profile debug st rows i r s = (s', res) \<Longrightarrow> profiles_reach G s'"
| remove: "profiles_reach G s \<Longrightarrow> delete_profile debug i s = (s', res) \<Longrightarrow> profiles_reach G s'"
| seed: "profiles_reach G s \<Longrightarrow> strategy \<in> set supported_strategies \<Longrightarrow> \<not> blank raw \<Longrightarrow> \<forall>r\<in>set rows. 0 \<le> md_close r \<Longrightarrow>
    seed_traders G ids st rows number sd strategy raw s = (s', res) \<Longrightarrow> profiles_reach G s'"

lemma profiles_reach_runnable:
  assumes "profiles_reach G s" "prng_ok G"
  shows "\<forall>p\<in>set (snd s). runnable p"
  using assms(1)
proof (induction rule: profiles_reach.induct)
  case (create s r debug st rows uid s' res)
  obtain c ps c' ps' where s: "s = (c, ps)" "s' = (c', ps')" by (cases s; cases s')
  show ?case using create_runnable [OF create(3) [unfolded s] create(2)] create.IH s by simp
next
  case (patch s debug st rows i r s' res)
  obtain c ps c' ps' where s: "s = (c, ps)" "s' = (c', ps')" by (cases s; cases s')
  show ?case using patch_runnable [OF patch(2) [unfolded s]] patch.IH s by simp
next
  case (remove s debug i s' res)
  obtain c ps c' ps' where s: "s = (c, ps)" "s' = (c', ps')" by (cases s; cases s')
  show ?case using delete_runnable [OF remove(2) [unfolded s]] remove.IH s by simp
next
  case (seed s strategy raw rows ids st number sd s' res)
  obtain c ps where s: "s = (c, ps)" by fastforce
  have center: "1 \<le> reference_price_center rows (py_strip raw)"
  proof -
    have "1 \<le> md_close r" if "find P rows = Some r" "md_close r \<noteq> 0" for P r
    proof -
      have "r \<in> set rows" using that(1) by (auto simp: find_Some_iff)
      then have "0 \<le> md_close r" using seed(4) by blast
      then show ?thesis using that(2) by linarith
    qed
    then show ?thesis by (auto simp: reference_price_center_def split: option.split)
  qed
  have sy: "\<not> blank (py_strip raw)" using seed(3) by simp
  show ?case
  proof (cases "snd s' = ps")
    case True
    then show ?thesis using seed.IH s by simp
  next
    case False
    then obtain r' where "seed_loop G ids strategy (py_strip raw) (reference_price_center rows (py_strip raw))
        [1..<Suc (nat number)] 0 0 (prng_seed G sd, ps) = ((r', snd s'), res)"
      using seed(5) s by (auto simp: seed_traders_def Let_def split: if_splits prod.splits)
    then show ?thesis
      using seed_loop_runnable [OF assms(2) center seed(2) sy] seed.IH s by auto
  qed
qed simp

text \<open>What \<open>GET\<close> answers, and what the runner selects from it without filters.\<close>

definition shown_profiles :: "(uuid \<Rightarrow> string) \<Rightarrow> trader_profile list \<Rightarrow> py_value list" where
  "shown_profiles uuid_text ps = map (\<lambda>p. PyDict (profile_fields uuid_text p)) (sort_key tp_name ps)"

lemma select_shown:
  "select_profiles repr [] [] (map (\<lambda>p. PyDict (profile_fields uuid_text p)) ps)
    = Inr (map (profile_fields uuid_text) (filter tp_enabled ps))"
  by (induction ps) (simp_all add: profile_selected_def profile_fields_def json_get_def)

lemma build_shown:
  assumes "runnable p" "1 \<le> tick_ms"
  shows "\<exists>t. build_profile G repr tick_ms (profile_fields uuid_text p) = Inr t \<and> trader_ok t \<and> tr_settings t = stored_settings p"
proof -
  have v: "valid_settings (stored_settings p)" using assms(1) by (simp add: runnable_def)
  obtain t where "build_trader G (stored_settings p) tick_ms = Inr t" "trader_ok t" "tr_settings t = stored_settings p"
    using build_trader_ok [OF v assms(2), of G] by metis
  moreover have "profile_settings repr (profile_fields uuid_text p) = Inr (stored_settings p)"
    using v settings_post_init_Inr_iff [of "stored_settings p" "stored_settings p"] by (simp add: shown_profile_settings)
  ultimately show ?thesis by (simp add: build_profile_def)
qed

lemma build_all_shown:
  assumes "\<forall>p\<in>set ps. runnable p" "1 \<le> tick_ms"
  shows "\<exists>ts. those_ok (map (build_profile G repr tick_ms) (map (profile_fields uuid_text) ps)) = Inr ts
    \<and> map tr_settings ts = map stored_settings ps \<and> (\<forall>t\<in>set ts. trader_ok t)"
  using assms(1)
proof (induction ps)
  case (Cons p ps)
  obtain t where "build_profile G repr tick_ms (profile_fields uuid_text p) = Inr t" "trader_ok t" "tr_settings t = stored_settings p"
    using build_shown [of p tick_ms G repr uuid_text] Cons.prems assms(2) by auto
  moreover obtain ts where "those_ok (map (build_profile G repr tick_ms) (map (profile_fields uuid_text) ps)) = Inr ts"
    "map tr_settings ts = map stored_settings ps" "\<forall>t\<in>set ts. trader_ok t"
    using Cons by auto
  ultimately show ?case by simp
qed simp

text \<open>C18: as long as a new profile's smallest quantity does not exceed its largest one, the defaults
  included, whatever is created, changed, deleted and seeded leaves profiles that the runner can
  start: from what the backend shows it builds one well-formed participant for each enabled
  profile, with exactly the stored settings, in the order of the names.\<close>

theorem stored_profiles_build_participants:
  assumes "profiles_reach G (c, ps)" "prng_ok G" "1 \<le> tick_ms"
  shows "\<exists>ts. build_participants G repr (shown_profiles uuid_text ps) [] [] None None [] tick_ms = Inr ts
    \<and> map tr_settings ts = map stored_settings (filter tp_enabled (sort_key tp_name ps)) \<and> (\<forall>t\<in>set ts. trader_ok t)"
proof -
  have "\<forall>p\<in>set (filter tp_enabled (sort_key tp_name ps)). runnable p"
    using profiles_reach_runnable [OF assms(1,2)] by simp
  from build_all_shown [OF this assms(3), of G repr uuid_text] show ?thesis
    by (auto simp: build_participants_def shown_profiles_def select_shown shard_profiles_def)
qed

definition demo_profile_request :: "int option \<Rightarrow> profile_request" where
  "demo_profile_request qmin = \<lparr>pr_name = Some ''n'', pr_user = Some ''u'', pr_strategy = None, pr_enabled = None, pr_symbol = None,
     pr_reference = None, pr_step = None, pr_offset = None, pr_qmin = qmin, pr_qmax = None, pr_ttl = None,
     pr_interval = None, pr_seed = None\<rparr>"

definition demo_limits :: sim_settings where
  "demo_limits = \<lparr>symbol_limit = 10, shard_count = 1, shard_index = 0\<rparr>"

definition demo_universe :: sim_cache where
  "demo_universe = \<lparr>cached_tickers = Some [''005930''], cached_limit = Some 10\<rparr>"

lemma demo_profile_created:
  assumes "present (\<lambda>x. 1 \<le> x) qmin"
  shows "create_profile True demo_limits [] 1 (demo_profile_request qmin) (demo_universe, [])
    = ((demo_universe, [apply_request (demo_profile_request qmin) (default_profile 1)]),
       Inr (ProfileCreated (apply_request (demo_profile_request qmin) (default_profile 1))))"
proof -
  have "text_field 100 ''n''" "text_field 128 ''u''" by code_simp+
  then show ?thesis using assms
    by (simp add: create_profile_def check_request_def fields_ok_def validate_profile_def demo_profile_request_def or_else_def
        present_def given_def fallback_symbol_def is_simulated_symbol_def simulated_tickers_def demo_limits_def demo_universe_def Let_def)
qed

lemma stored_profiles_build_participants_witness:
  "\<exists>ts. build_participants demo_prng (\<lambda>_. []) (shown_profiles (\<lambda>_. ''1'') [apply_request (demo_profile_request (Some 3)) (default_profile 1)])
      [] [] None None [] 1000 = Inr ts \<and> map ts_quantity_min (map tr_settings ts) = [3]"
proof -
  let ?p = "apply_request (demo_profile_request (Some 3)) (default_profile 1)"
  have r: "range_given (demo_profile_request (Some 3))" by (simp add: range_given_def demo_profile_request_def given_def)
  have p: "profiles_reach demo_prng (demo_universe, [?p])"
    by (rule profiles_reach.create [OF profiles_reach.start r demo_profile_created]) (simp add: present_def)
  have e: "tp_enabled ?p" "ts_quantity_min (stored_settings ?p) = 3"
    by (simp_all add: apply_request_def demo_profile_request_def given_def default_profile_def stored_settings_def)
  show ?thesis using stored_profiles_build_participants [OF p demo_prng_ok, of 1000 "\<lambda>_. []" "\<lambda>_. ''1''"] e by auto
qed

text \<open>
  A smallest quantity alone in a request for a new profile is compared with nothing: the
  profile is stored above the default of the largest quantity, and no participant starts.
\<close>

lemma lone_quantity_min_is_stored:
  "\<exists>p. create_profile True demo_limits [] 1 (demo_profile_request (Some 20)) (demo_universe, []) = ((demo_universe, [p]), Inr (ProfileCreated p))
     \<and> tp_qmin p = 20 \<and> tp_qmax p = 10
     \<and> build_participants demo_prng (\<lambda>_. []) (shown_profiles (\<lambda>_. ''1'') [p]) [] [] None None [] 1000
         = Inl (InvalidTraderProfileError ''trader profile has invalid settings'')"
proof -
  let ?p = "apply_request (demo_profile_request (Some 20)) (default_profile 1)"
  have q: "tp_qmin ?p = 20" "tp_qmax ?p = 10" "tp_enabled ?p"
    by (simp_all add: apply_request_def demo_profile_request_def given_def default_profile_def)
  have "\<not> valid_settings (stored_settings ?p)" using q by (simp add: valid_settings_def stored_settings_def)
  moreover have "settings_post_init s = Inl e \<Longrightarrow> shape_error e" for s e by (auto simp: settings_post_init_def split: if_splits)
  ultimately obtain e where e: "settings_post_init (stored_settings ?p) = Inl e" "shape_error e"
    using settings_post_init_Inr_iff by (cases "settings_post_init (stored_settings ?p)") auto
  have "build_participants demo_prng (\<lambda>_. []) (shown_profiles (\<lambda>_. ''1'') [?p]) [] [] None None [] 1000
         = Inl (InvalidTraderProfileError ''trader profile has invalid settings'')"
    using e q(3) select_shown [of "\<lambda>_. []" "\<lambda>_. ''1''" "[?p]"]
    by (simp add: build_participants_def shown_profiles_def shard_profiles_def build_profile_def shown_profile_settings)
  then show ?thesis using demo_profile_created [of "Some 20"] q by (auto simp: present_def)
qed

end
