(* ===== verification/Registry_Threads.thy ===== *)
theory Registry_Threads
  imports Registry "HOL-Library.Multiset"
begin

text \<open>
  The registry under concurrent requests. A matcher is one process with several threads, and the
  locks of \<open>registry.py\<close> and \<open>book.py\<close> make only parts of a request atomic. Here a request is a
  \<open>task\<close> that is cut at every acquisition of a lock, and the books are objects at addresses, so a
  request can still hold a book that a rollover has taken out of the registry.

  A call on a book runs under the lock of that book, and its callbacks run one by one inside it,
  each under the lock of the registry: while a task is \<open>Calling\<close> a book no other task can
  enter that book, but any other step may come between two callbacks. Since nothing reads a book
  outside its lock, the change of the book itself is one step.
\<close>

section \<open>Tasks and the shared state\<close>

datatype answer =
    Matched match_result
  | CanceledOrder open_order
  | NotOpen uuid
  | Seen book_snapshot
  | NoBook
  | RolledOver "symbol list"
  | Raised py_error

datatype task =
    SubmitStart order
  | SubmitBook order nat
  | CancelStart uuid
  | CancelGet uuid symbol
  | CancelBook uuid nat
  | CancelPop uuid "open_order option"
  | ReadStart symbol
  | ReadBook nat
  | Rollover "int option"
  | Calling nat "book_event list" task
  | Done answer

text \<open>
  \<open>wd_home\<close> records where an order was submitted; no operation reads it.
\<close>

record world =
  wd_cache :: sim_cache
  wd_heap :: "book list"
  wd_books :: "(symbol, nat) dict"
  wd_orders :: "(uuid, symbol) dict"
  wd_session :: "int option"
  wd_expired :: "(symbol, nat) dict"
  wd_home :: "(uuid, nat) dict"
  wd_tasks :: "task list"

definition new_world :: world where
  "new_world = \<lparr>wd_cache = empty_cache, wd_heap = [], wd_books = [], wd_orders = [], wd_session = None,
     wd_expired = [], wd_home = [], wd_tasks = []\<rparr>"

fun holds :: "nat \<Rightarrow> task \<Rightarrow> bool" where
  "holds a (Calling a' ev k) \<longleftrightarrow> a = a'"
| "holds a _ \<longleftrightarrow> False"

definition locked :: "nat \<Rightarrow> world \<Rightarrow> bool" where
  "locked a w \<longleftrightarrow> (\<exists>k\<in>set (wd_tasks w). holds a k)"

section \<open>Steps\<close>

text \<open>\<open>get\<close>: the address of the book of an owned symbol, a new object on first use.\<close>

definition wd_get :: "matcher_env \<Rightarrow> symbol \<Rightarrow> world \<Rightarrow> world \<times> (py_error + nat option)" where
  "wd_get me sy w =
     (let (c, owned) = is_owned_symbol (me_settings me) (me_rows me) sy (wd_cache w);
          w = w\<lparr>wd_cache := c\<rparr>
      in case owned of
           Inl e \<Rightarrow> (w, Inl e)
         | Inr False \<Rightarrow> (w, Inr None)
         | Inr True \<Rightarrow>
             (case dict_get (wd_books w) sy of
                Some a \<Rightarrow> (w, Inr (Some a))
              | None \<Rightarrow>
                  (case make_book sy 200 (me_max_age me) of
                     Inl e \<Rightarrow> (w, Inl e)
                   | Inr b \<Rightarrow>
                       (w\<lparr>wd_heap := wd_heap w @ [b], wd_books := dict_set (wd_books w) sy (length (wd_heap w))\<rparr>,
                        Inr (Some (length (wd_heap w)))))))"

definition wd_rollover :: "int option \<Rightarrow> world \<Rightarrow> world \<times> symbol list" where
  "wd_rollover session w =
     (case session of
        None \<Rightarrow> (w, [])
      | Some d \<Rightarrow>
          (case wd_session w of
             None \<Rightarrow> (w\<lparr>wd_session := Some d\<rparr>, [])
           | Some active \<Rightarrow>
               if d \<le> active then (w, [])
               else (w\<lparr>wd_books := [], wd_orders := [], wd_session := Some d\<rparr>, dict_keys (wd_books w))))"

text \<open>One callback, with the symbol that the closure of the book captured.\<close>

fun callback :: "symbol \<Rightarrow> book_event \<Rightarrow> world \<Rightarrow> world" where
  "callback sy (Rested oid) w = w\<lparr>wd_orders := dict_set (wd_orders w) oid sy\<rparr>"
| "callback sy (Closed oid why) w =
     (let w = w\<lparr>wd_orders := dict_pop (wd_orders w) oid\<rparr>
      in if why = Expired
         then w\<lparr>wd_expired := dict_set (wd_expired w) sy
                  (case dict_get (wd_expired w) sy of None \<Rightarrow> 1 | Some n \<Rightarrow> Suc n)\<rparr>
         else w)"

text \<open>A call on the book at an address, which is blocked while another task holds its lock.\<close>

definition enter :: "nat \<Rightarrow> (book \<Rightarrow> 'a call) \<Rightarrow> (py_error + 'a \<Rightarrow> task) \<Rightarrow> world \<Rightarrow> (world \<times> task) option" where
  "enter a f k w =
     (if locked a w then None
      else let (b, ev, r) = f (wd_heap w ! a) in Some (w\<lparr>wd_heap := (wd_heap w)[a := b]\<rparr>, Calling a ev (k r)))"

definition note_home :: "uuid \<Rightarrow> nat \<Rightarrow> world \<times> task \<Rightarrow> world \<times> task" where
  "note_home oid a = (\<lambda>(w, k). (w\<lparr>wd_home := dict_set (wd_home w) oid a\<rparr>, k))"

fun after_cancel :: "uuid \<Rightarrow> py_error + open_order \<Rightarrow> task" where
  "after_cancel oid (Inr oo) = CancelPop oid (Some oo)"
| "after_cancel oid (Inl (OrderNotFoundError n)) = CancelPop oid None"
| "after_cancel oid (Inl e) = Done (Raised e)"

text \<open>The next step of a task; \<open>None\<close> when it waits for a lock or has ended.\<close>

fun advance :: "matcher_env \<Rightarrow> submit_env \<Rightarrow> task \<Rightarrow> world \<Rightarrow> (world \<times> task) option" where
  "advance me env (SubmitStart ord) w =
     (let (w, r) = wd_get me (order_symbol ord) w
      in Some (w, case r of
           Inl e \<Rightarrow> Done (Raised e)
         | Inr None \<Rightarrow> Done (Raised (LookupError (''symbol '' @ order_symbol ord @ '' is not simulated'')))
         | Inr (Some a) \<Rightarrow> SubmitBook ord a))"
| "advance me env (SubmitBook ord a) w =
     map_option (note_home (order_id ord) a)
       (enter a (book_submit env ord) (\<lambda>r. Done (case r of Inl e \<Rightarrow> Raised e | Inr m \<Rightarrow> Matched m)) w)"
| "advance me env (CancelStart oid) w =
     Some (w, case dict_get (wd_orders w) oid of None \<Rightarrow> Done (NotOpen oid) | Some sy \<Rightarrow> CancelGet oid sy)"
| "advance me env (CancelGet oid sy) w =
     (let (w, r) = wd_get me sy w
      in Some (w, case r of
           Inl e \<Rightarrow> Done (Raised e)
         | Inr None \<Rightarrow> Done (NotOpen oid)
         | Inr (Some a) \<Rightarrow> CancelBook oid a))"
| "advance me env (CancelBook oid a) w = enter a (book_cancel (expire_clock env) oid) (after_cancel oid) w"
| "advance me env (CancelPop oid r) w =
     Some (w\<lparr>wd_orders := dict_pop (wd_orders w) oid\<rparr>,
           Done (case r of None \<Rightarrow> NotOpen oid | Some oo \<Rightarrow> CanceledOrder oo))"
| "advance me env (ReadStart sy) w =
     (let (w, r) = wd_get me sy w
      in Some (w, case r of Inl e \<Rightarrow> Done (Raised e) | Inr None \<Rightarrow> Done NoBook | Inr (Some a) \<Rightarrow> ReadBook a))"
| "advance me env (ReadBook a) w =
     enter a (book_snapshot_call (expire_clock env)) (\<lambda>r. Done (case r of Inl e \<Rightarrow> Raised e | Inr s \<Rightarrow> Seen s)) w"
| "advance me env (Rollover d) w = (let (w, cleared) = wd_rollover d w in Some (w, Done (RolledOver cleared)))"
| "advance me env (Calling a (x # ev) k) w = Some (callback (bk_symbol (wd_heap w ! a)) x w, Calling a ev k)"
| "advance me env (Calling a [] k) w = Some (w, k)"
| "advance me env (Done r) w = None"

definition step_task :: "matcher_env \<Rightarrow> submit_env \<Rightarrow> nat \<Rightarrow> world \<Rightarrow> world option" where
  "step_task me env i w =
     (if i < length (wd_tasks w)
      then map_option (\<lambda>(w', k). w'\<lparr>wd_tasks := (wd_tasks w')[i := k]\<rparr>) (advance me env (wd_tasks w ! i) w)
      else None)"

text \<open>What a request starts with; every submission carries a fresh identifier.\<close>

fun wants :: "uuid \<Rightarrow> task \<Rightarrow> bool" where
  "wants oid (SubmitStart ord) \<longleftrightarrow> order_id ord = oid"
| "wants oid (SubmitBook ord a) \<longleftrightarrow> order_id ord = oid"
| "wants oid _ \<longleftrightarrow> False"

definition unused :: "uuid \<Rightarrow> world \<Rightarrow> bool" where
  "unused oid w \<longleftrightarrow> dict_get (wd_home w) oid = None \<and> (\<forall>k\<in>set (wd_tasks w). \<not> wants oid k)"

fun can_start :: "task \<Rightarrow> world \<Rightarrow> bool" where
  "can_start (SubmitStart ord) w \<longleftrightarrow> valid_order ord \<and> unused (order_id ord) w"
| "can_start (CancelStart oid) w \<longleftrightarrow> True"
| "can_start (ReadStart sy) w \<longleftrightarrow> True"
| "can_start (Rollover d) w \<longleftrightarrow> True"
| "can_start _ w \<longleftrightarrow> False"

text \<open>Any number of requests, interleaved in any way, over one monotonic clock.\<close>

inductive world_reach :: "matcher_env \<Rightarrow> seconds \<Rightarrow> world \<Rightarrow> bool" for me where
  boot: "world_reach me t new_world"
| arrive: "world_reach me t w \<Longrightarrow> can_start k w \<Longrightarrow> world_reach me t (w\<lparr>wd_tasks := wd_tasks w @ [k]\<rparr>)"
| progress: "world_reach me t w \<Longrightarrow> t \<le> expire_clock env \<Longrightarrow> expire_clock env \<le> rest_clock env \<Longrightarrow>
    step_task me env i w = Some w' \<Longrightarrow> world_reach me (rest_clock env) w'"

section \<open>The contract of a shared book\<close>

locale shared_book = order_service inv ids submit cancel
  for inv :: "seconds \<Rightarrow> 'b \<Rightarrow> bool" and ids :: "'b \<Rightarrow> uuid set"
    and submit :: "submit_env \<Rightarrow> order \<Rightarrow> 'b \<Rightarrow> 'b \<times> book_event list \<times> (py_error + match_result)"
    and cancel :: "seconds \<Rightarrow> uuid \<Rightarrow> 'b \<Rightarrow> 'b \<times> book_event list \<times> (py_error + open_order)" +
  fixes sym :: "'b \<Rightarrow> symbol" and read :: "seconds \<Rightarrow> 'b \<Rightarrow> 'b \<times> book_event list \<times> (py_error + book_snapshot)"
  assumes submit_answer: "inv t b \<Longrightarrow> t \<le> expire_clock env \<Longrightarrow> expire_clock env \<le> rest_clock env \<Longrightarrow>
      valid_order ord \<Longrightarrow> order_id ord \<notin> ids b \<Longrightarrow> order_symbol ord = sym b \<Longrightarrow> submit env ord b = (b', ev, res) \<Longrightarrow>
      sym b' = sym b \<and> (\<exists>m. res = Inr m \<and> result_order_id m = order_id ord)"
    and cancel_answer: "inv t b \<Longrightarrow> t \<le> now \<Longrightarrow> cancel now oid b = (b', ev, gone) \<Longrightarrow>
      sym b' = sym b \<and> (\<forall>oo. gone = Inr oo \<longrightarrow> order_id (oo_order oo) = oid) \<and> (\<forall>x. Rested x \<notin> set ev)"
    and read_law: "inv t b \<Longrightarrow> t \<le> now \<Longrightarrow> read now b = (b', ev, seen) \<Longrightarrow>
      inv now b' \<and> sym b' = sym b \<and> ids b' = track ev (ids b) \<and> event_ids ev \<subseteq> ids b \<and> is_ok seen"
begin

text \<open>What a call does to a book: the orders in \<open>new\<close> may come to rest, those in \<open>gone\<close> are taken out.\<close>

definition effect :: "seconds \<Rightarrow> 'b \<Rightarrow> 'b \<Rightarrow> book_event list \<Rightarrow> uuid set \<Rightarrow> uuid set \<Rightarrow> bool" where
  "effect t b b' ev new gone \<longleftrightarrow> inv t b' \<and> sym b' = sym b \<and> ids b' = track ev (ids b) - gone
     \<and> event_ids ev \<subseteq> new \<union> ids b \<and> track ev {} \<subseteq> ids b'"

lemma track_subset: "track ev S \<subseteq> S \<union> event_ids ev"
proof (induction ev S rule: track.induct)
  case (2 oid es S)
  then show ?case by auto
next
  case (3 oid why es S)
  then show ?case by auto
qed simp

lemma track_mono: "S \<subseteq> T \<Longrightarrow> track ev S \<subseteq> track ev T"
proof (induction ev S arbitrary: T rule: track.induct)
  case (2 oid es S)
  have "insert oid S \<subseteq> insert oid T" using "2.prems" by blast
  from "2.IH" [OF this] show ?case by simp
next
  case (3 oid why es S)
  have "S - {oid} \<subseteq> T - {oid}" using "3.prems" by blast
  from "3.IH" [OF this] show ?case by simp
qed simp

lemma track_closing: "\<forall>x. Rested x \<notin> set ev \<Longrightarrow> track ev {} = {}"
  by (induction ev "{} :: uuid set" rule: track.induct) auto

lemma submit_effect:
  assumes "inv t b" "t \<le> expire_clock env" "expire_clock env \<le> rest_clock env"
    "valid_order ord" "order_id ord \<notin> ids b" "order_symbol ord = sym b" "submit env ord b = (b', ev, res)"
  shows "effect (rest_clock env) b b' ev {order_id ord} {}" "\<exists>m. res = Inr m \<and> result_order_id m = order_id ord"
  using submit_law [OF assms(1-5,7)] submit_answer [OF assms] track_mono [OF empty_subsetI] by (auto simp: effect_def)

lemma cancel_effect:
  assumes "inv t b" "t \<le> now" "cancel now oid b = (b', ev, res)"
  shows "effect now b b' ev {} {oid}" "\<And>oo. res = Inr oo \<Longrightarrow> order_id (oo_order oo) = oid"
    "\<And>e. res = Inl e \<Longrightarrow> e = OrderNotFoundError oid"
  using cancel_law [OF assms] cancel_answer [OF assms] track_closing by (auto simp: effect_def)

lemma cancel_found: "inv t b \<Longrightarrow> t \<le> now \<Longrightarrow> cancel now oid b = (b', ev, Inr oo) \<Longrightarrow> oid \<in> ids b"
  using cancel_law [of t b now oid b' ev "Inr oo"] track_subset [of ev "ids b"] by (auto simp: is_ok_def)

lemma read_effect:
  assumes "inv t b" "t \<le> now" "read now b = (b', ev, res)"
  shows "effect now b b' ev {} {}" "\<exists>s. res = Inr s"
  using read_law [OF assms] track_mono [OF empty_subsetI] by (cases res; auto simp: effect_def is_ok_def)+

lemma effect_later: "effect t b b' ev new gone \<Longrightarrow> t \<le> t' \<Longrightarrow> effect t' b b' ev new gone"
  using later by (auto simp: effect_def)

lemma effect_ids: "effect t b b' ev new gone \<Longrightarrow> ids b' \<subseteq> (new \<union> ids b) - gone"
  using track_subset by (fastforce simp: effect_def)

text \<open>The map follows the book when its callbacks have all run, up to orders \<open>p\<close> whose cancel is on its way.\<close>

lemma follow:
  "(x \<in> S \<longrightarrow> m x = Some sy) \<and> (m x = Some sy \<longrightarrow> x \<in> S \<or> p) \<Longrightarrow>
   (x \<in> track ev S \<longrightarrow> track_map sy ev m x = Some sy) \<and> (track_map sy ev m x = Some sy \<longrightarrow> x \<in> track ev S \<or> p)"
proof (induction sy ev m arbitrary: S rule: track_map.induct)
  case (2 sy y ev m)
  have "(x \<in> insert y S \<longrightarrow> (m(y \<mapsto> sy)) x = Some sy) \<and> ((m(y \<mapsto> sy)) x = Some sy \<longrightarrow> x \<in> insert y S \<or> p)"
    using "2.prems" by auto
  from "2.IH" [OF this] show ?case unfolding track.simps track_map.simps .
next
  case (3 sy y why ev m)
  have "(x \<in> S - {y} \<longrightarrow> (m(y := None)) x = Some sy) \<and> ((m(y := None)) x = Some sy \<longrightarrow> x \<in> S - {y} \<or> p)"
    using "3.prems" by auto
  from "3.IH" [OF this] show ?case unfolding track.simps track_map.simps .
qed simp

end

lemma track_map_pointwise: "m x = m' x \<Longrightarrow> track_map sy ev m x = track_map sy ev m' x"
proof (induction sy ev m arbitrary: m' rule: track_map.induct)
  case (2 sy y ev m)
  have "(m(y \<mapsto> sy)) x = (m'(y \<mapsto> sy)) x" using "2.prems" by simp
  from "2.IH" [where m' = "m'(y \<mapsto> sy)", OF this] show ?case unfolding track_map.simps .
next
  case (3 sy y why ev m)
  have "(m(y := None)) x = (m'(y := None)) x" using "3.prems" by simp
  from "3.IH" [where m' = "m'(y := None)", OF this] show ?case unfolding track_map.simps .
qed simp

text \<open>Expiry and cancels report only orders that leave.\<close>

lemma expire_loop_closes:
  "expire_loop d rs b ev = Inr (b', ev') \<Longrightarrow> \<forall>x. Rested x \<notin> set ev \<Longrightarrow> Rested x \<notin> set ev'"
proof (induction d rs b ev rule: expire_loop.induct)
  case (2 d r rs b ev)
  let ?e = "bk_store b r"
  consider "e_alive ?e \<and> d < e_rested_at ?e" | "\<not> e_alive ?e" | "e_alive ?e" "\<not> d < e_rested_at ?e" by blast
  then show ?case
  proof cases
    case 1
    then show ?thesis using "2.prems" by simp
  next
    case 2
    then show ?thesis using "2.IH"(1) [OF refl] "2.prems" by simp
  next
    case 3
    then obtain H sd where H: "side_remove (bk_store b) r (bk_sides b (side (e_order ?e))) = Inr (H, sd)"
      using "2.prems"(1) by (auto simp: Let_def split: sum.splits)
    show ?thesis using "2.IH"(2) [OF refl _ _ H refl] 3 H "2.prems" by (simp add: Let_def)
  qed
qed simp

lemma book_cancel_closes: "book_cancel now oid b = (b', ev, r) \<Longrightarrow> Rested x \<notin> set ev"
  using expire_loop_closes
  by (fastforce simp: book_cancel_def after_expiry_def book_expire_def Let_def split: sum.splits option.splits if_splits)

interpretation shared: shared_book book_inv open_ids book_submit book_cancel bk_symbol book_snapshot_call
proof unfold_locales
  fix t b env ord b' ev res
  assume "book_inv t b" "t \<le> expire_clock env" "expire_clock env \<le> rest_clock env" "valid_order ord"
    "order_id ord \<notin> open_ids b" "order_symbol ord = bk_symbol b" and run: "book_submit env ord b = (b', ev, res)"
  then obtain m where "res = Inr m" "bk_symbol b' = bk_symbol b"
    "ref_submit (stamps env) ord (abs_at (expire_clock env) b) = (abs_book b', Inr m)"
    using book_submit_spec [of t b env ord] by (auto simp: book_inv_def valid_order_def)
  then show "bk_symbol b' = bk_symbol b \<and> (\<exists>m. res = Inr m \<and> result_order_id m = order_id ord)"
    by (auto simp: ref_submit_def Let_def split: if_splits prod.splits)
next
  fix t b now oid b' ev gone
  assume inv: "book_inv t b" and now: "t \<le> now" and run: "book_cancel now oid b = (b', ev, gone)"
  have ok: "book_ok t b" "ref_ok (abs_book b)" using inv by (simp_all add: book_inv_def)
  from book_cancel_spec [OF ok(1) now, of oid] run
  have c: "ref_cancel oid (abs_at now b) = (abs_book b', gone)" "bk_symbol b' = bk_symbol b" by auto
  show "bk_symbol b' = bk_symbol b \<and> (\<forall>oo. gone = Inr oo \<longrightarrow> order_id (oo_order oo) = oid) \<and> (\<forall>x. Rested x \<notin> set ev)"
    using c book_cancel_closes [OF run] ref_cancel_ok(2) [OF abs_at_ok [OF ok(2)] c(1)] by blast
next
  fix t b now b' ev seen
  assume inv: "book_inv t b" and now: "t \<le> now" and run: "book_snapshot_call now b = (b', ev, seen)"
  have ok: "book_ok t b" "ref_ok (abs_book b)" "own_orders (abs_book b)" using inv by (simp_all add: book_inv_def)
  obtain b1 ev1 where b1: "book_expire now b = Inr (b1, ev1)" "book_ok now b1" "same_frame b b1"
    "abs_book b1 = abs_at now b" "open_ids b1 = track ev1 (open_ids b)" "event_ids ev1 \<subseteq> open_ids b"
    using book_expire_spec [OF ok(1) now] by blast
  have "b' = b1 \<and> ev = ev1 \<and> is_ok seen"
    using run b1(1) book_snapshot_spec [OF ok(1) now]
    by (auto simp: book_snapshot_call_def after_expiry_def is_ok_def)
  then show "book_inv now b' \<and> bk_symbol b' = bk_symbol b \<and> open_ids b' = track ev (open_ids b)
      \<and> event_ids ev \<subseteq> open_ids b \<and> is_ok seen"
    using b1 abs_at_ok [OF ok(2)] abs_at_own [OF ok(3)] by (simp add: book_inv_def same_frame_def)
qed

section \<open>The invariant\<close>

text \<open>The cancel of an order that has reached the map, and the cancels that have taken their order.\<close>

fun pops :: "uuid \<Rightarrow> task \<Rightarrow> bool" where
  "pops x (CancelPop y r) \<longleftrightarrow> x = y"
| "pops x (Calling a ev k) \<longleftrightarrow> pops x k"
| "pops x _ \<longleftrightarrow> False"

fun won :: "uuid \<Rightarrow> task \<Rightarrow> bool" where
  "won x (CancelPop y (Some oo)) \<longleftrightarrow> x = y"
| "won x (Calling a ev k) \<longleftrightarrow> won x k"
| "won x (Done (CanceledOrder oo)) \<longleftrightarrow> x = order_id (oo_order oo)"
| "won x _ \<longleftrightarrow> False"

abbreviation home :: "world \<Rightarrow> uuid \<Rightarrow> nat option" where
  "home w x \<equiv> dict_get (wd_home w) x"

abbreviation opens :: "world \<Rightarrow> nat \<Rightarrow> uuid set" where
  "opens w a \<equiv> open_ids (wd_heap w ! a)"

definition shared_ok :: "seconds \<Rightarrow> world \<Rightarrow> bool" where
  "shared_ok t w \<longleftrightarrow> dict_ok (wd_books w) \<and> dict_ok (wd_orders w)
     \<and> (\<forall>a < length (wd_heap w). book_inv t (wd_heap w ! a) \<and> (\<forall>x\<in>opens w a. home w x = Some a))
     \<and> (\<forall>x a. home w x = Some a \<longrightarrow> a < length (wd_heap w))
     \<and> (\<forall>x sy. dict_get (wd_orders w) x = Some sy \<longrightarrow> (\<exists>a. home w x = Some a \<and> bk_symbol (wd_heap w ! a) = sy))
     \<and> (\<forall>sy a. dict_get (wd_books w) sy = Some a \<longrightarrow> a < length (wd_heap w) \<and> bk_symbol (wd_heap w ! a) = sy)"

definition is_raise :: "task \<Rightarrow> bool" where
  "is_raise k \<longleftrightarrow> (\<exists>e. k = Done (Raised e))"

fun task_ok :: "world \<Rightarrow> task \<Rightarrow> bool" where
  "task_ok w (SubmitStart ord) \<longleftrightarrow> valid_order ord \<and> home w (order_id ord) = None"
| "task_ok w (SubmitBook ord a) \<longleftrightarrow> valid_order ord \<and> home w (order_id ord) = None
     \<and> a < length (wd_heap w) \<and> bk_symbol (wd_heap w ! a) = order_symbol ord"
| "task_ok w (CancelGet x sy) \<longleftrightarrow> (\<exists>a. home w x = Some a \<and> bk_symbol (wd_heap w ! a) = sy)"
| "task_ok w (CancelBook x a) \<longleftrightarrow> a < length (wd_heap w)
     \<and> (\<exists>a'. home w x = Some a' \<and> (\<forall>sy. dict_get (wd_books w) sy = Some a' \<longrightarrow> a' = a))"
| "task_ok w (CancelPop x r) \<longleftrightarrow> (\<exists>a. home w x = Some a
     \<and> (\<forall>sy. dict_get (wd_books w) sy = Some a \<longrightarrow> x \<notin> opens w a)
     \<and> (\<forall>oo. r = Some oo \<longrightarrow> order_id (oo_order oo) = x \<and> x \<notin> opens w a))"
| "task_ok w (ReadBook a) \<longleftrightarrow> a < length (wd_heap w)"
| "task_ok w (Calling a ev k) \<longleftrightarrow> a < length (wd_heap w) \<and> (\<forall>x\<in>event_ids ev. home w x = Some a)
     \<and> track ev {} \<subseteq> opens w a \<and> (\<forall>a'. \<not> holds a' k) \<and> (\<forall>x. \<not> wants x k) \<and> task_ok w k"
| "task_ok w (Done (CanceledOrder oo)) \<longleftrightarrow> (\<exists>a. home w (order_id (oo_order oo)) = Some a \<and> order_id (oo_order oo) \<notin> opens w a)"
| "task_ok w _ \<longleftrightarrow> True"

text \<open>At most one task of a list satisfies a predicate.\<close>

definition sole :: "('a \<Rightarrow> bool) \<Rightarrow> 'a list \<Rightarrow> bool" where
  "sole P ts \<longleftrightarrow> (\<forall>i j. i < length ts \<longrightarrow> j < length ts \<longrightarrow> P (ts ! i) \<longrightarrow> P (ts ! j) \<longrightarrow> i = j)"

lemma sole_nil [simp]: "sole P []"
  by (simp add: sole_def)

lemma sole_snoc: "sole P ts \<Longrightarrow> \<not> P k \<or> (\<forall>k'\<in>set ts. \<not> P k') \<Longrightarrow> sole P (ts @ [k])"
  unfolding sole_def by (auto simp: nth_append less_Suc_eq split: if_splits)

lemma sole_update:
  assumes "sole P ts" "i < length ts" "P k \<Longrightarrow> P (ts ! i) \<or> (\<forall>k'\<in>set ts. \<not> P k')"
  shows "sole P (ts[i := k])"
  unfolding sole_def
proof (intro allI impI)
  fix u v assume u: "u < length (ts[i := k])" and v: "v < length (ts[i := k])" and p: "P (ts[i := k] ! u)" "P (ts[i := k] ! v)"
  show "u = v"
  proof (cases "P k")
    case True
    then consider "P (ts ! i)" | "\<forall>k'\<in>set ts. \<not> P k'" using assms(3) by blast
    then show ?thesis
    proof cases
      case 1
      have "P (ts ! u)" "P (ts ! v)" using p u v 1 by (cases "u = i"; cases "v = i"; auto)+
      then show ?thesis using assms(1) u v by (simp add: sole_def)
    next
      case 2
      have "u = i" "v = i" using p u v 2 by (metis length_list_update nth_list_update_neq nth_mem)+
      then show ?thesis by simp
    qed
  next
    case False
    then have "P (ts ! u)" "P (ts ! v)" using p u v assms(2) by (cases "u = i"; cases "v = i"; auto)+
    then show ?thesis using assms(1) u v by (simp add: sole_def)
  qed
qed

definition tasks_ok :: "world \<Rightarrow> bool" where
  "tasks_ok w \<longleftrightarrow> (\<forall>k\<in>set (wd_tasks w). task_ok w k)
     \<and> (\<forall>a. sole (holds a) (wd_tasks w)) \<and> (\<forall>x. sole (wants x) (wd_tasks w)) \<and> (\<forall>x. sole (won x) (wd_tasks w))"

text \<open>The callbacks that a book still has to make.\<close>

definition pends :: "world \<Rightarrow> nat \<Rightarrow> book_event list \<Rightarrow> bool" where
  "pends w a ev \<longleftrightarrow> (\<exists>k. Calling a ev k \<in> set (wd_tasks w)) \<or> ev = [] \<and> \<not> locked a w"

text \<open>Once they are made, the map and a registered book agree, up to cancels that are about to pop.\<close>

definition in_step :: "world \<Rightarrow> bool" where
  "in_step w \<longleftrightarrow> (\<forall>sy a ev x. dict_get (wd_books w) sy = Some a \<longrightarrow> pends w a ev \<longrightarrow> home w x = Some a \<longrightarrow>
     (x \<in> opens w a \<longrightarrow> track_map sy ev (map_of (wd_orders w)) x = Some sy)
     \<and> (track_map sy ev (map_of (wd_orders w)) x = Some sy \<longrightarrow> x \<in> opens w a \<or> (\<exists>k\<in>set (wd_tasks w). pops x k)))"

definition world_ok :: "seconds \<Rightarrow> world \<Rightarrow> bool" where
  "world_ok t w \<longleftrightarrow> shared_ok t w \<and> tasks_ok w \<and> in_step w"

section \<open>How the shared state may evolve\<close>

lemma shared_okD:
  assumes "shared_ok t w"
  shows "dict_ok (wd_books w)" "dict_ok (wd_orders w)"
    and "a < length (wd_heap w) \<Longrightarrow> book_inv t (wd_heap w ! a)"
    and "a < length (wd_heap w) \<Longrightarrow> x \<in> opens w a \<Longrightarrow> home w x = Some a"
    and "home w x = Some a \<Longrightarrow> a < length (wd_heap w)"
    and "dict_get (wd_orders w) x = Some sy \<Longrightarrow> \<exists>a. home w x = Some a \<and> bk_symbol (wd_heap w ! a) = sy"
    and "dict_get (wd_books w) sy = Some a \<Longrightarrow> a < length (wd_heap w)"
    and "dict_get (wd_books w) sy = Some a \<Longrightarrow> bk_symbol (wd_heap w ! a) = sy"
proof -
  note c = assms [unfolded shared_ok_def]
  note c3 = c [THEN conjunct2, THEN conjunct2, THEN conjunct1, rule_format]
    and c4 = c [THEN conjunct2, THEN conjunct2, THEN conjunct2, THEN conjunct1, rule_format]
    and c5 = c [THEN conjunct2, THEN conjunct2, THEN conjunct2, THEN conjunct2, THEN conjunct1, rule_format]
    and c6 = c [THEN conjunct2, THEN conjunct2, THEN conjunct2, THEN conjunct2, THEN conjunct2, rule_format]
  show "dict_ok (wd_books w)" "dict_ok (wd_orders w)" by (rule c [THEN conjunct1], rule c [THEN conjunct2, THEN conjunct1])
  show "book_inv t (wd_heap w ! a)" if "a < length (wd_heap w)" by (rule c3 [OF that, THEN conjunct1])
  show "home w x = Some a" if "a < length (wd_heap w)" "x \<in> opens w a"
    by (rule c3 [OF that(1), THEN conjunct2, rule_format, OF that(2)])
  show "home w x = Some a \<Longrightarrow> a < length (wd_heap w)" by (rule c4)
  show "dict_get (wd_orders w) x = Some sy \<Longrightarrow> \<exists>a. home w x = Some a \<and> bk_symbol (wd_heap w ! a) = sy" by (rule c5)
  show "dict_get (wd_books w) sy = Some a \<Longrightarrow> a < length (wd_heap w)" by (rule c6 [THEN conjunct1])
  show "dict_get (wd_books w) sy = Some a \<Longrightarrow> bk_symbol (wd_heap w ! a) = sy" by (rule c6 [THEN conjunct2])
qed

text \<open>
  Homes are never forgotten, books keep their symbol and their address, an order that once rested
  comes to no book again, and only new addresses are registered.
\<close>

definition evolves :: "world \<Rightarrow> world \<Rightarrow> bool" where
  "evolves w w' \<longleftrightarrow> length (wd_heap w) \<le> length (wd_heap w')
     \<and> (\<forall>a < length (wd_heap w). bk_symbol (wd_heap w' ! a) = bk_symbol (wd_heap w ! a)
          \<and> (\<forall>x\<in>opens w' a. x \<in> opens w a \<or> home w x = None))
     \<and> (\<forall>x a. home w x = Some a \<longrightarrow> home w' x = Some a)
     \<and> (\<forall>sy a. dict_get (wd_books w') sy = Some a \<longrightarrow> a < length (wd_heap w) \<longrightarrow> dict_get (wd_books w) sy = Some a)"

lemma evolvesD:
  assumes "evolves w w'"
  shows "length (wd_heap w) \<le> length (wd_heap w')"
    and "a < length (wd_heap w) \<Longrightarrow> bk_symbol (wd_heap w' ! a) = bk_symbol (wd_heap w ! a)"
    and "a < length (wd_heap w) \<Longrightarrow> x \<in> opens w' a \<Longrightarrow> x \<in> opens w a \<or> home w x = None"
    and "home w x = Some a \<Longrightarrow> home w' x = Some a"
    and "dict_get (wd_books w') sy = Some a \<Longrightarrow> a < length (wd_heap w) \<Longrightarrow> dict_get (wd_books w) sy = Some a"
proof -
  note c = assms [unfolded evolves_def]
  note c2 = c [THEN conjunct2, THEN conjunct1, rule_format] and c3 = c [THEN conjunct2, THEN conjunct2, THEN conjunct1, rule_format]
    and c4 = c [THEN conjunct2, THEN conjunct2, THEN conjunct2, rule_format]
  show "length (wd_heap w) \<le> length (wd_heap w')" by (rule c [THEN conjunct1])
  show "bk_symbol (wd_heap w' ! a) = bk_symbol (wd_heap w ! a)" if "a < length (wd_heap w)"
    by (rule c2 [OF that, THEN conjunct1])
  show "x \<in> opens w a \<or> home w x = None" if "a < length (wd_heap w)" "x \<in> opens w' a"
    by (rule c2 [OF that(1), THEN conjunct2, rule_format, OF that(2)])
  show "home w x = Some a \<Longrightarrow> home w' x = Some a" by (rule c3)
  show "dict_get (wd_books w') sy = Some a \<Longrightarrow> a < length (wd_heap w) \<Longrightarrow> dict_get (wd_books w) sy = Some a" by (rule c4)
qed

lemma evolves_same:
  "wd_heap w' = wd_heap w \<Longrightarrow> wd_home w' = wd_home w \<Longrightarrow> wd_books w' = wd_books w \<or> wd_books w' = [] \<Longrightarrow> evolves w w'"
  by (auto simp: evolves_def)

lemma task_ok_tasks [simp]: "task_ok (w\<lparr>wd_tasks := ts\<rparr>) k = task_ok w k"
proof (induction k)
  case (Done r)
  then show ?case by (cases r) simp_all
qed simp_all

lemma task_ok_evolves:
  assumes "task_ok w k" "evolves w w'" "shared_ok t w" "\<And>x. wants x k \<Longrightarrow> home w' x = None"
    and pend: "\<And>a ev k'. k = Calling a ev k' \<Longrightarrow> opens w a \<subseteq> opens w' a"
  shows "task_ok w' k"
proof -
  note at = shared_okD(5) [OF assms(3)] and keep = evolvesD(4) [OF assms(2)]
  have sym: "bk_symbol (wd_heap w' ! a) = bk_symbol (wd_heap w ! a)" "a < length (wd_heap w')" if "a < length (wd_heap w)" for a
    using evolvesD(1,2) [OF assms(2)] that by auto
  have op: "x \<notin> opens w' a" if "x \<notin> opens w a" "home w x = Some a" for x a
    using evolvesD(3) [OF assms(2) at [OF that(2)], of x] that by auto
  have reg: "dict_get (wd_books w) sy = Some a" if "dict_get (wd_books w') sy = Some a" "home w x = Some a" for sy a x
    by (rule evolvesD(5) [OF assms(2) that(1) at [OF that(2)]])
  have rec: "task_ok w' k" if ok: "task_ok w k" and new: "\<And>x. wants x k \<Longrightarrow> home w' x = None"
    and base: "\<And>a ev k'. k \<noteq> Calling a ev k'" for k
  proof (cases k)
    case (SubmitBook ord a)
    then show ?thesis using ok new [of "order_id ord"] sym [of a] by simp
  next
    case (CancelGet x sy)
    then obtain a where "home w x = Some a" "bk_symbol (wd_heap w ! a) = sy" using ok by auto
    then show ?thesis using CancelGet keep [of x a] sym(1) [OF at] by auto
  next
    case (CancelBook x a)
    then obtain a' where "home w x = Some a'" "\<forall>sy. dict_get (wd_books w) sy = Some a' \<longrightarrow> a' = a" "a < length (wd_heap w)"
      using ok by auto
    then show ?thesis using CancelBook keep [of x a'] sym(2) [of a] reg [of _ a' x] by auto
  next
    case (CancelPop x r)
    then obtain a where "home w x = Some a" "\<forall>sy. dict_get (wd_books w) sy = Some a \<longrightarrow> x \<notin> opens w a"
      "\<forall>oo. r = Some oo \<longrightarrow> order_id (oo_order oo) = x \<and> x \<notin> opens w a" using ok by auto
    then show ?thesis using CancelPop keep [of x a] reg [of _ a x] op [of x a] by auto
  next
    case (Done r)
    then show ?thesis using ok keep op by (cases r) auto
  qed (use ok new base sym in auto)
  show ?thesis
  proof (cases "\<exists>a ev k'. k = Calling a ev k'")
    case True
    then obtain a ev k' where k: "k = Calling a ev k'" by blast
    have "k' \<noteq> Calling a2 ev2 k2" for a2 ev2 k2 using assms(1) unfolding k by (auto dest: spec [where x = a2])
    then have "task_ok w' k'" using rec [of k'] assms(1) unfolding k by auto
    then show ?thesis using assms(1) keep sym pend [OF k] unfolding k by auto
  qed (use rec [of k] assms(1,4) in blast)
qed

section \<open>One task steps\<close>

lemma mem_update_other: "k' \<in> set ts \<Longrightarrow> k' \<noteq> ts ! i \<Longrightarrow> k' \<in> set (ts[i := k])"
  by (metis in_set_conv_nth length_list_update nth_list_update_neq)

lemma mem_update: "k' \<in> set (ts[i := k]) \<Longrightarrow> k' = k \<or> k' \<in> set ts"
  using set_update_subset_insert by fastforce

lemma mem_update_index:
  assumes "k' \<in> set (ts[i := k])" "k' \<noteq> k"
  obtains j where "j < length ts" "j \<noteq> i" "k' = ts ! j"
proof -
  from assms(1) obtain j where j: "j < length (ts[i := k])" "ts[i := k] ! j = k'" unfolding in_set_conv_nth by blast
  have "j \<noteq> i" using j assms(2) by auto
  with j show thesis using that by simp
qed

lemma pops_update:
  "\<exists>k'\<in>set ts. pops x k' \<Longrightarrow> \<not> pops x (ts ! i) \<or> pops x k \<Longrightarrow> i < length ts \<Longrightarrow> \<exists>k'\<in>set (ts[i := k]). pops x k'"
  using mem_update_other set_update_memI by metis

lemma tasks_step:
  assumes ok: "tasks_ok w" and sh: "shared_ok t w" and ev: "evolves w w1" and same: "wd_tasks w1 = wd_tasks w"
    and i: "i < length (wd_tasks w)" and k: "task_ok w1 k"
    and wants: "\<And>x. wants x k \<Longrightarrow> wants x (wd_tasks w ! i)"
    and fresh: "\<And>x. home w1 x \<noteq> None \<Longrightarrow> home w x \<noteq> None \<or> wants x (wd_tasks w ! i)"
    and won: "\<And>x. won x k \<Longrightarrow> won x (wd_tasks w ! i) \<or> (\<exists>a. home w x = Some a \<and> x \<in> opens w a)"
    and holds: "\<And>a. holds a k \<Longrightarrow> holds a (wd_tasks w ! i) \<or> \<not> locked a w"
    and pend: "\<And>a ev k'. Calling a ev k' \<in> set (wd_tasks w) \<Longrightarrow> Calling a ev k' \<noteq> wd_tasks w ! i \<Longrightarrow> opens w a \<subseteq> opens w1 a"
  shows "tasks_ok (w1\<lparr>wd_tasks := (wd_tasks w1)[i := k]\<rparr>)"
proof -
  let ?ts = "wd_tasks w"
  have all: "task_ok w k'" if "k' \<in> set ?ts" for k' using ok that by (simp add: tasks_ok_def)
  have sole: "sole (holds a) ?ts" "sole (wants x) ?ts" "sole (won x) ?ts" for a x using ok by (simp_all add: tasks_ok_def)
  have new: "\<not> wants x (Calling a ev k')" for x a ev k' by simp
  have "task_ok w1 k'" if mem: "k' \<in> set (?ts[i := k])" for k'
  proof (cases "k' = k")
    case False
    obtain j where j: "j < length ?ts" "j \<noteq> i" "k' = ?ts ! j" by (rule mem_update_index [OF mem False])
    note ji = j(2,3)
    show ?thesis
    proof (cases "k' = ?ts ! i")
      case True
      show ?thesis
      proof (rule task_ok_evolves [OF all ev sh])
        show "k' \<in> set ?ts" using j ji by simp
        fix x assume w: "wants x k'"
        then have "j = i" using sole(2) j ji i True unfolding sole_def by metis
        then show "home w1 x = None" using ji by simp
      next
        fix a ev k'' assume c: "k' = Calling a ev k''"
        then have "holds a (?ts ! j)" "holds a (?ts ! i)" using ji True by auto
        then have "j = i" using sole(1) j i unfolding sole_def by metis
        then show "opens w a \<subseteq> opens w1 a" using ji by simp
      qed
    next
      case other: False
      show ?thesis
      proof (rule task_ok_evolves [OF all ev sh])
        show mem: "k' \<in> set ?ts" using j ji by simp
        fix x assume w: "wants x k'"
        have "\<not> wants x (?ts ! i)" using sole(2) [of x] j ji i w unfolding sole_def by metis
        moreover have "home w x = None" using all [OF mem] w by (cases k') auto
        ultimately show "home w1 x = None" using fresh by metis
      next
        fix a ev k'' assume "k' = Calling a ev k''"
        then show "opens w a \<subseteq> opens w1 a" using pend [of a ev k''] other nth_mem [OF j(1)] ji(2) by simp
      qed
    qed
  qed (use k in simp)
  moreover have "sole (holds a) (?ts[i := k])" for a
    by (rule sole_update [OF sole(1) i]) (use holds [of a] in \<open>auto simp: locked_def\<close>)
  moreover have "sole (wants x) (?ts[i := k])" for x
    by (rule sole_update [OF sole(2) i]) (use wants [of x] in auto)
  moreover have "sole (won x) (?ts[i := k])" for x
  proof (rule sole_update [OF sole(3) i])
    have gone: "\<exists>a. home w x = Some a \<and> x \<notin> opens w a" if "won x k'" "task_ok w k'" for k'
      using that
    proof (induction k')
      case (CancelPop y r)
      then show ?case by (cases r) auto
    next
      case (Done r)
      then show ?case by (cases r) auto
    qed auto
    assume "won x k"
    then consider "won x (?ts ! i)" | a where "home w x = Some a" "x \<in> opens w a" using won by blast
    then show "won x (?ts ! i) \<or> (\<forall>k'\<in>set ?ts. \<not> won x k')"
      by cases (use gone all in \<open>fastforce\<close>)+
  qed
  ultimately show ?thesis by (simp add: tasks_ok_def same)
qed

lemma pends_quiet:
  assumes "wd_tasks w1 = wd_tasks w" "i < length (wd_tasks w)" "\<And>a. \<not> holds a (wd_tasks w ! i)" "\<And>a. \<not> holds a k"
    and p: "pends (w1\<lparr>wd_tasks := (wd_tasks w1)[i := k]\<rparr>) a ev"
  shows "pends w a ev"
proof -
  have in1: "k' \<in> set (wd_tasks w)" if "k' \<in> set ((wd_tasks w)[i := k])" "holds a k'" for k'
    using mem_update that assms(4) by metis
  have in2: "k' \<in> set ((wd_tasks w)[i := k])" if "k' \<in> set (wd_tasks w)" "holds a k'" for k'
    using mem_update_other that assms(3) by metis
  have "locked a (w1\<lparr>wd_tasks := (wd_tasks w1)[i := k]\<rparr>) \<longleftrightarrow> locked a w"
    using in1 in2 by (auto simp: locked_def assms(1))
  then show ?thesis using p in1 [of "Calling a ev _"] by (auto simp: pends_def assms(1))
qed

lemma tasks_okD: "tasks_ok w \<Longrightarrow> k \<in> set (wd_tasks w) \<Longrightarrow> task_ok w k"
  by (simp add: tasks_ok_def)

lemma pends_inside:
  assumes "tasks_ok w" "pends w a ev"
  shows "track ev {} \<subseteq> opens w a"
proof -
  from assms(2) show ?thesis unfolding pends_def
  proof
    assume "\<exists>k. Calling a ev k \<in> set (wd_tasks w)"
    then obtain k where "Calling a ev k \<in> set (wd_tasks w)" ..
    from tasks_okD [OF assms(1) this] show ?thesis by simp
  qed simp
qed

lemma in_stepD:
  assumes "in_step w" "dict_get (wd_books w) sy = Some a" "pends w a ev" "home w x = Some a"
  shows "x \<in> opens w a \<Longrightarrow> track_map sy ev (map_of (wd_orders w)) x = Some sy"
    and "track_map sy ev (map_of (wd_orders w)) x = Some sy \<Longrightarrow> x \<in> opens w a \<or> (\<exists>k\<in>set (wd_tasks w). pops x k)"
  using assms unfolding in_step_def by blast+

lemma track_map_none: "m x = None \<Longrightarrow> track_map sy ev m x = Some sy \<Longrightarrow> x \<in> track ev {}"
  using shared.follow [of x "{}" m sy False ev] by simp

lemma shared_ok_frame [simp]:
  "shared_ok t (w\<lparr>wd_cache := c\<rparr>) = shared_ok t w" "shared_ok t (w\<lparr>wd_tasks := ts\<rparr>) = shared_ok t w"
  "shared_ok t (w\<lparr>wd_session := d\<rparr>) = shared_ok t w" "shared_ok t (w\<lparr>wd_expired := n\<rparr>) = shared_ok t w"
  by (simp_all add: shared_ok_def)

text \<open>A step that touches no book.\<close>

lemma quiet_step:
  assumes ok: "world_ok t w" and i: "i < length (wd_tasks w)" and ev: "evolves w w1" and sh: "shared_ok t w1"
    and same: "wd_tasks w1 = wd_tasks w" "wd_home w1 = wd_home w" "\<And>a. a < length (wd_heap w) \<Longrightarrow> wd_heap w1 ! a = wd_heap w ! a"
    and base: "\<And>a. \<not> holds a (wd_tasks w ! i)" "\<And>a. \<not> holds a k" and k: "task_ok w1 k"
    and wants: "\<And>x. wants x k \<Longrightarrow> wants x (wd_tasks w ! i)" and won: "\<And>x. won x k \<Longrightarrow> won x (wd_tasks w ! i)"
    and map: "\<And>sy a x. dict_get (wd_books w1) sy = Some a \<Longrightarrow> home w x = Some a \<Longrightarrow>
      (dict_get (wd_orders w1) x = dict_get (wd_orders w) x \<and> \<not> pops x (wd_tasks w ! i))
      \<or> dict_get (wd_orders w1) x = None \<and> x \<notin> opens w a"
  shows "world_ok t (w1\<lparr>wd_tasks := (wd_tasks w1)[i := k]\<rparr>)"
proof -
  have old: "shared_ok t w" "tasks_ok w" "in_step w" using ok by (simp_all add: world_ok_def)
  have lt: "a < length (wd_heap w)" if "home w x = Some a" for a x using shared_okD(5) [OF old(1) that] .
  have "tasks_ok (w1\<lparr>wd_tasks := (wd_tasks w1)[i := k]\<rparr>)"
  proof (rule tasks_step [OF old(2,1) ev same(1) i k wants])
    show "opens w a \<subseteq> opens w1 a" if "Calling a ev k' \<in> set (wd_tasks w)" for a ev k'
    proof -
      have "task_ok w (Calling a ev k')" by (rule tasks_okD [OF old(2) that])
      then show ?thesis using same(3) by simp
    qed
  qed (use same(2) base won in auto)
  moreover have "in_step (w1\<lparr>wd_tasks := (wd_tasks w1)[i := k]\<rparr>)" (is "in_step ?w")
    unfolding in_step_def
  proof (intro allI impI)
    fix sy a evs x
    assume "dict_get (wd_books ?w) sy = Some a" and p: "pends ?w a evs" and "home ?w x = Some a"
    then have b: "dict_get (wd_books w1) sy = Some a" and h: "home w x = Some a" using same(2) by simp_all
    have reg: "dict_get (wd_books w) sy = Some a" by (rule evolvesD(5) [OF ev b lt [OF h]])
    have p1: "pends w a evs" by (rule pends_quiet [OF same(1) i base p])
    note in_old = in_stepD [OF old(3) reg p1 h]
    have eq: "opens ?w a = opens w a" using same(3) [OF lt [OF h]] by simp
    from map [OF b h] show "(x \<in> opens ?w a \<longrightarrow> track_map sy evs (map_of (wd_orders ?w)) x = Some sy)
       \<and> (track_map sy evs (map_of (wd_orders ?w)) x = Some sy \<longrightarrow> x \<in> opens ?w a \<or> (\<exists>k\<in>set (wd_tasks ?w). pops x k))"
    proof
      assume m: "dict_get (wd_orders w1) x = dict_get (wd_orders w) x \<and> \<not> pops x (wd_tasks w ! i)"
      have "track_map sy evs (map_of (wd_orders w1)) x = track_map sy evs (map_of (wd_orders w)) x"
        by (rule track_map_pointwise) (use m in simp)
      then show ?thesis using in_old pops_update [of "wd_tasks w" x i k] m i same(1) unfolding eq by auto
    next
      assume m: "dict_get (wd_orders w1) x = None \<and> x \<notin> opens w a"
      then have "x \<notin> opens ?w a" "track_map sy evs (map_of (wd_orders w1)) x \<noteq> Some sy"
        using track_map_none [of "map_of (wd_orders w1)" x sy evs] pends_inside [OF old(2) p1] unfolding eq by auto
      then show ?thesis by simp
    qed
  qed
  moreover have "shared_ok t ?w" using sh by simp
  ultimately show ?thesis by (simp add: world_ok_def)
qed

text \<open>\<open>get\<close>.\<close>

lemma new_book:
  assumes "make_book sy 200 age = Inr b"
  shows "book_inv t b" "open_ids b = {}" "bk_symbol b = sy"
proof -
  note m = make_book_spec [OF assms]
  have lv: "rb_side (abs_book b) s = []" for s using m(6) by simp
  then have "ref_ok (abs_book b)" by (auto simp: ref_ok_def side_list_ok_def uncrossed_side [where s = BUY])
  moreover have "own_orders (abs_book b)" using lv by (simp add: own_orders_def)
  ultimately show "book_inv t b" using m(1) by (simp add: book_inv_def)
qed (use make_book_spec [OF assms] in simp_all)

lemma wd_get_cases:
  assumes "wd_get me sy w = (w1, r)"
  obtains (old) c where "w1 = w\<lparr>wd_cache := c\<rparr>" "r = Inr None \<or> (\<exists>a. r = Inr (Some a) \<and> dict_get (wd_books w) sy = Some a)"
  | (made) c b where "w1 = w\<lparr>wd_cache := c, wd_heap := wd_heap w @ [b], wd_books := dict_set (wd_books w) sy (length (wd_heap w))\<rparr>"
      "r = Inr (Some (length (wd_heap w)))" "dict_get (wd_books w) sy = None" "make_book sy 200 (me_max_age me) = Inr b"
  | (refused) c e where "w1 = w\<lparr>wd_cache := c\<rparr>" "r = Inl e"
      "is_owned_symbol (me_settings me) (me_rows me) sy (wd_cache w) = (c, Inl e) \<or> make_book sy 200 (me_max_age me) = Inl e"
proof -
  obtain c owned where "is_owned_symbol (me_settings me) (me_rows me) sy (wd_cache w) = (c, owned)" by fastforce
  then show thesis
    using assms that
    by (cases owned) (auto simp: wd_get_def Let_def split: bool.splits option.splits sum.splits)
qed

lemma wd_get_ok:
  assumes ok: "shared_ok t w" and run: "wd_get me sy w = (w1, r)"
  shows "shared_ok t w1" "evolves w w1" "wd_home w1 = wd_home w" "wd_orders w1 = wd_orders w" "wd_tasks w1 = wd_tasks w"
    "a < length (wd_heap w) \<Longrightarrow> wd_heap w1 ! a = wd_heap w ! a"
    "r = Inr (Some a') \<Longrightarrow> dict_get (wd_books w1) sy = Some a'"
proof -
  note d = shared_okD [OF ok]
  have "shared_ok t w1 \<and> evolves w w1 \<and> wd_home w1 = wd_home w \<and> wd_orders w1 = wd_orders w \<and> wd_tasks w1 = wd_tasks w
    \<and> (\<forall>a<length (wd_heap w). wd_heap w1 ! a = wd_heap w ! a) \<and> (\<forall>a'. r = Inr (Some a') \<longrightarrow> dict_get (wd_books w1) sy = Some a')"
    using run
  proof (cases rule: wd_get_cases)
    case (old c)
    then show ?thesis using ok by (auto simp: evolves_same)
  next
    case (refused c e)
    then show ?thesis using ok by (auto simp: evolves_same)
  next
    case (made c b)
    note nb = new_book [OF made(4)]
    have at: "wd_heap w1 ! a = (if a < length (wd_heap w) then wd_heap w ! a else b)" if "a < Suc (length (wd_heap w))" for a
      using that by (auto simp: made(1) nth_append)
    have bk: "dict_get (wd_books w1) x = (if x = sy then Some (length (wd_heap w)) else dict_get (wd_books w) x)" for x
      by (simp add: made(1) dict_simps)
    have "shared_ok t w1"
      unfolding shared_ok_def
    proof (intro conjI allI impI ballI)
      show "dict_ok (wd_books w1)" "dict_ok (wd_orders w1)" using d(1,2) by (simp_all add: made(1) dict_ok_set)
    next
      fix a assume "a < length (wd_heap w1)"
      then show "book_inv t (wd_heap w1 ! a)" using at [of a] d(3) [of a] nb(1) by (simp add: made(1))
    next
      fix a x assume "a < length (wd_heap w1)" "x \<in> opens w1 a"
      then show "home w1 x = Some a" using at [of a] d(4) [of a x] nb(2) by (auto simp: made(1) split: if_splits)
    next
      fix x a assume "home w1 x = Some a"
      then show "a < length (wd_heap w1)" using d(5) [of x a] by (simp add: made(1))
    next
      fix x s assume "dict_get (wd_orders w1) x = Some s"
      then obtain a where "home w x = Some a" "bk_symbol (wd_heap w ! a) = s" using d(6) [of x s] by (auto simp: made(1))
      then show "\<exists>a. home w1 x = Some a \<and> bk_symbol (wd_heap w1 ! a) = s" using at [of a] d(5) [of x a] by (auto simp: made(1))
    next
      fix s a assume "dict_get (wd_books w1) s = Some a"
      then show "a < length (wd_heap w1)" "bk_symbol (wd_heap w1 ! a) = s"
        using at [of a] bk [of s] d(7,8) [of s a] nb(3) by (auto simp: made(1) split: if_splits)
    qed
    moreover have "evolves w w1" unfolding evolves_def bk by (auto simp: made(1) nth_append split: if_splits)
    ultimately show ?thesis using at bk made(1,2) by auto
  qed
  then show "shared_ok t w1" "evolves w w1" "wd_home w1 = wd_home w" "wd_orders w1 = wd_orders w" "wd_tasks w1 = wd_tasks w"
    "a < length (wd_heap w) \<Longrightarrow> wd_heap w1 ! a = wd_heap w ! a"
    "r = Inr (Some a') \<Longrightarrow> dict_get (wd_books w1) sy = Some a'"
    by blast+
qed

text \<open>A call on a book whose lock is free.\<close>

lemma enter_shared:
  assumes ok: "shared_ok t w" and a: "a < length (wd_heap w)" and t: "t \<le> t'"
    and eff: "shared.effect t' (wd_heap w ! a) b ev new gone"
    and w1: "w1 = w\<lparr>wd_heap := (wd_heap w)[a := b], wd_home := h\<rparr>"
    and h: "\<And>x. map_of h x = (if x \<in> new then Some a else home w x)" and new: "\<And>x. x \<in> new \<Longrightarrow> home w x = None"
  shows "shared_ok t' w1" "evolves w w1" "\<forall>x\<in>event_ids ev. home w1 x = Some a"
proof -
  note d = shared_okD [OF ok]
  have e: "book_inv t' b" "bk_symbol b = bk_symbol (wd_heap w ! a)" "event_ids ev \<subseteq> new \<union> opens w a"
    using eff unfolding shared.effect_def by blast+
  have sub: "open_ids b \<subseteq> new \<union> opens w a" using shared.effect_ids [OF eff] by blast
  have heap: "length (wd_heap w1) = length (wd_heap w)" "wd_heap w1 ! a = b" "a2 \<noteq> a \<Longrightarrow> wd_heap w1 ! a2 = wd_heap w ! a2" for a2
    using a by (simp_all add: w1)
  have hm: "home w1 x = (if x \<in> new then Some a else home w x)" for x using h by (simp add: w1)
  have rest: "wd_books w1 = wd_books w" "wd_orders w1 = wd_orders w" by (simp_all add: w1)
  have sy: "bk_symbol (wd_heap w1 ! a2) = bk_symbol (wd_heap w ! a2)" for a2 using heap(2,3) e(2) by (cases "a2 = a") auto
  show "shared_ok t' w1"
    unfolding shared_ok_def heap(1) rest sy
  proof (intro conjI allI impI ballI)
    show "dict_ok (wd_books w)" "dict_ok (wd_orders w)" by (rule d)+
  next
    fix a2 assume "a2 < length (wd_heap w)"
    then show "book_inv t' (wd_heap w1 ! a2)" using heap(2,3) e(1) d(3) books.later [OF _ t] by (cases "a2 = a") auto
  next
    fix a2 x assume "a2 < length (wd_heap w)" "x \<in> opens w1 a2"
    then show "home w1 x = Some a2" using heap(2,3) sub d(4) [of a2 x] new [of x] hm [of x] by (cases "a2 = a") auto
  next
    fix x a2 assume "home w1 x = Some a2"
    then show "a2 < length (wd_heap w)" using hm [of x] a d(5) [of x a2] by (auto split: if_splits)
  next
    fix x s assume "dict_get (wd_orders w) x = Some s"
    then obtain a2 where "home w x = Some a2" "bk_symbol (wd_heap w ! a2) = s" using d(6) by blast
    then show "\<exists>a. home w1 x = Some a \<and> bk_symbol (wd_heap w ! a) = s" using hm [of x] new [of x] by auto
  next
    fix s a2 assume "dict_get (wd_books w) s = Some a2"
    then show "a2 < length (wd_heap w)" "bk_symbol (wd_heap w ! a2) = s" using d(7,8) by blast+
  qed
  show "evolves w w1"
    unfolding evolves_def heap(1) rest(1) sy
  proof (intro conjI allI impI ballI)
    fix a2 x assume "a2 < length (wd_heap w)" "x \<in> opens w1 a2"
    then show "x \<in> opens w a2 \<or> home w x = None" using heap(2,3) sub new [of x] by (cases "a2 = a") auto
  next
    fix x a2 assume "home w x = Some a2"
    then show "home w1 x = Some a2" using hm [of x] new [of x] by auto
  qed simp_all
  show "\<forall>x\<in>event_ids ev. home w1 x = Some a" using e(3) hm d(4) [OF a] by auto
qed

lemma pends_enter:
  assumes same: "wd_tasks w1 = wd_tasks w" and i: "i < length (wd_tasks w)" and free: "\<not> locked a w"
    and base: "\<And>a. \<not> holds a (wd_tasks w ! i)"
    and p: "pends (w1\<lparr>wd_tasks := (wd_tasks w1)[i := Calling a ev k]\<rparr>) a2 ev2"
  shows "if a2 = a then ev2 = ev else pends w a2 ev2"
proof (cases "a2 = a")
  case True
  have no: "Calling a ev' k' \<notin> set (wd_tasks w)" for ev' k' using free by (auto simp: locked_def)
  have "Calling a ev k \<in> set ((wd_tasks w)[i := Calling a ev k])" using i by (rule set_update_memI)
  then have "locked a (w1\<lparr>wd_tasks := (wd_tasks w1)[i := Calling a ev k]\<rparr>)"
    by (auto simp: locked_def same intro!: bexI [where x = "Calling a ev k"])
  then obtain k' where "Calling a ev2 k' \<in> set ((wd_tasks w)[i := Calling a ev k])"
    using p True by (auto simp: pends_def same)
  then show ?thesis using mem_update [of "Calling a ev2 k'" "wd_tasks w" i "Calling a ev k"] no True by auto
next
  case False
  let ?w = "w1\<lparr>wd_tasks := (wd_tasks w1)[i := Calling a ev k]\<rparr>"
  have in1: "k' \<in> set (wd_tasks w)" if "k' \<in> set (wd_tasks ?w)" "holds a2 k'" for k'
    using mem_update [of k' "wd_tasks w" i "Calling a ev k"] that False by (auto simp: same)
  have in2: "k' \<in> set (wd_tasks ?w)" if "k' \<in> set (wd_tasks w)" "holds a2 k'" for k'
    using mem_update_other [of k' "wd_tasks w" i "Calling a ev k"] that base by (auto simp: same)
  have "locked a2 ?w \<longleftrightarrow> locked a2 w" unfolding locked_def using in1 in2 by blast
  then show ?thesis using p in1 [of "Calling a2 ev2 _"] False by (auto simp: pends_def)
qed

lemma enter_step:
  assumes ok: "world_ok t w" and i: "i < length (wd_tasks w)" and free: "\<not> locked a w" and a: "a < length (wd_heap w)"
    and t: "t \<le> t'" and eff: "shared.effect t' (wd_heap w ! a) b ev new gone"
    and w1: "w1 = w\<lparr>wd_heap := (wd_heap w)[a := b], wd_home := h\<rparr>"
    and h: "\<And>x. map_of h x = (if x \<in> new then Some a else home w x)"
    and new: "\<And>x. x \<in> new \<Longrightarrow> wants x (wd_tasks w ! i) \<and> home w x = None"
    and base: "\<And>x. \<not> pops x (wd_tasks w ! i)" "\<And>a. \<not> holds a (wd_tasks w ! i)" "\<And>a. \<not> holds a k" "\<And>x. \<not> wants x k"
    and k: "task_ok w1 k" and won: "\<And>x. won x k \<Longrightarrow> x \<in> opens w a" and gone: "\<And>x. x \<in> gone \<Longrightarrow> pops x k"
  shows "world_ok t' (w1\<lparr>wd_tasks := (wd_tasks w1)[i := Calling a ev k]\<rparr>)"
proof -
  have old: "shared_ok t w" "tasks_ok w" "in_step w" using ok by (simp_all add: world_ok_def)
  note d = shared_okD [OF old(1)]
  have new0: "x \<in> new \<Longrightarrow> home w x = None" for x using new by blast
  note sh = enter_shared [OF old(1) a t eff w1 h new0]
  have e: "open_ids b = track ev (opens w a) - gone" "track ev {} \<subseteq> open_ids b"
    using eff unfolding shared.effect_def by blast+
  have heap: "wd_heap w1 ! a = b" "a2 \<noteq> a \<Longrightarrow> wd_heap w1 ! a2 = wd_heap w ! a2" for a2 using a by (simp_all add: w1)
  have hm: "home w1 x = (if x \<in> new then Some a else home w x)" for x using h by (simp add: w1)
  have rest: "wd_books w1 = wd_books w" "wd_orders w1 = wd_orders w" "wd_tasks w1 = wd_tasks w" by (simp_all add: w1)
  let ?w = "w1\<lparr>wd_tasks := (wd_tasks w1)[i := Calling a ev k]\<rparr>"
  have tk: "tasks_ok ?w"
  proof (rule tasks_step [OF old(2,1) sh(2) rest(3) i])
    show "task_ok w1 (Calling a ev k)" using sh(3) k e(2) base(3,4) a by (simp add: w1)
    show "home w1 x \<noteq> None \<Longrightarrow> home w x \<noteq> None \<or> wants x (wd_tasks w ! i)" for x using hm [of x] new [of x] by (auto split: if_splits)
    show "won x (Calling a ev k) \<Longrightarrow> won x (wd_tasks w ! i) \<or> (\<exists>a. home w x = Some a \<and> x \<in> opens w a)" for x
      using won [of x] d(4) [OF a, of x] by auto
    fix a2 ev2 k2 assume c: "Calling a2 ev2 k2 \<in> set (wd_tasks w)"
    then have "a2 \<noteq> a" using free by (auto simp: locked_def)
    then show "opens w a2 \<subseteq> opens w1 a2" using heap(2) by simp
  qed (use free in auto)
  have mine: "Calling a ev k \<in> set (wd_tasks ?w)" using i rest(3) by (simp add: set_update_memI)
  have pop: "\<exists>k'\<in>set (wd_tasks ?w). pops x k'" if "\<exists>k'\<in>set (wd_tasks w). pops x k'" for x
    using pops_update [OF that _ i] base(1) by (simp add: rest(3))
  have "in_step ?w"
    unfolding in_step_def
  proof (intro allI impI)
    fix s a2 evs x
    assume b: "dict_get (wd_books ?w) s = Some a2" and p: "pends ?w a2 evs" and hx: "home ?w x = Some a2"
    have reg: "dict_get (wd_books w) s = Some a2" using b rest(1) by simp
    note pe = pends_enter [OF rest(3) i free base(2) p]
    show "(x \<in> opens ?w a2 \<longrightarrow> track_map s evs (map_of (wd_orders ?w)) x = Some s)
       \<and> (track_map s evs (map_of (wd_orders ?w)) x = Some s \<longrightarrow> x \<in> opens ?w a2 \<or> (\<exists>k\<in>set (wd_tasks ?w). pops x k))"
    proof (cases "a2 = a")
      case True
      have evs: "evs = ev" using pe True by simp
      have free': "pends w a []" using free by (simp add: pends_def)
      have before: "(x \<in> opens w a \<longrightarrow> dict_get (wd_orders w) x = Some s) \<and>
        (dict_get (wd_orders w) x = Some s \<longrightarrow> x \<in> opens w a \<or> (\<exists>k\<in>set (wd_tasks w). pops x k))"
      proof (cases "x \<in> new")
        case True
        then have n: "home w x = None" by (rule new0)
        then have "x \<notin> opens w a" using d(4) [OF a, of x] by auto
        moreover have "dict_get (wd_orders w) x = None" using n d(6) [of x] by (cases "dict_get (wd_orders w) x") auto
        ultimately show ?thesis by simp
      next
        case False
        then have "home w x = Some a" using hx hm [of x] True by simp
        from in_stepD [OF old(3) reg [unfolded True] free' this] show ?thesis by simp
      qed
      have "x \<in> gone \<Longrightarrow> \<exists>k'\<in>set (wd_tasks ?w). pops x k'" using gone mine by (intro bexI [OF _ mine]) simp
      then show ?thesis
        using shared.follow [of x "opens w a" "map_of (wd_orders w)" s "\<exists>k\<in>set (wd_tasks w). pops x k" ev] before
          pop e(1) heap(1) rest(2) evs True by auto
    next
      case False
      have hx': "home w x = Some a2" using hx hm [of x] False by (auto split: if_splits)
      have p': "pends w a2 evs" using pe False by simp
      show ?thesis using in_stepD [OF old(3) reg p' hx'] pop heap(2) [OF False] rest(2) by auto
    qed
  qed
  then show ?thesis using sh(1) tk by (simp add: world_ok_def)
qed

text \<open>Callbacks, and the release of the lock.\<close>

lemma pends_holder:
  assumes ok: "tasks_ok w" and same: "wd_tasks w1 = wd_tasks w" and i: "i < length (wd_tasks w)"
    and at: "wd_tasks w ! i = Calling a ev0 k0" and k: "k = Calling a ev k0 \<or> ev = [] \<and> (\<forall>a. \<not> holds a k)"
    and p: "pends (w1\<lparr>wd_tasks := (wd_tasks w1)[i := k]\<rparr>) a2 ev2"
  shows "if a2 = a then ev2 = ev else pends w a2 ev2"
proof -
  let ?w = "w1\<lparr>wd_tasks := (wd_tasks w1)[i := k]\<rparr>"
  have others: "\<not> holds a (wd_tasks w ! j)" if "j < length (wd_tasks w)" "j \<noteq> i" for j
  proof
    assume "holds a (wd_tasks w ! j)"
    moreover have "holds a (wd_tasks w ! i)" by (simp add: at)
    moreover have "sole (holds a) (wd_tasks w)" using ok by (simp add: tasks_ok_def)
    ultimately show False using that i unfolding sole_def by blast
  qed
  show ?thesis
  proof (cases "a2 = a")
    case True
    have only: "k' = k" if h: "k' \<in> set ((wd_tasks w)[i := k])" "holds a k'" for k'
    proof (rule ccontr)
      assume "k' \<noteq> k"
      with h(1) obtain j where "j < length (wd_tasks w)" "j \<noteq> i" "k' = wd_tasks w ! j" by (rule mem_update_index)
      then show False using others h(2) by simp
    qed
    from p consider k' where "Calling a ev2 k' \<in> set ((wd_tasks w)[i := k])" | "ev2 = []" "\<not> locked a ?w"
      using True by (auto simp: pends_def same)
    then have "ev2 = ev"
    proof cases
      case 1
      then have "Calling a ev2 k' = k" using only by simp
      then show ?thesis using k by auto
    next
      case 2
      have "k \<in> set (wd_tasks ?w)" using i by (simp add: same set_update_memI)
      then have "\<not> holds a k" using 2(2) by (auto simp: locked_def)
      then show ?thesis using k 2(1) by auto
    qed
    then show ?thesis using True by simp
  next
    case False
    have in1: "k' \<in> set (wd_tasks w)" if "k' \<in> set (wd_tasks ?w)" "holds a2 k'" for k'
      using mem_update [of k' "wd_tasks w" i k] that False k by (auto simp: same)
    have in2: "k' \<in> set (wd_tasks ?w)" if "k' \<in> set (wd_tasks w)" "holds a2 k'" for k'
      using mem_update_other [of k' "wd_tasks w" i k] that at False by (cases "k' = Calling a ev0 k0") (auto simp: same)
    have "locked a2 ?w \<longleftrightarrow> locked a2 w" unfolding locked_def using in1 in2 by blast
    then show ?thesis using p in1 [of "Calling a2 ev2 _"] False by (auto simp: pends_def)
  qed
qed

lemma callback_frame:
  "wd_heap (callback sy x w) = wd_heap w" "wd_home (callback sy x w) = wd_home w" "wd_books (callback sy x w) = wd_books w"
  "wd_tasks (callback sy x w) = wd_tasks w" "dict_ok (wd_orders w) \<Longrightarrow> dict_ok (wd_orders (callback sy x w))"
  by (cases x; simp add: Let_def dict_ok_set dict_ok_pop)+

lemma callback_orders: "track_map sy ev (map_of (wd_orders (callback sy x w))) = track_map sy (x # ev) (map_of (wd_orders w))"
proof -
  have "map_of (dict_set d k v) = (map_of d)(k \<mapsto> v)" "map_of (dict_pop d k) = (map_of d)(k := None)"
    for d :: "(uuid, symbol) dict" and k v by (auto simp: dict_simps fun_eq_iff)
  then show ?thesis by (cases x) (simp_all add: Let_def)
qed

lemma holder_step:
  assumes ok: "world_ok t w" and i: "i < length (wd_tasks w)" and at: "wd_tasks w ! i = Calling a evs k0"
    and kind: "(\<exists>x. evs = x # ev \<and> w1 = callback (bk_symbol (wd_heap w ! a)) x w \<and> k = Calling a ev k0)
      \<or> evs = [] \<and> w1 = w \<and> k = k0 \<and> ev = []"
  shows "world_ok t (w1\<lparr>wd_tasks := (wd_tasks w1)[i := k]\<rparr>)"
proof -
  have old: "shared_ok t w" "tasks_ok w" "in_step w" using ok by (simp_all add: world_ok_def)
  note d = shared_okD [OF old(1)]
  have me: "task_ok w (Calling a evs k0)" using tasks_okD [OF old(2) nth_mem [OF i]] at by simp
  have frame: "wd_heap w1 = wd_heap w" "wd_home w1 = wd_home w" "wd_books w1 = wd_books w" "wd_tasks w1 = wd_tasks w"
    using kind callback_frame by auto
  have k: "k = Calling a ev k0 \<or> ev = [] \<and> (\<forall>a. \<not> holds a k)" using kind me by auto
  have evo: "evolves w w1" using evolves_same frame by simp
  have om: "track_map (bk_symbol (wd_heap w ! a)) ev (map_of (wd_orders w1)) = track_map (bk_symbol (wd_heap w ! a)) evs (map_of (wd_orders w))"
    using kind callback_orders by auto
  have other: "dict_get (wd_orders w1) y = dict_get (wd_orders w) y" if "home w y \<noteq> Some a" for y
    using kind that me by (elim disjE exE conjE; cases "hd evs") (auto simp: Let_def dict_simps)
  have place: "\<forall>y s. dict_get (wd_orders w1) y = Some s \<longrightarrow> (\<exists>a. home w y = Some a \<and> bk_symbol (wd_heap w ! a) = s)"
  proof (intro allI impI)
    fix y s assume y: "dict_get (wd_orders w1) y = Some s"
    show "\<exists>a. home w y = Some a \<and> bk_symbol (wd_heap w ! a) = s"
    proof (cases "home w y = Some a")
      case True
      have "dict_get (wd_orders w1) y = dict_get (wd_orders w) y \<or> dict_get (wd_orders w1) y = None
          \<or> dict_get (wd_orders w1) y = Some (bk_symbol (wd_heap w ! a))"
        using kind by (elim disjE exE conjE; cases "hd evs") (auto simp: Let_def dict_simps)
      then show ?thesis using y True d(6) [of y] by auto
    next
      case False
      then show ?thesis using other y d(6) [of y s] by simp
    qed
  qed
  have "dict_ok (wd_orders w1)" using d(2) kind callback_frame(5) by auto
  with old(1) place have sh: "shared_ok t w1"
    unfolding shared_ok_def frame by (elim conjE) (intro conjI; assumption)
  have inside: "track ev {} \<subseteq> opens w a"
  proof -
    have "track ev {} \<subseteq> track evs {}"
      using kind by (elim disjE exE conjE; cases "hd evs") (auto intro: subsetD [OF shared.track_mono [OF empty_subsetI]])
    then show ?thesis using me by auto
  qed
  have ids: "\<forall>x\<in>event_ids ev. home w x = Some a" using kind me by (elim disjE exE conjE; cases "hd evs") auto
  have tk: "tasks_ok (w1\<lparr>wd_tasks := (wd_tasks w1)[i := k]\<rparr>)"
  proof (rule tasks_step [OF old(2,1) evo frame(4) i])
    have k0: "task_ok w1 k0"
      by (rule task_ok_evolves [OF _ evo old(1)]) (use me frame(1) in auto)
    then show "task_ok w1 k" using kind me inside ids frame by (elim disjE exE conjE) auto
  qed (use kind at me frame(1,2) in auto)
  let ?w = "w1\<lparr>wd_tasks := (wd_tasks w1)[i := k]\<rparr>"
  have pop: "\<exists>k'\<in>set (wd_tasks ?w). pops y k'" if "\<exists>k'\<in>set (wd_tasks w). pops y k'" for y
    using pops_update [OF that _ i, of k] kind at frame(4) by auto
  have mine: "pends w a evs" using nth_mem [OF i] at by (auto simp: pends_def)
  have "in_step ?w"
    unfolding in_step_def
  proof (intro allI impI)
    fix s a2 ev2 y
    assume b: "dict_get (wd_books ?w) s = Some a2" and p: "pends ?w a2 ev2" and h: "home ?w y = Some a2"
    have reg: "dict_get (wd_books w) s = Some a2" and hy: "home w y = Some a2" using b h frame by simp_all
    note pe = pends_holder [OF old(2) frame(4) i at k p]
    show "(y \<in> opens ?w a2 \<longrightarrow> track_map s ev2 (map_of (wd_orders ?w)) y = Some s)
       \<and> (track_map s ev2 (map_of (wd_orders ?w)) y = Some s \<longrightarrow> y \<in> opens ?w a2 \<or> (\<exists>k\<in>set (wd_tasks ?w). pops y k))"
    proof (cases "a2 = a")
      case True
      have s: "s = bk_symbol (wd_heap w ! a)" using d(8) [OF reg] True by simp
      have "track_map s ev2 (map_of (wd_orders w1)) = track_map s evs (map_of (wd_orders w))" using om pe True s by simp
      then show ?thesis using in_stepD [OF old(3) reg [unfolded True] mine hy [unfolded True]] pop frame(1) True by auto
    next
      case False
      have p': "pends w a2 ev2" using pe False by simp
      have "track_map s ev2 (map_of (wd_orders w1)) y = track_map s ev2 (map_of (wd_orders w)) y"
        by (rule track_map_pointwise) (use other hy False in simp)
      then show ?thesis using in_stepD [OF old(3) reg p' hy] pop frame(1) by auto
    qed
  qed
  then show ?thesis using sh tk by (simp add: world_ok_def)
qed

section \<open>Every step keeps the invariant\<close>

lemma world_ok_later: "world_ok t w \<Longrightarrow> t \<le> t' \<Longrightarrow> world_ok t' w"
proof -
  assume ok: "world_ok t w" and t: "t \<le> t'"
  have "shared_ok t' w" if "shared_ok t w"
    using that books.later [OF _ t] unfolding shared_ok_def by blast
  then show "world_ok t' w" using ok by (simp add: world_ok_def)
qed

lemma get_step:
  assumes ok: "world_ok t w" and i: "i < length (wd_tasks w)" and run: "wd_get me sy w = (w1, r)"
    and base: "\<And>a. \<not> holds a (wd_tasks w ! i)" "\<And>a. \<not> holds a k" "\<And>x. \<not> pops x (wd_tasks w ! i)"
    and k: "task_ok w1 k" and wants: "\<And>x. wants x k \<Longrightarrow> wants x (wd_tasks w ! i)" and won: "\<And>x. \<not> won x k"
  shows "world_ok t (w1\<lparr>wd_tasks := (wd_tasks w1)[i := k]\<rparr>)"
proof -
  have "shared_ok t w" using ok by (simp add: world_ok_def)
  note g = wd_get_ok [OF this run]
  show ?thesis by (rule quiet_step [OF ok i g(2,1,5,3,6) base(1,2) k wants]) (use won base(3) g(4) in auto)
qed

lemma advance_get:
  assumes ok: "world_ok t w" and i: "i < length (wd_tasks w)"
    and at: "wd_tasks w ! i \<in> {SubmitStart ord, CancelGet x sy, ReadStart sy}" and adv: "advance me env (wd_tasks w ! i) w = Some (w1, k)"
  shows "world_ok t (w1\<lparr>wd_tasks := (wd_tasks w1)[i := k]\<rparr>)"
proof -
  have old: "shared_ok t w" "tasks_ok w" using ok by (simp_all add: world_ok_def)
  have me: "task_ok w (wd_tasks w ! i)" by (rule tasks_okD [OF old(2) nth_mem [OF i]])
  from at consider "wd_tasks w ! i = SubmitStart ord" | "wd_tasks w ! i = CancelGet x sy" | "wd_tasks w ! i = ReadStart sy" by auto
  then show ?thesis
  proof cases
    case 1
    obtain r where r: "wd_get me (order_symbol ord) w = (w1, r)" using adv 1 by (auto split: prod.splits)
    note g = wd_get_ok [OF old(1) r]
    show ?thesis
    proof (rule get_step [OF ok i r])
      show "task_ok w1 k" using adv 1 r me g(3) g(7) shared_okD(7,8) [OF g(1)] by (auto split: sum.splits option.splits)
    qed (use adv 1 r in \<open>auto split: sum.splits option.splits\<close>)
  next
    case 2
    obtain r where r: "wd_get me sy w = (w1, r)" using adv 2 by (auto split: prod.splits)
    note g = wd_get_ok [OF old(1) r]
    obtain a' where a': "home w x = Some a'" "bk_symbol (wd_heap w ! a') = sy" using me 2 by auto
    have "a' = a" if "r = Inr (Some a)" "dict_get (wd_books w1) s = Some a'" for a s
      using that g(7) [OF that(1)] shared_okD(8) [OF g(1) that(2)] g(6) [OF shared_okD(5) [OF old(1) a'(1)]] a'(2) by simp
    then have "task_ok w1 k" using adv 2 r a' g(3) g(7) shared_okD(7) [OF g(1)] by (auto split: sum.splits option.splits)
    then show ?thesis
      by (rule get_step [OF ok i r, rotated 3]) (use adv 2 r in \<open>auto split: sum.splits option.splits\<close>)
  next
    case 3
    obtain r where r: "wd_get me sy w = (w1, r)" using adv 3 by (auto split: prod.splits)
    note g = wd_get_ok [OF old(1) r]
    show ?thesis
    proof (rule get_step [OF ok i r])
      show "task_ok w1 k" using adv 3 r g(7) shared_okD(7) [OF g(1)] by (auto split: sum.splits option.splits)
    qed (use adv 3 r in \<open>auto split: sum.splits option.splits\<close>)
  qed
qed

lemma advance_map:
  assumes ok: "world_ok t w" and i: "i < length (wd_tasks w)"
    and at: "wd_tasks w ! i \<in> {CancelStart x, CancelPop x r, Rollover d}" and adv: "advance me env (wd_tasks w ! i) w = Some (w1, k)"
  shows "world_ok t (w1\<lparr>wd_tasks := (wd_tasks w1)[i := k]\<rparr>)"
proof -
  have old: "shared_ok t w" "tasks_ok w" using ok by (simp_all add: world_ok_def)
  note d = shared_okD [OF old(1)]
  have me: "task_ok w (wd_tasks w ! i)" by (rule tasks_okD [OF old(2) nth_mem [OF i]])
  from at consider "wd_tasks w ! i = CancelStart x" | "wd_tasks w ! i = CancelPop x r" | "wd_tasks w ! i = Rollover d" by auto
  then show ?thesis
  proof cases
    case 1
    have w1: "w1 = w" using adv 1 by simp
    have "task_ok w k" using adv 1 d(6) by (auto split: option.splits)
    then show ?thesis
      unfolding w1 by (rule quiet_step [OF ok i evolves_same old(1), rotated -4]) (use adv 1 in \<open>auto split: option.splits\<close>)
  next
    case 2
    have w1: "w1 = w\<lparr>wd_orders := dict_pop (wd_orders w) x\<rparr>"
      and k: "k = Done (case r of None \<Rightarrow> NotOpen x | Some oo \<Rightarrow> CanceledOrder oo)" using adv 2 by simp_all
    have pop: "dict_get (wd_orders w1) y = (if y = x then None else dict_get (wd_orders w) y)" for y by (simp add: w1 dict_simps)
    have "dict_ok (wd_orders w1)" using d(2) by (simp add: w1 dict_ok_pop)
    moreover have "\<forall>y s. dict_get (wd_orders w1) y = Some s \<longrightarrow> (\<exists>a. home w y = Some a \<and> bk_symbol (wd_heap w ! a) = s)"
      using d(6) pop by (auto split: if_splits)
    moreover have frame: "wd_heap w1 = wd_heap w" "wd_home w1 = wd_home w" "wd_books w1 = wd_books w" by (simp_all add: w1)
    ultimately have sh: "shared_ok t w1"
      using old(1) unfolding shared_ok_def frame by (elim conjE) (intro conjI; assumption)
    have "task_ok w1 k" using me 2 k by (auto simp: w1 split: option.splits)
    then show ?thesis
    proof (rule quiet_step [OF ok i evolves_same sh, rotated -4])
      show "won y k \<Longrightarrow> won y (wd_tasks w ! i)" for y using 2 k me by (auto split: option.splits)
      show "dict_get (wd_books w1) s = Some a \<Longrightarrow> home w y = Some a \<Longrightarrow>
        dict_get (wd_orders w1) y = dict_get (wd_orders w) y \<and> \<not> pops y (wd_tasks w ! i)
        \<or> dict_get (wd_orders w1) y = None \<and> y \<notin> opens w a" for s a y
        using pop [of y] me 2 by (auto simp: w1 split: if_splits)
    qed (use 2 k in \<open>auto simp: w1 split: option.splits\<close>)
  next
    case 3
    obtain cl where k: "k = Done (RolledOver cl)" and cases: "w1 = w \<or> (\<exists>s. w1 = w\<lparr>wd_session := s\<rparr>)
       \<or> (\<exists>s. w1 = w\<lparr>wd_books := [], wd_orders := [], wd_session := s\<rparr>)"
      using adv 3 by (auto simp: wd_rollover_def split: option.splits if_splits)
    have "shared_ok t (w\<lparr>wd_books := [], wd_orders := [], wd_session := s\<rparr>)" (is "shared_ok t ?w") for s
    proof -
      have frame: "wd_heap ?w = wd_heap w" "wd_home ?w = wd_home w" "wd_books ?w = []" "wd_orders ?w = []" by simp_all
      show ?thesis using old(1) unfolding shared_ok_def frame by (elim conjE) (intro conjI; (assumption | simp (no_asm)))
    qed
    then have sh: "shared_ok t w1" using cases old(1) by auto
    have "task_ok w1 k" using k by simp
    then show ?thesis
      by (rule quiet_step [OF ok i evolves_same sh, rotated -4]) (use 3 k cases in auto)
  qed
qed

lemma same_home: "w\<lparr>wd_heap := h\<rparr> = w\<lparr>wd_heap := h, wd_home := wd_home w\<rparr>"
  by (cases w) simp

lemma advance_book:
  assumes ok: "world_ok t w" and i: "i < length (wd_tasks w)" and clock: "t \<le> expire_clock env" "expire_clock env \<le> rest_clock env"
    and at: "wd_tasks w ! i \<in> {SubmitBook ord a, CancelBook x a, ReadBook a}" and adv: "advance me env (wd_tasks w ! i) w = Some (w1, k)"
  shows "world_ok (rest_clock env) (w1\<lparr>wd_tasks := (wd_tasks w1)[i := k]\<rparr>)"
proof -
  have old: "shared_ok t w" "tasks_ok w" using ok by (simp_all add: world_ok_def)
  note d = shared_okD [OF old(1)]
  have me: "task_ok w (wd_tasks w ! i)" by (rule tasks_okD [OF old(2) nth_mem [OF i]])
  have T: "t \<le> rest_clock env" using clock by simp
  have free: "\<not> locked a w" using at adv by (auto simp: enter_def split: if_splits)
  have a: "a < length (wd_heap w)" using at me by auto
  note inv = d(3) [OF a]
  from at consider "wd_tasks w ! i = SubmitBook ord a" | "wd_tasks w ! i = CancelBook x a" | "wd_tasks w ! i = ReadBook a" by auto
  then show ?thesis
  proof cases
    case 1
    obtain b ev r where s: "book_submit env ord (wd_heap w ! a) = (b, ev, r)" by (metis prod_cases3)
    have ord: "valid_order ord" "home w (order_id ord) = None" "order_symbol ord = bk_symbol (wd_heap w ! a)" using me 1 by auto
    have "order_id ord \<notin> opens w a" using d(4) [OF a] ord(2) by force
    note e = shared.submit_effect [OF inv clock ord(1) this ord(3) s]
    obtain m where m: "r = Inr m" using e(2) by blast
    have w1: "w1 = w\<lparr>wd_heap := (wd_heap w)[a := b], wd_home := dict_set (wd_home w) (order_id ord) a\<rparr>"
      and k: "k = Calling a ev (Done (Matched m))"
      using adv 1 free s m by (simp_all add: enter_def note_home_def)
    show ?thesis unfolding k
      by (rule enter_step [OF ok i free a T e(1) w1]) (use 1 ord in \<open>auto simp: dict_simps\<close>)
  next
    case 2
    obtain b ev r where s: "book_cancel (expire_clock env) x (wd_heap w ! a) = (b, ev, r)" by (metis prod_cases3)
    note e = shared.cancel_effect [OF inv clock(1) s]
    have eff: "shared.effect (rest_clock env) (wd_heap w ! a) b ev {} {x}" by (rule shared.effect_later [OF e(1) clock(2)])
    have out: "x \<notin> open_ids b" using e(1) by (auto simp: shared.effect_def)
    obtain a' where a': "home w x = Some a'" "\<And>sy. dict_get (wd_books w) sy = Some a' \<Longrightarrow> a' = a" using me 2 by auto
    have won: "a' = a \<and> x \<in> opens w a" if "r = Inr oo" for oo
      using shared.cancel_found [OF inv clock(1)] s that d(4) [OF a, of x] a'(1) by auto
    obtain q where q: "after_cancel x r = CancelPop x q" "\<And>oo. q = Some oo \<Longrightarrow> r = Inr oo" using e(3) by (cases r) auto
    let ?w1 = "w\<lparr>wd_heap := (wd_heap w)[a := b], wd_home := wd_home w\<rparr>"
    have w1': "w1 = w\<lparr>wd_heap := (wd_heap w)[a := b]\<rparr>" and k: "k = Calling a ev (CancelPop x q)"
      using adv 2 free s q(1) by (simp_all add: enter_def)
    have w1: "w1 = ?w1" by (rule trans [OF w1' same_home])
    have out': "x \<notin> opens ?w1 a" using out a by simp
    have tk: "task_ok ?w1 (CancelPop x q)"
    proof -
      have "x \<notin> opens ?w1 a'" if "dict_get (wd_books w) sy = Some a'" for sy using a'(2) [OF that] out' by simp
      moreover have "order_id (oo_order oo) = x \<and> x \<notin> opens ?w1 a'" if "q = Some oo" for oo
        using won [OF q(2) [OF that]] e(2) [OF q(2) [OF that]] out' by simp
      ultimately show ?thesis using a'(1) by (auto simp del: nth_list_update_eq)
    qed
    show ?thesis unfolding k w1
    proof (rule enter_step [OF ok i free a T eff refl])
      show "won y (CancelPop x q) \<Longrightarrow> y \<in> opens w a" for y using won q(2) by (cases q) auto
    qed (use 2 tk in simp_all)
  next
    case 3
    obtain b ev r where s: "book_snapshot_call (expire_clock env) (wd_heap w ! a) = (b, ev, r)" by (metis prod_cases3)
    note e = shared.read_effect [OF inv clock(1) s]
    have eff: "shared.effect (rest_clock env) (wd_heap w ! a) b ev {} {}" by (rule shared.effect_later [OF e(1) clock(2)])
    obtain m where m: "r = Inr m" using e(2) by blast
    have w1': "w1 = w\<lparr>wd_heap := (wd_heap w)[a := b]\<rparr>" and k: "k = Calling a ev (Done (Seen m))"
      using adv 3 free s m by (simp_all add: enter_def)
    have w1: "w1 = w\<lparr>wd_heap := (wd_heap w)[a := b], wd_home := wd_home w\<rparr>" by (rule trans [OF w1' same_home])
    show ?thesis unfolding k
      by (rule enter_step [OF ok i free a T eff w1]) (use 3 in auto)
  qed
qed

lemma step_ok:
  assumes ok: "world_ok t w" and clock: "t \<le> expire_clock env" "expire_clock env \<le> rest_clock env"
    and run: "step_task me env i w = Some w'"
  shows "world_ok (rest_clock env) w'"
proof -
  have T: "t \<le> rest_clock env" using clock by simp
  have i: "i < length (wd_tasks w)" using run by (simp add: step_task_def split: if_splits)
  then obtain w1 k where adv: "advance me env (wd_tasks w ! i) w = Some (w1, k)" and w': "w' = w1\<lparr>wd_tasks := (wd_tasks w1)[i := k]\<rparr>"
    using run by (auto simp: step_task_def)
  show ?thesis
  proof (cases "wd_tasks w ! i")
    case (SubmitStart ord)
    show ?thesis unfolding w' by (rule world_ok_later [OF advance_get [OF ok i _ adv, where ord = ord] T]) (simp add: SubmitStart)
  next
    case (CancelGet x sy)
    show ?thesis unfolding w' by (rule world_ok_later [OF advance_get [OF ok i _ adv, where x = x and sy = sy] T]) (simp add: CancelGet)
  next
    case (ReadStart sy)
    show ?thesis unfolding w' by (rule world_ok_later [OF advance_get [OF ok i _ adv, where sy = sy] T]) (simp add: ReadStart)
  next
    case (CancelStart x)
    show ?thesis unfolding w' by (rule world_ok_later [OF advance_map [OF ok i _ adv, where x = x] T]) (simp add: CancelStart)
  next
    case (CancelPop x r)
    show ?thesis unfolding w' by (rule world_ok_later [OF advance_map [OF ok i _ adv, where x = x and r = r] T]) (simp add: CancelPop)
  next
    case (Rollover d)
    show ?thesis unfolding w' by (rule world_ok_later [OF advance_map [OF ok i _ adv, where d = d] T]) (simp add: Rollover)
  next
    case (SubmitBook ord a)
    show ?thesis unfolding w' by (rule advance_book [OF ok i clock _ adv, where ord = ord and a = a]) (simp add: SubmitBook)
  next
    case (CancelBook x a)
    show ?thesis unfolding w' by (rule advance_book [OF ok i clock _ adv, where x = x and a = a]) (simp add: CancelBook)
  next
    case (ReadBook a)
    show ?thesis unfolding w' by (rule advance_book [OF ok i clock _ adv, where a = a]) (simp add: ReadBook)
  next
    case (Calling a evs k0)
    show ?thesis unfolding w'
    proof (rule world_ok_later [OF holder_step [OF ok i Calling] T])
      show "(\<exists>x. evs = x # tl evs \<and> w1 = callback (bk_symbol (wd_heap w ! a)) x w \<and> k = Calling a (tl evs) k0)
        \<or> evs = [] \<and> w1 = w \<and> k = k0 \<and> tl evs = []" using adv Calling by (cases evs) auto
    qed
  next
    case (Done r)
    then show ?thesis using adv by simp
  qed
qed

lemma arrive_ok:
  assumes ok: "world_ok t w" and k: "can_start k w"
  shows "world_ok t (w\<lparr>wd_tasks := wd_tasks w @ [k]\<rparr>)"
proof -
  have old: "shared_ok t w" "tasks_ok w" "in_step w" using ok by (simp_all add: world_ok_def)
  have none: "\<not> holds a k" "\<not> won x k" "\<not> pops x k" "task_ok w k" "wants x k \<Longrightarrow> \<forall>k'\<in>set (wd_tasks w). \<not> wants x k'" for a x
    using k by (cases k; auto simp: unused_def)+
  have "tasks_ok (w\<lparr>wd_tasks := wd_tasks w @ [k]\<rparr>)"
    using old(2) none unfolding tasks_ok_def by (auto intro!: sole_snoc)
  moreover have "pends w a ev" if "pends (w\<lparr>wd_tasks := wd_tasks w @ [k]\<rparr>) a ev" for a ev
    using that none(1) [of a] by (auto simp: pends_def locked_def)
  then have "in_step (w\<lparr>wd_tasks := wd_tasks w @ [k]\<rparr>)"
    using in_stepD [OF old(3)] unfolding in_step_def by fastforce
  ultimately show ?thesis using old(1) by (simp add: world_ok_def)
qed

lemma world_reach_ok: "world_reach me t w \<Longrightarrow> world_ok t w"
proof (induction rule: world_reach.induct)
  case (boot t)
  show ?case by (simp add: world_ok_def shared_ok_def tasks_ok_def in_step_def new_world_def)
next
  case (arrive t w k)
  then show ?case by (intro arrive_ok)
next
  case (progress t w env i w')
  then show ?case by (intro step_ok)
qed

section \<open>Runs that can be evaluated\<close>

datatype move = Arrive task | Step submit_env nat

fun run_moves :: "matcher_env \<Rightarrow> move list \<Rightarrow> world \<Rightarrow> world option" where
  "run_moves me [] w = Some w"
| "run_moves me (Arrive k # ms) w = (if can_start k w then run_moves me ms (w\<lparr>wd_tasks := wd_tasks w @ [k]\<rparr>) else None)"
| "run_moves me (Step env i # ms) w = (case step_task me env i w of None \<Rightarrow> None | Some w' \<Rightarrow> run_moves me ms w')"

fun in_time :: "seconds \<Rightarrow> move list \<Rightarrow> bool" where
  "in_time t [] = True"
| "in_time t (Arrive k # ms) = in_time t ms"
| "in_time t (Step env i # ms) = (t \<le> expire_clock env \<and> expire_clock env \<le> rest_clock env \<and> in_time (rest_clock env) ms)"

lemma run_moves_reach:
  "world_reach me t w \<Longrightarrow> in_time t ms \<Longrightarrow> run_moves me ms w = Some w' \<Longrightarrow> \<exists>t'. world_reach me t' w'"
proof (induction me ms w arbitrary: t rule: run_moves.induct)
  case (2 me k ms w)
  then show ?case using world_reach.arrive by (fastforce split: if_splits)
next
  case (3 me env i ms w)
  then obtain w1 where w1: "step_task me env i w = Some w1" "run_moves me ms w1 = Some w'" by (auto split: option.splits)
  have "world_reach me (rest_clock env) w1" using world_reach.progress [OF 3(2) _ _ w1(1)] 3(3) by simp
  then show ?case using 3(1) [OF w1(1) _ _ w1(2)] 3(3) by simp
qed auto

text \<open>A sell order rests, and two threads cancel it at the same time.\<close>

definition race_moves :: "move list" where
  "race_moves = [Arrive (Rollover (Some 1)), Step (demo_env 0) 0,
     Arrive (SubmitStart (demo_order SELL 100 5 1)), Step (demo_env 0) 1, Step (demo_env 0) 1, Step (demo_env 0) 1, Step (demo_env 0) 1,
     Arrive (CancelStart 1), Arrive (CancelStart 1), Step (demo_env 1) 2, Step (demo_env 1) 3, Step (demo_env 1) 2, Step (demo_env 1) 3,
     Step (demo_env 1) 3, Step (demo_env 1) 3, Step (demo_env 1) 2, Step (demo_env 1) 2, Step (demo_env 1) 2, Step (demo_env 1) 3]"

lemma race_result:
  "map_option (\<lambda>w. (wd_tasks w, wd_orders w, wd_books w)) (run_moves demo_me race_moves new_world)
   = Some ([Done (RolledOver []), Done (Matched \<lparr>result_order_id = 1, result_trades = [], result_remaining = 5\<rparr>),
       Done (NotOpen 1), Done (CanceledOrder \<lparr>oo_order = demo_order SELL 100 5 1, oo_remaining = 5, oo_sequence = 1\<rparr>)],
       [], [(''005930'', 0)])"
  by code_simp

text \<open>A submission fetches its book, the session rolls over, and the order comes to rest in the dropped book.\<close>

definition lost_moves :: "move list" where
  "lost_moves = [Arrive (Rollover (Some 1)), Step (demo_env 0) 0,
     Arrive (SubmitStart (demo_order SELL 100 5 1)), Step (demo_env 0) 1,
     Arrive (Rollover (Some 2)), Step (demo_env 0) 2, Step (demo_env 0) 1, Step (demo_env 0) 1, Step (demo_env 0) 1,
     Arrive (CancelStart 1)] @ replicate 5 (Step (demo_env 1) 3)"

lemma straddling_submit_is_lost:
  "map_option (\<lambda>w. (drop 1 (wd_tasks w), wd_orders w, wd_books w, dict_keys (bk_index (wd_heap w ! 0))))
     (run_moves demo_me lost_moves new_world)
   = Some ([Done (Matched \<lparr>result_order_id = 1, result_trades = [], result_remaining = 5\<rparr>),
       Done (RolledOver [''005930'']), Done (NotOpen 1)], [], [(''005930'', 1)], [1])"
  by code_simp

section \<open>Requests end\<close>

text \<open>How far a task is from its end: its stage, and the callbacks it still has to make.\<close>

fun rank :: "task \<Rightarrow> nat \<times> nat" where
  "rank (SubmitStart ord) = (4, 0)"
| "rank (SubmitBook ord a) = (3, 0)"
| "rank (CancelStart x) = (6, 0)"
| "rank (CancelGet x sy) = (5, 0)"
| "rank (CancelBook x a) = (4, 0)"
| "rank (CancelPop x r) = (1, 0)"
| "rank (ReadStart sy) = (4, 0)"
| "rank (ReadBook a) = (3, 0)"
| "rank (Rollover d) = (1, 0)"
| "rank (Calling a ev k) = (Suc (fst (rank k)), length ev)"
| "rank (Done r) = (0, 0)"

abbreviation rank_less :: "((nat \<times> nat) \<times> (nat \<times> nat)) set" where
  "rank_less \<equiv> less_than <*lex*> less_than"

lemma after_cancel_rank: "fst (rank (after_cancel x r)) \<le> 1"
  by (cases "(x, r)" rule: after_cancel.cases) auto

lemma advance_rank:
  assumes "advance me env k w = Some (w', k')"
  shows "(rank k', rank k) \<in> rank_less"
proof (cases k)
  case (Calling a evs k0)
  then show ?thesis using assms by (cases evs; cases "rank k0") auto
next
  case (CancelBook x a)
  then obtain ev r where "k' = Calling a ev (after_cancel x r)"
    using assms by (auto simp: enter_def split: if_splits prod.splits)
  then show ?thesis using CancelBook after_cancel_rank [of x r] by simp
next
  case (SubmitBook ord a)
  then show ?thesis using assms by (auto simp: enter_def note_home_def split: if_splits prod.splits sum.splits)
next
  case (ReadBook a)
  then show ?thesis using assms by (auto simp: enter_def split: if_splits prod.splits sum.splits)
qed (use assms in \<open>auto split: prod.splits sum.splits option.splits\<close>)

definition work_left :: "world \<Rightarrow> (nat \<times> nat) multiset" where
  "work_left w = image_mset rank (mset (wd_tasks w))"

lemma step_work:
  assumes "step_task me env i w = Some w'"
  shows "(work_left w', work_left w) \<in> mult rank_less"
proof -
  have i: "i < length (wd_tasks w)" using assms by (simp add: step_task_def split: if_splits)
  then obtain w1 k where adv: "advance me env (wd_tasks w ! i) w = Some (w1, k)" and w': "w' = w1\<lparr>wd_tasks := (wd_tasks w1)[i := k]\<rparr>"
    using assms by (auto simp: step_task_def)
  have same: "wd_tasks w1 = wd_tasks w"
  proof -
    have cb: "wd_tasks (callback sy x w) = wd_tasks w" for sy x w by (rule callback_frame(4))
    have gt: "wd_tasks w1 = wd_tasks w" if "wd_get me sy w = (w1, r)" for sy w1 r
      using that by (cases rule: wd_get_cases) simp_all
    show ?thesis
    proof (cases "wd_tasks w ! i")
      case (Calling a evs k0)
      then show ?thesis using adv cb by (cases evs) auto
    qed (use adv gt in \<open>auto simp: enter_def note_home_def wd_rollover_def split: prod.splits if_splits option.splits\<close>)
  qed
  let ?k = "wd_tasks w ! i" and ?rest = "mset (wd_tasks w) - {#wd_tasks w ! i#}"
  have eq: "mset (wd_tasks w) = add_mset ?k ?rest" using nth_mem_mset [OF i] by simp
  have "mset (wd_tasks w') = add_mset k ?rest" using mset_update [OF i] by (simp add: w' same)
  then have "work_left w' = image_mset rank ?rest + {#rank k#}" "work_left w = image_mset rank ?rest + {#rank ?k#}"
    using eq by (simp_all add: work_left_def) (metis image_mset_add_mset)
  then show ?thesis using one_step_implies_mult [of "{#rank ?k#}" "{#rank k#}" rank_less "image_mset rank ?rest"] advance_rank [OF adv] by simp
qed

lemma step_exists:
  assumes k: "k \<in> set (wd_tasks w)" "\<And>r. k \<noteq> Done r"
  shows "\<exists>i w'. step_task me env i w = Some w'"
proof -
  have go: "\<exists>i w'. step_task me env i w = Some w'" if k': "k' \<in> set (wd_tasks w)" "advance me env k' w \<noteq> None" for k'
  proof -
    obtain i where i: "i < length (wd_tasks w)" "k' = wd_tasks w ! i" using k'(1) by (auto simp: in_set_conv_nth)
    then have "step_task me env i w \<noteq> None" using k'(2) by (simp add: step_task_def)
    then show ?thesis by blast
  qed
  show ?thesis
  proof (cases "advance me env k w")
    case None
    have "\<exists>a. locked a w"
    proof (cases k)
      case (Calling a ev k0)
      then show ?thesis using None by (cases ev) auto
    qed (use None k(2) in \<open>auto simp: enter_def split: prod.splits if_splits\<close>)
    then obtain a where "locked a w" by blast
    then obtain k' where k': "k' \<in> set (wd_tasks w)" "holds a k'" by (auto simp: locked_def)
    from k'(2) obtain ev k0 where c: "k' = Calling a ev k0" by (cases k' rule: task.exhaust) auto
    have "advance me env k' w \<noteq> None" unfolding c by (cases ev) simp_all
    with k'(1) show ?thesis by (rule go)
  qed (use go k(1) in auto)
qed

section \<open>A request that runs alone\<close>

text \<open>Without interference the steps of a request add up to the operation of \<open>Registry\<close>.\<close>

fun solo :: "nat \<Rightarrow> matcher_env \<Rightarrow> submit_env \<Rightarrow> task \<Rightarrow> world \<Rightarrow> world \<times> task" where
  "solo 0 me env k w = (w, k)"
| "solo (Suc n) me env k w = (case advance me env k w of None \<Rightarrow> (w, k) | Some (w', k') \<Rightarrow> solo n me env k' w')"

definition view :: "world \<Rightarrow> registry" where
  "view w = \<lparr>rg_cache = wd_cache w, rg_books = map (\<lambda>(sy, a). (sy, wd_heap w ! a)) (wd_books w),
     rg_orders = wd_orders w, rg_session = wd_session w, rg_expired = wd_expired w\<rparr>"

definition calls_back :: "symbol \<Rightarrow> book_event list \<Rightarrow> world \<Rightarrow> world" where
  "calls_back sy ev w = fold (callback sy) ev w"

lemma calls_back_heap: "wd_heap (calls_back sy ev w) = wd_heap w"
  by (induction ev arbitrary: w) (simp_all add: calls_back_def callback_frame)

lemma view_callback: "view (callback sy x w) = callbacks sy [x] (view w)"
  by (cases x) (simp_all add: view_def order_rested_def order_closed_def Let_def)

lemma callbacks_Cons: "callbacks sy (x # ev) g = callbacks sy ev (callbacks sy [x] g)"
  by (cases x) simp_all

lemma view_calls_back: "view (calls_back sy ev w) = callbacks sy ev (view w)"
proof (induction ev arbitrary: w)
  case (Cons x ev)
  have "view (calls_back sy (x # ev) w) = callbacks sy ev (callbacks sy [x] (view w))"
    using Cons [of "callback sy x w"] by (simp add: calls_back_def view_callback)
  then show ?case by (simp only: callbacks_Cons [of sy x ev])
qed (simp add: calls_back_def)

lemma solo_callbacks:
  "bk_symbol (wd_heap w ! a) = sy \<Longrightarrow> solo (Suc (length ev + n)) me env (Calling a ev k) w = solo n me env k (calls_back sy ev w)"
proof (induction ev arbitrary: w)
  case (Cons x ev)
  have "bk_symbol (wd_heap (callback sy x w) ! a) = sy" using Cons.prems by (simp add: callback_frame)
  from Cons.IH [OF this] show ?case using Cons.prems by (simp add: calls_back_def)
qed (simp add: calls_back_def)

lemma view_get: "dict_get (rg_books (view w)) sy = map_option (\<lambda>a. wd_heap w ! a) (dict_get (wd_books w) sy)"
  by (simp add: view_def map_of_map)

lemma view_append:
  "\<forall>(s, a)\<in>set d. a < length h \<Longrightarrow> map (\<lambda>(sy, a). (sy, (h @ [b]) ! a)) d = map (\<lambda>(sy, a). (sy, h ! a)) d"
  by (auto simp: nth_append)

lemma view_wd_get:
  assumes ok: "shared_ok t w" and run: "wd_get me sy w = (w1, r)"
  shows "reg_get me sy (view w) = (view w1, map_sum id (map_option (\<lambda>a. wd_heap w1 ! a)) r)"
proof -
  obtain c owned where o: "is_owned_symbol (me_settings me) (me_rows me) sy (wd_cache w) = (c, owned)" by fastforce
  have lt: "\<forall>(s, a)\<in>set (wd_books w). a < length (wd_heap w)"
  proof clarify
    fix s a assume "(s, a) \<in> set (wd_books w)"
    then have "dict_get (wd_books w) s = Some a" using shared_okD(1) [OF ok] by simp
    then show "a < length (wd_heap w)" by (rule shared_okD(7) [OF ok])
  qed
  have dg: "dict_get (map (\<lambda>(sy, a). (sy, wd_heap w ! a)) (wd_books w)) sy = map_option (\<lambda>a. wd_heap w ! a) (dict_get (wd_books w) sy)"
    by (simp add: map_of_map)
  have vc: "view w\<lparr>rg_cache := c\<rparr> = view (w\<lparr>wd_cache := c\<rparr>)"
    "rg_books (view (w\<lparr>wd_cache := c\<rparr>)) = rg_books (view w)" by (simp_all add: view_def)
  show ?thesis
  proof (cases "owned = Inr True \<and> dict_get (wd_books w) sy = None")
    case True
    then have none: "dict_get (rg_books (view w)) sy = None" by (simp add: view_get)
    have o': "is_owned_symbol (me_settings me) (me_rows me) sy (rg_cache (view w)) = (c, Inr True)" using o True by (simp add: view_def)
    show ?thesis
    proof (cases "make_book sy 200 (me_max_age me)")
      case (Inl e)
      then show ?thesis using run o True none o' vc by (auto simp: wd_get_def reg_get_def Let_def)
    next
      case (Inr b)
      let ?w = "w\<lparr>wd_cache := c, wd_heap := wd_heap w @ [b], wd_books := dict_set (wd_books w) sy (length (wd_heap w))\<rparr>"
      have w1: "w1 = ?w" "r = Inr (Some (length (wd_heap w)))" using run o True Inr by (auto simp: wd_get_def)
      have "rg_books (view ?w) = dict_set (rg_books (view w)) sy b"
        using dict_set_new [of "wd_books w" sy "length (wd_heap w)"] dict_set_new [OF none, of b] True view_append [OF lt, of b]
        by (simp add: view_def)
      then have "view w\<lparr>rg_cache := c, rg_books := dict_set (rg_books (view w)) sy b\<rparr> = view ?w" by (simp add: view_def)
      then show ?thesis using o' none Inr w1 by (simp add: reg_get_def)
    qed
  next
    case False
    then show ?thesis
      using run o vc by (cases owned) (auto simp: wd_get_def reg_get_def view_def dg Let_def split: bool.splits option.splits)
  qed
qed

text \<open>The answer of a task, and a call on the book of a symbol seen through the view.\<close>

fun answer_of :: "task \<Rightarrow> py_error + match_result + open_order" where
  "answer_of (Done (Matched m)) = Inr (Inl m)"
| "answer_of (Done (CanceledOrder oo)) = Inr (Inr oo)"
| "answer_of (Done (NotOpen x)) = Inl (OrderNotFoundError x)"
| "answer_of (Done (Raised e)) = Inl e"
| "answer_of _ = Inl KeyError"

lemma dict_set_mapped:
  "dict_get d k = Some v \<Longrightarrow> dict_ok d \<Longrightarrow>
   dict_set (map (\<lambda>(k, x). (k, f x)) d) k y = map (\<lambda>(k', x). (k', if k' = k then y else f x)) d"
proof (induction d)
  case (Cons p d)
  obtain j x where p: "p = (j, x)" by fastforce
  show ?case
  proof (cases "j = k")
    case True
    then have "map (\<lambda>(k', x). (k', if k' = k then y else f x)) d = map (\<lambda>(k, x). (k, f x)) d"
      using Cons.prems(2) p by (force simp: image_iff)
    then show ?thesis using True p by simp
  qed (use Cons p in simp)
qed simp

lemma view_enter:
  assumes ok: "shared_ok t w" and a: "dict_get (wd_books w) sy = Some a"
  shows "view (w\<lparr>wd_heap := (wd_heap w)[a := b], wd_home := h\<rparr>) = view w\<lparr>rg_books := dict_set (rg_books (view w)) sy b\<rparr>"
proof -
  note d = shared_okD [OF ok]
  have "(wd_heap w)[a := b] ! x = (if s = sy then b else wd_heap w ! x)" if "(s, x) \<in> set (wd_books w)" for s x
  proof -
    have "dict_get (wd_books w) s = Some x" using that d(1) by simp
    then have "s = sy \<longleftrightarrow> x = a" using d(8) a by auto
    then show ?thesis using d(7) [OF a] by simp
  qed
  then have "map (\<lambda>(s, x). (s, (wd_heap w)[a := b] ! x)) (wd_books w) = map (\<lambda>(s, x). (s, if s = sy then b else wd_heap w ! x)) (wd_books w)"
    by auto
  then show ?thesis using dict_set_mapped [OF a d(1), where f = "\<lambda>x. wd_heap w ! x" and y = b] by (simp add: view_def)
qed

text \<open>
  A submission that runs alone is \<open>reg_submit\<close>, with its effect on the map and its result.
\<close>

lemma solo_submit:
  assumes ok: "shared_ok t w" and idle: "wd_tasks w = []" and clock: "t \<le> expire_clock env" "expire_clock env \<le> rest_clock env"
    and ord: "valid_order ord" "home w (order_id ord) = None"
  shows "\<exists>n w' k'. solo n me env (SubmitStart ord) w = (w', k')
    \<and> reg_submit me env ord (view w) = (view w', map_sum id projl (answer_of k'))"
proof -
  obtain w1 r where g: "wd_get me (order_symbol ord) w = (w1, r)" by fastforce
  note vg = view_wd_get [OF ok g] and w1 = wd_get_ok [OF ok g]
  have free: "\<not> locked a w1" for a using idle w1(5) by (simp add: locked_def)
  consider e where "r = Inl e" | "r = Inr None" | a where "r = Inr (Some a)" by (metis old.sum.exhaust option.exhaust)
  then show ?thesis
  proof cases
    case 1
    then have "solo 1 me env (SubmitStart ord) w = (w1, Done (Raised e))" using g by simp
    moreover have "reg_submit me env ord (view w) = (view w1, map_sum id projl (answer_of (Done (Raised e))))"
      using vg 1 by (simp add: reg_submit_def)
    ultimately show ?thesis by blast
  next
    case 2
    let ?e = "LookupError (''symbol '' @ order_symbol ord @ '' is not simulated'')"
    have "solo 1 me env (SubmitStart ord) w = (w1, Done (Raised ?e))" using g 2 by simp
    moreover have "reg_submit me env ord (view w) = (view w1, map_sum id projl (answer_of (Done (Raised ?e))))"
      using vg 2 by (simp add: reg_submit_def)
    ultimately show ?thesis by blast
  next
    case (3 a)
    let ?sy = "order_symbol ord"
    obtain b ev res where s: "book_submit env ord (wd_heap w1 ! a) = (b, ev, res)" by (metis prod_cases3)
    let ?w2 = "w1\<lparr>wd_heap := (wd_heap w1)[a := b], wd_home := dict_set (wd_home w1) (order_id ord) a\<rparr>"
    let ?k = "Done (case res of Inl e \<Rightarrow> Raised e | Inr m \<Rightarrow> Matched m)"
    have reg: "dict_get (wd_books w1) ?sy = Some a" by (rule w1(7) [OF 3])
    have lt: "a < length (wd_heap w1)" by (rule shared_okD(7) [OF w1(1) reg])
    have two: "solo (Suc (Suc n)) me env (SubmitStart ord) w = solo n me env (Calling a ev ?k) ?w2" for n
      using g 3 free s by (simp add: enter_def note_home_def)
    have "order_id ord \<notin> opens w1 a" using shared_okD(4) [OF w1(1) lt, of "order_id ord"] ord(2) w1(3) by auto
    from shared.submit_effect(1) [OF shared_okD(3) [OF w1(1) lt] clock ord(1) this _ s] shared_okD(8) [OF w1(1) reg]
    have "bk_symbol b = bk_symbol (wd_heap w1 ! a)" by (simp add: shared.effect_def)
    then have sym: "bk_symbol (wd_heap ?w2 ! a) = ?sy" using shared_okD(8) [OF w1(1) reg] lt by simp
    have run: "solo (Suc (Suc (Suc (length ev + 0)))) me env (SubmitStart ord) w = (calls_back ?sy ev ?w2, ?k)"
      unfolding two solo_callbacks [OF sym] by simp
    have "reg_submit me env ord (view w) = on_book ?sy (b, ev, res) (view w1)"
      using vg 3 s by (simp add: reg_submit_def)
    also have "\<dots> = (view (calls_back ?sy ev ?w2), res)"
      by (simp add: on_book_def view_calls_back view_enter [OF w1(1) reg])
    finally have "reg_submit me env ord (view w) = (view (calls_back ?sy ev ?w2), map_sum id projl (answer_of ?k))"
      by (cases res) simp_all
    then show ?thesis using run by blast
  qed
qed

lemma solo_done: "solo n me env (Done r) w = (w, Done r)"
  by (cases n) simp_all

text \<open>A cancel that runs alone is \<open>reg_cancel\<close>.\<close>

lemma solo_cancel:
  assumes ok: "shared_ok t w" and idle: "wd_tasks w = []" and clock: "t \<le> expire_clock env" "expire_clock env \<le> rest_clock env"
  shows "\<exists>n w' k'. solo n me env (CancelStart x) w = (w', k')
    \<and> reg_cancel me (expire_clock env) x (view w) = (view w', map_sum id projr (answer_of k'))"
proof (cases "dict_get (wd_orders w) x")
  case None
  then have "solo 1 me env (CancelStart x) w = (w, Done (NotOpen x))" by simp
  moreover have "reg_cancel me (expire_clock env) x (view w) = (view w, map_sum id projr (answer_of (Done (NotOpen x))))"
    using None by (simp add: reg_cancel_def view_def)
  ultimately show ?thesis by blast
next
  case (Some sy)
  obtain w1 r where g: "wd_get me sy w = (w1, r)" by fastforce
  note vg = view_wd_get [OF ok g] and w1 = wd_get_ok [OF ok g]
  have free: "\<not> locked a w1" for a using idle w1(5) by (simp add: locked_def)
  have m: "dict_get (rg_orders (view w)) x = Some sy" using Some by (simp add: view_def)
  have two: "solo (Suc (Suc n)) me env (CancelStart x) w = solo n me env
      (case r of Inl e \<Rightarrow> Done (Raised e) | Inr None \<Rightarrow> Done (NotOpen x) | Inr (Some a) \<Rightarrow> CancelBook x a) w1" for n
    using Some g by simp
  consider e where "r = Inl e" | "r = Inr None" | a where "r = Inr (Some a)" by (metis old.sum.exhaust option.exhaust)
  then show ?thesis
  proof cases
    case 1
    have "solo (Suc (Suc 0)) me env (CancelStart x) w = (w1, Done (Raised e))" unfolding two 1 by simp
    moreover have "reg_cancel me (expire_clock env) x (view w) = (view w1, map_sum id projr (answer_of (Done (Raised e))))"
      using vg m 1 by (simp add: reg_cancel_def)
    ultimately show ?thesis by blast
  next
    case 2
    have "solo (Suc (Suc 0)) me env (CancelStart x) w = (w1, Done (NotOpen x))" unfolding two 2 by simp
    moreover have "reg_cancel me (expire_clock env) x (view w) = (view w1, map_sum id projr (answer_of (Done (NotOpen x))))"
      using vg m 2 by (simp add: reg_cancel_def)
    ultimately show ?thesis by blast
  next
    case (3 a)
    obtain b ev res where s: "book_cancel (expire_clock env) x (wd_heap w1 ! a) = (b, ev, res)" by (metis prod_cases3)
    have reg: "dict_get (wd_books w1) sy = Some a" by (rule w1(7) [OF 3])
    have lt: "a < length (wd_heap w1)" by (rule shared_okD(7) [OF w1(1) reg])
    note e = shared.cancel_effect [OF shared_okD(3) [OF w1(1) lt] clock(1) s]
    let ?w2 = "w1\<lparr>wd_heap := (wd_heap w1)[a := b], wd_home := wd_home w1\<rparr>"
    let ?w3 = "calls_back sy ev ?w2" and ?q = "case res of Inl e \<Rightarrow> None | Inr oo \<Rightarrow> Some oo"
    let ?w4 = "?w3\<lparr>wd_orders := dict_pop (wd_orders ?w3) x\<rparr>" and ?k = "Done (case ?q of None \<Rightarrow> NotOpen x | Some oo \<Rightarrow> CanceledOrder oo)"
    have q: "after_cancel x res = CancelPop x ?q" using e(3) by (cases res) auto
    have sym: "bk_symbol (wd_heap ?w2 ! a) = sy"
      using e(1) shared_okD(8) [OF w1(1) reg] lt by (simp add: shared.effect_def)
    have one: "solo (Suc n) me env (CancelBook x a) w1 = solo n me env (Calling a ev (CancelPop x ?q)) ?w2" for n
      using free s q same_home [where w = w1 and h = "(wd_heap w1)[a := b]"] by (simp add: enter_def)
    have "solo (Suc (Suc (Suc (Suc (length ev + 1))))) me env (CancelStart x) w = (?w4, ?k)"
      unfolding two 3 using one [of "Suc (length ev + 1)"] solo_callbacks [OF sym, of ev 1 me env "CancelPop x ?q"] by simp
    moreover have "reg_cancel me (expire_clock env) x (view w) = (view ?w4, map_sum id projr (answer_of ?k))"
    proof -
      have "view ?w3 = fst (on_book sy (b, ev, res) (view w1))"
        unfolding view_calls_back view_enter [OF w1(1) reg] by (simp add: on_book_def)
      moreover have "view ?w4 = view ?w3\<lparr>rg_orders := dict_pop (rg_orders (view ?w3)) x\<rparr>" by (simp add: view_def)
      ultimately show ?thesis using vg m 3 s e(3) by (cases res) (auto simp: reg_cancel_def on_book_def)
    qed
    ultimately show ?thesis by blast
  qed
qed

section \<open>Properties\<close>





end
