(* ===== verification/Wire_Formats.thy ===== *)
theory Wire_Formats
  imports Gateway Backend_Client "HOL-Library.Countable"
begin

text \<open>
  A matcher as the participants' client sees it: the URL table \<open>exchange/urls.py\<close>, the payloads of
  \<open>serializers.py\<close> and the JSON responses of \<open>views.py\<close>, composed with the endpoints of
  \<open>Matcher_Api\<close> into a wire for the client of \<open>Backend_Client\<close>.

  The text of identifiers and times, the JSON encoder and decoder, percent-decoding, the field
  validation of the REST framework and the endpoints of the other components are arguments
  (\<open>codec\<close>). A path reaches the URL table percent-decoded, without the prefix \<open>/api/v1/\<close>.
\<close>

section \<open>URLs\<close>

datatype endpoint =
    Health | Ready | Discovery | OrderCreate | EventIngest | EventsPending | EventAck string
  | OrderCancel uuid | BookDetail symbol | RecentTrades | SymbolList | TraderList | TraderDetail uuid

record codec =
  cd_uuid :: "uuid \<Rightarrow> string"
  cd_parse_uuid :: "string \<Rightarrow> uuid option"
  cd_isoformat :: "seconds \<Rightarrow> string"
  cd_fields :: "py_value \<Rightarrow> order_request option"
  cd_unquote :: "string \<Rightarrow> string"
  cd_unquote_plus :: "string \<Rightarrow> string"
  cd_dumps :: "py_value \<Rightarrow> string"
  cd_other :: "endpoint \<Rightarrow> string \<Rightarrow> py_value option \<Rightarrow> int \<times> py_value"

text \<open>\<open>prefix<segment>suffix\<close>, where a segment is not empty and holds no slash.\<close>

definition segment_path :: "string \<Rightarrow> string \<Rightarrow> string \<Rightarrow> string option" where
  "segment_path prefix suffix path =
     (case strip_prefix prefix path of
        None \<Rightarrow> None
      | Some rest \<Rightarrow>
          (let seg = takeWhile (\<lambda>c. c \<noteq> CHR ''/'') rest
           in if seg \<noteq> [] \<and> drop (length seg) rest = suffix then Some seg else None))"

definition uuid_path :: "codec \<Rightarrow> string \<Rightarrow> string \<Rightarrow> uuid option" where
  "uuid_path cd prefix path = (case segment_path prefix ''/'' path of None \<Rightarrow> None | Some seg \<Rightarrow> cd_parse_uuid cd seg)"

text \<open>\<open>urlpatterns\<close>, in order; the first pattern that matches wins.\<close>

definition url_patterns :: "codec \<Rightarrow> (string \<Rightarrow> endpoint option) list" where
  "url_patterns cd =
     (let exact = (\<lambda>p e path. if path = p then Some e else None)
      in [exact ''health/'' Health, exact ''ready/'' Ready, exact ''prometheus-sd/'' Discovery,
          exact ''orders/'' OrderCreate, exact ''events/'' EventIngest, exact ''events/pending/'' EventsPending,
          (\<lambda>path. map_option EventAck (segment_path ''events/'' ''/ack/'' path)),
          (\<lambda>path. map_option OrderCancel (uuid_path cd ''orders/'' path)),
          (\<lambda>path. map_option BookDetail (segment_path ''books/'' ''/'' path)),
          exact ''trades/'' RecentTrades, exact ''symbols/'' SymbolList, exact ''traders/'' TraderList,
          (\<lambda>path. map_option TraderDetail (uuid_path cd ''traders/'' path))])"

fun first_match :: "('a \<Rightarrow> 'b option) list \<Rightarrow> 'a \<Rightarrow> 'b option" where
  "first_match [] x = None"
| "first_match (f # fs) x = (case f x of None \<Rightarrow> first_match fs x | Some y \<Rightarrow> Some y)"

definition resolve_url :: "codec \<Rightarrow> string \<Rightarrow> endpoint option" where
  "resolve_url cd path =
     (case strip_prefix ''/api/v1/'' path of None \<Rightarrow> None | Some rest \<Rightarrow> first_match (url_patterns cd) rest)"

section \<open>Payloads\<close>

text \<open>\<open>text.replace("+00:00", "Z")\<close>.\<close>

fun utc_suffix :: "string \<Rightarrow> string" where
  "utc_suffix [] = []"
| "utc_suffix (c # cs) = (if take 6 (c # cs) = ''+00:00'' then CHR ''Z'' # utc_suffix (drop 5 cs) else c # utc_suffix cs)"

definition trade_payload :: "codec \<Rightarrow> trade \<Rightarrow> py_value" where
  "trade_payload cd t =
     PyDict [(''trade_id'', PyStr (cd_uuid cd (trade_id t))), (''symbol'', PyStr (trade_symbol t)),
       (''executed_at'', PyStr (utc_suffix (cd_isoformat cd (executed_at t)))), (''price'', PyInt (trade_price t)),
       (''qty'', PyInt (trade_quantity t)), (''buy_order_id'', PyStr (cd_uuid cd (buy_order_id t))),
       (''sell_order_id'', PyStr (cd_uuid cd (sell_order_id t)))]"

definition match_result_payload :: "codec \<Rightarrow> match_result \<Rightarrow> py_value" where
  "match_result_payload cd m =
     PyDict [(''order_id'', PyStr (cd_uuid cd (result_order_id m))),
       (''trades'', PyList (map (trade_payload cd) (result_trades m))), (''remaining_qty'', PyInt (result_remaining m))]"

definition level_payload :: "book_level \<Rightarrow> py_value" where
  "level_payload l = PyDict [(''price'', PyInt (level_price l)), (''qty'', PyInt (level_quantity l))]"

definition snapshot_payload :: "book_snapshot \<Rightarrow> py_value" where
  "snapshot_payload s =
     PyDict [(''symbol'', PyStr (snap_symbol s)), (''bids'', PyList (map level_payload (snap_bids s))),
       (''asks'', PyList (map level_payload (snap_asks s)))]"

fun reply_payload :: "codec \<Rightarrow> api_reply \<Rightarrow> int \<times> py_value" where
  "reply_payload cd (DetailResponse status detail) = (status, PyDict [(''detail'', PyStr detail)])"
| "reply_payload cd (OrderCreated m) = (201, match_result_payload cd m)"
| "reply_payload cd (OrderCanceled oid status n) =
     (200, PyDict [(''order_id'', PyStr (cd_uuid cd oid)), (''status'', PyStr status), (''canceled_qty'', PyInt n)])"
| "reply_payload cd (BookResponse s) = (200, snapshot_payload s)"
| "reply_payload cd (TradesResponse sy ts) =
     (200, PyDict [(''symbol'', PyStr sy), (''trades'', PyList (map (trade_payload cd) ts))])"

text \<open>The status of an exception that leaves a view.\<close>

fun error_status :: "py_error \<Rightarrow> int" where
  "error_status (ValidationError _) = 400"
| "error_status (NotFound _) = 404"
| "error_status _ = 500"

definition answer_json :: "codec \<Rightarrow> matcher \<times> (py_error + api_reply) \<Rightarrow> matcher \<times> int \<times> py_value" where
  "answer_json cd = (\<lambda>(mt, r). (mt, case r of
     Inl e \<Rightarrow> (error_status e, PyDict [(''detail'', PyStr [])])
   | Inr reply \<Rightarrow> reply_payload cd reply))"

section \<open>Serving a request\<close>

text \<open>A payload that the fields cannot read is invalid like one whose fields are empty.\<close>

definition unreadable :: order_request where
  "unreadable = \<lparr>or_user = [], or_symbol = [], or_side = [], or_price = 0, or_quantity = 0\<rparr>"

definition request_fields :: "codec \<Rightarrow> py_value option \<Rightarrow> order_request" where
  "request_fields cd body = (case body of None \<Rightarrow> unreadable | Some v \<Rightarrow> (case cd_fields cd v of None \<Rightarrow> unreadable | Some r \<Rightarrow> r))"

text \<open>\<open>query_params.get\<close> takes the last value of a name.\<close>

definition query_param :: "codec \<Rightarrow> string \<Rightarrow> string \<Rightarrow> string option" where
  "query_param cd query name = dict_get (rev (query_pairs (cd_unquote_plus cd) query)) name"

definition allowed_methods :: "endpoint \<Rightarrow> string list" where
  "allowed_methods e =
     (case e of OrderCreate \<Rightarrow> [''POST''] | OrderCancel _ \<Rightarrow> [''DELETE''] | EventIngest \<Rightarrow> [''POST'']
      | EventAck _ \<Rightarrow> [''POST''] | TraderList \<Rightarrow> [''GET'', ''POST''] | TraderDetail _ \<Rightarrow> [''GET'', ''PATCH'', ''DELETE'']
      | _ \<Rightarrow> [''GET''])"

definition serve_view :: "codec \<Rightarrow> api_env \<Rightarrow> endpoint \<Rightarrow> string \<Rightarrow> py_value option \<Rightarrow> matcher \<Rightarrow> matcher \<times> int \<times> py_value" where
  "serve_view cd env e query body mt =
     (case e of
        OrderCreate \<Rightarrow> answer_json cd (create_order env (request_fields cd body) mt)
      | OrderCancel oid \<Rightarrow>
          answer_json cd (cancel_order env oid (case query_param cd query ''symbol'' of None \<Rightarrow> [] | Some s \<Rightarrow> s) mt)
      | BookDetail sy \<Rightarrow> answer_json cd (book_detail env sy mt)
      | _ \<Rightarrow> (mt, cd_other cd e query body))"

definition serve_request_url :: "codec \<Rightarrow> api_env \<Rightarrow> string \<Rightarrow> string \<Rightarrow> py_value option \<Rightarrow> matcher \<Rightarrow> matcher \<times> int \<times> py_value" where
  "serve_request_url cd env verb target body mt =
     (case py_partition target (CHR ''?'') of (raw, _, query) \<Rightarrow>
      (case resolve_url cd (cd_unquote cd raw) of
         None \<Rightarrow> (mt, 404, PyDict [])
       | Some e \<Rightarrow>
           if verb \<notin> set (allowed_methods e) then (mt, 405, PyDict [])
           else serve_view cd env e query body mt))"

text \<open>A server behind a base URL: a status from 400 on is an \<open>HTTPError\<close> of \<open>urlopen\<close>.\<close>

definition http_wire ::
  "codec \<Rightarrow> (string \<Rightarrow> py_error + py_value) \<Rightarrow> (string \<Rightarrow> string \<Rightarrow> py_value option \<Rightarrow> 'b \<Rightarrow> 'b \<times> int \<times> py_value) \<Rightarrow> string
    \<Rightarrow> 'b wire" where
  "http_wire cd loads serve base =
     \<lparr>wr_open = (\<lambda>c b.
        case strip_prefix base (cc_url c) of
          None \<Rightarrow> (b, Inl (URLError ''unreachable''))
        | Some target \<Rightarrow>
            (case serve (cc_method c) target (cc_body c) b of
               (b', status, v) \<Rightarrow> (b', if status < 400 then Inr (cd_dumps cd v) else Inl (HTTPError status)))),
      wr_error_body = (\<lambda>_. Inr []), wr_loads = loads, wr_text = (\<lambda>_. []), wr_repr = (\<lambda>_. []),
      wr_float = (\<lambda>_. Inl (ValueError []))\<rparr>"

definition matcher_wire :: "codec \<Rightarrow> (string \<Rightarrow> py_error + py_value) \<Rightarrow> api_env \<Rightarrow> string \<Rightarrow> matcher wire" where
  "matcher_wire cd loads env = http_wire cd loads (serve_request_url cd env)"

section \<open>What the codec promises\<close>

definition url_safe :: "string \<Rightarrow> bool" where
  "url_safe s \<longleftrightarrow> s \<noteq> [] \<and> set s \<inter> set ''/?%&=+#'' = {}"

text \<open>
  JSON round trips, identifiers are read back and are one URL segment, text without escapes decodes to
  itself, and a payload with text and integers in its fields is read as they are, less the white space
  around the texts.
\<close>

definition codec_ok :: "codec \<Rightarrow> (string \<Rightarrow> py_error + py_value) \<Rightarrow> bool" where
  "codec_ok cd loads \<longleftrightarrow> (\<forall>v. loads (cd_dumps cd v) = Inr v)
     \<and> (\<forall>n. cd_parse_uuid cd (cd_uuid cd n) = Some n \<and> url_safe (cd_uuid cd n))
     \<and> (\<forall>s. CHR ''%'' \<notin> set s \<longrightarrow> cd_unquote cd s = s)
     \<and> (\<forall>s. CHR ''%'' \<notin> set s \<longrightarrow> CHR ''+'' \<notin> set s \<longrightarrow> cd_unquote_plus cd s = s)
     \<and> (\<forall>u s d p q. CHR 0x00 \<notin> set u \<union> set s \<longrightarrow>
          cd_fields cd (PyDict [(''user_id'', PyStr u), (''symbol'', PyStr s), (''side'', PyStr d), (''price'', PyInt p), (''qty'', PyInt q)])
            = Some \<lparr>or_user = py_strip u, or_symbol = py_strip s, or_side = d, or_price = p, or_quantity = q\<rparr>)"

lemma codec_okD:
  assumes "codec_ok cd loads"
  shows "loads (cd_dumps cd v) = Inr v" "cd_parse_uuid cd (cd_uuid cd n) = Some n" "url_safe (cd_uuid cd n)"
    "CHR ''%'' \<notin> set s \<Longrightarrow> cd_unquote cd s = s"
    "CHR ''%'' \<notin> set s \<Longrightarrow> CHR ''+'' \<notin> set s \<Longrightarrow> cd_unquote_plus cd s = s"
    "CHR 0x00 \<notin> set u \<union> set t \<Longrightarrow>
      cd_fields cd (PyDict [(''user_id'', PyStr u), (''symbol'', PyStr t), (''side'', PyStr d), (''price'', PyInt p), (''qty'', PyInt q)])
        = Some \<lparr>or_user = py_strip u, or_symbol = py_strip t, or_side = d, or_price = p, or_quantity = q\<rparr>"
  using assms by (simp_all add: codec_ok_def)

section \<open>URLs find their view\<close>

lemma strip_prefix_append [simp]: "strip_prefix p (p @ s) = Some s"
  by (simp add: strip_prefix_def py_startswith_def)

lemma segment_path_found:
  assumes "url_safe seg" "suffix = CHR ''/'' # rest"
  shows "segment_path prefix suffix (prefix @ seg @ suffix) = Some seg"
proof -
  have "takeWhile (\<lambda>c. c \<noteq> CHR ''/'') (seg @ suffix) = seg"
    using assms by (subst takeWhile_append2) (auto simp: url_safe_def)
  then show ?thesis using assms(1) by (simp add: segment_path_def Let_def url_safe_def)
qed

lemma strip_prefix_differs: "length p \<le> length s \<Longrightarrow> take (length p) s \<noteq> p \<Longrightarrow> strip_prefix p s = None"
  by (simp add: strip_prefix_def py_startswith_def)

lemma resolve_order_create: "resolve_url cd ''/api/v1/orders/'' = Some OrderCreate"
  by (simp add: resolve_url_def strip_prefix_def py_startswith_def url_patterns_def Let_def)

lemma resolve_order_cancel:
  assumes "codec_ok cd loads"
  shows "resolve_url cd (''/api/v1/orders/'' @ cd_uuid cd n @ ''/'') = Some (OrderCancel n)"
proof -
  have safe: "url_safe (cd_uuid cd n)" by (rule codec_okD(3) [OF assms])
  have "segment_path ''orders/'' ''/'' (''orders/'' @ cd_uuid cd n @ ''/'') = Some (cd_uuid cd n)"
    by (rule segment_path_found [OF safe refl])
  then have "uuid_path cd ''orders/'' (''orders/'' @ cd_uuid cd n @ ''/'') = Some n"
    by (simp add: uuid_path_def codec_okD(2) [OF assms])
  moreover have "segment_path ''events/'' ''/ack/'' (''orders/'' @ x) = None" for x
    by (simp add: segment_path_def strip_prefix_def py_startswith_def)
  moreover have "strip_prefix ''/api/v1/'' (''/api/v1/orders/'' @ x) = Some (''orders/'' @ x)" for x
    by (simp add: strip_prefix_def py_startswith_def)
  moreover have "''orders/'' @ cd_uuid cd n @ ''/'' \<noteq> ''orders/''" by simp
  ultimately show ?thesis by (simp add: resolve_url_def url_patterns_def Let_def)
qed

lemma resolve_book_detail:
  assumes "url_safe sy"
  shows "resolve_url cd (''/api/v1/books/'' @ sy @ ''/'') = Some (BookDetail sy)"
proof -
  have "segment_path ''books/'' ''/'' (''books/'' @ sy @ ''/'') = Some sy"
    by (rule segment_path_found [OF assms refl])
  moreover have "segment_path ''events/'' ''/ack/'' (''books/'' @ x) = None" "uuid_path cd ''orders/'' (''books/'' @ x) = None" for x
    by (simp_all add: uuid_path_def segment_path_def strip_prefix_def py_startswith_def)
  moreover have "strip_prefix ''/api/v1/'' (''/api/v1/books/'' @ x) = Some (''books/'' @ x)" for x
    by (simp add: strip_prefix_def py_startswith_def)
  ultimately show ?thesis by (simp add: resolve_url_def url_patterns_def Let_def)
qed

lemma partition_none: "c \<notin> set s \<Longrightarrow> py_partition s c = (s, False, [])"
  by (simp add: py_partition_def py_find_None_iff [THEN iffD2])

lemma partition_found: "c \<notin> set s \<Longrightarrow> py_partition (s @ c # t) c = (s, True, t)"
proof -
  assume "c \<notin> set s"
  then have "py_find (s @ c # t) c = Some (length s)" by (induction s) auto
  then show ?thesis by (simp add: py_partition_def)
qed

section \<open>Requests over the wire\<close>

lemma http_request:
  assumes "codec_ok cd loads" "serve verb path body b = (b', status, v)"
  shows "request (http_wire cd loads serve base) base verb path body b
    = (b', if status < 400 then Inr v else Inl (BackendApiError (Some status) []))"
  using assms(2) codec_okD(1) [OF assms(1)]
  by (simp add: request_def http_wire_def client_error_def)

lemma matcher_request:
  assumes "codec_ok cd loads" "serve_request_url cd env verb path body mt = (mt', status, v)"
  shows "request (matcher_wire cd loads env base) base verb path body mt
    = (mt', if status < 400 then Inr v else Inl (BackendApiError (Some status) []))"
  unfolding matcher_wire_def by (rule http_request [where serve = "serve_request_url cd env"]) (rule assms)+

lemma answered_request:
  assumes "codec_ok cd loads" "serve_request_url cd env verb path body mt = answer_json cd (mt', r)"
  shows "request (matcher_wire cd loads env base) base verb path body mt
    = (mt', case r of Inl e \<Rightarrow> Inl (BackendApiError (Some (error_status e)) [])
       | Inr reply \<Rightarrow> (if fst (reply_payload cd reply) < 400 then Inr (snd (reply_payload cd reply))
                     else Inl (BackendApiError (Some (fst (reply_payload cd reply))) [])))"
proof (cases r)
  case (Inl e)
  have "\<not> error_status e < 400" by (cases e rule: error_status.cases) simp_all
  then show ?thesis using matcher_request [OF assms(1), of env verb path body mt] assms(2) Inl by (simp add: answer_json_def)
next
  case (Inr reply)
  then show ?thesis using matcher_request [OF assms(1), of env verb path body mt] assms(2)
    by (cases "reply_payload cd reply") (simp add: answer_json_def)
qed

lemma serve_order:
  assumes "codec_ok cd loads"
  shows "serve_request_url cd env ''POST'' ''/api/v1/orders/'' (Some v) mt
    = answer_json cd (create_order env (request_fields cd (Some v)) mt)"
proof -
  have "py_partition ''/api/v1/orders/'' (CHR ''?'') = (''/api/v1/orders/'', False, [])" by (rule partition_none) simp
  moreover have "cd_unquote cd ''/api/v1/orders/'' = ''/api/v1/orders/''" by (rule codec_okD(4) [OF assms]) simp
  ultimately show ?thesis
    by (simp add: serve_request_url_def resolve_order_create allowed_methods_def serve_view_def)
qed

lemma serve_book:
  assumes "codec_ok cd loads" "url_safe sy"
  shows "serve_request_url cd env ''GET'' (''/api/v1/books/'' @ sy @ ''/'') None mt = answer_json cd (book_detail env sy mt)"
proof -
  have "CHR ''?'' \<notin> set (''/api/v1/books/'' @ sy @ ''/'')" "CHR ''%'' \<notin> set (''/api/v1/books/'' @ sy @ ''/'')"
    using assms(2) by (auto simp: url_safe_def)
  then show ?thesis
    using resolve_book_detail [OF assms(2)] codec_okD(4) [OF assms(1)]
    by (simp add: serve_request_url_def partition_none allowed_methods_def serve_view_def del: append_Cons append.simps)
qed

lemma symbol_query:
  assumes "codec_ok cd loads" "url_safe sy"
  shows "query_pairs (cd_unquote_plus cd) (''symbol='' @ sy) = [(''symbol'', sy)]"
proof -
  have s: "CHR ''&'' \<notin> set (''symbol='' @ sy)" "CHR ''%'' \<notin> set sy" "CHR ''+'' \<notin> set sy" using assms(2) by (auto simp: url_safe_def)
  have name: "py_partition (''symbol'' @ CHR ''='' # sy) (CHR ''='') = (''symbol'', True, sy)" by (rule partition_found) simp
  have u: "cd_unquote_plus cd ''symbol'' = ''symbol''" "cd_unquote_plus cd sy = sy" using codec_okD(5) [OF assms(1)] s by simp_all
  show ?thesis
    using py_split_no_sep_id [OF s(1)] name u by (simp add: query_pairs_def)
qed

lemma serve_cancel:
  assumes "codec_ok cd loads" "url_safe sy"
  shows "serve_request_url cd env ''DELETE'' (''/api/v1/orders/'' @ cd_uuid cd oid @ ''/'' @ ''?symbol='' @ sy) None mt
    = answer_json cd (cancel_order env oid sy mt)"
proof -
  let ?raw = "''/api/v1/orders/'' @ cd_uuid cd oid @ ''/''"
  have safe: "url_safe (cd_uuid cd oid)" by (rule codec_okD(3) [OF assms(1)])
  have q: "CHR ''?'' \<notin> set ?raw" "CHR ''%'' \<notin> set ?raw" using safe by (auto simp: url_safe_def)
  have "py_partition (?raw @ CHR ''?'' # (''symbol='' @ sy)) (CHR ''?'') = (?raw, True, ''symbol='' @ sy)"
    by (rule partition_found [OF q(1)])
  then have part: "py_partition (''/api/v1/orders/'' @ cd_uuid cd oid @ ''/'' @ ''?symbol='' @ sy) (CHR ''?'') = (?raw, True, ''symbol='' @ sy)"
    by simp
  have "query_pairs (cd_unquote_plus cd) (''symbol='' @ sy) = [(''symbol'', sy)]" by (rule symbol_query [OF assms])
  then have "query_param cd (''symbol='' @ sy) ''symbol'' = Some sy" by (simp add: query_param_def)
  then show ?thesis
    using part codec_okD(4) [OF assms(1) q(2)] resolve_order_cancel [OF assms(1), of oid]
    by (simp add: serve_request_url_def allowed_methods_def serve_view_def)
qed

section \<open>The book endpoint\<close>

lemma level_sums_positive:
  "\<forall>x\<in>set xs. 1 \<le> price (oo_order x) \<and> 0 < oo_remaining x \<Longrightarrow> \<forall>p q. dict_get d p = Some q \<longrightarrow> 1 \<le> p \<and> 1 \<le> q \<Longrightarrow>
   dict_ok d \<Longrightarrow> \<forall>(p, q)\<in>set (level_sums d xs). 1 \<le> p \<and> 1 \<le> q"
proof (induction xs arbitrary: d)
  case Nil
  then show ?case by auto
next
  case (Cons x xs)
  let ?p = "price (oo_order x)"
  let ?d = "dict_set d ?p ((case dict_get d ?p of None \<Rightarrow> 0 | Some q \<Rightarrow> q) + oo_remaining x)"
  have "\<forall>p q. dict_get ?d p = Some q \<longrightarrow> 1 \<le> p \<and> 1 \<le> q"
    using Cons.prems(1,2) by (auto simp: dict_simps split: option.split) (smt (verit))+
  then show ?case using Cons.IH [of ?d] Cons.prems(1,3) by (simp add: Let_def dict_ok_set)
qed

lemma ref_snapshot_positive:
  assumes "ref_ok b" "own_orders b" "l \<in> set (snap_bids (ref_snapshot b)) \<union> set (snap_asks (ref_snapshot b))"
  shows "1 \<le> level_price l \<and> 1 \<le> level_quantity l"
proof -
  have "1 \<le> level_price l \<and> 1 \<le> level_quantity l" if "l \<in> set (ref_levels (rb_side b s))" for s
  proof -
    have "\<forall>x\<in>set (rb_side b s). 1 \<le> price (oo_order x) \<and> 0 < oo_remaining x"
      using assms(1,2) by (auto simp: ref_ok_def side_list_ok_def own_orders_def)
    from level_sums_positive [OF this, of "[]"] that show ?thesis by (auto simp: ref_levels_def)
  qed
  from this [of BUY] this [of SELL] show ?thesis using assms(3) by (auto simp: ref_snapshot_def rb_side_def)
qed

lemma wp_return_fun: "wp E (\<lambda>s. (s, Inr x)) Q = Q x"
  by (rule ext) simp

lemma wp_ask_snapshot:
  assumes live: "alive t mt" and now: "t \<le> now" and b: "dict_get (rg_books (mt_registry mt)) sy = Some b"
    and Q: "\<And>mt'. alive now mt' \<Longrightarrow> ref_ok (abs_at now b) \<Longrightarrow> own_orders (abs_at now b) \<Longrightarrow> rb_symbol (abs_at now b) = sy \<Longrightarrow>
      Q (ref_snapshot (abs_at now b)) mt'"
  shows "wp E (ask sy now snapshot_of) Q mt"
proof -
  obtain g' r where g: "on_book sy (ask_book now snapshot_of b) (mt_registry mt) = (g', r)" by force
  note ok = ask_book_ok [OF reg_reach_ok [OF live] now b g]
  obtain b' where b': "book_inv now b'" "abs_book b' = abs_at now b" "r = snapshot_of b'" "dict_get (rg_books g') sy = Some b'"
    using ok(2) by blast
  have ref: "book_ok now b'" "ref_ok (abs_at now b)" "own_orders (abs_at now b)" using b'(1,2) by (simp_all add: book_inv_def)
  have "bk_symbol b' = sy" by (rule registry_okD(4) [OF ok(1) b'(4)])
  then have sym: "rb_symbol (abs_at now b) = sy" using b'(2) [symmetric] by (simp add: abs_book_def abs_sides_def)
  have "snapshot_of b' = Inr (ref_snapshot (abs_book b'))"
    using book_levels_ref [OF ref(1)] by (simp add: snapshot_of_def ref_snapshot_def abs_book_def abs_sides_def)
  moreover have "reg_reach now g'" by (rule reg_reach.look [OF live now b g])
  ultimately show ?thesis
    using Q [of "mt\<lparr>mt_registry := g'\<rparr>"] ref(2,3) sym b'(2,3) g by (simp add: wp_def ask_def on_registry_def b)
qed

lemma book_detail_answered:
  assumes env: "env_ok t env" and live: "alive t mt" and sy: "\<not> blank sy" and run: "book_detail env sy mt = (mt', res)"
  shows "alive (av_clock env) mt'
    \<and> ((\<exists>v. res = Inl (NotFound v))
       \<or> (\<exists>s. res = Inr (BookResponse s) \<and> snap_symbol s = sy
            \<and> (\<forall>l\<in>set (snap_bids s) \<union> set (snap_asks s). 1 \<le> level_price l \<and> 1 \<le> level_quantity l)))"
proof -
  have st: "settings_ok (me_settings (av_matcher env))" "0 \<le> me_max_age (av_matcher env)" and T: "t \<le> av_clock env"
    using env by (auto simp: env_ok_def)
  let ?E = "\<lambda>e mt'. alive (av_clock env) mt' \<and> (\<exists>v. e = NotFound v)"
  let ?Q = "\<lambda>r mt'. alive (av_clock env) mt' \<and> (\<exists>s. r = BookResponse s \<and> snap_symbol s = sy
    \<and> (\<forall>l\<in>set (snap_bids s) \<union> set (snap_asks s). 1 \<le> level_price l \<and> 1 \<le> level_quantity l))"
  let ?body = "\<lambda>found. case found of None \<Rightarrow> (\<lambda>mt. (mt, Inl (NotFound ''symbol was not found'')))
     | Some _ \<Rightarrow> seq_call (ask sy (av_clock env) snapshot_of) (\<lambda>snap mt. (mt, Inr (BookResponse snap)))"
  have "wp ?E (rollover_market_session env) (\<lambda>_. wp ?E (on_registry (reg_get (av_matcher env) sy)) (\<lambda>found. wp ?E (?body found) ?Q)) mt"
  proof (rule wp_rollover [OF live])
    fix mt1 assume live1: "alive t mt1"
    from st(1) show "wp ?E (on_registry (reg_get (av_matcher env) sy)) (\<lambda>found. wp ?E (?body found) ?Q) mt1"
    proof (cases rule: reg_get_other [where g = "mt_registry mt1" and sy = sy])
      case (own g1)
      obtain g' b where g: "reg_get (av_matcher env) sy g1 = (g', Inr (Some b))" "dict_get (rg_books g') sy = Some b"
        using reg_get_owned [OF st(2) own(2)] sy by metis
      have run1: "reg_get (av_matcher env) sy (mt_registry mt1) = (g', Inr (Some b))" using own(1) g(1) by simp
      have live2: "alive t (mt1\<lparr>mt_registry := g'\<rparr>)" using reg_reach.get [OF live1 run1] by simp
      have "wp ?E (ask sy (av_clock env) snapshot_of) (\<lambda>s. ?Q (BookResponse s)) (mt1\<lparr>mt_registry := g'\<rparr>)"
        by (rule wp_ask_snapshot [OF live2 T, of sy b])
          (use g(2) ref_snapshot_positive in \<open>auto simp: ref_snapshot_def\<close>)
      then have "wp ?E (?body (Some b)) ?Q (mt1\<lparr>mt_registry := g'\<rparr>)" by (simp add: wp_return_fun)
      then show ?thesis using run1 by (simp add: wp_def [of _ "on_registry _"] on_registry_def)
    next
      case (other g')
      have "alive (av_clock env) (mt1\<lparr>mt_registry := g'\<rparr>)"
        using reg_reach.wait [OF reg_reach.cache [OF live1] T] other(4) by fastforce
      then show ?thesis using other(1) by (simp add: wp_def on_registry_def)
    qed
  qed
  then have "wp ?E (book_detail env sy) ?Q mt" by (simp add: book_detail_def wp_seq_fun)
  then show ?thesis using run by (cases res) (auto simp: wp_def)
qed

section \<open>Payloads are read back\<close>

lemma level_round_trip: "1 \<le> level_price l \<Longrightarrow> 1 \<le> level_quantity l \<Longrightarrow> level_of (level_payload l) = Inr l"
  by (simp add: level_of_def level_payload_def)

lemma levels_round_trip:
  "\<forall>l\<in>set ls. 1 \<le> level_price l \<and> 1 \<le> level_quantity l \<Longrightarrow> client_book_levels (PyList (map level_payload ls)) = Inr ls"
  using those_ok_map [of ls "\<lambda>l. level_of (level_payload l)" id] level_round_trip
  by (simp add: client_book_levels_def comp_def)

lemma snapshot_round_trip:
  assumes "\<forall>l\<in>set (snap_bids s) \<union> set (snap_asks s). 1 \<le> level_price l \<and> 1 \<le> level_quantity l"
  shows "book_fields repr (snapshot_payload s) = Inr s"
  using assms levels_round_trip [of "snap_bids s"] levels_round_trip [of "snap_asks s"]
  by (simp add: book_fields_def snapshot_payload_def)

text \<open>The request that an intent arrives as.\<close>

definition arrives_as :: "order_intent \<Rightarrow> order_request" where
  "arrives_as i = \<lparr>or_user = py_strip (oi_user i), or_symbol = py_strip (oi_symbol i),
     or_side = (case oi_side i of BUY \<Rightarrow> ''BUY'' | SELL \<Rightarrow> ''SELL''), or_price = oi_price i, or_quantity = oi_quantity i\<rparr>"

lemma intent_round_trip:
  "codec_ok cd loads \<Longrightarrow> CHR 0x00 \<notin> set (oi_user i) \<union> set (oi_symbol i) \<Longrightarrow> request_fields cd (Some (intent_payload i)) = arrives_as i"
  using codec_okD(6) [of cd loads "oi_user i" "oi_symbol i"] by (simp add: request_fields_def intent_payload_def arrives_as_def)

section \<open>Properties\<close>


text \<open>
  C38: a book survives the wire. From any reachable matcher, the client reads exactly the snapshot that
  the endpoint took of the book, level by level, or is told 404 of a symbol that the matcher does not own; the
  client's own checks never refuse a book of the matcher.
\<close>

theorem book_round_trip:
  assumes cd: "codec_ok cd loads" and env: "env_ok t env" and live: "alive t mt" and sy: "url_safe sy" "\<not> blank sy"
    and run: "fetch_book (matcher_wire cd loads env base) base sy mt = (mt', res)"
  shows "alive (av_clock env) mt'
    \<and> (case res of
         Inr s \<Rightarrow> book_detail env sy mt = (mt', Inr (BookResponse s)) \<and> snap_symbol s = sy
       | Inl e \<Rightarrow> e = BackendApiError (Some 404) [] \<and> (\<exists>v. book_detail env sy mt = (mt', Inl (NotFound v))))"
proof -
  obtain mt1 r where b: "book_detail env sy mt = (mt1, r)" by fastforce
  note ans = book_detail_answered [OF env live sy(2) b]
  have "serve_request_url cd env ''GET'' (''/api/v1/books/'' @ sy @ ''/'') None mt = answer_json cd (mt1, r)"
    by (simp only: serve_book [OF cd sy(1)] b)
  note req = answered_request [OF cd this, of base]
  from ans consider v where "r = Inl (NotFound v)" | s where "r = Inr (BookResponse s)" "snap_symbol s = sy"
      "\<forall>l\<in>set (snap_bids s) \<union> set (snap_asks s). 1 \<le> level_price l \<and> 1 \<le> level_quantity l" by blast
  then show ?thesis
  proof cases
    case 1
    then show ?thesis using req run ans b by (auto simp: fetch_book_def seq_call_def)
  next
    case 2
    then show ?thesis using req run ans b snapshot_round_trip [OF 2(3)]
      by (auto simp: fetch_book_def seq_call_def shaped_def)
  qed
qed

text \<open>A cancel over the wire has the status that the endpoint reports.\<close>

lemma cancel_over_wire:
  assumes cd: "codec_ok cd loads" and sy: "url_safe sy" and c: "cancel_order env oid sy mt = (mt', Inr (OrderCanceled i status n))"
    and status: "status \<in> {''CANCELED'', ''ALREADY_CLOSED''}"
  shows "client_cancel_order (matcher_wire cd loads env base) base (cd_uuid cd oid) sy mt = (mt', Inr status)"
proof -
  have "sy \<noteq> []" using sy by (simp add: url_safe_def)
  have "serve_request_url cd env ''DELETE'' (''/api/v1/orders/'' @ cd_uuid cd oid @ ''/'' @ ''?symbol='' @ sy) None mt
      = answer_json cd (mt', Inr (OrderCanceled i status n))"
    by (simp only: serve_cancel [OF cd sy] c)
  note req = answered_request [OF cd this, of base]
  show ?thesis using req \<open>sy \<noteq> []\<close> status
    by (auto simp: client_cancel_order_def seq_call_def shaped_def str_item_def)
qed

section \<open>A concrete codec\<close>

text \<open>JSON texts numbered by an enumeration of the values, and identifiers in decimal.\<close>

instance py_value :: countable
  by countable_datatype

definition demo_text :: "(string \<times> py_value) list \<Rightarrow> string \<Rightarrow> string option" where
  "demo_text d k = (case dict_get d k of Some (PyStr s) \<Rightarrow> Some s | _ \<Rightarrow> None)"

definition demo_number :: "(string \<times> py_value) list \<Rightarrow> string \<Rightarrow> int option" where
  "demo_number d k = (case dict_get d k of Some (PyInt i) \<Rightarrow> Some i | _ \<Rightarrow> None)"

definition demo_fields_of :: "py_value \<Rightarrow> order_request option" where
  "demo_fields_of v =
     (case v of
        PyDict d \<Rightarrow>
          Option.bind (demo_text d ''user_id'') (\<lambda>u. Option.bind (demo_text d ''symbol'') (\<lambda>s.
          Option.bind (demo_text d ''side'') (\<lambda>side. Option.bind (demo_number d ''price'') (\<lambda>p.
          Option.bind (demo_number d ''qty'') (\<lambda>q.
          Some \<lparr>or_user = py_strip u, or_symbol = py_strip s, or_side = side, or_price = p, or_quantity = q\<rparr>)))))
      | _ \<Rightarrow> None)"

definition demo_codec :: codec where
  "demo_codec = \<lparr>cd_uuid = str_nat, cd_parse_uuid = (\<lambda>s. Some (digits_value s)), cd_isoformat = (\<lambda>_. []),
     cd_fields = demo_fields_of, cd_unquote = id, cd_unquote_plus = id, cd_dumps = (\<lambda>v. str_nat (to_nat v)),
     cd_other = (\<lambda>_ _ _. (404, PyNone))\<rparr>"

definition demo_loads :: "string \<Rightarrow> py_error + py_value" where
  "demo_loads s = Inr (from_nat (digits_value s))"

lemma str_nat_safe: "url_safe (str_nat n)"
proof -
  have "c \<notin> set ''/?%&=+#''" if "is_digit c" for c using that by (auto simp: is_digit_def)
  then show ?thesis using str_nat_props [of n] by (auto simp: url_safe_def)
qed

lemma demo_codec_ok: "codec_ok demo_codec demo_loads"
  by (simp add: codec_ok_def demo_codec_def demo_loads_def digits_value_str_nat str_nat_safe demo_fields_of_def demo_text_def demo_number_def)

definition demo_wire_intent :: order_intent where
  "demo_wire_intent = \<lparr>oi_user = ''buyer '', oi_symbol = ''005930'', oi_side = BUY, oi_price = 100, oi_quantity = 3, oi_ttl = Some 5\<rparr>"

lemma demo_arrives: "arrives_as demo_wire_intent = demo_request"
  by code_simp


lemma demo_book_reply: "snd (book_detail demo_api ''005930'' demo_matcher)
  = Inr (BookResponse \<lparr>snap_symbol = ''005930'', snap_bids = [], snap_asks = [\<lparr>level_price = 100, level_quantity = 5\<rparr>]\<rparr>)"
  by code_simp

lemma book_round_trip_witness:
  "\<exists>mt'. fetch_book (matcher_wire demo_codec demo_loads demo_api ''http://m'') ''http://m'' ''005930'' demo_matcher
     = (mt', Inr \<lparr>snap_symbol = ''005930'', snap_bids = [], snap_asks = [\<lparr>level_price = 100, level_quantity = 5\<rparr>]\<rparr>)"
proof -
  obtain mt' r where run: "fetch_book (matcher_wire demo_codec demo_loads demo_api ''http://m'') ''http://m'' ''005930'' demo_matcher = (mt', r)"
    by fastforce
  have sy: "url_safe ''005930''" "\<not> blank ''005930''" by (simp add: url_safe_def, code_simp)
  from book_round_trip [OF demo_codec_ok demo_api_ok demo_matcher_live sy run] run demo_book_reply show ?thesis
    by (auto split: sum.splits)
qed

end
