(* ===== verification/Process_Start.thy ===== *)
theory Process_Start
  imports Runner_Setup Shard_Discovery
begin

text \<open>
  The start of the server processes: the settings that a matcher reads from its environment
  (\<open>backend/config/settings.py\<close>), the start of its application (\<open>backend/exchange/apps.py\<close>), and
  the start of the gateway (\<open>gateway/gateway/__main__.py\<close> and \<open>serve\<close> in \<open>proxy.py\<close>).

  The environment is a partial function, and so are the options of a command line: the texts of
  the options that were given. A \<open>SystemExit\<close> with a text is the left side of the result.
\<close>

section \<open>Settings of a matcher\<close>

definition settings_choice :: "environment \<Rightarrow> string \<Rightarrow> string \<Rightarrow> string list \<Rightarrow> py_error + string" where
  "settings_choice env name dflt choices =
     (let v = or_default (py_strip (getenv env name dflt)) dflt
      in if v \<in> set choices then Inr v
         else Inl (RuntimeError (name @ '' must be one of: '' @ hd choices @ concat (map (\<lambda>c. '', '' @ c) (tl choices)))))"

definition settings_int :: "environment \<Rightarrow> string \<Rightarrow> int \<Rightarrow> int \<Rightarrow> int \<Rightarrow> py_error + int" where
  "settings_int env name dflt minimum maximum =
     (case env name of
        None \<Rightarrow> Inr dflt
      | Some raw \<Rightarrow>
          if blank raw then Inr dflt
          else (case py_int_str raw of
              Inl _ \<Rightarrow> Inl (RuntimeError (name @ '' must be an integer''))
            | Inr v \<Rightarrow>
                if minimum \<le> v \<and> v \<le> maximum then Inr v
                else Inl (RuntimeError (name @ '' must be between '' @ str_int minimum @ '' and '' @ str_int maximum))))"

datatype database_settings =
    Sqlite string
  | Postgresql string string string string string int

record server_settings =
  sv_secret_key :: string
  sv_debug :: bool
  sv_trade_log :: bool
  sv_market_mode :: string
  sv_sim :: sim_settings
  sv_listen_port :: int
  sv_order_max_age :: int
  sv_event_max_age :: int
  sv_allowed_hosts :: "string list"
  sv_database :: database_settings

definition in_quotes :: "string \<Rightarrow> string" where
  "in_quotes s = CHR 0x27 # s @ [CHR 0x27]"

text \<open>The name, user, password, host and port of the database, and the seconds to wait for it.\<close>

definition database_of :: "string \<Rightarrow> environment \<Rightarrow> py_error + database_settings" where
  "database_of base_dir env =
     (let engine = getenv env ''DATABASE_ENGINE'' ''sqlite''
      in if engine = ''postgresql''
         then ebind (py_int_str (getenv env ''POSTGRES_CONNECT_TIMEOUT_SECONDS'' ''3'')) (\<lambda>timeout.
              Inr (Postgresql (getenv env ''POSTGRES_DB'' ''stock_market'') (getenv env ''POSTGRES_USER'' ''stock_market'')
                (getenv env ''POSTGRES_PASSWORD'' []) (getenv env ''POSTGRES_HOST'' ''postgres'')
                (getenv env ''POSTGRES_PORT'' ''5432'') timeout))
         else if engine = ''sqlite'' then Inr (Sqlite (getenv env ''DJANGO_DB_PATH'' (base_dir @ ''/db.sqlite3'')))
         else Inl (RuntimeError (''DATABASE_ENGINE must be '' @ in_quotes ''sqlite'' @ '' or '' @ in_quotes ''postgresql'')))"

definition load_settings :: "string \<Rightarrow> environment \<Rightarrow> py_error + server_settings" where
  "load_settings base_dir env =
     ebind (settings_choice env ''SIMULATION_MARKET_MODE'' ''scheduled'' [''always_open'', ''scheduled'']) (\<lambda>mode.
     ebind (settings_int env ''SIMULATION_SYMBOL_LIMIT'' 10 1 100) (\<lambda>limit.
     ebind (settings_int env ''SIMULATION_SHARD_COUNT'' 1 1 8) (\<lambda>shards.
     ebind (settings_int env ''SIMULATION_SHARD_INDEX'' 0 0 7) (\<lambda>index.
     ebind (settings_int env ''PORT'' 8000 1 65535) (\<lambda>port.
     ebind (settings_int env ''MATCHER_ORDER_MAX_AGE_SECONDS'' 0 0 (24 * 60 * 60)) (\<lambda>order_age.
     ebind (settings_int env ''SIMULATION_EVENT_MAX_AGE_SECONDS'' (72 * 60 * 60) 60 (7 * 24 * 60 * 60)) (\<lambda>event_age.
     ebind (raise_if (shards \<le> index) (RuntimeError ''SIMULATION_SHARD_INDEX must be less than SIMULATION_SHARD_COUNT'')) (\<lambda>_.
     ebind (database_of base_dir env) (\<lambda>database.
     Inr \<lparr>sv_secret_key = getenv env ''DJANGO_SECRET_KEY'' ''unsafe-development-key-change-before-production'',
       sv_debug = (getenv env ''DJANGO_DEBUG'' ''1'' = ''1''),
       sv_trade_log = (getenv env ''TRADE_EXECUTION_LOG_ENABLED'' ''0'' = ''1''),
       sv_market_mode = mode, sv_sim = \<lparr>symbol_limit = limit, shard_count = shards, shard_index = index\<rparr>,
       sv_listen_port = port, sv_order_max_age = order_age, sv_event_max_age = event_age,
       sv_allowed_hosts = csv_items (getenv env ''DJANGO_ALLOWED_HOSTS'' ''localhost,127.0.0.1''),
       sv_database = database\<rparr>)))))))))"

text \<open>\<open>ExchangeConfig.ready\<close>, with the command line of \<open>manage.py\<close> or of the server.\<close>

definition app_ready ::
  "string list \<Rightarrow> sim_settings \<Rightarrow> market_row list option \<Rightarrow> sim_cache \<Rightarrow> sim_cache" where
  "app_ready argv st rows c =
     (if 2 \<le> length argv \<and> argv ! 1 = ''test'' then c else preload_simulated_tickers st rows c)"

text \<open>What the endpoints read of the settings, and the mode of \<open>MarketSession\<close>.\<close>

definition matcher_of :: "server_settings \<Rightarrow> market_row list \<Rightarrow> matcher_env" where
  "matcher_of sv rows = \<lparr>me_settings = sv_sim sv, me_rows = rows, me_max_age = of_int (sv_order_max_age sv)\<rparr>"

section \<open>The gateway\<close>

type_synonym arguments = "string \<Rightarrow> string option"

definition csv_env :: "environment \<Rightarrow> string \<Rightarrow> string list" where
  "csv_env env name = csv_items (py_strip (getenv env name []))"

text \<open>An option of type \<open>int\<close>: \<open>argparse\<close> exits with status 2 when the text is not a number.\<close>

definition int_argument :: "arguments \<Rightarrow> string \<Rightarrow> int \<Rightarrow> py_error + int" where
  "int_argument args name dflt =
     (case args name of
        None \<Rightarrow> Inr dflt
      | Some raw \<Rightarrow> (case py_int_str raw of Inl _ \<Rightarrow> Inl (SystemExit ''2'') | Inr v \<Rightarrow> Inr v))"

definition universe_request :: "string \<Rightarrow> string" where
  "universe_request base = py_rstrip_char base (CHR ''/'') @ ''/api/v1/symbols/?limit=100''"

definition universe_url_of :: "environment \<Rightarrow> string list \<Rightarrow> string \<Rightarrow> int \<Rightarrow> string" where
  "universe_url_of env urls host first_port =
     (let url = py_strip (getenv env ''GATEWAY_UNIVERSE_URL'' [])
      in if url \<noteq> [] then url
         else if urls \<noteq> [] then hd urls
         else ''http://'' @ host @ '':'' @ str_int first_port)"

definition universe_attempts :: nat where
  "universe_attempts = 20"

text \<open>
  \<open>main\<close> up to the server: the bind address and the settings of the request handler.
  \<open>responses\<close> lists what the requests of a URL meet, one after the other.
\<close>

definition start_gateway ::
  "(py_error \<Rightarrow> string) \<Rightarrow> (py_value \<Rightarrow> string) \<Rightarrow> environment \<Rightarrow> arguments
    \<Rightarrow> (string \<Rightarrow> (py_error + py_value) list) \<Rightarrow> py_error + string \<times> gateway_settings" where
  "start_gateway err_text repr env args responses =
     ebind (py_int_str (getenv env ''GATEWAY_PORT'' ''8000'')) (\<lambda>env_port.
     ebind (py_int_str (getenv env ''SIMULATION_SHARD_COUNT'' ''1'')) (\<lambda>env_shards.
     ebind (py_int_str (getenv env ''GATEWAY_FIRST_MATCHER_PORT'' ''8001'')) (\<lambda>env_first.
     ebind (int_argument args ''--port'' env_port) (\<lambda>port.
     ebind (int_argument args ''--shard-count'' env_shards) (\<lambda>shards.
     ebind (int_argument args ''--first-matcher-port'' env_first) (\<lambda>first_port.
     let host = getenv args ''--matcher-host'' (getenv env ''GATEWAY_MATCHER_HOST'' ''127.0.0.1'');
         bind_to = getenv args ''--bind'' (getenv env ''GATEWAY_BIND'' ''0.0.0.0'');
         urls = csv_env env ''GATEWAY_SHARD_URLS'';
         tickers = csv_env env ''GATEWAY_TICKERS''
     in ebind (raise_if (shards < 1) (SystemExit ''SIMULATION_SHARD_COUNT must be at least 1'')) (\<lambda>_.
        ebind (raise_if (urls \<noteq> [] \<and> int (length urls) \<noteq> shards)
            (SystemExit ''GATEWAY_SHARD_URLS must match SIMULATION_SHARD_COUNT'')) (\<lambda>_.
        ebind (if tickers \<noteq> [] then Inr tickers
               else wait_for_tickers err_text repr
                 (take universe_attempts (responses (universe_request (universe_url_of env urls host first_port))))) (\<lambda>tickers.
        Inr (bind_to, \<lparr>gs_tickers = tickers, gs_shards = shards, gs_host = host, gs_first_port = first_port,
          gs_urls = urls, gs_public_port = port\<rparr>))))))))))"

text \<open>\<open>serve\<close>: the state of the handler before the first request.\<close>

definition serve_state :: "gateway_settings \<Rightarrow> 'm \<Rightarrow> 'm proxy" where
  "serve_state gs net = \<lparr>px_metrics = Some (new_metrics (Some (gs_public_port gs))), px_net = net\<rparr>"

section \<open>What the settings guarantee\<close>

lemma settings_int_bounds:
  "settings_int env name dflt lo hi = Inr v \<Longrightarrow> lo \<le> dflt \<Longrightarrow> dflt \<le> hi \<Longrightarrow> lo \<le> v \<and> v \<le> hi"
  by (auto simp: settings_int_def split: option.splits sum.splits if_splits)

lemma load_settings_fields:
  assumes "load_settings base_dir env = Inr sv"
  shows "settings_int env ''SIMULATION_SYMBOL_LIMIT'' 10 1 100 = Inr (symbol_limit (sv_sim sv))"
    and "settings_int env ''SIMULATION_SHARD_COUNT'' 1 1 8 = Inr (shard_count (sv_sim sv))"
    and "settings_int env ''SIMULATION_SHARD_INDEX'' 0 0 7 = Inr (shard_index (sv_sim sv))"
    and "shard_index (sv_sim sv) < shard_count (sv_sim sv)"
    and "settings_int env ''PORT'' 8000 1 65535 = Inr (sv_listen_port sv)"
    and "settings_int env ''MATCHER_ORDER_MAX_AGE_SECONDS'' 0 0 (24 * 60 * 60) = Inr (sv_order_max_age sv)"
    and "settings_int env ''SIMULATION_EVENT_MAX_AGE_SECONDS'' (72 * 60 * 60) 60 (7 * 24 * 60 * 60) = Inr (sv_event_max_age sv)"
  using assms by (auto simp: load_settings_def ebind_eq_Inr_iff raise_if_def split: if_splits)

lemma load_settings_ok:
  assumes "load_settings base_dir env = Inr sv"
  shows "settings_ok (sv_sim sv)" "1 \<le> sv_listen_port sv" "sv_listen_port sv \<le> 65535"
    "0 \<le> sv_order_max_age sv" "60 \<le> sv_event_max_age sv"
proof -
  note f = load_settings_fields [OF assms]
  show "settings_ok (sv_sim sv)"
    using settings_int_bounds [OF f(1)] settings_int_bounds [OF f(2)] settings_int_bounds [OF f(3)] f(4)
    by (simp add: settings_ok_def)
  show "1 \<le> sv_listen_port sv" "sv_listen_port sv \<le> 65535" using settings_int_bounds [OF f(5)] by simp_all
  show "0 \<le> sv_order_max_age sv" using settings_int_bounds [OF f(6)] by simp
  show "60 \<le> sv_event_max_age sv" using settings_int_bounds [OF f(7)] by simp
qed

lemma settings_choice_Inr: "settings_choice env name dflt choices = Inr v \<Longrightarrow> v \<in> set choices"
  by (auto simp: settings_choice_def Let_def split: if_splits)

lemma load_settings_mode:
  assumes "load_settings base_dir env = Inr sv"
  shows "\<exists>m. make_session (sv_market_mode sv) = Inr m"
proof -
  have "settings_choice env ''SIMULATION_MARKET_MODE'' ''scheduled'' [''always_open'', ''scheduled''] = Inr (sv_market_mode sv)"
    using assms by (auto simp: load_settings_def ebind_eq_Inr_iff)
  from settings_choice_Inr [OF this] show ?thesis by (auto simp: make_session_def)
qed

section \<open>One deployment\<close>

text \<open>A universe that is listed within the attempts is read, whatever failed before.\<close>

lemma ticker_attempts_found:
  assumes "\<forall>r\<in>set es. \<exists>e. r = Inl e \<and> retried e" "tickers_from_symbols_payload repr payload = Inr ts"
  shows "ticker_attempts err_text repr lasterr (es @ Inr payload # rest) = Inr ts"
  using assms(1) by (induction es arbitrary: lasterr) (auto simp: assms(2))

lemma start_gateway_fields:
  assumes "start_gateway err_text repr env args responses = Inr (bind_to, gs)"
  obtains env_shards where "py_int_str (getenv env ''SIMULATION_SHARD_COUNT'' ''1'') = Inr env_shards"
    "int_argument args ''--shard-count'' env_shards = Inr (gs_shards gs)"
    "gs_urls gs = [] \<or> int (length (gs_urls gs)) = gs_shards gs"
    "(if csv_env env ''GATEWAY_TICKERS'' \<noteq> [] then Inr (csv_env env ''GATEWAY_TICKERS'')
      else wait_for_tickers err_text repr (take universe_attempts
        (responses (universe_request (universe_url_of env (gs_urls gs) (gs_host gs) (gs_first_port gs)))))) = Inr (gs_tickers gs)"
  using assms by (auto simp: start_gateway_def Let_def ebind_eq_Inr_iff raise_if_eq_Inr_iff split: if_splits)

lemma blank_not_int: "blank raw \<Longrightarrow> py_int_str raw \<noteq> Inr v"
  by (simp add: py_int_str_def blank_def)

lemma int_one: "py_int_str ''1'' = Inr 1"
  by code_simp

lemma same_shard_count:
  assumes "py_int_str (getenv env ''SIMULATION_SHARD_COUNT'' ''1'') = Inr n"
    and "settings_int env' ''SIMULATION_SHARD_COUNT'' 1 1 8 = Inr k"
    and "env' ''SIMULATION_SHARD_COUNT'' = env ''SIMULATION_SHARD_COUNT''"
  shows "n = k"
  using assms
  by (auto simp: settings_int_def getenv_def int_one blank_not_int split: option.splits sum.splits if_splits)

text \<open>C15: the processes of one deployment agree, whatever else their environments hold. Let a gateway start
  on the listing of one freshly started matcher, after any failed attempts, and let every process
  read the same number of shards and the matchers the same symbol limit. Then each matcher has
  settings within their bounds and a supported market mode, the gateway has the matchers' number of
  shards and a URL for each if it has any, and a matcher, once ready, takes the orders for exactly
  those symbols that the gateway's list assigns to the matcher's own shard.\<close>

theorem started_processes_agree:
  assumes rows: "market_unique rows" "tickers_clean rows" "rows \<noteq> []"
    and first: "load_settings dir env = Inr sv"
      "symbol_list icontains names isodate (sv_sim sv) rows [] 100 empty_cache = (c, Inr payload)"
    and listed: "\<And>url. \<exists>es rest. responses url = es @ Inr payload # rest \<and> length es < 20
      \<and> (\<forall>r\<in>set es. \<exists>e. r = Inl e \<and> retried e)"
    and gateway: "start_gateway err_text repr genv args responses = Inr (bind_to, gs)"
      "args ''--shard-count'' = None" "csv_env genv ''GATEWAY_TICKERS'' = []"
      "genv ''SIMULATION_SHARD_COUNT'' = env ''SIMULATION_SHARD_COUNT''"
    and other: "load_settings dir' env' = Inr sv'"
      "env' ''SIMULATION_SHARD_COUNT'' = env ''SIMULATION_SHARD_COUNT''"
      "env' ''SIMULATION_SYMBOL_LIMIT'' = env ''SIMULATION_SYMBOL_LIMIT''"
  shows "settings_ok (me_settings (matcher_of sv' rows)) \<and> 0 \<le> me_max_age (matcher_of sv' rows)
    \<and> (\<exists>m. make_session (sv_market_mode sv') = Inr m)
    \<and> gs_shards gs = shard_count (sv_sim sv')
    \<and> (gs_urls gs = [] \<or> int (length (gs_urls gs)) = gs_shards gs)
    \<and> snd (is_owned_symbol (sv_sim sv') rows sy (app_ready argv (sv_sim sv') (Some rows) empty_cache))
      = Inr (shard_for_ticker (gs_tickers gs) sy (gs_shards gs) = Some (shard_index (sv_sim sv')))"
proof -
  note f = load_settings_fields [OF first(1)] and f' = load_settings_fields [OF other(1)]
  note ok = load_settings_ok [OF first(1)] and ok' = load_settings_ok [OF other(1)]
  have same: "symbol_limit (sv_sim sv') = symbol_limit (sv_sim sv)" "shard_count (sv_sim sv') = shard_count (sv_sim sv)"
    using f(1,2) f'(1,2) other(2,3) by (simp_all add: settings_int_def)
  obtain n where n: "py_int_str (getenv genv ''SIMULATION_SHARD_COUNT'' ''1'') = Inr n"
    "int_argument args ''--shard-count'' n = Inr (gs_shards gs)"
    and urls: "gs_urls gs = [] \<or> int (length (gs_urls gs)) = gs_shards gs"
    and tickers: "(if csv_env genv ''GATEWAY_TICKERS'' \<noteq> [] then Inr (csv_env genv ''GATEWAY_TICKERS'')
      else wait_for_tickers err_text repr (take universe_attempts
        (responses (universe_request (universe_url_of genv (gs_urls gs) (gs_host gs) (gs_first_port gs)))))) = Inr (gs_tickers gs)"
    by (rule start_gateway_fields [OF gateway(1)])
  have shards: "gs_shards gs = shard_count (sv_sim sv)"
    using n gateway(2) same_shard_count [OF n(1) f(2)] gateway(4) by (simp add: int_argument_def)
  let ?ts = "load_tickers (sv_sim sv) rows"
  have payload: "tickers_from_symbols_payload repr payload = Inr ?ts"
    using listed_tickers [OF ok(1) rows first(2)] by simp
  obtain es rest where r: "responses (universe_request (universe_url_of genv (gs_urls gs) (gs_host gs) (gs_first_port gs)))
      = es @ Inr payload # rest" "length es < 20" "\<forall>r\<in>set es. \<exists>e. r = Inl e \<and> retried e"
    using listed by blast
  have cut: "take universe_attempts (es @ Inr payload # rest) = es @ Inr payload # take (19 - length es) rest"
    using r(2) by (simp add: universe_attempts_def take_Cons')
  have "wait_for_tickers err_text repr (take universe_attempts
      (responses (universe_request (universe_url_of genv (gs_urls gs) (gs_host gs) (gs_first_port gs))))) = Inr ?ts"
    unfolding r(1) cut wait_for_tickers_def by (rule ticker_attempts_found [OF r(3) payload])
  with tickers gateway(3) have ts: "gs_tickers gs = ?ts" by simp
  have same_universe: "load_tickers (sv_sim sv') rows = ?ts" unfolding load_tickers_def same(1) ..
  let ?c = "app_ready argv (sv_sim sv') (Some rows) empty_cache"
  have cache: "cache_ok ?c" "\<exists>c'. simulated_tickers (sv_sim sv') rows ?c = (c', ?ts)"
    using load_tickers_distinct [OF rows(1), of "sv_sim sv"]
    by (auto simp: app_ready_def preload_simulated_tickers_def load_simulated_tickers_def simulated_tickers_def
        empty_cache_def cache_ok_def same_universe Let_def split: if_splits)
  then obtain c' where c': "simulated_tickers (sv_sim sv') rows ?c = (c', ?ts)" by blast
  note own = owned_iff_routed [OF ok'(1) rows(1) cache(1) c', of rows sy rows]
  have "is_owned_symbol (sv_sim sv') rows sy ?c = is_owned_symbol (sv_sim sv') rows sy c'"
    using c' simulated_tickers_stable [OF c', of rows] by (simp add: is_owned_symbol_def own_tickers_def)
  moreover have "matcher_shard_for (sv_sim sv') rows sy c' = (c', shard_for_ticker ?ts sy (shard_count (sv_sim sv')))"
    using simulated_tickers_stable [OF c', of rows] by (simp add: matcher_shard_for_def)
  ultimately show ?thesis
    using own ok' load_settings_mode [OF other(1)] urls by (simp add: matcher_of_def shards same(2) ts)
qed

lemma started_processes_agree_witness:
  "\<exists>sv host gs. load_settings [] (\<lambda>_. None) = Inr sv
    \<and> start_gateway (\<lambda>_. []) (\<lambda>_. []) (\<lambda>_. None) (\<lambda>_. None) (\<lambda>_. [Inl (URLError []), Inr demo_listing]) = Inr (host, gs)
    \<and> gs_shards gs = 1
    \<and> snd (is_owned_symbol (sv_sim sv) [demo_row] ''000660'' (app_ready [''manage.py''] (sv_sim sv) (Some [demo_row]) empty_cache))
      = Inr (shard_for_ticker (gs_tickers gs) ''000660'' 1 = Some 0)"
proof -
  have texts: "py_strip ''scheduled'' = ''scheduled''" "py_strip [] = []" "csv_items [] = []"
    "py_int_str ''8000'' = Inr 8000" "py_int_str ''8001'' = Inr 8001" "py_int_str ''1'' = Inr 1"
    by code_simp+
  obtain sv where sv: "load_settings [] (\<lambda>_. None) = Inr sv"
    "sv_sim sv = \<lparr>symbol_limit = 10, shard_count = 1, shard_index = 0\<rparr>"
    by (simp add: load_settings_def settings_choice_def settings_int_def database_of_def getenv_def or_default_def texts Let_def)
  have rs: "settings_ok (sv_sim sv)" by (rule load_settings_ok [OF sv(1)])
  have listing: "tickers_from_symbols_payload (\<lambda>_. []) demo_listing
      = Inr (load_tickers \<lparr>symbol_limit = 10, shard_count = 1, shard_index = 0\<rparr> [demo_row])"
    using listed_tickers [OF _ demo_row_ok demo_listed] rs sv(2) by simp
  let ?args = "\<lambda>_ :: string. None :: string option" and ?r = "\<lambda>_ :: string. [Inl (URLError []), Inr demo_listing]"
  have retry: "retried (URLError [])" by (simp add: retried_def)
  obtain host gs where gs: "start_gateway (\<lambda>_. []) (\<lambda>_. []) (\<lambda>_. None) ?args ?r = Inr (host, gs)"
    by (simp add: start_gateway_def int_argument_def csv_env_def getenv_def texts listing retry universe_attempts_def
        wait_for_tickers_def Let_def)
  have listed: "\<exists>es rest. ?r url = es @ Inr demo_listing # rest \<and> length es < 20 \<and> (\<forall>r\<in>set es. \<exists>e. r = Inl e \<and> retried e)"
    for url by (rule exI [of _ "[Inl (URLError [])]"]) (simp add: retry)
  have no_tickers: "csv_env (\<lambda>_. None) ''GATEWAY_TICKERS'' = []" by (simp add: csv_env_def getenv_def texts)
  note agree = started_processes_agree [OF demo_row_ok sv(1) demo_listed [folded sv(2)] listed gs refl no_tickers refl sv(1) refl refl,
      of "''000660''" "[''manage.py'']"]
  then show ?thesis using sv gs by auto
qed

end
