(* ===== verification/Runner_Main.thy ===== *)
theory Runner_Main
  imports Runner_Setup Runner_Loop
begin

text \<open>
  The runner process: \<open>main\<close> in \<open>participant_runner/__main__.py\<close> from the environment to its
  exit, for a single tick and for the loop, and the text that \<open>metrics.py\<close> exposes.

  The process meets a \<open>launch\<close>: the environment, the options of the command line, what files and
  the operating system answer, and the turns of the loop. The text of a float is an argument. A
  single tick reads the first turn; its two readings of the wall clock are one.
\<close>

section \<open>Metrics\<close>

definition replace_char :: "char \<Rightarrow> string \<Rightarrow> string \<Rightarrow> string" where
  "replace_char c t s = concat (map (\<lambda>x. if x = c then t else [x]) s)"

definition label_value :: "string \<Rightarrow> string" where
  "label_value s =
     replace_char (CHR 0x22) [CHR 0x5C, CHR 0x22]
       (replace_char (CHR 0x0A) [CHR 0x5C, CHR ''n''] (replace_char (CHR 0x5C) [CHR 0x5C, CHR 0x5C] s))"

definition metric_labels :: "string \<Rightarrow> string \<Rightarrow> string" where
  "metric_labels strategy shard =
     ''strategy='' @ [CHR 0x22] @ label_value strategy @ [CHR 0x22] @ '',shard='' @ [CHR 0x22] @ label_value shard @ [CHR 0x22]"

definition metric_head :: "string \<Rightarrow> string \<Rightarrow> string \<Rightarrow> string" where
  "metric_head name help kind =
     ''# HELP '' @ name @ '' '' @ help @ [CHR 0x0A] @ ''# TYPE '' @ name @ '' '' @ kind @ [CHR 0x0A]"

definition metric_sample :: "string \<Rightarrow> string \<Rightarrow> string \<Rightarrow> string" where
  "metric_sample name labels v = name @ ''{'' @ labels @ ''} '' @ v @ [CHR 0x0A]"

definition metric_family :: "string \<Rightarrow> string \<Rightarrow> string \<Rightarrow> string \<Rightarrow> string \<Rightarrow> string" where
  "metric_family labels name help kind v = metric_head name help kind @ metric_sample name labels v"

definition transition_label :: "string \<Rightarrow> string" where
  "transition_label t = '',transition='' @ [CHR 0x22] @ t @ [CHR 0x22]"

definition render_metrics :: "(rat \<Rightarrow> string) \<Rightarrow> string \<Rightarrow> string \<Rightarrow> runner_status \<Rightarrow> string" where
  "render_metrics float_text strategy shard st =
     (let labels = metric_labels strategy shard; ev = rs_events st; counter = ''counter''; gauge = ''gauge''
      in metric_family labels ''runner_http_in_flight'' ''In-flight order and cancel HTTP requests.'' gauge
           (str_int (rs_in_flight st))
         @ metric_family labels ''runner_orders_submitted_total'' ''Orders this runner successfully submitted.'' counter
           (str_int (rs_submitted st))
         @ metric_family labels ''runner_events_received_total'' ''News shock events accepted by the coordinator.'' counter
           (str_int (cs_received ev))
         @ metric_family labels ''runner_events_deduplicated_total''
           ''Duplicate news shock events ignored by the coordinator.'' counter (str_int (cs_deduplicated ev))
         @ metric_family labels ''runner_event_trader_pool_size''
           ''Event-reactive traders registered with the coordinator.'' gauge (str_int (cs_dormant ev))
         @ metric_family labels ''runner_activated_traders_total''
           ''Event-reactive trader activations across accepted events.'' counter (str_int (cs_activated ev))
         @ metric_family labels ''runner_reactions_planned_total'' ''Reaction orders planned by accepted events.'' counter
           (str_int (cs_planned ev))
         @ metric_family labels ''runner_reactions_submitted_total''
           ''Planned reaction orders successfully submitted.'' counter (str_int (cs_submitted ev))
         @ metric_family labels ''runner_reactions_dropped_total''
           ''Planned reaction orders dropped or failed before submission.'' counter (str_int (cs_dropped ev))
         @ metric_family labels ''runner_scheduler_lag_max_seconds''
           ''Maximum observed event reaction scheduler lag.'' gauge (float_text (rat_of_int (cs_lag_max ev) / 1000))
         @ metric_family labels ''runner_market_session_open''
           ''Whether this runner currently considers the market session open.'' gauge
           (str_int (if rs_market_open st then 1 else 0))
         @ metric_head ''runner_market_session_transitions_total''
           ''Market session transitions observed by this runner.'' counter
         @ metric_sample ''runner_market_session_transitions_total'' (labels @ transition_label ''open'') (str_int (rs_opens st))
         @ metric_sample ''runner_market_session_transitions_total'' (labels @ transition_label ''close'')
           (str_int (rs_closes st)))"

text \<open>\<open>do_GET\<close>: the status, and the body of an answer with status 200.\<close>

definition metrics_get :: "string \<Rightarrow> string \<Rightarrow> int \<times> string" where
  "metrics_get page path = (if takeWhile (\<lambda>c. c \<noteq> CHR ''?'') path \<noteq> ''/metrics'' then (404, []) else (200, page))"

definition metrics_labels_of :: "runner_config \<Rightarrow> string \<times> string" where
  "metrics_labels_of config =
     (or_default (py_join (CHR '','') (rf_strategies config)) ''all'',
      case rf_shard config of Some i \<Rightarrow> str_int i | None \<Rightarrow> ''all'')"

text \<open>What a scrape gets from the server of \<open>_start_metrics\<close>; there is none without a port.\<close>

definition metrics_port_of :: "runner_config \<Rightarrow> int option" where
  "metrics_port_of config = (case rf_metrics_port config of None \<Rightarrow> None | Some p \<Rightarrow> if p = 0 then None else Some p)"

definition scrape_runner ::
  "(rat \<Rightarrow> string) \<Rightarrow> runner_config \<Rightarrow> string \<Rightarrow> ('r, 'b) runner \<Rightarrow> (int \<times> string) option" where
  "scrape_runner float_text config path ru =
     (case metrics_port_of config of
        None \<Rightarrow> None
      | Some _ \<Rightarrow>
          (case metrics_labels_of config of (strategy, shard) \<Rightarrow>
             Some (metrics_get (render_metrics float_text strategy shard (runner_status_of ru)) path)))"

section \<open>The process\<close>

record launch =
  la_environment :: environment
  la_scenario :: "string option"
  la_once :: bool
  la_read :: "string \<Rightarrow> py_error + string"
  la_listen :: "string \<Rightarrow> int \<Rightarrow> py_error + unit"
  la_clock :: int
  la_turns :: "turn list"

text \<open>\<open>--once\<close>: one tick in an open market, then the clean-up; the tick is outside the \<open>try\<close>.\<close>

definition run_once ::
  "'r prng \<Rightarrow> (nat list \<Rightarrow> nat list) \<Rightarrow> (int \<Rightarrow> int) \<Rightarrow> market_mode \<Rightarrow> 'b client \<Rightarrow> turn \<Rightarrow> ('r, 'b) runner
    \<Rightarrow> ('r, 'b) runner \<times> (py_error + runner_status)" where
  "run_once G sha seoul mode cl tn ru =
     (case is_open seoul mode (Aware (tn_now tn)) of
        Inl err \<Rightarrow> (ru, Inl err)
      | Inr False \<Rightarrow>
          (case next_open seoul mode (Aware (tn_now tn)) of
             Inl err \<Rightarrow> (ru, Inl err)
           | Inr _ \<Rightarrow> finish cl tn (\<lambda>ru. (ru, Inr ())) ru)
      | Inr True \<Rightarrow>
          (case tick_once G sha cl (tn_clock tn) (set_market_session_open True ru) of
             (ru1, Inl err) \<Rightarrow> (ru1, Inl err)
           | (ru1, Inr _) \<Rightarrow> finish cl tn (cancel_all_open_orders cl (tn_clock tn) (tn_patience tn)) ru1))"

definition start_metrics :: "launch \<Rightarrow> runner_config \<Rightarrow> py_error + unit" where
  "start_metrics la config =
     (case metrics_port_of config of None \<Rightarrow> Inr () | Some port \<Rightarrow> la_listen la (rf_metrics_bind config) port)"

text \<open>
  How the process ends: before there is a runner, with an exit status or an exception, or with the
  runner, an exception or the last status that it logs, which goes with the exit status 0.
  \<open>None\<close> stands for a loop that outlives the turns.
\<close>

datatype ('r, 'b) ending =
    NotStarted 'b "py_error + int"
  | Stopped runner_config "('r, 'b) runner" "py_error + runner_status"

definition run_started ::
  "'r prng \<Rightarrow> (nat list \<Rightarrow> nat list) \<Rightarrow> (int \<Rightarrow> int) \<Rightarrow> launch \<Rightarrow> runner_config \<Rightarrow> 'b client \<Rightarrow> ('r, 'b) runner
    \<Rightarrow> (('r, 'b) runner \<times> (py_error + runner_status)) option" where
  "run_started G sha seoul la config cl ru =
     (case start_metrics la config of
        Inl err \<Rightarrow> Some (ru, Inl err)
      | Inr _ \<Rightarrow>
          (case make_session (rf_market_mode config) of
             Inl err \<Rightarrow> Some (ru, Inl err)
           | Inr mode \<Rightarrow>
               if la_once la
               then (case la_turns la of [] \<Rightarrow> None | tn # _ \<Rightarrow> Some (run_once G sha seoul mode cl tn ru))
               else run_until_stopped G sha seoul mode cl (la_turns la) False ru))"

definition main ::
  "'r prng \<Rightarrow> (nat list \<Rightarrow> nat list) \<Rightarrow> (int \<Rightarrow> int) \<Rightarrow> 'b wire \<Rightarrow> launch \<Rightarrow> 'b \<Rightarrow> ('r, 'b) ending option" where
  "main G sha seoul w la b =
     (case start_runner G w (la_environment la) (la_read la) (la_scenario la) (la_clock la) b of
        (b1, Inl err) \<Rightarrow> Some (NotStarted b1 (if startup_error err then Inr 1 else Inl err))
      | (b1, Inr (config, ru)) \<Rightarrow>
          map_option (\<lambda>(ru1, r). Stopped config ru1 r)
            (run_started G sha seoul la config (single_client w (rf_base_url config)) ru))"

section \<open>Every started runner settles\<close>

lemma from_environment_session:
  assumes "from_environment env = Inr config"
  shows "\<exists>m. make_session (rf_market_mode config) = Inr m"
proof -
  have "env_choice env ''SIMULATION_MARKET_MODE'' ''scheduled'' supported_market_modes = Inr (rf_market_mode config)"
    using assms by (auto simp: from_environment_def Let_def ebind_eq_Inr_iff)
  then have "rf_market_mode config \<in> set supported_market_modes"
    by (auto simp: env_choice_def Let_def split: if_splits)
  then show ?thesis by (auto simp: supported_market_modes_def make_session_def)
qed

lemma run_once_settled:
  assumes "prng_ok G" "client_ok cl" "runner_ok ru" "2 * nat (ru_concurrency ru) \<le> tn_patience tn" "ru_pool ru = []" "ru_outstanding ru = []"
  shows "\<exists>ru' st. run_once G sha seoul mode cl tn ru = (ru', Inr st)
    \<and> run_settled cl (ru_tick ru + (if opens seoul mode tn then 1 else 0)) ru' st"
proof (cases "opens seoul mode tn")
  case True
  let ?ru = "set_market_session_open True ru"
  have ok: "runner_ok ?ru" "ru_tick ?ru = ru_tick ru" "ru_concurrency ?ru = ru_concurrency ru"
    using session_switch_ok [OF assms(3), of True] by (simp_all add: set_market_session_open_def)
  obtain ru1 where t: "tick_once G sha cl (tn_clock tn) ?ru = (ru1, Inr ())" "runner_ok ru1"
    "ru_tick ru1 = ru_tick ru + 1" "ru_concurrency ru1 = ru_concurrency ru"
    using tick_once_counts [OF assms(1,2) ok(1), of sha "tn_clock tn"] ok(2,3) by auto
  have "2 * nat (ru_concurrency ru1) \<le> tn_patience tn" using assms(4) t(4) by simp
  from finish_settled [OF t(2) this, of cl] show ?thesis
    using True t by (simp add: run_once_def is_open_aware)
next
  case False
  have "ru_pending ru = 0" using assms(3,5) by (simp add: runner_ok_def slots_ok_def)
  moreover have "close_pool cl (tn_clock tn) ru = ru" using assms(5) by (simp add: close_pool_def pool_work_def)
  ultimately show ?thesis
    using False assms by (simp add: run_once_def is_open_aware next_open_def localize_def finish_def run_settled_def
        runner_status_of_def Let_def)
qed

definition ticks_of :: "(int \<Rightarrow> int) \<Rightarrow> launch \<Rightarrow> runner_config \<Rightarrow> nat" where
  "ticks_of seoul la config =
     (case make_session (rf_market_mode config) of
        Inl _ \<Rightarrow> 0
      | Inr mode \<Rightarrow> open_turns seoul mode (if la_once la then [(hd (la_turns la))\<lparr>tn_stopped := False, tn_wait_stopped := True\<rparr>]
                                    else la_turns la))"

text \<open>
  The turns of a launch are enough: the single tick has its turn, the loop is told to stop, and
  every deadline leaves each slot of the largest pool two parts.
\<close>

definition launch_ok :: "launch \<Rightarrow> bool" where
  "launch_ok la \<longleftrightarrow> (\<forall>tn\<in>set (la_turns la). 2 * 128 \<le> tn_patience tn)
     \<and> (if la_once la then la_turns la \<noteq> [] else \<exists>tn\<in>set (la_turns la). tn_stopped tn \<or> tn_wait_stopped tn)
     \<and> (\<forall>host port. la_listen la host port = Inr ())"



section \<open>The label text\<close>

definition label_char :: "char \<Rightarrow> string" where
  "label_char c = (if c = CHR 0x5C then [CHR 0x5C, CHR 0x5C] else if c = CHR 0x0A then [CHR 0x5C, CHR ''n'']
     else if c = CHR 0x22 then [CHR 0x5C, CHR 0x22] else [c])"

fun read_label :: "string \<Rightarrow> string" where
  "read_label [] = []"
| "read_label [c] = [c]"
| "read_label (c # d # s) =
     (if c = CHR 0x5C then (if d = CHR ''n'' then CHR 0x0A else d) # read_label s else c # read_label (d # s))"

lemma replace_char_simps [simp]:
  "replace_char c t [] = []"
  "replace_char c t (x # s) = (if x = c then t else [x]) @ replace_char c t s"
  "replace_char c t (s @ s') = replace_char c t s @ replace_char c t s'"
  by (simp_all add: replace_char_def)

lemma label_value_chars: "label_value s = concat (map label_char s)"
  unfolding label_value_def by (induction s) (simp_all add: label_char_def)

text \<open>A reader of the exposition gets the value back, so different values have different labels.\<close>

theorem label_value_read_back: "read_label (label_value s) = s"
  unfolding label_value_chars
proof (induction s)
  case (Cons c s)
  have plain: "read_label (x # t) = x # read_label t" if "x \<noteq> CHR 0x5C" for x t
    using that by (cases t) simp_all
  show ?case using Cons plain [of c] by (simp add: label_char_def)
qed simp

end
