(* ===== verification/Gateway_Server.thy ===== *)
theory Gateway_Server
  imports Gateway_Proxy
begin

text \<open>
  The threads of the gateway: \<open>GatewayHTTPServer\<close> notes when its accept loop takes a connection,
  and the thread of the connection reads this back, runs the handler of \<open>Gateway_Proxy\<close> and ends.
  All threads share the metrics, so a thread is cut at each of its calls of the metrics: the note
  of the accept time, its removal, the wait, the start, the exchange with the matcher, the end.

  A connection is its number in the order of acceptance and carries one request; the
  readings of the clocks come with the steps. Writing the answer to the client is taken to succeed.
\<close>

section \<open>Threads\<close>

datatype 'm stage =
    Accepted
  | Waited "rat option"
  | Ready
  | Working "'m proxy_env" http_request
  | Answered "'m proxy_env" http_request "py_error + http_reply"
  | Done "'m proxy_env" http_request "py_error + http_reply"

record 'm server =
  sr_proxy :: "'m proxy"
  sr_accepted :: "(nat, rat) dict"
  sr_threads :: "'m stage list"

definition new_server :: "int option \<Rightarrow> 'm \<Rightarrow> 'm server" where
  "new_server port net =
     \<lparr>sr_proxy = \<lparr>px_metrics = Some (new_metrics port), px_net = net\<rparr>, sr_accepted = [], sr_threads = []\<rparr>"

text \<open>\<open>process_request\<close> on the accept loop, at the time \<open>t\<close>.\<close>

definition process_request :: "rat \<Rightarrow> 'm server \<Rightarrow> 'm server" where
  "process_request t sr =
     (let sr = (if px_metrics (sr_proxy sr) \<noteq> None
                then sr\<lparr>sr_accepted := dict_set (sr_accepted sr) (length (sr_threads sr)) t\<rparr> else sr)
      in sr\<lparr>sr_threads := sr_threads sr @ [Accepted]\<rparr>)"

text \<open>\<open>process_request_thread\<close>: the removal under the lock, then the wait until the time \<open>t\<close>.\<close>

definition take_accepted :: "nat \<Rightarrow> 'm server \<Rightarrow> 'm server \<times> 'm stage" where
  "take_accepted i sr =
     (if px_metrics (sr_proxy sr) = None then (sr, Ready)
      else (sr\<lparr>sr_accepted := dict_pop (sr_accepted sr) i\<rparr>, Waited (dict_get (sr_accepted sr) i)))"

definition on_proxy :: "('m proxy \<Rightarrow> 'm proxy) \<Rightarrow> 'm server \<Rightarrow> 'm server" where
  "on_proxy f sr = sr\<lparr>sr_proxy := f (sr_proxy sr)\<rparr>"

definition note_wait :: "rat \<Rightarrow> rat option \<Rightarrow> 'm server \<Rightarrow> 'm server" where
  "note_wait t accepted_at sr =
     (case accepted_at of None \<Rightarrow> sr | Some t0 \<Rightarrow> on_proxy (with_metrics (observe_accept_wait (t - t0))) sr)"

text \<open>The beginning of \<open>_proxy\<close>: only a request that is counted has a start and an end.\<close>

definition begin_request :: "'m proxy_env \<Rightarrow> gateway_settings \<Rightarrow> http_request \<Rightarrow> 'm server \<Rightarrow> 'm server \<times> 'm stage" where
  "begin_request env gs rq sr =
     (if px_metrics (sr_proxy sr) \<noteq> None \<and> counted env rq
      then (on_proxy (with_metrics request_started) sr, Working env rq)
      else (case proxy_request env gs rq (sr_proxy sr) of (px, r) \<Rightarrow> (sr\<lparr>sr_proxy := px\<rparr>, Done env rq r)))"

definition thread_step ::
  "gateway_settings \<Rightarrow> 'm proxy_env \<Rightarrow> http_request \<Rightarrow> rat \<Rightarrow> nat \<Rightarrow> 'm server \<Rightarrow> 'm server \<times> 'm stage" where
  "thread_step gs env rq t i sr =
     (case sr_threads sr ! i of
        Accepted \<Rightarrow> take_accepted i sr
      | Waited accepted_at \<Rightarrow> (note_wait t accepted_at sr, Ready)
      | Ready \<Rightarrow> begin_request env gs rq sr
      | Working env rq \<Rightarrow>
          (case handle env gs rq (sr_proxy sr) of (px, r) \<Rightarrow> (sr\<lparr>sr_proxy := px\<rparr>, Answered env rq r))
      | Answered env rq r \<Rightarrow>
          (on_proxy (with_metrics (request_finished (hq_command rq) (reply_status r) (pv_seconds env))) sr, Done env rq r)
      | Done env rq r \<Rightarrow> (sr, Done env rq r))"

datatype 'm event = Accept rat | Step nat "'m proxy_env" http_request rat

fun server_event :: "gateway_settings \<Rightarrow> 'm event \<Rightarrow> 'm server \<Rightarrow> 'm server" where
  "server_event gs (Accept t) sr = process_request t sr"
| "server_event gs (Step i env rq t) sr =
     (if length (sr_threads sr) \<le> i then sr
      else case thread_step gs env rq t i sr of (sr, st) \<Rightarrow> sr\<lparr>sr_threads := (sr_threads sr)[i := st]\<rparr>)"

definition server_run :: "gateway_settings \<Rightarrow> 'm event list \<Rightarrow> 'm server \<Rightarrow> 'm server" where
  "server_run gs evs sr = fold (server_event gs) evs sr"

section \<open>What a thread has done\<close>

fun waiting :: "'m stage \<Rightarrow> bool" where
  "waiting Accepted = True" | "waiting (Waited _) = True" | "waiting _ = False"

fun in_handler :: "'m stage \<Rightarrow> bool" where
  "in_handler (Working _ _) = True" | "in_handler (Answered _ _ _) = True" | "in_handler _ = False"

fun done_as :: "string \<Rightarrow> int \<Rightarrow> 'm stage \<Rightarrow> bool" where
  "done_as verb status (Done env rq r) = counted_as verb status (env, rq, r)" | "done_as verb status _ = False"

definition count_of :: "('a \<Rightarrow> bool) \<Rightarrow> 'a list \<Rightarrow> int" where
  "count_of P xs = int (length (filter P xs))"

lemma count_of_simps [simp]:
  "count_of P [] = 0"
  "count_of P (x # xs) = (if P x then 1 else 0) + count_of P xs"
  "count_of P (xs @ ys) = count_of P xs + count_of P ys"
  by (simp_all add: count_of_def)

lemma count_of_update:
  "i < length xs \<Longrightarrow>
   count_of P (xs[i := x]) = count_of P xs + (if P x then 1 else 0) - (if P (xs ! i) then 1 else 0)"
proof (induction xs arbitrary: i)
  case (Cons y ys)
  then show ?case by (cases i) auto
qed simp

text \<open>
  The calls made so far account for the threads: a call \<open>start\<close> without its end for each handler,
  an end for each request that is done, and a wait for each connection that was taken up.
\<close>

definition accounts :: "metrics_call list \<Rightarrow> 'm stage list \<Rightarrow> bool" where
  "accounts calls ths \<longleftrightarrow>
     calls_with is_started calls - calls_with is_finished calls = count_of in_handler ths
     \<and> (\<forall>verb status. calls_with (answered_with (verb, str_int status)) calls = count_of (done_as verb status) ths)
     \<and> int (length (accept_times calls)) = count_of (\<lambda>st. \<not> waiting st) ths
     \<and> (\<forall>st\<in>set ths. st \<noteq> Waited None)
     \<and> (\<forall>st\<in>set ths. \<forall>env rq r. st = Answered env rq r \<or> st = Working env rq \<longrightarrow> counted env rq)"

definition server_inv :: "gateway_metrics \<Rightarrow> metrics_call list \<Rightarrow> 'm server \<Rightarrow> bool" where
  "server_inv gm calls sr \<longleftrightarrow> px_metrics (sr_proxy sr) = Some (metrics_run calls gm)
     \<and> (\<forall>i. dict_get (sr_accepted sr) i \<noteq> None \<longleftrightarrow> i < length (sr_threads sr) \<and> sr_threads sr ! i = Accepted)
     \<and> accounts calls (sr_threads sr)"

lemma accept_inv:
  assumes "server_inv gm calls sr"
  shows "server_inv gm calls (process_request t sr)"
  using assms by (auto simp: server_inv_def process_request_def accounts_def update_conv nth_append less_Suc_eq Let_def)

lemma accounts_update:
  assumes "accounts calls ths" "i < length ths"
    and "calls_with is_started cs - calls_with is_finished cs
      = (if in_handler st then 1 else 0) - (if in_handler (ths ! i) then 1 else 0)"
    and "\<And>verb status. calls_with (answered_with (verb, str_int status)) cs
      = (if done_as verb status st then 1 else 0) - (if done_as verb status (ths ! i) then 1 else 0)"
    and "int (length (accept_times cs)) = (if waiting st then 0 else 1) - (if waiting (ths ! i) then 0 else 1)"
    and "st \<noteq> Waited None" "\<And>env rq r. st = Answered env rq r \<or> st = Working env rq \<Longrightarrow> counted env rq"
  shows "accounts (calls @ cs) (ths[i := st])"
proof -
  have s: "x \<in> set (ths[i := st]) \<Longrightarrow> x = st \<or> x \<in> set ths" for x
    using set_update_subset_insert by fastforce
  have a: "accept_times (calls @ cs) = accept_times calls @ accept_times cs" by (simp add: accept_times_def)
  show ?thesis unfolding accounts_def
  proof (intro conjI allI ballI impI)
    show "calls_with is_started (calls @ cs) - calls_with is_finished (calls @ cs) = count_of in_handler (ths[i := st])"
      using assms(1-3) by (simp add: accounts_def count_of_update)
    show "calls_with (answered_with (verb, str_int status)) (calls @ cs) = count_of (done_as verb status) (ths[i := st])"
      for verb status using assms(1,2) assms(4) [of verb status] by (simp add: accounts_def count_of_update)
    show "int (length (accept_times (calls @ cs))) = count_of (\<lambda>st. \<not> waiting st) (ths[i := st])"
      using assms(1,2,5) by (simp add: accounts_def a count_of_update)
    show "x \<noteq> Waited None" if "x \<in> set (ths[i := st])" for x
      using s [OF that] assms(1,6) by (auto simp: accounts_def)
    show "counted env rq" if "x \<in> set (ths[i := st])" "x = Answered env rq r \<or> x = Working env rq" for x env rq r
      using s [OF that(1)] that(2) assms(1) assms(7) [of env rq r] by (auto simp: accounts_def)
  qed
qed

text \<open>A step that leaves the accept times alone and makes the calls \<open>cs\<close>.\<close>

lemma step_inv:
  assumes "server_inv gm calls sr" "i < length (sr_threads sr)" "sr_threads sr ! i \<noteq> Accepted" "st \<noteq> Accepted"
    and "px_metrics px = Some (metrics_run (calls @ cs) gm)" "accounts (calls @ cs) ((sr_threads sr)[i := st])"
  shows "server_inv gm (calls @ cs) (sr\<lparr>sr_proxy := px, sr_threads := (sr_threads sr)[i := st]\<rparr>)"
  using assms by (auto simp: server_inv_def nth_list_update)

lemma thread_step_inv:
  assumes inv: "server_inv gm calls sr" and i: "i < length (sr_threads sr)"
    and step: "thread_step gs env rq t i sr = (sr', st)"
  shows "\<exists>calls'. server_inv gm calls' (sr'\<lparr>sr_threads := (sr_threads sr')[i := st]\<rparr>)"
proof -
  have m: "px_metrics (sr_proxy sr) = Some (metrics_run calls gm)" and acc: "accounts calls (sr_threads sr)"
    using inv by (simp_all add: server_inv_def)
  have here: "sr_threads sr ! i \<in> set (sr_threads sr)" using i by simp
  note upd = accounts_update [OF acc i]
  have by_calls: ?thesis
    if "sr' = sr\<lparr>sr_proxy := px\<rparr>" "sr_threads sr ! i \<noteq> Accepted" "st \<noteq> Accepted"
      "px_metrics px = Some (metrics_run (calls @ cs) gm)" "accounts (calls @ cs) ((sr_threads sr)[i := st])" for px cs
    using step_inv [OF inv i that(2-5)] that(1) by auto
  show ?thesis
  proof (cases "sr_threads sr ! i")
    case Accepted
    then obtain t0 where t0: "dict_get (sr_accepted sr) i = Some t0" using inv i by (auto simp: server_inv_def)
    then have s: "sr' = sr\<lparr>sr_accepted := dict_pop (sr_accepted sr) i\<rparr>" "st = Waited (Some t0)"
      using step Accepted m by (auto simp: thread_step_def take_accepted_def)
    have "accounts (calls @ []) ((sr_threads sr)[i := st])"
      by (rule upd) (use Accepted s(2) in \<open>auto simp: accept_times_def\<close>)
    then have "server_inv gm calls (sr'\<lparr>sr_threads := (sr_threads sr')[i := st]\<rparr>)"
      using inv s i by (auto simp: server_inv_def nth_list_update delete_conv)
    then show ?thesis by blast
  next
    case (Waited accepted_at)
    then obtain t0 where t0: "accepted_at = Some t0" using acc here by (cases accepted_at) (auto simp: accounts_def)
    show ?thesis
    proof (rule by_calls [of "with_metrics (observe_accept_wait (t - t0)) (sr_proxy sr)" "[CallAcceptWait (t - t0)]"])
      show "accounts (calls @ [CallAcceptWait (t - t0)]) ((sr_threads sr)[i := st])"
        by (rule upd) (use step Waited t0 in \<open>auto simp: thread_step_def accept_times_def\<close>)
    qed (use step Waited t0 m in \<open>auto simp: thread_step_def note_wait_def on_proxy_def\<close>)
  next
    case Ready
    show ?thesis
    proof (cases "counted env rq")
      case True
      then have s: "sr' = sr\<lparr>sr_proxy := with_metrics request_started (sr_proxy sr)\<rparr>" "st = Working env rq"
        using step Ready m by (auto simp: thread_step_def begin_request_def on_proxy_def)
      have "accounts (calls @ [CallStarted]) ((sr_threads sr)[i := st])"
        by (rule upd) (use s(2) Ready True in \<open>auto simp: accept_times_def\<close>)
      then show ?thesis by (rule by_calls [OF s(1), rotated 3]) (use s(2) Ready m in auto)
    next
      case False
      obtain px r where p: "proxy_request env gs rq (sr_proxy sr) = (px, r)" by fastforce
      then have s: "sr' = sr\<lparr>sr_proxy := px\<rparr>" "st = Done env rq r"
        using step Ready False by (auto simp: thread_step_def begin_request_def)
      have "px_metrics px = Some (metrics_run calls gm)" using proxy_request_metrics [OF p m] False by simp
      moreover have "accounts (calls @ []) ((sr_threads sr)[i := st])"
        by (rule upd) (use s(2) Ready False in \<open>auto simp: counted_as_def accept_times_def\<close>)
      ultimately show ?thesis by (intro by_calls [OF s(1), where cs = "[]"]) (use s(2) Ready in auto)
    qed
  next
    case (Working env' rq')
    obtain px r where h: "handle env' gs rq' (sr_proxy sr) = (px, r)" by fastforce
    then have s: "sr' = sr\<lparr>sr_proxy := px\<rparr>" "st = Answered env' rq' r"
      using step Working by (auto simp: thread_step_def)
    have c: "counted env' rq'" using acc here Working by (auto simp: accounts_def)
    from handle_metrics [OF h] obtain us where us: "px_metrics px = map_option (metrics_run us) (px_metrics (sr_proxy sr))"
      "upstream_calls env' r us" by blast
    have "accept_times us = []" using us(2) by (auto simp: upstream_calls_def accept_times_def)
    then have "accounts (calls @ us) ((sr_threads sr)[i := st])"
      by (intro upd) (use s(2) Working c upstream_calls_uncounted [OF us(2)] in auto)
    then show ?thesis by (intro by_calls [OF s(1), where cs = us]) (use s(2) Working us(1) m in auto)
  next
    case (Answered env' rq' r)
    let ?c = "CallFinished (hq_command rq') (reply_status r) (pv_seconds env')"
    have c: "counted env' rq'" using acc here Answered by (auto simp: accounts_def)
    have s: "sr' = sr\<lparr>sr_proxy := with_metrics (request_finished (hq_command rq') (reply_status r) (pv_seconds env')) (sr_proxy sr)\<rparr>"
      "st = Done env' rq' r" using step Answered by (auto simp: thread_step_def on_proxy_def)
    have "accounts (calls @ [?c]) ((sr_threads sr)[i := st])"
      by (rule upd) (use s(2) Answered c in \<open>auto simp: accept_times_def counted_as_def str_int_inject\<close>)
    then show ?thesis by (intro by_calls [OF s(1), where cs = "[?c]"]) (use s(2) Answered m in auto)
  next
    case (Done env' rq' r)
    then have "sr' = sr" "st = sr_threads sr ! i" using step by (auto simp: thread_step_def)
    then show ?thesis using inv by auto
  qed
qed

lemma server_run_inv:
  "server_inv gm calls sr \<Longrightarrow> \<exists>calls'. server_inv gm calls' (server_run gs evs sr)"
proof (induction evs arbitrary: calls sr)
  case (Cons ev evs)
  have "\<exists>calls'. server_inv gm calls' (server_event gs ev sr)"
  proof (cases ev)
    case (Accept t)
    then show ?thesis using accept_inv [OF Cons.prems] by auto
  next
    case (Step i env rq t)
    show ?thesis
    proof (cases "i < length (sr_threads sr)")
      case True
      obtain sr' st where s: "thread_step gs env rq t i sr = (sr', st)" by fastforce
      from thread_step_inv [OF Cons.prems True s] show ?thesis using Step True s by simp
    next
      case False
      then show ?thesis using Cons.prems Step by auto
    qed
  qed
  then obtain calls' where "server_inv gm calls' (server_event gs ev sr)" by blast
  from Cons.IH [OF this] show ?case by (simp add: server_run_def)
qed (auto simp: server_run_def)


section \<open>A request by itself\<close>

text \<open>A thread whose steps nothing interrupts answers as the handler of \<open>Gateway_Proxy\<close> does.\<close>

theorem solo_request:
  assumes "i < length (sr_threads sr)" "sr_threads sr ! i = Ready" "proxy_request env gs rq (sr_proxy sr) = (px, r)"
  shows "\<exists>n \<le> 3. server_run gs (replicate n (Step i env rq t)) sr
    = sr\<lparr>sr_proxy := px, sr_threads := (sr_threads sr)[i := Done env rq r]\<rparr>"
proof (cases "px_metrics (sr_proxy sr) \<noteq> None \<and> counted env rq")
  case True
  then obtain px1 where h: "handle env gs rq (with_metrics request_started (sr_proxy sr)) = (px1, r)"
    "px = with_metrics (request_finished (hq_command rq) (reply_status r) (pv_seconds env)) px1"
    using assms(3)
    by (auto simp: proxy_request_def counted_def Let_def ebind_def split: sum.splits prod.splits if_splits bool.splits option.splits)
  have "server_run gs (replicate 3 (Step i env rq t)) sr = sr\<lparr>sr_proxy := px, sr_threads := (sr_threads sr)[i := Done env rq r]\<rparr>"
    using assms(1,2) True h
    by (simp add: server_run_def numeral_3_eq_3 thread_step_def begin_request_def on_proxy_def)
  then show ?thesis by blast
next
  case False
  then have "server_run gs (replicate 1 (Step i env rq t)) sr = sr\<lparr>sr_proxy := px, sr_threads := (sr_threads sr)[i := Done env rq r]\<rparr>"
    using assms by (auto simp: server_run_def thread_step_def begin_request_def)
  then show ?thesis by (intro exI [of _ 1]) simp
qed

end
