(* ===== verification/Deployment.thy ===== *)
theory Deployment
  imports Wire_Formats Gateway_Proxy
begin

text \<open>
  A deployment: the matchers behind the gateway of \<open>Gateway_Proxy\<close>, and the participants' client in
  front of it. The matcher of shard \<open>k\<close> listens on the port \<open>k\<close> above the first one and is the
  matcher of \<open>Wire_Formats\<close>; the client's requests go through the request handler.

  The gateway is transparent: for a symbol that the gateway lists, the client gets the answer that
  it gets from the owner itself, and no other matcher takes part.
\<close>

section \<open>The network\<close>

definition json_body :: "(string \<Rightarrow> py_error + py_value) \<Rightarrow> string option \<Rightarrow> py_value option" where
  "json_body loads body =
     (case body of None \<Rightarrow> None | Some s \<Rightarrow> (case loads s of Inl _ \<Rightarrow> None | Inr v \<Rightarrow> Some v))"

definition connect_matchers ::
  "codec \<Rightarrow> (string \<Rightarrow> py_error + py_value) \<Rightarrow> (nat \<Rightarrow> api_env) \<Rightarrow> gateway_settings
    \<Rightarrow> string \<Rightarrow> int \<Rightarrow> upstream_request \<Rightarrow> (matcher list, http_reply) action" where
  "connect_matchers cd loads envs gs host port uq mts =
     (let k = nat (port - gs_first_port gs)
      in if host \<noteq> gs_host gs \<or> port < gs_first_port gs \<or> length mts \<le> k
         then (mts, Inl (OSError ''connection refused''))
         else (case serve_request_url cd (envs k) (uq_command uq) (uq_path uq) (json_body loads (uq_body uq)) (mts ! k) of
                 (mt, status, v) \<Rightarrow> (mts[k := mt], Inr \<lparr>hr_status = status, hr_headers = [], hr_body = cd_dumps cd v\<rparr>)))"

text \<open>
  The request that \<open>urlopen\<close> sends, with the headers that depend on the call, and the gateway
  behind a base URL. A connection that the handler drops is an \<open>OSError\<close>.
\<close>

definition body_text :: "codec \<Rightarrow> py_value option \<Rightarrow> string" where
  "body_text cd payload = (case payload of None \<Rightarrow> [] | Some v \<Rightarrow> cd_dumps cd v)"

definition sent_request :: "codec \<Rightarrow> string \<Rightarrow> client_call \<Rightarrow> http_request" where
  "sent_request cd target c =
     \<lparr>hq_command = cc_method c, hq_target = target,
      hq_headers = (if cc_body c = None then []
                    else [(''Content-Type'', ''application/json''), (''Content-Length'', str_int (int (length (body_text cd (cc_body c)))))]),
      hq_input = body_text cd (cc_body c)\<rparr>"

definition gateway_wire ::
  "codec \<Rightarrow> (string \<Rightarrow> py_error + py_value) \<Rightarrow> matcher list proxy_env \<Rightarrow> gateway_settings \<Rightarrow> string
    \<Rightarrow> matcher list proxy wire" where
  "gateway_wire cd loads pv gs base =
     \<lparr>wr_open = (\<lambda>c px.
        case strip_prefix base (cc_url c) of
          None \<Rightarrow> (px, Inl (URLError ''unreachable''))
        | Some target \<Rightarrow>
            (case proxy_request pv gs (sent_request cd target c) px of
               (px', Inl e) \<Rightarrow> (px', Inl (OSError ''remote end closed connection without response''))
             | (px', Inr reply) \<Rightarrow>
                 (px', if hr_status reply < 400 then Inr (hr_body reply) else Inl (HTTPError (hr_status reply))))),
      wr_error_body = (\<lambda>_. Inr []), wr_loads = loads, wr_text = (\<lambda>_. []), wr_repr = (\<lambda>_. []),
      wr_float = (\<lambda>_. Inl (ValueError []))\<rparr>"

text \<open>
  A deployment of the matchers \<open>mts\<close>: the gateway connects to them, decodes as they do, and has as many
  shards as there are matchers. Identifiers are written in hexadecimal digits, and no JSON text is empty.
\<close>

definition deployed ::
  "codec \<Rightarrow> (string \<Rightarrow> py_error + py_value) \<Rightarrow> (nat \<Rightarrow> api_env) \<Rightarrow> matcher list proxy_env \<Rightarrow> gateway_settings
    \<Rightarrow> nat \<Rightarrow> bool" where
  "deployed cd loads envs pv gs n \<longleftrightarrow> codec_ok cd loads
     \<and> (\<forall>v. cd_dumps cd v \<noteq> []) \<and> (\<forall>i. list_all hex_char (cd_uuid cd i))
     \<and> pv_connect pv = connect_matchers cd loads envs gs
     \<and> gw_loads (pv_gateway pv) = loads \<and> gw_unquote (pv_gateway pv) = cd_unquote_plus cd
     \<and> gs_urls gs = [] \<and> 1 \<le> gs_first_port gs \<and> gs_shards gs = int n \<and> 0 < n"

lemma deployedD:
  assumes "deployed cd loads envs pv gs n"
  shows "codec_ok cd loads" "cd_dumps cd v \<noteq> []" "list_all hex_char (cd_uuid cd i)"
    "pv_connect pv = connect_matchers cd loads envs gs"
    "gw_loads (pv_gateway pv) = loads" "gw_unquote (pv_gateway pv) = cd_unquote_plus cd"
    "gs_urls gs = []" "1 \<le> gs_first_port gs" "gs_shards gs = int n" "0 < n"
  using assms by (simp_all add: deployed_def)

section \<open>One request\<close>

text \<open>What \<open>f\<close> does through the gateway is what \<open>g\<close> does at the matcher \<open>k\<close>.\<close>

definition through ::
  "nat \<Rightarrow> matcher list proxy \<Rightarrow> (matcher list proxy, 'a) action \<Rightarrow> (matcher, 'a) action \<Rightarrow> bool" where
  "through k px f g \<longleftrightarrow> (case (f px, g (px_net px ! k)) of
     ((px', r), (mt', r')) \<Rightarrow> r = r' \<and> px_net px' = (px_net px)[k := mt'])"

lemma through_seq:
  "through k px f g \<Longrightarrow> through k px (seq_call f (\<lambda>x b. (b, h x))) (seq_call g (\<lambda>x b. (b, h x)))"
  by (auto simp: through_def seq_call_def split: prod.splits sum.splits)

lemma sent_content:
  "content_length (sent_request cd target c) = Inr (int (length (body_text cd (cc_body c))))"
proof -
  have "py_int_str ''0'' = Inr 0" "py_lower ''Content-Type'' \<noteq> py_lower ''Content-Length''" by code_simp+
  moreover have "str_int (int n) \<noteq> []" for n by (simp add: str_int_def str_nat_props)
  ultimately show ?thesis
    using py_int_str_int by (auto simp: content_length_def sent_request_def header_get_def body_text_def)
qed

lemma sent_body: "request_body (sent_request cd target c) (int (length (body_text cd (cc_body c)))) = body_text cd (cc_body c)"
  by (simp add: request_body_def sent_request_def)

lemma forwarded:
  assumes d: "deployed cd loads envs pv gs n" and k: "k < n" "length (px_net px) = n"
    and target: "split_target (pv_ipv6 pv) target = Inr (path, query)" "\<not> is_service_discovery_path path"
    and route: "route_request (pv_gateway pv) (gs_tickers gs) (gs_shards gs) verb path query (Some (body_text cd payload))
      = Inr \<lparr>rt_shard = int k, rt_symbol = s, rt_upstream = None\<rparr>"
    and serve: "serve_request_url cd (envs k) verb target payload (px_net px ! k) = (mt', status, v)"
  shows "\<exists>px' reply. handle pv gs (sent_request cd target \<lparr>cc_method = verb, cc_url = url, cc_body = payload\<rparr>) px = (px', Inr reply)
    \<and> px_net px' = (px_net px)[k := mt'] \<and> hr_status reply = status \<and> hr_body reply = cd_dumps cd v"
proof -
  note D = deployedD [OF d]
  let ?rq = "sent_request cd target \<lparr>cc_method = verb, cc_url = url, cc_body = payload\<rparr>"
  have rq: "hq_command ?rq = verb" "hq_target ?rq = target" by (simp_all add: sent_request_def)
  have up: "upstream (pv_ipv6 pv) gs (int k) = Inr (gs_host gs, gs_first_port gs + int k)"
    using D(7,8) by (simp add: upstream_def matcher_listen_port_def)
  have body: "json_body loads (if body_text cd payload = [] then None else Some (body_text cd payload)) = payload"
    using D(2) codec_okD(1) [OF D(1)] by (cases payload) (simp_all add: json_body_def body_text_def)
  have "handle pv gs ?rq px = forward pv \<lparr>rt_shard = int k, rt_symbol = s, rt_upstream = None\<rparr> (gs_host gs) (gs_first_port gs + int k)
      \<lparr>uq_command = verb, uq_path = target, uq_body = (if body_text cd payload = [] then None else Some (body_text cd payload)),
       uq_headers = forwarded_headers (hq_headers ?rq)\<rparr> px"
    using target route up
      sent_content [of cd target "\<lparr>cc_method = verb, cc_url = url, cc_body = payload\<rparr>"]
      sent_body [of cd target "\<lparr>cc_method = verb, cc_url = url, cc_body = payload\<rparr>"]
    by (simp add: handle_def rq upstream_request_path_def)
  then show ?thesis
    using D(4) k serve body by (simp add: forward_def connect_matchers_def)
qed

lemma request_through:
  assumes d: "deployed cd loads envs pv gs n" and k: "k < n" "length (px_net px) = n"
    and target: "split_target (pv_ipv6 pv) target = Inr (path, query)" "\<not> is_service_discovery_path path" "\<not> is_gateway_metrics_path path"
    and route: "route_request (pv_gateway pv) (gs_tickers gs) (gs_shards gs) verb path query (Some (body_text cd payload))
      = Inr \<lparr>rt_shard = int k, rt_symbol = s, rt_upstream = None\<rparr>"
  shows "through k px (request (gateway_wire cd loads pv gs gbase) gbase verb target payload)
    (request (matcher_wire cd loads (envs k) mbase) mbase verb target payload)"
proof -
  let ?rq = "sent_request cd target \<lparr>cc_method = verb, cc_url = gbase @ target, cc_body = payload\<rparr>"
  obtain mt' status v where serve: "serve_request_url cd (envs k) verb target payload (px_net px ! k) = (mt', status, v)"
    by (metis prod.exhaust)
  note h = forwarded [OF d k(1) _ target(1,2) route, where url = "gbase @ target"]
  obtain px' reply where p: "proxy_request pv gs ?rq px = (px', Inr reply)"
    "px_net px' = (px_net px)[k := mt']" "hr_status reply = status" "hr_body reply = cd_dumps cd v"
  proof (cases "px_metrics px")
    case None
    then show thesis using that h [OF k(2) serve] by (auto simp: proxy_request_def)
  next
    case (Some gm)
    have "\<not> (verb = ''GET'' \<and> is_gateway_metrics_path path)" using target(3) by simp
    then have "(if hq_command ?rq = ''GET''
         then ebind (split_target (pv_ipv6 pv) (hq_target ?rq)) (\<lambda>(path, _). Inr (is_gateway_metrics_path path)) else Inr False)
      = Inr False" using target by (simp add: sent_request_def)
    then show thesis
      using that h [of "with_metrics request_started px", simplified, OF k(2) serve] Some
      by (auto simp: proxy_request_def Let_def split: prod.splits)
  qed
  then have "request (gateway_wire cd loads pv gs gbase) gbase verb target payload px
      = (px', if status < 400 then Inr v else Inl (BackendApiError (Some status) []))"
    using codec_okD(1) [OF deployedD(1) [OF d]] by (simp add: request_def gateway_wire_def client_error_def)
  then show ?thesis
    using matcher_request [OF deployedD(1) [OF d] serve, of mbase] p(2) by (simp add: through_def)
qed

section \<open>Routes\<close>

lemma split_target_plain:
  assumes "hd target = CHR ''/''" "target \<noteq> []" "\<not> py_startswith target ''//''"
    and "\<forall>c\<in>set target. 32 < (of_char c :: nat) \<and> c \<noteq> CHR ''#''"
  shows "split_target ipv6 target = (case py_partition target (CHR ''?'') of (path, _, query) \<Rightarrow> Inr (path, query))"
proof -
  obtain rest where t: "target = CHR ''/'' # rest" using assms(1,2) by (cases target) auto
  have beyond: "m \<notin> {9, 10, 13}" if "32 < m" for m :: nat using that by auto
  have "filter (\<lambda>c. (of_char c :: nat) \<notin> {9, 10, 13}) target = target"
    by (rule filter_True) (use assms(4) beyond in blast)
  moreover have "dropWhile (\<lambda>c. (of_char c :: nat) \<le> 32) target = target" using t by simp
  ultimately have clean: "clean_url target = target" by (simp add: clean_url_def)
  have "\<not> ascii_alpha (hd target)" using t by (simp add: ascii_alpha_def)
  then have scheme: "split_scheme target = ([], target)" by (simp add: split_scheme_def split: option.split nat.split)
  have netloc: "split_netloc target = ([], target)" using assms(3) by (simp add: split_netloc_def)
  have "py_partition target (CHR ''#'') = (target, False, [])" using assms(4) by (intro partition_none) auto
  then show ?thesis by (simp add: split_target_def clean scheme netloc)
qed

lemma hex_char_plain: "hex_char c \<Longrightarrow> 32 < (of_char c :: nat) \<and> c \<notin> {CHR ''#'', CHR ''?'', CHR ''/'', CHR 0x0A}"
  by (auto simp: hex_char_def is_digit_def)

lemma digit_hex: "is_digit c \<Longrightarrow> hex_char c"
  by (simp add: hex_char_def)

lemma upper_words: "py_upper ''GET'' = ''GET''" "py_upper ''POST'' = ''POST''" "py_upper ''DELETE'' = ''DELETE''"
  by code_simp+

text \<open>A symbol as the gateway's paths have it.\<close>

definition six_digits :: "symbol \<Rightarrow> bool" where
  "six_digits sy \<longleftrightarrow> length sy = 6 \<and> list_all is_digit sy"

lemma six_digitsD:
  assumes "six_digits sy"
  shows "url_safe sy" "py_strip sy = sy" "sy \<noteq> []" "\<forall>c\<in>set sy. hex_char c"
proof -
  have d: "\<forall>c\<in>set sy. is_digit c" and ne: "sy \<noteq> []" using assms by (auto simp: six_digits_def list_all_iff)
  show "url_safe sy" using d ne by (fastforce simp: url_safe_def is_digit_def)
  show "py_strip sy = sy" by (rule py_strip_nonspace [OF ne]) (use d ne digit_facts(1) in auto)
  show "sy \<noteq> []" "\<forall>c\<in>set sy. hex_char c" using ne d digit_hex by auto
qed

lemma order_route:
  assumes "0 < n" "symbol_from_order_body (gw_repr gw) (gw_loads gw) body = Inr sy" "shard_for_ticker ts sy n = Some i"
  shows "route_request gw ts n ''POST'' ''/api/v1/orders/'' query body = Inr \<lparr>rt_shard = i, rt_symbol = Some sy, rt_upstream = None\<rparr>"
proof -
  have p: "normalized_path ''/api/v1/orders/'' = ''/api/v1/orders/''" by code_simp
  have d: "\<not> default_shard_path ''/api/v1/orders/''" "order_create_path ''/api/v1/orders/''" by code_simp+
  show ?thesis using assms d
    by (simp add: route_request_def Let_def upper_words p route_for_indexed_shard_def symbol_from_request_def)
qed

lemmas path_defs = strip_prefix_def py_startswith_def exact_path_def run_path_def default_shard_path_def event_ack_path_def
  traders_path_def metrics_shard_path_def ready_shard_path_def trades_path_def normalized_path_def

lemma book_route:
  assumes "0 < n" "six_digits sy" "shard_for_ticker ts sy n = Some i"
  shows "route_request gw ts n ''GET'' (''/api/v1/books/'' @ sy @ ''/'') query body
    = Inr \<lparr>rt_shard = i, rt_symbol = Some sy, rt_upstream = None\<rparr>"
proof -
  let ?p = "''/api/v1/books/'' @ sy @ ''/''"
  have p: "normalized_path ?p = ?p" "route_for_indexed_shard ''GET'' ?p n = Inr None" "\<not> default_shard_path ?p"
    by (simp_all add: path_defs route_for_indexed_shard_def Let_def)
  have len: "length sy = 6" "list_all is_digit sy" using assms(2) by (simp_all add: six_digits_def)
  have "book_path ?p = Some sy"
    unfolding book_path_def strip_prefix_append using len by (simp add: path_end_def)
  then show ?thesis using assms(1,3) p
    by (simp add: route_request_def Let_def upper_words symbol_from_request_def del: append.simps append_Cons)
qed

lemma cancel_route:
  assumes "0 < n" "list_all hex_char u" "u \<noteq> []" "shard_for_ticker ts sy n = Some i"
    and "required_query_symbol (gw_unquote gw) query = Inr sy"
  shows "route_request gw ts n ''DELETE'' (''/api/v1/orders/'' @ u @ ''/'') query body
    = Inr \<lparr>rt_shard = i, rt_symbol = Some sy, rt_upstream = None\<rparr>"
proof -
  let ?p = "''/api/v1/orders/'' @ u @ ''/''"
  have p: "normalized_path ?p = ?p" "route_for_indexed_shard ''DELETE'' ?p n = Inr None" "\<not> default_shard_path ?p" "\<not> trades_path ?p"
    by (simp_all add: path_defs route_for_indexed_shard_def Let_def)
  have no_slash: "\<not> hex_char (CHR ''/'')" by (simp add: hex_char_def is_digit_def)
  have h: "\<And>c. c \<in> set u \<Longrightarrow> hex_char c" using assms(2) by (simp add: list_all_iff)
  have "takeWhile hex_char (u @ ''/'') = u" "dropWhile hex_char (u @ ''/'') = ''/''"
    using h no_slash by (simp_all add: takeWhile_append2 dropWhile_append2)
  then have "run_then_end hex_char (u @ ''/'') = Some u" using assms(3) by (simp add: run_then_end_def path_end_def)
  then have "order_cancel_path ?p"
    unfolding order_cancel_path_def run_path_def strip_prefix_append by simp
  then show ?thesis using assms(1,4,5) p
    by (simp add: route_request_def Let_def upper_words symbol_from_request_def del: append.simps append_Cons)
qed

section \<open>The gateway is transparent\<close>

lemma wire_reprs [simp]:
  "wr_repr (gateway_wire cd loads pv gs base) = (\<lambda>_. [])" "wr_repr (matcher_wire cd loads env base) = (\<lambda>_. [])"
  by (simp_all add: gateway_wire_def matcher_wire_def http_wire_def)

lemma own_paths:
  "\<not> is_service_discovery_path (''/api/v1/orders/'' @ x)" "\<not> is_gateway_metrics_path (''/api/v1/orders/'' @ x)"
  "\<not> is_service_discovery_path (''/api/v1/books/'' @ x)" "\<not> is_gateway_metrics_path (''/api/v1/books/'' @ x)"
  by (simp_all add: is_service_discovery_path_def is_gateway_metrics_path_def service_discovery_path_def
      gateway_metrics_path_def path_defs)

lemma intent_symbol:
  assumes "deployed cd loads envs pv gs n" "py_strip (oi_symbol i) = sy" "sy \<noteq> []"
  shows "symbol_from_order_body repr loads (Some (body_text cd (Some (intent_payload i)))) = Inr sy"
proof -
  have "oi_symbol i \<noteq> []" using assms(2,3) by (auto simp: py_strip_def py_lstrip_def)
  moreover obtain c cs where "cd_dumps cd (intent_payload i) = c # cs"
    using deployedD(2) [OF assms(1), of "intent_payload i"] by (cases "cd_dumps cd (intent_payload i)") auto
  moreover have "loads (cd_dumps cd (intent_payload i)) = Inr (intent_payload i)"
    by (rule codec_okD(1) [OF deployedD(1) [OF assms(1)]])
  ultimately show ?thesis using assms(2,3)
    by (simp add: symbol_from_order_body_def body_text_def intent_payload_def json_get_def Let_def)
qed


text \<open>One matcher behind a gateway.\<close>

definition demo_front :: gateway_settings where
  "demo_front = \<lparr>gs_tickers = [''005930''], gs_shards = 1, gs_host = ''127.0.0.1'', gs_first_port = 8001, gs_urls = [],
     gs_public_port = 8000\<rparr>"

definition demo_proxy_env :: "matcher list proxy_env" where
  "demo_proxy_env = \<lparr>pv_gateway = \<lparr>gw_unquote = id, gw_repr = (\<lambda>_. []), gw_loads = demo_loads\<rparr>, pv_ipv6 = (\<lambda>_. True),
     pv_connect = connect_matchers demo_codec demo_loads (\<lambda>_. demo_api) demo_front, pv_dumps = (\<lambda>_. []),
     pv_render = \<lparr>re_bound = (\<lambda>_. []), re_fixed6 = (\<lambda>_. []), re_fixed3 = (\<lambda>_. []), re_threads = 1, re_queue = (\<lambda>_. None),
       re_cpu = 0, re_rss = None\<rparr>, pv_seconds = 0, pv_upstream_seconds = 0\<rparr>"

definition demo_px :: "matcher list proxy" where
  "demo_px = \<lparr>px_metrics = Some (new_metrics (Some 8000)), px_net = [demo_matcher]\<rparr>"

lemma demo_deployed: "deployed demo_codec demo_loads (\<lambda>_. demo_api) demo_proxy_env demo_front 1"
proof -
  have "list_all hex_char (str_nat i)" for i using str_nat_props(2) [of i] digit_hex by (simp add: list_all_iff)
  then show ?thesis using demo_codec_ok
    by (simp add: deployed_def demo_proxy_env_def demo_front_def) (simp add: demo_codec_def str_nat_props)
qed


end
