(* ===== verification/Event_Wire.thy ===== *)
theory Event_Wire
  imports Wire_Formats Event_Inbox
begin

text \<open>
  The primary backend with both of its parts, the matcher of \<open>Matcher_Api\<close> and the inbox of
  \<open>Event_Inbox\<close>, behind the one URL table of \<open>Wire_Formats\<close>; and the JSON of the responses
  of the three event endpoints of \<open>views.py\<close>.

  The lemmas carry an event from the inbox to the participants' client and its acknowledgement back:
  what the client reads, what it is refused with, and what happens to the row. The text of a time, the
  fields that the serializer reads of a body and percent-decoding are arguments (\<open>event_codec\<close>).
\<close>

section \<open>The primary backend\<close>

record primary =
  pm_matcher :: matcher
  pm_inbox :: inbox

record event_codec =
  ec_codec :: codec
  ec_time :: "int \<Rightarrow> string"
  ec_event :: "py_value \<Rightarrow> market_event option"

text \<open>The settings, the clock that the market session reads and the one of \<open>timezone.now()\<close>.\<close>

record inbox_env =
  iv_seoul :: "int \<Rightarrow> int"
  iv_mode :: market_mode
  iv_max_age :: int
  iv_now :: int
  iv_now2 :: int

definition event_json :: "event_codec \<Rightarrow> market_event \<Rightarrow> py_value" where
  "event_json ec e =
     PyDict [(''event_id'', PyStr (me_id e)), (''symbol'', PyStr (me_symbol e)), (''event_type'', PyStr (me_type e)),
       (''direction'', PyStr (me_direction e)), (''confidence'', PyFloat (me_confidence e)),
       (''impact'', PyStr (me_impact e)),
       (''occurred_at'', case me_occurred e of None \<Rightarrow> PyNone | Some t \<Rightarrow> PyStr (ec_time ec t)),
       (''detected_at'', PyStr (ec_time ec (me_detected e))), (''source'', PyStr (me_source e)),
       (''source_item_id'', PyStr (me_source_item e)), (''headline'', PyStr (me_headline e))]"

fun inbox_reply_json :: "event_codec \<Rightarrow> inbox_reply \<Rightarrow> int \<times> py_value" where
  "inbox_reply_json ec (EventReply code i word st) =
     (code, PyDict
       (if code = 409
        then [(''detail'', PyStr word), (''event_id'', PyStr i), (''state'', PyStr (state_value st))]
        else [(''event_id'', PyStr i), (''status'', PyStr word), (''state'', PyStr (state_value st))]))"
| "inbox_reply_json ec (DetailReply code detail) = (code, PyDict [(''detail'', PyStr detail)])"
| "inbox_reply_json ec (PendingReply opened es) =
     (200, PyDict [(''market_open'', PyBool opened), (''results'', PyList (map (event_json ec) es))])"

definition inbox_json :: "event_codec \<Rightarrow> py_error + inbox_reply \<Rightarrow> int \<times> py_value" where
  "inbox_json ec r =
     (case r of Inl e \<Rightarrow> (error_status e, PyDict [(''detail'', PyStr [])]) | Inr reply \<Rightarrow> inbox_reply_json ec reply)"

definition inbox_view ::
  "event_codec \<Rightarrow> inbox_env \<Rightarrow> endpoint \<Rightarrow> string \<Rightarrow> py_value option \<Rightarrow> (inbox, inbox_reply) action option" where
  "inbox_view ec iv e query body =
     (case e of
        EventIngest \<Rightarrow> Some (case Option.bind body (ec_event ec) of
          None \<Rightarrow> (\<lambda>ib. (ib, Inl (ValidationError ''invalid field'')))
        | Some ev \<Rightarrow> ingest_market_event ev)
      | EventsPending \<Rightarrow> Some (pending_market_events (iv_seoul iv) (iv_mode iv) (iv_max_age iv)
          (case query_param (ec_codec ec) query ''symbols'' of None \<Rightarrow> [] | Some s \<Rightarrow> s) (iv_now iv) (iv_now2 iv))
      | EventAck i \<Rightarrow> Some (acknowledge_market_event i)
      | _ \<Rightarrow> None)"

definition serve_primary ::
  "event_codec \<Rightarrow> api_env \<Rightarrow> inbox_env \<Rightarrow> string \<Rightarrow> string \<Rightarrow> py_value option \<Rightarrow> primary \<Rightarrow> primary \<times> int \<times> py_value" where
  "serve_primary ec env iv verb target body pm =
     (case py_partition target (CHR ''?'') of (raw, _, query) \<Rightarrow>
      (case resolve_url (ec_codec ec) (cd_unquote (ec_codec ec) raw) of
         None \<Rightarrow> (pm, 404, PyDict [])
       | Some e \<Rightarrow>
           if verb \<notin> set (allowed_methods e) then (pm, 405, PyDict [])
           else (case inbox_view ec iv e query body of
              Some view \<Rightarrow> (case view (pm_inbox pm) of (ib, r) \<Rightarrow> (pm\<lparr>pm_inbox := ib\<rparr>, inbox_json ec r))
            | None \<Rightarrow> (case serve_view (ec_codec ec) env e query body (pm_matcher pm) of
                (mt, status, v) \<Rightarrow> (pm\<lparr>pm_matcher := mt\<rparr>, status, v)))))"

definition primary_wire ::
  "event_codec \<Rightarrow> (string \<Rightarrow> py_error + py_value) \<Rightarrow> api_env \<Rightarrow> inbox_env \<Rightarrow> string \<Rightarrow> primary wire" where
  "primary_wire ec loads env iv = http_wire (ec_codec ec) loads (serve_primary ec env iv)"

text \<open>
  Percent-decoding takes back what the client quotes: a quoted segment between text without escapes, and a
  quoted value of the query.
\<close>

definition event_codec_ok :: "event_codec \<Rightarrow> (string \<Rightarrow> py_error + py_value) \<Rightarrow> bool" where
  "event_codec_ok ec loads \<longleftrightarrow> codec_ok (ec_codec ec) loads
     \<and> (\<forall>p s q. CHR ''%'' \<notin> set p \<union> set q \<longrightarrow> cd_unquote (ec_codec ec) (p @ py_quote s @ q) = p @ s @ q)
     \<and> (\<forall>s. cd_unquote_plus (ec_codec ec) (py_quote_plus s) = s)"

lemma event_codec_okD:
  assumes "event_codec_ok ec loads"
  shows "codec_ok (ec_codec ec) loads"
    "CHR ''%'' \<notin> set p \<union> set q \<Longrightarrow> cd_unquote (ec_codec ec) (p @ py_quote s @ q) = p @ s @ q"
    "cd_unquote_plus (ec_codec ec) (py_quote_plus s) = s"
  using assms by (auto simp: event_codec_ok_def)

section \<open>Quoted text\<close>

lemma hex_upper_plain: "d < 16 \<Longrightarrow> hex_upper d \<notin> set ''/?&=+#% ''"
proof -
  have "list_all (\<lambda>d. hex_upper d \<notin> set ''/?&=+#% '') [0..<16]" by code_simp
  then show "d < 16 \<Longrightarrow> ?thesis" by (simp add: list_all_iff)
qed

lemma utf8_bytes_bound: "b \<in> set (utf8_bytes c) \<Longrightarrow> b < 256"
proof -
  have n: "(of_char c :: nat) < 256" by simp
  have "128 + (of_char c :: nat) mod 64 < 256" by (rule less_le_trans [of _ "128 + 64"]) simp_all
  moreover have "(of_char c :: nat) div 64 < 4" by (rule less_mult_imp_div_less) (use n in simp)
  ultimately show "b \<in> set (utf8_bytes c) \<Longrightarrow> b < 256" using n by (auto simp: utf8_bytes_def Let_def split: if_splits)
qed

lemma quote_char_plain: "x \<in> set (quote_char c) \<Longrightarrow> x \<notin> set ''/?&=+# ''"
proof (cases "ascii_alpha c \<or> is_digit c \<or> c \<in> {CHR ''_'', CHR ''.'', CHR ''-'', CHR ''~''}")
  case True
  assume "x \<in> set (quote_char c)"
  then have "x = c" using True by (simp add: quote_char_def)
  moreover have "list_all (\<lambda>c. \<not> (ascii_alpha c \<or> is_digit c \<or> c \<in> {CHR ''_'', CHR ''.'', CHR ''-'', CHR ''~''})) ''/?&=+# ''"
    by code_simp
  ultimately show ?thesis using True unfolding list_all_iff by blast
next
  case False
  assume x: "x \<in> set (quote_char c)"
  have q: "quote_char c = concat (map (\<lambda>b. [CHR ''%'', hex_upper (b div 16), hex_upper (b mod 16)]) (utf8_bytes c))"
    unfolding quote_char_def by (rule if_not_P [OF False])
  obtain b where b: "b \<in> set (utf8_bytes c)" "x \<in> set [CHR ''%'', hex_upper (b div 16), hex_upper (b mod 16)]"
    using x unfolding q set_concat set_map by blast
  have "b div 16 < 16" "b mod 16 < 16" using utf8_bytes_bound [OF b(1)] by (simp_all add: less_mult_imp_div_less)
  then show ?thesis using b(2) hex_upper_plain by auto
qed

lemma py_quote_plain: "set (py_quote s) \<inter> set ''/?&=+# '' = {}"
  using quote_char_plain by (auto simp: py_quote_def simp del: list.set)

lemma py_quote_plus_plain: "set (py_quote_plus s) \<inter> set ''/?&=# '' = {}"
  using quote_char_plain by (auto simp: py_quote_plus_def split: if_splits)

section \<open>URLs of the events\<close>

lemma resolve_pending: "resolve_url cd ''/api/v1/events/pending/'' = Some EventsPending"
  by (simp add: resolve_url_def strip_prefix_def py_startswith_def url_patterns_def Let_def)

lemma not_under_events:
  "uuid_path cd ''orders/'' (''events/'' @ x) = None" "uuid_path cd ''traders/'' (''events/'' @ x) = None"
  "segment_path ''books/'' ''/'' (''events/'' @ x) = None"
  by (simp_all add: uuid_path_def segment_path_def strip_prefix_def py_startswith_def)

lemma ack_path_other: "i @ ''/ack/'' \<noteq> []" "i @ ''/ack/'' \<noteq> ''pending/''"
proof -
  show "i @ ''/ack/'' \<noteq> ''pending/''"
  proof
    assume "i @ ''/ack/'' = ''pending/''"
    from arg_cong [OF this, of rev] show False by simp
  qed
qed simp

lemma segment_path_append:
  "segment_path p suffix (p @ r)
     = (let seg = takeWhile (\<lambda>c. c \<noteq> CHR ''/'') r in if seg \<noteq> [] \<and> drop (length seg) r = suffix then Some seg else None)"
  by (simp add: segment_path_def)

text \<open>An event is found by its URL exactly when its identifier is one path segment.\<close>

lemma ack_segment:
  "segment_path ''events/'' ''/ack/'' (''events/'' @ i @ ''/ack/'')
     = (if i \<noteq> [] \<and> CHR ''/'' \<notin> set i then Some i else None)"
proof (cases "CHR ''/'' \<in> set i")
  case True
  then obtain a b where i: "i = a @ CHR ''/'' # b" "CHR ''/'' \<notin> set a" by (meson split_list_first)
  have "takeWhile (\<lambda>c. c \<noteq> CHR ''/'') (a @ CHR ''/'' # (b @ ''/ack/'')) = takeWhile (\<lambda>c. c \<noteq> CHR ''/'') a"
    by (rule takeWhile_tail) simp
  also have "\<dots> = a" unfolding takeWhile_eq_all_conv using i(2) by blast
  finally have "takeWhile (\<lambda>c. c \<noteq> CHR ''/'') (i @ ''/ack/'') = a" by (simp add: i(1))
  moreover have "drop (length a) (i @ ''/ack/'') = (CHR ''/'' # b) @ ''/ack/''" using i by simp
  moreover have "(CHR ''/'' # b) @ ''/ack/'' \<noteq> ''/ack/''" by (metis append_self_conv2 list.distinct(1))
  ultimately show ?thesis using True by (simp only: segment_path_append Let_def) simp
next
  case False
  then have "takeWhile (\<lambda>c. c \<noteq> CHR ''/'') (i @ ''/ack/'') = i" by (subst takeWhile_append2) auto
  then show ?thesis using False by (simp only: segment_path_append Let_def) simp
qed

lemma resolve_ack:
  "resolve_url cd (''/api/v1/events/'' @ i @ ''/ack/'') = (if i \<noteq> [] \<and> CHR ''/'' \<notin> set i then Some (EventAck i) else None)"
proof -
  have "strip_prefix ''/api/v1/'' (''/api/v1/events/'' @ x) = Some (''events/'' @ x)" for x
    by (simp add: strip_prefix_def py_startswith_def)
  moreover have "''events/'' @ i @ ''/ack/'' \<noteq> ''events/''" "''events/'' @ i @ ''/ack/'' \<noteq> ''events/pending/''"
    using ack_path_other [of i] by simp_all
  ultimately show ?thesis
    using ack_segment [of i] ack_path_other [of i] not_under_events(1,2) [of cd "i @ ''/ack/''"] not_under_events(3) [of "i @ ''/ack/''"]
    by (cases "i \<noteq> [] \<and> CHR ''/'' \<notin> set i") (simp_all add: resolve_url_def url_patterns_def Let_def)
qed

lemma pending_query_pairs:
  assumes "event_codec_ok ec loads"
  shows "query_pairs (cd_unquote_plus (ec_codec ec)) (''symbols='' @ py_quote_plus raw) = [(''symbols'', raw)]"
proof -
  let ?q = "py_quote_plus raw"
  have plain: "CHR ''&'' \<notin> set (''symbols='' @ ?q)" using py_quote_plus_plain [of raw] by auto
  have name: "py_partition (''symbols'' @ CHR ''='' # ?q) (CHR ''='') = (''symbols'', True, ?q)" by (rule partition_found) simp
  have "cd_unquote_plus (ec_codec ec) ''symbols'' = ''symbols''"
    by (rule codec_okD(5) [OF event_codec_okD(1) [OF assms]]) simp_all
  then show ?thesis using py_split_no_sep_id [OF plain] name event_codec_okD(3) [OF assms, of raw] by (simp add: query_pairs_def)
qed

section \<open>The event endpoints over the wire\<close>

lemma serve_pending:
  assumes "event_codec_ok ec loads"
  shows "serve_primary ec env iv ''GET'' (''/api/v1/events/pending/?symbols='' @ py_quote_plus raw) None pm
    = (case pending_market_events (iv_seoul iv) (iv_mode iv) (iv_max_age iv) raw (iv_now iv) (iv_now2 iv) (pm_inbox pm) of
         (ib, r) \<Rightarrow> (pm\<lparr>pm_inbox := ib\<rparr>, inbox_json ec r))"
proof -
  let ?path = "''/api/v1/events/pending/''"
  have "py_partition (?path @ CHR ''?'' # (''symbols='' @ py_quote_plus raw)) (CHR ''?'')
      = (?path, True, ''symbols='' @ py_quote_plus raw)" by (rule partition_found) simp
  moreover have "cd_unquote (ec_codec ec) ?path = ?path" by (rule codec_okD(4) [OF event_codec_okD(1) [OF assms]]) simp
  moreover have "query_param (ec_codec ec) (''symbols='' @ py_quote_plus raw) ''symbols'' = Some raw"
    using pending_query_pairs [OF assms, of raw] by (simp add: query_param_def)
  ultimately show ?thesis
    by (simp add: serve_primary_def resolve_pending allowed_methods_def inbox_view_def)
qed

lemma serve_ack:
  assumes "event_codec_ok ec loads"
  shows "serve_primary ec env iv ''POST'' (''/api/v1/events/'' @ py_quote i @ ''/ack/'') body pm
    = (if i \<noteq> [] \<and> CHR ''/'' \<notin> set i
       then (case acknowledge_market_event i (pm_inbox pm) of (ib, r) \<Rightarrow> (pm\<lparr>pm_inbox := ib\<rparr>, inbox_json ec r))
       else (pm, 404, PyDict []))"
proof -
  let ?path = "''/api/v1/events/'' @ py_quote i @ ''/ack/''"
  have "CHR ''?'' \<notin> set ?path" using py_quote_plain [of i] by auto
  then have "py_partition ?path (CHR ''?'') = (?path, False, [])" by (rule partition_none)
  moreover have "cd_unquote (ec_codec ec) ?path = ''/api/v1/events/'' @ i @ ''/ack/''"
    by (rule event_codec_okD(2) [OF assms]) simp
  ultimately show ?thesis
    using resolve_ack [of "ec_codec ec" i]
    by (simp add: serve_primary_def allowed_methods_def inbox_view_def del: append_Cons append.simps)
qed

lemma primary_request:
  assumes "event_codec_ok ec loads" "serve_primary ec env iv verb path body pm = (pm', status, v)"
  shows "request (primary_wire ec loads env iv base) base verb path body pm
    = (pm', if status < 400 then Inr v else Inl (BackendApiError (Some status) []))"
  unfolding primary_wire_def
  by (rule http_request [where serve = "serve_primary ec env iv"]) (rule event_codec_okD(1) [OF assms(1)], rule assms(2))

section \<open>Rows keep the declared fields\<close>

definition rows_declared :: "inbox \<Rightarrow> bool" where
  "rows_declared ib \<longleftrightarrow> (\<forall>i e. dict_get ib i = Some e \<longrightarrow> declared_fields (market_event.truncate e))"

lemma truncate_state [simp]: "market_event.truncate (e\<lparr>me_state := st\<rparr>) = market_event.truncate e"
  by (simp add: market_event.truncate_def)

lemma request_declared:
  assumes "rows_declared ib" "serve_request seoul mode max_age req ib = (ib', r)"
  shows "rows_declared ib'"
proof (cases req)
  case (Ingest e)
  have "ib' = ib \<or> declared_fields e \<and> ib' = dict_set ib (me_id e) (market_event.extend e \<lparr>me_state = PENDING\<rparr>)"
    using assms(2) Ingest
    by (auto simp: serve_request_def ingest_market_event_def ingest_validate_def split: if_splits option.splits sum.splits)
  moreover have "market_event.truncate (market_event.extend e \<lparr>me_state = PENDING\<rparr>) = e"
    by (simp add: market_event.extend_def market_event.truncate_def)
  ultimately show ?thesis using assms(1) by (auto simp: rows_declared_def dict_simps split: if_splits)
next
  case (Pending raw now now2)
  with assms(2) have "pending_market_events seoul mode max_age raw now now2 ib = (ib', r)" by (simp add: serve_request_def)
  then show ?thesis
  proof (cases rule: pending_cases)
    case (out symbols)
    then show ?thesis using assms(1)
      by (auto simp: rows_declared_def mark_stale_get split: if_splits)
  qed (use assms(1) in simp)
next
  case (Acknowledge i)
  have "ib' = ib \<or> (\<exists>e. dict_get ib i = Some e \<and> ib' = dict_set ib i (e\<lparr>me_state := DISPATCHED\<rparr>))"
    using assms(2) Acknowledge
    by (auto simp: serve_request_def acknowledge_market_event_def split: option.splits event_state.splits)
  then show ?thesis using assms(1) by (auto simp: rows_declared_def dict_simps split: if_splits)
qed

lemma run_declared:
  assumes "rows_declared ib" "inbox_run seoul mode max_age reqs ib = (ib', rs)"
  shows "rows_declared ib'"
  using assms
proof (induction reqs arbitrary: ib rs)
  case (Cons req reqs)
  then show ?case by (auto split: prod.splits dest: request_declared)
qed simp

lemma reachable_inbox:
  assumes "inbox_run seoul mode max_age reqs [] = (ib, rs)"
  shows "inbox_ok ib" "rows_declared ib"
proof -
  have "inbox_ok []" by (simp add: inbox_ok_def)
  from run_spec(1) [OF this assms] show "inbox_ok ib" by (simp add: inbox_le_def)
  have "rows_declared []" by (simp add: rows_declared_def)
  from run_declared [OF this assms] show "rows_declared ib" .
qed

lemma handed_out_declared:
  assumes "inbox_ok ib" "rows_declared ib"
    and "pending_market_events seoul mode max_age raw now now2 ib = (ib', Inr (PendingReply opened es))" "e \<in> set es"
  shows "declared_fields e"
  using assms(3)
proof (cases rule: pending_cases)
  case (out symbols)
  obtain x where x: "e = dispatch_payload x" "x \<in> set (pending_query symbols ib')" using out(4) assms(4) by auto
  have le: "inbox_ok ib'" using mark_stale_le [OF assms(1)] out(3) by (simp add: inbox_le_def)
  have "rows_declared ib'"
    using request_declared [of ib seoul mode max_age "Pending raw now now2"] assms(2,3) by (simp add: serve_request_def)
  then show ?thesis using pending_query_stored [OF le x(2)] x(1) by (auto simp: rows_declared_def dispatch_payload_def)
next
  case none
  then show ?thesis using assms(4) by (cases opened) (auto simp: handed_out_def)
qed

section \<open>What the client reads\<close>

text \<open>The event of the participants' side.\<close>

definition pending_of :: "market_event \<Rightarrow> pending_event" where
  "pending_of e = \<lparr>pe_id = me_id e, pe_symbol = me_symbol e, pe_direction = me_direction e, pe_impact = me_impact e,
     pe_source = me_source e, pe_headline = me_headline e\<rparr>"

lemma event_round_trip:
  assumes "declared_fields e"
  shows "event_of w (event_json ec e) = Inr (pending_of e)"
proof -
  have "event_fields w (event_json ec e) = Inr (pending_of e, me_confidence e)"
    by (simp add: event_fields_def event_json_def str_item_def pending_of_def json_get_def)
  moreover have "valid_pending_event (pending_of e) (me_confidence e)"
    using assms
    by (auto simp: valid_pending_event_def pending_of_def declared_fields_def text_field_def directions_def impacts_def
        py_isdigit_def list_all_iff)
  ultimately show ?thesis by (simp add: event_of_def shaped_def)
qed

lemma fetch_over_wire:
  assumes cd: "event_codec_ok ec loads" and rows: "inbox_ok (pm_inbox pm)" "rows_declared (pm_inbox pm)" and sys: "symbols \<noteq> []"
    and pend: "pending_market_events (iv_seoul iv) (iv_mode iv) (iv_max_age iv) (py_join (CHR '','') symbols)
      (iv_now iv) (iv_now2 iv) (pm_inbox pm) = (ib, r)"
  shows "fetch_pending_market_events (primary_wire ec loads env iv base) base symbols pm
    = (pm\<lparr>pm_inbox := ib\<rparr>, case r of Inr (PendingReply opened es) \<Rightarrow> Inr (map pending_of es)
        | _ \<Rightarrow> Inl (BackendApiError (Some 400) []))"
proof -
  have serve: "serve_primary ec env iv ''GET'' (''/api/v1/events/pending/?symbols='' @ py_quote_plus (py_join (CHR '','') symbols)) None pm
      = (pm\<lparr>pm_inbox := ib\<rparr>, fst (inbox_json ec r), snd (inbox_json ec r))"
    using serve_pending [OF cd, of env iv "py_join (CHR '','') symbols" pm] pend by simp
  have r: "(\<exists>v. r = Inl (ValidationError v)) \<or> (\<exists>opened es. r = Inr (PendingReply opened es))"
    using pend by (auto simp: pending_market_events_def Let_def is_open_def localize_def parse_event_symbols_def split: sum.splits list.splits bool.splits if_splits)
  have items: "those_ok (map (event_of w) (map (event_json ec) es)) = Inr (map pending_of es)"
    if "r = Inr (PendingReply opened es)" for w :: "primary wire" and opened es
    unfolding map_map comp_def
    by (rule those_ok_map) (rule event_round_trip, rule handed_out_declared [OF rows pend [unfolded that]])
  show ?thesis
    using r sys primary_request [OF cd serve, of base] items
    by (auto simp: fetch_pending_market_events_def seq_call_def inbox_json_def results_of_def json_get_def simp del: map_map)
qed

text \<open>
  The acknowledgement, by the row that the identifier names. An identifier that is not one path segment
  names no row: the URL table has no view for it.
\<close>

definition not_acknowledged :: "int \<Rightarrow> primary \<Rightarrow> primary \<times> (py_error + unit)" where
  "not_acknowledged code pm = (pm, Inl (BackendApiError (Some code) []))"

lemma ack_over_wire:
  assumes cd: "event_codec_ok ec loads" and ok: "inbox_ok (pm_inbox pm)"
  shows "client_acknowledge (primary_wire ec loads env iv base) base i pm
    = (if i = [] \<or> CHR ''/'' \<in> set i then not_acknowledged 404 pm
       else case dict_get (pm_inbox pm) i of
         None \<Rightarrow> not_acknowledged 404 pm
       | Some e \<Rightarrow> (case me_state e of
           STALE \<Rightarrow> not_acknowledged 409 pm
         | DISPATCHED \<Rightarrow> (pm, Inr ())
         | PENDING \<Rightarrow> (pm\<lparr>pm_inbox := dict_set (pm_inbox pm) i (e\<lparr>me_state := DISPATCHED\<rparr>)\<rparr>, Inr ())))"
proof -
  note serve = serve_ack [OF cd, of env iv i "Some (PyDict [])" pm]
  show ?thesis
  proof (cases "i = [] \<or> CHR ''/'' \<in> set i")
    case True
    then have "serve_primary ec env iv ''POST'' (''/api/v1/events/'' @ py_quote i @ ''/ack/'') (Some (PyDict [])) pm = (pm, 404, PyDict [])"
      by (subst serve) auto
    from primary_request [OF cd this, of base] True show ?thesis
      by (auto simp: client_acknowledge_def seq_call_def not_acknowledged_def)
  next
    case False
    obtain ib r where a: "acknowledge_market_event i (pm_inbox pm) = (ib, r)" by force
    then have "serve_primary ec env iv ''POST'' (''/api/v1/events/'' @ py_quote i @ ''/ack/'') (Some (PyDict [])) pm
        = (pm\<lparr>pm_inbox := ib\<rparr>, fst (inbox_json ec r), snd (inbox_json ec r))"
      using False by (subst serve) simp
    note req = primary_request [OF cd this, of base]
    show ?thesis
      using False a req
      by (auto simp: client_acknowledge_def seq_call_def acknowledge_market_event_def not_acknowledged_def inbox_json_def json_get_def
          split: option.splits event_state.splits)
  qed
qed

text \<open>The matcher's endpoints are served as by \<open>serve_request_url\<close>, and leave the inbox alone.\<close>

lemma serve_primary_matcher:
  assumes "serve_request_url (ec_codec ec) env verb target body (pm_matcher pm) = (mt, status, v)"
    and "\<And>raw b query e. py_partition target (CHR ''?'') = (raw, b, query) \<Longrightarrow>
      resolve_url (ec_codec ec) (cd_unquote (ec_codec ec) raw) = Some e \<Longrightarrow> inbox_view ec iv e query body = None"
  shows "serve_primary ec env iv verb target body pm = (pm\<lparr>pm_matcher := mt\<rparr>, status, v)"
proof -
  obtain raw b query where part: "py_partition target (CHR ''?'') = (raw, b, query)" by (metis prod_cases3)
  show ?thesis
  proof (cases "resolve_url (ec_codec ec) (cd_unquote (ec_codec ec) raw)")
    case None
    then show ?thesis using assms(1) part by (auto simp: serve_primary_def serve_request_url_def)
  next
    case (Some e)
    then show ?thesis using assms part by (auto simp: serve_primary_def serve_request_url_def split: if_splits)
  qed
qed

definition on_matcher :: "(matcher, 'a) action \<Rightarrow> (primary, 'a) action" where
  "on_matcher m pm = (case m (pm_matcher pm) of (mt, r) \<Rightarrow> (pm\<lparr>pm_matcher := mt\<rparr>, r))"

lemma on_matcher_seq: "seq_call (on_matcher m) (\<lambda>x b. (b, g x)) = on_matcher (seq_call m (\<lambda>x b. (b, g x)))"
  by (rule ext) (auto simp: seq_call_def on_matcher_def split: prod.splits sum.splits)

lemma request_lifted:
  assumes "event_codec_ok ec loads"
    and "\<And>raw b query e. py_partition target (CHR ''?'') = (raw, b, query) \<Longrightarrow>
      resolve_url (ec_codec ec) (cd_unquote (ec_codec ec) raw) = Some e \<Longrightarrow> inbox_view ec iv e query body = None"
  shows "request (primary_wire ec loads env iv base) base verb target body
    = on_matcher (request (matcher_wire (ec_codec ec) loads env base) base verb target body)"
proof (rule ext)
  fix pm :: primary
  obtain mt status v where m: "serve_request_url (ec_codec ec) env verb target body (pm_matcher pm) = (mt, status, v)"
    by (metis prod_cases3)
  have "serve_primary ec env iv verb target body pm = (pm\<lparr>pm_matcher := mt\<rparr>, status, v)"
    by (rule serve_primary_matcher [OF m]) (rule assms(2))
  from primary_request [OF assms(1) this, of base]
  show "request (primary_wire ec loads env iv base) base verb target body pm
      = on_matcher (request (matcher_wire (ec_codec ec) loads env base) base verb target body) pm"
    using matcher_request [OF event_codec_okD(1) [OF assms(1)] m, of base]
    by (simp add: on_matcher_def)
qed

lemma order_view: "inbox_view ec iv OrderCreate query body = None" "inbox_view ec iv (BookDetail sy) query body = None"
  "inbox_view ec iv (OrderCancel oid) query body = None"
  by (simp_all add: inbox_view_def)

text \<open>Orders, books and cancels of the primary backend are those of its matcher; the inbox stays as it is.\<close>

lemma primary_order:
  assumes "event_codec_ok ec loads"
  shows "client_submit_order (primary_wire ec loads env iv base) base i
    = on_matcher (client_submit_order (matcher_wire (ec_codec ec) loads env base) base i)"
proof -
  let ?path = "''/api/v1/orders/''"
  have "py_partition ?path (CHR ''?'') = (?path, False, [])" by (rule partition_none) simp
  moreover have "cd_unquote (ec_codec ec) ?path = ?path" by (rule codec_okD(4) [OF event_codec_okD(1) [OF assms]]) simp
  ultimately have "request (primary_wire ec loads env iv base) base ''POST'' ?path (Some v)
      = on_matcher (request (matcher_wire (ec_codec ec) loads env base) base ''POST'' ?path (Some v))" for v
    by (intro request_lifted [OF assms]) (auto simp: resolve_order_create order_view)
  then show ?thesis
    by (simp add: client_submit_order_def on_matcher_seq primary_wire_def matcher_wire_def http_wire_def)
qed

lemma primary_book:
  assumes "event_codec_ok ec loads" "url_safe sy"
  shows "fetch_book (primary_wire ec loads env iv base) base sy
    = on_matcher (fetch_book (matcher_wire (ec_codec ec) loads env base) base sy)"
proof -
  let ?path = "''/api/v1/books/'' @ sy @ ''/''"
  have q: "CHR ''?'' \<notin> set ?path" "CHR ''%'' \<notin> set ?path" using assms(2) by (auto simp: url_safe_def)
  have "py_partition ?path (CHR ''?'') = (?path, False, [])" by (rule partition_none [OF q(1)])
  moreover have "cd_unquote (ec_codec ec) ?path = ?path" by (rule codec_okD(4) [OF event_codec_okD(1) [OF assms(1)] q(2)])
  ultimately have "request (primary_wire ec loads env iv base) base ''GET'' ?path None
      = on_matcher (request (matcher_wire (ec_codec ec) loads env base) base ''GET'' ?path None)"
    using resolve_book_detail [OF assms(2), of "ec_codec ec"]
    by (intro request_lifted [OF assms(1)]) (auto simp: order_view simp del: append_Cons append.simps)
  then show ?thesis
    by (simp add: fetch_book_def on_matcher_seq primary_wire_def matcher_wire_def http_wire_def)
qed

section \<open>Properties\<close>

text \<open>
  C11: an event survives the wire. From any inbox that requests have built, the client's poll reads
  exactly the events that the endpoint hands out, none refused by the client's own checks, or is told 400 of
  symbols that are none. The acknowledgement of an event that was read dispatches its row and no other, unless
  the identifier holds a slash: such an event is accepted and handed out, but its acknowledgement is always 404.
\<close>

theorem event_survives_wire:
  assumes cd: "event_codec_ok ec loads" and sys: "symbols \<noteq> []"
    and reach: "inbox_run (iv_seoul iv) (iv_mode iv) (iv_max_age iv) reqs [] = (pm_inbox pm, rs)"
    and run: "fetch_pending_market_events (primary_wire ec loads env iv base) base symbols pm = (pm', res)"
  shows "\<exists>r. pending_market_events (iv_seoul iv) (iv_mode iv) (iv_max_age iv) (py_join (CHR '','') symbols)
        (iv_now iv) (iv_now2 iv) (pm_inbox pm) = (pm_inbox pm', r)
    \<and> pm_matcher pm' = pm_matcher pm
    \<and> (case res of
         Inl err \<Rightarrow> err = BackendApiError (Some 400) [] \<and> pm' = pm \<and> (\<exists>v. r = Inl (ValidationError v))
       | Inr events \<Rightarrow> \<exists>opened es. r = Inr (PendingReply opened es) \<and> events = map pending_of es
           \<and> (\<forall>e\<in>set es. \<exists>pm'' a. client_acknowledge (primary_wire ec loads env iv base) base (me_id e) pm' = (pm'', a)
               \<and> (if CHR ''/'' \<in> set (me_id e) then a = Inl (BackendApiError (Some 404) []) \<and> pm'' = pm'
                  else a = Inr ()
                    \<and> (\<exists>x. dict_get (pm_inbox pm'') (me_id e) = Some x \<and> me_state x = DISPATCHED \<and> dispatch_payload x = e)
                    \<and> (\<forall>j. j \<noteq> me_id e \<longrightarrow> dict_get (pm_inbox pm'') j = dict_get (pm_inbox pm') j))))"
proof -
  let ?P = "\<lambda>ib. pending_market_events (iv_seoul iv) (iv_mode iv) (iv_max_age iv) (py_join (CHR '','') symbols)
        (iv_now iv) (iv_now2 iv) ib"
  obtain ib r where pend: "?P (pm_inbox pm) = (ib, r)" by force
  note rows = reachable_inbox [OF reach]
  have res: "pm' = pm\<lparr>pm_inbox := ib\<rparr>" "res = (case r of Inr (PendingReply opened es) \<Rightarrow> Inr (map pending_of es)
        | _ \<Rightarrow> Inl (BackendApiError (Some 400) []))"
    using fetch_over_wire [OF cd rows sys pend, of env base] run by simp_all
  have ok: "inbox_ok ib" using request_spec(1) [OF rows(1), of _ _ _ "Pending _ _ _"] pend by (force simp: serve_request_def inbox_le_def)
  show ?thesis
    using pend
  proof (cases rule: pending_cases)
    case none
    then show ?thesis using pend res rows
      by (auto simp: pending_market_events_def Let_def is_open_def localize_def parse_event_symbols_def split: sum.splits list.splits bool.splits if_splits)
  next
    case (out sys')
    let ?rows = "pending_query sys' ib"
    have "\<exists>pm'' a. client_acknowledge (primary_wire ec loads env iv base) base (me_id e) pm' = (pm'', a)
               \<and> (if CHR ''/'' \<in> set (me_id e) then a = Inl (BackendApiError (Some 404) []) \<and> pm'' = pm'
                  else a = Inr ()
                    \<and> (\<exists>x. dict_get (pm_inbox pm'') (me_id e) = Some x \<and> me_state x = DISPATCHED \<and> dispatch_payload x = e)
                    \<and> (\<forall>j. j \<noteq> me_id e \<longrightarrow> dict_get (pm_inbox pm'') j = dict_get (pm_inbox pm') j))"
      if e: "e \<in> set (map dispatch_payload ?rows)" for e
    proof -
      obtain x where x: "x \<in> set ?rows" "e = dispatch_payload x" using e by auto
      have row: "dict_get ib (me_id e) = Some x" "me_state x = PENDING" using pending_query_stored [OF ok x(1)] x(2) by simp_all
      have "me_id e \<noteq> []" using handed_out_declared [OF rows pend [unfolded out(4)]] e by (auto simp: declared_fields_def text_field_def)
      then show ?thesis
        using ack_over_wire [OF cd, of pm' env iv base "me_id e"] ok row x(2) res(1)
        by (auto simp: not_acknowledged_def dict_simps dispatch_payload_def)
    qed
    then show ?thesis using pend res out(4) by auto
  qed
qed

section \<open>A concrete codec\<close>

text \<open>Percent-decoding of well-formed UTF-8, for code points below 256.\<close>

definition hex_value :: "char \<Rightarrow> nat" where
  "hex_value c = (let n = of_char c in if n < 58 then n - 48 else n - 55)"

fun percent_bytes :: "string \<Rightarrow> nat list" where
  "percent_bytes [] = []"
| "percent_bytes (c # cs) =
     (if c = CHR ''%'' then (16 * hex_value (hd cs) + hex_value (hd (tl cs))) # percent_bytes (drop 2 cs)
      else utf8_bytes c @ percent_bytes cs)"

fun utf8_chars :: "nat list \<Rightarrow> string" where
  "utf8_chars [] = []"
| "utf8_chars (b # bs) =
     (if b < 128 then char_of b # utf8_chars bs else char_of ((b - 192) * 64 + (hd bs - 128)) # utf8_chars (tl bs))"

definition unquoted :: "string \<Rightarrow> string" where
  "unquoted s = utf8_chars (percent_bytes s)"

lemma utf8_chars_bytes: "utf8_chars (utf8_bytes c @ bs) = c # utf8_chars bs"
proof (cases "(of_char c :: nat) < 128")
  case False
  have "(of_char c :: nat) div 64 * 64 + of_char c mod 64 = of_char c" by simp
  then show ?thesis using False by (simp add: utf8_bytes_def Let_def)
qed (simp add: utf8_bytes_def Let_def)

lemma utf8_chars_all: "utf8_chars (concat (map utf8_bytes s) @ bs) = s @ utf8_chars bs"
  by (induction s) (simp_all add: utf8_chars_bytes)

lemma percent_plain: "CHR ''%'' \<notin> set p \<Longrightarrow> percent_bytes (p @ s) = concat (map utf8_bytes p) @ percent_bytes s"
  by (induction p) auto

lemma hex_value_upper: "d < 16 \<Longrightarrow> hex_value (hex_upper d) = d"
  by (cases "d < 10") (simp_all add: hex_value_def hex_upper_def)

lemma percent_escaped:
  "\<forall>b\<in>set bs. b < 256 \<Longrightarrow>
   percent_bytes (concat (map (\<lambda>b. [CHR ''%'', hex_upper (b div 16), hex_upper (b mod 16)]) bs) @ s) = bs @ percent_bytes s"
  by (induction bs) (auto simp: hex_value_upper less_mult_imp_div_less)

lemma percent_quoted: "percent_bytes (quote_char c @ s) = utf8_bytes c @ percent_bytes s"
proof (cases "ascii_alpha c \<or> is_digit c \<or> c \<in> {CHR ''_'', CHR ''.'', CHR ''-'', CHR ''~''}")
  case True
  then have "quote_char c = [c]" "c \<noteq> CHR ''%''" by (auto simp: quote_char_def ascii_alpha_def is_digit_def Let_def)
  then show ?thesis by simp
next
  case False
  have "quote_char c = concat (map (\<lambda>b. [CHR ''%'', hex_upper (b div 16), hex_upper (b mod 16)]) (utf8_bytes c))"
    unfolding quote_char_def by (rule if_not_P [OF False])
  then show ?thesis using percent_escaped [of "utf8_bytes c" s] utf8_bytes_bound by simp
qed

lemma percent_quote: "percent_bytes (py_quote t @ s) = concat (map utf8_bytes t) @ percent_bytes s"
  by (induction t) (simp_all add: py_quote_def percent_quoted)

definition demo_event_codec :: event_codec where
  "demo_event_codec = \<lparr>ec_codec = demo_codec\<lparr>cd_unquote := unquoted,
       cd_unquote_plus := (\<lambda>s. unquoted (map (\<lambda>c. if c = CHR ''+'' then CHR '' '' else c) s))\<rparr>,
     ec_time = str_int, ec_event = (\<lambda>_. Some demo_market_event)\<rparr>"

lemma unquoted_plain: "CHR ''%'' \<notin> set s \<Longrightarrow> unquoted s = s"
  using percent_plain [of s "[]"] utf8_chars_all [of s "[]"] by (simp add: unquoted_def)

lemma unquoted_quote: "CHR ''%'' \<notin> set p \<union> set q \<Longrightarrow> unquoted (p @ py_quote s @ q) = p @ s @ q"
  using percent_plain [of q "[]"] utf8_chars_all [of q "[]"] by (simp add: unquoted_def percent_plain percent_quote utf8_chars_all)

lemma unquoted_quote_plus: "unquoted (map (\<lambda>c. if c = CHR ''+'' then CHR '' '' else c) (py_quote_plus s)) = s"
proof -
  let ?sp = "map (\<lambda>c. if c = CHR ''+'' then CHR '' '' else c)"
  have q: "?sp (quote_char c) = quote_char c" for c
    using quote_char_plain [of "CHR ''+''" c] by (intro map_idI) auto
  have "percent_bytes (?sp (py_quote_plus s) @ t) = concat (map utf8_bytes s) @ percent_bytes t" for t
    by (induction s) (simp_all add: py_quote_plus_def q percent_quoted)
  from this [of "[]"] show ?thesis using utf8_chars_all [of s "[]"] by (simp add: unquoted_def)
qed

lemma demo_event_codec_ok: "event_codec_ok demo_event_codec demo_loads"
proof -
  have plus: "CHR ''+'' \<notin> set s \<Longrightarrow> map (\<lambda>c. if c = CHR ''+'' then CHR '' '' else c) s = s" for s
    by (rule map_idI) auto
  have "codec_ok (ec_codec demo_event_codec) demo_loads"
    using demo_codec_ok by (simp add: codec_ok_def demo_event_codec_def unquoted_plain plus)
  then show ?thesis using unquoted_quote unquoted_quote_plus by (auto simp: event_codec_ok_def demo_event_codec_def)
qed

definition demo_inbox_env :: inbox_env where
  "demo_inbox_env = \<lparr>iv_seoul = (\<lambda>_. 0), iv_mode = AlwaysOpen, iv_max_age = 60, iv_now = 9, iv_now2 = 9\<rparr>"

definition demo_primary :: primary where
  "demo_primary = \<lparr>pm_matcher = demo_matcher, pm_inbox = [(''n1'', market_event.extend demo_market_event \<lparr>me_state = PENDING\<rparr>)]\<rparr>"

lemma event_survives_wire_witness:
  "\<exists>pm' pm''. fetch_pending_market_events (primary_wire demo_event_codec demo_loads demo_api demo_inbox_env ''http://m'')
         ''http://m'' [''005930''] demo_primary = (pm', Inr [pending_of demo_market_event])
     \<and> client_acknowledge (primary_wire demo_event_codec demo_loads demo_api demo_inbox_env ''http://m'') ''http://m'' ''n1'' pm' = (pm'', Inr ())"
proof -
  obtain pm' res where run: "fetch_pending_market_events (primary_wire demo_event_codec demo_loads demo_api demo_inbox_env ''http://m'')
      ''http://m'' [''005930''] demo_primary = (pm', res)" by fastforce
  have reach: "inbox_run (iv_seoul demo_inbox_env) (iv_mode demo_inbox_env) (iv_max_age demo_inbox_env) [Ingest demo_market_event] []
      = (pm_inbox demo_primary, [Inr (EventReply 201 ''n1'' ''accepted'' PENDING)])"
    using demo_pending(1) by (simp add: demo_inbox_env_def demo_primary_def)
  have pend: "pending_market_events (iv_seoul demo_inbox_env) (iv_mode demo_inbox_env) (iv_max_age demo_inbox_env)
      (py_join (CHR '','') [''005930'']) (iv_now demo_inbox_env) (iv_now2 demo_inbox_env) (pm_inbox demo_primary)
      = (pm_inbox demo_primary, Inr (PendingReply True [demo_market_event]))"
    using demo_pending(2) by (simp add: demo_inbox_env_def demo_primary_def)
  have n1: "me_id demo_market_event = ''n1''" by (simp add: demo_market_event_def)
  from event_survives_wire [OF demo_event_codec_ok _ reach run] run show ?thesis
    unfolding pend by (cases res) (auto simp: n1)
qed

end
