(* ===== verification/Event_Delivery.thy ===== *)
theory Event_Delivery
  imports Event_Wire
begin

text \<open>
  The delivery of market events: the runner's poll of \<open>runner.py\<close>, its coordinator and planner, over
  the wire of \<open>Event_Wire\<close> to the inbox of the primary backend. What the planner knows of an event and
  the state of its row are followed through one poll.
\<close>

section \<open>What applying an event does to the planner\<close>

definition planned :: "coordinator \<Rightarrow> string \<Rightarrow> bool" where
  "planned co i \<longleftrightarrow> dict_get (pn_processed (co_planner co)) i \<noteq> None"

definition known :: "coordinator \<Rightarrow> string \<Rightarrow> bool" where
  "known co i \<longleftrightarrow> planned co i \<or> dict_get (co_live_events co) i \<noteq> None"

definition same_news :: "'r desk \<Rightarrow> 'r desk \<Rightarrow> bool" where
  "same_news s s' \<longleftrightarrow> co_planner (snd s') = co_planner (snd s) \<and> co_live_events (snd s') = co_live_events (snd s)"

interpretation news: call_frame same_news
  by unfold_locales (auto simp: same_news_def)

definition any_exception :: "py_error \<Rightarrow> bool" where
  "any_exception e \<longleftrightarrow> True"

lemma keeps_news: "same_news s (fst (m s)) \<Longrightarrow> keeps same_news any_exception m s"
  by (auto simp: keeps_def any_exception_def split: prod.splits sum.splits)

lemma assign_plan_news: "keeps same_news any_exception (assign_plan eid p) s"
proof -
  have drops: "keeps same_news any_exception (record_drops e n) s" "keeps same_news any_exception (maybe_complete e) s"
    for e n and s :: "'a desk"
    by (auto simp: keeps_def any_exception_def record_drops_def maybe_complete_def same_news_def Let_def split: prod.splits option.splits sum.splits)
  have "keeps same_news any_exception (abandon_previous i u) s" for i u and s :: "'a desk"
  proof -
    obtain store co where s: "s = (store, co)" by force
    let ?s = "(store, co\<lparr>co_trader_event := dict_pop (co_trader_event co) u\<rparr>)"
    have k: "keeps same_news any_exception (seq_call (record_drops e n) (\<lambda>_. maybe_complete e)) ?s" for e n
      by (intro news.keeps_seq drops)
    have same: "same_news s ?s" by (simp add: s same_news_def)
    show ?thesis
    proof (cases "\<exists>e. dict_get (co_trader_event co) u = Some e \<and> remaining_reaction_orders (store ! i) \<noteq> 0")
      case True
      then obtain e where e: "dict_get (co_trader_event co) u = Some e" "remaining_reaction_orders (store ! i) \<noteq> 0" by blast
      show ?thesis by (rule news.keeps_after [OF same k]) (simp add: s abandon_previous_def Let_def e)
    next
      case False
      then show ?thesis using same
        by (intro keeps_news) (auto simp: s abandon_previous_def Let_def split: option.splits)
    qed
  qed
  moreover have "keeps same_news any_exception (on_trader i m) s" for i and m :: "('a trader, unit) action" and s
    by (intro keeps_news) (auto simp: on_trader_def same_news_def Let_def split: prod.splits)
  moreover have "keeps same_news any_exception (count_plan eid p) s" for s :: "'a desk"
    by (intro keeps_news) (auto simp: count_plan_def same_news_def Let_def split: prod.splits option.splits)
  moreover have "keeps same_news any_exception (\<lambda>s. (s, Inr ())) s" for s :: "'a desk"
    by (intro keeps_news) (simp add: same_news_def)
  ultimately have "keeps same_news any_exception (seq_call (abandon_previous i (pl_user p)) (\<lambda>_.
          seq_call (on_trader i (apply_plan p)) (\<lambda>_.
          if \<not> pl_activated p then (\<lambda>s'. (s', Inr ())) else count_plan eid p))) s" for i
    by (intro news.keeps_seq) auto
  then show ?thesis
    by (cases "dict_get (co_traders (snd s)) (pl_user p)") (auto simp: keeps_def assign_plan_def same_news_def)
qed

lemma assign_plans_news: "keeps same_news any_exception (assign_plans p) s"
  unfolding assign_plans_def by (rule news.keeps_for_each [OF _ assign_plan_news]) (simp add: same_news_def)

lemma apply_event_news:
  assumes G: "prng_ok G" and s: "desk_ok s" and e: "valid_event e" and run: "apply_event G sha e s = (s', r)"
  shows "planned (snd s') j \<longleftrightarrow> planned (snd s) j \<or> j = ev_id e" "co_live_events (snd s') = co_live_events (snd s)"
    "r = Inl err \<Longrightarrow> planned (snd s) (ev_id e)"
proof -
  have met: "r = Inl err \<Longrightarrow> met_before s e err" for err
    using keeps_error [OF apply_event_strict [OF G s e]] run by blast
  then show "r = Inl err \<Longrightarrow> planned (snd s) (ev_id e)" by (simp add: met_before_def planned_def)
  obtain store co where sc: "s = (store, co)" by force
  obtain cs where cs: "idle_candidates s = Inr cs" by (rule idle_candidates_spec [OF s])
  obtain pn q where plan: "plan_once G sha e cs (co_planner co) = (pn, q)" by force
  let ?co1 = "co\<lparr>co_planner := pn\<rparr>"
  have "(planned (snd s') j \<longleftrightarrow> planned (snd s) j \<or> j = ev_id e) \<and> co_live_events (snd s') = co_live_events (snd s)"
  proof (cases q)
    case (Inl x)
    then have r: "s' = (store, ?co1)" "r = Inl x" using run cs plan by (simp_all add: sc apply_event_def Let_def)
    then have "dict_get (pn_processed (co_planner co)) (ev_id e) \<noteq> None" using met by (simp add: met_before_def sc)
    then have "pn = co_planner co" "planned co (ev_id e)" using plan by (auto simp: plan_once_def planned_def split: if_splits)
    then show ?thesis using r by (auto simp: sc planned_def)
  next
    case (Inr found)
    show ?thesis
    proof (cases found)
      case None
      then have "pn = co_planner co" "planned co (ev_id e)"
        using plan Inr by (auto simp: plan_once_def planned_def split: if_splits option.splits sum.splits)
      moreover have "s' = (store, ?co1\<lparr>co_deduplicated := co_deduplicated co + 1\<rparr>)"
        using run cs plan Inr None by (simp add: sc apply_event_def Let_def)
      ultimately show ?thesis by (auto simp: sc planned_def)
    next
      case (Some p)
      have pn: "pn_processed pn = dict_set (pn_processed (co_planner co)) (ev_id e) e"
        using plan Inr Some by (auto simp: plan_once_def split: option.splits sum.splits if_splits)
      have "seq_call (start_run p) (\<lambda>_. assign_plans p) (store, ?co1) = (s', r)"
        using run cs plan Inr Some by (simp add: sc apply_event_def Let_def)
      moreover have "keeps same_news any_exception (seq_call (start_run p) (\<lambda>_. assign_plans p)) (store, ?co1)"
        by (intro news.keeps_seq assign_plans_news keeps_news) (simp add: start_run_def same_news_def Let_def)
      ultimately have "same_news (store, ?co1) s'" using keeps_state by metis
      then show ?thesis using pn by (auto simp: same_news_def planned_def sc dict_simps)
    qed
  qed
  then show "planned (snd s') j \<longleftrightarrow> planned (snd s) j \<or> j = ev_id e" "co_live_events (snd s') = co_live_events (snd s)"
    by blast+
qed

text \<open>What the coordinator makes of an event that the inbox accepted.\<close>

lemma accepted_event:
  assumes "declared_fields m"
  shows "\<exists>hint. direction_hint_of (me_direction m) = Inr hint" "\<exists>preset. dict_get preset_by_impact (me_impact m) = Some preset"
    "\<not> blank (me_id m)" "\<not> blank (me_symbol m)" "\<not> blank (me_source m)"
proof -
  show "\<exists>hint. direction_hint_of (me_direction m) = Inr hint"
    using assms by (auto simp: declared_fields_def directions_def direction_hint_of_def hint_value_def)
  show "\<exists>preset. dict_get preset_by_impact (me_impact m) = Some preset"
    using assms by (auto simp: declared_fields_def impacts_def preset_by_impact_def)
  show "\<not> blank (me_id m)" "\<not> blank (me_source m)"
    using assms text_field_not_blank unfolding declared_fields_def by blast+
  have "me_symbol m \<noteq> []" "list_all is_digit (me_symbol m)" using assms by (auto simp: declared_fields_def)
  then show "\<not> blank (me_symbol m)" using digit_facts(1) by (cases "me_symbol m") (auto simp: blank_iff)
qed

definition apply_pending ::
  "'r prng \<Rightarrow> (nat list \<Rightarrow> nat list) \<Rightarrow> pending_event \<Rightarrow> int \<Rightarrow> ('r desk, unit) action" where
  "apply_pending G sha e tick =
     apply_market_event G sha (pe_id e) (pe_symbol e) (pe_direction e) (pe_impact e) (pe_headline e) (pe_source e) tick"

lemma apply_pending_news:
  assumes G: "prng_ok G" and s: "desk_ok s" and tick: "1 \<le> tick" and m: "declared_fields m"
    and run: "apply_pending G sha (pending_of m) tick s = (s', r)"
  shows "r = Inr x \<Longrightarrow> planned (snd s') (me_id m)" "\<not> known (snd s) (me_id m) \<Longrightarrow> r = Inr ()"
    "planned (snd s) j \<Longrightarrow> planned (snd s') j" "j \<noteq> me_id m \<Longrightarrow> known (snd s') j = known (snd s) j"
proof -
  obtain store co where sc: "s = (store, co)" by force
  obtain hint preset where h: "direction_hint_of (me_direction m) = Inr hint" "dict_get preset_by_impact (me_impact m) = Some preset"
    using accepted_event(1,2) [OF m] by blast
  have "(\<forall>x. r = Inr x \<longrightarrow> planned (snd s') (me_id m)) \<and> (\<not> known (snd s) (me_id m) \<longrightarrow> r = Inr ())
    \<and> (planned (snd s) j \<longrightarrow> planned (snd s') j) \<and> (j \<noteq> me_id m \<longrightarrow> known (snd s') j = known (snd s) j)"
  proof (cases "dict_get (co_live_events co) (me_id m)")
    case (Some old)
    have old: "valid_event old" "ev_id old = me_id m" using s Some by (auto simp: sc desk_ok_def feed_ok_def)
    show ?thesis
    proof (cases "same_payload old (me_symbol m) preset hint (me_headline m) (me_source m)")
      case True
      then have ap: "apply_event G sha old s = (s', r)"
        using run tick h Some by (simp add: apply_pending_def pending_of_def apply_market_event_def sc)
      note news = apply_event_news [OF G s old(1) ap]
      show ?thesis using news(1) news(2) Some old(2) by (auto simp: known_def sc)
    next
      case False
      then have "s' = s" "r = Inl (ValueError ''event_id was already used with a different payload'')"
        using run tick h Some by (simp_all add: apply_pending_def pending_of_def apply_market_event_def sc)
      then show ?thesis using Some by (simp add: known_def sc)
    qed
  next
    case None
    obtain e where e: "make_news_event (me_id m) (me_symbol m) (PyInt (tick * co_tick_ms co)) (Some preset) (Some hint)
        (me_headline m) (me_source m) (PyInt 42) = Inr e"
    proof -
      have "0 \<le> tick * co_tick_ms co" using s tick by (simp add: sc desk_ok_def feed_ok_def)
      then show thesis using that accepted_event(3-5) [OF m]
        by (simp add: make_news_event_def require_non_negative_int_def)
    qed
    have ev: "valid_event e" "ev_id e = me_id m" using e by (simp_all add: make_news_event_Inr_iff)
    let ?co = "co\<lparr>co_live_events := dict_set (co_live_events co) (me_id m) e, co_live_ids := insert (me_id m) (co_live_ids co)\<rparr>"
    have ap: "apply_event G sha e (store, ?co) = (s', r)"
      using run tick h None e by (simp add: apply_pending_def pending_of_def apply_market_event_def sc)
    have t: "desk_ok (store, ?co)"
      using s ev by (auto simp: sc desk_ok_def roster_ok_def links_ok_def totals_ok_def feed_ok_def dict_simps split: if_splits)
    note news = apply_event_news [OF G t ev(1) ap]
    have "planned ?co i = planned co i" for i by (simp add: planned_def)
    then show ?thesis using news(1) news(2) news(3) None ev(2) by (cases r) (auto simp: known_def sc dict_simps)
  qed
  then show "r = Inr x \<Longrightarrow> planned (snd s') (me_id m)" "\<not> known (snd s) (me_id m) \<Longrightarrow> r = Inr ()"
    "planned (snd s) j \<Longrightarrow> planned (snd s') j" "j \<noteq> me_id m \<Longrightarrow> known (snd s') j = known (snd s) j" by auto
qed

section \<open>One event of a poll\<close>

text \<open>The inbox behind a runner, and the change of one step of the poll.\<close>

abbreviation inbox_of :: "('r, primary) runner \<Rightarrow> inbox" where
  "inbox_of ru \<equiv> pm_inbox (ru_backend ru)"

definition polls :: "('r, primary) runner \<Rightarrow> coordinator \<Rightarrow> bool" where
  "polls ru co \<longleftrightarrow> runner_ok ru \<and> ru_coordinator ru = Some co \<and> 1 \<le> ru_tick ru \<and> inbox_ok (inbox_of ru)"

definition pending_row :: "inbox \<Rightarrow> string \<Rightarrow> bool" where
  "pending_row ib i \<longleftrightarrow> (\<exists>x. dict_get ib i = Some x \<and> me_state x = PENDING)"

definition dispatched_row :: "inbox \<Rightarrow> string \<Rightarrow> bool" where
  "dispatched_row ib i \<longleftrightarrow> (\<exists>x. dict_get ib i = Some x \<and> me_state x = DISPATCHED)"

text \<open>
  Events with the identifiers \<open>ids\<close> were polled: other rows and what is known of other events stay, a row
  is pending or it is dispatched and its event planned, and an event that was new to the coordinator is dispatched
  unless a slash keeps it from its acknowledgement.
\<close>

definition delivered :: "string set \<Rightarrow> inbox \<Rightarrow> coordinator \<Rightarrow> inbox \<Rightarrow> coordinator \<Rightarrow> bool" where
  "delivered ids ib co ib' co' \<longleftrightarrow>
     (\<forall>j. planned co j \<longrightarrow> planned co' j)
     \<and> (\<forall>j. j \<notin> ids \<longrightarrow> dict_get ib' j = dict_get ib j \<and> known co' j = known co j)
     \<and> (\<forall>i\<in>ids. pending_row ib' i \<or> dispatched_row ib' i \<and> planned co' i)
     \<and> (\<forall>i\<in>ids. \<not> known co i \<and> CHR ''/'' \<notin> set i \<longrightarrow> dispatched_row ib' i)"

lemma delivered_none: "delivered {} ib co ib co"
  by (simp add: delivered_def)

lemma delivered_seq:
  assumes "delivered {i} ib co ib1 co1" "delivered ids ib1 co1 ib' co'" "i \<notin> ids"
  shows "delivered (insert i ids) ib co ib' co'"
  using assms unfolding delivered_def pending_row_def dispatched_row_def by (auto; metis)

definition acks_over :: "event_codec \<Rightarrow> (string \<Rightarrow> py_error + py_value) \<Rightarrow> api_env \<Rightarrow> inbox_env \<Rightarrow> string \<Rightarrow> primary client \<Rightarrow> bool" where
  "acks_over ec loads env iv base cl \<longleftrightarrow>
     cl_fetch_events cl = fetch_pending_market_events (primary_wire ec loads env iv base) base
     \<and> cl_acknowledge cl = client_acknowledge (primary_wire ec loads env iv base) base"

lemma poll_one_delivers:
  assumes cd: "event_codec_ok ec loads" and G: "prng_ok G" and cl: "acks_over ec loads env iv base cl"
    and ru: "polls ru co" and m: "declared_fields m" and row: "pending_row (inbox_of ru) (me_id m)"
    and run: "poll_one G sha cl (pending_of m) ru = (ru', res)"
  shows "res = Inr () \<and> (\<exists>co'. polls ru' co' \<and> delivered {me_id m} (inbox_of ru) co (inbox_of ru') co')"
proof -
  have co: "ru_coordinator ru = Some co" "runner_ok ru" "1 \<le> ru_tick ru" "inbox_ok (inbox_of ru)" using ru by (simp_all add: polls_def)
  obtain x where x: "dict_get (inbox_of ru) (me_id m) = Some x" "me_state x = PENDING" using row by (auto simp: pending_row_def)
  note desk = runner_deskD [OF co(2,1)]
  obtain store' co' r where ap: "apply_pending G sha (pending_of m) (ru_tick ru) (ru_store ru, co) = ((store', co'), r)"
    by (metis prod.exhaust)
  note news = apply_pending_news [OF G desk co(3) m ap]
  let ?ru1 = "ru\<lparr>ru_store := store', ru_coordinator := Some co'\<rparr>"
  have w: "with_desk co (apply_pending G sha (pending_of m) (ru_tick ru)) ru = (?ru1, r)" using ap by (simp add: with_desk_def)
  have "keeps kept value_error (apply_pending G sha (pending_of m) (ru_tick ru)) (ru_store ru, co)"
    unfolding apply_pending_def by (rule apply_market_event_keeps [OF G desk])
  from with_desk_ok [OF co(2,1) this w] have ok1: "runner_ok ?ru1" .
  have step: "poll_one G sha cl (pending_of m) ru = (case r of Inl _ \<Rightarrow> (?ru1, Inr ())
     | Inr _ \<Rightarrow> (case http (cl_acknowledge cl (me_id m)) ?ru1 of
          (ru2, Inl err) \<Rightarrow> if is_api_error err then (count_failure ru2, Inr ()) else (ru2, Inl err)
        | (ru2, Inr _) \<Rightarrow> (ru2, Inr ())))"
    using w by (simp add: poll_one_def co(1) apply_pending_def pending_of_def split: sum.splits prod.splits)
  show ?thesis
  proof (cases r)
    case (Inl err)
    then have "known co (me_id m)" using news(2) by auto
    moreover have "ru' = ?ru1" "res = Inr ()" using run step Inl by simp_all
    ultimately show ?thesis using news(3,4) ok1 co(3,4) row
      by (auto simp: polls_def delivered_def)
  next
    case (Inr u)
    have plan: "planned co' (me_id m)" using news(1) [OF Inr] by simp
    have ne: "me_id m \<noteq> []" using m by (auto simp: declared_fields_def text_field_def)
    note ack = ack_over_wire [OF cd co(4), of env iv base "me_id m"]
    show ?thesis
    proof (cases "CHR ''/'' \<in> set (me_id m)")
      case True
      then have "http (cl_acknowledge cl (me_id m)) ?ru1 = (?ru1, Inl (BackendApiError (Some 404) []))"
        using cl ack by (simp add: http_def acks_over_def not_acknowledged_def)
      then have "ru' = count_failure ?ru1" "res = Inr ()" using run step Inr by simp_all
      moreover have "runner_ok (count_failure ?ru1)" using ok1 by simp
      ultimately show ?thesis using news(3,4) co(3,4) row True
        by (auto simp: polls_def delivered_def count_failure_def)
    next
      case False
      let ?ib = "dict_set (inbox_of ru) (me_id m) (x\<lparr>me_state := DISPATCHED\<rparr>)"
      let ?ru2 = "?ru1\<lparr>ru_backend := (ru_backend ru)\<lparr>pm_inbox := ?ib\<rparr>\<rparr>"
      have "http (cl_acknowledge cl (me_id m)) ?ru1 = (?ru2, Inr ())"
        using cl ack False ne x by (simp add: http_def acks_over_def)
      then have ru': "ru' = ?ru2" "res = Inr ()" using run step Inr by simp_all
      have "inbox_ok ?ib" using co(4) x(1) by (intro inbox_ok_set) (auto simp: inbox_ok_iff)
      moreover have "runner_ok ?ru2" using ok1 by simp
      ultimately show ?thesis using news(3,4) co(3) plan ru'
        by (auto simp: polls_def delivered_def dispatched_row_def dict_simps)
    qed
  qed
qed

lemma poll_events_deliver:
  assumes "event_codec_ok ec loads" "prng_ok G" "acks_over ec loads env iv base cl"
    and "polls ru co" "\<forall>m\<in>set ms. declared_fields m \<and> pending_row (inbox_of ru) (me_id m)" "distinct (map me_id ms)"
    and "for_each (map pending_of ms) (poll_one G sha cl) ru = (ru', res)"
  shows "res = Inr () \<and> (\<exists>co'. polls ru' co' \<and> delivered (me_id ` set ms) (inbox_of ru) co (inbox_of ru') co')"
  using assms(4-)
proof (induction ms arbitrary: ru co)
  case Nil
  then show ?case using delivered_none by auto
next
  case (Cons m ms)
  obtain ru1 r where one: "poll_one G sha cl (pending_of m) ru = (ru1, r)" by force
  have "r = Inr () \<and> (\<exists>co1. polls ru1 co1 \<and> delivered {me_id m} (inbox_of ru) co (inbox_of ru1) co1)"
    by (rule poll_one_delivers [OF assms(1-3) Cons.prems(1) _ _ one]) (use Cons.prems(2) in auto)
  then obtain co1 where r: "r = Inr ()" "polls ru1 co1" "delivered {me_id m} (inbox_of ru) co (inbox_of ru1) co1" by blast
  have rest: "for_each (map pending_of ms) (poll_one G sha cl) ru1 = (ru', res)"
    using Cons.prems(4) one r(1) by (simp add: seq_call_def)
  have new: "me_id m \<notin> me_id ` set ms" "distinct (map me_id ms)" using Cons.prems(3) by simp_all
  have rows: "\<forall>m'\<in>set ms. declared_fields m' \<and> pending_row (inbox_of ru1) (me_id m')"
  proof
    fix m' assume m': "m' \<in> set ms"
    then have "me_id m' \<noteq> me_id m" using new(1) by (metis imageI)
    then have "dict_get (inbox_of ru1) (me_id m') = dict_get (inbox_of ru) (me_id m')" using r(3) by (simp add: delivered_def)
    then show "declared_fields m' \<and> pending_row (inbox_of ru1) (me_id m')"
      using Cons.prems(2) m' by (simp add: pending_row_def)
  qed
  obtain co' where co': "res = Inr ()" "polls ru' co'" "delivered (me_id ` set ms) (inbox_of ru1) co1 (inbox_of ru') co'"
    using Cons.IH [OF r(2) rows new(2) rest] by blast
  show ?case using co' delivered_seq [OF r(3) co'(3) new(1)] by auto
qed

section \<open>Properties\<close>

lemma sharded_client_acks:
  assumes "sharded_client (primary_wire ec loads env iv base) urls shards = Inr cl" "base_url (hd urls) = base"
  shows "acks_over ec loads env iv base cl"
  using assms by (auto simp: sharded_client_def Let_def acks_over_def hd_map split: if_splits)

lemma handed_out_rows:
  assumes ok: "inbox_ok ib" and pend: "pending_market_events seoul mode max_age raw now now2 ib = (ib', Inr (PendingReply opened es))"
  shows "inbox_ok ib'" "distinct (map me_id es)" "\<forall>e\<in>set es. pending_row ib' (me_id e)" "dispatched_row ib' i \<longleftrightarrow> dispatched_row ib i"
proof -
  have "inbox_ok ib' \<and> distinct (map me_id es) \<and> (\<forall>e\<in>set es. pending_row ib' (me_id e)) \<and> (dispatched_row ib' i \<longleftrightarrow> dispatched_row ib i)"
    using pend
  proof (cases rule: pending_cases)
    case none
    then show ?thesis using ok by (simp add: handed_out_def)
  next
    case (out symbols)
    have ok': "inbox_ok ib'" using mark_stale_le [OF ok] out(3) by (simp add: inbox_le_def)
    have "distinct (map me_id (map snd ib'))"
    proof -
      have eq: "map me_id (map snd ib') = map fst ib'" using ok' by (auto simp: inbox_ok_def)
      show ?thesis unfolding eq using ok' by (simp add: inbox_ok_def)
    qed
    then have "distinct (map me_id (filter P (map snd ib')))" for P by (rule distinct_map_filter)
    then have "distinct (map me_id (sort_key k (filter P (map snd ib'))))" for P and k :: "inbox_event \<Rightarrow> int \<times> string"
      by (simp only: distinct_map distinct_sort set_sort)
    then have "distinct (map me_id (pending_query symbols ib'))" unfolding pending_query_def take_map [symmetric] by (rule distinct_take)
    moreover have "\<forall>e\<in>set es. pending_row ib' (me_id e)"
      using pending_query_stored [OF ok'] out(4) by (auto simp: pending_row_def)
    moreover have "dispatched_row ib' i \<longleftrightarrow> dispatched_row ib i"
      unfolding dispatched_row_def out(3) by (cases "dict_get ib i") (auto simp: mark_stale_get)
    ultimately show ?thesis using ok' out(4) by (simp add: comp_def)
  qed
  then show "inbox_ok ib'" "distinct (map me_id es)" "\<forall>e\<in>set es. pending_row ib' (me_id e)" "dispatched_row ib' i \<longleftrightarrow> dispatched_row ib i"
    by blast+
qed

text \<open>
  C28: no event is lost between the inbox and the planner. In one poll of a runner, an event is acknowledged
  only after its planner has planned it; every event that the inbox hands out, that the coordinator has not met and
  whose identifier holds no slash is planned and then dispatched in the inbox; nothing that was planned is forgotten,
  no other row is dispatched, and the poll raises nothing. A dispatched event is not handed out again, and a repeated
  one is not planned twice, as the properties of the inbox and of the planner show.
\<close>

theorem poll_delivers_events:
  assumes cd: "event_codec_ok ec loads" and G: "prng_ok G"
    and cl: "sharded_client (primary_wire ec loads env iv base) urls shards = Inr cl" "base_url (hd urls) = base"
    and ru: "runner_ok ru" "ru_coordinator ru = Some co" "1 \<le> ru_tick ru"
    and reach: "inbox_run (iv_seoul iv) (iv_mode iv) (iv_max_age iv) reqs [] = (inbox_of ru, rs)"
    and sys: "event_symbols (ru_store ru, co) \<noteq> []"
    and pend: "pending_market_events (iv_seoul iv) (iv_mode iv) (iv_max_age iv) (py_join (CHR '','') (event_symbols (ru_store ru, co)))
      (iv_now iv) (iv_now2 iv) (inbox_of ru) = (ib, Inr (PendingReply opened es))"
    and run: "poll_market_events G sha cl ru = (ru', res)"
  shows "res = Inr () \<and> (\<exists>co'. ru_coordinator ru' = Some co' \<and> runner_ok ru'
    \<and> (\<forall>i. planned co i \<longrightarrow> planned co' i)
    \<and> (\<forall>i. dispatched_row (inbox_of ru') i \<and> \<not> dispatched_row (inbox_of ru) i \<longrightarrow> i \<in> me_id ` set es \<and> planned co' i)
    \<and> (\<forall>e\<in>set es. \<not> known co (me_id e) \<and> CHR ''/'' \<notin> set (me_id e) \<longrightarrow>
         planned co' (me_id e) \<and> dispatched_row (inbox_of ru') (me_id e)))"
proof -
  note rows = reachable_inbox [OF reach]
  note out = handed_out_rows [OF rows(1) pend]
  have acks: "acks_over ec loads env iv base cl" by (rule sharded_client_acks [OF cl])
  let ?ru1 = "ru\<lparr>ru_backend := (ru_backend ru)\<lparr>pm_inbox := ib\<rparr>\<rparr>"
  have "http (cl_fetch_events cl (event_symbols (ru_store ru, co))) ru = (?ru1, Inr (map pending_of es))"
    using fetch_over_wire [OF cd rows sys pend, of env base] acks by (simp add: http_def acks_over_def)
  then have loop: "for_each (map pending_of es) (poll_one G sha cl) ?ru1 = (ru', res)"
    using run sys ru(2) by (simp add: poll_market_events_def split: list.splits)
  have p: "polls ?ru1 co" using ru out(1) by (simp add: polls_def)
  have m: "\<forall>m\<in>set es. declared_fields m \<and> pending_row (inbox_of ?ru1) (me_id m)"
    using out(3) handed_out_declared [OF rows pend] by simp
  obtain co' where co': "res = Inr ()" "polls ru' co'" "delivered (me_id ` set es) ib co (inbox_of ru') co'"
    using poll_events_deliver [OF cd G acks p m out(2) loop] by auto
  have row: "pending_row (inbox_of ru') i \<or> dispatched_row (inbox_of ru') i \<and> planned co' i" if "i \<in> me_id ` set es" for i
    using co'(3) that unfolding delivered_def by blast
  have excl: "\<not> (pending_row (inbox_of ru') i \<and> dispatched_row (inbox_of ru') i)" for i
    by (auto simp: pending_row_def dispatched_row_def)
  have "i \<in> me_id ` set es \<and> planned co' i" if i: "dispatched_row (inbox_of ru') i" "\<not> dispatched_row (inbox_of ru) i" for i
  proof -
    have "i \<in> me_id ` set es"
    proof (rule ccontr)
      assume "i \<notin> me_id ` set es"
      then have "dict_get (inbox_of ru') i = dict_get ib i" using co'(3) unfolding delivered_def by blast
      then have "dispatched_row ib i" using i(1) by (simp add: dispatched_row_def)
      then show False using i(2) out(4) by blast
    qed
    then show ?thesis using row excl i(1) by blast
  qed
  moreover have "planned co' (me_id e) \<and> dispatched_row (inbox_of ru') (me_id e)"
    if "e \<in> set es" "\<not> known co (me_id e) \<and> CHR ''/'' \<notin> set (me_id e)" for e
  proof -
    have "dispatched_row (inbox_of ru') (me_id e)" using co'(3) that unfolding delivered_def by blast
    then show ?thesis using row [of "me_id e"] excl that(1) by blast
  qed
  moreover have "\<forall>i. planned co i \<longrightarrow> planned co' i" using co'(3) unfolding delivered_def by blast
  ultimately show ?thesis using co'(1,2) by (auto simp: polls_def)
qed

definition demo_polling_runner :: "(int, primary) runner" where
  "demo_polling_runner = (case make_runner demo_primary demo_store (Some demo_coordinator) 2 of Inr ru \<Rightarrow> ru\<lparr>ru_tick := 1\<rparr>)"

lemma poll_delivers_events_witness:
  "\<exists>cl ru' co'. sharded_client (primary_wire demo_event_codec demo_loads demo_api demo_inbox_env ''http://m'') [''http://m''] [] = Inr cl
     \<and> poll_market_events demo_prng id cl demo_polling_runner = (ru', Inr ()) \<and> ru_coordinator ru' = Some co'
     \<and> planned co' ''n1'' \<and> dispatched_row (inbox_of ru') ''n1''"
proof -
  obtain cl where cl: "sharded_client (primary_wire demo_event_codec demo_loads demo_api demo_inbox_env ''http://m'') [''http://m''] [] = Inr cl"
    by (simp add: sharded_client_def Let_def)
  obtain ru' res where run: "poll_market_events demo_prng id cl demo_polling_runner = (ru', res)" by force
  obtain ru0 where made: "make_runner demo_primary demo_store (Some demo_coordinator) 2 = Inr ru0"
    "demo_polling_runner = ru0\<lparr>ru_tick := 1\<rparr>" by (simp add: make_runner_def demo_polling_runner_def)
  have "runner_ok ru0" by (rule make_runner_ok [OF made(1) demo_team_ok])
  then have ok: "runner_ok demo_polling_runner" by (simp add: made(2))
  have parts: "ru_coordinator demo_polling_runner = Some demo_coordinator" "1 \<le> ru_tick demo_polling_runner"
    "ru_store demo_polling_runner = demo_store" "ru_backend demo_polling_runner = demo_primary"
    by (simp_all add: demo_polling_runner_def make_runner_def)
  have base: "base_url (hd [''http://m'']) = ''http://m''" by code_simp
  have reach: "inbox_run (iv_seoul demo_inbox_env) (iv_mode demo_inbox_env) (iv_max_age demo_inbox_env) [Ingest demo_market_event] []
      = (inbox_of demo_polling_runner, [Inr (EventReply 201 ''n1'' ''accepted'' PENDING)])"
    using demo_pending(1) by (simp add: demo_inbox_env_def demo_primary_def parts)
  have sys: "event_symbols (demo_store, demo_coordinator) = [''005930'']"
    by (simp add: event_symbols_def demo_store_def demo_coordinator_def make_coordinator_def make_planner_def require_positive_int_def
        is_reactive_def demo_trader_def demo_settings_def)
  have pend: "pending_market_events (iv_seoul demo_inbox_env) (iv_mode demo_inbox_env) (iv_max_age demo_inbox_env)
      (py_join (CHR '','') (event_symbols (ru_store demo_polling_runner, demo_coordinator))) (iv_now demo_inbox_env) (iv_now2 demo_inbox_env)
      (inbox_of demo_polling_runner) = (pm_inbox demo_primary, Inr (PendingReply True [demo_market_event]))"
    using demo_pending(2) by (simp add: demo_inbox_env_def demo_primary_def parts sys)
  have fresh: "\<not> known demo_coordinator ''n1''"
    by (simp add: known_def planned_def demo_coordinator_def make_coordinator_def make_planner_def require_positive_int_def)
  have n1: "me_id demo_market_event = ''n1''" by (simp add: demo_market_event_def)
  have "event_symbols (ru_store demo_polling_runner, demo_coordinator) \<noteq> []" by (simp add: parts sys)
  from poll_delivers_events [OF demo_event_codec_ok demo_prng_ok cl base ok parts(1,2) reach this pend run] cl run fresh
  show ?thesis by (auto simp: n1)
qed

end
