(* ===== verification/Book_Bench.thy ===== *)
theory Book_Bench
  imports Registry Py_Random
begin

text \<open>
  The benchmark \<open>scripts/bench_orderbook.py\<close>: the orders that it draws, the prefilled books, and the
  operations that it times on the reference book and on the production book. The timing itself and the
  printing are left out; the generator, the identifiers, the stamps of trades and the readings of the clock
  are arguments.

  The lemmas justify the comparison: the reference book that is built directly is the one that submitting
  every order would have built, and from one seed both implementations do the same work with the same results.
\<close>

section \<open>Orders\<close>

definition bench_symbol :: symbol where
  "bench_symbol = ''005930''"

definition bench_reference_price :: int where
  "bench_reference_price = 70000"

definition bench_price_step :: int where
  "bench_price_step = 100"

definition levels_per_side :: int where
  "levels_per_side = 20"

definition resting_order :: "'r prng \<Rightarrow> order_side \<Rightarrow> uuid \<Rightarrow> ('r, order) action" where
  "resting_order G sd oid =
     seq_call (randint G 1 levels_per_side) (\<lambda>k.
     (let offset = k * bench_price_step;
          p = (if sd = BUY then bench_reference_price - offset else bench_reference_price + offset)
      in seq_call (randrange G 1000) (\<lambda>u.
         seq_call (randint G 1 15) (\<lambda>q r.
           (r, make_order (''bench-'' @ str_int u) bench_symbol (Some sd) (PyInt p) (PyInt q) oid)))))"

fun prefill_orders :: "'r prng \<Rightarrow> (nat \<Rightarrow> uuid) \<Rightarrow> nat list \<Rightarrow> ('r, order list) action" where
  "prefill_orders G ids [] r = (r, Inr [])"
| "prefill_orders G ids (i # is) r =
     seq_call (resting_order G (if i mod 2 \<noteq> 0 then BUY else SELL) (ids i)) (\<lambda>x.
     seq_call (prefill_orders G ids is) (\<lambda>xs r. (r, Inr (x # xs)))) r"

section \<open>The reference book, built directly\<close>

definition append_order :: "order \<Rightarrow> ref_book \<Rightarrow> ref_book" where
  "append_order ord b =
     (let b = b\<lparr>rb_sequence := rb_sequence b + 1\<rparr>
      in rb_set_side b (side ord)
           (rb_side b (side ord) @ [\<lparr>oo_order = ord, oo_remaining = quantity ord, oo_sequence = rb_sequence b\<rparr>]))"

definition sort_sides :: "ref_book \<Rightarrow> ref_book" where
  "sort_sides b =
     b\<lparr>rb_bids := sort_key (\<lambda>x. (- price (oo_order x), oo_sequence x)) (rb_bids b),
       rb_asks := sort_key (\<lambda>x. (price (oo_order x), oo_sequence x)) (rb_asks b)\<rparr>"

definition prefill_reference :: "order list \<Rightarrow> ref_book \<Rightarrow> ref_book" where
  "prefill_reference orders b = sort_sides (fold append_order orders b)"

lemma sort_sides_side [simp]: "rb_side (sort_sides b) s = sort_key (oo_key s) (rb_side b s)"
  by (cases s) (simp_all add: sort_sides_def rb_side_def oo_key_def [abs_def] side_key_def)

lemma sort_sides_frame [simp]:
  "rb_symbol (sort_sides b) = rb_symbol b" "rb_recent (sort_sides b) = rb_recent b"
  "rb_capacity (sort_sides b) = rb_capacity b" "rb_sequence (sort_sides b) = rb_sequence b"
  by (simp_all add: sort_sides_def)

lemma append_order_side [simp]:
  "rb_side (append_order ord b) s =
     (if s = side ord
      then rb_side b s @ [\<lparr>oo_order = ord, oo_remaining = quantity ord, oo_sequence = rb_sequence b + 1\<rparr>] else rb_side b s)"
  "rb_symbol (append_order ord b) = rb_symbol b" "rb_recent (append_order ord b) = rb_recent b"
  "rb_capacity (append_order ord b) = rb_capacity b" "rb_sequence (append_order ord b) = rb_sequence b + 1"
  by (simp_all add: append_order_def Let_def)

text \<open>Sorting is stable, so a sorted list may be sorted again with a later element.\<close>

lemma sort_key_again: "sort_key f (sort_key f xs @ ys) = sort_key f (xs @ ys)"
proof (rule properties_for_sort_key)
  show "mset (sort_key f (xs @ ys)) = mset (sort_key f xs @ ys)" by simp
  show "filter (\<lambda>x. f k = f x) (sort_key f (xs @ ys)) = filter (\<lambda>x. f k = f x) (sort_key f xs @ ys)"
    if "k \<in> set (sort_key f (xs @ ys))" for k
    using stable_sort_key_sort_key [unfolded stable_sort_key_def, rule_format, of f "f k"] by (simp add: eq_commute)
qed simp

lemma append_sorted:
  "ref_rest (sort_sides b) ord (quantity ord) = sort_sides (append_order ord b)"
proof (rule ref_book_eqI)
  show "rb_side (ref_rest (sort_sides b) ord (quantity ord)) s = rb_side (sort_sides (append_order ord b)) s" for s
    by (simp add: ref_rest_def Let_def sort_key_again)
qed (simp_all add: ref_rest_def Let_def)

text \<open>An order that crosses nothing rests as it is.\<close>

lemma submit_resting:
  assumes "order_symbol ord = rb_symbol b" "0 < quantity ord" "rb_recent b = []"
    and "\<forall>x\<in>set (rb_side b (opposite (side ord))). \<not> crosses ord (oo_order x)"
  shows "ref_submit st ord b = (ref_rest b ord (quantity ord),
    Inr \<lparr>result_order_id = order_id ord, result_trades = [], result_remaining = quantity ord\<rparr>)"
proof -
  have "ref_match st (rb_symbol b) ord (quantity ord) [] (rb_side b (opposite (side ord)))
      = (quantity ord, [], rb_side b (opposite (side ord)))"
    using assms(4) by (subst ref_match.simps) (auto split: list.split)
  moreover have "rb_set_side b s (rb_side b s) = b" for s by (rule ref_book_eqI) simp_all
  moreover have "(ref_rest b ord m)\<lparr>rb_recent := tape_extend c [] []\<rparr> = ref_rest b ord m" for m c
    using assms(3) by (intro ref_book_eqI) (simp_all add: tape_extend_def)
  ultimately show ?thesis using assms(1-3) by (simp add: ref_submit_def Let_def)
qed

section \<open>What the orders look like\<close>

definition bench_order :: "order \<Rightarrow> bool" where
  "bench_order ord \<longleftrightarrow> valid_order ord \<and> order_symbol ord = bench_symbol
     \<and> (if side ord = BUY then price ord < bench_reference_price else bench_reference_price < price ord)"

lemma bench_orders_apart: "bench_order a \<Longrightarrow> bench_order b \<Longrightarrow> side b = opposite (side a) \<Longrightarrow> \<not> crosses a b"
  by (cases "side a") (auto simp: bench_order_def crosses_def)

lemma resting_order_drawn:
  assumes "prng_ok G"
  obtains r' ord where "resting_order G sd oid r = (r', Inr ord)" "bench_order ord" "side ord = sd" "order_id ord = oid"
proof -
  have b: "\<not> blank (''bench-'' @ s)" "\<not> blank bench_symbol" for s
    by (auto simp: blank_iff bench_symbol_def py_isspace_def)
  obtain r1 k where k: "randint G 1 levels_per_side r = (r1, Inr k)" "1 \<le> k" "k \<le> levels_per_side"
    by (rule randint_spec [OF assms, of 1 levels_per_side]) (simp add: levels_per_side_def)
  obtain r2 u where u: "randrange G 1000 r1 = (r2, Inr u)" by (rule randrange_spec [OF assms, of 1000]) simp
  obtain r3 q where q: "randint G 1 15 r2 = (r3, Inr q)" "1 \<le> q" by (rule randint_spec [OF assms, of 1 15]) simp
  define p where "p = (if sd = BUY then bench_reference_price - k * bench_price_step else bench_reference_price + k * bench_price_step)"
  define ord where "ord = \<lparr>user_id = ''bench-'' @ str_int u, order_symbol = bench_symbol, side = sd, price = p, quantity = q, order_id = oid\<rparr>"
  have p: "0 < p" "if sd = BUY then p < bench_reference_price else bench_reference_price < p"
    using k(2,3) by (auto simp: p_def levels_per_side_def bench_reference_price_def bench_price_step_def)
  have v: "valid_order ord" using b p(1) q(2) by (simp add: valid_order_def ord_def)
  then have "make_order (''bench-'' @ str_int u) bench_symbol (Some sd) (PyInt p) (PyInt q) oid = Inr ord"
    by (simp add: make_order_Inr_iff) (simp add: ord_def)
  then have "resting_order G sd oid r = (r3, Inr ord)"
    using k(1) u q(1) by (simp add: resting_order_def seq_call_def Let_def p_def)
  moreover have "bench_order ord" using v p(2) by (simp add: bench_order_def ord_def)
  ultimately show thesis using that by (simp add: ord_def)
qed

lemma prefill_orders_drawn:
  assumes "prng_ok G"
  shows "\<exists>r' orders. prefill_orders G ids is r = (r', Inr orders) \<and> map order_id orders = map ids is \<and> (\<forall>x\<in>set orders. bench_order x)"
proof (induction "is" arbitrary: r)
  case (Cons i "is")
  obtain r1 x where x: "resting_order G (if i mod 2 \<noteq> 0 then BUY else SELL) (ids i) r = (r1, Inr x)" "bench_order x" "order_id x = ids i"
    by (rule resting_order_drawn [OF assms])
  obtain r2 xs where "prefill_orders G ids is r1 = (r2, Inr xs)" "map order_id xs = map ids is" "\<forall>x\<in>set xs. bench_order x"
    using Cons by blast
  then show ?case using x by (simp add: seq_call_def)
qed simp

section \<open>The direct build is the submitted book\<close>

definition bench_sides :: "ref_book \<Rightarrow> bool" where
  "bench_sides b \<longleftrightarrow> rb_symbol b = bench_symbol \<and> rb_recent b = []
     \<and> (\<forall>s. \<forall>x\<in>set (rb_side b s). bench_order (oo_order x) \<and> side (oo_order x) = s)"

lemma bench_sides_append: "bench_sides b \<Longrightarrow> bench_order ord \<Longrightarrow> bench_sides (append_order ord b)"
  by (auto simp: bench_sides_def)

lemma submit_appends:
  assumes "bench_sides b" "bench_order ord"
  shows "ref_submit st ord (sort_sides b) = (sort_sides (append_order ord b),
    Inr \<lparr>result_order_id = order_id ord, result_trades = [], result_remaining = quantity ord\<rparr>)"
proof -
  have "\<forall>x\<in>set (rb_side (sort_sides b) (opposite (side ord))). \<not> crosses ord (oo_order x)"
    using assms bench_orders_apart by (auto simp: bench_sides_def)
  from submit_resting [OF _ _ _ this, of st] assms show ?thesis
    by (simp add: append_sorted bench_sides_def bench_order_def valid_order_def)
qed

text \<open>Every order submitted on its own, each call with its own surroundings.\<close>

definition submissions :: "(nat \<Rightarrow> submit_env) \<Rightarrow> order list \<Rightarrow> book_call list" where
  "submissions envs orders = map (\<lambda>(k, x). Submit (envs k) x) (enumerate 0 orders)"

theorem prefill_reference_is_submitting:
  assumes "make_ref_book bench_symbol cap = Inr b" "\<forall>x\<in>set orders. bench_order x"
  shows "fst (run_calls ref_do (submissions envs orders) b) = prefill_reference orders b"
proof -
  have run: "fst (run_calls ref_do (map (\<lambda>(k, x). Submit (envs k) x) (enumerate n xs)) (sort_sides c)) = sort_sides (fold append_order xs c)"
    if "bench_sides c" "\<forall>x\<in>set xs. bench_order x" for n xs c
    using that
  proof (induction xs arbitrary: n c)
    case (Cons x xs)
    have "bench_sides (append_order x c)" using Cons.prems bench_sides_append by simp
    from Cons.IH [OF this, of "Suc n"] show ?case
      using Cons.prems submit_appends [of c x "stamps (envs n)"] by (simp add: map_ref_def case_prod_beta)
  qed simp
  have b: "bench_sides b" "sort_sides b = b"
    using assms(1) by (auto simp: make_ref_book_def bench_sides_def rb_side_def sort_sides_def split: if_splits order_side.split)
  from run [OF b(1) assms(2), of 0] show ?thesis by (simp add: b(2) submissions_def prefill_reference_def)
qed

section \<open>The operations of the benchmark\<close>

text \<open>
  A run may not return (\<open>pick_alive\<close> draws until it finds an open order): it is given a number of
  draws and is \<open>None\<close> when they do not suffice.
\<close>

type_synonym ('s, 'a) run = "'s \<Rightarrow> ('s \<times> (py_error + 'a)) option"

definition returns :: "('s, 'a) action \<Rightarrow> ('s, 'a) run" where
  "returns m s = Some (m s)"

definition run_seq :: "('s, 'a) run \<Rightarrow> ('a \<Rightarrow> ('s, 'b) run) \<Rightarrow> ('s, 'b) run" where
  "run_seq m f s = (case m s of None \<Rightarrow> None | Some (s', Inl e) \<Rightarrow> Some (s', Inl e) | Some (s', Inr x) \<Rightarrow> f x s')"

text \<open>What a run of the benchmark meets: identifiers, readings of the clock, stamps of the trades of an order.\<close>

record bench_world =
  bw_id :: "nat \<Rightarrow> uuid"
  bw_now :: "nat \<Rightarrow> seconds"
  bw_stamps :: "uuid \<Rightarrow> nat \<Rightarrow> stamp"

record ('r, 'b) bench =
  bn_book :: 'b
  bn_random :: 'r
  bn_orders :: nat
  bn_clock :: nat

definition bench_call :: "(book_call \<Rightarrow> 'b \<Rightarrow> 'b \<times> (py_error + outcome)) \<Rightarrow> (nat \<Rightarrow> book_call) \<Rightarrow> (('r, 'b) bench, outcome) run" where
  "bench_call step c s =
     (let (b, r) = step (c (bn_clock s)) (bn_book s) in Some (s\<lparr>bn_book := b, bn_clock := bn_clock s + 2\<rparr>, r))"

definition draw_order :: "bench_world \<Rightarrow> (uuid \<Rightarrow> ('r, order) action) \<Rightarrow> (('r, 'b) bench, order) run" where
  "draw_order w m s =
     (let (r, x) = m (bw_id w (bn_orders s)) (bn_random s) in Some (s\<lparr>bn_random := r, bn_orders := bn_orders s + 1\<rparr>, x))"

definition submit_of :: "bench_world \<Rightarrow> order \<Rightarrow> nat \<Rightarrow> book_call" where
  "submit_of w ord n =
     Submit \<lparr>expire_clock = bw_now w n, rest_clock = bw_now w (Suc n), stamps = bw_stamps w (order_id ord)\<rparr> ord"

text \<open>\<open>IMPLEMENTATIONS\<close>, with what \<open>prefill\<close>, \<open>depth_totals\<close> and \<open>best_bid_price\<close> do for each.\<close>

record ('r, 'b) bench_impl =
  im_do :: "book_call \<Rightarrow> 'b \<Rightarrow> 'b \<times> (py_error + outcome)"
  im_fill :: "bench_world \<Rightarrow> order list \<Rightarrow> (('r, 'b) bench, unit) run"
  im_depth :: "bench_world \<Rightarrow> (('r, 'b) bench, int \<times> int) run"
  im_best :: "bench_world \<Rightarrow> (('r, 'b) bench, py_value) run"

definition no_call :: "('s, unit) run" where
  "no_call s = Some (s, Inr ())"

fun run_each :: "'a list \<Rightarrow> ('a \<Rightarrow> ('s, 'b) run) \<Rightarrow> ('s, unit) run" where
  "run_each [] f = no_call"
| "run_each (x # xs) f = run_seq (f x) (\<lambda>_. run_each xs f)"

fun amount :: "outcome \<Rightarrow> int" where
  "amount (Amount n) = n"
| "amount _ = 0"

fun snapshot_in :: "outcome \<Rightarrow> book_snapshot option" where
  "snapshot_in (Levels s) = Some s"
| "snapshot_in _ = None"

definition current_impl :: "('r, seconds \<times> book) bench_impl" where
  "current_impl =
     \<lparr>im_do = prod_do,
      im_fill = (\<lambda>w orders. run_each orders (\<lambda>x. bench_call prod_do (submit_of w x))),
      im_depth = (\<lambda>w. run_seq (bench_call prod_do (\<lambda>n. TotalQuantity (bw_now w n) BUY)) (\<lambda>a.
        run_seq (bench_call prod_do (\<lambda>n. TotalQuantity (bw_now w n) SELL)) (\<lambda>b s. Some (s, Inr (amount a, amount b))))),
      im_best = (\<lambda>w. run_seq (bench_call prod_do (\<lambda>n. BestPrice (bw_now w n) BUY)) (\<lambda>a s. Some (s, Inr (case a of
        Price (Some p) \<Rightarrow> PyInt p | _ \<Rightarrow> PyNone))))\<rparr>"

definition reference_impl :: "('r, ref_book) bench_impl" where
  "reference_impl =
     \<lparr>im_do = ref_do,
      im_fill = (\<lambda>w orders s. Some (s\<lparr>bn_book := prefill_reference orders (bn_book s)\<rparr>, Inr ())),
      im_depth = (\<lambda>w. run_seq (bench_call ref_do (\<lambda>n. Snapshot (bw_now w n))) (\<lambda>a s. Some (s, Inr (case snapshot_in a of
        None \<Rightarrow> (0, 0)
      | Some sn \<Rightarrow> (sum_list (map level_quantity (snap_bids sn)), sum_list (map level_quantity (snap_asks sn))))))),
      im_best = (\<lambda>w. run_seq (bench_call ref_do (\<lambda>n. Snapshot (bw_now w n))) (\<lambda>a s. Some (s, case snapshot_in a of
        Some sn \<Rightarrow> (case snap_bids sn of [] \<Rightarrow> Inl IndexError | l # _ \<Rightarrow> Inr (PyInt (level_price l)))
      | None \<Rightarrow> Inl IndexError)))\<rparr>"

text \<open>\<open>time_calls\<close> without the clock.\<close>

fun time_calls :: "nat \<Rightarrow> ('s, 'a) run \<Rightarrow> ('a \<Rightarrow> ('s, 'b) run) \<Rightarrow> ('s, unit) run" where
  "time_calls 0 setup fn = no_call"
| "time_calls (Suc n) setup fn = run_seq setup (\<lambda>x. run_seq (fn x) (\<lambda>_. time_calls n setup fn))"

definition taker_order :: "py_value \<Rightarrow> uuid \<Rightarrow> ('r, order) action" where
  "taker_order p oid r = (r, make_order ''bench-taker'' bench_symbol (Some SELL) p (PyInt 15) oid)"

definition crossing_order :: "('r, 'b) bench_impl \<Rightarrow> bench_world \<Rightarrow> (('r, 'b) bench, order) run" where
  "crossing_order im w =
     run_seq (im_best im w) (\<lambda>p. draw_order w (taker_order p))"

definition draw_alive :: "'r prng \<Rightarrow> uuid list \<Rightarrow> (('r, 'b) bench, uuid) run" where
  "draw_alive G alive s =
     (let (r, k) = randrange G (int (length alive)) (bn_random s)
      in Some (s\<lparr>bn_random := r\<rparr>, ebind k (\<lambda>i. Inr (alive ! nat i))))"

fun pick_alive :: "'r prng \<Rightarrow> bench_world \<Rightarrow> ('r, 'b) bench_impl \<Rightarrow> uuid list \<Rightarrow> nat \<Rightarrow> (('r, 'b) bench, uuid) run" where
  "pick_alive G w im alive 0 s = None"
| "pick_alive G w im alive (Suc n) s =
     run_seq (draw_alive G alive) (\<lambda>oid.
     run_seq (bench_call (im_do im) (\<lambda>k. GetOpen (bw_now w k) oid)) (\<lambda>found.
       if found \<noteq> Found None then (\<lambda>s. Some (s, Inr oid)) else pick_alive G w im alive n)) s"

definition bench_cancel :: "bench_world \<Rightarrow> ('r, 'b) bench_impl \<Rightarrow> uuid \<Rightarrow> (('r, 'b) bench, unit) run" where
  "bench_cancel w im oid s =
     (case bench_call (im_do im) (\<lambda>k. Cancel (bw_now w k) oid) s of
        None \<Rightarrow> None
      | Some (s', Inr _) \<Rightarrow> Some (s', Inr ())
      | Some (s', Inl e) \<Rightarrow> Some (s', case e of OrderNotFoundError _ \<Rightarrow> Inr () | _ \<Rightarrow> Inl e))"

definition bench_prefill :: "'r prng \<Rightarrow> bench_world \<Rightarrow> ('r, 'b) bench_impl \<Rightarrow> nat \<Rightarrow> (('r, 'b) bench, order list) run" where
  "bench_prefill G w im depth s =
     (case prefill_orders G (\<lambda>i. bw_id w (bn_orders s + i)) [0..<depth] (bn_random s) of
        (r, Inl e) \<Rightarrow> Some (s\<lparr>bn_random := r\<rparr>, Inl e)
      | (r, Inr orders) \<Rightarrow>
          run_seq (im_fill im w orders) (\<lambda>_ s. Some (s, Inr orders)) (s\<lparr>bn_random := r, bn_orders := bn_orders s + depth\<rparr>))"

definition bench_one :: "'r prng \<Rightarrow> bench_world \<Rightarrow> nat \<Rightarrow> ('r, 'b) bench_impl \<Rightarrow> nat \<Rightarrow> nat \<Rightarrow> (('r, 'b) bench, unit) run" where
  "bench_one G w draws im depth repeats =
     run_seq (bench_prefill G w im depth) (\<lambda>orders.
     (let alive = map order_id orders; few = max 5 (repeats div 10); nothing = no_call in
     run_seq (time_calls repeats (draw_order w (resting_order G BUY)) (\<lambda>x. bench_call (im_do im) (submit_of w x))) (\<lambda>_.
     run_seq (time_calls repeats (crossing_order im w) (\<lambda>x. bench_call (im_do im) (submit_of w x))) (\<lambda>_.
     run_seq (time_calls repeats (pick_alive G w im alive draws) (bench_cancel w im)) (\<lambda>_.
     run_seq (time_calls repeats (pick_alive G w im alive draws) (\<lambda>oid. bench_call (im_do im) (\<lambda>k. GetOpen (bw_now w k) oid))) (\<lambda>_.
     run_seq (time_calls few nothing (\<lambda>_. bench_call (im_do im) (\<lambda>k. Snapshot (bw_now w k)))) (\<lambda>_.
     time_calls few nothing (\<lambda>_. im_depth im w))))))))"

section \<open>Both implementations do the same\<close>

definition agrees :: "('s \<Rightarrow> 't \<Rightarrow> bool) \<Rightarrow> ('s \<times> (py_error + 'a)) option \<Rightarrow> ('t \<times> (py_error + 'a)) option \<Rightarrow> bool" where
  "agrees R x y =
     (case x of
        None \<Rightarrow> y = None
      | Some (s, Inl _) \<Rightarrow> (\<exists>t e. y = Some (t, Inl e))
      | Some (s, Inr a) \<Rightarrow> (\<exists>t. y = Some (t, Inr a) \<and> R s t))"

definition simulates :: "('s \<Rightarrow> 't \<Rightarrow> bool) \<Rightarrow> ('s, 'a) run \<Rightarrow> ('t, 'a) run \<Rightarrow> bool" where
  "simulates R m n \<longleftrightarrow> (\<forall>s t. R s t \<longrightarrow> agrees R (m s) (n t))"

lemma agrees_simps [simp]:
  "agrees R None y \<longleftrightarrow> y = None" "agrees R (Some (s, Inl e)) y \<longleftrightarrow> (\<exists>t e. y = Some (t, Inl e))"
  "agrees R (Some (s, Inr a)) y \<longleftrightarrow> (\<exists>t. y = Some (t, Inr a) \<and> R s t)"
  by (simp_all add: agrees_def)

lemma simulatesD: "simulates R m n \<Longrightarrow> R s t \<Longrightarrow> agrees R (m s) (n t)"
  by (simp add: simulates_def)

lemma agrees_seq:
  assumes "agrees R (m s) (n t)" "\<And>a s' t'. m s = Some (s', Inr a) \<Longrightarrow> n t = Some (t', Inr a) \<Longrightarrow> R s' t' \<Longrightarrow> agrees Q (f a s') (g a t')"
  shows "agrees Q (run_seq m f s) (run_seq n g t)"
proof (cases "m s")
  case None
  then show ?thesis using assms(1) by (simp add: run_seq_def)
next
  case (Some x)
  obtain s' r where x: "x = (s', r)" by force
  show ?thesis
  proof (cases r)
    case (Inl e)
    then show ?thesis using assms(1) Some x by (auto simp: run_seq_def)
  next
    case (Inr a)
    then obtain t' where t': "n t = Some (t', Inr a)" "R s' t'" using assms(1) Some x by auto
    then show ?thesis using assms(2) [OF _ t'] Some x Inr by (simp add: run_seq_def)
  qed
qed

lemma sim_seq: "simulates R m n \<Longrightarrow> (\<And>a. simulates R (f a) (g a)) \<Longrightarrow> simulates R (run_seq m f) (run_seq n g)"
  unfolding simulates_def by (blast intro: agrees_seq)

lemma sim_result: "simulates R (\<lambda>s. Some (s, r)) (\<lambda>t. Some (t, r))"
  by (cases r) (simp_all add: simulates_def)

lemma sim_no_call: "simulates R no_call no_call"
  by (simp add: simulates_def no_call_def)

lemma sim_time_calls: "simulates R m n \<Longrightarrow> (\<And>a. simulates R (f a) (g a)) \<Longrightarrow> simulates R (time_calls k m f) (time_calls k n g)"
  by (induction k) (simp_all add: sim_seq sim_no_call)

text \<open>
  The production book without expiry and the reference book, with the same generator and as many orders
  drawn, the clock of the world not behind, and only identifiers of \<open>P\<close> in the book.
\<close>

definition ref_ids :: "ref_book \<Rightarrow> uuid set" where
  "ref_ids b = (\<Union>s. (order_id \<circ> oo_order) ` set (rb_side b s))"

definition twin :: "bench_world \<Rightarrow> uuid set \<Rightarrow> ('r, seconds \<times> book) bench \<Rightarrow> ('r, ref_book) bench \<Rightarrow> bool" where
  "twin w P s t \<longleftrightarrow> bn_random s = bn_random t \<and> bn_orders s = bn_orders t \<and> prod_ok (bn_book s)
     \<and> abs_book (snd (bn_book s)) = bn_book t \<and> fst (bn_book s) \<le> bw_now w (bn_clock s) \<and> ref_ids (bn_book t) \<subseteq> P"

definition world_ok :: "bench_world \<Rightarrow> bool" where
  "world_ok w \<longleftrightarrow> inj (bw_id w) \<and> mono (bw_now w)"

definition drawn_ids :: "bench_world \<Rightarrow> nat \<Rightarrow> uuid set" where
  "drawn_ids w n = bw_id w ` {..<n}"

definition alike :: "bench_world \<Rightarrow> ('r, seconds \<times> book) bench \<Rightarrow> ('r, ref_book) bench \<Rightarrow> bool" where
  "alike w s t \<longleftrightarrow> twin w (drawn_ids w (bn_orders t)) s t"

lemma open_ids_ref:
  assumes "book_ok t b"
  shows "open_ids b \<subseteq> ref_ids (abs_book b)"
proof
  fix oid assume "oid \<in> open_ids b"
  then obtain r where r: "alive_at b r" "order_id (e_order (bk_store b r)) = oid" using open_ids_iff [OF assms] by blast
  let ?s = "side (e_order (bk_store b r))"
  have "r \<in> set (live_refs b ?s)" using mem_live_refs [OF assms] r(1) by blast
  then have "oid \<in> (order_id \<circ> oo_order) ` set (rb_side (abs_book b) ?s)"
    using r(2) by (force simp: open_of_def as_open_order_def)
  then show "oid \<in> ref_ids (abs_book b)" unfolding ref_ids_def by blast
qed

lemma ref_ids_subset:
  assumes "\<And>s. oo_order ` set (rb_side b' s) \<subseteq> oo_order ` set (rb_side b s) \<union> X"
  shows "ref_ids b' \<subseteq> ref_ids b \<union> order_id ` X"
proof
  fix i assume "i \<in> ref_ids b'"
  then obtain s x where x: "x \<in> set (rb_side b' s)" "i = order_id (oo_order x)" by (auto simp: ref_ids_def)
  then have "oo_order x \<in> oo_order ` set (rb_side b s) \<union> X" using assms [of s] by blast
  then show "i \<in> ref_ids b \<union> order_id ` X" using x(2) by (force simp: ref_ids_def)
qed

lemma ref_submit_ids: "ref_submit st ord b = (b', res) \<Longrightarrow> ref_ids b' \<subseteq> insert (order_id ord) (ref_ids b)"
proof -
  assume run: "ref_submit st ord b = (b', res)"
  let ?o = "opposite (side ord)"
  obtain m ts opp where m: "ref_match st (rb_symbol b) ord (quantity ord) [] (rb_side b ?o) = (m, ts, opp)"
    by (metis prod_cases3)
  have rest: "oo_order ` set (rb_side (ref_rest c ord k) s) \<subseteq> insert ord (oo_order ` set (rb_side c s))" for c k s
    by (auto simp: ref_rest_def Let_def)
  have "oo_order ` set (rb_side b' s) \<subseteq> oo_order ` set (rb_side b s) \<union> {ord}" for s
  proof (cases "order_symbol ord = rb_symbol b")
    case True
    let ?c = "rb_set_side b ?o opp"
    have c: "oo_order ` set (rb_side ?c s) \<subseteq> oo_order ` set (rb_side b s)" using ref_match_orders [OF m] by simp
    have "\<exists>ts. b' = (if m \<noteq> 0 then ref_rest ?c ord m else ?c)\<lparr>rb_recent := ts\<rparr>"
      using run True unfolding ref_submit_def m by (auto simp: Let_def)
    then show ?thesis using c rest [of ?c m s] by (auto split: if_splits)
  qed (use run in \<open>auto simp: ref_submit_def\<close>)
  from ref_ids_subset [OF this] show ?thesis by simp
qed

lemma take_order_subset: "take_order oid xs = Some (x, ys) \<Longrightarrow> set ys \<subseteq> set xs"
  by (induction xs arbitrary: x ys) (auto split: if_splits)

lemma ref_cancel_ids: "ref_cancel oid b = (b', res) \<Longrightarrow> ref_ids b' \<subseteq> ref_ids b"
proof -
  assume run: "ref_cancel oid b = (b', res)"
  have "set (rb_side b' s) \<subseteq> set (rb_side b s)" for s
    using run take_order_subset by (cases s) (fastforce simp: ref_cancel_def rb_side_def split: option.splits)+
  then show ?thesis by (auto simp: ref_ids_def)
qed

lemma twin_clock [simp]: "twin w P s (t\<lparr>bn_clock := k\<rparr>) = twin w P s t" "alike w s (t\<lparr>bn_clock := k\<rparr>) = alike w s t"
  by (simp_all add: twin_def alike_def)

lemma twin_step:
  assumes st: "twin w P s t" and same: "ref_do (c (bn_clock t)) = ref_do (c (bn_clock s))"
    and legal: "prod_legal (bn_book s) (c (bn_clock s))" and time: "call_end (fst (bn_book s)) (c (bn_clock s)) \<le> bw_now w (bn_clock s + 2)"
    and ids: "\<And>b r. ref_do (c (bn_clock s)) (bn_book t) = (b, r) \<Longrightarrow> ref_ids b \<subseteq> Q"
  shows "\<exists>s' t' r. bench_call prod_do c s = Some (s', r) \<and> bench_call ref_do c t = Some (t', r) \<and> twin w Q s' t'
    \<and> bn_orders t' = bn_orders t"
proof -
  let ?c = "c (bn_clock s)"
  have ok: "prod_ok (bn_book s)" "abs_book (snd (bn_book s)) = bn_book t" using st by (simp_all add: twin_def)
  obtain tb r where run: "prod_do ?c (bn_book s) = (tb, r)" by (cases "prod_do ?c (bn_book s)") blast
  have step: "prod_ok tb" "ref_do ?c (bn_book t) = (abs_book (snd tb), r)"
    using production.step [OF ok(1) legal run] ok(2) by simp_all
  have "fst tb = call_end (fst (bn_book s)) ?c" using run by (auto simp: prod_do_def split: prod.splits)
  then have "twin w Q (s\<lparr>bn_book := tb, bn_clock := bn_clock s + 2\<rparr>) (t\<lparr>bn_book := abs_book (snd tb), bn_clock := bn_clock t + 2\<rparr>)"
    using st step ids [OF step(2)] time by (simp add: twin_def)
  then show ?thesis using run step(2) same by (simp add: bench_call_def)
qed

text \<open>A call that submits nothing, at whatever time the clock of each side shows.\<close>

definition timeless :: "(nat \<Rightarrow> book_call) \<Rightarrow> bench_world \<Rightarrow> bool" where
  "timeless c w \<longleftrightarrow> (\<forall>n t. call_start t (c n) = bw_now w n \<and> (\<forall>env ord. c n \<noteq> Submit env ord))
     \<and> (\<forall>n m. ref_do (c n) = ref_do (c m))"

lemma timeless_calls:
  "timeless (\<lambda>n. Cancel (bw_now w n) oid) w" "timeless (\<lambda>n. GetOpen (bw_now w n) oid) w" "timeless (\<lambda>n. Snapshot (bw_now w n)) w"
  "timeless (\<lambda>n. TotalQuantity (bw_now w n) sd) w" "timeless (\<lambda>n. BestPrice (bw_now w n) sd) w"
  by (auto simp: timeless_def intro!: ext)

lemma twin_call:
  assumes w: "world_ok w" and c: "timeless c w" and st: "twin w P s t"
  shows "\<exists>s' t' r. bench_call prod_do c s = Some (s', r) \<and> bench_call ref_do c t = Some (t', r) \<and> twin w P s' t'
    \<and> bn_orders t' = bn_orders t"
proof (rule twin_step [OF st])
  let ?c = "c (bn_clock s)"
  show "ref_do (c (bn_clock t)) = ref_do ?c" using c unfolding timeless_def by blast
  have start: "call_start u ?c = bw_now w (bn_clock s)" "\<And>env ord. ?c \<noteq> Submit env ord" for u using c by (auto simp: timeless_def)
  then show "prod_legal (bn_book s) ?c" using st by (cases ?c) (auto simp: prod_legal_def twin_def)
  have "call_end (fst (bn_book s)) ?c = bw_now w (bn_clock s)" using start by (cases ?c) auto
  then show "call_end (fst (bn_book s)) ?c \<le> bw_now w (bn_clock s + 2)" using w by (simp add: world_ok_def mono_def)
  fix b r assume run: "ref_do ?c (bn_book t) = (b, r)"
  have "ref_ids b \<subseteq> ref_ids (bn_book t)"
  proof (cases ?c)
    case (Cancel now oid)
    then show ?thesis using run ref_cancel_ids by (cases "ref_cancel oid (bn_book t)") (auto simp: map_ref_def)
  qed (use run start(2) in \<open>auto simp: map_ref_def\<close>)
  then show "ref_ids b \<subseteq> P" using st by (auto simp: twin_def)
qed

lemma twin_submit:
  assumes w: "world_ok w" and st: "twin w P s t" and ord: "valid_order ord" "order_id ord \<notin> P"
  shows "\<exists>s' t' r. bench_call prod_do (submit_of w ord) s = Some (s', r) \<and> bench_call ref_do (submit_of w ord) t = Some (t', r)
    \<and> twin w (insert (order_id ord) P) s' t' \<and> bn_orders t' = bn_orders t"
proof (rule twin_step [OF st])
  let ?n = "bn_clock s"
  show "ref_do (submit_of w ord (bn_clock t)) = ref_do (submit_of w ord ?n)" by (rule ext) (simp add: submit_of_def)
  have now: "bw_now w ?n \<le> bw_now w (Suc ?n)" "bw_now w (Suc ?n) \<le> bw_now w (?n + 2)" using w by (simp_all add: world_ok_def mono_def)
  have "open_ids (snd (bn_book s)) \<subseteq> P"
    using st open_ids_ref [of "fst (bn_book s)" "snd (bn_book s)"] by (auto simp: twin_def prod_ok_def)
  then show "prod_legal (bn_book s) (submit_of w ord ?n)"
    using st ord now by (auto simp: prod_legal_def submit_of_def twin_def)
  show "call_end (fst (bn_book s)) (submit_of w ord ?n) \<le> bw_now w (?n + 2)" using now by (simp add: submit_of_def)
  fix b r assume "ref_do (submit_of w ord ?n) (bn_book t) = (b, r)"
  then have "ref_ids b \<subseteq> insert (order_id ord) (ref_ids (bn_book t))"
    using ref_submit_ids by (cases "ref_submit (bw_stamps w (order_id ord)) ord (bn_book t)") (auto simp: submit_of_def map_ref_def)
  then show "ref_ids b \<subseteq> insert (order_id ord) P" using st by (auto simp: twin_def)
qed

lemma sim_call:
  assumes "world_ok w" "timeless c w"
  shows "simulates (alike w) (bench_call prod_do c) (bench_call ref_do c)"
  unfolding simulates_def
proof (intro allI impI)
  fix s :: "('a, seconds \<times> book) bench" and t :: "('a, ref_book) bench"
  assume "alike w s t"
  then obtain s' t' r where "bench_call prod_do c s = Some (s', r)" "bench_call ref_do c t = Some (t', r)"
      "twin w (drawn_ids w (bn_orders t)) s' t'" "bn_orders t' = bn_orders t"
    using twin_call [OF assms] unfolding alike_def by blast
  then show "agrees (alike w) (bench_call prod_do c s) (bench_call ref_do c t)" by (cases r) (simp_all add: alike_def)
qed

text \<open>A query of the production book gives what the reference book holds.\<close>

lemma sim_query:
  assumes "world_ok w" "timeless c w" "alike w s t" "\<And>n. ref_do (c n) (bn_book t) = (bn_book t, Inr x)"
  shows "\<exists>s'. bench_call prod_do c s = Some (s', Inr x) \<and> alike w s' t"
proof -
  obtain s' t' r where r: "bench_call prod_do c s = Some (s', r)" "bench_call ref_do c t = Some (t', r)"
      "twin w (drawn_ids w (bn_orders t)) s' t'" "bn_orders t' = bn_orders t"
    using twin_call [OF assms(1,2)] assms(3) unfolding alike_def by blast
  have "t' = t\<lparr>bn_book := bn_book t, bn_clock := bn_clock t + 2\<rparr>" "r = Inr x" using r(2) assms(4) by (auto simp: bench_call_def)
  then show ?thesis using r(1,3) by (auto simp: alike_def twin_def)
qed

section \<open>The phases\<close>

lemma run_seq_assoc: "run_seq m (\<lambda>x. run_seq (f x) g) = run_seq (run_seq m f) g"
  by (rule ext) (auto simp: run_seq_def split: option.splits prod.splits sum.splits)

lemma sim_timed: "simulates R (run_seq m f) (run_seq n g) \<Longrightarrow> simulates R (time_calls k m f) (time_calls k n g)"
  by (induction k) (simp_all add: run_seq_assoc sim_no_call sim_seq)

text \<open>Orders that are made well and carry the identifier they were given.\<close>

definition makes_orders :: "(uuid \<Rightarrow> ('r, order) action) \<Rightarrow> bool" where
  "makes_orders m \<longleftrightarrow> (\<forall>oid r r' x. m oid r = (r', Inr x) \<longrightarrow> valid_order x \<and> order_id x = oid)"

lemma drawn_fresh: "world_ok w \<Longrightarrow> bw_id w n \<notin> drawn_ids w n"
  by (auto simp: world_ok_def drawn_ids_def inj_def)

lemma drawn_next: "insert (bw_id w n) (drawn_ids w n) = drawn_ids w (Suc n)"
  by (auto simp: drawn_ids_def less_Suc_eq)

lemma sim_submit_drawn:
  assumes "world_ok w" "makes_orders m"
  shows "simulates (alike w) (run_seq (draw_order w m) (\<lambda>x. bench_call prod_do (submit_of w x)))
    (run_seq (draw_order w m) (\<lambda>x. bench_call ref_do (submit_of w x)))"
  unfolding simulates_def
proof (intro allI impI)
  fix s :: "('a, seconds \<times> book) bench" and t :: "('a, ref_book) bench"
  assume st: "alike w s t"
  let ?n = "bn_orders t"
  obtain r' x where d: "m (bw_id w ?n) (bn_random t) = (r', x)" by force
  let ?s = "s\<lparr>bn_random := r', bn_orders := ?n + 1\<rparr>" and ?t = "t\<lparr>bn_random := r', bn_orders := ?n + 1\<rparr>"
  have draws: "draw_order w m s = Some (?s, x)" "draw_order w m t = Some (?t, x)"
    using st d by (simp_all add: draw_order_def alike_def twin_def)
  show "agrees (alike w) (run_seq (draw_order w m) (\<lambda>x. bench_call prod_do (submit_of w x)) s)
      (run_seq (draw_order w m) (\<lambda>x. bench_call ref_do (submit_of w x)) t)"
  proof (cases x)
    case (Inl e)
    then show ?thesis by (simp add: run_seq_def draws)
  next
    case (Inr ord)
    have ord: "valid_order ord" "order_id ord = bw_id w ?n" using assms(2) d Inr by (auto simp: makes_orders_def)
    have "twin w (drawn_ids w ?n) ?s ?t" using st by (simp add: alike_def twin_def)
    from twin_submit [OF assms(1) this ord(1)] obtain s' t' r where
      "bench_call prod_do (submit_of w ord) ?s = Some (s', r)" "bench_call ref_do (submit_of w ord) ?t = Some (t', r)"
      "twin w (insert (order_id ord) (drawn_ids w ?n)) s' t'" "bn_orders t' = bn_orders ?t"
      using drawn_fresh [OF assms(1)] ord(2) by metis
    then show ?thesis using draws Inr by (cases r) (simp_all add: run_seq_def alike_def ord(2) drawn_next)
  qed
qed

lemma resting_order_makes: "makes_orders (resting_order G sd)"
  by (auto simp: makes_orders_def resting_order_def seq_call_def Let_def make_order_Inr_iff split: prod.splits sum.splits)

lemma taker_order_makes: "makes_orders (taker_order p)"
  by (auto simp: makes_orders_def taker_order_def make_order_Inr_iff)

lemma level_sums_head: "d \<noteq> [] \<Longrightarrow> level_sums d xs \<noteq> [] \<and> fst (hd (level_sums d xs)) = fst (hd d)"
proof (induction xs arbitrary: d)
  case (Cons x xs)
  let ?d = "\<lambda>v. dict_set d (price (oo_order x)) v"
  have "?d v \<noteq> [] \<and> fst (hd (?d v)) = fst (hd d)" for v using Cons.prems by (cases d) auto
  then show ?case using Cons.IH by (simp add: Let_def)
qed simp

lemma ref_levels_best:
  "ref_levels xs = [] \<longleftrightarrow> xs = []" "ref_levels (x # xs) = l # ls \<Longrightarrow> level_price l = price (oo_order x)"
proof -
  show "ref_levels xs = [] \<longleftrightarrow> xs = []"
    using level_sums_head by (cases xs) (auto simp: ref_levels_def Let_def)
  assume "ref_levels (x # xs) = l # ls"
  then show "level_price l = price (oo_order x)"
    using level_sums_head [of "[(price (oo_order x), oo_remaining x)]" xs]
    by (auto simp: ref_levels_def Let_def split: prod.splits)
qed

lemma dict_set_sum:
  "sum_list (map snd (dict_set d k v)) = sum_list (map snd d) - (case dict_get d k of None \<Rightarrow> 0 | Some u \<Rightarrow> u) + (v :: int)"
  by (induction d) auto

lemma ref_levels_total: "sum_list (map level_quantity (ref_levels xs)) = qty_sum xs"
proof -
  have "sum_list (map snd (level_sums d xs)) = sum_list (map snd d) + qty_sum xs" for d
    by (induction xs arbitrary: d) (auto simp: Let_def dict_set_sum split: option.split)
  from this [of "[]"] show ?thesis by (simp add: ref_levels_def comp_def case_prod_beta)
qed

lemma sim_depth:
  assumes "world_ok w"
  shows "simulates (alike w) (im_depth current_impl w) (im_depth reference_impl w)"
  unfolding simulates_def
proof (intro allI impI)
  fix s :: "('a, seconds \<times> book) bench" and t :: "('a, ref_book) bench"
  assume st: "alike w s t"
  let ?b = "bn_book t"
  obtain s1 where s1: "bench_call prod_do (\<lambda>n. TotalQuantity (bw_now w n) BUY) s = Some (s1, Inr (Amount (qty_sum (rb_bids ?b))))" "alike w s1 t"
    using sim_query [OF assms timeless_calls(4) [where sd = BUY] st, where x = "Amount (qty_sum (rb_bids ?b))"] by (auto simp: ref_open_orders_def rb_side_def)
  obtain s2 where s2: "bench_call prod_do (\<lambda>n. TotalQuantity (bw_now w n) SELL) s1 = Some (s2, Inr (Amount (qty_sum (rb_asks ?b))))" "alike w s2 t"
    using sim_query [OF assms timeless_calls(4) [where sd = SELL] s1(2), where x = "Amount (qty_sum (rb_asks ?b))"] by (auto simp: ref_open_orders_def rb_side_def)
  have "bench_call ref_do (\<lambda>n. Snapshot (bw_now w n)) t = Some (t\<lparr>bn_clock := bn_clock t + 2\<rparr>, Inr (Levels (ref_snapshot ?b)))"
    by (simp add: bench_call_def)
  then show "agrees (alike w) (im_depth current_impl w s) (im_depth reference_impl w t)"
    using s1 s2 by (simp add: current_impl_def reference_impl_def run_seq_def ref_snapshot_def ref_levels_total)
qed

lemma sim_crossing:
  assumes "world_ok w"
  shows "simulates (alike w) (run_seq (crossing_order current_impl w) (\<lambda>x. bench_call prod_do (submit_of w x)))
    (run_seq (crossing_order reference_impl w) (\<lambda>x. bench_call ref_do (submit_of w x)))"
  unfolding simulates_def
proof (intro allI impI)
  fix s :: "('a, seconds \<times> book) bench" and t :: "('a, ref_book) bench"
  assume st: "alike w s t"
  let ?b = "bn_book t"
  obtain s1 where s1: "bench_call prod_do (\<lambda>n. BestPrice (bw_now w n) BUY) s = Some (s1, Inr (Price (best_of (rb_bids ?b))))" "alike w s1 t"
    using sim_query [OF assms timeless_calls(5) [where sd = BUY] st, where x = "Price (best_of (rb_bids ?b))"] by (auto simp: ref_open_orders_def rb_side_def)
  let ?t = "t\<lparr>bn_clock := bn_clock t + 2\<rparr>"
  have snap: "bench_call ref_do (\<lambda>n. Snapshot (bw_now w n)) t = Some (?t, Inr (Levels (ref_snapshot ?b)))"
    by (simp add: bench_call_def)
  show "agrees (alike w) (run_seq (crossing_order current_impl w) (\<lambda>x. bench_call prod_do (submit_of w x)) s)
    (run_seq (crossing_order reference_impl w) (\<lambda>x. bench_call ref_do (submit_of w x)) t)"
  proof (cases "rb_bids ?b")
    case Nil
    have "im_best current_impl w s = Some (s1, Inr PyNone)" "im_best reference_impl w t = Some (?t, Inl IndexError)"
      using s1 snap Nil by (simp_all add: current_impl_def reference_impl_def run_seq_def best_of_def ref_snapshot_def ref_levels_def)
    then show ?thesis by (simp add: crossing_order_def run_seq_def draw_order_def taker_order_def make_order_def)
  next
    case (Cons x xs)
    obtain l ls where l: "ref_levels (x # xs) = l # ls" using ref_levels_best(1) by (cases "ref_levels (x # xs)") auto
    have best: "im_best current_impl w s = Some (s1, Inr (PyInt (price (oo_order x))))"
      "im_best reference_impl w t = Some (?t, Inr (PyInt (price (oo_order x))))"
      using s1 snap Cons l ref_levels_best(2) [OF l]
      by (simp_all add: current_impl_def reference_impl_def run_seq_def best_of_def ref_snapshot_def)
    have "simulates (alike w) (run_seq (draw_order w (taker_order p)) (\<lambda>x. bench_call prod_do (submit_of w x)))
        (run_seq (draw_order w (taker_order p)) (\<lambda>x. bench_call ref_do (submit_of w x)))" for p
      by (rule sim_submit_drawn [OF assms taker_order_makes])
    from simulatesD [OF this, of s1 ?t] s1(2) have
      "agrees (alike w) (run_seq (draw_order w (taker_order p)) (\<lambda>x. bench_call prod_do (submit_of w x)) s1)
        (run_seq (draw_order w (taker_order p)) (\<lambda>x. bench_call ref_do (submit_of w x)) ?t)" for p by simp
    then show ?thesis
      unfolding crossing_order_def run_seq_assoc [symmetric] using best by (simp add: run_seq_def [of "im_best _ _"])
  qed
qed

lemma impl_do [simp]: "im_do current_impl = prod_do" "im_do reference_impl = ref_do"
  by (simp_all add: current_impl_def reference_impl_def)

lemma sim_draw_alive: "simulates (alike w) (draw_alive G alive) (draw_alive G alive)"
  unfolding simulates_def
proof (intro allI impI)
  fix s :: "('a, seconds \<times> book) bench" and t :: "('a, ref_book) bench"
  assume st: "alike w s t"
  obtain r k where "randrange G (int (length alive)) (bn_random t) = (r, k)" by force
  then show "agrees (alike w) (draw_alive G alive s) (draw_alive G alive t)"
    using st by (cases k) (simp_all add: draw_alive_def alike_def twin_def)
qed

lemma sim_pick_alive:
  assumes "world_ok w"
  shows "simulates (alike w) (pick_alive G w current_impl alive n) (pick_alive G w reference_impl alive n)"
proof (induction n)
  case (Suc n)
  have "simulates (alike w) (if found \<noteq> Found None then (\<lambda>s. Some (s, Inr oid)) else pick_alive G w current_impl alive n)
      (if found \<noteq> Found None then (\<lambda>s. Some (s, Inr oid)) else pick_alive G w reference_impl alive n)" for found and oid :: uuid
    using Suc by (simp add: sim_result)
  then show ?case
    unfolding pick_alive.simps [abs_def] impl_do
    by (intro sim_seq sim_draw_alive sim_call [OF assms timeless_calls(2)])
qed (simp add: simulates_def)

lemma sim_cancel:
  assumes "world_ok w"
  shows "simulates (alike w) (bench_cancel w current_impl oid) (bench_cancel w reference_impl oid)"
  unfolding simulates_def
proof (intro allI impI)
  fix s :: "('a, seconds \<times> book) bench" and t :: "('a, ref_book) bench"
  assume "alike w s t"
  then obtain s' t' r where "bench_call prod_do (\<lambda>k. Cancel (bw_now w k) oid) s = Some (s', r)"
      "bench_call ref_do (\<lambda>k. Cancel (bw_now w k) oid) t = Some (t', r)"
      "twin w (drawn_ids w (bn_orders t)) s' t'" "bn_orders t' = bn_orders t"
    using twin_call [OF assms timeless_calls(1)] unfolding alike_def by blast
  then show "agrees (alike w) (bench_cancel w current_impl oid s) (bench_cancel w reference_impl oid t)"
    by (auto simp: bench_cancel_def alike_def split: sum.split py_error.split)
qed

text \<open>The prefilled books.\<close>

lemma reference_submits:
  assumes "bench_sides c" "\<forall>x\<in>set xs. bench_order x" "bn_book t = sort_sides c"
  shows "\<exists>k. run_each xs (\<lambda>x. bench_call ref_do (submit_of w x)) t
    = Some (t\<lparr>bn_book := sort_sides (fold append_order xs c), bn_clock := k\<rparr>, Inr ())"
  using assms
proof (induction xs arbitrary: c t)
  case Nil
  have "t\<lparr>bn_book := bn_book t, bn_clock := bn_clock t\<rparr> = t" by simp
  then have "t\<lparr>bn_book := sort_sides c, bn_clock := bn_clock t\<rparr> = t" unfolding Nil(3) .
  then show ?case by (intro exI [of _ "bn_clock t"]) (simp add: no_call_def)
next
  case (Cons x xs)
  have c: "bench_sides (append_order x c)" using Cons.prems bench_sides_append by simp
  let ?t = "t\<lparr>bn_book := sort_sides (append_order x c), bn_clock := bn_clock t + 2\<rparr>"
  obtain r where "bench_call ref_do (submit_of w x) t = Some (?t, Inr r)"
    using Cons.prems submit_appends [of c x "bw_stamps w (order_id x)"] by (simp add: bench_call_def submit_of_def map_ref_def)
  then show ?case using Cons.IH [OF c, of ?t] Cons.prems(2) by (simp add: run_seq_def)
qed

lemma sim_submits:
  assumes w: "world_ok w"
  shows "twin w P s t \<Longrightarrow> \<forall>x\<in>set xs. bench_order x \<Longrightarrow> distinct (map order_id xs) \<Longrightarrow> P \<inter> set (map order_id xs) = {} \<Longrightarrow>
    agrees (\<lambda>s' t'. twin w (P \<union> set (map order_id xs)) s' t' \<and> bn_orders t' = bn_orders t)
      (run_each xs (\<lambda>x. bench_call prod_do (submit_of w x)) s) (run_each xs (\<lambda>x. bench_call ref_do (submit_of w x)) t)"
proof (induction xs arbitrary: P s t)
  case (Cons x xs)
  have x: "valid_order x" "order_id x \<notin> P" using Cons.prems by (auto simp: bench_order_def)
  obtain s' t' r where r: "bench_call prod_do (submit_of w x) s = Some (s', r)" "bench_call ref_do (submit_of w x) t = Some (t', r)"
      "twin w (insert (order_id x) P) s' t'" "bn_orders t' = bn_orders t"
    using twin_submit [OF w Cons.prems(1) x] by blast
  have "agrees (\<lambda>s' t''. twin w (insert (order_id x) P \<union> set (map order_id xs)) s' t'' \<and> bn_orders t'' = bn_orders t')
      (run_each xs (\<lambda>x. bench_call prod_do (submit_of w x)) s') (run_each xs (\<lambda>x. bench_call ref_do (submit_of w x)) t')"
    by (rule Cons.IH [OF r(3)]) (use Cons.prems in auto)
  then show ?case using r by (cases r) (simp_all add: run_seq_def)
qed (simp add: no_call_def)

text \<open>Books as the benchmark makes them, before anything happened.\<close>

definition bench_start :: "'r \<Rightarrow> 'b \<Rightarrow> ('r, 'b) bench" where
  "bench_start r b = \<lparr>bn_book = b, bn_random = r, bn_orders = 0, bn_clock = 0\<rparr>"

lemma sim_prefill:
  assumes w: "world_ok w" and G: "prng_ok G" and b: "make_book bench_symbol 200 0 = Inr b" "make_ref_book bench_symbol 200 = Inr rb"
  shows "agrees (alike w) (bench_prefill G w current_impl depth (bench_start r (bw_now w 0, b)))
    (bench_prefill G w reference_impl depth (bench_start r rb))"
proof -
  obtain r' orders where o: "prefill_orders G (bw_id w) [0..<depth] r = (r', Inr orders)" "map order_id orders = map (bw_id w) [0..<depth]"
    "\<forall>x\<in>set orders. bench_order x" using prefill_orders_drawn [OF G] by blast
  let ?s = "\<lparr>bn_book = (bw_now w 0, b), bn_random = r', bn_orders = depth, bn_clock = 0\<rparr>"
  let ?t = "\<lparr>bn_book = rb, bn_random = r', bn_orders = depth, bn_clock = 0\<rparr>"
  note m = make_book_spec [OF b(1)]
  have rb: "abs_book b = rb" "rb_side rb sd = []" for sd using m(5,6) b(2) by (auto simp: open_of_def)
  have tw: "twin w {} ?s ?t" using m(1,4) rb by (simp add: twin_def prod_ok_def ref_ids_def)
  have dist: "distinct (map order_id orders)" "set (map order_id orders) = drawn_ids w depth"
    using w by (auto simp: o(2) distinct_map world_ok_def inj_on_def inj_def drawn_ids_def)
  have sides: "bench_sides rb" "sort_sides rb = rb"
    using b(2) by (auto simp: make_ref_book_def bench_sides_def rb_side_def sort_sides_def split: if_splits order_side.split)
  obtain k where k: "run_each orders (\<lambda>x. bench_call ref_do (submit_of w x)) ?t
      = Some (?t\<lparr>bn_book := prefill_reference orders rb, bn_clock := k\<rparr>, Inr ())"
    using reference_submits [OF sides(1) o(3), of ?t w] sides(2) by (auto simp: prefill_reference_def)
  have "agrees (\<lambda>s' t'. twin w ({} \<union> set (map order_id orders)) s' t' \<and> bn_orders t' = bn_orders ?t)
      (run_each orders (\<lambda>x. bench_call prod_do (submit_of w x)) ?s) (run_each orders (\<lambda>x. bench_call ref_do (submit_of w x)) ?t)"
    by (rule sim_submits [OF w tw o(3) dist(1)]) simp
  then have "agrees (\<lambda>s' t'. twin w (drawn_ids w depth) s' t' \<and> bn_orders t' = bn_orders ?t)
      (run_each orders (\<lambda>x. bench_call prod_do (submit_of w x)) ?s) (run_each orders (\<lambda>x. bench_call ref_do (submit_of w x)) ?t)"
    unfolding dist(2) Un_empty_left .
  then have "agrees (\<lambda>s' t'. twin w (drawn_ids w depth) s' t')
      (run_each orders (\<lambda>x. bench_call prod_do (submit_of w x)) ?s) (Some (?t\<lparr>bn_book := prefill_reference orders rb\<rparr>, Inr ()))"
    unfolding k by (auto simp: agrees_def twin_def split: option.splits sum.splits)
  then show ?thesis using o(1)
    by (auto simp: bench_prefill_def bench_start_def current_impl_def reference_impl_def run_seq_def agrees_def alike_def
        split: option.splits sum.splits)
qed

text \<open>
  The comparison is fair. From the same seed and world, the benchmark of the production book and the one of
  the reference book draw the same orders, get the same result of every call, and end with the reference book
  holding what the production book holds; or both raise; or neither has found its open orders within the draws.
\<close>

theorem bench_implementations_agree:
  assumes w: "world_ok w" and G: "prng_ok G" and b: "make_book bench_symbol 200 0 = Inr b" "make_ref_book bench_symbol 200 = Inr rb"
  shows "agrees (\<lambda>s t. abs_book (snd (bn_book s)) = bn_book t \<and> bn_random s = bn_random t \<and> bn_orders s = bn_orders t)
    (bench_one G w draws current_impl depth repeats (bench_start r (bw_now w 0, b)))
    (bench_one G w draws reference_impl depth repeats (bench_start r rb))"
proof -
  have rest: "simulates (alike w)
      (time_calls k (draw_order w (resting_order G BUY)) (\<lambda>x. bench_call prod_do (submit_of w x)))
      (time_calls k (draw_order w (resting_order G BUY)) (\<lambda>x. bench_call ref_do (submit_of w x)))" for k
    by (rule sim_timed) (rule sim_submit_drawn [OF w resting_order_makes])
  have match: "simulates (alike w)
      (time_calls k (crossing_order current_impl w) (\<lambda>x. bench_call prod_do (submit_of w x)))
      (time_calls k (crossing_order reference_impl w) (\<lambda>x. bench_call ref_do (submit_of w x)))" for k
    by (rule sim_timed) (rule sim_crossing [OF w])
  have "agrees (alike w) (bench_one G w draws current_impl depth repeats (bench_start r (bw_now w 0, b)))
    (bench_one G w draws reference_impl depth repeats (bench_start r rb))"
    unfolding bench_one_def Let_def impl_do
    by (rule agrees_seq [where R = "alike w"], rule sim_prefill [OF w G b], rule simulatesD)
      (intro sim_seq rest match sim_time_calls sim_pick_alive sim_cancel sim_no_call sim_depth
        sim_call [OF w timeless_calls(2)] sim_call [OF w timeless_calls(3)] w)
  then show ?thesis by (auto simp: agrees_def alike_def twin_def split: option.splits sum.splits)
qed

end
