(* ===== verification/Operator_Tools.thy ===== *)
theory Operator_Tools
  imports Reference_Data Runner_Setup Matcher_Api Gateway_Metrics
begin

text \<open>
  The command line tools around the program: the management command \<open>import_krx_top100.py\<close> with its date
  option, and \<open>participant-runner/scripts/matcher_shard_count.py\<close>, from which the \<open>Makefile\<close> learns how many
  runners to start. Printed lines are results; the HTTP request of the script is an argument.
\<close>

section \<open>\<open>datetime.strptime(s, "%Y%m%d")\<close>\<close>

text \<open>
  The pattern of the library: four digits, then \<open>1[0-2]|0[1-9]|[1-9]\<close>, then
  \<open>3[0-1]|[1-2]\d|0[1-9]|[1-9]| [1-9]\<close>. The alternatives are tried in this order, and the first match that
  reaches the end of the pattern counts; text left over after it is an error.
\<close>

definition digit_in :: "nat \<Rightarrow> nat \<Rightarrow> char \<Rightarrow> bool" where
  "digit_in a b c \<longleftrightarrow> 48 + a \<le> (of_char c :: nat) \<and> (of_char c :: nat) \<le> 48 + b"

definition two_chars :: "(char \<Rightarrow> bool) \<Rightarrow> (char \<Rightarrow> bool) \<Rightarrow> string \<Rightarrow> (string \<times> string) list" where
  "two_chars p q s = (case s of a # b # rest \<Rightarrow> if p a \<and> q b then [([a, b], rest)] else [] | _ \<Rightarrow> [])"

definition one_char :: "(char \<Rightarrow> bool) \<Rightarrow> string \<Rightarrow> (string \<times> string) list" where
  "one_char p s = (case s of a # rest \<Rightarrow> if p a then [([a], rest)] else [] | _ \<Rightarrow> [])"

definition month_reads :: "string \<Rightarrow> (string \<times> string) list" where
  "month_reads s =
     two_chars (digit_in 1 1) (digit_in 0 2) s @ two_chars (digit_in 0 0) (digit_in 1 9) s @ one_char (digit_in 1 9) s"

definition day_reads :: "string \<Rightarrow> (string \<times> string) list" where
  "day_reads s =
     two_chars (digit_in 3 3) (digit_in 0 1) s @ two_chars (digit_in 1 2) (digit_in 0 9) s
     @ two_chars (digit_in 0 0) (digit_in 1 9) s @ one_char (digit_in 1 9) s
     @ map (\<lambda>(d, rest). (tl d, rest)) (two_chars (\<lambda>c. c = CHR '' '') (digit_in 1 9) s)"

definition date_reads :: "string \<Rightarrow> (cal_date \<times> string) list" where
  "date_reads s =
     (if 4 \<le> length s \<and> list_all is_digit (take 4 s)
      then concat (map (\<lambda>(m, s1). map (\<lambda>(d, s2).
             (\<lparr>cal_year = digits_value (take 4 s), cal_month = digits_value m, cal_day = digits_value d\<rparr>, s2))
             (day_reads s1)) (month_reads (drop 4 s)))
      else [])"

definition strptime_compact :: "string \<Rightarrow> py_error + cal_date" where
  "strptime_compact s =
     (case date_reads s of
        [] \<Rightarrow> Inl (ValueError ''time data does not match format'')
      | (d, rest) # _ \<Rightarrow>
          if rest \<noteq> [] then Inl (ValueError ''unconverted data remains'')
          else if \<not> valid_date d then Inl (ValueError ''day is out of range for month'')
          else Inr d)"

section \<open>The import command\<close>

definition dashed_date :: "cal_date \<Rightarrow> string" where
  "dashed_date d = zero_padded 4 (cal_year d) @ ''-'' @ zero_padded 2 (cal_month d) @ ''-'' @ zero_padded 2 (cal_day d)"

definition top_summary :: "krx_record list \<Rightarrow> string" where
  "top_summary records =
     (let entries = map (\<lambda>(i, r). str_nat i @ '':'' @ kr_ticker r @ '' '' @ kr_name r) (enumerate 1 records)
      in case entries of [] \<Rightarrow> [] | e # es \<Rightarrow> e @ concat (map (\<lambda>x. '', '' @ x) es))"

definition requested_date :: "string option \<Rightarrow> py_error + cal_date option" where
  "requested_date opt =
     (case opt of
        None \<Rightarrow> Inr None
      | Some s \<Rightarrow>
          if s = [] then Inr None
          else (case strptime_compact s of
                  Inl e \<Rightarrow> Inl (if is_value_error e then CommandError ''trade-date must use YYYYMMDD format'' else e)
                | Inr d \<Rightarrow> Inr (Some d)))"

definition krx_command_error :: "(py_error \<Rightarrow> string) \<Rightarrow> py_error \<Rightarrow> py_error" where
  "krx_command_error err_text e =
     (case e of KrxConfigurationError _ \<Rightarrow> CommandError (err_text e) | KrxApiError _ \<Rightarrow> CommandError (err_text e) | _ \<Rightarrow> e)"

text \<open>\<open>handle\<close>, with the identifier that the database gives to the run.\<close>

definition import_command ::
  "(py_error \<Rightarrow> string) \<Rightarrow> (krx_record \<Rightarrow> py_error option) \<Rightarrow> 'b krx_client \<Rightarrow> string option \<Rightarrow> cal_date \<Rightarrow> nat \<Rightarrow> string
    \<Rightarrow> (ref_db \<times> 'b, string list) action" where
  "import_command err_text refuses kc opt today days run_id s =
     (case requested_date opt of
        Inl e \<Rightarrow> (s, Inl e)
      | Inr date \<Rightarrow>
          (case import_top100 err_text refuses kc date today days s of
             (s', Inl e) \<Rightarrow> (s', Inl (krx_command_error err_text e))
           | (s', Inr res) \<Rightarrow>
               (s', Inr [''imported KOSPI top100: trade_date='' @ dashed_date (im_date res)
                           @ '' count='' @ str_nat (im_count res) @ '' run_id='' @ run_id,
                         ''top10: '' @ top_summary (im_top res)])))"

section \<open>The count of matcher shards\<close>

definition strip_chars :: "char set \<Rightarrow> string \<Rightarrow> string" where
  "strip_chars cs s = rev (dropWhile (\<lambda>c. c \<in> cs) (rev (dropWhile (\<lambda>c. c \<in> cs) s)))"

definition env_assignment :: "string \<Rightarrow> (string \<times> string) option" where
  "env_assignment raw =
     (let line = py_strip raw
      in if line = [] \<or> py_startswith line ''#'' then None
         else (case py_partition line (CHR ''='') of
                 (_, False, _) \<Rightarrow> None
               | (k, True, v) \<Rightarrow> Some (py_strip k, strip_chars {CHR 0x22, CHR 0x27} (py_strip v))))"

text \<open>\<open>_load_env\<close>: the file's content, \<open>None\<close> when there is no such file; \<open>setdefault\<close> keeps what is set.\<close>

definition setdefault :: "environment \<Rightarrow> string \<times> string \<Rightarrow> environment" where
  "setdefault env kv = (case env (fst kv) of None \<Rightarrow> env(fst kv \<mapsto> snd kv) | Some _ \<Rightarrow> env)"

fun load_lines :: "string list \<Rightarrow> environment \<Rightarrow> environment" where
  "load_lines [] env = env"
| "load_lines (raw # lines) env =
     load_lines lines (case env_assignment raw of None \<Rightarrow> env | Some kv \<Rightarrow> setdefault env kv)"

definition load_env :: "string option \<Rightarrow> environment \<Rightarrow> environment" where
  "load_env file env = (case file of None \<Rightarrow> env | Some text \<Rightarrow> load_lines (py_splitlines text) env)"

text \<open>\<open>isinstance(x, int)\<close> holds of a boolean too, which is printed as such.\<close>

fun shard_count_text :: "py_value \<Rightarrow> string option" where
  "shard_count_text (PyInt n) = (if n < 1 then None else Some (str_int n))"
| "shard_count_text (PyBool b) = (if b then Some ''True'' else None)"
| "shard_count_text _ = None"

text \<open>\<open>main\<close>: the exit status and the line that it prints. \<open>fetch\<close> is the request with the decoding of its answer.\<close>

definition error_class :: "py_error \<Rightarrow> string" where
  "error_class e =
     (case e of HTTPError _ \<Rightarrow> ''HTTPError'' | URLError _ \<Rightarrow> ''URLError'' | TimeoutError _ \<Rightarrow> ''TimeoutError''
      | JSONDecodeError \<Rightarrow> ''JSONDecodeError'' | UnicodeDecodeError \<Rightarrow> ''UnicodeDecodeError'' | ValueError _ \<Rightarrow> ''ValueError''
      | _ \<Rightarrow> ''OSError'')"

definition shard_count_main ::
  "string option \<Rightarrow> environment \<Rightarrow> (string \<Rightarrow> py_error + py_value) \<Rightarrow> py_error + int \<times> string" where
  "shard_count_main file env fetch =
     (let base = py_rstrip_char (getenv (load_env file env) ''BACKEND_BASE_URL'' ''http://127.0.0.1:8000'') (CHR ''/'')
      in case fetch (base @ ''/api/v1/ready/'') of
           Inl e \<Rightarrow> if is_os_error e \<or> is_value_error e
                    then Inr (1, ''matcher ready check failed: '' @ error_class e) else Inl e
         | Inr (PyDict d) \<Rightarrow>
             (case shard_count_text (json_get d ''shard_count'' PyNone) of
                None \<Rightarrow> Inr (1, ''ready payload is missing shard_count'')
              | Some n \<Rightarrow> Inr (0, n))
         | Inr _ \<Rightarrow> Inl (AttributeError ''object has no attribute get''))"

section \<open>Facts\<close>

lemma digits_value_append: "digits_value (s @ [c]) = 10 * digits_value s + (of_char c - 48)"
  by (simp add: digits_value_def)

lemma digits_value_zeros: "digits_value (replicate k (CHR ''0'') @ s) = digits_value s"
proof -
  have "digits_value (replicate k (CHR ''0'')) = 0" by (induction k) (simp_all add: digits_value_def)
  then show ?thesis by (simp add: digits_value_def)
qed

lemma zero_padded_value: "digits_value (zero_padded w n) = n"
  by (simp add: zero_padded_def digits_value_zeros digits_value_str_nat)

lemma zero_padded_digits: "list_all is_digit (zero_padded w n)"
  using str_nat_props(2) [of n] by (auto simp: zero_padded_def list_all_iff is_digit_def)

lemma str_nat_length: "0 < k \<Longrightarrow> n < 10 ^ k \<Longrightarrow> length (str_nat n) \<le> k"
proof (induction k arbitrary: n)
  case (Suc k)
  show ?case
  proof (cases "n < 10")
    case False
    then have "n div 10 < 10 ^ k" "0 < k" using Suc.prems by (auto simp: less_mult_imp_div_less mult.commute intro: gr0I)
    then show ?thesis using Suc.IH [of "n div 10"] False by (simp add: str_nat_eval(2))
  qed (simp add: str_nat_eval)
qed simp

lemma zero_padded_length: "0 < w \<Longrightarrow> n < 10 ^ w \<Longrightarrow> length (zero_padded w n) = w"
  using str_nat_length [of w n] by (simp add: zero_padded_def)

lemma small_padded: "n < 10 \<Longrightarrow> zero_padded 2 n = [CHR ''0'', digit_char n]" "10 \<le> n \<Longrightarrow> n < 100 \<Longrightarrow> zero_padded 2 n = [digit_char (n div 10), digit_char (n mod 10)]"
  by (simp_all add: zero_padded_def str_nat_eval)

lemma digit_in_char: "d < 10 \<Longrightarrow> digit_in a b (digit_char d) \<longleftrightarrow> a \<le> d \<and> d \<le> b"
  by (simp add: digit_in_def of_char_digit)

lemma digit_in_zero: "digit_in a b (CHR ''0'') \<longleftrightarrow> a = 0"
  by (auto simp: digit_in_def)

text \<open>A padded month and a padded day are read first as they were written.\<close>

lemma month_reads_padded: "1 \<le> m \<Longrightarrow> m \<le> 12 \<Longrightarrow> \<exists>more. month_reads (zero_padded 2 m @ s) = (zero_padded 2 m, s) # more"
proof (cases "m < 10")
  case False
  assume "m \<le> 12"
  then have "m div 10 = 1" "m mod 10 \<le> 2" "m < 100" using False by presburger+
  then show ?thesis using False by (simp add: small_padded month_reads_def two_chars_def digit_in_char)
qed (simp add: small_padded month_reads_def two_chars_def digit_in_char digit_in_zero)

lemma day_reads_padded: "1 \<le> d \<Longrightarrow> d \<le> 31 \<Longrightarrow> \<exists>more. day_reads (zero_padded 2 d @ s) = (zero_padded 2 d, s) # more"
proof (cases "d < 10")
  case False
  assume "d \<le> 31"
  then have "d div 10 = 3 \<and> d mod 10 \<le> 1 \<or> 1 \<le> d div 10 \<and> d div 10 \<le> 2" "d div 10 < 10" "d < 100" using False by presburger+
  then show ?thesis using False by (auto simp: small_padded day_reads_def two_chars_def digit_in_char)
qed (simp add: small_padded day_reads_def two_chars_def digit_in_char digit_in_zero)

text \<open>The option is read back: the command understands every date as the service is asked for it.\<close>

theorem strptime_compact_date: "valid_date d \<Longrightarrow> strptime_compact (compact_date d) = Inr d"
proof -
  assume v: "valid_date d"
  have days: "days_in_month y m \<le> 31" for y m by (simp add: days_in_month_def)
  have b: "cal_year d < 10 ^ 4" "1 \<le> cal_month d" "cal_month d \<le> 12" "1 \<le> cal_day d" "cal_day d \<le> 31"
    using v days [of "cal_year d" "cal_month d"] by (simp_all add: valid_date_def)
  have len: "length (zero_padded 4 (cal_year d)) = 4" using zero_padded_length [of 4 "cal_year d"] b(1) by simp
  obtain ms ds where reads: "month_reads (zero_padded 2 (cal_month d) @ zero_padded 2 (cal_day d)) = (zero_padded 2 (cal_month d), zero_padded 2 (cal_day d)) # ms"
    "day_reads (zero_padded 2 (cal_day d)) = (zero_padded 2 (cal_day d), []) # ds"
    using month_reads_padded [OF b(2,3), of "zero_padded 2 (cal_day d)"] day_reads_padded [OF b(4,5), of "[]"] by auto
  have "\<exists>more. date_reads (compact_date d) = (d, []) # more"
    using len zero_padded_digits [of 4 "cal_year d"]
    by (simp add: date_reads_def compact_date_def reads zero_padded_value)
  then show ?thesis using v by (auto simp: strptime_compact_def)
qed

text \<open>Seven digits are accepted as well, although the option asks for eight.\<close>

theorem short_date_accepted: "strptime_compact ''2024111'' = Inr \<lparr>cal_year = 2024, cal_month = 11, cal_day = 1\<rparr>"
  by (simp add: strptime_compact_def date_reads_def month_reads_def day_reads_def two_chars_def one_char_def digit_in_def is_digit_def
      digits_value_def valid_date_def days_in_month_def eval_nat_numeral)

text \<open>A date that the command cannot read changes nothing; otherwise the tables and the run are those of the import.\<close>

theorem import_command_result:
  "(\<forall>e. requested_date opt = Inl e \<longrightarrow>
      import_command err_text refuses kc opt today days run_id s = (s, Inl (CommandError ''trade-date must use YYYYMMDD format'')))
   \<and> (\<forall>date. requested_date opt = Inr date \<longrightarrow>
        fst (import_command err_text refuses kc opt today days run_id s) = fst (import_top100 err_text refuses kc date today days s)
        \<and> is_ok (snd (import_command err_text refuses kc opt today days run_id s)) = is_ok (snd (import_top100 err_text refuses kc date today days s)))"
proof -
  have "is_value_error e" if "strptime_compact x = Inl e" for x e
    using that by (auto simp: strptime_compact_def split: list.splits if_splits)
  then have "requested_date opt = Inl e \<Longrightarrow> e = CommandError ''trade-date must use YYYYMMDD format''" for e
    by (auto simp: requested_date_def split: option.splits if_splits sum.splits)
  then show ?thesis
    by (auto simp: import_command_def is_ok_def split: sum.splits prod.splits)
qed

text \<open>The environment wins over the file, and the first assignment of the file over the later ones.\<close>

theorem load_env_is_map: "load_env (Some text) env = map_of (List.map_filter env_assignment (py_splitlines text)) ++ env"
proof -
  have "load_lines lines env = map_of (List.map_filter env_assignment lines) ++ env" for lines env
    by (induction lines arbitrary: env)
      (auto simp: List.map_filter_simps setdefault_def map_add_def fun_eq_iff split: option.splits)
  then show ?thesis by (simp add: load_env_def)
qed

text \<open>From a ready matcher the script prints its number of shards; a matcher without its database counts as none.\<close>

theorem shard_count_of_ready_matcher:
  assumes "settings_ok st"
    and "\<And>url. fetch url = (case readiness st port database of (code, v) \<Rightarrow> if code < 400 then Inr v else Inl (HTTPError code))"
  shows "shard_count_main file env fetch
    = Inr (if database then (0, str_int (shard_count st)) else (1, ''matcher ready check failed: HTTPError''))"
  using assms by (simp add: shard_count_main_def readiness_def shard_topology_def json_get_def settings_ok_def error_class_def Let_def)

end
