(* ===== verification/Request_Metrics.thy ===== *)
theory Request_Metrics
  imports Event_Wire Gateway_Metrics
begin

text \<open>
  \<open>PrometheusMetricsMiddleware\<close> of the backend's \<open>metrics.py\<close>: every answered request is counted by route,
  method and status and its duration is observed by route and method, the metrics page itself excepted. The
  wrapped handlers are an argument, and so are the routes of Django's admin site and the measured durations.
\<close>

section \<open>Routes\<close>

text \<open>The text of a route as \<open>resolver_match.route\<close> has it: the patterns of \<open>urls.py\<close> behind their prefix.\<close>

fun route_text :: "endpoint \<Rightarrow> string" where
  "route_text Health = ''api/v1/health/''"
| "route_text Ready = ''api/v1/ready/''"
| "route_text Discovery = ''api/v1/prometheus-sd/''"
| "route_text OrderCreate = ''api/v1/orders/''"
| "route_text EventIngest = ''api/v1/events/''"
| "route_text EventsPending = ''api/v1/events/pending/''"
| "route_text (EventAck i) = ''api/v1/events/<str:event_id>/ack/''"
| "route_text (OrderCancel oid) = ''api/v1/orders/<uuid:order_id>/''"
| "route_text (BookDetail sy) = ''api/v1/books/<str:symbol>/''"
| "route_text RecentTrades = ''api/v1/trades/''"
| "route_text SymbolList = ''api/v1/symbols/''"
| "route_text TraderList = ''api/v1/traders/''"
| "route_text (TraderDetail i) = ''api/v1/traders/<uuid:trader_id>/''"

definition api_routes :: "string list" where
  "api_routes =
     map route_text [Health, Ready, Discovery, OrderCreate, EventIngest, EventsPending, EventAck [], OrderCancel 0,
       BookDetail [], RecentTrades, SymbolList, TraderList, TraderDetail 0]"

text \<open>The label of a request, \<open>None\<close> for the metrics page; \<open>admin\<close> gives the route of a path below \<open>admin/\<close>.\<close>

definition route_label :: "codec \<Rightarrow> (string \<Rightarrow> string option) \<Rightarrow> string \<Rightarrow> string option" where
  "route_label cd admin target =
     (let path = cd_unquote cd (fst (py_partition target (CHR ''?'')))
      in if path = ''/metrics/'' then None
         else case (if py_startswith path ''/admin/'' then admin path else None) of
                Some r \<Rightarrow> Some r
              | None \<Rightarrow> (case resolve_url cd path of Some e \<Rightarrow> Some (route_text e) | None \<Rightarrow> Some ''unmatched''))"

section \<open>Counting\<close>

record request_metrics =
  rq_requests :: "(string \<times> string \<times> string, int) dict"
  rq_durations :: "(string \<times> string, int) dict"

definition no_requests :: request_metrics where
  "no_requests = \<lparr>rq_requests = [], rq_durations = []\<rparr>"

text \<open>A histogram is kept here as the number of its observations.\<close>

definition count_request :: "string \<Rightarrow> string \<Rightarrow> int \<Rightarrow> request_metrics \<Rightarrow> request_metrics" where
  "count_request route verb status rm =
     rm\<lparr>rq_requests := count_one (rq_requests rm) (route, verb, str_int status),
        rq_durations := count_one (rq_durations rm) (route, verb)\<rparr>"

type_synonym 'b server_fun = "string \<Rightarrow> string \<Rightarrow> py_value option \<Rightarrow> 'b \<Rightarrow> 'b \<times> int \<times> py_value"

definition metered :: "codec \<Rightarrow> (string \<Rightarrow> string option) \<Rightarrow> 'b server_fun \<Rightarrow> ('b \<times> request_metrics) server_fun" where
  "metered cd admin serve verb target body = (\<lambda>(b, rm).
     case serve verb target body b of (b', status, v) \<Rightarrow>
       ((b', case route_label cd admin target of None \<Rightarrow> rm | Some route \<Rightarrow> count_request route verb status rm), status, v))"

text \<open>Requests one after another, and their answers.\<close>

type_synonym http_request = "string \<times> string \<times> py_value option"

fun serve_list :: "'b server_fun \<Rightarrow> http_request list \<Rightarrow> 'b \<Rightarrow> 'b \<times> (int \<times> py_value) list" where
  "serve_list serve [] b = (b, [])"
| "serve_list serve ((verb, target, body) # rs) b =
     (case serve verb target body b of (b1, a) \<Rightarrow> (case serve_list serve rs b1 of (b2, answers) \<Rightarrow> (b2, a # answers)))"

text \<open>The middleware changes neither the answers nor the state behind it.\<close>

theorem metered_is_transparent:
  "serve_list (metered cd admin serve) rs (b, rm) = ((b', rm'), answers) \<Longrightarrow> serve_list serve rs b = (b', answers)"
proof (induction rs arbitrary: b rm answers)
  case (Cons r rs)
  obtain verb target body where r: "r = (verb, target, body)" by (metis prod_cases3)
  obtain b1 status v where s: "serve verb target body b = (b1, status, v)" by (metis prod_cases3)
  then obtain rm1 where m: "metered cd admin serve verb target body (b, rm) = ((b1, rm1), status, v)" by (simp add: metered_def)
  obtain b2 rm2 answers2 where l: "serve_list (metered cd admin serve) rs (b1, rm1) = ((b2, rm2), answers2)" by (metis prod.collapse)
  have eq: "b2 = b'" "rm2 = rm'" "answers = (status, v) # answers2" using Cons.prems r m l by simp_all
  from Cons.IH [OF l [unfolded eq(1,2)]] show ?case using r s eq(3) by simp
qed simp

text \<open>The requests that bear a label, and of these the ones answered with a status.\<close>

definition labelled :: "codec \<Rightarrow> (string \<Rightarrow> string option) \<Rightarrow> string \<Rightarrow> string \<Rightarrow> http_request \<Rightarrow> bool" where
  "labelled cd admin route verb r \<longleftrightarrow> fst r = verb \<and> route_label cd admin (fst (snd r)) = Some route"

lemma counted_once:
  "counter_value (rq_requests (count_request route verb status rm)) (r, v, s)
     = counter_value (rq_requests rm) (r, v, s) + (if (r, v, s) = (route, verb, str_int status) then 1 else 0)"
  "counter_value (rq_durations (count_request route verb status rm)) (r, v)
     = counter_value (rq_durations rm) (r, v) + (if (r, v) = (route, verb) then 1 else 0)"
  by (simp_all add: count_request_def counter_value_count_one)

text \<open>
  Whatever is requested, the counter of a route, method and status is the number of requests of that route and
  method that were answered with it, and every one of them has its duration observed.
\<close>

theorem requests_are_counted:
  assumes "serve_list (metered cd admin serve) rs (b, no_requests) = ((b', rm'), answers)"
  shows "counter_value (rq_requests rm') (route, verb, status)
      = int (length (filter (\<lambda>(r, a). labelled cd admin route verb r \<and> str_int (fst a) = status) (zip rs answers)))"
    "counter_value (rq_durations rm') (route, verb) = int (length (filter (labelled cd admin route verb) rs))"
proof -
  have run: "serve_list (metered cd admin serve) rs (b, rm) = ((b', rm'), answers) \<Longrightarrow>
      counter_value (rq_requests rm') (route, verb, status) = counter_value (rq_requests rm) (route, verb, status)
        + int (length (filter (\<lambda>(r, a). labelled cd admin route verb r \<and> str_int (fst a) = status) (zip rs answers)))
      \<and> counter_value (rq_durations rm') (route, verb)
        = counter_value (rq_durations rm) (route, verb) + int (length (filter (labelled cd admin route verb) rs))" for b rm
  proof (induction rs arbitrary: b rm answers)
    case (Cons r rs)
    obtain vb target body where r: "r = (vb, target, body)" by (metis prod_cases3)
    obtain b1 st v where s: "serve vb target body b = (b1, st, v)" by (metis prod_cases3)
    let ?rm = "case route_label cd admin target of None \<Rightarrow> rm | Some route \<Rightarrow> count_request route vb st rm"
    have m: "metered cd admin serve vb target body (b, rm) = ((b1, ?rm), st, v)" using s by (simp add: metered_def)
    obtain b2 rm2 answers2 where l: "serve_list (metered cd admin serve) rs (b1, ?rm) = ((b2, rm2), answers2)" by (metis prod.collapse)
    have eq: "b2 = b'" "rm2 = rm'" "answers = (st, v) # answers2" using Cons.prems r m l by simp_all
    note ih = Cons.IH [OF l [unfolded eq(1,2)]]
    show ?case
      using ih unfolding eq(3) r
      by (cases "route_label cd admin target") (auto simp: labelled_def counted_once)
  qed simp
  from run [OF assms]
  show "counter_value (rq_requests rm') (route, verb, status)
      = int (length (filter (\<lambda>(r, a). labelled cd admin route verb r \<and> str_int (fst a) = status) (zip rs answers)))"
    "counter_value (rq_durations rm') (route, verb) = int (length (filter (labelled cd admin route verb) rs))"
    by (simp_all add: no_requests_def counter_value_def)
qed

text \<open>The labels are bounded: no symbol or identifier of a URL becomes one.\<close>

theorem labels_bounded:
  assumes "\<forall>path r. admin path = Some r \<longrightarrow> r \<in> set admin_routes"
  shows "route_label cd admin target \<in> {None, Some ''unmatched''} \<union> Some ` set (api_routes @ admin_routes)"
proof -
  have route: "route_text e \<in> set api_routes" for e by (cases e) (simp_all add: api_routes_def)
  show ?thesis using assms route by (auto simp: route_label_def Let_def split: option.splits)
qed

end
