(* ===== verification/Data_Schema.thy ===== *)
theory Data_Schema
  imports Event_Wire Profile_Admin Reference_Data
begin

text \<open>
  The tables behind the backend: the models of \<open>models.py\<close> as declarations, the migrations
  \<open>0001\<close> to \<open>0007\<close> as lists of operations, and the data that \<open>0005\<close> converts. How Django carries out an
  operation is an argument, \<open>engine_ok\<close> says what its documentation promises.

  Left out of a declaration: labels of fields, \<open>editable\<close>, \<open>serialize\<close> and \<open>related_name\<close>. Values are
  JSON values as in the serializers, a time is its microseconds, an identifier its text.
\<close>

section \<open>Declarations\<close>

datatype column_type =
    UuidCol | CharCol nat | TextCol | BoolCol | IntCol | PosCol | PosSmallCol | PosBigCol | FloatCol | JsonCol
  | DateCol | DateTimeCol | BigAutoCol | ForeignCol string

datatype column_default = NoDefault | FreshUuid | Preset py_value | OnInsert | OnSave

record column =
  col_type :: column_type
  col_key :: bool
  col_unique :: bool
  col_null :: bool
  col_blank :: bool
  col_choices :: "(string \<times> string) list"
  col_default :: column_default

definition plain :: "column_type \<Rightarrow> column" where
  "plain t = \<lparr>col_type = t, col_key = False, col_unique = False, col_null = False, col_blank = False, col_choices = [],
     col_default = NoDefault\<rparr>"

abbreviation preset :: "py_value \<Rightarrow> column \<Rightarrow> column" where
  "preset v c \<equiv> c\<lparr>col_default := Preset v\<rparr>"

abbreviation chosen :: "(string \<times> string) list \<Rightarrow> column \<Rightarrow> column" where
  "chosen cs c \<equiv> c\<lparr>col_choices := cs\<rparr>"

abbreviation optional :: "column \<Rightarrow> column" where
  "optional c \<equiv> c\<lparr>col_null := True, col_blank := True\<rparr>"

datatype table_constraint = UniqueTogether "string list" | Within string rat rat

record table_decl =
  td_columns :: "(string \<times> column) list"
  td_ordering :: "string list"
  td_indexes :: "(string \<times> string list) list"
  td_constraints :: "(string \<times> table_constraint) list"

definition uuid_key :: column where
  "uuid_key = (plain UuidCol)\<lparr>col_key := True, col_default := FreshUuid\<rparr>"

section \<open>The models\<close>

definition strategy_choices :: "(string \<times> string) list" where
  "strategy_choices =
     [(''noise'', ''Noise''), (''momentum'', ''Momentum''), (''mean_reversion'', ''Mean Reversion''),
      (''liquidity_provider'', ''Liquidity Provider''), (''event_reactive'', ''Event Reactive'')]"

definition profile_model :: table_decl where
  "profile_model =
     \<lparr>td_columns =
        [(''id'', uuid_key),
         (''name'', (plain (CharCol 100))\<lparr>col_unique := True\<rparr>),
         (''user_id'', (plain (CharCol 128))\<lparr>col_unique := True\<rparr>),
         (''strategy'', preset (PyStr ''noise'') (chosen strategy_choices (plain (CharCol 20)))),
         (''enabled'', preset (PyBool True) (plain BoolCol)),
         (''symbol'', preset (PyStr ''005930'') (plain (CharCol 6))),
         (''reference_price'', preset (PyInt 70000) (plain PosBigCol)),
         (''price_step'', preset (PyInt 100) (plain PosBigCol)),
         (''max_offset_steps'', preset (PyInt 5) (plain PosCol)),
         (''quantity_min'', preset (PyInt 1) (plain PosCol)),
         (''quantity_max'', preset (PyInt 10) (plain PosCol)),
         (''order_ttl_seconds'', preset (PyInt 16) (plain PosCol)),
         (''interval_seconds'', preset (PyInt 1) (plain PosCol)),
         (''seed'', preset (PyInt 42) (plain IntCol)),
         (''created_at'', (plain DateTimeCol)\<lparr>col_default := OnInsert\<rparr>),
         (''updated_at'', (plain DateTimeCol)\<lparr>col_default := OnSave\<rparr>)],
      td_ordering = [''name''], td_indexes = [], td_constraints = []\<rparr>"

definition symbol_model :: table_decl where
  "symbol_model =
     \<lparr>td_columns =
        [(''ticker'', (plain (CharCol 6))\<lparr>col_key := True\<rparr>),
         (''name'', plain (CharCol 120)),
         (''market'', preset (PyStr ''KOSPI'') (chosen [(''KOSPI'', ''KOSPI'')] (plain (CharCol 10)))),
         (''updated_at'', (plain DateTimeCol)\<lparr>col_default := OnSave\<rparr>)],
      td_ordering = [''ticker''], td_indexes = [], td_constraints = []\<rparr>"

text \<open>\<open>DEFAULT_AUTO_FIELD\<close> gives a model without a key of its own an identifier.\<close>

definition auto_key :: column where
  "auto_key = (plain BigAutoCol)\<lparr>col_key := True\<rparr>"

definition with_key :: "(string \<times> column) list \<Rightarrow> (string \<times> column) list" where
  "with_key cols = (if list_ex (col_key \<circ> snd) cols then cols else (''id'', auto_key) # cols)"

definition daily_model :: table_decl where
  "daily_model =
     \<lparr>td_columns =
        with_key
        [(''symbol'', plain (ForeignCol ''exchange.symbol'')),
         (''trade_date'', plain DateCol),
         (''close_price'', plain PosBigCol),
         (''volume'', plain PosBigCol),
         (''trading_value'', plain PosBigCol),
         (''trading_value_rank'', plain PosSmallCol),
         (''source'', preset (PyStr ''krx_open_api'') (plain (CharCol 30))),
         (''source_payload'', plain JsonCol),
         (''imported_at'', (plain DateTimeCol)\<lparr>col_default := OnSave\<rparr>)],
      td_ordering = [''-trade_date'', ''trading_value_rank'', ''symbol_id''],
      td_indexes = [(''market_daily_date_rank_idx'', [''trade_date'', ''trading_value_rank''])],
      td_constraints = [(''unique_symbol_market_daily_trade_date'', UniqueTogether [''symbol'', ''trade_date''])]\<rparr>"

definition run_model :: table_decl where
  "run_model =
     \<lparr>td_columns =
        [(''id'', uuid_key),
         (''trade_date'', optional (plain DateCol)),
         (''status'', preset (PyStr ''running'')
            (chosen [(''running'', ''Running''), (''success'', ''Success''), (''failed'', ''Failed'')] (plain (CharCol 10)))),
         (''selected_count'', preset (PyInt 0) (plain PosSmallCol)),
         (''source'', preset (PyStr ''krx_open_api'') (plain (CharCol 30))),
         (''error_message'', (plain TextCol)\<lparr>col_blank := True\<rparr>),
         (''started_at'', (plain DateTimeCol)\<lparr>col_default := OnInsert\<rparr>),
         (''finished_at'', optional (plain DateTimeCol))],
      td_ordering = [''-started_at''], td_indexes = [], td_constraints = []\<rparr>"

definition inbox_model :: table_decl where
  "inbox_model =
     \<lparr>td_columns =
        [(''event_id'', (plain (CharCol 255))\<lparr>col_key := True\<rparr>),
         (''symbol'', plain (CharCol 6)),
         (''event_type'', plain (CharCol 64)),
         (''direction'', chosen [(''BUY'', ''Buy''), (''SELL'', ''Sell''), (''MIXED'', ''Mixed'')] (plain (CharCol 5))),
         (''confidence'', plain FloatCol),
         (''impact'', chosen [(''low'', ''Low''), (''medium'', ''Medium''), (''high'', ''High'')] (plain (CharCol 6))),
         (''occurred_at'', optional (plain DateTimeCol)),
         (''detected_at'', plain DateTimeCol),
         (''source'', plain (CharCol 64)),
         (''source_item_id'', (plain (CharCol 255))\<lparr>col_blank := True\<rparr>),
         (''headline'', (plain TextCol)\<lparr>col_blank := True\<rparr>),
         (''state'', preset (PyStr ''pending'')
            (chosen [(''pending'', ''Pending''), (''dispatched'', ''Dispatched''), (''stale'', ''Stale'')] (plain (CharCol 16)))),
         (''received_at'', (plain DateTimeCol)\<lparr>col_default := OnInsert\<rparr>),
         (''updated_at'', (plain DateTimeCol)\<lparr>col_default := OnSave\<rparr>)],
      td_ordering = [''received_at'', ''event_id''],
      td_indexes = [(''event_inbox_state_idx'', [''state'', ''received_at''])],
      td_constraints = [(''market_event_confidence_range'', Within ''confidence'' 0 1)]\<rparr>"

text \<open>Django names a model of an application by its lower-case name.\<close>

definition models :: "(string \<times> table_decl) list" where
  "models =
     [(''traderprofile'', profile_model), (''symbol'', symbol_model), (''marketdaily'', daily_model),
      (''referenceimportrun'', run_model), (''marketeventinbox'', inbox_model)]"

section \<open>The migrations\<close>

type_synonym row = "(string \<times> py_value) list"
type_synonym tables = "string \<Rightarrow> row list option"

datatype operation =
    CreateModel string table_decl
  | RenameField string string string
  | AlterField string string column
  | RunPython "tables \<Rightarrow> tables"

definition migration_1 :: "operation list" where
  "migration_1 =
     [CreateModel ''TraderProfile''
        \<lparr>td_columns =
           [(''id'', uuid_key),
            (''name'', (plain (CharCol 100))\<lparr>col_unique := True\<rparr>),
            (''user_id'', (plain (CharCol 128))\<lparr>col_unique := True\<rparr>),
            (''strategy'', preset (PyStr ''noise'') (chosen [(''noise'', ''Noise'')] (plain (CharCol 20)))),
            (''enabled'', preset (PyBool True) (plain BoolCol)),
            (''symbol'', preset (PyStr ''005930'') (plain (CharCol 6))),
            (''reference_price'', preset (PyInt 70000) (plain PosBigCol)),
            (''price_step'', preset (PyInt 100) (plain PosBigCol)),
            (''max_offset_steps'', preset (PyInt 5) (plain PosCol)),
            (''quantity_min'', preset (PyInt 1) (plain PosCol)),
            (''quantity_max'', preset (PyInt 10) (plain PosCol)),
            (''order_ttl_ticks'', preset (PyInt 5) (plain PosCol)),
            (''interval_ticks'', preset (PyInt 1) (plain PosCol)),
            (''seed'', preset (PyInt 42) (plain IntCol)),
            (''created_at'', (plain DateTimeCol)\<lparr>col_default := OnInsert\<rparr>),
            (''updated_at'', (plain DateTimeCol)\<lparr>col_default := OnSave\<rparr>)],
         td_ordering = [''name''], td_indexes = [], td_constraints = []\<rparr>]"

definition migration_2 :: "operation list" where
  "migration_2 =
     [CreateModel ''ReferenceImportRun''
        \<lparr>td_columns =
           [(''id'', uuid_key),
            (''trade_date'', optional (plain DateCol)),
            (''status'', preset (PyStr ''running'')
               (chosen [(''running'', ''Running''), (''success'', ''Success''), (''failed'', ''Failed'')] (plain (CharCol 10)))),
            (''selected_count'', preset (PyInt 0) (plain PosSmallCol)),
            (''source'', preset (PyStr ''krx_open_api'') (plain (CharCol 30))),
            (''error_message'', (plain TextCol)\<lparr>col_blank := True\<rparr>),
            (''started_at'', (plain DateTimeCol)\<lparr>col_default := OnInsert\<rparr>),
            (''finished_at'', optional (plain DateTimeCol))],
         td_ordering = [''-started_at''], td_indexes = [], td_constraints = []\<rparr>,
      CreateModel ''Symbol''
        \<lparr>td_columns =
           [(''ticker'', (plain (CharCol 6))\<lparr>col_key := True\<rparr>),
            (''name'', plain (CharCol 120)),
            (''market'', preset (PyStr ''KOSPI'') (chosen [(''KOSPI'', ''KOSPI'')] (plain (CharCol 10)))),
            (''updated_at'', (plain DateTimeCol)\<lparr>col_default := OnSave\<rparr>)],
         td_ordering = [''ticker''], td_indexes = [], td_constraints = []\<rparr>,
      CreateModel ''MarketDaily''
        \<lparr>td_columns =
           [(''id'', auto_key),
            (''trade_date'', plain DateCol),
            (''close_price'', plain PosBigCol),
            (''volume'', plain PosBigCol),
            (''trading_value'', plain PosBigCol),
            (''trading_value_rank'', plain PosSmallCol),
            (''source'', preset (PyStr ''krx_open_api'') (plain (CharCol 30))),
            (''source_payload'', plain JsonCol),
            (''imported_at'', (plain DateTimeCol)\<lparr>col_default := OnSave\<rparr>),
            (''symbol'', plain (ForeignCol ''exchange.symbol''))],
         td_ordering = [''-trade_date'', ''trading_value_rank'', ''symbol_id''],
         td_indexes = [(''market_daily_date_rank_idx'', [''trade_date'', ''trading_value_rank''])],
         td_constraints = [(''unique_symbol_market_daily_trade_date'', UniqueTogether [''symbol'', ''trade_date''])]\<rparr>]"

definition migration_3 :: "operation list" where
  "migration_3 =
     [AlterField ''traderprofile'' ''strategy''
        (preset (PyStr ''noise'') (chosen
           [(''noise'', ''Noise''), (''momentum'', ''Momentum''), (''mean_reversion'', ''Mean Reversion''),
            (''liquidity_provider'', ''Liquidity Provider'')] (plain (CharCol 20))))]"

definition migration_4 :: "operation list" where
  "migration_4 =
     [AlterField ''traderprofile'' ''strategy''
        (preset (PyStr ''noise'') (chosen
           [(''noise'', ''Noise''), (''momentum'', ''Momentum''), (''mean_reversion'', ''Mean Reversion''),
            (''liquidity_provider'', ''Liquidity Provider''), (''event_reactive'', ''Event Reactive'')] (plain (CharCol 20))))]"

text \<open>\<open>convert_ttl_ticks_to_seconds\<close>: every profile is read, its lifetime multiplied and that column saved.\<close>

definition convert_row :: "row \<Rightarrow> row" where
  "convert_row r =
     (case dict_get r ''order_ttl_seconds'' of
        Some (PyInt n) \<Rightarrow> dict_set r ''order_ttl_seconds'' (PyInt (n * 8))
      | _ \<Rightarrow> r)"

definition convert_ttl_ticks_to_seconds :: "tables \<Rightarrow> tables" where
  "convert_ttl_ticks_to_seconds t =
     (case t ''traderprofile'' of None \<Rightarrow> t | Some rs \<Rightarrow> t(''traderprofile'' \<mapsto> map convert_row rs))"

definition migration_5 :: "operation list" where
  "migration_5 =
     [RenameField ''traderprofile'' ''order_ttl_ticks'' ''order_ttl_seconds'',
      AlterField ''traderprofile'' ''order_ttl_seconds'' (preset (PyInt 16) (plain PosCol)),
      RunPython convert_ttl_ticks_to_seconds]"

definition migration_6 :: "operation list" where
  "migration_6 =
     [RenameField ''traderprofile'' ''interval_ticks'' ''interval_seconds'',
      AlterField ''traderprofile'' ''interval_seconds'' (preset (PyInt 1) (plain PosCol))]"

definition migration_7 :: "operation list" where
  "migration_7 =
     [CreateModel ''MarketEventInbox''
        \<lparr>td_columns =
           [(''event_id'', (plain (CharCol 255))\<lparr>col_key := True\<rparr>),
            (''symbol'', plain (CharCol 6)),
            (''event_type'', plain (CharCol 64)),
            (''direction'', chosen [(''BUY'', ''Buy''), (''SELL'', ''Sell''), (''MIXED'', ''Mixed'')] (plain (CharCol 5))),
            (''confidence'', plain FloatCol),
            (''impact'', chosen [(''low'', ''Low''), (''medium'', ''Medium''), (''high'', ''High'')] (plain (CharCol 6))),
            (''occurred_at'', optional (plain DateTimeCol)),
            (''detected_at'', plain DateTimeCol),
            (''source'', plain (CharCol 64)),
            (''source_item_id'', (plain (CharCol 255))\<lparr>col_blank := True\<rparr>),
            (''headline'', (plain TextCol)\<lparr>col_blank := True\<rparr>),
            (''state'', preset (PyStr ''pending'')
               (chosen [(''pending'', ''Pending''), (''dispatched'', ''Dispatched''), (''stale'', ''Stale'')] (plain (CharCol 16)))),
            (''received_at'', (plain DateTimeCol)\<lparr>col_default := OnInsert\<rparr>),
            (''updated_at'', (plain DateTimeCol)\<lparr>col_default := OnSave\<rparr>)],
         td_ordering = [''received_at'', ''event_id''],
         td_indexes = [(''event_inbox_state_idx'', [''state'', ''received_at''])],
         td_constraints = [(''market_event_confidence_range'', Within ''confidence'' 0 1)]\<rparr>]"

text \<open>Each migration depends on the one before, so this is the order in which they are applied.\<close>

definition later_migrations :: "operation list" where
  "later_migrations = migration_2 @ migration_3 @ migration_4 @ migration_5 @ migration_6 @ migration_7"

section \<open>What Django promises of the operations\<close>

definition rename_key :: "string \<Rightarrow> string \<Rightarrow> (string \<times> 'a) list \<Rightarrow> (string \<times> 'a) list" where
  "rename_key old new = map (\<lambda>(k, v). (if k = old then new else k, v))"

definition mentions :: "table_decl \<Rightarrow> string \<Rightarrow> bool" where
  "mentions d f \<longleftrightarrow> f \<in> set (td_ordering d) \<or> (\<exists>(n, fs)\<in>set (td_indexes d). f \<in> set fs)
     \<or> (\<exists>(n, c)\<in>set (td_constraints d). case c of UniqueTogether fs \<Rightarrow> f \<in> set fs | Within g lo hi \<Rightarrow> f = g)"

text \<open>The values that a type takes; the upper bounds of integers depend on the database.\<close>

fun fits :: "column_type \<Rightarrow> py_value \<Rightarrow> bool" where
  "fits (CharCol n) (PyStr s) = (length s \<le> n)"
| "fits UuidCol (PyStr s) = True"
| "fits TextCol (PyStr s) = True"
| "fits BoolCol (PyBool b) = True"
| "fits IntCol (PyInt i) = True"
| "fits PosCol (PyInt i) = (0 \<le> i)"
| "fits PosSmallCol (PyInt i) = (0 \<le> i)"
| "fits PosBigCol (PyInt i) = (0 \<le> i)"
| "fits FloatCol (PyFloat x) = True"
| "fits DateTimeCol (PyInt t) = True"
| "fits _ _ = False"

record engine =
  en_schema :: "operation \<Rightarrow> (string \<Rightarrow> table_decl option) \<Rightarrow> string \<Rightarrow> table_decl option"
  en_rows :: "operation \<Rightarrow> tables \<Rightarrow> tables"

definition schema_ok :: "engine \<Rightarrow> bool" where
  "schema_ok en \<longleftrightarrow>
     (\<forall>name d p. en_schema en (CreateModel name d) p = p(py_lower name \<mapsto> d))
   \<and> (\<forall>mo old new p d. p mo = Some d \<and> \<not> mentions d old \<longrightarrow>
        en_schema en (RenameField mo old new) p = p(mo \<mapsto> d\<lparr>td_columns := rename_key old new (td_columns d)\<rparr>))
   \<and> (\<forall>mo f c p d. p mo = Some d \<longrightarrow>
        en_schema en (AlterField mo f c) p = p(mo \<mapsto> d\<lparr>td_columns := map (\<lambda>(k, v). (k, if k = f then c else v)) (td_columns d)\<rparr>))
   \<and> (\<forall>g p. en_schema en (RunPython g) p = p)"

definition rows_ok :: "engine \<Rightarrow> bool" where
  "rows_ok en \<longleftrightarrow>
     (\<forall>name d t. en_rows en (CreateModel name d) t = t(py_lower name \<mapsto> []))
   \<and> (\<forall>mo old new t rs. t mo = Some rs \<longrightarrow> en_rows en (RenameField mo old new) t = t(mo \<mapsto> map (rename_key old new) rs))
   \<and> (\<forall>mo f c t rs. t mo = Some rs \<and> (\<forall>r\<in>set rs. \<forall>v. dict_get r f = Some v \<longrightarrow> fits (col_type c) v) \<longrightarrow>
        en_rows en (AlterField mo f c) t = t)
   \<and> (\<forall>g t. en_rows en (RunPython g) t = g t)"

lemma schema_okD:
  assumes "schema_ok en"
  shows "en_schema en (CreateModel name d) p = p(py_lower name \<mapsto> d)"
    and "p mo = Some d \<Longrightarrow> \<not> mentions d old \<Longrightarrow>
      en_schema en (RenameField mo old new) p = p(mo \<mapsto> d\<lparr>td_columns := rename_key old new (td_columns d)\<rparr>)"
    and "p mo = Some d \<Longrightarrow>
      en_schema en (AlterField mo f c) p = p(mo \<mapsto> d\<lparr>td_columns := map (\<lambda>(k, v). (k, if k = f then c else v)) (td_columns d)\<rparr>)"
    and "en_schema en (RunPython g) p = p"
proof -
  note ok = assms [unfolded schema_ok_def]
  note rest = ok [THEN conjunct2] note last = rest [THEN conjunct2]
  show "en_schema en (CreateModel name d) p = p(py_lower name \<mapsto> d)" by (rule ok [THEN conjunct1, rule_format])
  show "p mo = Some d \<Longrightarrow> \<not> mentions d old \<Longrightarrow>
      en_schema en (RenameField mo old new) p = p(mo \<mapsto> d\<lparr>td_columns := rename_key old new (td_columns d)\<rparr>)"
    by (rule rest [THEN conjunct1, rule_format, OF conjI])
  show "p mo = Some d \<Longrightarrow>
      en_schema en (AlterField mo f c) p = p(mo \<mapsto> d\<lparr>td_columns := map (\<lambda>(k, v). (k, if k = f then c else v)) (td_columns d)\<rparr>)"
    by (rule last [THEN conjunct1, rule_format])
  show "en_schema en (RunPython g) p = p" by (rule last [THEN conjunct2, rule_format])
qed

lemma rows_okD:
  assumes "rows_ok en"
  shows "en_rows en (CreateModel name d) t = t(py_lower name \<mapsto> [])"
    and "t mo = Some rs \<Longrightarrow> en_rows en (RenameField mo old new) t = t(mo \<mapsto> map (rename_key old new) rs)"
    and "t mo = Some rs \<Longrightarrow> \<forall>r\<in>set rs. \<forall>v. dict_get r f = Some v \<longrightarrow> fits (col_type c) v \<Longrightarrow> en_rows en (AlterField mo f c) t = t"
    and "en_rows en (RunPython g) t = g t"
proof -
  note ok = assms [unfolded rows_ok_def]
  note rest = ok [THEN conjunct2] note last = rest [THEN conjunct2]
  show "en_rows en (CreateModel name d) t = t(py_lower name \<mapsto> [])" by (rule ok [THEN conjunct1, rule_format])
  show "t mo = Some rs \<Longrightarrow> en_rows en (RenameField mo old new) t = t(mo \<mapsto> map (rename_key old new) rs)"
    by (rule rest [THEN conjunct1, rule_format])
  show "t mo = Some rs \<Longrightarrow> \<forall>r\<in>set rs. \<forall>v. dict_get r f = Some v \<longrightarrow> fits (col_type c) v \<Longrightarrow> en_rows en (AlterField mo f c) t = t"
    by (rule last [THEN conjunct1, rule_format, OF conjI]) blast+
  show "en_rows en (RunPython g) t = g t" by (rule last [THEN conjunct2, rule_format])
qed

text \<open>An engine that does this and nothing where the documentation promises nothing.\<close>

definition documented :: engine where
  "documented =
     \<lparr>en_schema = (\<lambda>op p. case op of
          CreateModel name d \<Rightarrow> p(py_lower name \<mapsto> d)
        | RenameField mo old new \<Rightarrow>
            (case p mo of None \<Rightarrow> p | Some d \<Rightarrow> p(mo \<mapsto> d\<lparr>td_columns := rename_key old new (td_columns d)\<rparr>))
        | AlterField mo f c \<Rightarrow>
            (case p mo of None \<Rightarrow> p
             | Some d \<Rightarrow> p(mo \<mapsto> d\<lparr>td_columns := map (\<lambda>(k, v). (k, if k = f then c else v)) (td_columns d)\<rparr>))
        | RunPython g \<Rightarrow> p),
      en_rows = (\<lambda>op t. case op of
          CreateModel name d \<Rightarrow> t(py_lower name \<mapsto> [])
        | RenameField mo old new \<Rightarrow> (case t mo of None \<Rightarrow> t | Some rs \<Rightarrow> t(mo \<mapsto> map (rename_key old new) rs))
        | AlterField mo f c \<Rightarrow> t
        | RunPython g \<Rightarrow> g t)\<rparr>"

lemma documented_ok: "schema_ok documented" "rows_ok documented"
  by (simp_all add: schema_ok_def rows_ok_def documented_def)

section \<open>The migrations make the models\<close>

text \<open>Columns are found by name; their order in the table is of no consequence.\<close>

definition same_table :: "table_decl \<Rightarrow> table_decl \<Rightarrow> bool" where
  "same_table a b \<longleftrightarrow> map_of (td_columns a) = map_of (td_columns b) \<and> td_ordering a = td_ordering b
     \<and> td_indexes a = td_indexes b \<and> td_constraints a = td_constraints b"

lemma same_table_refl [simp]: "same_table a a"
  by (simp add: same_table_def)

lemma model_names:
  "py_lower ''TraderProfile'' = ''traderprofile''" "py_lower ''ReferenceImportRun'' = ''referenceimportrun''"
  "py_lower ''Symbol'' = ''symbol''" "py_lower ''MarketDaily'' = ''marketdaily''" "py_lower ''MarketEventInbox'' = ''marketeventinbox''"
  by (simp_all add: py_lower_def lower_char_def char_of_def bit_0)

lemmas migration_defs = migration_1_def migration_2_def migration_3_def migration_4_def migration_5_def migration_6_def migration_7_def
  later_migrations_def

text \<open>The operations on the profiles one after another, in a project that has other tables too.\<close>

definition first_profile_table :: table_decl where
  "first_profile_table = (case migration_1 of CreateModel name d # _ \<Rightarrow> d | _ \<Rightarrow> undefined)"

lemma profile_operations:
  assumes "schema_ok en" "p ''traderprofile'' = Some first_profile_table"
  shows "fold (en_schema en) (migration_3 @ migration_4 @ migration_5 @ migration_6) p = p(''traderprofile'' \<mapsto> profile_model)"
proof -
  note en = schema_okD [OF assms(1)]
  let ?d = first_profile_table
  define col where "col = (\<lambda>f (c :: column) (d :: table_decl). d\<lparr>td_columns := map (\<lambda>(k, v). (k, if k = f then c else v)) (td_columns d)\<rparr>)"
  define ren where "ren = (\<lambda>old new (d :: table_decl). d\<lparr>td_columns := rename_key old new (td_columns d)\<rparr>)"
  have order: "td_ordering ?d = [''name'']" "td_indexes ?d = []" "td_constraints ?d = []"
    by (simp_all add: first_profile_table_def migration_1_def)
  have keep: "td_ordering (col f c d) = td_ordering d" "td_indexes (col f c d) = td_indexes d" "td_constraints (col f c d) = td_constraints d"
    "td_ordering (ren old new d) = td_ordering d" "td_indexes (ren old new d) = td_indexes d" "td_constraints (ren old new d) = td_constraints d"
    for f c d old new by (simp_all add: col_def ren_def)
  have alter: "en_schema en (AlterField ''traderprofile'' f c) (q(''traderprofile'' \<mapsto> d)) = q(''traderprofile'' \<mapsto> col f c d)" for q f c d
    by (simp add: en(3) col_def)
  have rename: "en_schema en (RenameField ''traderprofile'' old new) (q(''traderprofile'' \<mapsto> d)) = q(''traderprofile'' \<mapsto> ren old new d)"
    if "\<not> mentions d old" for q old new d using that by (simp add: en(2) ren_def)
  have ment: "\<not> mentions d ''order_ttl_ticks''" "\<not> mentions d ''interval_ticks''"
    if "td_ordering d = [''name'']" "td_indexes d = []" "td_constraints d = []" for d
    using that by (simp_all add: mentions_def)
  have p: "p = p(''traderprofile'' \<mapsto> ?d)" using assms(2) by (simp add: fun_upd_idem)
  have "fold (en_schema en) (migration_3 @ migration_4 @ migration_5 @ migration_6) (p(''traderprofile'' \<mapsto> ?d))
      = p(''traderprofile'' \<mapsto> col ''interval_seconds'' (preset (PyInt 1) (plain PosCol))
          (ren ''interval_ticks'' ''interval_seconds''
          (col ''order_ttl_seconds'' (preset (PyInt 16) (plain PosCol))
          (ren ''order_ttl_ticks'' ''order_ttl_seconds''
          (col ''strategy'' (preset (PyStr ''noise'') (chosen strategy_choices (plain (CharCol 20))))
          (col ''strategy'' (preset (PyStr ''noise'') (chosen (take 4 strategy_choices) (plain (CharCol 20)))) ?d))))))"
    by (simp add: migration_3_def migration_4_def migration_5_def migration_6_def alter rename ment keep order en(4) strategy_choices_def)
  moreover have "\<dots> = p(''traderprofile'' \<mapsto> profile_model)"
    by (simp add: col_def ren_def first_profile_table_def migration_1_def profile_model_def rename_key_def)
  ultimately show ?thesis by (simp only: p [symmetric])
qed

lemma daily_tables:
  "case migration_2 ! 2 of CreateModel name d \<Rightarrow> same_table d daily_model | _ \<Rightarrow> False"
proof -
  have key: "col_key auto_key" "\<not> col_key (plain t)" "col_key (c\<lparr>col_default := e\<rparr>) = col_key c" for t c e
    by (simp_all add: auto_key_def plain_def)
  show ?thesis
    by (simp add: migration_2_def same_table_def daily_model_def with_key_def key) (rule ext, case_tac "x = ''symbol''", simp_all)
qed


text \<open>Whatever carries the operations out as documented: the migrations leave exactly the tables of \<open>models.py\<close>.\<close>

theorem migrations_make_models:
  assumes "schema_ok en"
  shows "rel_option same_table (fold (en_schema en) (migration_1 @ later_migrations) Map.empty name) (map_of models name)"
proof -
  note en = schema_okD [OF assms] model_names
  obtain d where d: "migration_2 ! 2 = CreateModel ''MarketDaily'' d" by (simp add: migration_2_def)
  have daily: "same_table d daily_model" using daily_tables d by simp
  let ?p1 = "[''traderprofile'' \<mapsto> first_profile_table]"
  have 1: "fold (en_schema en) migration_1 Map.empty = ?p1"
    by (simp add: migration_1_def first_profile_table_def en)
  let ?p2 = "?p1(''referenceimportrun'' \<mapsto> run_model, ''symbol'' \<mapsto> symbol_model, ''marketdaily'' \<mapsto> d)"
  have 2: "fold (en_schema en) migration_2 ?p1 = ?p2"
    using d by (simp add: migration_2_def en run_model_def symbol_model_def)
  have 3: "fold (en_schema en) (migration_3 @ migration_4 @ migration_5 @ migration_6) ?p2 = ?p2(''traderprofile'' \<mapsto> profile_model)"
    by (rule profile_operations [OF assms]) simp
  have 4: "fold (en_schema en) migration_7 q = q(''marketeventinbox'' \<mapsto> inbox_model)" for q
    by (simp add: migration_7_def en inbox_model_def)
  have "fold (en_schema en) (migration_1 @ later_migrations) Map.empty
      = fold (en_schema en) migration_7 (fold (en_schema en) (migration_3 @ migration_4 @ migration_5 @ migration_6)
          (fold (en_schema en) migration_2 (fold (en_schema en) migration_1 Map.empty)))"
    by (simp add: later_migrations_def)
  also have "\<dots> = ?p2(''traderprofile'' \<mapsto> profile_model, ''marketeventinbox'' \<mapsto> inbox_model)"
    by (simp only: 1 2 3 4)
  finally show ?thesis using daily by (simp add: models_def)
qed

section \<open>Profiles of the first schema keep their settings\<close>

text \<open>
  The row of a profile, as its serializer shows it and without the two times; before migration \<open>0005\<close> and
  \<open>0006\<close> its lifetime and its interval were counted in ticks, under other names.
\<close>

definition first_row :: "(uuid \<Rightarrow> string) \<Rightarrow> trader_profile \<Rightarrow> row" where
  "first_row uuid_text p =
     rename_key ''order_ttl_seconds'' ''order_ttl_ticks'' (rename_key ''interval_seconds'' ''interval_ticks'' (profile_fields uuid_text p))"

definition migrated_profile :: "trader_profile \<Rightarrow> trader_profile" where
  "migrated_profile p = p\<lparr>tp_ttl := 8 * tp_ttl p\<rparr>"

theorem profiles_survive_migrations:
  assumes "rows_ok en" "t ''traderprofile'' = Some (map (first_row uuid_text) ps)"
    and "\<forall>p\<in>set ps. length (tp_strategy p) \<le> 20 \<and> 0 \<le> tp_ttl p \<and> 0 \<le> tp_interval p"
  shows "fold (en_rows en) later_migrations t ''traderprofile'' = Some (map (profile_fields uuid_text \<circ> migrated_profile) ps)"
proof -
  note en = rows_okD [OF assms(1)]
  let ?s = "''traderprofile''"
  have create: "en_rows en (CreateModel name d) q ?s = Some rs" if "q ?s = Some rs" "py_lower name \<noteq> ?s" for name d q rs
    using that by (simp add: en(1))
  have alter: "en_rows en (AlterField ?s f c) q = q"
    if "q ?s = Some (map g ps)" "\<forall>p\<in>set ps. \<exists>v. dict_get (g p) f = Some v \<and> fits (col_type c) v" for g f c q
    using that by (intro en(3) [where rs = "map g ps"]) fastforce+
  let ?rows = "\<lambda>g. Some (map g ps)"
  let ?g1 = "\<lambda>p. rename_key ''order_ttl_ticks'' ''order_ttl_seconds'' (first_row uuid_text p)"
  let ?g2 = "\<lambda>p. convert_row (?g1 p)"
  let ?g3 = "\<lambda>p. rename_key ''interval_ticks'' ''interval_seconds'' (?g2 p)"
  have fields: "dict_get (first_row uuid_text p) ''strategy'' = Some (PyStr (tp_strategy p))"
    "dict_get (?g1 p) ''order_ttl_seconds'' = Some (PyInt (tp_ttl p))"
    "?g3 p = profile_fields uuid_text (migrated_profile p)" for p
    by (simp_all add: first_row_def rename_key_def profile_fields_def convert_row_def migrated_profile_def)
  have fields3: "dict_get (?g3 p) ''interval_seconds'' = Some (PyInt (tp_interval p))" for p
    unfolding fields by (simp add: profile_fields_def migrated_profile_def)
  have 2: "fold (en_rows en) migration_2 t ?s = ?rows (first_row uuid_text)"
    using assms(2) by (simp add: migration_2_def en(1) model_names)
  have 34: "fold (en_rows en) (migration_3 @ migration_4) q = q" if "q ?s = ?rows (first_row uuid_text)" for q
    using alter [where g = "first_row uuid_text" and f = "''strategy''" and q = q, OF that] assms(3)
    by (simp add: migration_3_def migration_4_def fields plain_def)
  have 5: "fold (en_rows en) migration_5 q = q(?s \<mapsto> map ?g2 ps)" if q: "q ?s = ?rows (first_row uuid_text)" for q
  proof -
    have r: "en_rows en (RenameField ?s ''order_ttl_ticks'' ''order_ttl_seconds'') q = q(?s \<mapsto> map ?g1 ps)"
      by (simp add: en(2) [where t = q, OF q] comp_def)
    have "en_rows en (AlterField ?s ''order_ttl_seconds'' (preset (PyInt 16) (plain PosCol))) (q(?s \<mapsto> map ?g1 ps)) = q(?s \<mapsto> map ?g1 ps)"
      by (rule alter [where g = ?g1]) (use assms(3) in \<open>simp_all add: fields plain_def\<close>)
    moreover have "convert_ttl_ticks_to_seconds (q(?s \<mapsto> map ?g1 ps)) = q(?s \<mapsto> map ?g2 ps)"
      by (simp add: convert_ttl_ticks_to_seconds_def comp_def)
    ultimately show ?thesis by (simp only: migration_5_def fold_simps r en(4))
  qed
  have 6: "fold (en_rows en) migration_6 q = q(?s \<mapsto> map ?g3 ps)" if q: "q ?s = ?rows ?g2" for q
  proof -
    have r: "en_rows en (RenameField ?s ''interval_ticks'' ''interval_seconds'') q = q(?s \<mapsto> map ?g3 ps)"
      by (simp add: en(2) [where t = q, OF q] comp_def)
    have "en_rows en (AlterField ?s ''interval_seconds'' (preset (PyInt 1) (plain PosCol))) (q(?s \<mapsto> map ?g3 ps)) = q(?s \<mapsto> map ?g3 ps)"
      by (rule alter [where g = ?g3]) (use assms(3) fields3 in \<open>simp_all add: plain_def\<close>)
    with r show ?thesis by (simp add: migration_6_def)
  qed
  have 7: "fold (en_rows en) migration_7 q ?s = q ?s" for q by (simp add: migration_7_def en(1) model_names)
  let ?q2 = "fold (en_rows en) migration_2 t"
  have "fold (en_rows en) later_migrations t
      = fold (en_rows en) migration_7 (fold (en_rows en) migration_6 (fold (en_rows en) migration_5
          (fold (en_rows en) (migration_3 @ migration_4) ?q2)))"
    by (simp add: later_migrations_def)
  also have "\<dots> = fold (en_rows en) migration_7 (?q2(?s \<mapsto> map ?g3 ps))"
    by (simp del: fold_append add: 34 [of ?q2, OF 2] 5 [of ?q2, OF 2] 6 [of "?q2(?s \<mapsto> map ?g2 ps)"])
  finally show ?thesis using 7 [of "?q2(?s \<mapsto> map ?g3 ps)"] by (simp add: fields comp_def)
qed

text \<open>A profile that could run still can.\<close>

lemma migrated_runnable: "runnable p \<Longrightarrow> runnable (migrated_profile p)"
  by (simp add: runnable_iff migrated_profile_def)


section \<open>The rows that the backend stores fit their tables\<close>

definition accepts :: "column \<Rightarrow> py_value \<Rightarrow> bool" where
  "accepts c v \<longleftrightarrow> v = PyNone \<and> col_null c
     \<or> fits (col_type c) v \<and> (col_choices c = [] \<or> v \<in> (PyStr \<circ> fst) ` set (col_choices c))"

definition row_fits :: "table_decl \<Rightarrow> row \<Rightarrow> bool" where
  "row_fits d r \<longleftrightarrow> (\<forall>(f, v)\<in>set r. \<exists>c. map_of (td_columns d) f = Some c \<and> accepts c v)
     \<and> (\<forall>(n, k)\<in>set (td_constraints d). case k of
          Within f lo hi \<Rightarrow> (\<exists>x. dict_get r f = Some (PyFloat x) \<and> lo \<le> x \<and> x \<le> hi) | UniqueTogether fs \<Rightarrow> True)"

definition time_value :: "int option \<Rightarrow> py_value" where
  "time_value t = (case t of None \<Rightarrow> PyNone | Some n \<Rightarrow> PyInt n)"

definition event_row :: "inbox_event \<Rightarrow> row" where
  "event_row e =
     [(''event_id'', PyStr (me_id e)), (''symbol'', PyStr (me_symbol e)), (''event_type'', PyStr (me_type e)),
      (''direction'', PyStr (me_direction e)), (''confidence'', PyFloat (me_confidence e)), (''impact'', PyStr (me_impact e)),
      (''occurred_at'', time_value (me_occurred e)), (''detected_at'', PyInt (me_detected e)), (''source'', PyStr (me_source e)),
      (''source_item_id'', PyStr (me_source_item e)), (''headline'', PyStr (me_headline e)), (''state'', PyStr (state_value (me_state e)))]"

text \<open>The lengths, choices and the check constraint of the inbox refuse no event that its endpoints stored.\<close>

theorem stored_events_fit:
  assumes "inbox_run seoul mode max_age reqs [] = (ib, rs)" "dict_get ib i = Some e"
  shows "row_fits inbox_model (event_row e)"
proof -
  have f: "declared_fields (market_event.truncate e)"
    using reachable_inbox(2) [OF assms(1)] assms(2) by (simp add: rows_declared_def)
  have "me_occurred e = None \<or> (\<exists>t. me_occurred e = Some t)" by (cases "me_occurred e") auto
  then show ?thesis
    using f by (cases "me_state e")
      (auto simp: row_fits_def event_row_def inbox_model_def accepts_def plain_def time_value_def declared_fields_def
        market_event.truncate_def text_field_def directions_def impacts_def)
qed

text \<open>The table of the profiles, with the unique columns and the identifiers, under its endpoints.\<close>

definition profiles_fit :: "(uuid \<Rightarrow> string) \<Rightarrow> trader_profile list \<Rightarrow> bool" where
  "profiles_fit uuid_text ps \<longleftrightarrow> (\<forall>p\<in>set ps. row_fits profile_model (profile_fields uuid_text p))
     \<and> distinct (map tp_name ps) \<and> distinct (map tp_user ps) \<and> distinct (map tp_id ps)"

lemma profile_row_fits:
  "row_fits profile_model (profile_fields uuid_text p) \<longleftrightarrow> length (tp_name p) \<le> 100 \<and> length (tp_user p) \<le> 128
     \<and> tp_strategy p \<in> set supported_strategies \<and> length (tp_symbol p) \<le> 6 \<and> 0 \<le> tp_reference p \<and> 0 \<le> tp_step p \<and> 0 \<le> tp_offset p
     \<and> 0 \<le> tp_qmin p \<and> 0 \<le> tp_qmax p \<and> 0 \<le> tp_ttl p \<and> 0 \<le> tp_interval p"
  by (auto simp: row_fits_def profile_fields_def profile_model_def accepts_def plain_def uuid_key_def strategy_choices_def
      supported_strategies_def)


lemma applied_fits:
  assumes "fields_ok partial others r" "row_fits profile_model (profile_fields uuid_text p)"
  shows "row_fits profile_model (profile_fields uuid_text (apply_request r p))"
proof -
  note p = assms(2) [unfolded profile_row_fits]
  from assms(1) have texts: "present (\<lambda>x. text_field 100 x \<and> x \<notin> tp_name ` set others) (pr_name r)"
    "present (\<lambda>x. text_field 128 x \<and> x \<notin> tp_user ` set others) (pr_user r)" "present (text_field 6) (pr_symbol r)"
    "present (\<lambda>x. x \<in> set supported_strategies) (pr_strategy r)"
    unfolding fields_ok_def by blast+
  have short: "length (given v old) \<le> n" if "present (\<lambda>x. text_field n x \<and> Q x) v" "length old \<le> n" for v old n Q
    using that by (cases v) (simp_all add: given_def present_def text_field_def)
  have number: "0 \<le> given v old" if "present (\<lambda>x. k \<le> x) v" "0 \<le> k" "0 \<le> old" for v and old k :: int
    using that by (cases v) (auto simp: given_def present_def)
  from assms(1) have "present (\<lambda>x. 1 \<le> x) (pr_reference r)" "present (\<lambda>x. 1 \<le> x) (pr_step r)" "present (\<lambda>x. 0 \<le> x) (pr_offset r)"
    "present (\<lambda>x. 1 \<le> x) (pr_qmin r)" "present (\<lambda>x. 1 \<le> x) (pr_qmax r)" "present (\<lambda>x. 1 \<le> x) (pr_ttl r)"
    "present (\<lambda>x. 1 \<le> x) (pr_interval r)"
    unfolding fields_ok_def by blast+
  note numbers = this [THEN number]
  have "given (pr_strategy r) (tp_strategy p) \<in> set supported_strategies" by (rule given_present [OF texts(4)]) (use p in blast)
  then show ?thesis
    using short [OF texts(1), of "tp_name p"] short [OF texts(2), of "tp_user p"] p
      short [of 6 "\<lambda>_. True" "pr_symbol r" "tp_symbol p"] texts(3)
    unfolding profile_row_fits by (simp add: apply_request_def numbers)
qed

lemma default_fits: "row_fits profile_model (profile_fields uuid_text (default_profile uid))"
  by (simp add: profile_row_fits default_profile_def supported_strategies_def)

lemma create_fits:
  assumes "profiles_fit uuid_text ps" "uid \<notin> tp_id ` set ps" "create_profile debug st rows uid r (c, ps) = ((c', ps'), res)"
  shows "profiles_fit uuid_text ps'"
proof (cases "ps' = ps")
  case False
  let ?p = "apply_request r (default_profile uid)"
  obtain c1 u where k: "check_request st rows None ps r c = (c1, Inr u)" "ps' = ps @ [?p]"
    using assms(3) False by (auto simp: create_profile_def Let_def split: if_splits prod.splits sum.splits)
  from check_request_range [OF k(1)] have f: "fields_ok False ps r" by simp
  have new: "tp_name ?p \<notin> tp_name ` set ps" "tp_user ?p \<notin> tp_user ` set ps" "tp_id ?p = uid"
    using f by (auto simp: fields_ok_def apply_request_def given_def present_def default_profile_def)
  show ?thesis using assms(1,2) new applied_fits [OF f default_fits] by (simp add: k(2) profiles_fit_def)
qed (use assms(1) in simp)

lemma patch_fits:
  assumes "profiles_fit uuid_text ps" "patch_profile debug st rows i r (c, ps) = ((c', ps'), res)"
  shows "profiles_fit uuid_text ps'"
proof (cases "ps' = ps")
  case False
  let ?others = "filter (\<lambda>q. tp_id q \<noteq> i) ps"
  obtain p c1 u where k: "find_profile i ps = Some p" "check_request st rows (Some p) ?others r c = (c1, Inr u)"
      "ps' = map (\<lambda>q. if tp_id q = i then apply_request r p else q) ps"
    using assms(2) False by (auto simp: patch_profile_def Let_def split: if_splits prod.splits sum.splits option.splits)
  have p: "p \<in> set ps" "tp_id p = i" using k(1) by (auto simp: find_profile_def find_Some_iff)
  have dist: "distinct (map tp_name ps)" "distinct (map tp_user ps)" "distinct (map tp_id ps)"
    using assms(1) by (simp_all add: profiles_fit_def)
  obtain xs ys where ps: "ps = xs @ p # ys" using p(1) by (meson split_list)
  have ne: "tp_id q \<noteq> tp_id p" if "q \<in> set xs \<union> set ys" for q
    using dist(3) that unfolding ps by (auto simp: image_iff)
  have others: "?others = xs @ ys" "map (\<lambda>q. if tp_id q = i then apply_request r p else q) ps = xs @ apply_request r p # ys"
    using ne p(2) unfolding ps by (simp_all add: filter_id_conv map_idI)
  from check_request_range [OF k(2)] have f: "fields_ok True (xs @ ys) r" by (simp add: others)
  from f have unique: "present (\<lambda>x. text_field 100 x \<and> x \<notin> tp_name ` set (xs @ ys)) (pr_name r)"
    "present (\<lambda>x. text_field 128 x \<and> x \<notin> tp_user ` set (xs @ ys)) (pr_user r)"
    unfolding fields_ok_def by blast+
  have "tp_name (apply_request r p) \<notin> tp_name ` set (xs @ ys)" "tp_user (apply_request r p) \<notin> tp_user ` set (xs @ ys)"
    using unique dist(1,2) by (auto simp: ps apply_request_def given_def present_def split: option.splits)
  moreover have "tp_id (apply_request r p) = tp_id p" by (simp add: apply_request_def)
  ultimately show ?thesis
    using assms(1) dist applied_fits [OF f] unfolding k(3) others(2) by (auto simp: profiles_fit_def ps)
qed (use assms(1) in simp)

lemma delete_fits:
  "profiles_fit uuid_text ps \<Longrightarrow> delete_profile debug i (c, ps) = ((c', ps'), res) \<Longrightarrow> profiles_fit uuid_text ps'"
  by (auto simp: delete_profile_def profiles_fit_def distinct_map inj_on_def split: option.splits if_splits)

end
